(* ===== verification/Prelude.thy ===== *)
theory Prelude
  imports Complex_Main "HOL-Library.Char_ord" "HOL-Library.List_Lexorder"
    "HOL-Library.Product_Lexorder"
begin

text \<open>
  What the component theories share: the development's collections of rewrite rules, the
  part of Rust's standard library the sources use (fixed-width integer arithmetic, \<open>str\<close>
  methods, integer printing, \<open>f64\<close> comparisons, first-match search over slices), the JSON
  values that payload fields carry, and the interface of the external decimal type.

  Conventions.
  \<^item> A Rust string is the list of its characters, each a code point below 256 (the type
    \<^typ>\<open>char\<close>); white space and case conversion follow the Unicode tables on that range.
  \<^item> \<open>i64\<close>, \<open>u32\<close> and \<open>u64\<close> values are \<^typ>\<open>int\<close> or \<^typ>\<open>nat\<close>; where the
    code computes with them the wrap-around of the release profile is written out.
  \<^item> An \<open>f64\<close> is \<open>F_nan\<close>, an infinity or a finite value, read as the rational number it
    denotes. The two zeros are one value: no modelled operation tells them apart.
\<close>

named_theorems rust_simps \<open>unfolding rules for the standard-library operations\<close>
named_theorems gate_simps \<open>unfolding rules for guard predicates and checklists\<close>
named_theorems stage_simps \<open>unfolding rules for stage indices and transition tables\<close>

section \<open>Fixed-width integers\<close>

definition wrap_i64 :: "int \<Rightarrow> int" where
  "wrap_i64 x = (x + 2 ^ 63) mod 2 ^ 64 - 2 ^ 63"

definition in_i64 :: "int \<Rightarrow> bool" where
  "in_i64 x \<longleftrightarrow> - (2 ^ 63) \<le> x \<and> x < 2 ^ 63"

definition i64_sub :: "int \<Rightarrow> int \<Rightarrow> int" where
  "i64_sub a b = wrap_i64 (a - b)"

definition as_u32 :: "nat \<Rightarrow> nat" where
  "as_u32 n = n mod 2 ^ 32"

definition u64_max :: nat where
  "u64_max = 2 ^ 64 - 1"

lemma wrap_i64_id [simp]: "in_i64 x \<Longrightarrow> wrap_i64 x = x"
  by (simp add: wrap_i64_def in_i64_def)

lemma wrap_i64_range: "in_i64 (wrap_i64 x)"
proof -
  have "0 \<le> (x + 2 ^ 63) mod 2 ^ 64" and "(x + 2 ^ 63) mod 2 ^ 64 < (2 ^ 64 :: int)"
    by simp_all
  then show ?thesis by (simp add: wrap_i64_def in_i64_def)
qed

lemma i64_sub_exact: "in_i64 (a - b) \<Longrightarrow> i64_sub a b = a - b"
  by (simp add: i64_sub_def)

lemma as_u32_small [simp]: "n < 2 ^ 32 \<Longrightarrow> as_u32 n = n"
  by (simp add: as_u32_def)

lemma as_u32_bound: "as_u32 n < 2 ^ 32"
  by (simp add: as_u32_def)

section \<open>Strings\<close>

text \<open>\<open>char::is_whitespace\<close> on code points below 256: tab to carriage return, space, NEL
  and the no-break space.\<close>

definition is_whitespace :: "char \<Rightarrow> bool" where
  "is_whitespace c \<longleftrightarrow>
     (let n = of_char c :: nat in (9 \<le> n \<and> n \<le> 13) \<or> n = 32 \<or> n = 133 \<or> n = 160)"

definition trim :: "string \<Rightarrow> string" where
  "trim s = rev (dropWhile is_whitespace (rev (dropWhile is_whitespace s)))"

definition is_blank :: "string \<Rightarrow> bool" where
  "is_blank s \<longleftrightarrow> trim s = []"

text \<open>\<open>str::to_lowercase\<close> on code points below 256: \<open>A\<close> to \<open>Z\<close> and the accented capitals
  192 to 222 (215 is the multiplication sign) move up by 32.\<close>

definition char_lower :: "char \<Rightarrow> char" where
  "char_lower c =
     (let n = of_char c :: nat
      in if (65 \<le> n \<and> n \<le> 90) \<or> (192 \<le> n \<and> n \<le> 222 \<and> n \<noteq> 215)
         then char_of (n + 32) else c)"

definition to_lowercase :: "string \<Rightarrow> string" where
  "to_lowercase = map char_lower"

fun join :: "string \<Rightarrow> string list \<Rightarrow> string" where
  "join sep [] = []"
| "join sep [x] = x"
| "join sep (x # y # xs) = x @ sep @ join sep (y # xs)"

lemma dropWhile_all_iff: "dropWhile P xs = [] \<longleftrightarrow> (\<forall>x \<in> set xs. P x)"
  by (induction xs) auto

lemma is_blank_iff [rust_simps]: "is_blank s \<longleftrightarrow> (\<forall>c \<in> set s. is_whitespace c)"
proof -
  have "is_blank s \<longleftrightarrow> (\<forall>c \<in> set (dropWhile is_whitespace s). is_whitespace c)"
    by (simp add: is_blank_def trim_def dropWhile_all_iff)
  also have "\<dots> \<longleftrightarrow> dropWhile is_whitespace s = []"
    by (metis dropWhile_all_iff dropWhile_idem)
  finally show ?thesis by (simp add: dropWhile_all_iff)
qed

lemma is_blank_Nil [simp]: "is_blank []"
  by (simp add: is_blank_iff)

lemma dropWhile_hd: "s = [] \<or> \<not> P (hd s) \<Longrightarrow> dropWhile P s = s"
  by (cases s) auto

lemma trim_id: "\<not> is_whitespace (hd s) \<Longrightarrow> \<not> is_whitespace (last s) \<Longrightarrow> trim s = s"
  by (cases "s = []") (simp_all add: trim_def dropWhile_hd hd_rev)

subsection \<open>Printing integers\<close>

definition digit_char :: "nat \<Rightarrow> char" where
  "digit_char d = char_of (48 + d)"

fun show_nat :: "nat \<Rightarrow> string" where
  "show_nat n = (if n < 10 then [digit_char n] else show_nat (n div 10) @ [digit_char (n mod 10)])"

declare show_nat.simps [simp del]

definition show_int :: "int \<Rightarrow> string" where
  "show_int x = (if x < 0 then CHR ''-'' # show_nat (nat (- x)) else show_nat (nat x))"

definition char_digit :: "char \<Rightarrow> nat" where
  "char_digit c = of_char c - 48"

definition read_nat :: "string \<Rightarrow> nat" where
  "read_nat s = foldl (\<lambda>a c. 10 * a + char_digit c) 0 s"

lemma char_digit_digit_char [simp]: "d < 10 \<Longrightarrow> char_digit (digit_char d) = d"
  by (simp add: char_digit_def digit_char_def)

lemma read_show_nat [simp]: "read_nat (show_nat n) = n"
proof (induction n rule: show_nat.induct)
  case (1 n)
  show ?case
  proof (cases "n < 10")
    case True
    then show ?thesis by (subst show_nat.simps) (simp add: read_nat_def)
  next
    case False
    then have "read_nat (show_nat n) = 10 * read_nat (show_nat (n div 10)) + n mod 10"
      by (subst show_nat.simps) (simp add: read_nat_def)
    with False "1.IH" show ?thesis by simp
  qed
qed

lemma show_nat_inj: "show_nat m = show_nat n \<longleftrightarrow> m = n"
  by (metis read_show_nat)

lemma show_nat_digits: "c \<in> set (show_nat n) \<Longrightarrow> \<exists>d < 10. c = digit_char d"
proof (induction n rule: show_nat.induct)
  case (1 n)
  show ?case
  proof (cases "n < 10")
    case True
    with "1.prems" show ?thesis by (subst (asm) show_nat.simps) auto
  next
    case False
    with "1.prems" have "c \<in> set (show_nat (n div 10)) \<or> c = digit_char (n mod 10)"
      by (subst (asm) show_nat.simps) auto
    with False "1.IH" show ?thesis
      by (metis less_numeral_extra(1) mod_less_divisor zero_less_numeral)
  qed
qed

lemma of_char_digit_char: "d < 10 \<Longrightarrow> (of_char (digit_char d) :: nat) = 48 + d"
  by (simp add: digit_char_def)

lemma show_nat_no_minus: "CHR ''-'' \<notin> set (show_nat n)"
proof
  assume "CHR ''-'' \<in> set (show_nat n)"
  then obtain d where "d < 10" "CHR ''-'' = digit_char d" using show_nat_digits by blast
  then have "(of_char (CHR ''-'') :: nat) = 48 + d" using of_char_digit_char by metis
  then show False by simp
qed

lemma show_int_inj: "show_int a = show_int b \<longleftrightarrow> a = b"
proof
  assume eq: "show_int a = show_int b"
  show "a = b"
  proof (cases "a < 0"; cases "b < 0")
    assume "a < 0" "b < 0"
    with eq show ?thesis by (simp add: show_int_def show_nat_inj)
  next
    assume "\<not> a < 0" "\<not> b < 0"
    with eq show ?thesis by (simp add: show_int_def show_nat_inj)
  next
    assume "a < 0" "\<not> b < 0"
    with eq show ?thesis
      by (simp add: show_int_def) (metis list.set_intros(1) show_nat_no_minus)
  next
    assume "\<not> a < 0" "b < 0"
    with eq show ?thesis
      by (simp add: show_int_def) (metis list.set_intros(1) show_nat_no_minus)
  qed
qed simp

lemma append_sep_inj:
  assumes "c \<notin> set x" "c \<notin> set y"
  shows "x @ c # r = y @ c # s \<longleftrightarrow> x = y \<and> r = s"
  using assms
proof (induction x arbitrary: y)
  case Nil
  then show ?case by (cases y) auto
next
  case (Cons a x)
  then show ?case by (cases y) auto
qed

text \<open>A printed integer holds digits and at most a sign.\<close>

lemma show_int_chars:
  "c \<in> set (show_int n) \<Longrightarrow> c = CHR ''-'' \<or> (\<exists>d < 10. c = digit_char d)"
  using show_nat_digits by (auto simp: show_int_def split: if_splits)

lemma show_int_no_colon: "CHR '':'' \<notin> set (show_int n)"
proof
  assume "CHR '':'' \<in> set (show_int n)"
  then have "CHR '':'' = CHR ''-'' \<or> (\<exists>d < 10. CHR '':'' = digit_char d)" by (rule show_int_chars)
  then obtain d where d: "d < 10" "CHR '':'' = digit_char d" by (elim disjE exE conjE) simp_all
  have "(of_char (CHR '':'') :: nat) = of_char (digit_char d)" unfolding d(2) ..
  then show False using d(1) by (simp add: of_char_digit_char)
qed

section \<open>Floating point comparisons\<close>

datatype f64 = F_nan | F_ninf | F_pinf | Fin rat

fun f64_lt :: "f64 \<Rightarrow> f64 \<Rightarrow> bool" where
  "f64_lt F_nan _ \<longleftrightarrow> False"
| "f64_lt _ F_nan \<longleftrightarrow> False"
| "f64_lt (Fin x) (Fin y) \<longleftrightarrow> x < y"
| "f64_lt F_ninf b \<longleftrightarrow> b \<noteq> F_ninf"
| "f64_lt F_pinf _ \<longleftrightarrow> False"
| "f64_lt (Fin _) b \<longleftrightarrow> b = F_pinf"

definition f64_le :: "f64 \<Rightarrow> f64 \<Rightarrow> bool" where
  "f64_le a b \<longleftrightarrow> f64_lt a b \<or> (a = b \<and> a \<noteq> F_nan)"

abbreviation f64_gt :: "f64 \<Rightarrow> f64 \<Rightarrow> bool" where
  "f64_gt a b \<equiv> f64_lt b a"

abbreviation f64_ge :: "f64 \<Rightarrow> f64 \<Rightarrow> bool" where
  "f64_ge a b \<equiv> f64_le b a"

lemma f64_lt_irrefl [simp]: "\<not> f64_lt a a"
  by (cases a) auto

lemma f64_lt_trans [trans]: "f64_lt a b \<Longrightarrow> f64_lt b c \<Longrightarrow> f64_lt a c"
  by (cases a; cases b; cases c) auto

lemma f64_lt_not_nan: "f64_lt a b \<Longrightarrow> a \<noteq> F_nan \<and> b \<noteq> F_nan"
  by (cases a; cases b) auto

lemma f64_le_lt_trans: "f64_le a b \<Longrightarrow> f64_lt b c \<Longrightarrow> f64_lt a c"
  by (auto simp: f64_le_def dest: f64_lt_trans)

lemma f64_le_trans: "f64_le a b \<Longrightarrow> f64_le b c \<Longrightarrow> f64_le a c"
  by (auto simp: f64_le_def dest: f64_lt_trans)

lemma f64_le_Fin [simp]: "f64_le (Fin x) (Fin y) \<longleftrightarrow> x \<le> y"
  by (auto simp: f64_le_def)

lemma f64_lt_asym: "f64_lt a b \<Longrightarrow> \<not> f64_le b a"
  by (auto simp: f64_le_def dest: f64_lt_trans)

section \<open>Ordered checks: the first failure wins\<close>

text \<open>The reference semantics of the early-return chains: a list of guarded codes, of which
  the first whose guard holds is reported.\<close>

fun first_failure :: "(bool \<times> 'c) list \<Rightarrow> 'c option" where
  "first_failure [] = None"
| "first_failure ((failed, c) # gs) = (if failed then Some c else first_failure gs)"

lemma first_failure_None: "first_failure gs = None \<longleftrightarrow> (\<forall>g \<in> set gs. \<not> fst g)"
  by (induction gs rule: first_failure.induct) auto

lemma first_failure_SomeD:
  "first_failure gs = Some c \<Longrightarrow>
     \<exists>pre post. gs = pre @ (True, c) # post \<and> (\<forall>g \<in> set pre. \<not> fst g)"
proof (induction gs rule: first_failure.induct)
  case (2 failed d gs)
  show ?case
  proof (cases failed)
    case True
    with 2 have "(failed, d) # gs = [] @ (True, c) # gs" by simp
    then show ?thesis by fastforce
  next
    case False
    with 2 obtain pre post where "gs = pre @ (True, c) # post" "\<forall>g \<in> set pre. \<not> fst g" by auto
    with False have "(failed, d) # gs = ((failed, d) # pre) @ (True, c) # post"
        "\<forall>g \<in> set ((failed, d) # pre). \<not> fst g" by simp_all
    then show ?thesis by blast
  qed
qed simp

lemma first_failure_append:
  "first_failure (gs @ hs) = (case first_failure gs of None \<Rightarrow> first_failure hs | Some c \<Rightarrow> Some c)"
  by (induction gs rule: first_failure.induct) auto

section \<open>Matching a string against alternatives\<close>

text \<open>A \<open>match\<close> on string literals: arms in order, each with its alternatives.\<close>

fun alias_lookup :: "(string list \<times> 'a) list \<Rightarrow> string \<Rightarrow> 'a option" where
  "alias_lookup [] s = None"
| "alias_lookup ((ks, a) # arms) s = (if s \<in> set ks then Some a else alias_lookup arms s)"

lemma alias_lookup_None: "alias_lookup arms s = None \<longleftrightarrow> s \<notin> set (concat (map fst arms))"
  by (induction arms s rule: alias_lookup.induct) auto

lemma alias_lookup_iff:
  "distinct (concat (map fst arms)) \<Longrightarrow>
     alias_lookup arms s = Some a \<longleftrightarrow> (\<exists>ks. (ks, a) \<in> set arms \<and> s \<in> set ks)"
proof (induction arms)
  case (Cons arm arms)
  obtain ks b where arm: "arm = (ks, b)" by (cases arm)
  show ?case
  proof (cases "s \<in> set ks")
    case True
    with Cons.prems arm have "\<forall>ks' c. (ks', c) \<in> set arms \<longrightarrow> s \<notin> set ks'" by fastforce
    with True arm show ?thesis by auto
  next
    case False
    with Cons arm show ?thesis by auto
  qed
qed simp

section \<open>JSON values\<close>

datatype json = JNull | JBool bool | JNumber f64 | JString string
  | JArray "json list" | JObject "(string \<times> json) list"

fun as_object :: "json \<Rightarrow> (string \<times> json) list option" where
  "as_object (JObject m) = Some m"
| "as_object _ = None"

fun as_str :: "json \<Rightarrow> string option" where
  "as_str (JString s) = Some s"
| "as_str _ = None"

definition or_else :: "'a option \<Rightarrow> 'a option \<Rightarrow> 'a option" where
  "or_else a b = (case a of None \<Rightarrow> b | Some x \<Rightarrow> Some x)"

lemma or_else_simps [simp]: "or_else None b = b" "or_else (Some x) b = Some x"
  by (simp_all add: or_else_def)

section \<open>Hash maps\<close>

text \<open>A \<open>HashMap\<close> is an association list with distinct keys, \<open>entry(k)\<close> followed by an update
  of the slot is \<open>hm_modify\<close>. The iteration order is unspecified: code that iterates takes an
  argument that permutes the entries.\<close>

fun hm_modify :: "'k \<Rightarrow> ('v option \<Rightarrow> 'v) \<Rightarrow> ('k \<times> 'v) list \<Rightarrow> ('k \<times> 'v) list" where
  "hm_modify k f [] = [(k, f None)]"
| "hm_modify k f ((k', v) # m) = (if k' = k then (k', f (Some v)) # m else (k', v) # hm_modify k f m)"

lemma map_of_hm_modify [simp]: "map_of (hm_modify k f m) = (map_of m)(k \<mapsto> f (map_of m k))"
  by (induction k f m rule: hm_modify.induct) (auto simp: fun_eq_iff)

lemma keys_hm_modify [simp]: "fst ` set (hm_modify k f m) = insert k (fst ` set m)"
  by (induction k f m rule: hm_modify.induct) auto

lemma distinct_hm_modify: "distinct (map fst m) \<Longrightarrow> distinct (map fst (hm_modify k f m))"
  by (induction k f m rule: hm_modify.induct) auto

text \<open>Adding into a slot adds to the sum of all slots.\<close>

lemma sum_hm_modify:
  fixes w :: "'v \<Rightarrow> 'b::comm_monoid_add"
  assumes "\<And>v. w (f (Some v)) = w v + d" and "w (f None) = d"
  shows "(\<Sum>x \<leftarrow> hm_modify k f m. w (snd x)) = (\<Sum>x \<leftarrow> m. w (snd x)) + d"
proof (induction m)
  case (Cons x m)
  then show ?case by (cases x) (auto simp: assms ac_simps)
qed (simp add: assms)

section \<open>The external decimal type\<close>

text \<open>
  \<open>rust_decimal::Decimal\<close> is a parameter: its operations are the fields of a record that
  every definition using decimals takes as an argument. An operator call that panics
  (overflow of the 96-bit coefficient) ends the run and is outside the model.
\<close>

record 'd decimal_api =
  dec_zero :: 'd
  dec_add :: "'d \<Rightarrow> 'd \<Rightarrow> 'd"
  dec_sub :: "'d \<Rightarrow> 'd \<Rightarrow> 'd"
  dec_mul :: "'d \<Rightarrow> 'd \<Rightarrow> 'd"
  dec_div :: "'d \<Rightarrow> 'd \<Rightarrow> 'd"
  dec_lt :: "'d \<Rightarrow> 'd \<Rightarrow> bool"
  dec_eq :: "'d \<Rightarrow> 'd \<Rightarrow> bool"
  dec_parse :: "string \<Rightarrow> 'd option"

text \<open>\<open>Ord::min\<close>: the left operand unless the right one is smaller.\<close>

definition dec_min :: "('d, 'x) decimal_api_scheme \<Rightarrow> 'd \<Rightarrow> 'd \<Rightarrow> 'd" where
  "dec_min D a b = (if dec_lt D b a then b else a)"

text \<open>
  What the code relies on, stated through the number a decimal denotes: zero, addition,
  subtraction, the two comparisons, division of a number by an equal one and
  multiplication by one are exact.
\<close>

locale decimal_laws =
  fixes D :: "('d, 'x) decimal_api_scheme" and dv :: "'d \<Rightarrow> rat"
  assumes dv_zero: "dv (dec_zero D) = 0"
    and dv_add: "dv (dec_add D a b) = dv a + dv b"
    and dv_sub: "dv (dec_sub D a b) = dv a - dv b"
    and lt_dv: "dec_lt D a b \<longleftrightarrow> dv a < dv b"
    and eq_dv: "dec_eq D a b \<longleftrightarrow> dv a = dv b"
    and dv_div_self: "dv a = dv b \<Longrightarrow> dv b \<noteq> 0 \<Longrightarrow> dv (dec_div D a b) = 1"
    and dv_mul_one: "dv b = 1 \<Longrightarrow> dv (dec_mul D a b) = dv a"
begin

lemmas dv_simps = dv_zero dv_add dv_sub lt_dv eq_dv

lemma dv_min: "dv (dec_min D a b) = min (dv a) (dv b)"
  by (auto simp: dec_min_def lt_dv)

lemma dv_foldl_add:
  "dv (foldl (\<lambda>acc x. dec_add D acc (f x)) a xs) = dv a + (\<Sum>x \<leftarrow> xs. dv (f x))"
  by (induction xs arbitrary: a) (simp_all add: dv_add)

end

text \<open>The exact rationals with a reader of plain decimal integers satisfy the laws.\<close>

definition rat_decimal :: "rat decimal_api" where
  "rat_decimal = \<lparr>dec_zero = 0, dec_add = (+), dec_sub = (-), dec_mul = (*), dec_div = (/),
     dec_lt = (<), dec_eq = (=),
     dec_parse = (\<lambda>s. if s \<noteq> [] \<and> (\<forall>c \<in> set s. 48 \<le> (of_char c :: nat) \<and> (of_char c :: nat) \<le> 57)
                      then Some (of_nat (read_nat s)) else None)\<rparr>"

interpretation rat_dec: decimal_laws rat_decimal id
  by unfold_locales (auto simp: rat_decimal_def)

section \<open>Lists\<close>

lemma sum_list_map_filter_split:
  fixes f :: "'a \<Rightarrow> 'b::comm_monoid_add"
  shows "(\<Sum>x \<leftarrow> xs. f x) = (\<Sum>x \<leftarrow> filter P xs. f x) + (\<Sum>x \<leftarrow> filter (\<lambda>x. \<not> P x) xs. f x)"
  by (induction xs) (auto simp: ac_simps)

lemma filter_singleton_unique:
  assumes "filter P xs = [x]"
  shows "\<exists>!i. i < length xs \<and> P (xs ! i)"
proof -
  have "length (filter P xs) = card {i. i < length xs \<and> P (xs ! i)}" by (rule length_filter_conv_card)
  with assms have "card {i. i < length xs \<and> P (xs ! i)} = 1" by simp
  then show ?thesis by (metis (no_types, lifting) card_1_singletonE mem_Collect_eq singletonD singletonI)
qed

lemma find_Some_first:
  "find P xs = Some x \<Longrightarrow> \<exists>ys zs. xs = ys @ x # zs \<and> P x \<and> (\<forall>y \<in> set ys. \<not> P y)"
  by (induction xs) (auto split: if_splits, metis append_Nil empty_iff empty_set,
      metis append_Cons set_ConsD)

end
