(* ===== verification/Interfaces.thy ===== *)
theory Interfaces
  imports Prelude
begin

text \<open>
  The contracts that several components share, each stated once as a locale with the
  lemmas every provider gets from it:
  \<^item> \<open>closed_machine\<close>: a transition predicate with terminal states;
  \<^item> \<open>ranked_machine\<close>: a closed machine whose every move lowers a rank, so runs are bounded;
  \<^item> \<open>stage_ladder\<close>, \<open>strict_ladder\<close>: stages ordered by an index that no move lowers (that
    every move raises by one);
  \<^item> \<open>text_codec\<close>: an enum printed to a string and read back;
  \<^item> \<open>key_store\<close>: a set-like store of committed keys guarded by receipts.
\<close>

section \<open>Transition systems given by a predicate\<close>

text \<open>A run is a list of states in which each follows from the one before.\<close>

fun run_from :: "('s \<Rightarrow> 's \<Rightarrow> bool) \<Rightarrow> 's \<Rightarrow> 's list \<Rightarrow> bool" where
  "run_from step s [] \<longleftrightarrow> True"
| "run_from step s (t # ts) \<longleftrightarrow> step s t \<and> run_from step t ts"

lemma run_from_append:
  "run_from step s (xs @ ys) \<longleftrightarrow> run_from step s xs \<and> run_from step (last (s # xs)) ys"
  by (induction xs arbitrary: s) auto

lemma run_from_rtranclp: "run_from step s xs \<Longrightarrow> step\<^sup>*\<^sup>* s (last (s # xs))"
proof (induction xs arbitrary: s)
  case (Cons t ts)
  then have "step s t" "step\<^sup>*\<^sup>* t (last (t # ts))" by auto
  then show ?case by (simp add: converse_rtranclp_into_rtranclp)
qed simp

lemma rtranclp_run_from: "step\<^sup>*\<^sup>* s t \<Longrightarrow> \<exists>xs. run_from step s xs \<and> last (s # xs) = t"
proof (induction rule: rtranclp_induct)
  case base
  have "run_from step s []" "last [s] = s" by simp_all
  then show ?case by blast
next
  case (step y z)
  then obtain xs where xs: "run_from step s xs" "last (s # xs) = y" by blast
  with step.hyps have "run_from step s (xs @ [z])" by (simp add: run_from_append)
  moreover have "last (s # xs @ [z]) = z" by simp
  ultimately show ?case by blast
qed

lemma run_from_split:
  assumes "run_from step s xs" "t \<in> set xs"
  obtains ys zs where "xs = ys @ t # zs" "run_from step s (ys @ [t])" "run_from step t zs"
proof -
  from \<open>t \<in> set xs\<close> obtain ys zs where xs: "xs = (ys @ [t]) @ zs"
    by (auto simp: in_set_conv_decomp)
  with assms(1) have "run_from step s (ys @ [t])" "run_from step t zs"
    by (simp_all only: run_from_append last.simps last_appendR) simp_all
  with xs that show ?thesis by simp
qed

lemma sorted_wrt_rank_distinct:
  fixes f :: "'a \<Rightarrow> nat"
  shows "sorted_wrt (\<lambda>x y. f y < f x) xs \<Longrightarrow> distinct xs"
  by (induction xs) auto

text \<open>In a list of falling rank, what comes after an element ranks below it.\<close>

lemma sorted_wrt_after:
  fixes f :: "'a \<Rightarrow> nat"
  assumes "sorted_wrt (\<lambda>x y. f y < f x) xs" "z \<in> set (tl (dropWhile (\<lambda>x. x \<noteq> u) xs))"
  shows "f z < f u"
  using assms
proof (induction xs)
  case (Cons x xs)
  then show ?case by (cases "x = u") auto
qed simp

text \<open>Where each state of a path has exactly one successor, runs follow the path.\<close>

fun forced_path :: "('s \<Rightarrow> 's \<Rightarrow> bool) \<Rightarrow> 's \<Rightarrow> 's list \<Rightarrow> bool" where
  "forced_path step s [] \<longleftrightarrow> True"
| "forced_path step s (u # us) \<longleftrightarrow> (\<forall>t. step s t \<longleftrightarrow> t = u) \<and> forced_path step u us"

lemma run_from_forced:
  "forced_path step s us \<Longrightarrow> run_from step s xs \<Longrightarrow>
     xs = take (length xs) us \<or> (\<exists>ys. xs = us @ ys \<and> run_from step (last (s # us)) ys)"
proof (induction us arbitrary: s xs)
  case (Cons u us)
  show ?case
  proof (cases xs)
    case (Cons x ys)
    with Cons.prems have "x = u" "run_from step u ys" by auto
    with Cons Cons.IH [of u ys] Cons.prems show ?thesis by auto
  qed simp
qed simp

locale closed_machine =
  fixes step :: "'s \<Rightarrow> 's \<Rightarrow> bool" and terminal :: "'s \<Rightarrow> bool"
  assumes terminal_stuck: "terminal s \<Longrightarrow> \<not> step s t"
begin

lemma terminal_run: "terminal s \<Longrightarrow> run_from step s xs \<Longrightarrow> xs = []"
  by (cases xs) (auto dest: terminal_stuck)

lemma butlast_live: "run_from step s xs \<Longrightarrow> \<forall>u \<in> set (butlast (s # xs)). \<not> terminal u"
proof (induction xs arbitrary: s)
  case (Cons t ts)
  then have "\<forall>u \<in> set (butlast (t # ts)). \<not> terminal u" "step s t" by auto
  then show ?case by (auto dest: terminal_stuck)
qed simp

lemma terminal_reach: "step\<^sup>*\<^sup>* s t \<Longrightarrow> terminal s \<Longrightarrow> t = s"
  by (erule converse_rtranclpE) (auto dest: terminal_stuck)

end

locale ranked_machine = closed_machine +
  fixes rank :: "'s \<Rightarrow> nat"
  assumes rank_step: "step s t \<Longrightarrow> rank t < rank s"
    and progress: "\<not> terminal s \<Longrightarrow> \<exists>t. step s t"
begin

lemma run_bound: "run_from step s xs \<Longrightarrow> length xs + rank (last (s # xs)) \<le> rank s"
proof (induction xs arbitrary: s)
  case (Cons t ts)
  then have "length ts + rank (last (t # ts)) \<le> rank t" "rank t < rank s"
    by (auto dest: rank_step)
  then show ?case by simp
qed simp

lemma run_sorted_rank: "run_from step s xs \<Longrightarrow> sorted_wrt (\<lambda>x y. rank y < rank x) (s # xs)"
proof (induction xs arbitrary: s)
  case (Cons t ts)
  then have IH: "sorted_wrt (\<lambda>x y. rank y < rank x) (t # ts)" and "rank t < rank s"
    by (auto dest: rank_step)
  then show ?case by fastforce
qed simp

lemma rank_reach: "step\<^sup>+\<^sup>+ s t \<Longrightarrow> rank t < rank s"
  by (induction rule: tranclp_induct) (auto dest: rank_step)

lemma no_return: "step\<^sup>+\<^sup>+ s t \<Longrightarrow> \<not> step\<^sup>*\<^sup>* t s"
proof
  assume "step\<^sup>+\<^sup>+ s t" and "step\<^sup>*\<^sup>* t s"
  then have "step\<^sup>+\<^sup>+ s s" by simp
  then show False by (auto dest: rank_reach)
qed

lemma reaches_terminal: "\<exists>t. step\<^sup>*\<^sup>* s t \<and> terminal t"
proof (induction "rank s" arbitrary: s rule: less_induct)
  case less
  show ?case
  proof (cases "terminal s")
    case True
    then show ?thesis by blast
  next
    case False
    then obtain u where u: "step s u" using progress by blast
    then obtain t where "step\<^sup>*\<^sup>* u t" "terminal t" using less rank_step by blast
    with u show ?thesis by (meson converse_rtranclp_into_rtranclp)
  qed
qed

end

section \<open>Stage ladders\<close>

locale stage_ladder =
  fixes step :: "'s \<Rightarrow> 's \<Rightarrow> bool" and idx :: "'s \<Rightarrow> nat"
  assumes idx_inj: "idx s = idx t \<Longrightarrow> s = t"
    and idx_mono: "step s t \<Longrightarrow> idx s \<le> idx t"
begin

lemma reach_mono: "step\<^sup>*\<^sup>* s t \<Longrightarrow> idx s \<le> idx t"
  by (induction rule: rtranclp_induct) (auto dest: idx_mono)

lemma reach_antisym: "step\<^sup>*\<^sup>* s t \<Longrightarrow> step\<^sup>*\<^sup>* t s \<Longrightarrow> s = t"
  by (rule idx_inj) (auto dest!: reach_mono)

lemma run_sorted: "run_from step s xs \<Longrightarrow> sorted (map idx (s # xs))"
proof (induction xs arbitrary: s)
  case (Cons t ts)
  then have "sorted (map idx (t # ts))" "idx s \<le> idx t" by (auto dest: idx_mono)
  then show ?case by fastforce
qed simp

end

locale strict_ladder = stage_ladder +
  assumes idx_Suc: "step s t \<longleftrightarrow> idx t = Suc (idx s)"
begin

lemma run_length: "run_from step s xs \<Longrightarrow> idx (last (s # xs)) = idx s + length xs"
proof (induction xs arbitrary: s)
  case (Cons t ts)
  have "idx (last (t # ts)) = idx t + length ts"
    using Cons.prems by (intro Cons.IH) simp
  moreover have "idx t = Suc (idx s)" using Cons.prems by (simp add: idx_Suc)
  ultimately show ?case by simp
qed simp

text \<open>No stage is skipped: a run visits every index between its ends.\<close>

lemma run_covers: "run_from step s xs \<Longrightarrow> map idx (s # xs) = [idx s..<Suc (idx s + length xs)]"
proof (induction xs arbitrary: s)
  case (Cons t ts)
  have "map idx (t # ts) = [idx t..<Suc (idx t + length ts)]"
    using Cons.prems by (intro Cons.IH) simp
  moreover have "idx t = Suc (idx s)" using Cons.prems by (simp add: idx_Suc)
  moreover have "[idx s..<Suc (idx s + length (t # ts))] =
      idx s # [Suc (idx s)..<Suc (Suc (idx s) + length ts)]"
    by (subst upt_conv_Cons) simp_all
  ultimately show ?case by simp
qed simp

end

section \<open>Printed enumerations\<close>

locale text_codec =
  fixes enc :: "'a \<Rightarrow> string" and dec :: "string \<Rightarrow> 'a option"
  assumes dec_enc: "dec (enc x) = Some x"
begin

lemma enc_inj: "enc x = enc y \<longleftrightarrow> x = y"
  by (metis dec_enc option.inject)

lemma dec_surj: "\<exists>s. dec s = Some x"
  using dec_enc by blast

end

section \<open>Stores of committed keys\<close>

locale key_store =
  fixes contains :: "'m \<Rightarrow> string \<Rightarrow> bool"
    and commit :: "string \<Rightarrow> 'r \<Rightarrow> 'm \<Rightarrow> 'm"
    and certifies :: "'r \<Rightarrow> string \<Rightarrow> bool"
  assumes contains_commit:
    "contains (commit k r st) k' \<longleftrightarrow> contains st k' \<or> (k' = k \<and> certifies r k)"
begin

lemma commit_keeps: "contains st k' \<Longrightarrow> contains (commit k r st) k'"
  by (simp add: contains_commit)

lemma commit_certified: "certifies r k \<Longrightarrow> contains (commit k r st) k"
  by (simp add: contains_commit)

lemma commit_uncertified: "\<not> certifies r k \<Longrightarrow> contains (commit k r st) k' = contains st k'"
  by (auto simp: contains_commit)

lemma fold_commit:
  "contains (fold (\<lambda>(k, r). commit k r) krs st) k' \<longleftrightarrow>
     contains st k' \<or> (\<exists>r. (k', r) \<in> set krs \<and> certifies r k')"
  by (induction krs arbitrary: st) (auto simp: contains_commit)

end

end
