(* ===== verification/Core.thy ===== *)
theory Core
  imports Interfaces
begin

text \<open>
  The core domain: event envelopes and their idempotency keys (\<open>sf/core.rs\<close>), identities
  and roles (\<open>sf/identity.rs\<close>), the authorization interface (\<open>sf/auth.rs\<close>) and the job
  record (\<open>sf/jobs.rs\<close>). The timestamp parser of the \<open>chrono\<close> crate is the argument
  \<open>parse_ts\<close>: unix seconds of a well-formed timestamp, \<open>None\<close> otherwise.
\<close>

section \<open>Envelopes\<close>

datatype TruthStatus = TruthUnknown | TruthConfirmed | TruthDisputed | TruthSuperseded | TruthErroneous

datatype SourceHealthState = HealthUp | HealthSilent | HealthDegraded | HealthDown
  | HealthRecovering | HealthDisabled

fun health_rank :: "SourceHealthState \<Rightarrow> nat" where
  "health_rank HealthUp = 4"
| "health_rank HealthRecovering = 3"
| "health_rank HealthDegraded = 2"
| "health_rank HealthSilent = 1"
| "health_rank HealthDown = 0"
| "health_rank HealthDisabled = 0"

record EventEnvelope =
  env_event_id :: string
  env_workspace_id :: "string option"
  env_chain :: "string option"
  env_event_type :: string
  env_entity_keys :: "string list"
  env_source_id :: string
  env_source_event_id :: "string option"
  env_occurred_at :: "string option"
  env_observed_at :: string
  env_ingested_at :: string
  env_raw_hash :: string
  env_raw_ref :: string
  env_parser_version :: "string option"
  env_payload_schema_version :: string
  env_truth_status :: TruthStatus
  env_confidence :: "f64 option"

datatype IdempotencyKey =
    StableId string string string
  | Fallback string string string string string

text \<open>\<open>i64::div_euclid\<close> by a positive number is the division of \<^typ>\<open>int\<close>.\<close>

definition core_time_bucket :: "(string \<Rightarrow> int option) \<Rightarrow> string \<Rightarrow> string option" where
  "core_time_bucket parse_ts observed_at =
     map_option (\<lambda>dt. show_int (dt div 3600)) (parse_ts observed_at)"

definition envelope_idempotency_key ::
  "(string \<Rightarrow> int option) \<Rightarrow> EventEnvelope \<Rightarrow> IdempotencyKey option" where
  "envelope_idempotency_key parse_ts e =
     (case core_time_bucket parse_ts (env_observed_at e) of
        None \<Rightarrow> None
      | Some bucket \<Rightarrow>
          (case env_source_event_id e of
             Some source_event_id \<Rightarrow>
               Some (StableId (env_source_id e) source_event_id (env_payload_schema_version e))
           | None \<Rightarrow>
               Some (Fallback (env_source_id e) (join '','' (env_entity_keys e)) (env_event_type e)
                       bucket (env_raw_hash e))))"

lemma core_time_bucket_None [simp]:
  "core_time_bucket parse_ts s = None \<longleftrightarrow> parse_ts s = None"
  by (simp add: core_time_bucket_def)

lemma core_time_bucket_eq:
  "parse_ts s = Some a \<Longrightarrow> parse_ts t = Some b \<Longrightarrow>
     core_time_bucket parse_ts s = core_time_bucket parse_ts t \<longleftrightarrow> a div 3600 = b div 3600"
  by (simp add: core_time_bucket_def show_int_inj)

lemma envelope_key_None:
  "envelope_idempotency_key parse_ts e = None \<longleftrightarrow> parse_ts (env_observed_at e) = None"
  by (auto simp: envelope_idempotency_key_def core_time_bucket_def split: option.splits)

text \<open>Idempotency keys of event envelopes. A malformed observation timestamp is rejected in
  both key modes. When two accepted envelopes both carry an upstream event id, they get the
  same key exactly when source, event id and schema version agree, whatever else differs; an
  envelope with an event id never shares a key with one without; and two envelopes that differ
  in their observation time only share a fallback key exactly when they fall into the same hour.\<close>

theorem envelope_idempotency:
  assumes "parse_ts (env_observed_at e1) = Some t1" and "parse_ts (env_observed_at e2) = Some t2"
  shows "(\<forall>i1 i2. env_source_event_id e1 = Some i1 \<and> env_source_event_id e2 = Some i2 \<longrightarrow>
      (envelope_idempotency_key parse_ts e1 = envelope_idempotency_key parse_ts e2 \<longleftrightarrow>
        env_source_id e1 = env_source_id e2 \<and> i1 = i2 \<and>
        env_payload_schema_version e1 = env_payload_schema_version e2)) \<and>
    (env_source_event_id e1 \<noteq> None \<and> env_source_event_id e2 = None \<longrightarrow>
      envelope_idempotency_key parse_ts e1 \<noteq> envelope_idempotency_key parse_ts e2) \<and>
    (\<forall>s. env_source_event_id e1 = None \<and> e2 = e1\<lparr>env_observed_at := s\<rparr> \<longrightarrow>
      (envelope_idempotency_key parse_ts e1 = envelope_idempotency_key parse_ts e2 \<longleftrightarrow>
        t1 div 3600 = t2 div 3600)) \<and>
    (\<forall>e. parse_ts (env_observed_at e) = None \<longrightarrow> envelope_idempotency_key parse_ts e = None)"
  using assms
  by (auto simp: envelope_idempotency_key_def core_time_bucket_def show_int_inj split: option.splits)

definition sample_envelope :: "string \<Rightarrow> string option \<Rightarrow> EventEnvelope" where
  "sample_envelope observed event_id = \<lparr>env_event_id = ''e1'', env_workspace_id = None,
     env_chain = Some ''solana'', env_event_type = ''transfer'', env_entity_keys = [''token:A''],
     env_source_id = ''src'', env_source_event_id = event_id, env_occurred_at = None,
     env_observed_at = observed, env_ingested_at = ''3600'', env_raw_hash = ''hash'',
     env_raw_ref = ''ref'', env_parser_version = None, env_payload_schema_version = ''1'',
     env_truth_status = TruthConfirmed, env_confidence = None\<rparr>"

definition sample_parse_ts :: "string \<Rightarrow> int option" where
  "sample_parse_ts s = (if s = ''3600'' then Some 3600 else if s = ''7199'' then Some 7199
     else if s = ''7200'' then Some 7200 else None)"

theorem envelope_idempotency_witness:
  "envelope_idempotency_key sample_parse_ts (sample_envelope ''3600'' None) =
     envelope_idempotency_key sample_parse_ts (sample_envelope ''7199'' None) \<and>
   envelope_idempotency_key sample_parse_ts (sample_envelope ''x'' (Some ''tx1'')) = None"
proof -
  have "sample_envelope ''7199'' None = (sample_envelope ''3600'' None)\<lparr>env_observed_at := ''7199''\<rparr>"
    by (simp add: sample_envelope_def)
  then show ?thesis
    using envelope_idempotency [of sample_parse_ts "sample_envelope ''3600'' None" 3600
        "sample_envelope ''7199'' None" 7199]
    by (simp add: sample_envelope_def sample_parse_ts_def)
qed

section \<open>Identities, authorization, jobs\<close>

record Identity =
  id_issuer :: string
  id_subject :: string

definition identity_key :: "Identity \<Rightarrow> string \<times> string" where
  "identity_key i = (id_issuer i, id_subject i)"

record WorkloadIdentity =
  wl_name :: string
  wl_key_fingerprint :: string
  wl_scopes :: "string list"

datatype Role = RoleAdmin | RoleOperator | RoleAnalyst

datatype AuthzDecision = Allow | Deny string

datatype Actor = Human Identity | Worker WorkloadIdentity

record AuditRecord =
  audit_actor :: Actor
  audit_action :: string
  audit_entity_type :: string
  audit_entity_id :: string
  audit_before_state :: "json option"
  audit_after_state :: "json option"

definition deny_by_default_authorize :: "Actor \<Rightarrow> Role \<Rightarrow> string \<Rightarrow> AuthzDecision" where
  "deny_by_default_authorize actor role action =
     Deny ''no explicit RBAC policy matched (fail-closed)''"

definition deny_by_default_requires_step_up :: "string \<Rightarrow> bool" where
  "deny_by_default_requires_step_up action \<longleftrightarrow>
     action \<in> set [''policy.activate'', ''signer.configure'', ''workspace.delete'', ''identity.rotate'']"

record Job =
  job_type :: string
  job_entity_key :: string
  job_priority :: int
  job_available_at :: string
  job_lease_owner :: "string option"
  job_lease_until :: "string option"
  job_attempts :: nat
  job_max_attempts :: nat
  job_dedupe_key :: "string option"
  job_payload_version :: "string option"

datatype PriorityTrigger = FirstLiquidity | TriggerMigration | CredibleCaller | SmartWalletEntry
  | FreshWalletBurst | VolumeActivation | DormantWake | LpEconomics | SourceHealthDegradation

text \<open>The trait every protected operation goes through, and what a fail-closed provider
  promises: a permission needs an explicit rule.\<close>

locale fail_closed_authorizer =
  fixes authorize :: "Actor \<Rightarrow> Role \<Rightarrow> string \<Rightarrow> AuthzDecision"
    and explicit_rule :: "Actor \<Rightarrow> Role \<Rightarrow> string \<Rightarrow> bool"
  assumes allow_needs_rule: "authorize a r act = Allow \<Longrightarrow> explicit_rule a r act"
begin

lemma no_rule_denies: "\<not> explicit_rule a r act \<Longrightarrow> \<exists>why. authorize a r act = Deny why"
  by (cases "authorize a r act") (auto dest: allow_needs_rule)

end

text \<open>The shipped authorizer has no explicit rule at all.\<close>

interpretation deny_default: fail_closed_authorizer deny_by_default_authorize "\<lambda>_ _ _. False"
  by unfold_locales (simp add: deny_by_default_authorize_def)

end
