(* ===== verification/Execution.thy ===== *)
theory Execution
  imports Core
begin

text \<open>
  Secure execution: the action, kill-switch and signer types of \<open>sf/execution.rs\<close>, the intent
  state machine of \<open>sf/intent.rs\<close> and the gates of \<open>sf/execution_runtime.rs\<close>. The state
  machine is an instance of \<open>ranked_machine\<close>, from which the bound on runs, the absence of
  cycles and the reachability of a terminal state come.
\<close>

section \<open>Actions\<close>

datatype TradeAction = TradeBuy | TradeSell | TradePartialSell | TradeClose | TradeEmergencyExit

datatype LpAction = LpOpenPosition | LpAddLiquidity | LpClaimFees | LpCompoundFees
  | LpPartialWithdraw | LpClosePosition | LpReseedPosition | LpSwapResiduals | LpEmergencyExit

datatype Action = Trade TradeAction | Lp LpAction

record PolicyLimits =
  pl_max_per_trade :: "string option"
  pl_max_per_token :: "string option"
  pl_max_per_chain :: "string option"
  pl_max_per_strategy :: "string option"
  pl_max_total_exposure :: "string option"
  pl_trades_per_window :: "nat option"
  pl_notional_per_window :: "string option"
  pl_max_slippage :: "f64 option"
  pl_max_price_impact :: "f64 option"
  pl_max_gas_tip :: "string option"
  pl_max_daily_loss :: "string option"
  pl_max_drawdown :: "string option"
  pl_wallet_reserve :: "string option"
  pl_allowed_routers :: "string list"
  pl_allowed_programs :: "string list"
  pl_allowed_contracts :: "string list"
  pl_cooldown :: "string option"
  pl_denylist :: "string list"

datatype KillSwitchScope = ScopeGlobal | ScopeChain | ScopeWallet | ScopeStrategy | ScopeProtocol
  | ScopeSourceHealth | ScopeDailyLoss | ScopeSignerLocal

datatype KillSwitchMode = Halt | ExitOnly

record KillSwitch =
  ks_scope :: KillSwitchScope
  ks_scope_key :: "string option"
  ks_mode :: KillSwitchMode
  ks_active :: bool

record SignerPolicy =
  sp_chain_id :: "string option"
  sp_chain_genesis :: "string option"
  sp_policy_active :: bool
  sp_policy_not_expired :: bool
  sp_policy_not_halted :: bool
  sp_intent_hash_valid :: bool
  sp_nonce_valid :: bool
  sp_router_allowed :: bool
  sp_program_allowed :: bool
  sp_function_selector :: "string option"
  sp_token_pair_verified :: bool
  sp_recipient_verified :: bool
  sp_max_native_debit :: "string option"
  sp_max_token_debit :: "string option"
  sp_min_output :: "string option"
  sp_slippage_ok :: bool
  sp_price_impact_ok :: bool
  sp_deadline_ok :: bool
  sp_simulation_delta_ok :: bool
  sp_workspace_binding_valid :: bool
  sp_wallet_binding_valid :: bool
  sp_policy_binding_valid :: bool
  sp_idempotency_binding_valid :: bool
  sp_factory_allowed :: bool
  sp_manager_allowed :: bool
  sp_pool_verified :: bool
  sp_authority_verified :: bool
  sp_gas_ok :: bool
  sp_priority_fee_ok :: bool
  sp_tip_ok :: bool
  sp_rent_ok :: bool
  sp_writable_accounts_allowed :: bool
  sp_approvals_bounded :: bool
  sp_instructions_decoded :: bool
  sp_no_unrelated_operations :: bool

section \<open>The intent state machine\<close>

datatype IntentState = Proposed | Approved | Reserved | Built | Simulated | Signed | Submitted
  | Confirmed | FailedSafe | UnknownReconciliation | Cancelled

definition can_transition_to :: "IntentState \<Rightarrow> IntentState \<Rightarrow> bool" where
  "can_transition_to self next \<longleftrightarrow> (self, next) \<in> set
     [(Proposed, Approved), (Approved, Reserved), (Reserved, Built), (Built, Simulated),
      (Simulated, Signed), (Signed, Submitted), (Submitted, Confirmed),
      (Proposed, Cancelled), (Approved, Cancelled),
      (Reserved, FailedSafe), (Built, FailedSafe), (Simulated, FailedSafe), (Signed, FailedSafe),
      (Submitted, FailedSafe),
      (Submitted, UnknownReconciliation), (UnknownReconciliation, Confirmed),
      (UnknownReconciliation, FailedSafe), (UnknownReconciliation, Cancelled)]"

definition is_terminal :: "IntentState \<Rightarrow> bool" where
  "is_terminal s \<longleftrightarrow> s = Confirmed \<or> s = FailedSafe \<or> s = Cancelled"

record Intent =
  int_intent_hash :: string
  int_chain :: string
  int_wallet :: string
  int_action :: Action
  int_target_entity :: string
  int_policy_version :: string
  int_strategy_version :: "string option"
  int_source_event_id :: "string option"
  int_nonce :: "string option"
  int_state :: IntentState

datatype ReconciliationResult = Landed | NotLanded | ReconUnknown

datatype ReservationAction = Hold | Release

fun reservation_action :: "IntentState \<Rightarrow> ReservationAction" where
  "reservation_action Confirmed = Release"
| "reservation_action FailedSafe = Release"
| "reservation_action Cancelled = Release"
| "reservation_action UnknownReconciliation = Hold"
| "reservation_action Proposed = Hold"
| "reservation_action Approved = Hold"
| "reservation_action Reserved = Hold"
| "reservation_action Built = Hold"
| "reservation_action Simulated = Hold"
| "reservation_action Signed = Hold"
| "reservation_action Submitted = Hold"

text \<open>\<open>execution_runtime.rs\<close> delegates to the frozen table.\<close>

definition execution_can_transition :: "IntentState \<Rightarrow> IntentState \<Rightarrow> bool" where
  "execution_can_transition current next = can_transition_to current next"

text \<open>Moves still possible from a state; the longest run takes all eight.\<close>

fun intent_rank :: "IntentState \<Rightarrow> nat" where
  "intent_rank Proposed = 8"
| "intent_rank Approved = 7"
| "intent_rank Reserved = 6"
| "intent_rank Built = 5"
| "intent_rank Simulated = 4"
| "intent_rank Signed = 3"
| "intent_rank Submitted = 2"
| "intent_rank UnknownReconciliation = 1"
| "intent_rank _ = 0"

lemma can_transition_from [stage_simps]:
  "can_transition_to Proposed t \<longleftrightarrow> t = Approved \<or> t = Cancelled"
  "can_transition_to Approved t \<longleftrightarrow> t = Reserved \<or> t = Cancelled"
  "can_transition_to Reserved t \<longleftrightarrow> t = Built \<or> t = FailedSafe"
  "can_transition_to Built t \<longleftrightarrow> t = Simulated \<or> t = FailedSafe"
  "can_transition_to Simulated t \<longleftrightarrow> t = Signed \<or> t = FailedSafe"
  "can_transition_to Signed t \<longleftrightarrow> t = Submitted \<or> t = FailedSafe"
  "can_transition_to Submitted t \<longleftrightarrow> t = Confirmed \<or> t = FailedSafe \<or> t = UnknownReconciliation"
  "can_transition_to UnknownReconciliation t \<longleftrightarrow> t = Confirmed \<or> t = FailedSafe \<or> t = Cancelled"
  "can_transition_to Confirmed t \<longleftrightarrow> False"
  "can_transition_to FailedSafe t \<longleftrightarrow> False"
  "can_transition_to Cancelled t \<longleftrightarrow> False"
  by (auto simp: can_transition_to_def)

lemma intent_rank_step: "can_transition_to s t \<Longrightarrow> intent_rank t < intent_rank s"
  by (cases s) (auto simp: can_transition_from)

lemma intent_progress: "\<not> is_terminal s \<Longrightarrow> \<exists>t. can_transition_to s t"
  by (cases s) (auto simp: is_terminal_def can_transition_from)

interpretation intent: ranked_machine can_transition_to is_terminal intent_rank
  by unfold_locales
     (auto simp: is_terminal_def can_transition_from intent_rank_step intent_progress)

lemma reservation_release_iff: "reservation_action s = Release \<longleftrightarrow> is_terminal s"
  by (cases s) (simp_all add: is_terminal_def)

lemma intent_runs_from_Submitted:
  "run_from can_transition_to Submitted xs \<Longrightarrow> last (Submitted # xs) = Confirmed \<Longrightarrow>
     xs = [Confirmed] \<or> xs = [UnknownReconciliation, Confirmed]"
proof -
  assume r: "run_from can_transition_to Submitted xs" and l: "last (Submitted # xs) = Confirmed"
  have fin: "run_from can_transition_to t ys \<Longrightarrow> is_terminal t \<Longrightarrow> ys = []" for t ys
    using intent.terminal_run by blast
  obtain t ys where xs: "xs = t # ys" using l by (cases xs) auto
  from r xs have t: "t = Confirmed \<or> t = FailedSafe \<or> t = UnknownReconciliation"
    and ys: "run_from can_transition_to t ys" by (auto simp: can_transition_from)
  show ?thesis
  proof (cases "t = UnknownReconciliation")
    case False
    with t ys fin have "ys = []" by (auto simp: is_terminal_def)
    with xs l show ?thesis by simp
  next
    case True
    with xs l obtain u zs where "ys = u # zs" by (cases ys) auto
    moreover from this ys True have "is_terminal u" "run_from can_transition_to u zs"
      by (auto simp: can_transition_from is_terminal_def)
    ultimately show ?thesis using xs True l fin by auto
  qed
qed

text \<open>The only way forward before submission is the next state of the spine.\<close>

lemma intent_spine_step:
  assumes "(s, n) \<in> set [(Proposed, Approved), (Approved, Reserved), (Reserved, Built),
      (Built, Simulated), (Simulated, Signed), (Signed, Submitted)]"
    and "run_from can_transition_to s xs" and "last (s # xs) = Confirmed"
  obtains ys where "xs = n # ys" "run_from can_transition_to n ys" "last (n # ys) = Confirmed"
proof -
  from assms(1,3) obtain t ys where xs: "xs = t # ys" by (cases xs) auto
  with assms(2) have st: "can_transition_to s t" and ys: "run_from can_transition_to t ys" by auto
  have "t = n"
  proof (rule ccontr)
    assume "t \<noteq> n"
    with assms(1) st have "t = Cancelled \<or> t = FailedSafe" by (auto simp: can_transition_from)
    then have "ys = []" using ys intent.terminal_run by (auto simp: is_terminal_def)
    with \<open>t = Cancelled \<or> t = FailedSafe\<close> xs assms(3) show False by auto
  qed
  with xs ys assms(3) that show ?thesis by simp
qed

text \<open>C1: An intent is confirmed only through the full forward path. Every run of the intent
  state machine from Proposed that ends in Confirmed is approve, reserve, build, simulate,
  sign, submit, in that order and without repetition, followed either by the confirmation or
  by one reconciliation and then the confirmation.\<close>

theorem confirmed_only_by_full_path:
  assumes "run_from execution_can_transition Proposed xs" and "last (Proposed # xs) = Confirmed"
  shows "xs = [Approved, Reserved, Built, Simulated, Signed, Submitted, Confirmed] \<or>
         xs = [Approved, Reserved, Built, Simulated, Signed, Submitted, UnknownReconciliation, Confirmed]"
proof -
  have "execution_can_transition = can_transition_to" by (simp add: fun_eq_iff execution_can_transition_def)
  with assms have r: "run_from can_transition_to Proposed xs" and l: "last (Proposed # xs) = Confirmed"
    by simp_all
  obtain a where a: "xs = Approved # a" "run_from can_transition_to Approved a" "last (Approved # a) = Confirmed"
    by (rule intent_spine_step [OF _ r l, of Approved]) simp_all
  obtain b where b: "a = Reserved # b" "run_from can_transition_to Reserved b" "last (Reserved # b) = Confirmed"
    by (rule intent_spine_step [OF _ a(2,3), of Reserved]) simp_all
  obtain c where c: "b = Built # c" "run_from can_transition_to Built c" "last (Built # c) = Confirmed"
    by (rule intent_spine_step [OF _ b(2,3), of Built]) simp_all
  obtain d where d: "c = Simulated # d" "run_from can_transition_to Simulated d" "last (Simulated # d) = Confirmed"
    by (rule intent_spine_step [OF _ c(2,3), of Simulated]) simp_all
  obtain e where e: "d = Signed # e" "run_from can_transition_to Signed e" "last (Signed # e) = Confirmed"
    by (rule intent_spine_step [OF _ d(2,3), of Signed]) simp_all
  obtain f where f: "e = Submitted # f" "run_from can_transition_to Submitted f" "last (Submitted # f) = Confirmed"
    by (rule intent_spine_step [OF _ e(2,3), of Submitted]) simp_all
  from a(1) b(1) c(1) d(1) e(1) f(1) intent_runs_from_Submitted [OF f(2,3)] show ?thesis by auto
qed

theorem confirmed_only_by_full_path_witness:
  "run_from execution_can_transition Proposed
     [Approved, Reserved, Built, Simulated, Signed, Submitted, UnknownReconciliation, Confirmed] \<and>
   [Approved, Reserved, Built, Simulated, Signed, Submitted, UnknownReconciliation, Confirmed] \<noteq>
     [Approved, Reserved, Built, Simulated, Signed, Submitted, Confirmed]"
  using confirmed_only_by_full_path
      [of "[Approved, Reserved, Built, Simulated, Signed, Submitted, UnknownReconciliation, Confirmed]"]
  by (simp add: execution_can_transition_def can_transition_to_def)

text \<open>The intent machine never submits twice and always ends. No state is ever visited
  again after it has been left (so nothing is submitted a second time, and no submission
  follows a reconciliation), a run from any state makes at most eight moves, a state is
  terminal exactly when no move is possible, and a terminal state is reachable from every
  state.\<close>

theorem intent_runs_are_bounded:
  "(run_from can_transition_to s xs \<longrightarrow>
      distinct (s # xs) \<and> length xs \<le> 8 \<and>
      (UnknownReconciliation \<in> set (s # xs) \<longrightarrow>
         Submitted \<notin> set (tl (dropWhile (\<lambda>x. x \<noteq> UnknownReconciliation) (s # xs))))) \<and>
   (is_terminal s \<longleftrightarrow> (\<forall>t. \<not> can_transition_to s t)) \<and>
   (\<exists>t. can_transition_to\<^sup>*\<^sup>* s t \<and> is_terminal t)"
proof (intro conjI impI)
  assume r: "run_from can_transition_to s xs"
  have "intent_rank s \<le> 8" by (cases s) simp_all
  with intent.run_bound [OF r] show "length xs \<le> 8" by simp
  have sorted: "sorted_wrt (\<lambda>x y. intent_rank y < intent_rank x) (s # xs)"
    using r by (rule intent.run_sorted_rank)
  then show d: "distinct (s # xs)" by (rule sorted_wrt_rank_distinct)
  assume "UnknownReconciliation \<in> set (s # xs)"
  then show "Submitted \<notin> set (tl (dropWhile (\<lambda>x. x \<noteq> UnknownReconciliation) (s # xs)))"
    using sorted by (auto dest!: sorted_wrt_after [where z = Submitted])
next
  show "is_terminal s \<longleftrightarrow> (\<forall>t. \<not> can_transition_to s t)"
    using intent.terminal_stuck intent_progress by blast
  show "\<exists>t. can_transition_to\<^sup>*\<^sup>* s t \<and> is_terminal t" by (rule intent.reaches_terminal)
qed

theorem intent_runs_are_bounded_witness:
  "distinct [Signed, Submitted, UnknownReconciliation, Cancelled]"
  using intent_runs_are_bounded [of Signed "[Submitted, UnknownReconciliation, Cancelled]"]
  by (simp add: can_transition_to_def)

text \<open>Reserved capital is held until the intent is over and released once. Along every run
  from Proposed the reservation is kept in all states before the last one; the last state
  releases it exactly when it is terminal, so no run releases it twice and none that can still
  move has released it.\<close>

theorem reservation_released_once_at_the_end:
  assumes "run_from can_transition_to Proposed xs"
  shows "(\<forall>s \<in> set (butlast (Proposed # xs)). reservation_action s = Hold) \<and>
    (reservation_action (last (Proposed # xs)) = Release \<longleftrightarrow>
       (\<forall>t. \<not> can_transition_to (last (Proposed # xs)) t)) \<and>
    length (filter (\<lambda>s. reservation_action s = Release) (Proposed # xs)) \<le> 1"
proof -
  let ?run = "Proposed # xs"
  have held: "\<forall>s \<in> set (butlast ?run). \<not> is_terminal s"
    using intent.butlast_live [OF assms] .
  then have hold: "\<forall>s \<in> set (butlast ?run). reservation_action s = Hold"
    by (metis ReservationAction.exhaust reservation_release_iff)
  have "?run = butlast ?run @ [last ?run]" by simp
  then have "filter (\<lambda>s. reservation_action s = Release) ?run =
      filter (\<lambda>s. reservation_action s = Release) [last ?run]"
    using hold by (metis (mono_tags, lifting) ReservationAction.distinct(1) append_Nil filter_append filter_False)
  moreover have "length (filter (\<lambda>s. reservation_action s = Release) [last ?run]) \<le> 1" by simp
  moreover have "is_terminal s \<longleftrightarrow> (\<forall>t. \<not> can_transition_to s t)" for s
    using intent.terminal_stuck intent_progress by blast
  ultimately show ?thesis using hold reservation_release_iff by metis
qed

theorem reservation_released_once_at_the_end_witness:
  "list_all (\<lambda>s. reservation_action s = Hold) [Proposed, Approved, Reserved] \<and>
   reservation_action FailedSafe = Release"
  using reservation_released_once_at_the_end [of "[Approved, Reserved, FailedSafe]"]
  by (simp add: can_transition_to_def)

section \<open>Kill switches\<close>

definition is_halted :: "KillSwitch list \<Rightarrow> bool" where
  "is_halted switches \<longleftrightarrow> (\<exists>s \<in> set switches. ks_active s)"

fun is_risk_reducing :: "TradeAction \<Rightarrow> bool" where
  "is_risk_reducing TradeSell = True"
| "is_risk_reducing TradePartialSell = True"
| "is_risk_reducing TradeClose = True"
| "is_risk_reducing TradeEmergencyExit = True"
| "is_risk_reducing TradeBuy = False"

fun is_lp_risk_reducing :: "LpAction \<Rightarrow> bool" where
  "is_lp_risk_reducing LpClaimFees = True"
| "is_lp_risk_reducing LpPartialWithdraw = True"
| "is_lp_risk_reducing LpClosePosition = True"
| "is_lp_risk_reducing LpSwapResiduals = True"
| "is_lp_risk_reducing LpEmergencyExit = True"
| "is_lp_risk_reducing _ = False"

definition action_permitted :: "KillSwitch list \<Rightarrow> TradeAction \<Rightarrow> bool" where
  "action_permitted switches action =
     (let active = filter ks_active switches
      in if active = [] then True
         else if \<exists>s \<in> set active. ks_mode s = Halt then False
         else is_risk_reducing action)"

text \<open>The contract in terms of restriction levels: a set of switches allows everything, exits
  only or nothing, and the strictest active switch decides.\<close>

definition switch_level :: "KillSwitch \<Rightarrow> nat" where
  "switch_level s = (if \<not> ks_active s then 0 else case ks_mode s of ExitOnly \<Rightarrow> 1 | Halt \<Rightarrow> 2)"

definition restriction_level :: "KillSwitch list \<Rightarrow> nat" where
  "restriction_level switches = Max (insert 0 (switch_level ` set switches))"

lemma switch_level_cases:
  "switch_level s \<le> 2" "switch_level s = 0 \<longleftrightarrow> \<not> ks_active s"
  "switch_level s = 2 \<longleftrightarrow> ks_active s \<and> ks_mode s = Halt"
  by (auto simp: switch_level_def split: KillSwitchMode.splits)

lemma restriction_level_eq_0: "restriction_level sw = 0 \<longleftrightarrow> (\<forall>s \<in> set sw. \<not> ks_active s)"
proof -
  have "restriction_level sw \<le> 0 \<longleftrightarrow> (\<forall>s \<in> set sw. switch_level s \<le> 0)"
    unfolding restriction_level_def by (subst Max_le_iff) auto
  then show ?thesis by (simp add: switch_level_cases)
qed

lemma restriction_level_eq_2:
  "restriction_level sw = 2 \<longleftrightarrow> (\<exists>s \<in> set sw. ks_active s \<and> ks_mode s = Halt)"
proof -
  have "restriction_level sw \<le> 2"
    using switch_level_cases(1) by (auto simp: restriction_level_def)
  moreover have "2 \<le> restriction_level sw \<longleftrightarrow> (\<exists>s \<in> set sw. 2 \<le> switch_level s)"
    by (auto simp: restriction_level_def Max_ge_iff)
  moreover have "2 \<le> switch_level s \<longleftrightarrow> switch_level s = 2" for s
    using switch_level_cases(1) [of s] by linarith
  ultimately show ?thesis using switch_level_cases(3) by (metis order_antisym order_refl)
qed

lemma restriction_level_mono: "set sw \<subseteq> set sw' \<Longrightarrow> restriction_level sw \<le> restriction_level sw'"
  unfolding restriction_level_def by (rule Max_mono) auto

lemma action_permitted_level:
  "action_permitted sw a \<longleftrightarrow>
     restriction_level sw = 0 \<or> (restriction_level sw \<noteq> 2 \<and> is_risk_reducing a)"
  by (auto simp: action_permitted_def Let_def restriction_level_eq_0 restriction_level_eq_2
      filter_empty_conv)

text \<open>C4: Kill switches only ever restrict. The decision is that of the strictest active switch
  (level 0: everything, level 1: risk-reducing actions only, level 2: nothing), so it does not
  depend on the order or the multiplicity of the switches, adding a switch never permits an
  action that was blocked, under any active switch no risk-adding trade passes, and an active
  Halt switch blocks exits too.\<close>

theorem kill_switches_only_restrict:
  "(action_permitted sw a \<longleftrightarrow>
      restriction_level sw = 0 \<or> (restriction_level sw = 1 \<and> is_risk_reducing a)) \<and>
   (set sw \<subseteq> set sw' \<and> action_permitted sw' a \<longrightarrow> action_permitted sw a) \<and>
   (is_halted sw \<longrightarrow> \<not> action_permitted sw TradeBuy) \<and>
   (s \<in> set sw \<and> ks_active s \<and> ks_mode s = Halt \<longrightarrow> \<not> action_permitted sw a)"
proof (intro conjI impI)
  have le: "restriction_level sw'' \<le> 2" for sw''
    using switch_level_cases(1) by (auto simp: restriction_level_def)
  then have "restriction_level sw \<noteq> 2 \<and> restriction_level sw \<noteq> 0 \<longleftrightarrow> restriction_level sw = 1"
    using le [of sw] by linarith
  then show "action_permitted sw a \<longleftrightarrow>
      restriction_level sw = 0 \<or> (restriction_level sw = 1 \<and> is_risk_reducing a)"
    unfolding action_permitted_level by auto
  assume "set sw \<subseteq> set sw' \<and> action_permitted sw' a"
  then show "action_permitted sw a"
    using restriction_level_mono [of sw sw'] le [of sw'] unfolding action_permitted_level by auto
next
  assume "is_halted sw"
  then show "\<not> action_permitted sw TradeBuy"
    by (simp add: action_permitted_level restriction_level_eq_0 is_halted_def)
next
  assume "s \<in> set sw \<and> ks_active s \<and> ks_mode s = Halt"
  then show "\<not> action_permitted sw a"
    using restriction_level_eq_2 [of sw] by (auto simp: action_permitted_level)
qed

theorem kill_switches_only_restrict_witness:
  "action_permitted [\<lparr>ks_scope = ScopeChain, ks_scope_key = None, ks_mode = ExitOnly, ks_active = True\<rparr>] TradeSell \<and>
   \<not> action_permitted [\<lparr>ks_scope = ScopeChain, ks_scope_key = None, ks_mode = ExitOnly, ks_active = True\<rparr>] TradeBuy"
  using kill_switches_only_restrict
      [of "[\<lparr>ks_scope = ScopeChain, ks_scope_key = None, ks_mode = ExitOnly, ks_active = True\<rparr>]" TradeSell]
  by (simp add: is_halted_def action_permitted_def)

section \<open>Action names\<close>

definition action_arms :: "(string list \<times> Action) list" where
  "action_arms =
     [([''buy'', ''Buy'', ''BUY''], Trade TradeBuy),
      ([''sell'', ''Sell'', ''SELL''], Trade TradeSell),
      ([''partial_sell'', ''PartialSell'', ''PARTIAL_SELL''], Trade TradePartialSell),
      ([''close'', ''Close'', ''CLOSE''], Trade TradeClose),
      ([''emergency_exit'', ''EmergencyExit'', ''EMERGENCY_EXIT''], Trade TradeEmergencyExit),
      ([''lp_emergency_exit'', ''LpEmergencyExit'', ''LP_EMERGENCY_EXIT''], Lp LpEmergencyExit),
      ([''open_position'', ''OpenPosition'', ''OPEN_POSITION''], Lp LpOpenPosition),
      ([''add_liquidity'', ''AddLiquidity'', ''ADD_LIQUIDITY''], Lp LpAddLiquidity),
      ([''claim_fees'', ''ClaimFees'', ''CLAIM_FEES''], Lp LpClaimFees),
      ([''compound_fees'', ''CompoundFees'', ''COMPOUND_FEES''], Lp LpCompoundFees),
      ([''partial_withdraw'', ''PartialWithdraw'', ''PARTIAL_WITHDRAW''], Lp LpPartialWithdraw),
      ([''close_position'', ''ClosePosition'', ''CLOSE_POSITION''], Lp LpClosePosition),
      ([''reseed_position'', ''ReseedPosition'', ''RESEED_POSITION''], Lp LpReseedPosition),
      ([''swap_residuals'', ''SwapResiduals'', ''SWAP_RESIDUALS''], Lp LpSwapResiduals)]"

definition parse_action :: "string \<Rightarrow> Action option" where
  "parse_action s = alias_lookup action_arms s"

lemma action_arms_distinct: "distinct (concat (map fst action_arms))"
  by (simp add: action_arms_def)

lemma action_arms_snd: "distinct (map snd action_arms)" "a \<in> set (map snd action_arms)"
proof -
  show "distinct (map snd action_arms)" by (simp add: action_arms_def)
  show "a \<in> set (map snd action_arms)"
  proof (cases a)
    case (Trade t)
    then show ?thesis by (cases t) (simp_all add: action_arms_def)
  next
    case (Lp l)
    then show ?thesis by (cases l) (simp_all add: action_arms_def)
  qed
qed

lemma action_arms_total: "\<exists>!ks. (ks, a) \<in> set action_arms"
proof -
  obtain ks where ks: "(ks, a) \<in> set action_arms" using action_arms_snd(2) by fastforce
  moreover have "inj_on snd (set action_arms)" using action_arms_snd(1) by (simp add: distinct_map)
  ultimately show ?thesis by (metis inj_onD prod.inject snd_conv)
qed

lemma parse_action_iff: "parse_action s = Some a \<longleftrightarrow> (\<exists>ks. (ks, a) \<in> set action_arms \<and> s \<in> set ks)"
  by (simp add: parse_action_def alias_lookup_iff [OF action_arms_distinct])

lemma action_arms_width: "(ks, a) \<in> set action_arms \<Longrightarrow> length ks = 3 \<and> distinct ks"
  by (auto simp: action_arms_def)

text \<open>Action names are a closed vocabulary. Every one of the fourteen trade and liquidity
  actions is accepted under exactly three spellings, no string names two actions, and in
  particular the two emergency exits have disjoint names.\<close>

theorem action_vocabulary_closed:
  "card {s. parse_action s = Some a} = 3 \<and>
   card {s. parse_action s \<noteq> None} = 42 \<and>
   {s. parse_action s = Some (Trade TradeEmergencyExit)} \<inter>
     {s. parse_action s = Some (Lp LpEmergencyExit)} = {}"
proof (intro conjI)
  obtain ks where ks: "(ks, a) \<in> set action_arms" "\<And>ks'. (ks', a) \<in> set action_arms \<Longrightarrow> ks' = ks"
    using action_arms_total by blast
  then have "{s. parse_action s = Some a} = set ks"
    unfolding parse_action_iff by blast
  with ks(1) show "card {s. parse_action s = Some a} = 3"
    by (simp add: action_arms_width distinct_card)
  have "{s. parse_action s \<noteq> None} = set (concat (map fst action_arms))"
    by (auto simp: parse_action_def alias_lookup_None simp del: set_concat)
  also have "card \<dots> = length (concat (map fst action_arms))"
    by (rule distinct_card) (rule action_arms_distinct)
  also have "\<dots> = 42" by (simp add: action_arms_def)
  finally show "card {s. parse_action s \<noteq> None} = 42" .
qed auto

section \<open>The signer checklist\<close>

definition non_empty :: "string option \<Rightarrow> bool" where
  "non_empty s \<longleftrightarrow> (case s of None \<Rightarrow> False | Some v \<Rightarrow> \<not> is_blank v)"

definition signer_policy_passes :: "SignerPolicy \<Rightarrow> bool" where
  "signer_policy_passes p \<longleftrightarrow>
     non_empty (sp_chain_id p) \<and> non_empty (sp_chain_genesis p) \<and> non_empty (sp_function_selector p) \<and>
     non_empty (sp_max_native_debit p) \<and> non_empty (sp_max_token_debit p) \<and> non_empty (sp_min_output p) \<and>
     sp_policy_active p \<and> sp_policy_not_expired p \<and> sp_policy_not_halted p \<and> sp_intent_hash_valid p \<and>
     sp_nonce_valid p \<and> sp_router_allowed p \<and> sp_program_allowed p \<and> sp_token_pair_verified p \<and>
     sp_recipient_verified p \<and> sp_slippage_ok p \<and> sp_price_impact_ok p \<and> sp_deadline_ok p \<and>
     sp_simulation_delta_ok p \<and> sp_workspace_binding_valid p \<and> sp_wallet_binding_valid p \<and>
     sp_policy_binding_valid p \<and> sp_idempotency_binding_valid p \<and> sp_factory_allowed p \<and>
     sp_manager_allowed p \<and> sp_pool_verified p \<and> sp_authority_verified p \<and> sp_gas_ok p \<and>
     sp_priority_fee_ok p \<and> sp_tip_ok p \<and> sp_rent_ok p \<and> sp_writable_accounts_allowed p \<and>
     sp_approvals_bounded p \<and> sp_instructions_decoded p \<and> sp_no_unrelated_operations p"

text \<open>Clearing one boolean check, and overwriting one mandatory text field.\<close>

definition signer_clear_check :: "(SignerPolicy \<Rightarrow> SignerPolicy) list" where
  "signer_clear_check =
     [\<lambda>p. p\<lparr>sp_policy_active := False\<rparr>, \<lambda>p. p\<lparr>sp_policy_not_expired := False\<rparr>,
      \<lambda>p. p\<lparr>sp_policy_not_halted := False\<rparr>, \<lambda>p. p\<lparr>sp_intent_hash_valid := False\<rparr>,
      \<lambda>p. p\<lparr>sp_nonce_valid := False\<rparr>, \<lambda>p. p\<lparr>sp_router_allowed := False\<rparr>,
      \<lambda>p. p\<lparr>sp_program_allowed := False\<rparr>, \<lambda>p. p\<lparr>sp_token_pair_verified := False\<rparr>,
      \<lambda>p. p\<lparr>sp_recipient_verified := False\<rparr>, \<lambda>p. p\<lparr>sp_slippage_ok := False\<rparr>,
      \<lambda>p. p\<lparr>sp_price_impact_ok := False\<rparr>, \<lambda>p. p\<lparr>sp_deadline_ok := False\<rparr>,
      \<lambda>p. p\<lparr>sp_simulation_delta_ok := False\<rparr>, \<lambda>p. p\<lparr>sp_workspace_binding_valid := False\<rparr>,
      \<lambda>p. p\<lparr>sp_wallet_binding_valid := False\<rparr>, \<lambda>p. p\<lparr>sp_policy_binding_valid := False\<rparr>,
      \<lambda>p. p\<lparr>sp_idempotency_binding_valid := False\<rparr>, \<lambda>p. p\<lparr>sp_factory_allowed := False\<rparr>,
      \<lambda>p. p\<lparr>sp_manager_allowed := False\<rparr>, \<lambda>p. p\<lparr>sp_pool_verified := False\<rparr>,
      \<lambda>p. p\<lparr>sp_authority_verified := False\<rparr>, \<lambda>p. p\<lparr>sp_gas_ok := False\<rparr>,
      \<lambda>p. p\<lparr>sp_priority_fee_ok := False\<rparr>, \<lambda>p. p\<lparr>sp_tip_ok := False\<rparr>,
      \<lambda>p. p\<lparr>sp_rent_ok := False\<rparr>, \<lambda>p. p\<lparr>sp_writable_accounts_allowed := False\<rparr>,
      \<lambda>p. p\<lparr>sp_approvals_bounded := False\<rparr>, \<lambda>p. p\<lparr>sp_instructions_decoded := False\<rparr>,
      \<lambda>p. p\<lparr>sp_no_unrelated_operations := False\<rparr>]"

definition signer_set_text :: "string option \<Rightarrow> (SignerPolicy \<Rightarrow> SignerPolicy) list" where
  "signer_set_text v =
     [\<lambda>p. p\<lparr>sp_chain_id := v\<rparr>, \<lambda>p. p\<lparr>sp_chain_genesis := v\<rparr>, \<lambda>p. p\<lparr>sp_function_selector := v\<rparr>,
      \<lambda>p. p\<lparr>sp_max_native_debit := v\<rparr>, \<lambda>p. p\<lparr>sp_max_token_debit := v\<rparr>, \<lambda>p. p\<lparr>sp_min_output := v\<rparr>]"

text \<open>The signer never signs on an incomplete checklist. Clearing any one of the 29 boolean
  checks, or leaving any one of the six mandatory text fields absent or blank, rejects the
  policy whatever the other fields hold; and those 35 fields are all there is: a policy with
  every check set and every mandatory field filled in passes.\<close>

theorem signer_checklist_fail_closed:
  "(\<forall>f \<in> set signer_clear_check. \<not> signer_policy_passes (f p)) \<and>
   (v = None \<or> is_blank (the v) \<longrightarrow> (\<forall>f \<in> set (signer_set_text v). \<not> signer_policy_passes (f p))) \<and>
   (\<not> signer_policy_passes p \<longrightarrow>
      (\<exists>f \<in> set signer_clear_check. f p = p) \<or>
      (\<exists>v. \<exists>f \<in> set (signer_set_text v). (v = None \<or> is_blank (the v)) \<and> f p = p))"
proof (intro conjI impI)
  show "\<forall>f \<in> set signer_clear_check. \<not> signer_policy_passes (f p)"
    by (simp add: signer_clear_check_def signer_policy_passes_def)
next
  assume "v = None \<or> is_blank (the v)"
  then have "\<not> non_empty v" by (cases v) (auto simp: non_empty_def)
  then show "\<forall>f \<in> set (signer_set_text v). \<not> signer_policy_passes (f p)"
    by (simp add: signer_set_text_def signer_policy_passes_def)
next
  assume "\<not> signer_policy_passes p"
  have blank: "\<not> non_empty v \<Longrightarrow> v = None \<or> is_blank (the v)" for v
    by (auto simp: non_empty_def split: option.splits)
  show "(\<exists>f \<in> set signer_clear_check. f p = p) \<or>
      (\<exists>v. \<exists>f \<in> set (signer_set_text v). (v = None \<or> is_blank (the v)) \<and> f p = p)"
  proof (rule ccontr)
    assume neg: "\<not> ?thesis"
    have chk: "\<forall>f \<in> set signer_clear_check. f p \<noteq> p" using neg by blast
    have filled: "\<forall>f \<in> set (signer_set_text v). f p = p \<longrightarrow> non_empty v" for v
      using neg blank by blast
    have "non_empty (sp_chain_id p)" "non_empty (sp_chain_genesis p)" "non_empty (sp_function_selector p)"
      "non_empty (sp_max_native_debit p)" "non_empty (sp_max_token_debit p)" "non_empty (sp_min_output p)"
      using filled [of "sp_chain_id p"] filled [of "sp_chain_genesis p"]
        filled [of "sp_function_selector p"] filled [of "sp_max_native_debit p"]
        filled [of "sp_max_token_debit p"] filled [of "sp_min_output p"]
      by (simp_all add: signer_set_text_def)
    then show False using \<open>\<not> signer_policy_passes p\<close> chk
      by (cases p) (simp add: signer_clear_check_def signer_policy_passes_def)
  qed
qed

definition sample_signer_policy :: SignerPolicy where
  "sample_signer_policy = \<lparr>sp_chain_id = Some ''solana'', sp_chain_genesis = Some ''genesis'',
     sp_policy_active = True, sp_policy_not_expired = True, sp_policy_not_halted = True,
     sp_intent_hash_valid = True, sp_nonce_valid = True, sp_router_allowed = True,
     sp_program_allowed = True, sp_function_selector = Some ''0x'', sp_token_pair_verified = True,
     sp_recipient_verified = True, sp_max_native_debit = Some ''1'', sp_max_token_debit = Some ''1'',
     sp_min_output = Some ''0'', sp_slippage_ok = True, sp_price_impact_ok = True,
     sp_deadline_ok = True, sp_simulation_delta_ok = True, sp_workspace_binding_valid = True,
     sp_wallet_binding_valid = True, sp_policy_binding_valid = True,
     sp_idempotency_binding_valid = True, sp_factory_allowed = True, sp_manager_allowed = True,
     sp_pool_verified = True, sp_authority_verified = True, sp_gas_ok = True,
     sp_priority_fee_ok = True, sp_tip_ok = True, sp_rent_ok = True,
     sp_writable_accounts_allowed = True, sp_approvals_bounded = True,
     sp_instructions_decoded = True, sp_no_unrelated_operations = True\<rparr>"

theorem signer_checklist_fail_closed_witness:
  "signer_policy_passes sample_signer_policy \<and>
   \<not> signer_policy_passes (sample_signer_policy\<lparr>sp_chain_id := Some '' ''\<rparr>)"
proof
  show "signer_policy_passes sample_signer_policy"
    by (simp add: sample_signer_policy_def signer_policy_passes_def non_empty_def is_blank_iff
        is_whitespace_def)
  have "is_blank (the (Some '' ''))" by (simp add: is_blank_iff is_whitespace_def)
  then have "\<forall>f \<in> set (signer_set_text (Some '' '')). \<not> signer_policy_passes (f sample_signer_policy)"
    using signer_checklist_fail_closed [of sample_signer_policy "Some '' ''"] by blast
  then show "\<not> signer_policy_passes (sample_signer_policy\<lparr>sp_chain_id := Some '' ''\<rparr>)"
    by (simp add: signer_set_text_def)
qed

end
