(* ===== verification/Autonomy.thy ===== *)
theory Autonomy
  imports Execution
begin

text \<open>
  Bounded autonomous execution: the rollout types and the evidence guard of
  \<open>sf/autonomy.rs\<close>, and the single autonomous-action gate of \<open>sf/autonomy_runtime.rs\<close>.
  Percentages and interval bounds are \<open>f64\<close> values, so a NaN measurement is possible and
  every comparison with it is false.
\<close>

section \<open>Rollout state and thresholds\<close>

datatype TradingMode = ReadOnly | ModeShadow | ModePaper | ConfirmEach | AutoBounded
  | ModePaused | ModeHalted

datatype RolloutPhase = PhaseShadow | PhasePaper | PhaseConfirmEach | AutoBoundedClaimClose
  | AutoBoundedOpenReseed | PhaseAdvanced

text \<open>The derived order of the ladder: position in the declaration.\<close>

fun phase_index :: "RolloutPhase \<Rightarrow> nat" where
  "phase_index PhaseShadow = 0"
| "phase_index PhasePaper = 1"
| "phase_index PhaseConfirmEach = 2"
| "phase_index AutoBoundedClaimClose = 3"
| "phase_index AutoBoundedOpenReseed = 4"
| "phase_index PhaseAdvanced = 5"

lemma phase_index_inj: "phase_index a = phase_index b \<Longrightarrow> a = b"
  by (cases a; cases b) simp_all

instantiation RolloutPhase :: linorder
begin

definition less_eq_RolloutPhase :: "RolloutPhase \<Rightarrow> RolloutPhase \<Rightarrow> bool" where
  "less_eq_RolloutPhase a b \<longleftrightarrow> phase_index a \<le> phase_index b"

definition less_RolloutPhase :: "RolloutPhase \<Rightarrow> RolloutPhase \<Rightarrow> bool" where
  "less_RolloutPhase a b \<longleftrightarrow> phase_index a < phase_index b"

instance
  by standard (auto simp: less_eq_RolloutPhase_def less_RolloutPhase_def intro: phase_index_inj)

end

record RolloutThresholds =
  rt_min_forward_sample :: nat
  rt_forward_horizon_days :: nat
  rt_max_drawdown_pct :: f64
  rt_ci_lower_bound :: f64
  rt_requires_human_approval :: bool

definition default_thresholds :: RolloutThresholds where
  "default_thresholds = \<lparr>rt_min_forward_sample = 30, rt_forward_horizon_days = 14,
     rt_max_drawdown_pct = Fin (- 10), rt_ci_lower_bound = Fin 0, rt_requires_human_approval = True\<rparr>"

record AutonomyGuard =
  ag_thresholds :: RolloutThresholds
  ag_forward_sample :: nat
  ag_forward_horizon_days :: nat
  ag_current_drawdown_pct :: f64
  ag_ci_lower_bound :: f64
  ag_evidence_refs :: "string list"
  ag_human_approved :: bool

definition can_raise_limit :: "AutonomyGuard \<Rightarrow> bool" where
  "can_raise_limit g \<longleftrightarrow>
     rt_requires_human_approval (ag_thresholds g) \<and>
     ag_human_approved g \<and>
     ag_forward_sample g \<ge> rt_min_forward_sample (ag_thresholds g) \<and>
     ag_forward_horizon_days g \<ge> rt_forward_horizon_days (ag_thresholds g) \<and>
     f64_ge (ag_current_drawdown_pct g) (rt_max_drawdown_pct (ag_thresholds g)) \<and>
     f64_gt (ag_ci_lower_bound g) (rt_ci_lower_bound (ag_thresholds g))"

record AutonomousCycle =
  ac_mode :: TradingMode
  ac_phase :: RolloutPhase
  ac_guard :: AutonomyGuard
  ac_canary :: bool
  ac_max_notional :: "string option"

record AutonomousLpCycle =
  alp_pool_address :: string
  alp_phase :: RolloutPhase
  alp_guard :: AutonomyGuard
  alp_action :: LpAction
  alp_reseed_after_evidence :: bool

section \<open>The gate\<close>

definition is_autonomous :: "TradingMode \<Rightarrow> bool" where
  "is_autonomous mode \<longleftrightarrow> mode = AutoBounded"

definition can_open :: "RolloutPhase \<Rightarrow> bool" where
  "can_open phase \<longleftrightarrow> phase = AutoBoundedOpenReseed \<or> phase = PhaseAdvanced"

definition can_claim_close :: "RolloutPhase \<Rightarrow> bool" where
  "can_claim_close phase \<longleftrightarrow>
     phase = AutoBoundedClaimClose \<or> phase = AutoBoundedOpenReseed \<or> phase = PhaseAdvanced"

datatype ActionMaturity = ClaimClose | MatOpen

fun classify_action :: "Action \<Rightarrow> ActionMaturity option" where
  "classify_action (Lp LpClaimFees) = Some ClaimClose"
| "classify_action (Lp LpClosePosition) = Some ClaimClose"
| "classify_action (Lp LpPartialWithdraw) = Some ClaimClose"
| "classify_action (Lp LpSwapResiduals) = Some ClaimClose"
| "classify_action (Lp LpEmergencyExit) = Some ClaimClose"
| "classify_action (Trade TradeSell) = Some ClaimClose"
| "classify_action (Trade TradePartialSell) = Some ClaimClose"
| "classify_action (Trade TradeClose) = Some ClaimClose"
| "classify_action (Trade TradeEmergencyExit) = Some ClaimClose"
| "classify_action (Lp LpOpenPosition) = Some MatOpen"
| "classify_action (Lp LpReseedPosition) = Some MatOpen"
| "classify_action (Lp LpAddLiquidity) = Some MatOpen"
| "classify_action (Lp LpCompoundFees) = Some MatOpen"
| "classify_action (Trade TradeBuy) = Some MatOpen"

definition thresholds_sane :: "RolloutThresholds \<Rightarrow> bool" where
  "thresholds_sane t \<longleftrightarrow>
     rt_min_forward_sample t \<ge> 30 \<and>
     rt_forward_horizon_days t \<ge> 14 \<and>
     f64_ge (rt_max_drawdown_pct t) (Fin (- 10)) \<and>
     f64_lt (rt_max_drawdown_pct t) (Fin 0) \<and>
     f64_ge (rt_ci_lower_bound t) (Fin 0) \<and>
     rt_requires_human_approval t"

definition autonomous_action_permitted ::
  "TradingMode \<Rightarrow> RolloutPhase \<Rightarrow> Action \<Rightarrow> bool \<Rightarrow> AutonomyGuard \<Rightarrow> bool" where
  "autonomous_action_permitted mode phase action canary guard =
     (if \<not> is_autonomous mode then False
      else if \<not> canary then False
      else if \<not> thresholds_sane (ag_thresholds guard) then False
      else case classify_action action of
             None \<Rightarrow> False
           | Some maturity \<Rightarrow>
               (let phase_ok = (case maturity of MatOpen \<Rightarrow> can_open phase | ClaimClose \<Rightarrow> can_claim_close phase)
                in phase_ok \<and> ag_evidence_refs guard \<noteq> [] \<and> can_raise_limit guard))"

definition limit_raise_permitted :: "RolloutPhase \<Rightarrow> AutonomyGuard \<Rightarrow> bool" where
  "limit_raise_permitted phase guard =
     autonomous_action_permitted AutoBounded phase (Lp LpClaimFees) True guard"

definition cycle_ready :: "AutonomousCycle \<Rightarrow> bool" where
  "cycle_ready cycle =
     autonomous_action_permitted (ac_mode cycle) (ac_phase cycle) (Lp LpClaimFees) (ac_canary cycle)
       (ac_guard cycle)"

section \<open>Properties\<close>

fun reduces_risk :: "Action \<Rightarrow> bool" where
  "reduces_risk (Trade t) = is_risk_reducing t"
| "reduces_risk (Lp l) = is_lp_risk_reducing l"

lemma classify_action_risk:
  "classify_action a = Some (if reduces_risk a then ClaimClose else MatOpen)"
proof (cases a)
  case (Trade t)
  then show ?thesis by (cases t) simp_all
next
  case (Lp l)
  then show ?thesis by (cases l) simp_all
qed

lemma phase_gates [gate_simps]:
  "can_open p \<longleftrightarrow> AutoBoundedOpenReseed \<le> p" "can_claim_close p \<longleftrightarrow> AutoBoundedClaimClose \<le> p"
  by (cases p; simp add: can_open_def can_claim_close_def less_eq_RolloutPhase_def)+

lemma autonomous_action_permitted_iff [gate_simps]:
  "autonomous_action_permitted mode p a canary g \<longleftrightarrow>
     mode = AutoBounded \<and> canary \<and> thresholds_sane (ag_thresholds g) \<and>
     (if reduces_risk a then AutoBoundedClaimClose else AutoBoundedOpenReseed) \<le> p \<and>
     ag_evidence_refs g \<noteq> [] \<and> can_raise_limit g"
  by (simp add: autonomous_action_permitted_def classify_action_risk is_autonomous_def phase_gates Let_def)

lemma sane_guard_measurements:
  assumes "thresholds_sane (ag_thresholds g)" and "can_raise_limit g"
  shows "30 \<le> ag_forward_sample g" "14 \<le> ag_forward_horizon_days g"
    "f64_le (Fin (- 10)) (ag_current_drawdown_pct g)" "f64_lt (Fin 0) (ag_ci_lower_bound g)"
    "ag_human_approved g"
  using assms unfolding thresholds_sane_def can_raise_limit_def
  by (auto dest: f64_le_trans f64_le_lt_trans)

text \<open>No configuration can weaken the frozen autonomy limits. Whatever thresholds the guard
  carries, an autonomous action passes only in AUTO_BOUNDED mode on a canary run, with human
  approval, recorded evidence, at least 30 forward samples over at least 14 days, a drawdown
  measured no worse than -10 percent and a confidence bound measured above zero (in particular
  neither is NaN), and at a rollout rung that fits the risk: claim/close for risk-reducing
  actions, open/reseed for all others.\<close>

theorem autonomy_frozen_limits:
  assumes "autonomous_action_permitted mode phase action canary g"
  shows "mode = AutoBounded \<and> canary \<and> ag_human_approved g \<and> ag_evidence_refs g \<noteq> [] \<and>
    30 \<le> ag_forward_sample g \<and> 14 \<le> ag_forward_horizon_days g \<and>
    f64_le (Fin (- 10)) (ag_current_drawdown_pct g) \<and> f64_lt (Fin 0) (ag_ci_lower_bound g) \<and>
    AutoBoundedClaimClose \<le> phase \<and> (\<not> reduces_risk action \<longrightarrow> AutoBoundedOpenReseed \<le> phase)"
proof -
  have g: "mode = AutoBounded" "canary" "thresholds_sane (ag_thresholds g)" "ag_evidence_refs g \<noteq> []"
      "can_raise_limit g" "(if reduces_risk action then AutoBoundedClaimClose else AutoBoundedOpenReseed) \<le> phase"
    using assms by (auto simp: autonomous_action_permitted_iff)
  have "AutoBoundedClaimClose \<le> AutoBoundedOpenReseed" by (simp add: less_eq_RolloutPhase_def)
  with g(6) have "AutoBoundedClaimClose \<le> phase" by (auto split: if_splits)
  with g sane_guard_measurements [OF g(3,5)] show ?thesis by auto
qed

definition sample_guard :: AutonomyGuard where
  "sample_guard = \<lparr>ag_thresholds = default_thresholds, ag_forward_sample = 30,
     ag_forward_horizon_days = 14, ag_current_drawdown_pct = Fin (- 5), ag_ci_lower_bound = Fin (1 / 10),
     ag_evidence_refs = [''ev''], ag_human_approved = True\<rparr>"

lemma sample_guard_permits:
  "autonomous_action_permitted AutoBounded AutoBoundedClaimClose (Trade TradeSell) True sample_guard"
  by (simp add: autonomous_action_permitted_def is_autonomous_def thresholds_sane_def can_raise_limit_def
      sample_guard_def default_thresholds_def can_claim_close_def)

theorem autonomy_frozen_limits_witness:
  "30 \<le> ag_forward_sample sample_guard \<and> ag_human_approved sample_guard"
  using autonomy_frozen_limits [OF sample_guard_permits] by simp

text \<open>Autonomy matures from exits to entries. Every action is classified, and the autonomy
  gate and the kill-switch gate agree on which actions reduce risk; an action permitted at one
  rung stays permitted at every later one; and wherever a risk-adding action is permitted, every
  risk-reducing one, the limit raise and the cycle readiness check are permitted too.\<close>

theorem autonomy_matures_exits_first:
  "(classify_action a = Some ClaimClose \<longleftrightarrow> reduces_risk a) \<and>
   (classify_action a = Some MatOpen \<longleftrightarrow> \<not> reduces_risk a) \<and>
   (autonomous_action_permitted mode p a canary g \<and> p \<le> q \<longrightarrow>
      autonomous_action_permitted mode q a canary g) \<and>
   (autonomous_action_permitted mode p a canary g \<and> reduces_risk b \<longrightarrow>
      autonomous_action_permitted mode p b canary g \<and> limit_raise_permitted p g \<and>
      (\<forall>n. cycle_ready \<lparr>ac_mode = mode, ac_phase = p, ac_guard = g, ac_canary = canary, ac_max_notional = n\<rparr>))"
proof -
  have le: "AutoBoundedClaimClose \<le> AutoBoundedOpenReseed" by (simp add: less_eq_RolloutPhase_def)
  have "reduces_risk (Lp LpClaimFees)" by simp
  then show ?thesis
    using le by (auto simp: classify_action_risk autonomous_action_permitted_iff
        limit_raise_permitted_def cycle_ready_def split: if_splits)
qed

theorem autonomy_matures_exits_first_witness:
  "limit_raise_permitted AutoBoundedClaimClose sample_guard"
  using autonomy_matures_exits_first [of "Trade TradeSell" AutoBounded AutoBoundedClaimClose True
      sample_guard AutoBoundedClaimClose "Trade TradeSell"] sample_guard_permits
  by simp

end
