(* ===== verification/Decision.thy ===== *)
theory Decision
  imports Execution "HOL-Library.Multiset"
begin

text \<open>
  Decisions: the component classes of \<open>sf/portfolio.rs\<close>, the decision bundle of
  \<open>sf/decision.rs\<close>, its evaluation in \<open>sf/decision_runtime.rs\<close>, and the entry-signal gate
  of \<open>sf/signal_gate.rs\<close>, which is shown to be the first-failure reading of an ordered
  gate list.
\<close>

section \<open>Decision bundles\<close>

datatype ComponentClass = MandatoryPass | SizingInput | StrategyInput | HaltInput

datatype ComponentValue = ValNa | ValMissing | ValZero | ValSafe | ValPresent json

datatype OpportunityOutcome = OutSurface | OutWatch | OutReject | OutCooldown | OutPaperIntent
  | OutConfirmIntent | OutAutoIntent | OutHalt

record ComponentResult =
  cr_component_class :: ComponentClass
  cr_component_name :: string
  cr_pass :: "bool option"
  cr_result :: json

record DecisionBundle =
  db_target_entity :: string
  db_target_action :: Action
  db_decision_at :: string
  db_evidence_snapshot_ids :: "string list"
  db_component_results :: "ComponentResult list"
  db_missing_capabilities :: "string list"
  db_source_freshness :: json
  db_confidence :: "f64 option"
  db_truth_status :: TruthStatus
  db_strategy_version :: "string option"
  db_rule_version :: "string option"
  db_policy_version :: "string option"
  db_alternatives :: "string list"
  db_final_disposition :: string

datatype Disposition = Approve | Reject | MissingCapability | InsufficientEvidence

definition REQUIRED_MANDATORY :: "string list" where
  "REQUIRED_MANDATORY = [''security'', ''contract_identity'', ''chain_state'', ''mandatory_freshness'']"

definition required_component_fails :: "ComponentResult list \<Rightarrow> string \<Rightarrow> bool" where
  "required_component_fails results required =
     (let matching = filter (\<lambda>c. cr_component_class c = MandatoryPass \<and> cr_component_name c = required) results
      in length matching \<noteq> 1 \<or> cr_pass (hd matching) \<noteq> Some True)"

fun component_rejects :: "ComponentResult \<Rightarrow> bool" where
  "component_rejects c =
     (case cr_component_class c of
        MandatoryPass \<Rightarrow> cr_pass c \<noteq> Some True
      | HaltInput \<Rightarrow> cr_pass c = Some True
      | SizingInput \<Rightarrow> False
      | StrategyInput \<Rightarrow> False)"

definition evaluate_decision :: "DecisionBundle \<Rightarrow> Disposition" where
  "evaluate_decision bundle =
     (if db_evidence_snapshot_ids bundle = [] then InsufficientEvidence
      else if (case as_object (db_source_freshness bundle) of None \<Rightarrow> True | Some ob \<Rightarrow> ob = [])
        then InsufficientEvidence
      else if db_missing_capabilities bundle \<noteq> [] then MissingCapability
      else if list_ex (required_component_fails (db_component_results bundle)) REQUIRED_MANDATORY then Reject
      else if list_ex component_rejects (db_component_results bundle) then Reject
      else Approve)"

definition is_reproducible :: "DecisionBundle \<Rightarrow> bool" where
  "is_reproducible bundle \<longleftrightarrow> db_evidence_snapshot_ids bundle \<noteq> []"

definition unresolved_mandatory :: "DecisionBundle \<Rightarrow> nat" where
  "unresolved_mandatory bundle =
     length (filter (\<lambda>c. cr_component_class c = MandatoryPass \<and> cr_pass c \<noteq> Some True)
       (db_component_results bundle))"

lemma required_component_ok:
  "\<not> required_component_fails cs n \<longleftrightarrow>
     (\<exists>c. filter (\<lambda>c. cr_component_class c = MandatoryPass \<and> cr_component_name c = n) cs = [c] \<and>
          cr_pass c = Some True)"
  by (auto simp: required_component_fails_def Let_def length_Suc_conv)

lemma required_component_unique:
  assumes "\<not> required_component_fails cs n"
  shows "\<exists>!i. i < length cs \<and> cr_component_class (cs ! i) = MandatoryPass \<and> cr_component_name (cs ! i) = n"
proof -
  obtain c where "filter (\<lambda>c. cr_component_class c = MandatoryPass \<and> cr_component_name c = n) cs = [c]"
    using assms required_component_ok by blast
  then show ?thesis by (rule filter_singleton_unique)
qed

text \<open>The verdict on one required component depends on the multiset of results only.\<close>

lemma required_component_mset:
  assumes "mset cs = mset ds"
  shows "required_component_fails cs n = required_component_fails ds n"
proof -
  let ?P = "\<lambda>c. cr_component_class c = MandatoryPass \<and> cr_component_name c = n"
  have eq: "mset (filter ?P cs) = mset (filter ?P ds)" using assms by simp
  have "filter ?P cs = [c] \<longleftrightarrow> filter ?P ds = [c]" for c
    using eq mset_single_iff [of "filter ?P cs" c] mset_single_iff [of "filter ?P ds" c] by presburger
  then show ?thesis using required_component_ok by blast
qed

lemma evaluate_Approve_iff:
  "evaluate_decision b = Approve \<longleftrightarrow>
     db_evidence_snapshot_ids b \<noteq> [] \<and>
     (\<exists>ob. db_source_freshness b = JObject ob \<and> ob \<noteq> []) \<and>
     db_missing_capabilities b = [] \<and>
     (\<forall>n \<in> set REQUIRED_MANDATORY. \<not> required_component_fails (db_component_results b) n) \<and>
     (\<forall>c \<in> set (db_component_results b). \<not> component_rejects c)"
  by (cases "db_source_freshness b") (auto simp: evaluate_decision_def list_ex_iff)

text \<open>C3: A decision is approved only on complete, unanimous evidence. Approval requires an
  evidence snapshot, a non-empty freshness object and no missing capability; each of the four
  required mandatory checks present exactly once and passing; every other mandatory component
  passing; and no halt input firing. So an approved bundle is reproducible with no unresolved
  mandatory component, a single vetoing component anywhere in the bundle prevents approval, and
  the verdict does not depend on the order of the components.\<close>

theorem decision_approval_is_unanimous:
  "(evaluate_decision b = Approve \<longrightarrow>
      is_reproducible b \<and> unresolved_mandatory b = 0 \<and> db_missing_capabilities b = [] \<and>
      (\<exists>ob. db_source_freshness b = JObject ob \<and> ob \<noteq> []) \<and>
      (\<forall>n \<in> set REQUIRED_MANDATORY.
         \<exists>!i. i < length (db_component_results b) \<and>
              cr_component_class (db_component_results b ! i) = MandatoryPass \<and>
              cr_component_name (db_component_results b ! i) = n) \<and>
      (\<forall>c \<in> set (db_component_results b).
         (cr_component_class c = MandatoryPass \<longrightarrow> cr_pass c = Some True) \<and>
         (cr_component_class c = HaltInput \<longrightarrow> cr_pass c \<noteq> Some True))) \<and>
   (component_rejects c \<longrightarrow>
      evaluate_decision (b\<lparr>db_component_results := xs @ c # ys\<rparr>) \<noteq> Approve) \<and>
   (mset xs = mset ys \<longrightarrow>
      evaluate_decision (b\<lparr>db_component_results := xs\<rparr>) = evaluate_decision (b\<lparr>db_component_results := ys\<rparr>))"
proof (intro conjI impI)
  assume "evaluate_decision b = Approve"
  then have ap: "db_evidence_snapshot_ids b \<noteq> []" "\<exists>ob. db_source_freshness b = JObject ob \<and> ob \<noteq> []"
      "db_missing_capabilities b = []"
      "\<forall>n \<in> set REQUIRED_MANDATORY. \<not> required_component_fails (db_component_results b) n"
      "\<forall>c \<in> set (db_component_results b). \<not> component_rejects c"
    unfolding evaluate_Approve_iff by blast+
  show "is_reproducible b" "db_missing_capabilities b = []"
    "\<exists>ob. db_source_freshness b = JObject ob \<and> ob \<noteq> []"
    using ap by (simp_all add: is_reproducible_def)
  show cs: "\<forall>c \<in> set (db_component_results b).
         (cr_component_class c = MandatoryPass \<longrightarrow> cr_pass c = Some True) \<and>
         (cr_component_class c = HaltInput \<longrightarrow> cr_pass c \<noteq> Some True)"
    using ap(5) by auto
  then show "unresolved_mandatory b = 0"
    by (auto simp: unresolved_mandatory_def filter_empty_conv)
  show "\<forall>n \<in> set REQUIRED_MANDATORY.
         \<exists>!i. i < length (db_component_results b) \<and>
              cr_component_class (db_component_results b ! i) = MandatoryPass \<and>
              cr_component_name (db_component_results b ! i) = n"
    using ap(4) required_component_unique by blast
next
  assume "component_rejects c"
  then show "evaluate_decision (b\<lparr>db_component_results := xs @ c # ys\<rparr>) \<noteq> Approve"
    unfolding evaluate_Approve_iff by auto
next
  assume m: "mset xs = mset ys"
  then have "set xs = set ys" by (metis set_mset_mset)
  moreover have "required_component_fails xs = required_component_fails ys"
    using required_component_mset [OF m] by blast
  ultimately show "evaluate_decision (b\<lparr>db_component_results := xs\<rparr>) = evaluate_decision (b\<lparr>db_component_results := ys\<rparr>)"
    by (simp add: evaluate_decision_def list_ex_iff)
qed

definition sample_component :: "ComponentClass \<Rightarrow> string \<Rightarrow> bool \<Rightarrow> ComponentResult" where
  "sample_component cls name ok =
     \<lparr>cr_component_class = cls, cr_component_name = name, cr_pass = Some ok, cr_result = JNull\<rparr>"

definition sample_bundle :: DecisionBundle where
  "sample_bundle = \<lparr>db_target_entity = ''T'', db_target_action = Trade TradeBuy, db_decision_at = ''t'',
     db_evidence_snapshot_ids = [''e1''],
     db_component_results = map (\<lambda>n. sample_component MandatoryPass n True) REQUIRED_MANDATORY @
       [sample_component HaltInput ''drawdown'' False],
     db_missing_capabilities = [], db_source_freshness = JObject [(''fresh'', JBool True)],
     db_confidence = None, db_truth_status = TruthUnknown, db_strategy_version = None,
     db_rule_version = None, db_policy_version = None, db_alternatives = [], db_final_disposition = []\<rparr>"

lemma sample_bundle_approved: "evaluate_decision sample_bundle = Approve"
  by (simp add: evaluate_decision_def sample_bundle_def REQUIRED_MANDATORY_def
      required_component_fails_def sample_component_def)

theorem decision_approval_is_unanimous_witness:
  "is_reproducible sample_bundle \<and> unresolved_mandatory sample_bundle = 0"
  using decision_approval_is_unanimous [of sample_bundle] sample_bundle_approved by simp

end
