(* ===== verification/Signal_Gate.thy ===== *)
theory Signal_Gate
  imports Core
begin

text \<open>
  The entry-signal gate of \<open>sf/signal_gate.rs\<close>: ten checks in a fixed order, of which the
  first that fails names the rejection. The model follows the early returns of the code; the
  reference reading is the ordered list \<open>entry_gates\<close> under \<^const>\<open>first_failure\<close>.
\<close>

datatype RejectionCode = InsufficientClusters | InsufficientBuys | UnsupportedLifecycle | TokenTooOld
  | InsufficientLiquidity | RejCriticalRisk | WashRisk | StaleMarket | IneligibleSkill
  | IneligibleCopyability | IncompleteHistory

record GateThresholds =
  gt_min_eligible_clusters :: nat
  gt_min_meaningful_buys :: nat
  gt_max_token_age_hours :: int
  gt_min_liquidity_usd :: nat
  gt_max_market_age_seconds :: int
  gt_min_skill :: nat
  gt_min_copyability :: nat
  gt_min_history_completeness :: f64

definition default_gate_thresholds :: GateThresholds where
  "default_gate_thresholds = \<lparr>gt_min_eligible_clusters = 2, gt_min_meaningful_buys = 2,
     gt_max_token_age_hours = 24, gt_min_liquidity_usd = 20000, gt_max_market_age_seconds = 300,
     gt_min_skill = 70, gt_min_copyability = 60,
     gt_min_history_completeness = Fin (3602879701896397 / 4503599627370496)\<rparr>"
     \<comment> \<open>the double nearest to 0.80\<close>

datatype RiskFlag = FlagCriticalRisk | FlagWashTrading | FlagHoneypot | FlagRugged

record EntryGateInput =
  gi_eligible_clusters :: nat
  gi_meaningful_buys :: nat
  gi_lifecycle_supported :: bool
  gi_token_age_hours :: "int option"
  gi_liquidity_usd :: "nat option"
  gi_risk_flags :: "RiskFlag list"
  gi_market_age_seconds :: "int option"
  gi_max_skill :: nat
  gi_max_copyability :: nat
  gi_min_history_completeness :: f64

datatype GateOutcome = Accepted | Rejected RejectionCode

definition some_and :: "('a \<Rightarrow> bool) \<Rightarrow> 'a option \<Rightarrow> bool" where
  "some_and P x = (case x of Some v \<Rightarrow> P v | None \<Rightarrow> False)"

definition evaluate_entry_gate :: "EntryGateInput \<Rightarrow> GateThresholds \<Rightarrow> GateOutcome" where
  "evaluate_entry_gate input t =
     (if gi_eligible_clusters input < gt_min_eligible_clusters t then Rejected InsufficientClusters
      else if gi_meaningful_buys input < gt_min_meaningful_buys t then Rejected InsufficientBuys
      else if \<not> gi_lifecycle_supported input then Rejected UnsupportedLifecycle
      else if \<not> some_and (\<lambda>age. age \<le> gt_max_token_age_hours t) (gi_token_age_hours input)
        then Rejected TokenTooOld
      else if \<not> some_and (\<lambda>l. l \<ge> gt_min_liquidity_usd t) (gi_liquidity_usd input)
        then Rejected InsufficientLiquidity
      else if FlagWashTrading \<in> set (gi_risk_flags input) then Rejected WashRisk
      else if list_ex (\<lambda>f. f = FlagCriticalRisk \<or> f = FlagHoneypot \<or> f = FlagRugged) (gi_risk_flags input)
        then Rejected RejCriticalRisk
      else if \<not> some_and (\<lambda>a. a \<le> gt_max_market_age_seconds t) (gi_market_age_seconds input)
        then Rejected StaleMarket
      else if gi_max_skill input < gt_min_skill t then Rejected IneligibleSkill
      else if gi_max_copyability input < gt_min_copyability t then Rejected IneligibleCopyability
      else if f64_lt (gi_min_history_completeness input) (gt_min_history_completeness t)
        then Rejected IncompleteHistory
      else Accepted)"

section \<open>The reference reading\<close>

definition entry_gates :: "EntryGateInput \<Rightarrow> GateThresholds \<Rightarrow> (bool \<times> RejectionCode) list" where
  "entry_gates i t =
     [(gi_eligible_clusters i < gt_min_eligible_clusters t, InsufficientClusters),
      (gi_meaningful_buys i < gt_min_meaningful_buys t, InsufficientBuys),
      (\<not> gi_lifecycle_supported i, UnsupportedLifecycle),
      (\<forall>age. gi_token_age_hours i = Some age \<longrightarrow> gt_max_token_age_hours t < age, TokenTooOld),
      (\<forall>l. gi_liquidity_usd i = Some l \<longrightarrow> l < gt_min_liquidity_usd t, InsufficientLiquidity),
      (FlagWashTrading \<in> set (gi_risk_flags i), WashRisk),
      (set (gi_risk_flags i) \<inter> {FlagCriticalRisk, FlagHoneypot, FlagRugged} \<noteq> {}, RejCriticalRisk),
      (\<forall>a. gi_market_age_seconds i = Some a \<longrightarrow> gt_max_market_age_seconds t < a, StaleMarket),
      (gi_max_skill i < gt_min_skill t, IneligibleSkill),
      (gi_max_copyability i < gt_min_copyability t, IneligibleCopyability),
      (f64_lt (gi_min_history_completeness i) (gt_min_history_completeness t), IncompleteHistory)]"

text \<open>One input is at least as good as another in every respect the gate looks at. A NaN
  completeness is excluded: it compares with nothing.\<close>

definition entry_dominates :: "EntryGateInput \<Rightarrow> EntryGateInput \<Rightarrow> bool" where
  "entry_dominates j i \<longleftrightarrow>
     gi_eligible_clusters i \<le> gi_eligible_clusters j \<and> gi_meaningful_buys i \<le> gi_meaningful_buys j \<and>
     (gi_lifecycle_supported i \<longrightarrow> gi_lifecycle_supported j) \<and>
     (\<forall>a. gi_token_age_hours i = Some a \<longrightarrow> (\<exists>b \<le> a. gi_token_age_hours j = Some b)) \<and>
     (\<forall>a. gi_liquidity_usd i = Some a \<longrightarrow> (\<exists>b \<ge> a. gi_liquidity_usd j = Some b)) \<and>
     set (gi_risk_flags j) \<subseteq> set (gi_risk_flags i) \<and>
     (\<forall>a. gi_market_age_seconds i = Some a \<longrightarrow> (\<exists>b \<le> a. gi_market_age_seconds j = Some b)) \<and>
     gi_max_skill i \<le> gi_max_skill j \<and> gi_max_copyability i \<le> gi_max_copyability j \<and>
     f64_le (gi_min_history_completeness i) (gi_min_history_completeness j)"

lemma some_and_iff: "\<not> some_and P x \<longleftrightarrow> (\<forall>v. x = Some v \<longrightarrow> \<not> P v)"
  by (auto simp: some_and_def split: option.splits)

lemma evaluate_entry_gate_first_failure:
  "evaluate_entry_gate i t =
     (case first_failure (entry_gates i t) of None \<Rightarrow> Accepted | Some c \<Rightarrow> Rejected c)"
proof -
  have risk: "list_ex (\<lambda>f. f = FlagCriticalRisk \<or> f = FlagHoneypot \<or> f = FlagRugged) (gi_risk_flags i)
      \<longleftrightarrow> set (gi_risk_flags i) \<inter> {FlagCriticalRisk, FlagHoneypot, FlagRugged} \<noteq> {}"
    by (auto simp: list_ex_iff)
  show ?thesis
    unfolding evaluate_entry_gate_def entry_gates_def risk some_and_iff not_le first_failure.simps
      if_distrib [where f = "case_option Accepted Rejected"] option.case
    by (rule refl)
qed

lemma evaluate_entry_gate_Accepted:
  "evaluate_entry_gate i t = Accepted \<longleftrightarrow> (\<forall>g \<in> set (entry_gates i t). \<not> fst g)"
  unfolding evaluate_entry_gate_first_failure using first_failure_None [of "entry_gates i t"]
  by (cases "first_failure (entry_gates i t)") auto

lemma Accepted_fields:
  "evaluate_entry_gate i t = Accepted \<longleftrightarrow>
     gt_min_eligible_clusters t \<le> gi_eligible_clusters i \<and> gt_min_meaningful_buys t \<le> gi_meaningful_buys i \<and>
     gi_lifecycle_supported i \<and>
     (\<exists>a \<le> gt_max_token_age_hours t. gi_token_age_hours i = Some a) \<and>
     (\<exists>a \<ge> gt_min_liquidity_usd t. gi_liquidity_usd i = Some a) \<and>
     gi_risk_flags i = [] \<and>
     (\<exists>a \<le> gt_max_market_age_seconds t. gi_market_age_seconds i = Some a) \<and>
     gt_min_skill t \<le> gi_max_skill i \<and> gt_min_copyability t \<le> gi_max_copyability i \<and>
     \<not> f64_lt (gi_min_history_completeness i) (gt_min_history_completeness t)"
proof -
  have flags: "FlagWashTrading \<notin> set fs \<and> set fs \<inter> {FlagCriticalRisk, FlagHoneypot, FlagRugged} = {}
      \<longleftrightarrow> fs = []" for fs
  proof (cases fs)
    case (Cons f fs')
    then show ?thesis by (cases f) auto
  qed simp
  have "gi_risk_flags i = [] \<longleftrightarrow> FlagWashTrading \<notin> set (gi_risk_flags i) \<and>
      set (gi_risk_flags i) \<inter> {FlagCriticalRisk, FlagHoneypot, FlagRugged} = {}"
    by (rule flags [symmetric])
  then show ?thesis
    unfolding evaluate_entry_gate_Accepted entry_gates_def by (simp add: not_less) blast
qed

lemma evaluate_entry_gate_mono:
  assumes "evaluate_entry_gate i t = Accepted" and dom: "entry_dominates j i"
  shows "evaluate_entry_gate j t = Accepted"
proof -
  note i = assms(1) [unfolded Accepted_fields]
  have "\<not> f64_lt (gi_min_history_completeness j) (gt_min_history_completeness t)"
    using i dom by (auto simp: entry_dominates_def dest: f64_le_lt_trans)
  moreover have "\<exists>a \<le> gt_max_token_age_hours t. gi_token_age_hours j = Some a"
    using i dom by (auto simp: entry_dominates_def intro: order_trans)
  moreover have "\<exists>a \<ge> gt_min_liquidity_usd t. gi_liquidity_usd j = Some a"
    using i dom by (auto simp: entry_dominates_def intro: order_trans)
  moreover have "\<exists>a \<le> gt_max_market_age_seconds t. gi_market_age_seconds j = Some a"
    using i dom by (auto simp: entry_dominates_def intro: order_trans)
  ultimately show ?thesis
    using i dom unfolding Accepted_fields entry_dominates_def by auto
qed

text \<open>The entry gate reports the first failing check and never guesses. A rejection code is
  that of the earliest of the eleven ordered checks that fails, and acceptance means that none
  fails; an unknown token age, liquidity or market age always rejects; and a candidate that is
  at least as good in every respect as an accepted one is accepted.\<close>

theorem entry_gate_first_failure_wins:
  "(evaluate_entry_gate i t = Accepted \<longleftrightarrow> (\<forall>g \<in> set (entry_gates i t). \<not> fst g)) \<and>
   (evaluate_entry_gate i t = Rejected c \<longrightarrow>
      (\<exists>pre post. entry_gates i t = pre @ (True, c) # post \<and> (\<forall>g \<in> set pre. \<not> fst g))) \<and>
   (gi_token_age_hours i = None \<or> gi_liquidity_usd i = None \<or> gi_market_age_seconds i = None \<longrightarrow>
      evaluate_entry_gate i t \<noteq> Accepted) \<and>
   (evaluate_entry_gate i t = Accepted \<and> entry_dominates j i \<longrightarrow> evaluate_entry_gate j t = Accepted)"
proof (intro conjI impI)
  show "evaluate_entry_gate i t = Accepted \<longleftrightarrow> (\<forall>g \<in> set (entry_gates i t). \<not> fst g)"
    by (rule evaluate_entry_gate_Accepted)
next
  assume "evaluate_entry_gate i t = Rejected c"
  then have "first_failure (entry_gates i t) = Some c"
    by (simp add: evaluate_entry_gate_first_failure split: option.splits)
  then show "\<exists>pre post. entry_gates i t = pre @ (True, c) # post \<and> (\<forall>g \<in> set pre. \<not> fst g)"
    by (rule first_failure_SomeD)
next
  assume "gi_token_age_hours i = None \<or> gi_liquidity_usd i = None \<or> gi_market_age_seconds i = None"
  then show "evaluate_entry_gate i t \<noteq> Accepted"
    unfolding evaluate_entry_gate_Accepted entry_gates_def by auto
qed (blast intro: evaluate_entry_gate_mono)

definition sample_entry :: EntryGateInput where
  "sample_entry = \<lparr>gi_eligible_clusters = 3, gi_meaningful_buys = 2, gi_lifecycle_supported = True,
     gi_token_age_hours = Some 5, gi_liquidity_usd = Some 20000, gi_risk_flags = [],
     gi_market_age_seconds = Some 300, gi_max_skill = 70, gi_max_copyability = 60,
     gi_min_history_completeness = Fin 1\<rparr>"

theorem entry_gate_first_failure_wins_witness:
  "evaluate_entry_gate sample_entry default_gate_thresholds = Accepted \<and>
   evaluate_entry_gate (sample_entry\<lparr>gi_max_skill := 99\<rparr>) default_gate_thresholds = Accepted \<and>
   evaluate_entry_gate (sample_entry\<lparr>gi_token_age_hours := None\<rparr>) default_gate_thresholds \<noteq> Accepted"
proof -
  have acc: "evaluate_entry_gate sample_entry default_gate_thresholds = Accepted"
    by (simp add: evaluate_entry_gate_def sample_entry_def default_gate_thresholds_def some_and_def)
  have "entry_dominates (sample_entry\<lparr>gi_max_skill := 99\<rparr>) sample_entry"
    by (simp add: entry_dominates_def sample_entry_def)
  with acc have "evaluate_entry_gate (sample_entry\<lparr>gi_max_skill := 99\<rparr>) default_gate_thresholds = Accepted"
    using entry_gate_first_failure_wins [of sample_entry default_gate_thresholds] by blast
  moreover have "gi_token_age_hours (sample_entry\<lparr>gi_token_age_hours := None\<rparr>) = None" by simp
  then have "evaluate_entry_gate (sample_entry\<lparr>gi_token_age_hours := None\<rparr>) default_gate_thresholds \<noteq> Accepted"
    using entry_gate_first_failure_wins [of "sample_entry\<lparr>gi_token_age_hours := None\<rparr>"
        default_gate_thresholds] by blast
  ultimately show ?thesis using acc by blast
qed

text \<open>A NaN completeness is below no threshold, so the last check lets it through.\<close>

lemma entry_gate_accepts_nan_completeness:
  "evaluate_entry_gate (sample_entry\<lparr>gi_min_history_completeness := F_nan\<rparr>) default_gate_thresholds = Accepted"
  by (simp add: evaluate_entry_gate_def sample_entry_def default_gate_thresholds_def some_and_def)

end
