(* ===== verification/Union_Find.thy ===== *)
theory Union_Find
  imports Interfaces "HOL-Library.Monad_Syntax"
begin

text \<open>
  The union-find of \<open>sf/portfolio_runtime.rs\<close> (the local functions \<open>find\<close> and \<open>union\<close> of
  \<open>project\<close>): a parent vector, root search, path compression and linking of roots. Both loops
  run until they meet a root, so they are \<open>option\<close>-valued partial functions: \<open>None\<close> is a loop
  that does not end or an index out of range (a panic). A measure that falls along parent
  links is the invariant; under it both operations return.
\<close>

section \<open>The operations\<close>

partial_function (option) uf_root :: "nat list \<Rightarrow> nat \<Rightarrow> nat option" where
  "uf_root parent r =
     (if r < length parent
      then if parent ! r = r then Some r else uf_root parent (parent ! r)
      else None)"

partial_function (option) uf_compress :: "nat list \<Rightarrow> nat \<Rightarrow> nat \<Rightarrow> nat list option" where
  "uf_compress parent r c =
     (if c < length parent
      then if parent ! c = c then Some parent else uf_compress (parent[c := r]) r (parent ! c)
      else None)"

definition uf_find :: "nat list \<Rightarrow> nat \<Rightarrow> (nat list \<times> nat) option" where
  "uf_find parent x =
     do { r \<leftarrow> uf_root parent x;
          parent' \<leftarrow> uf_compress parent r x;
          Some (parent', r) }"

definition uf_union :: "nat list \<Rightarrow> nat \<Rightarrow> nat \<Rightarrow> nat list option" where
  "uf_union parent a b =
     do { (p1, ra) \<leftarrow> uf_find parent a;
          (p2, rb) \<leftarrow> uf_find p1 b;
          Some (if ra \<noteq> rb then p2[rb := ra] else p2) }"

section \<open>Forests and representatives\<close>

definition uf_forest :: "(nat \<Rightarrow> nat) \<Rightarrow> nat list \<Rightarrow> bool" where
  "uf_forest f p \<longleftrightarrow> (\<forall>i < length p. p ! i < length p \<and> (p ! i \<noteq> i \<longrightarrow> f (p ! i) < f i))"

definition uf_rep :: "nat list \<Rightarrow> nat \<Rightarrow> nat" where
  "uf_rep p i = the (uf_root p i)"

lemma uf_root_returns:
  assumes "uf_forest f p" "i < length p"
  shows "\<exists>r. uf_root p i = Some r \<and> r < length p \<and> p ! r = r \<and> f r \<le> f i \<and> (p ! i \<noteq> i \<longrightarrow> f r < f i)"
  using assms(2)
proof (induction "f i" arbitrary: i rule: less_induct)
  case less
  show ?case
  proof (cases "p ! i = i")
    case True
    with less.prems show ?thesis by (subst uf_root.simps) simp
  next
    case False
    with assms(1) less.prems have "f (p ! i) < f i" "p ! i < length p" by (auto simp: uf_forest_def)
    then obtain r where r: "uf_root p (p ! i) = Some r" "r < length p" "p ! r = r" "f r \<le> f (p ! i)"
      using less.hyps by blast
    then have "uf_root p i = Some r" using False less.prems by (subst uf_root.simps) simp
    with r \<open>f (p ! i) < f i\<close> show ?thesis by auto
  qed
qed

lemma uf_rep_root: "uf_forest f p \<Longrightarrow> i < length p \<Longrightarrow> uf_root p i = Some (uf_rep p i)"
  using uf_root_returns by (fastforce simp: uf_rep_def)

lemma uf_rep_props:
  assumes "uf_forest f p" "i < length p"
  shows "uf_rep p i < length p" "p ! uf_rep p i = uf_rep p i" "p ! i \<noteq> i \<Longrightarrow> f (uf_rep p i) < f i"
  using uf_root_returns [OF assms] by (auto simp: uf_rep_def)

lemma uf_rep_self: "i < length p \<Longrightarrow> p ! i = i \<Longrightarrow> uf_rep p i = i"
  by (simp add: uf_rep_def uf_root.simps)

lemma uf_rep_step: "i < length p \<Longrightarrow> p ! i \<noteq> i \<Longrightarrow> uf_rep p i = uf_rep p (p ! i)"
  by (simp add: uf_rep_def uf_root.simps [of p i])

lemma uf_rep_induct [consumes 2, case_names root step]:
  assumes "uf_forest f p" "i < length p"
    and "\<And>i. i < length p \<Longrightarrow> p ! i = i \<Longrightarrow> P i"
    and "\<And>i. i < length p \<Longrightarrow> p ! i \<noteq> i \<Longrightarrow> p ! i < length p \<Longrightarrow> P (p ! i) \<Longrightarrow> P i"
  shows "P i"
  using assms(2)
proof (induction "f i" arbitrary: i rule: less_induct)
  case less
  with assms(1) show ?case
    by (cases "p ! i = i") (auto simp: uf_forest_def intro: assms(3,4))
qed

lemma uf_forest_init: "uf_forest (\<lambda>_. 0) [0..<n]" "i < n \<Longrightarrow> uf_rep [0..<n] i = i"
  by (simp_all add: uf_forest_def uf_rep_self)

section \<open>Path compression keeps representatives\<close>

lemma uf_shortcut:
  assumes fo: "uf_forest f p" and c: "c < length p" "p ! c \<noteq> c"
  shows "uf_forest f (p[c := uf_rep p c])"
    and "i < length p \<Longrightarrow> uf_rep (p[c := uf_rep p c]) i = uf_rep p i"
proof -
  let ?q = "p[c := uf_rep p c]"
  note r = uf_rep_props [OF fo c(1)]
  show fq: "uf_forest f ?q" using fo c r by (auto simp: uf_forest_def nth_list_update)
  have ne: "uf_rep p c \<noteq> c" using r(3) c(2) by force
  then have root: "uf_rep ?q (uf_rep p c) = uf_rep p c" using r by (simp add: uf_rep_self)
  assume "i < length p"
  with fo show "uf_rep ?q i = uf_rep p i"
  proof (induction rule: uf_rep_induct)
    case (root i)
    with c show ?case by (cases "i = c") (simp_all add: uf_rep_self)
  next
    case (step i)
    show ?case
    proof (cases "i = c")
      case True
      then show ?thesis using c ne root by (subst uf_rep_step) auto
    next
      case False
      with step show ?thesis by (subst uf_rep_step) (auto simp: uf_rep_step [of i p])
    qed
  qed
qed

lemma uf_compress_returns:
  assumes "uf_forest f p" "c < length p"
  shows "\<exists>q. uf_compress p (uf_rep p c) c = Some q \<and> uf_forest f q \<and> length q = length p \<and>
    (\<forall>i < length p. uf_rep q i = uf_rep p i)"
  using assms
proof (induction "f c" arbitrary: c p rule: less_induct)
  case less
  show ?case
  proof (cases "p ! c = c")
    case True
    with less.prems show ?thesis by (subst uf_compress.simps) simp
  next
    case False
    let ?q = "p[c := uf_rep p c]"
    have n: "f (p ! c) < f c" "p ! c < length p"
      using less.prems False by (auto simp: uf_forest_def)
    note sc = uf_shortcut [OF less.prems(1,2) False]
    have rep: "uf_rep ?q (p ! c) = uf_rep p c" using sc(2) n less.prems False by (simp add: uf_rep_step)
    obtain q where "uf_compress ?q (uf_rep ?q (p ! c)) (p ! c) = Some q" "uf_forest f q"
        "length q = length ?q" "\<forall>i < length ?q. uf_rep q i = uf_rep ?q i"
      using less.hyps [OF n(1) sc(1)] n(2) by auto
    moreover from this(1) have "uf_compress p (uf_rep p c) c = Some q"
      using False less.prems rep by (subst uf_compress.simps) simp
    ultimately show ?thesis using sc(2) by auto
  qed
qed

lemma uf_find_returns:
  assumes "uf_forest f p" "x < length p"
  shows "\<exists>q. uf_find p x = Some (q, uf_rep p x) \<and> uf_forest f q \<and> length q = length p \<and>
    (\<forall>i < length p. uf_rep q i = uf_rep p i)"
  using uf_compress_returns [OF assms] by (auto simp: uf_find_def uf_rep_root [OF assms])

section \<open>Linking two roots\<close>

lemma uf_link:
  assumes fo: "uf_forest f p" and ab: "a < length p" "b < length p" "p ! a = a" "p ! b = b" "a \<noteq> b"
  shows "uf_forest (\<lambda>i. f i + (if uf_rep p i = b then Suc (f a) else 0)) (p[b := a])"
    and "i < length p \<Longrightarrow> uf_rep (p[b := a]) i = (if uf_rep p i = b then a else uf_rep p i)"
proof -
  let ?q = "p[b := a]" and ?g = "\<lambda>i. f i + (if uf_rep p i = b then Suc (f a) else 0)"
  have reps: "uf_rep p a = a" "uf_rep p b = b" using ab by (simp_all add: uf_rep_self)
  show "uf_forest ?g ?q"
    unfolding uf_forest_def
  proof (intro allI impI conjI)
    fix i assume i: "i < length ?q"
    show "?q ! i < length ?q" using fo i ab by (cases "i = b") (auto simp: uf_forest_def)
    assume ne: "?q ! i \<noteq> i"
    show "?g (?q ! i) < ?g i"
    proof (cases "i = b")
      case True
      with ab reps show ?thesis by simp
    next
      case False
      with ne i fo have "f (p ! i) < f i" "uf_rep p i = uf_rep p (p ! i)"
        by (auto simp: uf_forest_def uf_rep_step)
      with False show ?thesis by simp
    qed
  qed
  have roota: "uf_rep ?q a = a" using ab by (simp add: uf_rep_self)
  assume "i < length p"
  with fo show "uf_rep ?q i = (if uf_rep p i = b then a else uf_rep p i)"
  proof (induction rule: uf_rep_induct)
    case (root i)
    show ?case
    proof (cases "i = b")
      case True
      then show ?thesis using ab roota reps by (subst uf_rep_step) auto
    next
      case False
      with root show ?thesis by (simp add: uf_rep_self)
    qed
  next
    case (step i)
    then have "i \<noteq> b" using ab by auto
    with step show ?case by (subst uf_rep_step) (auto simp: uf_rep_step [of i p])
  qed
qed

lemma uf_union_returns:
  assumes fo: "uf_forest f p" and ab: "a < length p" "b < length p"
  shows "\<exists>q g. uf_union p a b = Some q \<and> uf_forest g q \<and> length q = length p \<and>
    (\<forall>i < length p. uf_rep q i = (if uf_rep p i = uf_rep p b then uf_rep p a else uf_rep p i))"
proof -
  obtain p1 where p1: "uf_find p a = Some (p1, uf_rep p a)" "uf_forest f p1" "length p1 = length p"
      "\<forall>i < length p. uf_rep p1 i = uf_rep p i"
    using uf_find_returns [OF fo ab(1)] by blast
  obtain p2 where p2: "uf_find p1 b = Some (p2, uf_rep p b)" "uf_forest f p2" "length p2 = length p"
      "\<forall>i < length p. uf_rep p2 i = uf_rep p i"
    using uf_find_returns [of f p1 b] p1 ab by auto
  let ?ra = "uf_rep p a" and ?rb = "uf_rep p b"
  have un: "uf_union p a b = Some (if ?ra \<noteq> ?rb then p2[?rb := ?ra] else p2)"
    by (simp add: uf_union_def p1 p2)
  show ?thesis
  proof (cases "?ra = ?rb")
    case True
    then show ?thesis using un p2 by auto
  next
    case False
    have roots: "?ra < length p2" "?rb < length p2" "p2 ! ?ra = ?ra" "p2 ! ?rb = ?rb"
      using uf_rep_props [OF p2(2), of a] uf_rep_props [OF p2(2), of b] p2 ab by auto
    note l = uf_link [OF p2(2) roots False]
    show ?thesis using un False l(1) l(2) p2 by auto
  qed
qed

end
