(* ===== verification/Portfolio.thy ===== *)
theory Portfolio
  imports Union_Find "HOL-Library.Multiset"
begin

text \<open>
  Portfolio projections: the exposure types of \<open>sf/portfolio.rs\<close> and the aggregation of
  \<open>sf/portfolio_runtime.rs\<close>. \<open>project\<close> takes the decimal interface \<open>D\<close> and the iteration
  order \<open>ho\<close> of the map of group sums; it returns \<open>None\<close> only if the union-find loops do
  not end or an index is out of range, which is proved not to happen.
\<close>

section \<open>The projection\<close>

record Exposure =
  ex_kind :: string
  ex_key :: string
  ex_notional :: string
  ex_correlated :: "string list option"

record PortfolioSnapshot =
  ps_snapshot_at :: string
  ps_exposure :: "Exposure list"
  ps_total_open_notional :: string
  ps_realized_pnl :: string
  ps_unrealized_pnl :: string
  ps_daily_loss :: "string option"
  ps_drawdown :: "string option"
  ps_ambiguous_execution_exposure :: "string option"
  ps_treasury_separated :: bool

datatype Severity = SevLow | SevMedium | SevHigh | SevCritical

datatype FindingStatus = FindingOpen | FindingAcknowledged | FindingMitigated | FindingClosed

record RiskFinding =
  rf_finding_type :: string
  rf_severity :: Severity
  rf_status :: FindingStatus
  rf_payload :: json

record 'd PortfolioProjection =
  pp_total_notional :: 'd
  pp_by_kind :: "(string \<times> 'd) list"
  pp_correlated_notional :: 'd
  pp_correlation_groups :: nat

definition portfolio_parse_decimal :: "('d, 'x) decimal_api_scheme \<Rightarrow> string \<Rightarrow> 'd" where
  "portfolio_parse_decimal D s = (case dec_parse D s of Some d \<Rightarrow> d | None \<Rightarrow> dec_zero D)"

text \<open>First loop: totals.\<close>

definition add_exposure ::
  "('d, 'x) decimal_api_scheme \<Rightarrow> 'd \<times> (string \<times> 'd) list \<Rightarrow> Exposure \<Rightarrow> 'd \<times> (string \<times> 'd) list" where
  "add_exposure D st e =
     (let n = portfolio_parse_decimal D (ex_notional e)
      in (dec_add D (fst st) n,
          hm_modify (ex_kind e) (\<lambda>slot. dec_add D (case slot of None \<Rightarrow> dec_zero D | Some v \<Rightarrow> v) n) (snd st)))"

text \<open>Second loop: lines that share a correlation key are united.\<close>

fun link_keys :: "nat \<Rightarrow> string list \<Rightarrow> nat list \<times> (string \<rightharpoonup> nat) \<Rightarrow> (nat list \<times> (string \<rightharpoonup> nat)) option" where
  "link_keys i [] st = Some st"
| "link_keys i (k # ks) (parent, key_owner) =
     (case key_owner k of
        Some owner \<Rightarrow> do { parent' \<leftarrow> uf_union parent i owner; link_keys i ks (parent', key_owner) }
      | None \<Rightarrow> link_keys i ks (parent, key_owner(k \<mapsto> i)))"

fun link_lines :: "nat \<Rightarrow> Exposure list \<Rightarrow> nat list \<times> (string \<rightharpoonup> nat) \<Rightarrow> (nat list \<times> (string \<rightharpoonup> nat)) option" where
  "link_lines i [] st = Some st"
| "link_lines i (e # es) st =
     (case ex_correlated e of
        Some keys \<Rightarrow> do { st' \<leftarrow> link_keys i keys st; link_lines (Suc i) es st' }
      | None \<Rightarrow> link_lines (Suc i) es st)"

text \<open>Third loop: sums per group root, over the lines that declare a correlation.\<close>

fun group_sums ::
  "('d, 'x) decimal_api_scheme \<Rightarrow> nat \<Rightarrow> Exposure list \<Rightarrow> nat list \<times> (nat \<times> 'd) list \<Rightarrow> (nat list \<times> (nat \<times> 'd) list) option" where
  "group_sums D i [] st = Some st"
| "group_sums D i (e # es) (parent, groups) =
     (case ex_correlated e of
        Some keys \<Rightarrow>
          do { (parent', root) \<leftarrow> uf_find parent i;
               group_sums D (Suc i) es (parent',
                 hm_modify root (\<lambda>slot. dec_add D (case slot of None \<Rightarrow> dec_zero D | Some v \<Rightarrow> v)
                   (portfolio_parse_decimal D (ex_notional e))) groups) }
      | None \<Rightarrow> group_sums D (Suc i) es (parent, groups))"

definition project ::
  "('d, 'x) decimal_api_scheme \<Rightarrow> ((nat \<times> 'd) list \<Rightarrow> (nat \<times> 'd) list) \<Rightarrow> Exposure list \<Rightarrow> 'd PortfolioProjection option" where
  "project D ho exposures =
     (let (total, by_kind) = foldl (add_exposure D) (dec_zero D, []) exposures
      in do { (parent, key_owner) \<leftarrow> link_lines 0 exposures ([0..<length exposures], Map.empty);
              (parent', groups) \<leftarrow> group_sums D 0 exposures (parent, []);
              Some \<lparr>pp_total_notional = total, pp_by_kind = by_kind,
                    pp_correlated_notional =
                      foldl (\<lambda>acc g. dec_add D acc (snd g)) (dec_zero D) (ho groups),
                    pp_correlation_groups = as_u32 (length groups)\<rparr> })"

definition check_treasury_separation :: "bool \<Rightarrow> string + unit" where
  "check_treasury_separation treasury_separated =
     (if treasury_separated then Inr ()
      else Inl ''treasury and execution hot-wallet are not separated'')"

section \<open>What the linking loop computes\<close>

definition line_keys :: "Exposure list \<Rightarrow> nat \<Rightarrow> string set" where
  "line_keys es i = (if i < length es then set (case ex_correlated (es ! i) of None \<Rightarrow> [] | Some ks \<Rightarrow> ks) else {})"

text \<open>Two lines are correlated if a chain of lines links them, neighbours sharing a key.\<close>

definition shares_key :: "Exposure list \<Rightarrow> (nat \<times> nat) set" where
  "shares_key es = {(i, j). line_keys es i \<inter> line_keys es j \<noteq> {}}"

definition correlated_with :: "Exposure list \<Rightarrow> nat \<Rightarrow> nat \<Rightarrow> bool" where
  "correlated_with es i j \<longleftrightarrow> (i, j) \<in> (shares_key es)\<^sup>*"

definition pair_links :: "(nat \<times> string) set \<Rightarrow> (nat \<times> nat) set" where
  "pair_links P = {(i, j). \<exists>k. (i, k) \<in> P \<and> (j, k) \<in> P}"

lemma sym_pair_links: "sym (pair_links P)" "sym ((pair_links P)\<^sup>*)"
proof -
  show "sym (pair_links P)" by (auto simp: pair_links_def sym_def)
  then show "sym ((pair_links P)\<^sup>*)" by (rule sym_rtrancl)
qed

lemma pair_links_insert: "xy \<in> (pair_links P)\<^sup>* \<Longrightarrow> xy \<in> (pair_links (insert x P))\<^sup>*"
  by (rule subsetD [OF rtrancl_mono]) (auto simp: pair_links_def)

text \<open>State of the loop after the line-key pairs \<open>P\<close> have been seen.\<close>

definition linked :: "nat \<Rightarrow> (nat \<times> string) set \<Rightarrow> nat list \<times> (string \<rightharpoonup> nat) \<Rightarrow> bool" where
  "linked n P st \<longleftrightarrow>
     length (fst st) = n \<and> (\<exists>f. uf_forest f (fst st)) \<and>
     (\<forall>(i, k) \<in> P. i < n \<and> (\<exists>ow < n. snd st k = Some ow \<and> (ow, k) \<in> P \<and> uf_rep (fst st) i = uf_rep (fst st) ow)) \<and>
     (\<forall>k ow. snd st k = Some ow \<longrightarrow> (ow, k) \<in> P) \<and>
     (\<forall>i < n. \<forall>j < n. uf_rep (fst st) i = uf_rep (fst st) j \<longrightarrow> (i, j) \<in> (pair_links P)\<^sup>*)"

lemma linkedI:
  assumes "length p = n" "uf_forest f p"
    and "\<And>i k. (i, k) \<in> P \<Longrightarrow> i < n \<and> (\<exists>ow < n. own k = Some ow \<and> (ow, k) \<in> P \<and> uf_rep p i = uf_rep p ow)"
    and "\<And>k ow. own k = Some ow \<Longrightarrow> (ow, k) \<in> P"
    and "\<And>i j. i < n \<Longrightarrow> j < n \<Longrightarrow> uf_rep p i = uf_rep p j \<Longrightarrow> (i, j) \<in> (pair_links P)\<^sup>*"
  shows "linked n P (p, own)"
  using assms unfolding linked_def by auto

lemma linkedD:
  assumes "linked n P (p, own)"
  shows "length p = n" "\<exists>f. uf_forest f p"
    and "(i, k) \<in> P \<Longrightarrow> i < n \<and> (\<exists>ow < n. own k = Some ow \<and> (ow, k) \<in> P \<and> uf_rep p i = uf_rep p ow)"
    and "own k = Some ow \<Longrightarrow> (ow, k) \<in> P"
    and "i < n \<Longrightarrow> j < n \<Longrightarrow> uf_rep p i = uf_rep p j \<Longrightarrow> (i, j) \<in> (pair_links P)\<^sup>*"
  using assms unfolding linked_def by auto

lemma linked_init: "linked n {} ([0..<n], Map.empty)"
  using uf_forest_init by (auto simp: linked_def)

lemma linked_new_key:
  assumes "linked n P (p, own)" "i < n" "own k = None"
  shows "linked n (insert (i, k) P) (p, own(k \<mapsto> i))"
proof -
  note d = linkedD [OF assms(1)]
  have P: "(j, k) \<notin> P" for j using d(3) [of j k] assms(3) by auto
  obtain f where f: "uf_forest f p" using d(2) by blast
  show ?thesis
  proof (rule linkedI [OF d(1) f])
    fix j k' assume "(j, k') \<in> insert (i, k) P"
    then consider "j = i" "k' = k" | "(j, k') \<in> P" "k' \<noteq> k" using P by auto
    then show "j < n \<and> (\<exists>ow < n. (own(k \<mapsto> i)) k' = Some ow \<and> (ow, k') \<in> insert (i, k) P \<and> uf_rep p j = uf_rep p ow)"
      using d(3) [of j k'] assms(2) by cases auto
  qed (use d(4,5) pair_links_insert in \<open>auto split: if_splits\<close>)
qed

lemma linked_union:
  assumes l: "linked n P (p, own)" and "i < n" "own k = Some ow"
  obtains q where "uf_union p i ow = Some q" "linked n (insert (i, k) P) (q, own)"
proof -
  let ?P = "insert (i, k) P"
  note d = linkedD [OF l]
  have len: "length p = n" and oP: "(ow, k) \<in> P" using d(1,4) assms(3) by auto
  then have "ow < n" using d(3) by blast
  obtain f where "uf_forest f p" using d(2) by blast
  then obtain q g where q: "uf_union p i ow = Some q" "uf_forest g q" "length q = n"
      and rep: "\<And>j. j < n \<Longrightarrow> uf_rep q j = (if uf_rep p j = uf_rep p ow then uf_rep p i else uf_rep p j)"
    using uf_union_returns [of f p i ow] \<open>i < n\<close> \<open>ow < n\<close> len by auto
  have io: "(i, ow) \<in> pair_links ?P" using oP by (auto simp: pair_links_def)
  note sym = symD [OF sym_pair_links(2) [of ?P]]
  have old: "uf_rep p x = uf_rep p y \<Longrightarrow> x < n \<Longrightarrow> y < n \<Longrightarrow> (x, y) \<in> (pair_links ?P)\<^sup>*" for x y
    using d(5) pair_links_insert by blast
  have new: "(x, y) \<in> (pair_links ?P)\<^sup>*" if "uf_rep q x = uf_rep q y" "x < n" "y < n" for x y
  proof (cases "uf_rep p x = uf_rep p y")
    case True
    with old that show ?thesis by blast
  next
    case False
    have xi: "(x, i) \<in> (pair_links ?P)\<^sup>*" if "uf_rep p x = uf_rep p ow \<or> uf_rep p x = uf_rep p i" "x < n" for x
      using that old [of x ow] old [of x i] sym [OF r_into_rtrancl [OF io]] \<open>i < n\<close> \<open>ow < n\<close>
      by (auto intro: rtrancl_trans)
    from that rep False have "uf_rep p x = uf_rep p ow \<or> uf_rep p x = uf_rep p i"
      "uf_rep p y = uf_rep p ow \<or> uf_rep p y = uf_rep p i" by (auto split: if_splits)
    with xi that have "(x, i) \<in> (pair_links ?P)\<^sup>*" "(y, i) \<in> (pair_links ?P)\<^sup>*" by blast+
    then show ?thesis using sym by (blast intro: rtrancl_trans)
  qed
  have owners: "j < n \<and> (\<exists>ow' < n. own k' = Some ow' \<and> (ow', k') \<in> ?P \<and> uf_rep q j = uf_rep q ow')"
    if "(j, k') \<in> ?P" for j k'
  proof (cases "(j, k') \<in> P")
    case True
    then obtain ow' where "j < n" "ow' < n" "own k' = Some ow'" "(ow', k') \<in> P" "uf_rep p j = uf_rep p ow'"
      using d(3) by blast
    then show ?thesis by (auto simp: rep)
  next
    case False
    with that have "j = i" "k' = k" by auto
    then show ?thesis using assms oP \<open>ow < n\<close> by (auto simp: rep)
  qed
  have "linked n ?P (q, own)"
    using q(2,3) new owners d(4) by (intro linkedI) auto
  with q(1) show ?thesis by (rule that)
qed

lemma link_keys_linked:
  "linked n P (p, own) \<Longrightarrow> i < n \<Longrightarrow>
     \<exists>st. link_keys i ks (p, own) = Some st \<and> linked n (P \<union> {i} \<times> set ks) st"
proof (induction ks arbitrary: P p own)
  case (Cons k ks)
  have eq: "insert (i, k) P \<union> {i} \<times> set ks = P \<union> {i} \<times> set (k # ks)" by auto
  show ?case
  proof (cases "own k")
    case None
    with Cons.prems have "linked n (insert (i, k) P) (p, own(k \<mapsto> i))" by (blast intro: linked_new_key)
    from Cons.IH [OF this Cons.prems(2)] None show ?thesis by (simp only: eq link_keys.simps option.case)
  next
    case (Some ow)
    from linked_union [OF Cons.prems Some] obtain q where
      q: "uf_union p i ow = Some q" "linked n (insert (i, k) P) (q, own)" by blast
    from Cons.IH [OF q(2) Cons.prems(2), unfolded eq] Some q(1) show ?thesis by simp
  qed
qed simp

lemma link_lines_linked:
  "linked n P st \<Longrightarrow> i + length es = n \<Longrightarrow>
     \<exists>st'. link_lines i es st = Some st' \<and>
       linked n (P \<union> {(i + j, k) | j k. k \<in> line_keys es j}) st'"
proof (induction es arbitrary: i P st)
  case Nil
  then show ?case by (simp add: line_keys_def)
next
  case (Cons e es)
  let ?K = "set (case ex_correlated e of None \<Rightarrow> [] | Some ks \<Rightarrow> ks)"
  have eq: "P \<union> {i} \<times> ?K \<union> {(Suc i + j, k) | j k. k \<in> line_keys es j} =
      P \<union> {(i + j, k) | j k. k \<in> line_keys (e # es) j}"
  proof -
    have "{(i + j, k) | j k. k \<in> line_keys (e # es) j} =
        {(i + 0, k) | k. k \<in> line_keys (e # es) 0} \<union> {(i + Suc j, k) | j k. k \<in> line_keys (e # es) (Suc j)}"
      (is "?L = ?R")
    proof
      show "?L \<subseteq> ?R"
      proof
        fix x assume "x \<in> ?L"
        then obtain j k where "x = (i + j, k)" "k \<in> line_keys (e # es) j" by blast
        then show "x \<in> ?R" by (cases j) auto
      qed
    qed auto
    moreover have "line_keys (e # es) 0 = ?K" "line_keys (e # es) (Suc j) = line_keys es j" for j
      by (simp_all add: line_keys_def)
    ultimately show ?thesis by auto
  qed
  obtain p own where st: "st = (p, own)" by (cases st)
  obtain st1 where st1: "linked n (P \<union> {i} \<times> ?K) st1"
      "link_lines i (e # es) st = link_lines (Suc i) es st1"
  proof (cases "ex_correlated e")
    case None
    then show ?thesis using that [of st] Cons.prems by simp
  next
    case (Some ks)
    then show ?thesis using that link_keys_linked [of n P p own i ks] Cons.prems st by fastforce
  qed
  from Cons.IH [OF st1(1), of "Suc i"] Cons.prems st1(2) show ?case unfolding eq by simp
qed

lemma link_lines_correct:
  obtains p own f where "link_lines 0 es ([0..<length es], Map.empty) = Some (p, own)"
    "length p = length es" "uf_forest f p"
    "\<And>i j. i < length es \<Longrightarrow> j < length es \<Longrightarrow> uf_rep p i = uf_rep p j \<longleftrightarrow> correlated_with es i j"
proof -
  let ?P = "{(j, k) | j k. k \<in> line_keys es j}"
  obtain p own where st: "link_lines 0 es ([0..<length es], Map.empty) = Some (p, own)" "linked (length es) ?P (p, own)"
    using link_lines_linked [OF linked_init [of "length es"], of 0 es] by auto
  have links: "pair_links ?P = shares_key es" by (auto simp: pair_links_def shares_key_def)
  have step: "uf_rep p i = uf_rep p j" if "(i, j) \<in> shares_key es" for i j
  proof -
    from that have "line_keys es i \<inter> line_keys es j \<noteq> {}" by (simp add: shares_key_def)
    then obtain k where "(i, k) \<in> ?P" "(j, k) \<in> ?P" by blast
    with linkedD(3) [OF st(2), of i k] linkedD(3) [OF st(2), of j k] show ?thesis by auto
  qed
  have "uf_rep p i = uf_rep p j" if "correlated_with es i j" for i j
    using that unfolding correlated_with_def by (induction rule: rtrancl_induct) (auto dest: step)
  moreover have "correlated_with es i j" if "i < length es" "j < length es" "uf_rep p i = uf_rep p j" for i j
    using linkedD(5) [OF st(2) that] unfolding correlated_with_def links .
  ultimately show ?thesis
    using that [OF st(1)] linkedD(1,2) [OF st(2)] by blast
qed

section \<open>Totals, sums per kind and sums per group\<close>

definition correlated_lines :: "Exposure list \<Rightarrow> nat set" where
  "correlated_lines es = {i. i < length es \<and> ex_correlated (es ! i) \<noteq> None}"

lemma correlated_lines_Cons:
  "correlated_lines (e # es) = (if ex_correlated e = None then {} else {0}) \<union> Suc ` correlated_lines es"
proof (rule set_eqI)
  fix j
  show "j \<in> correlated_lines (e # es) \<longleftrightarrow>
      j \<in> (if ex_correlated e = None then {} else {0}) \<union> Suc ` correlated_lines es"
    by (cases j) (auto simp: correlated_lines_def)
qed

lemma finite_correlated_lines [simp]: "finite (correlated_lines es)"
  by (simp add: correlated_lines_def)

lemma sum_list_map_perm:
  fixes f :: "'a \<Rightarrow> 'b::comm_monoid_add"
  assumes "mset xs = mset ys"
  shows "(\<Sum>x \<leftarrow> xs. f x) = (\<Sum>x \<leftarrow> ys. f x)"
proof -
  have "sum_mset (image_mset f (mset xs)) = sum_mset (image_mset f (mset ys))" using assms by simp
  then show ?thesis by (simp only: mset_map [symmetric] sum_mset_sum_list)
qed

lemma card_image_cong_kernel:
  assumes "finite A" "\<And>x y. x \<in> A \<Longrightarrow> y \<in> A \<Longrightarrow> f x = f y \<longleftrightarrow> g x = g y"
  shows "card (f ` A) = card (g ` A)"
proof -
  have "bij_betw (\<lambda>y. g (inv_into A f y)) (f ` A) (g ` A)"
    unfolding bij_betw_def
  proof
    show "inj_on (\<lambda>y. g (inv_into A f y)) (f ` A)"
      using assms(2) by (intro inj_onI) (metis f_inv_into_f inv_into_into)
    show "(\<lambda>y. g (inv_into A f y)) ` f ` A = g ` A"
      using assms(2) by (auto simp: image_iff) (metis f_inv_into_f imageI inv_into_into)+
  qed
  then show ?thesis by (rule bij_betw_same_card)
qed

context decimal_laws
begin

abbreviation notional :: "Exposure \<Rightarrow> rat" where
  "notional e \<equiv> dv (portfolio_parse_decimal D (ex_notional e))"

definition slot_value :: "(string \<times> 'd) list \<Rightarrow> string \<Rightarrow> rat" where
  "slot_value m k = (case map_of m k of None \<Rightarrow> 0 | Some v \<Rightarrow> dv v)"

lemma add_exposure_step:
  assumes "add_exposure D (t, m) e = (t1, m1)"
  shows "dv t1 = dv t + notional e" "fst ` set m1 = insert (ex_kind e) (fst ` set m)"
    "slot_value m1 k = slot_value m k + (if ex_kind e = k then notional e else 0)"
proof -
  show "dv t1 = dv t + notional e"
    "slot_value m1 k = slot_value m k + (if ex_kind e = k then notional e else 0)"
    using assms by (auto simp: add_exposure_def Let_def dv_add dv_zero slot_value_def split: option.splits)
  show "fst ` set m1 = insert (ex_kind e) (fst ` set m)"
    using arg_cong [OF assms, of "\<lambda>x. fst ` set (snd x)"]
    by (simp only: add_exposure_def Let_def snd_conv keys_hm_modify)
qed

lemma add_exposure_sums:
  "foldl (add_exposure D) (t, m) es = (t', m') \<Longrightarrow>
     dv t' = dv t + (\<Sum>e \<leftarrow> es. notional e) \<and>
     (\<forall>k. slot_value m' k = slot_value m k + (\<Sum>e \<leftarrow> filter (\<lambda>e. ex_kind e = k) es. notional e)) \<and>
     fst ` set m' = fst ` set m \<union> ex_kind ` set es"
proof (induction es arbitrary: t m)
  case (Cons e es)
  obtain t1 m1 where st: "add_exposure D (t, m) e = (t1, m1)" by (cases "add_exposure D (t, m) e")
  with Cons.prems have "foldl (add_exposure D) (t1, m1) es = (t', m')" by simp
  from Cons.IH [OF this] add_exposure_step [OF st] show ?case by (auto simp: add.assoc)
qed simp

lemma group_sums_returns:
  assumes "uf_forest f p" "i + length es = length p" "distinct (map fst gs)"
  shows "\<exists>p' gs'. group_sums D i es (p, gs) = Some (p', gs') \<and> distinct (map fst gs') \<and>
    fst ` set gs' = fst ` set gs \<union> (\<lambda>j. uf_rep p (i + j)) ` correlated_lines es \<and>
    (\<Sum>g \<leftarrow> gs'. dv (snd g)) = (\<Sum>g \<leftarrow> gs. dv (snd g)) +
      (\<Sum>e \<leftarrow> filter (\<lambda>e. ex_correlated e \<noteq> None) es. notional e)"
  using assms
proof (induction es arbitrary: i p gs)
  case Nil
  then show ?case by (simp add: correlated_lines_def)
next
  case (Cons e es)
  have shift: "(\<lambda>j. uf_rep p (i + j)) ` Suc ` correlated_lines es =
      (\<lambda>j. uf_rep p (Suc i + j)) ` correlated_lines es"
    by (simp add: image_image)
  show ?case
  proof (cases "ex_correlated e")
    case None
    have "Suc i + length es = length p" using Cons.prems(2) by simp
    from Cons.IH [OF Cons.prems(1) this Cons.prems(3)] None show ?thesis
      by (simp only: group_sums.simps option.case correlated_lines_Cons shift image_Un image_empty) simp
  next
    case (Some ks)
    have "i < length p" using Cons.prems(2) by simp
    then obtain q where q: "uf_find p i = Some (q, uf_rep p i)" "uf_forest f q" "length q = length p"
        "\<forall>j < length p. uf_rep q j = uf_rep p j"
      using uf_find_returns [OF Cons.prems(1)] by blast
    let ?add = "\<lambda>slot. dec_add D (case slot of None \<Rightarrow> dec_zero D | Some v \<Rightarrow> v)
        (portfolio_parse_decimal D (ex_notional e))"
    let ?gs = "hm_modify (uf_rep p i) ?add gs"
    have sum: "(\<Sum>g \<leftarrow> ?gs. dv (snd g)) = (\<Sum>g \<leftarrow> gs. dv (snd g)) + notional e"
      by (rule sum_hm_modify) (simp_all add: dv_add dv_zero)
    have reps: "(\<lambda>j. uf_rep q (Suc i + j)) ` correlated_lines es =
        (\<lambda>j. uf_rep p (Suc i + j)) ` correlated_lines es"
      using q(4) Cons.prems(2) by (intro image_cong) (auto simp: correlated_lines_def)
    have "Suc i + length es = length q" using Cons.prems(2) q(3) by simp
    from Cons.IH [OF q(2) this distinct_hm_modify [OF Cons.prems(3), of "uf_rep p i" ?add]]
    obtain p' gs' where r: "group_sums D (Suc i) es (q, ?gs) = Some (p', gs')" "distinct (map fst gs')"
        "fst ` set gs' = insert (uf_rep p i) (fst ` set gs) \<union> (\<lambda>j. uf_rep p (Suc i + j)) ` correlated_lines es"
        "(\<Sum>g \<leftarrow> gs'. dv (snd g)) = (\<Sum>g \<leftarrow> gs. dv (snd g)) + notional e +
          (\<Sum>e \<leftarrow> filter (\<lambda>e. ex_correlated e \<noteq> None) es. notional e)"
      unfolding reps sum keys_hm_modify by blast
    have "group_sums D i (e # es) (p, gs) = Some (p', gs')" using Some q(1) r(1) by simp
    moreover have "fst ` set gs' = fst ` set gs \<union> (\<lambda>j. uf_rep p (i + j)) ` correlated_lines (e # es)"
      using r(3) Some by (simp add: correlated_lines_Cons image_Un shift [simplified])
    ultimately show ?thesis using r(2,4) Some by auto
  qed
qed

text \<open>The projection always returns, and this is what it returns.\<close>

lemma project_correct:
  assumes ho: "\<And>xs. mset (ho xs) = mset xs"
  shows "\<exists>r. project D ho es = Some r \<and>
    dv (pp_total_notional r) = (\<Sum>e \<leftarrow> es. notional e) \<and>
    fst ` set (pp_by_kind r) = ex_kind ` set es \<and>
    (\<forall>k v. map_of (pp_by_kind r) k = Some v \<longrightarrow>
       dv v = (\<Sum>e \<leftarrow> filter (\<lambda>e. ex_kind e = k) es. notional e)) \<and>
    dv (pp_correlated_notional r) = (\<Sum>e \<leftarrow> filter (\<lambda>e. ex_correlated e \<noteq> None) es. notional e) \<and>
    pp_correlation_groups r =
      as_u32 (card ((\<lambda>i. {j \<in> correlated_lines es. correlated_with es i j}) ` correlated_lines es))"
proof -
  obtain t m where tm: "foldl (add_exposure D) (dec_zero D, []) es = (t, m)"
    by (cases "foldl (add_exposure D) (dec_zero D, []) es")
  note sums = add_exposure_sums [OF tm]
  obtain p own f where p: "link_lines 0 es ([0..<length es], Map.empty) = Some (p, own)"
      "length p = length es" "uf_forest f p"
      "\<And>i j. i < length es \<Longrightarrow> j < length es \<Longrightarrow> uf_rep p i = uf_rep p j \<longleftrightarrow> correlated_with es i j"
    using link_lines_correct [of es] by blast
  obtain p' gs where gs: "group_sums D 0 es (p, []) = Some (p', gs)" "distinct (map fst gs)"
      "fst ` set gs = uf_rep p ` correlated_lines es"
      "(\<Sum>g \<leftarrow> gs. dv (snd g)) = (\<Sum>e \<leftarrow> filter (\<lambda>e. ex_correlated e \<noteq> None) es. notional e)"
    using group_sums_returns [OF p(3), of 0 es "[]"] p(2) by auto
  have "length gs = card (fst ` set gs)" using gs(2) by (metis distinct_card length_map set_map)
  also have "\<dots> = card (uf_rep p ` correlated_lines es)" using gs(3) by simp
  also have "\<dots> = card ((\<lambda>i. {j \<in> correlated_lines es. correlated_with es i j}) ` correlated_lines es)"
  proof (rule card_image_cong_kernel)
    fix x y assume xy: "x \<in> correlated_lines es" "y \<in> correlated_lines es"
    have "{j \<in> correlated_lines es. correlated_with es i j} = {j \<in> correlated_lines es. uf_rep p i = uf_rep p j}"
      if "i \<in> correlated_lines es" for i using that p(4) by (auto simp: correlated_lines_def)
    then have sets: "{j \<in> correlated_lines es. correlated_with es x j} = {j \<in> correlated_lines es. uf_rep p x = uf_rep p j}"
      "{j \<in> correlated_lines es. correlated_with es y j} = {j \<in> correlated_lines es. uf_rep p y = uf_rep p j}"
      using xy by blast+
    show "uf_rep p x = uf_rep p y \<longleftrightarrow>
      {j \<in> correlated_lines es. correlated_with es x j} = {j \<in> correlated_lines es. correlated_with es y j}"
    proof
      assume "{j \<in> correlated_lines es. correlated_with es x j} = {j \<in> correlated_lines es. correlated_with es y j}"
      then have "y \<in> {j \<in> correlated_lines es. uf_rep p x = uf_rep p j}" unfolding sets using xy(2) by simp
      then show "uf_rep p x = uf_rep p y" by simp
    qed (simp add: sets)
  qed simp
  finally have len: "length gs = card ((\<lambda>i. {j \<in> correlated_lines es. correlated_with es i j}) ` correlated_lines es)" .
  have "sum_list (map (\<lambda>g. dv (snd g)) (ho gs)) = sum_list (map (\<lambda>g. dv (snd g)) gs)"
    by (rule sum_list_map_perm) (rule ho)
  moreover have "dv v = (\<Sum>e \<leftarrow> filter (\<lambda>e. ex_kind e = k) es. notional e)" if "map_of m k = Some v" for k v
  proof -
    have "slot_value m k = slot_value [] k + (\<Sum>e \<leftarrow> filter (\<lambda>e. ex_kind e = k) es. notional e)"
      using sums by blast
    with that show ?thesis by (simp add: slot_value_def)
  qed
  ultimately show ?thesis
    using sums p(1) gs(1,4) len by (simp add: project_def tm dv_zero dv_foldl_add)
qed

end

section \<open>Properties\<close>

text \<open>The projection of a portfolio always returns and its sums are right. Whatever the
  exposure lines, the union-find loops end within bounds; the total is the sum of all
  notionals (an unreadable one counts as zero), the subtotal of each kind is the sum over the
  lines of that kind, with one subtotal per kind that occurs, and the correlated notional is
  the sum over ALL lines that declare a correlation, independent of the iteration order of the
  hash map of groups.\<close>

theorem portfolio_sums:
  assumes "decimal_laws D dv" and "\<And>xs. mset (ho xs) = mset xs"
  shows "\<exists>r. project D ho es = Some r \<and>
    dv (pp_total_notional r) = (\<Sum>e \<leftarrow> es. dv (portfolio_parse_decimal D (ex_notional e))) \<and>
    fst ` set (pp_by_kind r) = ex_kind ` set es \<and>
    (\<forall>k v. map_of (pp_by_kind r) k = Some v \<longrightarrow>
       dv v = (\<Sum>e \<leftarrow> filter (\<lambda>e. ex_kind e = k) es. dv (portfolio_parse_decimal D (ex_notional e)))) \<and>
    dv (pp_correlated_notional r) =
      (\<Sum>e \<leftarrow> filter (\<lambda>e. ex_correlated e \<noteq> None) es. dv (portfolio_parse_decimal D (ex_notional e)))"
proof -
  from decimal_laws.project_correct [OF assms(1), of ho es] assms(2)
  obtain r where "project D ho es = Some r"
    "dv (pp_total_notional r) = (\<Sum>e \<leftarrow> es. dv (portfolio_parse_decimal D (ex_notional e)))"
    "fst ` set (pp_by_kind r) = ex_kind ` set es"
    "\<forall>k v. map_of (pp_by_kind r) k = Some v \<longrightarrow>
       dv v = (\<Sum>e \<leftarrow> filter (\<lambda>e. ex_kind e = k) es. dv (portfolio_parse_decimal D (ex_notional e)))"
    "dv (pp_correlated_notional r) =
      (\<Sum>e \<leftarrow> filter (\<lambda>e. ex_correlated e \<noteq> None) es. dv (portfolio_parse_decimal D (ex_notional e)))"
    by blast
  then show ?thesis by blast
qed

definition sample_exposures :: "Exposure list" where
  "sample_exposures =
     [\<lparr>ex_kind = ''token'', ex_key = ''T1'', ex_notional = ''100'', ex_correlated = Some [''g1'', ''g2'']\<rparr>,
      \<lparr>ex_kind = ''token'', ex_key = ''T2'', ex_notional = ''50'', ex_correlated = Some [''g2'']\<rparr>,
      \<lparr>ex_kind = ''pool'', ex_key = ''P1'', ex_notional = ''7'', ex_correlated = None\<rparr>,
      \<lparr>ex_kind = ''token'', ex_key = ''T3'', ex_notional = ''30'', ex_correlated = Some [''g3'']\<rparr>]"

lemma sample_notionals:
  "map (\<lambda>e. portfolio_parse_decimal rat_decimal (ex_notional e)) sample_exposures = [100, 50, 7, 30]"
  by (simp add: sample_exposures_def portfolio_parse_decimal_def rat_decimal_def read_nat_def char_digit_def)

theorem portfolio_sums_witness:
  "\<exists>r. project rat_decimal id sample_exposures = Some r \<and> pp_total_notional r = 187 \<and>
     pp_correlated_notional r = 180"
proof -
  have "(\<Sum>e \<leftarrow> sample_exposures. portfolio_parse_decimal rat_decimal (ex_notional e)) = 187"
    by (simp add: sample_notionals)
  moreover have "(\<Sum>e \<leftarrow> filter (\<lambda>e. ex_correlated e \<noteq> None) sample_exposures.
      portfolio_parse_decimal rat_decimal (ex_notional e)) = 180"
    by (simp add: sample_exposures_def portfolio_parse_decimal_def rat_decimal_def read_nat_def char_digit_def)
  ultimately show ?thesis
    using portfolio_sums [OF rat_dec.decimal_laws_axioms, of id sample_exposures] by auto
qed

text \<open>C2: The number of correlation groups is the number of connected components. Two lines are
  in one group exactly when a chain of lines leads from one to the other in which neighbours
  share a correlation key, however the keys are distributed over the lines; a line that
  declares an empty key list is a group of its own, and lines without a declaration are in no
  group.\<close>

theorem portfolio_groups_are_components:
  assumes "decimal_laws D dv" and "\<And>xs. mset (ho xs) = mset xs" and "length es < 2 ^ 32"
  shows "\<exists>r. project D ho es = Some r \<and>
    pp_correlation_groups r =
      card ((\<lambda>i. {j \<in> correlated_lines es. correlated_with es i j}) ` correlated_lines es)"
proof -
  let ?G = "(\<lambda>i. {j \<in> correlated_lines es. correlated_with es i j}) ` correlated_lines es"
  from decimal_laws.project_correct [OF assms(1), of ho es] assms(2)
  obtain r where r: "project D ho es = Some r" "pp_correlation_groups r = as_u32 (card ?G)" by blast
  have "card ?G \<le> card (correlated_lines es)" by (rule card_image_le) simp
  also have "\<dots> \<le> card {..<length es}" by (rule card_mono) (auto simp: correlated_lines_def)
  finally have "card ?G < 2 ^ 32" using assms(3) by simp
  with r show ?thesis by simp
qed

lemma sample_lines: "correlated_lines sample_exposures = {0, 1, 3}"
proof -
  have "correlated_lines sample_exposures =
      set (filter (\<lambda>i. ex_correlated (sample_exposures ! i) \<noteq> None) [0..<length sample_exposures])"
    by (auto simp: correlated_lines_def)
  also have "\<dots> = {0, 1, 3}" by (simp add: sample_exposures_def upt_rec numeral_3_eq_3)
  finally show ?thesis .
qed

theorem portfolio_groups_are_components_witness:
  "\<exists>r. project rat_decimal rev sample_exposures = Some r \<and> pp_correlation_groups r =
     card ((\<lambda>i. {j \<in> {0, 1, 3}. correlated_with sample_exposures i j}) ` {0, 1, 3})"
  using portfolio_groups_are_components [OF rat_dec.decimal_laws_axioms, of rev sample_exposures]
  by (simp add: sample_lines) (simp add: sample_exposures_def)

end
