(* ===== verification/Float64.thy ===== *)
theory Float64
  imports Prelude "HOL-Library.Log_Nat"
begin

text \<open>
  Arithmetic of Rust's \<open>f64\<close> (IEEE 754 binary64, round to nearest, ties to even), as far as the
  program uses it. A finite value is the rational it denotes; the two zeros are not told apart.
  Every operation is the exact operation followed by \<open>rnd\<close>, which rounds to 53 significant bits
  above the subnormal threshold and overflows to an infinity. The lemmas are the ones the
  scores and rankings rest on: rounding is monotone, leaves representable values alone, and so
  never carries a value across a representable bound.
\<close>

section \<open>Rounding to an integer\<close>

definition rhe :: "rat \<Rightarrow> int" where
  "rhe x = (let f = \<lfloor>x\<rfloor>; d = x - of_int f
            in if d < 1 / 2 then f else if 1 / 2 < d then f + 1 else if even f then f else f + 1)"

lemma rhe_of_int [simp]: "rhe (of_int n) = n"
  by (simp add: rhe_def)

lemma rhe_zero [simp]: "rhe 0 = 0"
  using rhe_of_int [of 0] by simp

lemma rhe_mono:
  assumes "x \<le> y"
  shows "rhe x \<le> rhe y"
proof (cases "\<lfloor>x\<rfloor> = \<lfloor>y\<rfloor>")
  case True
  with assms show ?thesis by (auto simp: rhe_def Let_def)
next
  case False
  have "rhe x \<le> \<lfloor>x\<rfloor> + 1" by (simp add: rhe_def Let_def)
  also have "\<dots> \<le> \<lfloor>y\<rfloor>" using False floor_mono [OF assms] by simp
  also have "\<dots> \<le> rhe y" by (simp add: rhe_def Let_def)
  finally show ?thesis .
qed

section \<open>Rounding to a double\<close>

definition pow2 :: "int \<Rightarrow> rat" where
  "pow2 k = (if 0 \<le> k then 2 ^ nat k else 1 / 2 ^ nat (- k))"

definition bin_exp :: "rat \<Rightarrow> int" where
  "bin_exp x = (let (p, q) = quotient_of x; e = bitlen p - bitlen q
                in if pow2 e \<le> x then e else e - 1)"

definition ulp_exp :: "rat \<Rightarrow> int" where
  "ulp_exp x = (if x = 0 then - 1074 else max (bin_exp \<bar>x\<bar> - 52) (- 1074))"

definition on_grid :: "int \<Rightarrow> rat \<Rightarrow> rat" where
  "on_grid u x = of_int (rhe (x / pow2 u)) * pow2 u"

definition rnd :: "rat \<Rightarrow> f64" where
  "rnd x = (let v = on_grid (ulp_exp x) x
            in if 2 ^ 1024 \<le> v then F_pinf else if v \<le> - (2 ^ 1024) then F_ninf else Fin v)"

lemma pow2_pos [simp]: "0 < pow2 k"
  by (simp add: pow2_def)

lemma pow2_nonneg [simp]: "0 \<le> pow2 k"
  by (rule less_imp_le) simp

lemma pow2_nz [simp]: "pow2 k \<noteq> 0"
  using pow2_pos [of k] by linarith

lemma pow2_add: "pow2 (a + b) = pow2 a * pow2 b"
proof -
  have gen: "pow2 (int m - int n) = 2 ^ m / 2 ^ n" for m n
  proof (cases "n \<le> m")
    case True
    then have "nat (int m - int n) = m - n" by linarith
    with True show ?thesis by (simp add: pow2_def power_diff)
  next
    case False
    then have "nat (- (int m - int n)) = n - m" by linarith
    with False show ?thesis by (simp add: pow2_def power_diff)
  qed
  obtain m n where a: "a = int m - int n"
    using int_diff_cases by metis
  obtain m' n' where b: "b = int m' - int n'"
    using int_diff_cases by metis
  have "a + b = int (m + m') - int (n + n')" using a b by simp
  then have "pow2 (a + b) = 2 ^ (m + m') / 2 ^ (n + n')" by (simp only: gen)
  then show ?thesis using gen [of m n] gen [of m' n'] by (simp add: a b power_add)
qed

lemma pow2_mono: "a \<le> b \<Longrightarrow> pow2 a \<le> pow2 b"
proof -
  assume "a \<le> b"
  then have "1 \<le> pow2 (b - a)" by (simp add: pow2_def)
  then have "pow2 a * 1 \<le> pow2 a * pow2 (b - a)" by (intro mult_left_mono) simp_all
  also have "\<dots> = pow2 b" using pow2_add [of a "b - a"] by simp
  finally show ?thesis by simp
qed

lemma pow2_bitlen:
  assumes "0 < (p :: int)"
  shows "pow2 (bitlen p - 1) \<le> of_int p \<and> of_int p < pow2 (bitlen p)"
proof -
  have b: "0 < bitlen p"
    using assms bitlen_bounds [OF assms] by (cases "bitlen p \<le> 0") simp_all
  have "2 ^ nat (bitlen p - 1) \<le> p \<and> p < 2 ^ nat (bitlen p)"
    by (rule bitlen_bounds [OF assms])
  then have "of_int (2 ^ nat (bitlen p - 1)) \<le> (of_int p :: rat) \<and>
      (of_int p :: rat) < of_int (2 ^ nat (bitlen p))"
    by (simp only: of_int_le_iff of_int_less_iff)
  with b show ?thesis by (simp add: pow2_def)
qed

lemma bin_exp_bounds:
  assumes "0 < x"
  shows "pow2 (bin_exp x) \<le> x \<and> x < pow2 (bin_exp x + 1)"
proof -
  obtain p q where pq: "quotient_of x = (p, q)" by (cases "quotient_of x") simp
  have q: "0 < q" using quotient_of_denom_pos [OF pq] .
  have x: "x = of_int p / of_int q" using quotient_of_div [OF pq] .
  have p: "0 < p" using assms q x by (simp add: zero_less_divide_iff)
  let ?e = "bitlen p - bitlen q"
  note bp = pow2_bitlen [OF p] and bq = pow2_bitlen [OF q]
  have "pow2 (?e - 1) * of_int q \<le> pow2 (?e - 1) * pow2 (bitlen q)"
    using bq by (intro mult_left_mono) auto
  also have "\<dots> = pow2 (bitlen p - 1)" by (simp add: pow2_add [symmetric])
  also have "\<dots> \<le> of_int p" using bp by simp
  finally have lo: "pow2 (?e - 1) \<le> x" using q by (simp add: x pos_le_divide_eq)
  have "of_int p < pow2 (bitlen p)" using bp by simp
  also have "\<dots> = pow2 (?e + 1) * pow2 (bitlen q - 1)" by (simp add: pow2_add [symmetric])
  also have "\<dots> \<le> pow2 (?e + 1) * of_int q" using bq by (intro mult_left_mono) auto
  finally have hi: "x < pow2 (?e + 1)" using q by (simp add: x pos_divide_less_eq)
  show ?thesis
  proof (cases "pow2 ?e \<le> x")
    case True
    then have "bin_exp x = ?e" by (simp add: bin_exp_def pq)
    with True hi show ?thesis by simp
  next
    case False
    then have "bin_exp x = ?e - 1" by (simp add: bin_exp_def pq)
    with False lo show ?thesis by simp
  qed
qed

lemma on_grid_mono: "x \<le> y \<Longrightarrow> on_grid u x \<le> on_grid u y"
  unfolding on_grid_def
  by (intro mult_right_mono) (auto intro!: rhe_mono divide_right_mono simp: less_imp_le)

lemma on_grid_fix: "on_grid u (of_int n * pow2 u) = of_int n * pow2 u"
  by (simp add: on_grid_def)

lemma on_grid_fix_pow2:
  assumes "u \<le> k"
  shows "on_grid u (pow2 k) = pow2 k" "on_grid u (- pow2 k) = - pow2 k"
proof -
  have "pow2 k = of_int (2 ^ nat (k - u)) * pow2 u"
    using pow2_add [of "k - u" u] assms by (simp add: pow2_def)
  then show "on_grid u (pow2 k) = pow2 k" "on_grid u (- pow2 k) = - pow2 k"
    using on_grid_fix [of u "2 ^ nat (k - u)"] on_grid_fix [of u "- (2 ^ nat (k - u))"] by simp_all
qed

text \<open>Between values of different binades lies the power of two that starts the upper one.\<close>

lemma ulp_exp_gap:
  assumes "ulp_exp x < ulp_exp y"
  shows "\<bar>x\<bar> < pow2 (ulp_exp y + 52) \<and> pow2 (ulp_exp y + 52) \<le> \<bar>y\<bar>"
proof -
  have lo: "- 1074 \<le> ulp_exp x" by (simp add: ulp_exp_def)
  with assms have y: "y \<noteq> 0" "ulp_exp y = bin_exp \<bar>y\<bar> - 52"
    by (auto simp: ulp_exp_def split: if_splits)
  have "pow2 (bin_exp \<bar>y\<bar>) \<le> \<bar>y\<bar>" using bin_exp_bounds [of "\<bar>y\<bar>"] y by simp
  moreover have "\<bar>x\<bar> < pow2 (ulp_exp y + 52)"
  proof (cases "x = 0")
    case False
    then have "bin_exp \<bar>x\<bar> - 52 \<le> ulp_exp x" by (simp add: ulp_exp_def)
    then have "bin_exp \<bar>x\<bar> + 1 \<le> ulp_exp y + 52" using assms by linarith
    then have "pow2 (bin_exp \<bar>x\<bar> + 1) \<le> pow2 (ulp_exp y + 52)" by (rule pow2_mono)
    with bin_exp_bounds [of "\<bar>x\<bar>"] False show ?thesis by force
  qed simp
  ultimately show ?thesis using y by simp
qed

lemma grid_value_mono:
  assumes "x \<le> y"
  shows "on_grid (ulp_exp x) x \<le> on_grid (ulp_exp y) y"
proof -
  consider "ulp_exp x = ulp_exp y" | "ulp_exp x < ulp_exp y" | "ulp_exp y < ulp_exp x" by linarith
  then show ?thesis
  proof cases
    case 1
    with on_grid_mono [OF assms] show ?thesis by simp
  next
    case 2
    let ?c = "pow2 (ulp_exp y + 52)"
    from ulp_exp_gap [OF 2] assms have "x \<le> ?c" "?c \<le> y" by linarith+
    from on_grid_mono [OF this(1), of "ulp_exp x"] on_grid_mono [OF this(2), of "ulp_exp y"]
    show ?thesis using 2 by (simp add: on_grid_fix_pow2)
  next
    case 3
    let ?c = "- pow2 (ulp_exp x + 52)"
    from ulp_exp_gap [OF 3] assms have "x \<le> ?c" "?c \<le> y" by linarith+
    from on_grid_mono [OF this(1), of "ulp_exp x"] on_grid_mono [OF this(2), of "ulp_exp y"]
    show ?thesis using 3 by (simp add: on_grid_fix_pow2)
  qed
qed

lemma rnd_not_nan [simp]: "rnd x \<noteq> F_nan"
  by (simp add: rnd_def Let_def)

theorem rnd_mono: "x \<le> y \<Longrightarrow> f64_le (rnd x) (rnd y)"
  using grid_value_mono [of x y] by (auto simp: rnd_def Let_def f64_le_def)

definition representable :: "rat \<Rightarrow> bool" where
  "representable x \<longleftrightarrow> rnd x = Fin x"

lemma rnd_le_representable: "x \<le> c \<Longrightarrow> representable c \<Longrightarrow> f64_le (rnd x) (Fin c)"
  using rnd_mono [of x c] by (simp add: representable_def)

lemma rnd_ge_representable: "c \<le> x \<Longrightarrow> representable c \<Longrightarrow> f64_le (Fin c) (rnd x)"
  using rnd_mono [of c x] by (simp add: representable_def)

lemma rnd_between:
  assumes "a \<le> x" "x \<le> b" "representable a" "representable b"
  obtains v where "rnd x = Fin v" "a \<le> v" "v \<le> b"
  using rnd_ge_representable [OF assms(1,3)] rnd_le_representable [OF assms(2,4)]
  by (cases "rnd x") (auto simp: f64_le_def)

text \<open>Integers of at most 53 bits are representable.\<close>

lemma representable_int:
  assumes "\<bar>n\<bar> \<le> 2 ^ 53"
  shows "representable (of_int n)"
proof (cases "n = 0")
  case True
  then show ?thesis by (simp add: representable_def rnd_def on_grid_def)
next
  case False
  let ?x = "of_int n :: rat"
  have pos: "0 < \<bar>?x\<bar>" using False by simp
  have xb: "\<bar>?x\<bar> \<le> 2 ^ 53"
  proof -
    have "(of_int \<bar>n\<bar> :: rat) \<le> of_int (2 ^ 53)" using assms by (simp only: of_int_le_iff)
    then show ?thesis by simp
  qed
  have u: "ulp_exp ?x \<le> 1"
  proof -
    have "pow2 (bin_exp \<bar>?x\<bar>) < pow2 54"
      using bin_exp_bounds [OF pos] xb by (simp add: pow2_def)
    then have "\<not> 54 \<le> bin_exp \<bar>?x\<bar>" using pow2_mono [of 54 "bin_exp \<bar>?x\<bar>"] by linarith
    then show ?thesis by (simp add: ulp_exp_def)
  qed
  have grid: "on_grid (ulp_exp ?x) ?x = ?x"
  proof (cases "ulp_exp ?x \<le> 0")
    case True
    have "?x = of_int (n * 2 ^ nat (- ulp_exp ?x)) * pow2 (ulp_exp ?x)"
      using True by (simp add: pow2_def)
    then show ?thesis by (metis on_grid_fix)
  next
    case one: False
    with u have u1: "ulp_exp ?x = 1" by simp
    then have "bin_exp \<bar>?x\<bar> = 53" using False by (simp add: ulp_exp_def split: if_splits)
    then have "pow2 53 \<le> \<bar>?x\<bar>" using bin_exp_bounds [OF pos] by simp
    with xb have "\<bar>?x\<bar> = 2 ^ 53" by (simp add: pow2_def)
    then have "?x = of_int (sgn n * 2 ^ 52) * pow2 1" by (cases "0 < n") (auto simp: pow2_def)
    with u1 show ?thesis by (metis on_grid_fix)
  qed
  have "(2 ^ 53 :: rat) < 2 ^ 1024" by (rule power_strict_increasing) simp_all
  then have "\<not> 2 ^ 1024 \<le> ?x" "\<not> ?x \<le> - (2 ^ 1024)" using xb by linarith+
  with grid show ?thesis by (simp add: representable_def rnd_def)
qed

text \<open>Dyadic rationals of at most 53 bits within the exponent range are representable.\<close>

lemma representable_dyadic:
  assumes "\<bar>n\<bar> < 2 ^ 53" "- 1074 \<le> u" "u \<le> 970"
  shows "representable (of_int n * pow2 u)"
proof (cases "n = 0")
  case True
  then show ?thesis by (simp add: representable_def rnd_def on_grid_def)
next
  case False
  let ?x = "of_int n * pow2 u :: rat"
  have ax: "\<bar>?x\<bar> = of_int \<bar>n\<bar> * pow2 u" by (simp add: abs_mult)
  have "of_int \<bar>n\<bar> < (of_int (2 ^ 53) :: rat)" using assms(1) by (simp only: of_int_less_iff)
  then have "of_int \<bar>n\<bar> < pow2 53" by (simp add: pow2_def)
  then have "\<bar>?x\<bar> < pow2 53 * pow2 u" unfolding ax by (rule mult_strict_right_mono) simp
  then have lt: "\<bar>?x\<bar> < pow2 (53 + u)" by (simp add: pow2_add)
  have pos: "0 < \<bar>?x\<bar>" using False by (simp add: zero_less_mult_iff)
  have "bin_exp \<bar>?x\<bar> \<le> 52 + u"
  proof (rule ccontr)
    assume "\<not> bin_exp \<bar>?x\<bar> \<le> 52 + u"
    then have "pow2 (53 + u) \<le> pow2 (bin_exp \<bar>?x\<bar>)" by (intro pow2_mono) simp
    with bin_exp_bounds [OF pos] lt show False by linarith
  qed
  then have le: "ulp_exp ?x \<le> u" using assms(2) pos by (simp add: ulp_exp_def)
  have "pow2 u = 2 ^ nat (u - ulp_exp ?x) * pow2 (ulp_exp ?x)"
    using pow2_add [of "u - ulp_exp ?x" "ulp_exp ?x"] le by (simp add: pow2_def)
  then have "?x = of_int (n * 2 ^ nat (u - ulp_exp ?x)) * pow2 (ulp_exp ?x)"
    by (metis mult.assoc of_int_mult of_int_numeral of_int_power)
  then have grid: "on_grid (ulp_exp ?x) ?x = ?x" by (metis on_grid_fix)
  have "pow2 (53 + u) \<le> pow2 1023" using assms(3) by (intro pow2_mono) simp
  also have "\<dots> < 2 ^ 1024" by (simp add: pow2_def)
  finally have "\<bar>?x\<bar> < 2 ^ 1024" using lt by linarith
  then have "\<not> 2 ^ 1024 \<le> ?x" "\<not> ?x \<le> - (2 ^ 1024)" by linarith+
  with grid show ?thesis by (simp add: representable_def rnd_def)
qed

text \<open>Rounding a number of \<open>[2^-j, 2^(1-j))\<close>: the nearest 53-bit integer over \<open>2^(j+52)\<close>, ties to even.\<close>

lemma rhe_nearest:
  assumes "\<bar>y - of_int n\<bar> < 1 / 2 \<or> \<bar>y - of_int n\<bar> = 1 / 2 \<and> even n"
  shows "rhe y = n"
proof (cases "of_int n \<le> y")
  case True
  then have "\<lfloor>y\<rfloor> = n"
    using assms by (intro floor_unique) auto
  then show ?thesis
    using assms True by (auto simp: rhe_def Let_def)
next
  case False
  then have "\<lfloor>y\<rfloor> = n - 1"
    using assms by (intro floor_unique) (auto simp: abs_if split: if_splits)
  then show ?thesis
    using assms False by (auto simp: rhe_def Let_def abs_if)
qed

lemma rnd_nearest:
  assumes "1 \<le> x * 2 ^ j" "x * 2 ^ j < 2" "j \<le> 1000" "n < 2 ^ 60"
    "\<bar>x * 2 ^ (j + 52) - of_int n\<bar> < 1 / 2 \<or> \<bar>x * 2 ^ (j + 52) - of_int n\<bar> = 1 / 2 \<and> even n"
  shows "rnd x = Fin (of_int n / 2 ^ (j + 52))"
proof -
  have neg: "pow2 (- int k) = 1 / 2 ^ k" for k
    by (cases "k = 0") (simp_all add: pow2_def)
  have x: "0 < x"
    using assms(1) by (smt (verit) mult_nonpos_nonneg zero_le_power not_le zero_less_one less_le_trans zero_le_numeral)
  have "pow2 1 = 2"
    by (simp add: pow2_def)
  then have lo: "pow2 (- int j) \<le> x" and hi: "x < pow2 (- int j + 1)"
    using assms(1,2) unfolding pow2_add neg by (simp_all add: field_simps)
  have "bin_exp x = - int j"
  proof (rule antisym)
    show "bin_exp x \<le> - int j"
    proof (rule ccontr)
      assume "\<not> bin_exp x \<le> - int j"
      then have "pow2 (- int j + 1) \<le> pow2 (bin_exp x)"
        by (intro pow2_mono) simp
      then show False
        using hi bin_exp_bounds [OF x] by linarith
    qed
    show "- int j \<le> bin_exp x"
    proof (rule ccontr)
      assume "\<not> - int j \<le> bin_exp x"
      then have "pow2 (bin_exp x + 1) \<le> pow2 (- int j)"
        by (intro pow2_mono) simp
      then show False
        using lo bin_exp_bounds [OF x] by linarith
    qed
  qed
  then have u: "ulp_exp x = - int (j + 52)"
    using x assms(3) by (simp add: ulp_exp_def)
  have "rhe (x / pow2 (- int (j + 52))) = n"
    unfolding neg by (rule rhe_nearest) (use assms(5) in simp)
  then have g: "on_grid (ulp_exp x) x = of_int n / 2 ^ (j + 52)"
    unfolding u on_grid_def neg by simp
  have "(of_int n :: rat) / 2 ^ (j + 52) \<le> of_int n \<or> of_int n < (0 :: rat)"
    by (cases "n < 0") (simp_all add: divide_le_eq mult_le_cancel_left1)
  moreover have "(of_int n :: rat) < 2 ^ 60"
    using assms(4) by (metis of_int_less_iff of_int_numeral of_int_power)
  moreover have "0 \<le> (of_int n :: rat)"
  proof -
    have "1 \<le> x * 2 ^ (j + 52)"
      using assms(1) by (simp add: power_add)
    then have "of_int (- 1) < (of_int n :: rat)"
      using assms(5) by (elim disjE conjE) (simp_all add: abs_if split: if_splits)
    then show ?thesis
      unfolding of_int_less_iff by simp
  qed
  ultimately have "(of_int n :: rat) / 2 ^ (j + 52) < 2 ^ 60" "0 \<le> (of_int n :: rat) / 2 ^ (j + 52)"
    by auto
  moreover have "(2 :: rat) ^ 60 \<le> 2 ^ 1024"
    by (rule power_increasing) simp_all
  moreover have "- ((2 :: rat) ^ 1024) < 0"
    by simp
  ultimately have "\<not> 2 ^ 1024 \<le> (of_int n :: rat) / 2 ^ (j + 52)" "\<not> (of_int n :: rat) / 2 ^ (j + 52) \<le> - (2 ^ 1024)"
    by linarith+
  then show ?thesis
    unfolding rnd_def Let_def g by (simp only: if_False)
qed

section \<open>Operations\<close>

fun f64_neg :: "f64 \<Rightarrow> f64" where
  "f64_neg F_nan = F_nan"
| "f64_neg F_ninf = F_pinf"
| "f64_neg F_pinf = F_ninf"
| "f64_neg (Fin x) = Fin (- x)"

fun f64_add :: "f64 \<Rightarrow> f64 \<Rightarrow> f64" where
  "f64_add (Fin x) (Fin y) = rnd (x + y)"
| "f64_add F_nan _ = F_nan"
| "f64_add _ F_nan = F_nan"
| "f64_add F_pinf b = (if b = F_ninf then F_nan else F_pinf)"
| "f64_add F_ninf b = (if b = F_pinf then F_nan else F_ninf)"
| "f64_add (Fin _) b = b"

definition f64_sub :: "f64 \<Rightarrow> f64 \<Rightarrow> f64" where
  "f64_sub a b = f64_add a (f64_neg b)"

definition signed_inf :: "rat \<Rightarrow> f64" where
  "signed_inf s = (if 0 < s then F_pinf else if s < 0 then F_ninf else F_nan)"

fun f64_sgn :: "f64 \<Rightarrow> rat" where
  "f64_sgn F_pinf = 1"
| "f64_sgn F_ninf = - 1"
| "f64_sgn F_nan = 0"
| "f64_sgn (Fin x) = sgn x"

fun f64_mul :: "f64 \<Rightarrow> f64 \<Rightarrow> f64" where
  "f64_mul (Fin x) (Fin y) = rnd (x * y)"
| "f64_mul a b = signed_inf (f64_sgn a * f64_sgn b)"

text \<open>Division by a zero divisor takes the divisor as a positive zero.\<close>

fun f64_div :: "f64 \<Rightarrow> f64 \<Rightarrow> f64" where
  "f64_div (Fin x) (Fin y) = (if y = 0 then signed_inf x else rnd (x / y))"
| "f64_div F_nan _ = F_nan"
| "f64_div _ F_nan = F_nan"
| "f64_div (Fin _) _ = Fin 0"
| "f64_div a (Fin y) = signed_inf (f64_sgn a * (if y < 0 then - 1 else 1))"
| "f64_div _ _ = F_nan"

text \<open>\<open>max\<close> and \<open>min\<close> ignore a NaN operand; \<open>clamp\<close> passes it through.\<close>

definition f64_max :: "f64 \<Rightarrow> f64 \<Rightarrow> f64" where
  "f64_max a b = (if a = F_nan then b else if b = F_nan then a else if f64_lt a b then b else a)"

definition f64_min :: "f64 \<Rightarrow> f64 \<Rightarrow> f64" where
  "f64_min a b = (if a = F_nan then b else if b = F_nan then a else if f64_lt b a then b else a)"

definition f64_clamp :: "f64 \<Rightarrow> f64 \<Rightarrow> f64 \<Rightarrow> f64" where
  "f64_clamp lo hi x = (if f64_lt x lo then lo else if f64_lt hi x then hi else x)"

definition is_finite :: "f64 \<Rightarrow> bool" where
  "is_finite a \<longleftrightarrow> a \<notin> {F_nan, F_ninf, F_pinf}"

text \<open>\<open>round\<close> goes half away from zero; the cast to \<open>u64\<close> truncates and saturates.\<close>

definition round_away :: "rat \<Rightarrow> int" where
  "round_away x = (if 0 \<le> x then \<lfloor>x + 1 / 2\<rfloor> else - \<lfloor>- x + 1 / 2\<rfloor>)"

fun f64_round :: "f64 \<Rightarrow> f64" where
  "f64_round (Fin x) = Fin (of_int (round_away x))"
| "f64_round a = a"

fun as_u64 :: "f64 \<Rightarrow> nat" where
  "as_u64 F_nan = 0"
| "as_u64 F_ninf = 0"
| "as_u64 F_pinf = u64_max"
| "as_u64 (Fin x) = min (nat \<lfloor>x\<rfloor>) u64_max"

definition f64_lit :: "rat \<Rightarrow> f64" where
  "f64_lit x = rnd x"

lemma is_finite_iff: "is_finite a \<longleftrightarrow> (\<exists>x. a = Fin x)"
  by (cases a) (auto simp: is_finite_def)

lemma round_away_mono:
  assumes "x \<le> y"
  shows "round_away x \<le> round_away y"
proof (cases "0 \<le> x")
  case True
  with assms show ?thesis by (auto simp: round_away_def intro: floor_mono)
next
  case x: False
  show ?thesis
  proof (cases "0 \<le> y")
    case True
    have "0 \<le> \<lfloor>- x + 1 / 2\<rfloor>" "0 \<le> \<lfloor>y + 1 / 2\<rfloor>" using x True by (auto simp: le_floor_iff)
    with x True show ?thesis unfolding round_away_def by (simp only: if_True if_False)
  next
    case False
    have "\<lfloor>- y + 1 / 2\<rfloor> \<le> \<lfloor>- x + 1 / 2\<rfloor>" using assms by (intro floor_mono) simp
    with x False show ?thesis by (simp add: round_away_def)
  qed
qed

lemma f64_le_cases:
  "f64_le a b \<longleftrightarrow> a \<noteq> F_nan \<and> b \<noteq> F_nan \<and>
     (a = F_ninf \<or> b = F_pinf \<or> (\<exists>x y. a = Fin x \<and> b = Fin y \<and> x \<le> y))"
  by (cases a; cases b) (auto simp: f64_le_def)

lemma f64_round_mono: "f64_le a b \<Longrightarrow> f64_le (f64_round a) (f64_round b)"
  by (cases a; cases b) (auto simp: f64_le_cases round_away_mono)

lemma as_u64_mono: "f64_le a b \<Longrightarrow> as_u64 a \<le> as_u64 b"
  by (cases a; cases b) (auto simp: f64_le_cases min_le_iff_disj intro!: nat_mono floor_mono)

lemma f64_mul_pos_mono:
  "0 < c \<Longrightarrow> f64_le a b \<Longrightarrow> f64_le (f64_mul a (Fin c)) (f64_mul b (Fin c))"
  by (cases a; cases b)
     (auto simp: f64_le_cases signed_inf_def intro!: rnd_mono [unfolded f64_le_cases, simplified])

lemma f64_neg_anti: "f64_le a b \<Longrightarrow> f64_le (f64_neg b) (f64_neg a)"
  by (cases a; cases b) (auto simp: f64_le_cases)

lemma f64_clamp_bounds:
  assumes "f64_le lo hi" "x \<noteq> F_nan"
  shows "f64_le lo (f64_clamp lo hi x)" "f64_le (f64_clamp lo hi x) hi"
  using assms by (cases lo; cases hi; cases x; auto simp: f64_clamp_def f64_le_cases f64_le_def)+

end
