(* ===== verification/Source.thy ===== *)
theory Source
  imports Core Float64 "HOL-Library.Product_Lexorder" "HOL-Library.List_Lexorder" "HOL-Library.Char_ord"
begin

text \<open>
  Sources and providers: \<^verbatim>\<open>src/sf/source.rs\<close> (registry types, provider eligibility and the
  deterministic tie-break) and \<^verbatim>\<open>src/sf/source_health_runtime.rs\<close> (the health state machine of
  one provider). Ranking keys are tuples compared lexicographically and strings bytewise, as
  Rust's derived orders do; the weight and cost components go through \<open>f64\<close> arithmetic.
\<close>

section \<open>Registry\<close>

datatype CapabilityRole = RoleMandatory | RoleVendor | RoleFallback

record Source =
  src_name :: string
  src_family :: string
  src_kind :: string
  src_platform :: string
  src_capabilities :: "string list"
  src_capability_role :: CapabilityRole
  src_enabled :: bool

datatype CredentialStatus = CredActive | CredDisabled | CredAuthFailed | CredInvalid

record ProviderCredentialRef =
  pcr_source_name :: string
  pcr_name :: string
  pcr_fingerprint :: string
  pcr_status :: CredentialStatus

record ProviderHealth =
  ph_state :: SourceHealthState
  ph_last_request_at :: "string option"
  ph_last_event_at :: "string option"
  ph_last_success_at :: "string option"
  ph_expected_cadence :: "string option"
  ph_parser_success_rate :: "f64 option"
  ph_schema_stale :: bool
  ph_consecutive_failures :: nat

definition default_health :: ProviderHealth where
  "default_health =
     \<lparr>ph_state = HealthSilent, ph_last_request_at = None, ph_last_event_at = None,
      ph_last_success_at = None, ph_expected_cadence = None, ph_parser_success_rate = None,
      ph_schema_stale = False, ph_consecutive_failures = 0\<rparr>"

datatype SourceRelation = DerivesFrom | Mirrors | Resells

section \<open>Provider selection\<close>

datatype IneligibleReason = ProviderDisabled | CredentialAuthFailed | Cooldown | CircuitBreakerOpen
  | ProviderHealthDown | OutOfQuota | ChainIdInvalid

record ProviderCandidate =
  pc_source_id :: string
  pc_capability_role :: CapabilityRole
  pc_health_state :: SourceHealthState
  pc_weight :: f64
  pc_latency_ms :: "nat option"
  pc_cost_per_request :: "f64 option"
  pc_enabled :: bool
  pc_credential_active :: bool
  pc_in_cooldown :: bool
  pc_breaker_open :: bool
  pc_has_quota :: bool
  pc_chain_id_valid :: bool

definition ineligible_reason :: "ProviderCandidate \<Rightarrow> IneligibleReason option" where
  "ineligible_reason c =
     (if \<not> pc_enabled c then Some ProviderDisabled
      else if \<not> pc_credential_active c then Some CredentialAuthFailed
      else if pc_in_cooldown c then Some Cooldown
      else if pc_breaker_open c then Some CircuitBreakerOpen
      else if pc_health_state c \<in> {HealthDown, HealthDisabled} then Some ProviderHealthDown
      else if \<not> pc_has_quota c then Some OutOfQuota
      else if \<not> pc_chain_id_valid c then Some ChainIdInvalid
      else None)"

fun role_rank :: "CapabilityRole \<Rightarrow> nat" where
  "role_rank RoleMandatory = 0"
| "role_rank RoleVendor = 1"
| "role_rank RoleFallback = 2"

definition f64_MAX :: f64 where
  "f64_MAX = Fin (2 ^ 1024 - 2 ^ 971)"

definition weight_key :: "f64 \<Rightarrow> nat" where
  "weight_key w =
     as_u64 (f64_max (f64_sub (Fin 1000) (f64_round (f64_mul w (Fin 1000)))) (Fin 0))"

definition cost_key :: "f64 option \<Rightarrow> nat" where
  "cost_key c = as_u64 (f64_mul (case c of None \<Rightarrow> f64_MAX | Some x \<Rightarrow> x) (Fin 1000000))"

definition rank_key :: "ProviderCandidate \<Rightarrow> nat \<times> nat \<times> nat \<times> nat \<times> nat \<times> string" where
  "rank_key c =
     (role_rank (pc_capability_role c),
      255 - health_rank (pc_health_state c),
      weight_key (pc_weight c),
      (case pc_latency_ms c of None \<Rightarrow> u64_max | Some l \<Rightarrow> l),
      cost_key (pc_cost_per_request c),
      pc_source_id c)"

text \<open>\<open>Iterator::min_by_key\<close>: of several minimal elements the first one is returned.\<close>

fun min_by_key :: "('a \<Rightarrow> 'k :: linorder) \<Rightarrow> 'a list \<Rightarrow> 'a option" where
  "min_by_key k [] = None"
| "min_by_key k (x # xs) =
     (case min_by_key k xs of None \<Rightarrow> Some x | Some y \<Rightarrow> if k x \<le> k y then Some x else Some y)"

definition select_provider :: "ProviderCandidate list \<Rightarrow> ProviderCandidate option" where
  "select_provider candidates =
     min_by_key rank_key (filter (\<lambda>c. ineligible_reason c = None) candidates)"

lemma min_by_key_None [simp]: "min_by_key k xs = None \<longleftrightarrow> xs = []"
  by (cases xs) (auto split: option.splits)

lemma min_by_key_Some:
  "min_by_key k xs = Some m \<Longrightarrow> m \<in> set xs \<and> (\<forall>x \<in> set xs. k m \<le> k x)"
proof (induction xs arbitrary: m)
  case (Cons x xs)
  then show ?case by (auto split: option.splits if_splits)
qed simp

lemma min_by_key_perm:
  assumes "inj_on k (set xs)" "set xs = set ys"
  shows "min_by_key k xs = min_by_key k ys"
proof (cases "min_by_key k xs")
  case None
  then show ?thesis using assms(2) by simp
next
  case (Some m)
  then have m: "m \<in> set xs" "\<And>x. x \<in> set xs \<Longrightarrow> k m \<le> k x" by (auto dest: min_by_key_Some)
  then obtain n where n: "min_by_key k ys = Some n"
    using assms(2) by (cases "min_by_key k ys") auto
  then have "n \<in> set ys" "\<And>y. y \<in> set ys \<Longrightarrow> k n \<le> k y" by (auto dest: min_by_key_Some)
  with m assms have "k m = k n" by (intro antisym) auto
  with m \<open>n \<in> set ys\<close> assms Some n show ?thesis by (auto dest: inj_onD)
qed

lemma f64_sub_const_anti:
  "a \<noteq> F_nan \<Longrightarrow> b \<noteq> F_nan \<Longrightarrow> f64_le a b \<Longrightarrow> f64_le (f64_sub (Fin c) b) (f64_sub (Fin c) a)"
  by (cases a; cases b)
     (auto simp: f64_sub_def f64_le_cases intro!: rnd_mono [unfolded f64_le_cases, simplified])

lemma f64_max_zero_mono: "f64_le a b \<Longrightarrow> f64_le (f64_max a (Fin 0)) (f64_max b (Fin 0))"
  by (cases a; cases b) (auto simp: f64_max_def f64_le_cases)

text \<open>A larger weight never ranks behind a smaller one.\<close>

lemma weight_key_anti:
  assumes "f64_le v w"
  shows "weight_key w \<le> weight_key v"
proof -
  have "f64_le (f64_round (f64_mul v (Fin 1000))) (f64_round (f64_mul w (Fin 1000)))"
    using assms by (intro f64_round_mono f64_mul_pos_mono) simp_all
  then show ?thesis
    unfolding weight_key_def
    by (intro as_u64_mono f64_max_zero_mono f64_sub_const_anti) (auto simp: f64_le_cases)
qed

lemma cost_key_mono: "f64_le a b \<Longrightarrow> cost_key (Some a) \<le> cost_key (Some b)"
  by (simp add: cost_key_def as_u64_mono f64_mul_pos_mono)

text \<open>A weight that is not a number ranks like the best one.\<close>

lemma weight_key_nan: "weight_key F_nan = 0"
  by (simp add: weight_key_def signed_inf_def f64_sub_def f64_max_def)

lemma health_rank_bound: "health_rank h \<le> 255"
  by (cases h) simp_all


text \<open>The documented preference, comparing the candidates' own fields: role, then health, then
  weight as far as thousandths tell weights apart, then latency.\<close>

definition preferred :: "ProviderCandidate \<Rightarrow> ProviderCandidate \<Rightarrow> bool" where
  "preferred c d \<longleftrightarrow>
     role_rank (pc_capability_role c) \<le> role_rank (pc_capability_role d) \<and>
     (pc_capability_role c = pc_capability_role d \<longrightarrow>
        health_rank (pc_health_state d) \<le> health_rank (pc_health_state c) \<and>
        (pc_health_state c = pc_health_state d \<longrightarrow>
           (f64_le (pc_weight c) (pc_weight d) \<longrightarrow> weight_key (pc_weight c) = weight_key (pc_weight d)) \<and>
           (pc_weight c = pc_weight d \<and> pc_latency_ms d \<noteq> None \<and> the (pc_latency_ms d) < u64_max \<longrightarrow>
              pc_latency_ms c \<noteq> None \<and> the (pc_latency_ms c) \<le> the (pc_latency_ms d))))"

lemma rank_key_preference:
  assumes "rank_key c \<le> rank_key d"
  shows "preferred c d"
proof -
  have h: "255 - health_rank (pc_health_state c) \<le> 255 - health_rank (pc_health_state d) \<longleftrightarrow>
      health_rank (pc_health_state d) \<le> health_rank (pc_health_state c)"
    using health_rank_bound [of "pc_health_state c"] health_rank_bound [of "pc_health_state d"] by linarith
  have w: "f64_le (pc_weight c) (pc_weight d) \<Longrightarrow> weight_key (pc_weight d) \<le> weight_key (pc_weight c)"
    by (rule weight_key_anti)
  from assms h w show ?thesis
    by (auto simp: preferred_def rank_key_def split: option.splits)
qed


definition sample_candidate :: "string \<Rightarrow> SourceHealthState \<Rightarrow> bool \<Rightarrow> ProviderCandidate" where
  "sample_candidate i h quota =
     \<lparr>pc_source_id = i, pc_capability_role = RoleVendor, pc_health_state = h, pc_weight = Fin 0,
      pc_latency_ms = Some 40, pc_cost_per_request = None, pc_enabled = True,
      pc_credential_active = True, pc_in_cooldown = False, pc_breaker_open = False,
      pc_has_quota = quota, pc_chain_id_valid = True\<rparr>"


section \<open>Health of one provider\<close>

record HealthSignal =
  sig_last_success_secs :: "int option"
  sig_last_request_secs :: "int option"
  sig_expected_cadence_secs :: "int option"
  sig_parser_success_rate :: "f64 option"
  sig_schema_stale :: bool
  sig_consecutive_failures :: nat
  sig_disabled :: bool
  sig_now_secs :: int

definition cadence_ok :: "HealthSignal \<Rightarrow> int \<Rightarrow> bool" where
  "cadence_ok signal success =
     (case sig_expected_cadence_secs signal of
        None \<Rightarrow> False
      | Some c \<Rightarrow> (let delta = i64_sub (sig_now_secs signal) success in 0 \<le> delta \<and> delta \<le> c))"

definition health_transition :: "ProviderHealth \<Rightarrow> HealthSignal \<Rightarrow> SourceHealthState" where
  "health_transition current signal =
     (if sig_disabled signal then HealthDisabled
      else if 3 \<le> sig_consecutive_failures signal then HealthDown
      else case sig_last_success_secs signal of
        Some success \<Rightarrow>
          (if cadence_ok signal success \<and> \<not> sig_schema_stale signal then
             (if ph_state current \<in> {HealthDegraded, HealthDown, HealthSilent} then HealthRecovering
              else HealthUp)
           else if sig_schema_stale signal then HealthDegraded
           else HealthSilent)
      | None \<Rightarrow> if sig_schema_stale signal then HealthDegraded else HealthSilent)"

definition health_apply :: "ProviderHealth \<Rightarrow> HealthSignal \<Rightarrow> ProviderHealth \<times> SourceHealthState" where
  "health_apply health signal =
     (let h1 = (case sig_last_success_secs signal of
                  Some s \<Rightarrow> health\<lparr>ph_last_success_at := Some (show_int s)\<rparr> | None \<Rightarrow> health);
          h2 = h1\<lparr>ph_consecutive_failures := sig_consecutive_failures signal\<rparr>;
          h3 = (case sig_last_request_secs signal of
                  Some r \<Rightarrow> h2\<lparr>ph_last_request_at := Some (show_int r)\<rparr> | None \<Rightarrow> h2);
          h4 = (case sig_parser_success_rate signal of
                  Some rate \<Rightarrow> h3\<lparr>ph_parser_success_rate := Some rate\<rparr> | None \<Rightarrow> h3);
          h5 = h4\<lparr>ph_schema_stale := sig_schema_stale signal\<rparr>;
          next = health_transition h5 signal
      in (h5\<lparr>ph_state := next\<rparr>, next))"

text \<open>A good sample: enabled, fewer than three failures in a row, no schema drift, and the last
  success within the expected cadence before now.\<close>

definition good_sample :: "HealthSignal \<Rightarrow> bool" where
  "good_sample s \<longleftrightarrow>
     \<not> sig_disabled s \<and> sig_consecutive_failures s < 3 \<and> \<not> sig_schema_stale s \<and>
     (\<exists>t c. sig_last_success_secs s = Some t \<and> sig_expected_cadence_secs s = Some c \<and>
        0 \<le> sig_now_secs s - t \<and> sig_now_secs s - t \<le> c)"

definition unix_times :: "HealthSignal \<Rightarrow> bool" where
  "unix_times s \<longleftrightarrow> 0 \<le> sig_now_secs s \<and> in_i64 (sig_now_secs s) \<and>
     (\<forall>t. sig_last_success_secs s = Some t \<longrightarrow> 0 \<le> t \<and> in_i64 t)"

definition health_after :: "HealthSignal list \<Rightarrow> ProviderHealth" where
  "health_after ss = foldl (\<lambda>h s. fst (health_apply h s)) default_health ss"

lemma health_transition_state: "health_transition h s = health_transition h' s" if "ph_state h = ph_state h'"
  using that by (simp add: health_transition_def)

lemma health_apply_state:
  "ph_state (fst (health_apply h s)) = health_transition h s" "snd (health_apply h s) = health_transition h s"
  by (auto simp: health_apply_def Let_def split: option.splits intro!: health_transition_state)

lemma health_after_snoc: "ph_state (health_after (ss @ [s])) = health_transition (health_after ss) s"
  by (simp add: health_after_def health_apply_state)

lemma cadence_ok_exact:
  assumes "unix_times s" "sig_last_success_secs s = Some t"
  shows "cadence_ok s t \<longleftrightarrow> (\<exists>c. sig_expected_cadence_secs s = Some c \<and>
           0 \<le> sig_now_secs s - t \<and> sig_now_secs s - t \<le> c)"
proof -
  have "in_i64 (sig_now_secs s - t)" using assms by (auto simp: unix_times_def in_i64_def)
  then show ?thesis by (auto simp: cadence_ok_def i64_sub_exact split: option.splits)
qed

text \<open>The transition as a table over sample classes.\<close>

lemma health_transition_iff:
  assumes "unix_times s"
  shows "health_transition h s = HealthUp \<longleftrightarrow>
      good_sample s \<and> ph_state h \<notin> {HealthDegraded, HealthDown, HealthSilent}"
    and "health_transition h s = HealthRecovering \<longleftrightarrow>
      good_sample s \<and> ph_state h \<in> {HealthDegraded, HealthDown, HealthSilent}"
    and "health_transition h s = HealthDisabled \<longleftrightarrow> sig_disabled s"
    and "health_transition h s = HealthDown \<longleftrightarrow> \<not> sig_disabled s \<and> 3 \<le> sig_consecutive_failures s"
  using cadence_ok_exact [OF assms]
  by (auto simp: health_transition_def good_sample_def not_le split: option.splits if_splits)

text \<open>Connected-but-silent is not healthy, and one good sample is not yet UP. Over any sequence
  of signals from a fresh provider, the state is UP only if the last sample is good (fresh
  success within the cadence, no schema drift, fewer than three failures) and the one before it
  was good too or the provider was disabled then; three failures in a row mean DOWN, a disabled
  provider is DISABLED, and every other sample leaves the provider DEGRADED or SILENT.\<close>

theorem source_health_needs_two_good_samples:
  assumes "\<forall>x \<in> set (ss @ [s]). unix_times x"
  shows "(ph_state (health_after (ss @ [s])) = HealthUp \<longrightarrow>
      good_sample s \<and> ss \<noteq> [] \<and> (good_sample (last ss) \<or> sig_disabled (last ss))) \<and>
    (good_sample s \<longrightarrow> ph_state (health_after (ss @ [s])) \<in> {HealthUp, HealthRecovering}) \<and>
    (sig_disabled s \<longleftrightarrow> ph_state (health_after (ss @ [s])) = HealthDisabled) \<and>
    (\<not> sig_disabled s \<and> 3 \<le> sig_consecutive_failures s \<longleftrightarrow> ph_state (health_after (ss @ [s])) = HealthDown)"
proof -
  have us: "unix_times s" and uss: "\<forall>x \<in> set ss. unix_times x" using assms by auto
  have "good_sample (last ss) \<or> sig_disabled (last ss)" "ss \<noteq> []"
    if up: "ph_state (health_after (ss @ [s])) = HealthUp"
  proof -
    have st: "ph_state (health_after ss) \<notin> {HealthDegraded, HealthDown, HealthSilent}"
      using up us by (simp add: health_after_snoc health_transition_iff)
    then show ne: "ss \<noteq> []" by (auto simp: health_after_def default_health_def)
    then obtain xs x where ss: "ss = xs @ [x]" by (meson rev_exhaust)
    with uss have ux: "unix_times x" by simp
    have "ph_state (health_after ss) \<in> {HealthUp, HealthRecovering, HealthDisabled}"
      using st by (cases "ph_state (health_after ss)") auto
    then show "good_sample (last ss) \<or> sig_disabled (last ss)"
      using ux by (auto simp: ss health_after_snoc health_transition_iff)
  qed
  then show ?thesis using health_transition_iff [OF us] by (auto simp: health_after_snoc)
qed

definition sample_signal :: "int \<Rightarrow> int \<Rightarrow> HealthSignal" where
  "sample_signal now success =
     \<lparr>sig_last_success_secs = Some success, sig_last_request_secs = Some now,
      sig_expected_cadence_secs = Some 60, sig_parser_success_rate = None, sig_schema_stale = False,
      sig_consecutive_failures = 0, sig_disabled = False, sig_now_secs = now\<rparr>"

theorem source_health_needs_two_good_samples_witness:
  "ph_state (health_after [sample_signal 1000 990, sample_signal 1030 1020]) = HealthUp \<and>
   good_sample (sample_signal 1030 1020) \<and> good_sample (sample_signal 1000 990)"
proof -
  have "ph_state (health_after [sample_signal 1000 990, sample_signal 1030 1020]) = HealthUp"
    by (simp add: health_after_def health_apply_state health_transition_def cadence_ok_def
        sample_signal_def i64_sub_def wrap_i64_def default_health_def)
  moreover have "unix_times (sample_signal 1000 990)" "unix_times (sample_signal 1030 1020)"
    by (simp_all add: unix_times_def sample_signal_def in_i64_def)
  moreover have "\<not> sig_disabled (sample_signal 1000 990)" by (simp add: sample_signal_def)
  ultimately show ?thesis
    using source_health_needs_two_good_samples [of "[sample_signal 1000 990]" "sample_signal 1030 1020"]
    by simp
qed

end
