(* ===== verification/Ingest.thy ===== *)
theory Ingest
  imports Interfaces
begin

text \<open>
  The ingestion pipeline: \<^verbatim>\<open>src/sf/ingest.rs\<close> (chains, stages, traces) and
  \<^verbatim>\<open>src/sf/ingest_runtime.rs\<close> (envelope validation, idempotency keys, the two-phase
  idempotency store and the pipeline run). The trait \<open>IdempotencyStore\<close> is the locale
  \<open>key_store\<close>; the pipeline only ever reads the store, so it takes its \<open>contains\<close> function.
\<close>

section \<open>Types\<close>

datatype Chain = ChainSolana | ChainRobinhood | ChainEthereum | ChainBase | ChainBsc

fun chain_as_str :: "Chain \<Rightarrow> string" where
  "chain_as_str ChainSolana = ''solana''"
| "chain_as_str ChainRobinhood = ''robinhood''"
| "chain_as_str ChainEthereum = ''ethereum''"
| "chain_as_str ChainBase = ''base''"
| "chain_as_str ChainBsc = ''bsc''"

datatype IngestionStage = StFetch | StRawEvidenceWrite | StEnvelopeValidation | StIdempotentAppend
  | StNormalization | StEntityResolution | StGraphEdges | StScalarProjections
  | StTriggerEvaluation | StJobsOutbox

datatype StageResult = StageOk IngestionStage | StageSkipped IngestionStage string
  | StageFailed IngestionStage string

record IngestionRun =
  ir_chain :: Chain
  ir_source_name :: string
  ir_started_at :: string
  ir_stages :: "StageResult list"

datatype ChainIdentity = IdSolana | IdEvm string

record RawPayload =
  rp_chain :: Chain
  rp_source_name :: string
  rp_source_event_id :: "string option"
  rp_event_type :: string
  rp_payload_schema_version :: string
  rp_raw_hash :: string
  rp_observed_at :: int
  rp_payload :: json

record PipelineOutcome =
  po_stages :: "StageResult list"
  po_accepted :: bool
  po_deduped :: bool

section \<open>The idempotency store\<close>

record DurableAppendReceipt =
  receipt_key :: string

definition receipt_matches :: "DurableAppendReceipt \<Rightarrow> string \<Rightarrow> bool" where
  "receipt_matches r key \<longleftrightarrow> receipt_key r = key"

record InMemoryIdempotency =
  committed :: "string set"

definition mem_contains :: "InMemoryIdempotency \<Rightarrow> string \<Rightarrow> bool" where
  "mem_contains st key \<longleftrightarrow> key \<in> committed st"

definition mem_commit :: "string \<Rightarrow> DurableAppendReceipt \<Rightarrow> InMemoryIdempotency \<Rightarrow> InMemoryIdempotency" where
  "mem_commit key receipt st =
     (if receipt_matches receipt key then st\<lparr>committed := insert key (committed st)\<rparr> else st)"

definition empty_store :: InMemoryIdempotency where
  "empty_store = \<lparr>committed = {}\<rparr>"

interpretation mem: key_store mem_contains mem_commit receipt_matches
  by unfold_locales (auto simp: mem_contains_def mem_commit_def)

lemma empty_store_contains [simp]: "\<not> mem_contains empty_store k"
  by (simp add: mem_contains_def empty_store_def)

section \<open>Keys\<close>

definition normalize_entity_keys :: "RawPayload \<Rightarrow> string list option" where
  "normalize_entity_keys raw =
     (case as_object (rp_payload raw) of
        None \<Rightarrow> None
      | Some obj \<Rightarrow>
          (let token = Option.bind (or_else (map_of obj ''token'') (map_of obj ''mint'')) as_str;
               wallet = Option.bind (or_else (map_of obj ''wallet'') (map_of obj ''from'')) as_str;
               keys = (case token of None \<Rightarrow> []
                       | Some addr \<Rightarrow> [''token:'' @ chain_as_str (rp_chain raw) @ '':'' @ addr]) @
                      (case wallet of None \<Rightarrow> []
                       | Some w \<Rightarrow> [''wallet:'' @ chain_as_str (rp_chain raw) @ '':'' @ w])
           in if keys = [] then None else Some keys))"

definition ingest_time_bucket :: "int \<Rightarrow> int" where
  "ingest_time_bucket unix_secs = unix_secs div 3600"

definition ingest_entity :: "RawPayload \<Rightarrow> string" where
  "ingest_entity raw =
     join '','' (case normalize_entity_keys raw of None \<Rightarrow> [] | Some ks \<Rightarrow> ks)"

definition ingest_idempotency_key :: "RawPayload \<Rightarrow> string" where
  "ingest_idempotency_key raw =
     (case rp_source_event_id raw of
        Some i \<Rightarrow> join ''|'' [rp_source_name raw, i, rp_payload_schema_version raw]
      | None \<Rightarrow> join ''|'' [rp_source_name raw, ingest_entity raw, rp_event_type raw,
                   show_int (ingest_time_bucket (rp_observed_at raw)), rp_raw_hash raw])"

section \<open>The pipeline\<close>

definition envelope_incomplete :: "RawPayload \<Rightarrow> bool" where
  "envelope_incomplete raw \<longleftrightarrow>
     is_blank (rp_raw_hash raw) \<or> is_blank (rp_payload_schema_version raw) \<or>
     is_blank (rp_source_name raw) \<or> is_blank (rp_event_type raw)"

definition run_pipeline :: "RawPayload \<Rightarrow> (string \<Rightarrow> bool) \<Rightarrow> PipelineOutcome" where
  "run_pipeline raw contains =
     (let stages = [StageOk StFetch,
            StageSkipped StRawEvidenceWrite ''no raw evidence writer backend (pure logic slice)'']
      in if envelope_incomplete raw then
           \<lparr>po_stages = stages @ [StageFailed StEnvelopeValidation
              ''incomplete envelope: raw_hash/schema_version/source_name/event_type required''],
            po_accepted = False, po_deduped = False\<rparr>
         else let stages = stages @ [StageOk StEnvelopeValidation];
                  key = ingest_idempotency_key raw
           in if contains key then
                \<lparr>po_stages = stages @ [StageSkipped StIdempotentAppend ''duplicate committed idempotency key''],
                 po_accepted = False, po_deduped = True\<rparr>
              else let stages = stages @ [StageSkipped StIdempotentAppend
                     ''no canonical append backend (pure logic slice)'']
                in case normalize_entity_keys raw of
                     Some entity_keys \<Rightarrow>
                       \<lparr>po_stages = stages @
                          [StageOk StNormalization,
                           StageSkipped StEntityResolution ''no graph backend (pure logic slice)'',
                           StageSkipped StGraphEdges ''no graph backend (pure logic slice)'',
                           StageSkipped StScalarProjections ''no projection backend (pure logic slice)'',
                           StageSkipped StTriggerEvaluation ''no trigger backend (pure logic slice)'',
                           StageSkipped StJobsOutbox ''no jobs/outbox backend (pure logic slice)''],
                        po_accepted = False, po_deduped = False\<rparr>
                   | None \<Rightarrow>
                       \<lparr>po_stages = stages @ [StageSkipped StNormalization
                          ''no entity keys derivable (malformed or empty payload)''],
                        po_accepted = False, po_deduped = False\<rparr>)"

section \<open>What the keys separate\<close>

definition key_fields :: "RawPayload \<Rightarrow> string list" where
  "key_fields raw =
     (case rp_source_event_id raw of
        Some i \<Rightarrow> [rp_source_name raw, i, rp_payload_schema_version raw]
      | None \<Rightarrow> [rp_source_name raw, ingest_entity raw, rp_event_type raw,
                  show_int (ingest_time_bucket (rp_observed_at raw)), rp_raw_hash raw])"

lemma ingest_key_join: "ingest_idempotency_key raw = join ''|'' (key_fields raw)"
  by (simp add: ingest_idempotency_key_def key_fields_def split: option.splits)

lemma join_sep_inj:
  assumes "xs \<noteq> []" "ys \<noteq> []" "\<forall>x \<in> set xs. c \<notin> set x" "\<forall>y \<in> set ys. c \<notin> set y"
  shows "join [c] xs = join [c] ys \<longleftrightarrow> xs = ys"
  using assms
proof (induction "[c]" xs arbitrary: ys rule: join.induct)
  case (2 x)
  then show ?case by (cases "([c], ys)" rule: join.cases) auto
next
  case (3 x x' xs)
  then show ?case
  proof (cases "([c], ys)" rule: join.cases)
    case (3 s y y' zs)
    with \<open>\<forall>x \<in> set (x # x' # xs). c \<notin> set x\<close> \<open>\<forall>y \<in> set ys. c \<notin> set y\<close>
      \<open>\<And>ys. x' # xs \<noteq> [] \<Longrightarrow> ys \<noteq> [] \<Longrightarrow> \<forall>x \<in> set (x' # xs). c \<notin> set x \<Longrightarrow>
          \<forall>y \<in> set ys. c \<notin> set y \<Longrightarrow> (join [c] (x' # xs) = join [c] ys) = (x' # xs = ys)\<close>
    show ?thesis by (auto simp: append_sep_inj)
  qed auto
qed simp

text \<open>Idempotency keys separate events as documented, as long as no key field contains the
  separator. With an upstream event id, two payloads share a key exactly when source, event id
  and schema version agree; without one, exactly when source, derived entities, event type, hour
  and raw hash agree; and a key with an event id never equals one without.\<close>

theorem ingest_keys_separate:
  assumes "\<forall>f \<in> set (key_fields r1) \<union> set (key_fields r2). CHR ''|'' \<notin> set f"
  shows "ingest_idempotency_key r1 = ingest_idempotency_key r2 \<longleftrightarrow>
    rp_source_name r1 = rp_source_name r2 \<and>
    (case (rp_source_event_id r1, rp_source_event_id r2) of
       (Some i1, Some i2) \<Rightarrow> i1 = i2 \<and> rp_payload_schema_version r1 = rp_payload_schema_version r2
     | (None, None) \<Rightarrow> ingest_entity r1 = ingest_entity r2 \<and> rp_event_type r1 = rp_event_type r2 \<and>
         rp_observed_at r1 div 3600 = rp_observed_at r2 div 3600 \<and> rp_raw_hash r1 = rp_raw_hash r2
     | _ \<Rightarrow> False)"
proof -
  have "key_fields r1 \<noteq> []" "key_fields r2 \<noteq> []" by (auto simp: key_fields_def split: option.splits)
  then have "ingest_idempotency_key r1 = ingest_idempotency_key r2 \<longleftrightarrow> key_fields r1 = key_fields r2"
    unfolding ingest_key_join using assms by (intro join_sep_inj) auto
  also have "\<dots> \<longleftrightarrow> rp_source_name r1 = rp_source_name r2 \<and>
    (case (rp_source_event_id r1, rp_source_event_id r2) of
       (Some i1, Some i2) \<Rightarrow> i1 = i2 \<and> rp_payload_schema_version r1 = rp_payload_schema_version r2
     | (None, None) \<Rightarrow> ingest_entity r1 = ingest_entity r2 \<and> rp_event_type r1 = rp_event_type r2 \<and>
         rp_observed_at r1 div 3600 = rp_observed_at r2 div 3600 \<and> rp_raw_hash r1 = rp_raw_hash r2
     | _ \<Rightarrow> False)"
    by (auto simp: key_fields_def ingest_time_bucket_def show_int_inj split: option.splits)
  finally show ?thesis .
qed

definition sample_payload :: "string \<Rightarrow> string option \<Rightarrow> int \<Rightarrow> RawPayload" where
  "sample_payload src event t =
     \<lparr>rp_chain = ChainSolana, rp_source_name = src, rp_source_event_id = event,
      rp_event_type = ''swap'', rp_payload_schema_version = ''1'', rp_raw_hash = ''h'',
      rp_observed_at = t, rp_payload = JObject [(''token'', JString ''T'')]\<rparr>"

theorem ingest_keys_separate_witness:
  "ingest_idempotency_key (sample_payload ''helius'' (Some ''sig'') 0) \<noteq>
   ingest_idempotency_key (sample_payload ''helius'' (Some ''sig2'') 0)"
  using ingest_keys_separate [of "sample_payload ''helius'' (Some ''sig'') 0" "sample_payload ''helius'' (Some ''sig2'') 0"]
  by (simp add: sample_payload_def key_fields_def)

text \<open>Without that proviso they do not: a separator inside a field moves it.\<close>

lemma ingest_key_collision:
  "ingest_idempotency_key (sample_payload ''a|b'' (Some ''c'') 0) =
   ingest_idempotency_key (sample_payload ''a'' (Some ''b|c'') 0)"
  by (simp add: ingest_idempotency_key_def sample_payload_def)

section \<open>What a run reports\<close>

fun result_stage :: "StageResult \<Rightarrow> IngestionStage" where
  "result_stage (StageOk s) = s"
| "result_stage (StageSkipped s _) = s"
| "result_stage (StageFailed s _) = s"

definition all_stages :: "IngestionStage list" where
  "all_stages = [StFetch, StRawEvidenceWrite, StEnvelopeValidation, StIdempotentAppend,
     StNormalization, StEntityResolution, StGraphEdges, StScalarProjections,
     StTriggerEvaluation, StJobsOutbox]"

lemmas run_pipeline_unfold = run_pipeline_def Let_def

text \<open>The run seen from the store's interface.\<close>

context key_store
begin

lemma deduped_iff:
  "po_deduped (run_pipeline raw (contains st)) \<longleftrightarrow>
     \<not> envelope_incomplete raw \<and> contains st (ingest_idempotency_key raw)"
  by (simp add: run_pipeline_unfold split: option.splits)

lemma deduped_after_commits:
  "po_deduped (run_pipeline raw (contains (fold (\<lambda>(k, r). commit k r) krs st))) \<longleftrightarrow>
     \<not> envelope_incomplete raw \<and>
     (contains st (ingest_idempotency_key raw) \<or>
      (\<exists>r. (ingest_idempotency_key raw, r) \<in> set krs \<and> certifies r (ingest_idempotency_key raw)))"
  by (simp add: deduped_iff fold_commit)

end

text \<open>The pipeline never reports work it did not do. The trace is a prefix of the ten stages
  in their documented order; nothing is ever accepted; only fetching, envelope validation and
  normalization are ever reported as done; an incomplete envelope fails validation and stops the
  run there whatever the store holds; a duplicate stops at the idempotent append; and the trace
  is complete exactly when the envelope is complete, the key is new and entities are derivable.\<close>

theorem pipeline_reports_truthfully:
  "(\<exists>n. map result_stage (po_stages (run_pipeline raw contains)) = take n all_stages) \<and>
   \<not> po_accepted (run_pipeline raw contains) \<and>
   {s. StageOk s \<in> set (po_stages (run_pipeline raw contains))} \<subseteq>
     {StFetch, StEnvelopeValidation, StNormalization} \<and>
   (envelope_incomplete raw \<longleftrightarrow> result_stage (last (po_stages (run_pipeline raw contains))) = StEnvelopeValidation) \<and>
   ((\<exists>s why. StageFailed s why \<in> set (po_stages (run_pipeline raw contains))) \<longleftrightarrow> envelope_incomplete raw) \<and>
   (po_deduped (run_pipeline raw contains) \<longleftrightarrow>
      result_stage (last (po_stages (run_pipeline raw contains))) = StIdempotentAppend) \<and>
   (map result_stage (po_stages (run_pipeline raw contains)) = all_stages \<longleftrightarrow>
      \<not> envelope_incomplete raw \<and> \<not> contains (ingest_idempotency_key raw) \<and> normalize_entity_keys raw \<noteq> None)"
proof (intro conjI)
  have "\<exists>n \<le> 10. map result_stage (po_stages (run_pipeline raw contains)) = take n all_stages"
    by (rule exI [where x = "length (po_stages (run_pipeline raw contains))"])
       (simp add: run_pipeline_unfold all_stages_def eval_nat_numeral split: option.splits)
  then show "\<exists>n. map result_stage (po_stages (run_pipeline raw contains)) = take n all_stages" by blast
qed (auto simp: run_pipeline_unfold all_stages_def split: option.splits if_splits)

theorem pipeline_reports_truthfully_witness:
  "map result_stage (po_stages (run_pipeline (sample_payload ''helius'' None 0) (\<lambda>_. False))) = all_stages"
  using pipeline_reports_truthfully [of "sample_payload ''helius'' None 0" "\<lambda>_. False"]
  by (simp add: envelope_incomplete_def is_blank_def trim_def sample_payload_def is_whitespace_def
      normalize_entity_keys_def)


end
