(* ===== verification/Cost_Basis.thy ===== *)
theory Cost_Basis
  imports Prelude "HOL-Library.Monad_Syntax" "HOL-Library.Multiset"
begin

text \<open>
  FIFO cost basis: the swap types of \<^verbatim>\<open>src/sf/wallet.rs\<close> and \<^verbatim>\<open>src/sf/cost_basis.rs\<close>.
  Decimals are the record \<open>decimal_api\<close>, the RFC 3339 reader of chrono is the argument \<open>ts\<close>, and
  the iteration order of the hash map of groups is the argument \<open>ho\<close>. The loop that consumes lots
  is an \<open>option\<close>-valued partial function; under the decimal laws it always returns.
\<close>

section \<open>Types\<close>

datatype SwapDirection = SwapBuy | SwapSell

record Swap =
  sw_chain :: string
  sw_wallet :: string
  sw_token :: string
  sw_direction :: SwapDirection
  sw_amount_in :: string
  sw_amount_out :: string
  sw_timestamp :: string
  sw_tx_hash :: string

definition timestamp_secs :: "(string \<Rightarrow> int option) \<Rightarrow> Swap \<Rightarrow> int option" where
  "timestamp_secs ts s = ts (sw_timestamp s)"

record 'd ScoredSwap =
  ss_swap :: Swap
  ss_usd_value :: 'd

record 'd MatchedPosition =
  mp_token :: string
  mp_realized_pnl :: 'd
  mp_roi :: "'d option"
  mp_hold_seconds :: "int option"
  mp_unmatched_sell_amount :: 'd

type_synonym swap_key = "string \<times> string \<times> string"

record 'd CostBasisResidual =
  per_token :: "(swap_key \<times> ('d \<times> 'd)) list"

record 'd OpenLot =
  lot_amount :: 'd
  lot_cost_usd :: 'd
  lot_time :: "int option"

definition total_cost ::
  "('d, 'x) decimal_api_scheme \<Rightarrow> ((swap_key \<times> 'd \<times> 'd) list \<Rightarrow> (swap_key \<times> 'd \<times> 'd) list) \<Rightarrow>
     'd CostBasisResidual \<Rightarrow> 'd" where
  "total_cost D ho r = foldl (\<lambda>acc e. dec_add D acc (snd (snd e))) (dec_zero D) (ho (per_token r))"

definition cb_parse_decimal :: "('d, 'x) decimal_api_scheme \<Rightarrow> string \<Rightarrow> 'd" where
  "cb_parse_decimal D s = (case dec_parse D s of Some d \<Rightarrow> d | None \<Rightarrow> dec_zero D)"

section \<open>Matching\<close>

definition swap_key_of :: "'d ScoredSwap \<Rightarrow> swap_key" where
  "swap_key_of s = (sw_chain (ss_swap s), sw_wallet (ss_swap s), sw_token (ss_swap s))"

definition group_by_key :: "'d ScoredSwap list \<Rightarrow> (swap_key \<times> 'd ScoredSwap list) list" where
  "group_by_key swaps =
     foldl (\<lambda>m s. hm_modify (swap_key_of s) (\<lambda>slot. (case slot of None \<Rightarrow> [] | Some v \<Rightarrow> v) @ [s]) m) [] swaps"

text \<open>The loop over open lots: remaining amount, cost so far, opening time, matched amount.\<close>

partial_function (option) sell_loop ::
  "('d, 'x) decimal_api_scheme \<Rightarrow> 'd OpenLot list \<Rightarrow> 'd \<Rightarrow> 'd \<Rightarrow> int option \<Rightarrow> 'd \<Rightarrow>
     ('d OpenLot list \<times> 'd \<times> 'd \<times> int option \<times> 'd) option" where
  "sell_loop D op remaining cost open_time matched =
     (if dec_lt D (dec_zero D) remaining then
        (case op of
           [] \<Rightarrow> Some (op, remaining, cost, open_time, matched)
         | lot # rest \<Rightarrow>
             (let take = dec_min D remaining (lot_amount lot);
                  taken_cost = dec_mul D (lot_cost_usd lot) (dec_div D take (lot_amount lot));
                  (cost', lot_cost) =
                    (if \<not> dec_eq D (lot_amount lot) (dec_zero D)
                     then (dec_add D cost taken_cost, dec_sub D (lot_cost_usd lot) taken_cost)
                     else (cost, lot_cost_usd lot));
                  open_time' = (if open_time = None then lot_time lot else open_time);
                  lot_amt = dec_sub D (lot_amount lot) take;
                  lot' = lot\<lparr>lot_cost_usd := lot_cost, lot_amount := lot_amt\<rparr>
              in sell_loop D (if dec_eq D lot_amt (dec_zero D) then rest else lot' # rest)
                   (dec_sub D remaining take) cost' open_time' (dec_add D matched take)))
      else Some (op, remaining, cost, open_time, matched))"

definition buy_lot :: "('d, 'x) decimal_api_scheme \<Rightarrow> (string \<Rightarrow> int option) \<Rightarrow> 'd ScoredSwap \<Rightarrow> 'd OpenLot" where
  "buy_lot D ts s = \<lparr>lot_amount = cb_parse_decimal D (sw_amount_out (ss_swap s)),
     lot_cost_usd = ss_usd_value s, lot_time = timestamp_secs ts (ss_swap s)\<rparr>"

definition close_position ::
  "('d, 'x) decimal_api_scheme \<Rightarrow> (string \<Rightarrow> int option) \<Rightarrow> string \<Rightarrow> 'd ScoredSwap \<Rightarrow> 'd \<Rightarrow> 'd \<Rightarrow> int option \<Rightarrow> 'd \<Rightarrow>
     'd MatchedPosition" where
  "close_position D ts token s remaining cost open_time matched =
     (let sell_amount = cb_parse_decimal D (sw_amount_in (ss_swap s));
          matched_proceeds =
            (if \<not> dec_eq D sell_amount (dec_zero D)
             then dec_mul D (ss_usd_value s) (dec_div D matched sell_amount) else dec_zero D);
          pnl = dec_sub D matched_proceeds cost
      in \<lparr>mp_token = token, mp_realized_pnl = pnl,
          mp_roi = (if \<not> dec_eq D cost (dec_zero D) then Some (dec_div D pnl cost) else None),
          mp_hold_seconds =
            (case (open_time, timestamp_secs ts (ss_swap s)) of
               (Some o', Some c) \<Rightarrow> Some (max (i64_sub c o') 0) | _ \<Rightarrow> None),
          mp_unmatched_sell_amount = remaining\<rparr>)"

fun fifo_swap ::
  "('d, 'x) decimal_api_scheme \<Rightarrow> (string \<Rightarrow> int option) \<Rightarrow> string \<Rightarrow> 'd ScoredSwap \<Rightarrow>
     'd OpenLot list \<times> 'd MatchedPosition list \<Rightarrow> ('d OpenLot list \<times> 'd MatchedPosition list) option" where
  "fifo_swap D ts token s (op, positions) =
     (case sw_direction (ss_swap s) of
        SwapBuy \<Rightarrow> Some (op @ [buy_lot D ts s], positions)
      | SwapSell \<Rightarrow>
          do { (op', remaining, cost, open_time, matched) \<leftarrow>
                 sell_loop D op (cb_parse_decimal D (sw_amount_in (ss_swap s))) (dec_zero D) None (dec_zero D);
               Some (op', positions @ [close_position D ts token s remaining cost open_time matched]) })"

fun fifo_swaps ::
  "('d, 'x) decimal_api_scheme \<Rightarrow> (string \<Rightarrow> int option) \<Rightarrow> string \<Rightarrow> 'd ScoredSwap list \<Rightarrow>
     'd OpenLot list \<times> 'd MatchedPosition list \<Rightarrow> ('d OpenLot list \<times> 'd MatchedPosition list) option" where
  "fifo_swaps D ts token [] st = Some st"
| "fifo_swaps D ts token (s # ss) st = do { st' \<leftarrow> fifo_swap D ts token s st; fifo_swaps D ts token ss st' }"

definition fifo_group ::
  "('d, 'x) decimal_api_scheme \<Rightarrow> (string \<Rightarrow> int option) \<Rightarrow> string \<Rightarrow> 'd ScoredSwap list \<Rightarrow>
     ('d MatchedPosition list \<times> 'd \<times> 'd) option" where
  "fifo_group D ts token scored =
     do { (op, positions) \<leftarrow> fifo_swaps D ts token
            (sort_key (\<lambda>s. case timestamp_secs ts (ss_swap s) of None \<Rightarrow> 0 | Some t \<Rightarrow> t) scored) ([], []);
          Some (positions,
            foldl (\<lambda>(a, c) l. (dec_add D a (lot_amount l), dec_add D c (lot_cost_usd l)))
              (dec_zero D, dec_zero D) op) }"

fun fifo_groups ::
  "('d, 'x) decimal_api_scheme \<Rightarrow> (string \<Rightarrow> int option) \<Rightarrow> (swap_key \<times> 'd ScoredSwap list) list \<Rightarrow>
     'd MatchedPosition list \<times> 'd CostBasisResidual \<Rightarrow> ('d MatchedPosition list \<times> 'd CostBasisResidual) option" where
  "fifo_groups D ts [] st = Some st"
| "fifo_groups D ts ((key, scored) # groups) (positions, residual) =
     do { (ps, v) \<leftarrow> fifo_group D ts (snd (snd key)) scored;
          fifo_groups D ts groups
            (positions @ ps, residual\<lparr>per_token := hm_modify key (\<lambda>_. v) (per_token residual)\<rparr>) }"

definition fifo_match ::
  "('d, 'x) decimal_api_scheme \<Rightarrow> (string \<Rightarrow> int option) \<Rightarrow>
     ((swap_key \<times> 'd ScoredSwap list) list \<Rightarrow> (swap_key \<times> 'd ScoredSwap list) list) \<Rightarrow>
     'd ScoredSwap list \<Rightarrow> ('d MatchedPosition list \<times> 'd CostBasisResidual) option" where
  "fifo_match D ts ho swaps = fifo_groups D ts (ho (group_by_key swaps)) ([], \<lparr>per_token = []\<rparr>)"

section \<open>The books of a group\<close>

text \<open>Token quantity and dollar value of a swap, as numbers.\<close>

definition is_sell :: "'d ScoredSwap \<Rightarrow> bool" where
  "is_sell s \<longleftrightarrow> sw_direction (ss_swap s) = SwapSell"

definition swap_qty :: "('d, 'x) decimal_api_scheme \<Rightarrow> ('d \<Rightarrow> rat) \<Rightarrow> 'd ScoredSwap \<Rightarrow> rat" where
  "swap_qty D dv s = dv (cb_parse_decimal D (if is_sell s then sw_amount_in (ss_swap s) else sw_amount_out (ss_swap s)))"

abbreviation signed_qty :: "('d, 'x) decimal_api_scheme \<Rightarrow> ('d \<Rightarrow> rat) \<Rightarrow> 'd ScoredSwap \<Rightarrow> rat" where
  "signed_qty D dv s \<equiv> (if is_sell s then - swap_qty D dv s else swap_qty D dv s)"

abbreviation signed_usd :: "('d \<Rightarrow> rat) \<Rightarrow> 'd ScoredSwap \<Rightarrow> rat" where
  "signed_usd dv s \<equiv> (if is_sell s then dv (ss_usd_value s) else - dv (ss_usd_value s))"

text \<open>Open quantity \<open>A\<close> and open cost \<open>C\<close> balance the swaps and the closed positions.\<close>

definition fifo_book ::
  "('d, 'x) decimal_api_scheme \<Rightarrow> ('d \<Rightarrow> rat) \<Rightarrow> 'd ScoredSwap list \<Rightarrow> 'd MatchedPosition list \<Rightarrow> rat \<Rightarrow> rat \<Rightarrow> bool" where
  "fifo_book D dv xs ps A C \<longleftrightarrow>
     length ps = length (filter is_sell xs) \<and>
     A = (\<Sum>s \<leftarrow> xs. signed_qty D dv s) + (\<Sum>p \<leftarrow> ps. dv (mp_unmatched_sell_amount p)) \<and>
     ((\<forall>s \<in> set xs. swap_qty D dv s \<noteq> 0) \<and> (\<forall>p \<in> set ps. dv (mp_unmatched_sell_amount p) = 0) \<longrightarrow>
        (\<Sum>p \<leftarrow> ps. dv (mp_realized_pnl p)) = (\<Sum>s \<leftarrow> xs. signed_usd dv s) + C) \<and>
     ((\<forall>s \<in> set xs. 0 \<le> swap_qty D dv s) \<longrightarrow> 0 \<le> A \<and> (\<forall>p \<in> set ps. 0 \<le> dv (mp_unmatched_sell_amount p)))"

lemma fifo_book_Nil: "fifo_book D dv [] [] 0 0"
  by (simp add: fifo_book_def)

lemma fifo_book_append:
  assumes "fifo_book D dv xs ps A C" "fifo_book D dv ys qs B E"
  shows "fifo_book D dv (xs @ ys) (ps @ qs) (A + B) (C + E)"
  using assms by (auto simp: fifo_book_def)

lemma sum_list_mset_cong:
  fixes f :: "'a \<Rightarrow> rat"
  shows "mset xs = mset ys \<Longrightarrow> (\<Sum>x \<leftarrow> xs. f x) = (\<Sum>x \<leftarrow> ys. f x)"
  by (metis mset_map sum_mset_sum_list)

lemma fifo_book_perm:
  assumes "mset xs = mset ys"
  shows "fifo_book D dv xs ps A C = fifo_book D dv ys ps A C"
proof -
  have "length (filter is_sell xs) = length (filter is_sell ys)" "set xs = set ys"
    using assms by (metis mset_filter size_mset, metis assms set_mset_mset)
  then show ?thesis
    using sum_list_mset_cong [OF assms, of "signed_qty D dv"] sum_list_mset_cong [OF assms, of "signed_usd dv"]
    by (simp add: fifo_book_def)
qed

definition lots_nz :: "('d \<Rightarrow> rat) \<Rightarrow> 'd OpenLot list \<Rightarrow> bool" where
  "lots_nz dv op \<longleftrightarrow> (\<forall>l \<in> set op. dv (lot_amount l) \<noteq> 0)"

definition lots_nonneg :: "('d \<Rightarrow> rat) \<Rightarrow> 'd OpenLot list \<Rightarrow> bool" where
  "lots_nonneg dv op \<longleftrightarrow> (\<forall>l \<in> set op. 0 \<le> dv (lot_amount l))"

abbreviation amt_sum :: "('d \<Rightarrow> rat) \<Rightarrow> 'd OpenLot list \<Rightarrow> rat" where
  "amt_sum dv op \<equiv> (\<Sum>l \<leftarrow> op. dv (lot_amount l))"

abbreviation cost_sum :: "('d \<Rightarrow> rat) \<Rightarrow> 'd OpenLot list \<Rightarrow> rat" where
  "cost_sum dv op \<equiv> (\<Sum>l \<leftarrow> op. dv (lot_cost_usd l))"

definition sell_loop_post ::
  "('d \<Rightarrow> rat) \<Rightarrow> 'd OpenLot list \<Rightarrow> 'd \<Rightarrow> 'd \<Rightarrow> 'd \<Rightarrow> 'd OpenLot list \<times> 'd \<times> 'd \<times> int option \<times> 'd \<Rightarrow> bool" where
  "sell_loop_post dv op remaining cost matched = (\<lambda>(op', r, c, t, m).
     amt_sum dv op' + dv m = amt_sum dv op + dv matched \<and>
     dv r + dv m = dv remaining + dv matched \<and>
     (lots_nz dv op \<longrightarrow> lots_nz dv op' \<and> dv c + cost_sum dv op' = dv cost + cost_sum dv op) \<and>
     (lots_nonneg dv op \<longrightarrow> lots_nonneg dv op' \<and> (0 \<le> dv remaining \<longrightarrow> 0 \<le> dv r)))"

context decimal_laws
begin

lemma sell_loop_returns:
  "\<exists>z. sell_loop D op remaining cost ot matched = Some z \<and> sell_loop_post dv op remaining cost matched z"
proof (induction op arbitrary: remaining cost ot matched)
  case Nil
  show ?case by (subst sell_loop.simps) (simp add: sell_loop_post_def)
next
  case (Cons lot rest)
  show ?case
  proof (cases "0 < dv remaining")
    case False
    then show ?thesis by (subst sell_loop.simps) (simp add: sell_loop_post_def dv_simps)
  next
    case pos: True
    let ?take = "dec_min D remaining (lot_amount lot)"
    let ?tc = "dec_mul D (lot_cost_usd lot) (dec_div D ?take (lot_amount lot))"
    show ?thesis
    proof (cases "dv (lot_amount lot) \<le> dv remaining")
      case True
      then have tk: "dv ?take = dv (lot_amount lot)" by (simp add: dv_min)
      have tc: "dv ?tc = dv (lot_cost_usd lot)" if "dv (lot_amount lot) \<noteq> 0"
        using tk that by (intro dv_mul_one dv_div_self)
      obtain z where z: "sell_loop D rest (dec_sub D remaining ?take)
            (if dv (lot_amount lot) = 0 then cost else dec_add D cost ?tc)
            (if ot = None then lot_time lot else ot) (dec_add D matched ?take) = Some z"
        "sell_loop_post dv rest (dec_sub D remaining ?take)
            (if dv (lot_amount lot) = 0 then cost else dec_add D cost ?tc) (dec_add D matched ?take) z"
        using Cons.IH by blast
      have "sell_loop D (lot # rest) remaining cost ot matched = Some z"
        using z(1) pos tk by (subst sell_loop.simps) (simp add: dv_simps Let_def split: if_splits)
      moreover have "sell_loop_post dv (lot # rest) remaining cost matched z"
        using z(2) tk tc True by (auto simp: sell_loop_post_def lots_nz_def lots_nonneg_def dv_simps)
      ultimately show ?thesis by blast
    next
      case False
      then have tk: "dv ?take = dv remaining" and nz: "dv (lot_amount lot) \<noteq> 0" using pos by (auto simp: dv_min)
      let ?lot = "lot\<lparr>lot_cost_usd := dec_sub D (lot_cost_usd lot) ?tc, lot_amount := dec_sub D (lot_amount lot) ?take\<rparr>"
      let ?z = "(?lot # rest, dec_sub D remaining ?take, dec_add D cost ?tc,
                 if ot = None then lot_time lot else ot, dec_add D matched ?take)"
      have stop: "sell_loop D (?lot # rest) (dec_sub D remaining ?take) (dec_add D cost ?tc)
          (if ot = None then lot_time lot else ot) (dec_add D matched ?take) = Some ?z"
        using tk by (subst sell_loop.simps) (simp add: dv_simps)
      have "sell_loop D (lot # rest) remaining cost ot matched = Some ?z"
        using stop pos tk nz False by (subst sell_loop.simps) (simp add: dv_simps Let_def)
      moreover have "sell_loop_post dv (lot # rest) remaining cost matched ?z"
        using tk False by (auto simp: sell_loop_post_def lots_nz_def lots_nonneg_def dv_simps)
      ultimately show ?thesis by blast
    qed
  qed
qed

text \<open>Invariant of the loop over the swaps of a group.\<close>

definition fifo_inv :: "'d ScoredSwap list \<Rightarrow> 'd OpenLot list \<times> 'd MatchedPosition list \<Rightarrow> bool" where
  "fifo_inv xs st \<longleftrightarrow>
     fifo_book D dv xs (snd st) (amt_sum dv (fst st)) (cost_sum dv (fst st)) \<and>
     ((\<forall>s \<in> set xs. swap_qty D dv s \<noteq> 0) \<longrightarrow> lots_nz dv (fst st)) \<and>
     ((\<forall>s \<in> set xs. 0 \<le> swap_qty D dv s) \<longrightarrow> lots_nonneg dv (fst st))"

lemma lots_nonneg_sum: "lots_nonneg dv op \<Longrightarrow> 0 \<le> amt_sum dv op"
  by (auto simp: lots_nonneg_def intro!: sum_list_nonneg)

lemma close_position_pnl:
  assumes "swap_qty D dv s \<noteq> 0" "is_sell s" "dv m = swap_qty D dv s"
  shows "dv (mp_realized_pnl (close_position D ts token s r c t m)) = dv (ss_usd_value s) - dv c"
proof -
  have "dv (dec_mul D (ss_usd_value s) (dec_div D m (cb_parse_decimal D (sw_amount_in (ss_swap s))))) =
      dv (ss_usd_value s)"
    using assms by (intro dv_mul_one dv_div_self) (simp_all add: swap_qty_def)
  with assms show ?thesis by (simp add: close_position_def Let_def dv_simps swap_qty_def)
qed

lemma fifo_swap_inv:
  assumes "fifo_inv xs (op, ps)"
  shows "\<exists>st'. fifo_swap D ts token s (op, ps) = Some st' \<and> fifo_inv (xs @ [s]) st'"
proof (cases "is_sell s")
  case False
  then have "sw_direction (ss_swap s) = SwapBuy" by (cases "sw_direction (ss_swap s)") (simp_all add: is_sell_def)
  moreover have "dv (lot_amount (buy_lot D ts s)) = swap_qty D dv s" "lot_cost_usd (buy_lot D ts s) = ss_usd_value s"
    using False by (simp_all add: swap_qty_def buy_lot_def)
  ultimately show ?thesis
    using assms False by (auto simp: fifo_inv_def fifo_book_def lots_nz_def lots_nonneg_def)
next
  case True
  then have dir: "sw_direction (ss_swap s) = SwapSell" by (simp add: is_sell_def)
  let ?q = "cb_parse_decimal D (sw_amount_in (ss_swap s))"
  have q: "dv ?q = swap_qty D dv s" using True by (simp add: swap_qty_def)
  obtain op' r c t m where z: "sell_loop D op ?q (dec_zero D) None (dec_zero D) = Some (op', r, c, t, m)"
    and post: "sell_loop_post dv op ?q (dec_zero D) (dec_zero D) (op', r, c, t, m)"
    using sell_loop_returns [of op ?q "dec_zero D" None "dec_zero D"] by force
  let ?p = "close_position D ts token s r c t m"
  have um: "mp_unmatched_sell_amount ?p = r" by (simp add: close_position_def Let_def)
  have amt: "amt_sum dv op' = amt_sum dv op - swap_qty D dv s + dv r" "dv m = swap_qty D dv s - dv r"
    using post q by (simp_all add: sell_loop_post_def dv_zero)
  have nz: "lots_nz dv op \<Longrightarrow> lots_nz dv op' \<and> dv c + cost_sum dv op' = cost_sum dv op"
    using post by (simp add: sell_loop_post_def dv_zero)
  have nn: "lots_nonneg dv op \<Longrightarrow> lots_nonneg dv op' \<and>
      0 \<le> amt_sum dv op - swap_qty D dv s + dv r \<and> (0 \<le> swap_qty D dv s \<longrightarrow> 0 \<le> dv r)"
    using post q amt(1) lots_nonneg_sum [of op'] by (simp add: sell_loop_post_def)
  have pnl: "dv (mp_realized_pnl ?p) = dv (ss_usd_value s) - dv c" if "swap_qty D dv s \<noteq> 0" "dv r = 0"
    using close_position_pnl [OF that(1) True] amt(2) that by simp
  have "fifo_inv (xs @ [s]) (op', ps @ [?p])"
    using assms True amt(1) um nz nn pnl by (auto simp: fifo_inv_def fifo_book_def)
  with z dir show ?thesis by simp
qed

lemma fifo_swaps_inv:
  "fifo_inv xs st \<Longrightarrow> \<exists>st'. fifo_swaps D ts token ss st = Some st' \<and> fifo_inv (xs @ ss) st'"
proof (induction ss arbitrary: xs st)
  case (Cons s ss)
  obtain op ps where "st = (op, ps)" by (cases st)
  with fifo_swap_inv [of xs op ps ts token s] Cons.prems
  obtain st' where st': "fifo_swap D ts token s st = Some st'" "fifo_inv (xs @ [s]) st'" by auto
  with Cons.IH [OF st'(2)] show ?case by simp
qed simp

lemma foldl_lots:
  "dv (fst (foldl (\<lambda>(a, c) l. (dec_add D a (lot_amount l), dec_add D c (lot_cost_usd l))) (a, c) op)) =
     dv a + amt_sum dv op \<and>
   dv (snd (foldl (\<lambda>(a, c) l. (dec_add D a (lot_amount l), dec_add D c (lot_cost_usd l))) (a, c) op)) =
     dv c + cost_sum dv op"
  by (induction op arbitrary: a c) (simp_all add: dv_add)

lemma fifo_group_book:
  "\<exists>ps a c. fifo_group D ts token scored = Some (ps, a, c) \<and> fifo_book D dv scored ps (dv a) (dv c)"
proof -
  let ?xs = "sort_key (\<lambda>s. case timestamp_secs ts (ss_swap s) of None \<Rightarrow> 0 | Some t \<Rightarrow> t) scored"
  have "fifo_inv [] ([], [])"
    by (simp add: fifo_inv_def fifo_book_Nil lots_nz_def lots_nonneg_def)
  from fifo_swaps_inv [OF this, of ts token ?xs] obtain op ps where
    r: "fifo_swaps D ts token ?xs ([], []) = Some (op, ps)" and i: "fifo_inv ?xs (op, ps)" by auto
  obtain a c where ac: "foldl (\<lambda>(a, c) l. (dec_add D a (lot_amount l), dec_add D c (lot_cost_usd l)))
      (dec_zero D, dec_zero D) op = (a, c)" by force
  with foldl_lots [of "dec_zero D" "dec_zero D" op] have "dv a = amt_sum dv op" "dv c = cost_sum dv op"
    by (simp_all add: dv_zero)
  with i have "fifo_book D dv ?xs ps (dv a) (dv c)" by (simp add: fifo_inv_def)
  then have "fifo_book D dv scored ps (dv a) (dv c)" by (simp add: fifo_book_perm [of ?xs scored])
  with r ac show ?thesis by (simp add: fifo_group_def)
qed

end

section \<open>Groups\<close>

abbreviation of_key :: "swap_key \<Rightarrow> 'd ScoredSwap list \<Rightarrow> 'd ScoredSwap list" where
  "of_key k swaps \<equiv> filter (\<lambda>s. swap_key_of s = k) swaps"

lemma group_by_key_snoc:
  "group_by_key (swaps @ [s]) =
     hm_modify (swap_key_of s) (\<lambda>slot. (case slot of None \<Rightarrow> [] | Some v \<Rightarrow> v) @ [s]) (group_by_key swaps)"
  by (simp add: group_by_key_def)

lemma group_by_key_Nil [simp]: "group_by_key [] = []"
  by (simp add: group_by_key_def)

lemma group_by_key_keys: "fst ` set (group_by_key swaps) = swap_key_of ` set swaps"
  by (induction swaps rule: rev_induct) (simp_all add: group_by_key_snoc)

lemma group_by_key_distinct: "distinct (map fst (group_by_key swaps))"
  by (induction swaps rule: rev_induct) (simp_all add: group_by_key_snoc distinct_hm_modify)

lemma group_by_key_lookup:
  "map_of (group_by_key swaps) k = (if of_key k swaps = [] then None else Some (of_key k swaps))"
  by (induction swaps rule: rev_induct) (auto simp: group_by_key_snoc)

lemma group_by_key_entries:
  "(k, g) \<in> set (group_by_key swaps) \<longleftrightarrow> k \<in> swap_key_of ` set swaps \<and> g = of_key k swaps"
  using group_by_key_lookup [of swaps k] map_of_eq_Some_iff [OF group_by_key_distinct, of swaps k g]
  by (auto simp: filter_empty_conv split: if_splits)

lemma group_by_key_mset: "mset (concat (map snd (group_by_key swaps))) = mset swaps"
proof (induction swaps rule: rev_induct)
  case (snoc s swaps)
  let ?f = "\<lambda>slot. (case slot of None \<Rightarrow> [] | Some v \<Rightarrow> v) @ [s]"
  have "(\<Sum>x \<leftarrow> hm_modify (swap_key_of s) ?f (group_by_key swaps). mset (snd x)) =
      (\<Sum>x \<leftarrow> group_by_key swaps. mset (snd x)) + {#s#}"
    by (rule sum_hm_modify) auto
  moreover have "mset (concat (map snd m)) = (\<Sum>x \<leftarrow> m. mset (snd x))" for m :: "(swap_key \<times> 'a ScoredSwap list) list"
    by (induction m) auto
  ultimately show ?case using snoc by (simp add: group_by_key_snoc)
qed simp

lemma distinct_singleton_list: "set xs = {k} \<Longrightarrow> distinct xs \<Longrightarrow> xs = [k]"
  by (cases xs; cases "tl xs") auto

lemma group_by_key_of_key:
  assumes "k \<in> swap_key_of ` set swaps"
  shows "group_by_key (of_key k swaps) = [(k, of_key k swaps)]"
proof -
  let ?g = "group_by_key (of_key k swaps)"
  have "set (map fst ?g) = {k}" using assms by (auto simp: group_by_key_keys)
  moreover have "distinct (map fst ?g)" by (rule group_by_key_distinct)
  ultimately have "map fst ?g = [k]" by (rule distinct_singleton_list)
  moreover have "(k, of_key k swaps) \<in> set ?g"
    using assms by (auto simp: group_by_key_entries)
  ultimately show ?thesis by (cases ?g) auto
qed

lemma hm_modify_absent: "k \<notin> fst ` set m \<Longrightarrow> hm_modify k f m = m @ [(k, f None)]"
  by (induction k f m rule: hm_modify.induct) auto

text \<open>Result of one group, and of the loop over the groups.\<close>

definition group_result ::
  "('d, 'x) decimal_api_scheme \<Rightarrow> (string \<Rightarrow> int option) \<Rightarrow> swap_key \<times> 'd ScoredSwap list \<Rightarrow> 'd MatchedPosition list \<times> 'd \<times> 'd" where
  "group_result D ts g = the (fifo_group D ts (snd (snd (fst g))) (snd g))"

context decimal_laws
begin

lemma fifo_groups_result:
  assumes "distinct (map fst gs)" "fst ` set gs \<inter> fst ` set (per_token res) = {}"
  shows "fifo_groups D ts gs (ps, res) =
    Some (ps @ concat (map (\<lambda>g. fst (group_result D ts g)) gs),
          res\<lparr>per_token := per_token res @ map (\<lambda>g. (fst g, snd (group_result D ts g))) gs\<rparr>)"
  using assms
proof (induction gs arbitrary: ps res)
  case (Cons g gs)
  obtain key scored where g: "g = (key, scored)" by (rule prod.exhaust)
  obtain ps' v where r: "fifo_group D ts (snd (snd key)) scored = Some (ps', v)"
    using fifo_group_book [of ts "snd (snd key)" scored] by force
  then have "group_result D ts g = (ps', v)" by (simp add: group_result_def g)
  moreover have "hm_modify key (\<lambda>_. v) (per_token res) = per_token res @ [(key, v)]"
    using Cons.prems g by (intro hm_modify_absent) auto
  ultimately show ?case using Cons g r by auto
qed simp

lemma fifo_match_result:
  assumes "\<And>xs. mset (ho xs) = mset xs"
  shows "fifo_match D ts ho swaps =
    Some (concat (map (\<lambda>g. fst (group_result D ts g)) (ho (group_by_key swaps))),
          \<lparr>per_token = map (\<lambda>g. (fst g, snd (group_result D ts g))) (ho (group_by_key swaps))\<rparr>)"
proof -
  have "distinct (map fst (ho (group_by_key swaps)))"
    using group_by_key_distinct [of swaps] by (metis assms mset_eq_imp_distinct_iff mset_map)
  then show ?thesis by (simp add: fifo_match_def fifo_groups_result)
qed

lemma fifo_match_single:
  assumes "k \<in> swap_key_of ` set swaps"
  shows "fifo_match D ts id (of_key k swaps) =
    Some (fst (group_result D ts (k, of_key k swaps)), \<lparr>per_token = [(k, snd (group_result D ts (k, of_key k swaps)))]\<rparr>)"
  using fifo_match_result [of id ts "of_key k swaps"] group_by_key_of_key [OF assms] by simp

lemma group_result_book:
  "fifo_book D dv (snd g) (fst (group_result D ts g)) (dv (fst (snd (group_result D ts g)))) (dv (snd (snd (group_result D ts g))))"
  using fifo_group_book [of ts "snd (snd (fst g))" "snd g"] by (auto simp: group_result_def)

lemma groups_book:
  "fifo_book D dv (concat (map snd gs)) (concat (map (\<lambda>g. fst (group_result D ts g)) gs))
     (\<Sum>g \<leftarrow> gs. dv (fst (snd (group_result D ts g)))) (\<Sum>g \<leftarrow> gs. dv (snd (snd (group_result D ts g))))"
  by (induction gs) (auto intro: fifo_book_append group_result_book simp: fifo_book_Nil)

lemma fifo_match_book:
  assumes "\<And>xs. mset (ho xs) = mset xs"
  shows "\<exists>ps res. fifo_match D ts ho swaps = Some (ps, res) \<and>
    fifo_book D dv swaps ps (\<Sum>e \<leftarrow> per_token res. dv (fst (snd e))) (\<Sum>e \<leftarrow> per_token res. dv (snd (snd e)))"
proof -
  let ?gs = "ho (group_by_key swaps)"
  have "mset (map (mset \<circ> snd) ?gs) = mset (map (mset \<circ> snd) (group_by_key swaps))"
    by (simp add: assms)
  then have "sum_list (map (mset \<circ> snd) ?gs) = sum_list (map (mset \<circ> snd) (group_by_key swaps))"
    by (metis sum_mset_sum_list)
  then have "mset (concat (map snd ?gs)) = mset (concat (map snd (group_by_key swaps)))"
    by (simp add: mset_concat)
  then have "mset (concat (map snd ?gs)) = mset swaps" by (simp add: group_by_key_mset)
  then have "fifo_book D dv swaps (concat (map (\<lambda>g. fst (group_result D ts g)) ?gs))
     (\<Sum>g \<leftarrow> ?gs. dv (fst (snd (group_result D ts g)))) (\<Sum>g \<leftarrow> ?gs. dv (snd (snd (group_result D ts g))))"
    using groups_book [of ?gs ts] by (simp add: fifo_book_perm [of "concat (map snd ?gs)" swaps])
  then show ?thesis by (simp add: fifo_match_result [OF assms] o_def)
qed

end


definition sample_swap :: "SwapDirection \<Rightarrow> string \<Rightarrow> string \<Rightarrow> string \<Rightarrow> rat \<Rightarrow> rat ScoredSwap" where
  "sample_swap d wallet qty t usd =
     \<lparr>ss_swap = \<lparr>sw_chain = ''solana'', sw_wallet = wallet, sw_token = ''T'', sw_direction = d,
        sw_amount_in = qty, sw_amount_out = qty, sw_timestamp = t, sw_tx_hash = ''tx''\<rparr>,
      ss_usd_value = usd\<rparr>"

definition sample_swaps :: "rat ScoredSwap list" where
  "sample_swaps = [sample_swap SwapBuy ''A'' ''8'' [] 80, sample_swap SwapSell ''A'' ''2'' [] 30]"


text \<open>Wallets and tokens never consume each other's inventory. The residual has exactly one
  entry per (chain, wallet, token) that occurs, each equal to what the engine computes from the
  swaps of that key alone, and the closed positions are exactly those of the keys taken one by
  one, whatever the iteration order of the hash map.\<close>

theorem fifo_keys_isolated:
  assumes "decimal_laws D dv" and "\<And>xs. mset (ho xs) = mset xs"
  shows "\<exists>ps res. fifo_match D ts ho swaps = Some (ps, res) \<and>
    distinct (map fst (per_token res)) \<and> fst ` set (per_token res) = swap_key_of ` set swaps \<and>
    (\<forall>k \<in> swap_key_of ` set swaps. \<exists>ps' v.
       fifo_match D ts id (of_key k swaps) = Some (ps', \<lparr>per_token = [(k, v)]\<rparr>) \<and>
       map_of (per_token res) k = Some v) \<and>
    mset ps = (\<Sum>k \<in> swap_key_of ` set swaps. mset (fst (the (fifo_match D ts id (of_key k swaps)))))"
proof -
  let ?gs = "ho (group_by_key swaps)"
  let ?ps = "concat (map (\<lambda>g. fst (group_result D ts g)) ?gs)"
  let ?pt = "map (\<lambda>g. (fst g, snd (group_result D ts g))) ?gs"
  note run = decimal_laws.fifo_match_result [OF assms, of ts swaps]
  note single = decimal_laws.fifo_match_single [OF assms(1)]
  have d: "distinct (map fst ?gs)"
    using group_by_key_distinct [of swaps] by (metis assms(2) mset_eq_imp_distinct_iff mset_map)
  have s: "set ?gs = set (group_by_key swaps)" by (metis assms(2) set_mset_mset)
  have keys: "fst ` set ?gs = swap_key_of ` set swaps" by (simp add: s group_by_key_keys)
  have entry: "snd g = of_key (fst g) swaps" if "g \<in> set ?gs" for g
    using that group_by_key_entries [of "fst g" "snd g" swaps] by (simp add: s)
  have d': "distinct (map fst ?pt)" and k': "fst ` set ?pt = swap_key_of ` set swaps"
    using d keys by (simp_all add: o_def image_image)
  have lookup: "map_of ?pt k = Some (snd (group_result D ts (k, of_key k swaps)))"
    if "k \<in> swap_key_of ` set swaps" for k
  proof -
    have "(k, of_key k swaps) \<in> set ?gs" using that by (simp add: s group_by_key_entries)
    then have "(k, snd (group_result D ts (k, of_key k swaps))) \<in> set ?pt" by force
    with d' show ?thesis by (simp add: map_of_eq_Some_iff)
  qed
  have "mset ?ps = (\<Sum>g \<leftarrow> ?gs. mset (fst (group_result D ts g)))"
    by (simp add: mset_concat o_def)
  also have "\<dots> = (\<Sum>g \<leftarrow> ?gs. mset (fst (the (fifo_match D ts id (of_key (fst g) swaps)))))"
  proof (rule arg_cong [where f = sum_list], rule map_cong [OF refl])
    fix g assume g: "g \<in> set ?gs"
    with keys have "fst g \<in> swap_key_of ` set swaps" by blast
    then show "mset (fst (group_result D ts g)) = mset (fst (the (fifo_match D ts id (of_key (fst g) swaps))))"
      using single [of "fst g" swaps ts] entry [OF g] by (metis fst_conv option.sel prod.collapse)
  qed
  also have "\<dots> = (\<Sum>k \<leftarrow> map fst ?gs. mset (fst (the (fifo_match D ts id (of_key k swaps)))))"
    by (simp add: o_def)
  also have "\<dots> = (\<Sum>k \<in> swap_key_of ` set swaps. mset (fst (the (fifo_match D ts id (of_key k swaps)))))"
    using d keys by (simp only: sum_list_distinct_conv_sum_set set_map)
  finally have ms: "mset ?ps = (\<Sum>k \<in> swap_key_of ` set swaps. mset (fst (the (fifo_match D ts id (of_key k swaps)))))" .
  have pk: "\<forall>k \<in> swap_key_of ` set swaps. \<exists>ps' v.
       fifo_match D ts id (of_key k swaps) = Some (ps', \<lparr>per_token = [(k, v)]\<rparr>) \<and> map_of ?pt k = Some v"
    using lookup single by blast
  show ?thesis
    by (rule exI [where x = ?ps], rule exI [where x = "\<lparr>per_token = ?pt\<rparr>"])
       (intro conjI, use run d' k' pk ms in \<open>simp_all only: CostBasisResidual.simps\<close>)
qed

theorem fifo_keys_isolated_witness:
  "\<exists>ps res. fifo_match rat_decimal (\<lambda>_. None) rev
       [sample_swap SwapBuy ''A'' ''8'' [] 80, sample_swap SwapSell ''B'' ''2'' [] 30] = Some (ps, res) \<and>
     fst ` set (per_token res) = {(''solana'', ''A'', ''T''), (''solana'', ''B'', ''T'')}"
  using fifo_keys_isolated [OF rat_dec.decimal_laws_axioms, of rev "\<lambda>_. None"
      "[sample_swap SwapBuy ''A'' ''8'' [] 80, sample_swap SwapSell ''B'' ''2'' [] 30]"]
  by (simp add: swap_key_of_def sample_swap_def) blast

end
