(* ===== verification/Wallet.thy ===== *)
theory Wallet
  imports Core Cost_Basis
begin

text \<open>
  Wallet intelligence: the remaining types of \<^verbatim>\<open>src/sf/wallet.rs\<close> and the aggregation of
  \<^verbatim>\<open>src/sf/wallet_runtime.rs\<close> over the FIFO engine. Three hash maps are iterated: the groups of
  the engine (\<open>ho\<close>), the residual (\<open>hr\<close>) and the average costs (\<open>ha\<close>); their orders are arguments.
  \<open>dshow\<close> is the printer of the decimal type.
\<close>

section \<open>Types\<close>

datatype TagSourceType = TagManual | TagSystem | TagImport | TagVendor | TagInferred

datatype TagStatus = TagActive | TagDisputed | TagExpired | TagRevoked

record WalletTagAssertion =
  wt_namespace :: string
  wt_name :: string
  wt_source_type :: TagSourceType
  wt_truth_status :: TruthStatus
  wt_confidence :: "f64 option"
  wt_valid_from :: string
  wt_valid_until :: "string option"
  wt_status :: TagStatus
  wt_supersedes_id :: "string option"

record CostBasis =
  cb_token :: string
  cb_average_cost :: string
  cb_realized_pnl :: "string option"

record Recurrence =
  rec_tokens_traded :: nat
  rec_distinct_clusters :: nat

record WalletIntelligence =
  wi_chain :: string
  wi_address :: string
  wi_cluster_id :: "string option"
  wi_cost_basis :: "CostBasis option"
  wi_tags :: "WalletTagAssertion list"
  wi_realized_outcome :: "string option"
  wi_unrealized_outcome :: "string option"
  wi_recurrence :: "Recurrence option"

record 'd PricedSwap =
  ps_swap :: Swap
  ps_usd_value :: 'd

record 'd SwapReconstruction =
  sr_average_cost :: "(string \<times> 'd) list"
  sr_realized_pnl :: 'd
  sr_realized_pnl_by_token :: "(string \<times> 'd) list"
  sr_unrealized_pnl :: 'd
  sr_tokens_traded :: nat
  sr_distinct_clusters :: nat

section \<open>Operations\<close>

definition to_scored :: "'d PricedSwap list \<Rightarrow> 'd ScoredSwap list" where
  "to_scored swaps = map (\<lambda>p. \<lparr>ss_swap = ps_swap p, ss_usd_value = ps_usd_value p\<rparr>) swaps"

definition pnl_by_token ::
  "('d, 'x) decimal_api_scheme \<Rightarrow> 'd MatchedPosition list \<Rightarrow> (string \<times> 'd) list" where
  "pnl_by_token D positions =
     foldl (\<lambda>m p. hm_modify (mp_token p)
       (\<lambda>slot. dec_add D (case slot of None \<Rightarrow> dec_zero D | Some v \<Rightarrow> v) (mp_realized_pnl p)) m) [] positions"

definition average_costs ::
  "('d, 'x) decimal_api_scheme \<Rightarrow> (swap_key \<times> 'd \<times> 'd) list \<Rightarrow> (string \<times> 'd) list" where
  "average_costs D entries =
     foldl (\<lambda>m ((chain, wallet, token), (amount, cost)).
       hm_modify token
         (\<lambda>_. if \<not> dec_eq D amount (dec_zero D) then dec_div D cost amount else dec_zero D) m) [] entries"

definition mark_of ::
  "('d, 'x) decimal_api_scheme \<Rightarrow> (string \<times> 'd) list option \<Rightarrow> string \<Rightarrow> 'd" where
  "mark_of D mark_usd token =
     (case Option.bind mark_usd (\<lambda>m. map_of m token) of Some v \<Rightarrow> v | None \<Rightarrow> dec_zero D)"

definition unrealized_sum ::
  "('d, 'x) decimal_api_scheme \<Rightarrow> (string \<times> 'd) list option \<Rightarrow> (swap_key \<times> 'd \<times> 'd) list \<Rightarrow> 'd" where
  "unrealized_sum D mark_usd entries =
     foldl (\<lambda>acc ((chain, wallet, token), (amount, cost)).
       dec_add D acc (dec_sub D (mark_of D mark_usd token) cost)) (dec_zero D) entries"

definition reconstruct_swaps where
  "reconstruct_swaps D ts ho hr swaps mark_usd =
     do { (positions, residual) \<leftarrow> fifo_match D ts ho (to_scored swaps);
          Some \<lparr>sr_average_cost = average_costs D (hr (per_token residual)),
                sr_realized_pnl = foldl (\<lambda>acc p. dec_add D acc (mp_realized_pnl p)) (dec_zero D) positions,
                sr_realized_pnl_by_token = pnl_by_token D positions,
                sr_unrealized_pnl = unrealized_sum D mark_usd (hr (per_token residual)),
                sr_tokens_traded = as_u32 (card (set (map (\<lambda>p. sw_token (ps_swap p)) swaps))),
                sr_distinct_clusters = 0\<rparr> }"

definition early_entry_timing :: "(string \<Rightarrow> int option) \<Rightarrow> 'd PricedSwap list \<Rightarrow> int option \<Rightarrow> int option" where
  "early_entry_timing ts swaps token_birth_ts =
     (let times = List.map_filter (\<lambda>p. timestamp_secs ts (ps_swap p)) swaps
      in case (if times = [] then None else Some (Min (set times)), token_birth_ts) of
           (Some w, Some t) \<Rightarrow> Some (i64_sub w t)
         | _ \<Rightarrow> None)"

definition compute_recurrence :: "'d PricedSwap list \<Rightarrow> (string \<rightharpoonup> string) \<Rightarrow> Recurrence" where
  "compute_recurrence swaps clusters =
     \<lparr>rec_tokens_traded = as_u32 (card (set (map (\<lambda>p. sw_token (ps_swap p)) swaps))),
      rec_distinct_clusters =
        as_u32 (card (set (List.map_filter (\<lambda>p. clusters (sw_wallet (ps_swap p))) swaps)))\<rparr>"

text \<open>\<open>Iterator::max_by\<close>: of several maximal elements the last one is returned.\<close>

fun max_by_last :: "('a \<Rightarrow> nat) \<Rightarrow> 'a list \<Rightarrow> 'a option" where
  "max_by_last k [] = None"
| "max_by_last k (x # xs) =
     (case max_by_last k xs of None \<Rightarrow> Some x | Some y \<Rightarrow> if k y < k x then Some x else Some y)"

definition own_swaps :: "string \<Rightarrow> string \<Rightarrow> 'd PricedSwap list \<Rightarrow> 'd PricedSwap list" where
  "own_swaps chain address swaps =
     filter (\<lambda>p. sw_chain (ps_swap p) = chain \<and> sw_wallet (ps_swap p) = address) swaps"

definition trade_count :: "'d PricedSwap list \<Rightarrow> string \<Rightarrow> nat" where
  "trade_count swaps token = length (filter (\<lambda>p. sw_token (ps_swap p) = token) swaps)"

definition build_wallet_intelligence where
  "build_wallet_intelligence D dshow ts ho hr ha chain address cluster_id swaps mark_usd token_birth_ts clusters =
     (let own = own_swaps chain address swaps
      in do { r \<leftarrow> reconstruct_swaps D ts ho hr own mark_usd;
              Some \<lparr>wi_chain = chain, wi_address = address, wi_cluster_id = cluster_id,
                wi_cost_basis =
                  map_option (\<lambda>(token, avg).
                    \<lparr>cb_token = token, cb_average_cost = dshow avg,
                     cb_realized_pnl = map_option dshow (map_of (sr_realized_pnl_by_token r) token)\<rparr>)
                    (max_by_last (\<lambda>e. trade_count own (fst e)) (ha (sr_average_cost r))),
                wi_tags = [],
                wi_realized_outcome = Some (dshow (sr_realized_pnl r)),
                wi_unrealized_outcome = Some (dshow (sr_unrealized_pnl r)),
                wi_recurrence = Some (compute_recurrence own clusters)\<rparr> })"

section \<open>Aggregates\<close>

lemma max_by_last_None [simp]: "max_by_last k xs = None \<longleftrightarrow> xs = []"
  by (cases xs) (auto split: option.splits)

lemma max_by_last_Some:
  "max_by_last k xs = Some m \<Longrightarrow> m \<in> set xs \<and> (\<forall>x \<in> set xs. k x \<le> k m)"
proof (induction xs arbitrary: m)
  case (Cons x xs)
  then show ?case by (auto split: option.splits if_splits)
qed simp

lemma average_costs_keys: "fst ` set (average_costs D es) = (\<lambda>e. snd (snd (fst e))) ` set es"
proof -
  have "fst ` set (foldl (\<lambda>m ((chain, wallet, token), (amount, cost)).
       hm_modify token (\<lambda>_. if \<not> dec_eq D amount (dec_zero D) then dec_div D cost amount else dec_zero D) m) m0 es) =
      fst ` set m0 \<union> (\<lambda>e. snd (snd (fst e))) ` set es" for m0
    by (induction es arbitrary: m0) (simp_all add: case_prod_beta)
  then show ?thesis by (simp add: average_costs_def)
qed

lemma pnl_by_token_keys: "fst ` set (pnl_by_token D ps) = mp_token ` set ps"
proof -
  have "fst ` set (foldl (\<lambda>m p. hm_modify (mp_token p)
       (\<lambda>slot. dec_add D (case slot of None \<Rightarrow> dec_zero D | Some v \<Rightarrow> v) (mp_realized_pnl p)) m) m0 ps) =
      fst ` set m0 \<union> mp_token ` set ps" for m0
    by (induction ps arbitrary: m0) auto
  then show ?thesis by (simp add: pnl_by_token_def)
qed

context decimal_laws
begin

lemma pnl_by_token_sum:
  "(\<Sum>e \<leftarrow> pnl_by_token D ps. dv (snd e)) = (\<Sum>p \<leftarrow> ps. dv (mp_realized_pnl p))"
proof -
  have "(\<Sum>e \<leftarrow> foldl (\<lambda>m p. hm_modify (mp_token p)
       (\<lambda>slot. dec_add D (case slot of None \<Rightarrow> dec_zero D | Some v \<Rightarrow> v) (mp_realized_pnl p)) m) m0 ps. dv (snd e)) =
      (\<Sum>e \<leftarrow> m0. dv (snd e)) + (\<Sum>p \<leftarrow> ps. dv (mp_realized_pnl p))" for m0
  proof (induction ps arbitrary: m0)
    case (Cons p ps)
    have "(\<Sum>e \<leftarrow> hm_modify (mp_token p)
       (\<lambda>slot. dec_add D (case slot of None \<Rightarrow> dec_zero D | Some v \<Rightarrow> v) (mp_realized_pnl p)) m0. dv (snd e)) =
       (\<Sum>e \<leftarrow> m0. dv (snd e)) + dv (mp_realized_pnl p)"
      by (rule sum_hm_modify) (simp_all add: dv_simps)
    with Cons.IH show ?case by simp
  qed simp
  then show ?thesis by (simp add: pnl_by_token_def)
qed

lemma unrealized_sum_value:
  "dv (unrealized_sum D mark es) =
     (\<Sum>e \<leftarrow> es. dv (mark_of D mark (snd (snd (fst e))))) - (\<Sum>e \<leftarrow> es. dv (snd (snd e)))"
proof -
  have "dv (foldl (\<lambda>acc ((chain, wallet, token), (amount, cost)).
       dec_add D acc (dec_sub D (mark_of D mark token) cost)) a es) =
     dv a + (\<Sum>e \<leftarrow> es. dv (mark_of D mark (snd (snd (fst e))))) - (\<Sum>e \<leftarrow> es. dv (snd (snd e)))" for a
    by (induction es arbitrary: a) (auto simp: dv_simps split: prod.splits)
  then show ?thesis by (simp add: unrealized_sum_def dv_zero)
qed

end

lemma sum_over_perm:
  fixes f :: "'a \<Rightarrow> rat"
  assumes "\<And>xs. mset (h xs) = mset (xs :: 'a list)"
  shows "(\<Sum>x \<leftarrow> h xs. f x) = (\<Sum>x \<leftarrow> xs. f x)"
  using sum_list_mset_cong [OF assms] .

text \<open>Reconstructing a wallet's swaps loses no profit. The run returns; the per-token profits
  add up to the total realized profit; and whenever no sell was over-sold and no swap has a zero
  token quantity, realized plus unrealized profit is sell proceeds less buy cost plus the mark
  value of every open position, with an absent mark counted as zero and never invented.\<close>

theorem reconstruction_accounts_for_profit:
  assumes "decimal_laws D dv" and "\<And>xs. mset (ho xs) = mset xs" and "\<And>xs. mset (hr xs) = mset xs"
    and "fifo_match D ts ho (to_scored swaps) = Some (ps, res)"
  shows "\<exists>r. reconstruct_swaps D ts ho hr swaps mark = Some r \<and>
    dv (sr_realized_pnl r) = (\<Sum>e \<leftarrow> sr_realized_pnl_by_token r. dv (snd e)) \<and>
    fst ` set (sr_realized_pnl_by_token r) = mp_token ` set ps \<and>
    ((\<forall>s \<in> set (to_scored swaps). swap_qty D dv s \<noteq> 0) \<and>
     (\<forall>p \<in> set ps. dv (mp_unmatched_sell_amount p) = 0) \<longrightarrow>
       dv (sr_realized_pnl r) + dv (sr_unrealized_pnl r) =
         (\<Sum>s \<leftarrow> to_scored swaps. signed_usd dv s) +
         (\<Sum>e \<leftarrow> per_token res. dv (mark_of D mark (snd (snd (fst e))))))"
proof -
  note L = assms(1)
  from decimal_laws.fifo_match_book [OF assms(1,2), of ts "to_scored swaps"] assms(4)
  have book: "fifo_book D dv (to_scored swaps) ps
      (\<Sum>e \<leftarrow> per_token res. dv (fst (snd e))) (\<Sum>e \<leftarrow> per_token res. dv (snd (snd e)))" by simp
  have real: "dv (foldl (\<lambda>acc p. dec_add D acc (mp_realized_pnl p)) (dec_zero D) ps) =
      (\<Sum>p \<leftarrow> ps. dv (mp_realized_pnl p))"
    by (simp add: decimal_laws.dv_foldl_add [OF L] decimal_laws.dv_zero [OF L])
  show ?thesis
    using book real
    by (simp add: reconstruct_swaps_def assms(4) decimal_laws.pnl_by_token_sum [OF L] pnl_by_token_keys
        decimal_laws.unrealized_sum_value [OF L] sum_over_perm [OF assms(3)] fifo_book_def)
qed

lemma sample_swap_run:
  "\<exists>ps res. fifo_match rat_decimal (\<lambda>_. None) rev (to_scored sw) = Some (ps, res)"
  using rat_dec.fifo_match_book [of rev "\<lambda>_. None" "to_scored sw"] by auto

theorem reconstruction_accounts_for_profit_witness:
  "\<exists>ps res r. fifo_match rat_decimal (\<lambda>_. None) rev
       (to_scored [\<lparr>ps_swap = ss_swap (sample_swap SwapBuy ''A'' ''8'' [] 80), ps_usd_value = 80\<rparr>]) = Some (ps, res) \<and>
     reconstruct_swaps rat_decimal (\<lambda>_. None) rev rev
       [\<lparr>ps_swap = ss_swap (sample_swap SwapBuy ''A'' ''8'' [] 80), ps_usd_value = 80\<rparr>] None = Some r \<and>
     sr_realized_pnl r = (\<Sum>e \<leftarrow> sr_realized_pnl_by_token r. snd e)"
proof -
  let ?sw = "[\<lparr>ps_swap = ss_swap (sample_swap SwapBuy ''A'' ''8'' [] 80), ps_usd_value = 80 :: rat\<rparr>]"
  obtain ps res where run: "fifo_match rat_decimal (\<lambda>_. None) rev (to_scored ?sw) = Some (ps, res)"
    using sample_swap_run by blast
  from reconstruction_accounts_for_profit [OF rat_dec.decimal_laws_axioms _ _ run, of rev None]
  show ?thesis using run by auto
qed

text \<open>A wallet's profile is built from its own swaps only and reports its most traded token. Two
  swap lists with the same swaps of this wallet give the same profile; the profile always
  exists; it has a cost basis exactly when the wallet has swaps, and then for a token the wallet
  trades at least as often as any other.\<close>

theorem wallet_profile_is_own:
  assumes "decimal_laws D dv" and "\<And>xs. mset (ho xs) = mset xs" and "\<And>xs. mset (hr xs) = mset xs"
    and "\<And>xs. mset (ha xs) = mset xs"
  shows "\<exists>w. build_wallet_intelligence D dshow ts ho hr ha chain addr cid swaps mark birth clusters = Some w \<and>
    (\<forall>swaps'. own_swaps chain addr swaps' = own_swaps chain addr swaps \<longrightarrow>
       build_wallet_intelligence D dshow ts ho hr ha chain addr cid swaps' mark birth clusters = Some w) \<and>
    (wi_cost_basis w = None \<longleftrightarrow> own_swaps chain addr swaps = []) \<and>
    (\<forall>cb. wi_cost_basis w = Some cb \<longrightarrow>
       0 < trade_count (own_swaps chain addr swaps) (cb_token cb) \<and>
       (\<forall>t. trade_count (own_swaps chain addr swaps) t \<le> trade_count (own_swaps chain addr swaps) (cb_token cb)))"
proof -
  let ?own = "own_swaps chain addr swaps"
  let ?gs = "ho (group_by_key (to_scored ?own))"
  define ps where "ps = concat (map (\<lambda>g. fst (group_result D ts g)) ?gs)"
  define res where "res = \<lparr>per_token = map (\<lambda>g. (fst g, snd (group_result D ts g))) ?gs\<rparr>"
  have run: "fifo_match D ts ho (to_scored ?own) = Some (ps, res)"
    unfolding ps_def res_def by (rule decimal_laws.fifo_match_result [OF assms(1,2)])
  have pt: "per_token res = map (\<lambda>g. (fst g, snd (group_result D ts g))) ?gs" by (simp add: res_def)
  let ?avg = "average_costs D (hr (per_token res))"
  have sets: "set (ho x) = set x" "set (hr y) = set y" "set (ha z) = set z" for x y z
    using assms(2) [of x] assms(3) [of y] assms(4) [of z] by (auto dest: mset_eq_setD)
  have "fst ` set (ha ?avg) = (\<lambda>e. snd (snd (fst e))) ` set (per_token res)"
    by (simp add: sets average_costs_keys)
  also have "\<dots> = (\<lambda>k. snd (snd k)) ` (fst ` set (group_by_key (to_scored ?own)))"
    unfolding pt by (simp add: sets image_image)
  also have "\<dots> = (\<lambda>p. sw_token (ps_swap p)) ` set ?own"
    unfolding group_by_key_keys by (auto simp: to_scored_def swap_key_of_def image_image)
  finally have tokens: "fst ` set (ha ?avg) = (\<lambda>p. sw_token (ps_swap p)) ` set ?own" .
  then have empty: "ha ?avg = [] \<longleftrightarrow> ?own = []" by (metis image_is_empty set_empty)
  have best: "0 < trade_count ?own (fst e) \<and> (\<forall>t. trade_count ?own t \<le> trade_count ?own (fst e))"
    if "max_by_last (\<lambda>e. trade_count ?own (fst e)) (ha ?avg) = Some e" for e
  proof -
    from max_by_last_Some [OF that] have e: "e \<in> set (ha ?avg)"
      "\<And>x. x \<in> set (ha ?avg) \<Longrightarrow> trade_count ?own (fst x) \<le> trade_count ?own (fst e)" by auto
    have pos: "0 < trade_count ?own t \<longleftrightarrow> t \<in> (\<lambda>p. sw_token (ps_swap p)) ` set ?own" for t
      by (auto simp: trade_count_def filter_empty_conv)
    have "0 < trade_count ?own (fst e)" using e(1) tokens pos by blast
    moreover have "trade_count ?own t \<le> trade_count ?own (fst e)" for t
    proof (cases "0 < trade_count ?own t")
      case True
      then obtain x where "x \<in> set (ha ?avg)" "fst x = t" using pos tokens by (metis imageE)
      with e(2) show ?thesis by blast
    qed simp
    ultimately show ?thesis by blast
  qed
  show ?thesis
    using best empty run
    by (auto simp: build_wallet_intelligence_def reconstruct_swaps_def Let_def split: prod.splits)
qed

theorem wallet_profile_is_own_witness:
  "\<exists>w. build_wallet_intelligence rat_decimal (\<lambda>_. ''d'') (\<lambda>_. None) rev rev rev ''solana'' ''A'' None
     [\<lparr>ps_swap = ss_swap (sample_swap SwapBuy ''A'' ''8'' [] 80), ps_usd_value = 80\<rparr>] None None Map.empty = Some w \<and>
     wi_cost_basis w \<noteq> None"
  using wallet_profile_is_own [OF rat_dec.decimal_laws_axioms, of rev rev rev "\<lambda>_. ''d''" "\<lambda>_. None" "''solana''" "''A''"
      None "[\<lparr>ps_swap = ss_swap (sample_swap SwapBuy ''A'' ''8'' [] 80), ps_usd_value = 80\<rparr>]" None None Map.empty]
  by (auto simp: own_swaps_def sample_swap_def)

end
