(* ===== verification/Lifecycles.thy ===== *)
theory Lifecycles
  imports Interfaces
begin

text \<open>
  Three staged lifecycles and their gates: token birth (\<^verbatim>\<open>src/sf/token.rs\<close>,
  \<^verbatim>\<open>src/sf/token_runtime.rs\<close>), revival of dormant tokens (\<^verbatim>\<open>src/sf/revival.rs\<close>,
  \<^verbatim>\<open>src/sf/revival_runtime.rs\<close>) and strategies (\<^verbatim>\<open>src/sf/strategy.rs\<close>,
  \<^verbatim>\<open>src/sf/strategy_runtime.rs\<close>). Each is an instance of a machine of \<open>Interfaces\<close>: the token
  stages are a ladder with terminal rungs, the revival stages a strict ladder, the strategy
  stages a machine with one terminal state.
\<close>

section \<open>Token birth lifecycle\<close>

datatype TokenLifecycle = Created | PreGraduation | Migrated | FirstLiquidityStage | ActiveStage
  | Cooling | Dormant | Archived | Tombstoned

datatype ProvenanceTruthStatus = Exact | Reconstructed | Estimated | Insufficient

datatype ProvenanceRole = Originator | IndependentSpread | OfficialAdopter | Deployer
  | CallerAmplifier | MarketLeadingContract

datatype FamilyRelation = Official | Derivative | Copycat

record TokenFamily =
  tf_family_key :: string
  tf_canonical_token :: "string option"
  tf_relation :: FamilyRelation

record TokenIntelligence =
  ti_chain :: string
  ti_contract_address :: string
  ti_ticker :: "string option"
  ti_name :: "string option"
  ti_lifecycle :: TokenLifecycle
  ti_family :: "TokenFamily option"
  ti_metadata_fingerprint :: "string option"
  ti_market_status :: "string option"

record ProvenanceEvidence =
  pe_role :: ProvenanceRole
  pe_truth_status :: ProvenanceTruthStatus
  pe_earliest_evidence_ref :: "string option"
  pe_confidence :: "f64 option"

fun token_stage_index :: "TokenLifecycle \<Rightarrow> nat" where
  "token_stage_index Created = 0"
| "token_stage_index PreGraduation = 1"
| "token_stage_index Migrated = 2"
| "token_stage_index FirstLiquidityStage = 3"
| "token_stage_index ActiveStage = 4"
| "token_stage_index Cooling = 5"
| "token_stage_index Dormant = 6"
| "token_stage_index Archived = 7"
| "token_stage_index Tombstoned = 8"

definition token_can_advance :: "TokenLifecycle \<Rightarrow> TokenLifecycle \<Rightarrow> bool" where
  "token_can_advance current nxt =
     (if current = Archived \<or> current = Tombstoned then False
      else token_stage_index current \<le> token_stage_index nxt)"

fun wake_gate :: "f64 option \<Rightarrow> f64 option \<Rightarrow> bool" where
  "wake_gate (Some base) (Some sig) = f64_gt sig base"
| "wake_gate _ _ = False"

definition token_advance :: "TokenLifecycle \<Rightarrow> TokenLifecycle \<Rightarrow> TokenLifecycle" where
  "token_advance current nxt = (if token_can_advance current nxt then nxt else current)"

lemma token_stage_index_inj: "token_stage_index s = token_stage_index t \<Longrightarrow> s = t"
  by (cases s; cases t) simp_all

interpretation token_ladder: stage_ladder token_can_advance token_stage_index
  by unfold_locales (auto simp: token_can_advance_def token_stage_index_inj split: if_splits)

interpretation token_machine: closed_machine token_can_advance "\<lambda>s. s \<in> {Archived, Tombstoned}"
  by unfold_locales (auto simp: token_can_advance_def)

lemma token_advance_reach: "token_can_advance\<^sup>*\<^sup>* s (foldl token_advance s xs)"
proof (induction xs arbitrary: s)
  case (Cons x xs)
  have "token_can_advance\<^sup>*\<^sup>* s (token_advance s x)" by (auto simp: token_advance_def)
  with Cons.IH [of "token_advance s x"] show ?case by simp
qed simp

text \<open>A token's lifecycle only moves forward and ends in the archive. Whatever sequence of
  stages is requested, the stage never falls back, a stage that has been left never returns, an
  archived or tombstoned token stays as it is for ever, and the stage is always the initial one
  or one that was requested; and the wake gate opens only on a signal strictly above a known
  baseline, never on missing or not-a-number data.\<close>

theorem token_lifecycle_forward_only:
  "token_stage_index s \<le> token_stage_index (foldl token_advance s xs) \<and>
   (s \<in> {Archived, Tombstoned} \<longrightarrow> foldl token_advance s xs = s) \<and>
   (foldl token_advance s (xs @ ys) = s \<longrightarrow> foldl token_advance s xs = s) \<and>
   foldl token_advance s xs \<in> insert s (set xs) \<and>
   (wake_gate b g \<longrightarrow> (\<exists>x y. b = Some x \<and> g = Some y \<and> f64_lt x y \<and> x \<noteq> F_nan \<and> y \<noteq> F_nan))"
proof (intro conjI impI)
  show "token_stage_index s \<le> token_stage_index (foldl token_advance s xs)"
    by (rule token_ladder.reach_mono [OF token_advance_reach])
  show "foldl token_advance s xs = s" if "s \<in> {Archived, Tombstoned}"
    by (rule token_machine.terminal_reach [OF token_advance_reach that])
  show "foldl token_advance s xs = s" if ret: "foldl token_advance s (xs @ ys) = s"
  proof -
    have "token_can_advance\<^sup>*\<^sup>* (foldl token_advance s xs) s"
      using token_advance_reach [of "foldl token_advance s xs" ys] ret by simp
    then show ?thesis using token_ladder.reach_antisym [OF token_advance_reach] by metis
  qed
  show "foldl token_advance s xs \<in> insert s (set xs)"
    by (induction xs rule: rev_induct) (auto simp: token_advance_def)
  show "\<exists>x y. b = Some x \<and> g = Some y \<and> f64_lt x y \<and> x \<noteq> F_nan \<and> y \<noteq> F_nan" if "wake_gate b g"
    using that by (cases "(b, g)" rule: wake_gate.cases) (auto dest: f64_lt_not_nan)
qed

theorem token_lifecycle_forward_only_witness:
  "foldl token_advance Archived [ActiveStage, Tombstoned] = Archived"
  using token_lifecycle_forward_only [of Archived "[ActiveStage, Tombstoned]"] by simp

section \<open>Revival of dormant tokens\<close>

datatype FundingRelation = FundedBy | SynchronizedEntry | SynchronizedExit | CommonDeployer
  | CommonAuthority | SharedCounterparty | CorrelatedCluster

record FundingEdge =
  fe_from_wallet :: string
  fe_to_wallet :: string
  fe_relation :: FundingRelation
  fe_evidence_ref :: "string option"
  fe_confidence :: "f64 option"
  fe_false_confluence_risk :: bool

datatype RevivalStage = Wake | DormantBaselineComparison | ActivationGate | Refresh
  | RevivalQuality | OpportunityEvaluation

record DormantBaseline =
  bl_token :: string
  bl_dormant_at :: string
  bl_baseline :: json
  bl_failure_memory :: "string list"

record RevivalResult =
  rr_token :: string
  rr_reached_stage :: RevivalStage
  rr_revival_quality :: "f64 option"
  rr_passed_activation_gate :: bool
  rr_evidence_refs :: "string list"

fun revival_stage_index :: "RevivalStage \<Rightarrow> nat" where
  "revival_stage_index Wake = 0"
| "revival_stage_index DormantBaselineComparison = 1"
| "revival_stage_index ActivationGate = 2"
| "revival_stage_index Refresh = 3"
| "revival_stage_index RevivalQuality = 4"
| "revival_stage_index OpportunityEvaluation = 5"

definition run_revival ::
  "string \<Rightarrow> DormantBaseline \<Rightarrow> bool \<Rightarrow> bool \<Rightarrow> f64 option \<Rightarrow> string list \<Rightarrow> RevivalResult" where
  "run_revival token baseline wake passed_gate quality evidence_refs =
     (let all_evidence = bl_failure_memory baseline @ evidence_refs
      in if token \<noteq> bl_token baseline then
           \<lparr>rr_token = token, rr_reached_stage = Wake, rr_revival_quality = None,
            rr_passed_activation_gate = False, rr_evidence_refs = all_evidence\<rparr>
         else if \<not> wake then
           \<lparr>rr_token = token, rr_reached_stage = Wake, rr_revival_quality = None,
            rr_passed_activation_gate = False, rr_evidence_refs = all_evidence\<rparr>
         else if \<not> passed_gate then
           \<lparr>rr_token = token, rr_reached_stage = ActivationGate, rr_revival_quality = None,
            rr_passed_activation_gate = False, rr_evidence_refs = all_evidence\<rparr>
         else
           \<lparr>rr_token = token,
            rr_reached_stage =
              (if quality \<noteq> None \<and> evidence_refs \<noteq> [] then OpportunityEvaluation else RevivalQuality),
            rr_revival_quality = quality, rr_passed_activation_gate = True,
            rr_evidence_refs = all_evidence\<rparr>)"

definition revival_can_progress :: "RevivalStage \<Rightarrow> RevivalStage \<Rightarrow> bool" where
  "revival_can_progress current nxt \<longleftrightarrow> revival_stage_index nxt = revival_stage_index current + 1"

lemma revival_stage_index_inj: "revival_stage_index s = revival_stage_index t \<Longrightarrow> s = t"
  by (cases s; cases t) simp_all

interpretation revival_ladder: strict_ladder revival_can_progress revival_stage_index
  by unfold_locales (auto simp: revival_can_progress_def revival_stage_index_inj)

lemma revival_stages_from_Wake:
  assumes "run_from revival_can_progress Wake xs"
  shows "Wake # xs = take (Suc (length xs))
    [Wake, DormantBaselineComparison, ActivationGate, Refresh, RevivalQuality, OpportunityEvaluation]"
proof -
  let ?all = "[Wake, DormantBaselineComparison, ActivationGate, Refresh, RevivalQuality, OpportunityEvaluation]"
  have cov: "map revival_stage_index (Wake # xs) = [0..<Suc (length xs)]"
    using revival_ladder.run_covers [OF assms] by simp
  have "revival_stage_index (last (Wake # xs)) = length xs"
    using revival_ladder.run_length [OF assms] by simp
  moreover have "revival_stage_index s \<le> 5" for s by (cases s) simp_all
  ultimately have len: "length xs \<le> 5" by metis
  have "map revival_stage_index (take (Suc (length xs)) ?all) = take (Suc (length xs)) [0..<6]"
    unfolding take_map [symmetric] by (simp add: upt_rec eval_nat_numeral)
  also have "\<dots> = [0..<Suc (length xs)]" using len by (simp add: take_upt del: upt_Suc)
  finally have "map revival_stage_index (Wake # xs) = map revival_stage_index (take (Suc (length xs)) ?all)"
    using cov by simp
  then show ?thesis
    by (rule map_injective) (simp add: inj_def revival_stage_index_inj)
qed

text \<open>A dormant token is revived only through every gate, and its failures stay attached. The
  full opportunity evaluation is reached exactly when the token matches its baseline, the wake
  signal fired, the activation gate passed and both a quality and caller evidence are present;
  a token that fails the gate stays at or before it with no quality reported; the prior failure
  memory leads the evidence on every path; and the stage order admits no skipping: a run from
  the wake stage is an initial segment of the six stages.\<close>

theorem revival_is_gated:
  "(rr_reached_stage (run_revival tok bl wake gate q ev) = OpportunityEvaluation \<longleftrightarrow>
      tok = bl_token bl \<and> wake \<and> gate \<and> q \<noteq> None \<and> ev \<noteq> []) \<and>
   (rr_passed_activation_gate (run_revival tok bl wake gate q ev) \<longleftrightarrow> tok = bl_token bl \<and> wake \<and> gate) \<and>
   (\<not> rr_passed_activation_gate (run_revival tok bl wake gate q ev) \<longrightarrow>
      revival_stage_index (rr_reached_stage (run_revival tok bl wake gate q ev)) \<le>
        revival_stage_index ActivationGate \<and>
      rr_revival_quality (run_revival tok bl wake gate q ev) = None) \<and>
   rr_evidence_refs (run_revival tok bl wake gate q ev) = bl_failure_memory bl @ ev \<and>
   (run_from revival_can_progress Wake xs \<longrightarrow>
      Wake # xs = take (Suc (length xs))
        [Wake, DormantBaselineComparison, ActivationGate, Refresh, RevivalQuality, OpportunityEvaluation])"
proof (intro conjI)
  show "run_from revival_can_progress Wake xs \<longrightarrow>
      Wake # xs = take (Suc (length xs))
        [Wake, DormantBaselineComparison, ActivationGate, Refresh, RevivalQuality, OpportunityEvaluation]"
    using revival_stages_from_Wake by blast
qed (auto simp: run_revival_def Let_def)

theorem revival_is_gated_witness:
  "rr_reached_stage (run_revival ''t'' \<lparr>bl_token = ''t'', bl_dormant_at = [], bl_baseline = JNull,
     bl_failure_memory = [''rug'']\<rparr> True False None []) \<noteq> OpportunityEvaluation \<and>
   rr_revival_quality (run_revival ''t'' \<lparr>bl_token = ''t'', bl_dormant_at = [], bl_baseline = JNull,
     bl_failure_memory = [''rug'']\<rparr> True False None []) = None"
  using revival_is_gated [of "''t''" "\<lparr>bl_token = ''t'', bl_dormant_at = [], bl_baseline = JNull,
     bl_failure_memory = [''rug'']\<rparr>" True False None "[]"] by simp

section \<open>Strategies\<close>

datatype StrategyLifecycle = Draft | Shadow | Paper | Validated | StratApproved | Canary
  | StratActive | Paused | Retired

record StrategySource =
  st_raw_url :: "string option"
  st_content_hash :: string
  st_author :: "string option"
  st_claims :: "string list"
  st_required_capabilities :: "string list"
  st_chain_scope :: "string list"
  st_regime_scope :: "string option"

record StrategyVersion =
  sv_strategy_id :: string
  sv_version :: nat
  sv_policy :: json
  sv_policy_hash :: string
  sv_lifecycle :: StrategyLifecycle

record ShadowOutcome =
  so_strategy_version_id :: string
  so_window_start :: string
  so_window_end :: string
  so_metrics :: json
  so_rejected_candidates :: "string list"

record PaperFriction =
  pf_fees :: "string option"
  pf_gas :: "string option"
  pf_tip :: "string option"
  pf_rent :: "string option"
  pf_slippage :: "string option"
  pf_latency :: "string option"

record PaperExecution =
  px_strategy_version_id :: string
  px_quote :: string
  px_friction :: PaperFriction
  px_pnl :: "string option"

fun strategy_stage_index :: "StrategyLifecycle \<Rightarrow> nat" where
  "strategy_stage_index Draft = 0"
| "strategy_stage_index Shadow = 1"
| "strategy_stage_index Paper = 2"
| "strategy_stage_index Validated = 3"
| "strategy_stage_index StratApproved = 4"
| "strategy_stage_index Canary = 5"
| "strategy_stage_index StratActive = 6"
| "strategy_stage_index Paused = 7"
| "strategy_stage_index Retired = 8"

definition strategy_can_transition :: "StrategyLifecycle \<Rightarrow> StrategyLifecycle \<Rightarrow> bool" where
  "strategy_can_transition current nxt =
     (if current = Retired then False
      else if (current = StratActive \<and> nxt = Paused) \<or> (current = Paused \<and> nxt = StratActive) then True
      else strategy_stage_index nxt = strategy_stage_index current + 1)"

definition is_live_ready :: "StrategyLifecycle \<Rightarrow> bool" where
  "is_live_ready l \<longleftrightarrow> l \<in> set [StratApproved, Canary, StratActive]"

definition negative_findings :: "ShadowOutcome list \<Rightarrow> nat" where
  "negative_findings outcomes = sum_list (map (\<lambda>o'. length (so_rejected_candidates o')) outcomes)"

definition shadow_passed :: "ShadowOutcome \<Rightarrow> bool" where
  "shadow_passed outcome \<longleftrightarrow>
     so_rejected_candidates outcome = [] \<and>
     (case as_object (so_metrics outcome) of None \<Rightarrow> False | Some m \<Rightarrow> m \<noteq> [])"

text \<open>The reader of floating-point literals of the standard library is an argument.\<close>

definition paper_positive :: "(string \<Rightarrow> f64 option) \<Rightarrow> PaperExecution \<Rightarrow> bool" where
  "paper_positive parse_f64 exec =
     (case Option.bind (px_pnl exec) parse_f64 of None \<Rightarrow> False | Some p \<Rightarrow> f64_gt p (Fin 0))"

lemma strategy_transition_from [stage_simps]:
  "strategy_can_transition Draft t \<longleftrightarrow> t = Shadow"
  "strategy_can_transition Shadow t \<longleftrightarrow> t = Paper"
  "strategy_can_transition Paper t \<longleftrightarrow> t = Validated"
  "strategy_can_transition Validated t \<longleftrightarrow> t = StratApproved"
  "strategy_can_transition StratApproved t \<longleftrightarrow> t = Canary"
  "strategy_can_transition Canary t \<longleftrightarrow> t = StratActive"
  "strategy_can_transition StratActive t \<longleftrightarrow> t = Paused"
  "strategy_can_transition Paused t \<longleftrightarrow> t = StratActive \<or> t = Retired"
  "strategy_can_transition Retired t \<longleftrightarrow> False"
  by (cases t; simp add: strategy_can_transition_def)+

interpretation strategy: closed_machine strategy_can_transition "\<lambda>s. s = Retired"
  by unfold_locales (simp add: strategy_transition_from)

lemma strategy_live_tail:
  "run_from strategy_can_transition s xs \<Longrightarrow> s \<in> {StratActive, Paused, Retired} \<Longrightarrow>
     set xs \<subseteq> {StratActive, Paused, Retired} \<and> Retired \<notin> set (butlast (s # xs))"
proof (induction xs arbitrary: s)
  case (Cons x xs)
  then have "x \<in> {StratActive, Paused, Retired}" "s \<noteq> Retired" by (auto simp: strategy_transition_from)
  with Cons show ?case by auto
qed simp

definition strategy_path :: "StrategyLifecycle list" where
  "strategy_path = [Shadow, Paper, Validated, StratApproved, Canary, StratActive]"

lemma strategy_run_shape:
  assumes "run_from strategy_can_transition Draft xs"
  shows "xs = take (length xs) strategy_path \<or>
    (\<exists>ys. xs = strategy_path @ ys \<and> run_from strategy_can_transition StratActive ys)"
proof -
  have "forced_path strategy_can_transition Draft strategy_path"
    by (simp add: strategy_path_def strategy_transition_from)
  from run_from_forced [OF this assms] show ?thesis by (simp add: strategy_path_def)
qed

text \<open>No strategy goes live without shadow, paper, validation and approval. Every run of the
  strategy lifecycle from Draft is an initial segment of Shadow, Paper, Validated, Approved,
  Canary, Active, or that whole path followed by pauses and resumptions with at most one final
  retirement; so a strategy that is live-ready, and one that is active, paused or retired, has
  passed the shadow, paper, validation and approval stages, in this order, exactly once.\<close>

theorem strategy_never_skips_gates:
  assumes "run_from strategy_can_transition Draft xs"
  shows "(xs = take (length xs) strategy_path \<or>
      (\<exists>ys. xs = strategy_path @ ys \<and> set ys \<subseteq> {StratActive, Paused, Retired} \<and> Retired \<notin> set (butlast ys))) \<and>
    (is_live_ready (last (Draft # xs)) \<or> last (Draft # xs) \<in> {Paused, Retired} \<longrightarrow>
      take 4 xs = [Shadow, Paper, Validated, StratApproved] \<and>
      set (drop 4 xs) \<inter> {Draft, Shadow, Paper, Validated, StratApproved} = {})"
proof -
  from strategy_run_shape [OF assms] consider
    (short) "xs = take (length xs) strategy_path"
  | (live) ys where "xs = strategy_path @ ys" "run_from strategy_can_transition StratActive ys" by blast
  then show ?thesis
  proof cases
    case short
    have "length (take (length xs) strategy_path) \<le> 6" by (simp add: strategy_path_def)
    with short have "length xs \<le> 6" by metis
    then consider "length xs = 0" | "length xs = 1" | "length xs = 2" | "length xs = 3"
      | "length xs = 4" | "length xs = 5" | "length xs = 6" by linarith
    then have "is_live_ready (last (Draft # xs)) \<or> last (Draft # xs) \<in> {Paused, Retired} \<longrightarrow>
      take 4 xs = [Shadow, Paper, Validated, StratApproved] \<and>
      set (drop 4 xs) \<inter> {Draft, Shadow, Paper, Validated, StratApproved} = {}"
      using short by cases (simp_all add: strategy_path_def is_live_ready_def)
    with short show ?thesis by blast
  next
    case live
    have ys: "set ys \<subseteq> {StratActive, Paused, Retired}" "Retired \<notin> set (butlast (StratActive # ys))"
      using strategy_live_tail [OF live(2)] by simp_all
    then have "Retired \<notin> set (butlast ys)" by (cases ys) auto
    moreover have "take 4 xs = [Shadow, Paper, Validated, StratApproved]"
      "drop 4 xs = [Canary, StratActive] @ ys" using live(1) by (simp_all add: strategy_path_def)
    ultimately show ?thesis using live(1) ys(1) by auto
  qed
qed

theorem strategy_never_skips_gates_witness:
  "take 4 (strategy_path @ [Paused, Retired]) = [Shadow, Paper, Validated, StratApproved] \<and>
   run_from strategy_can_transition Draft (strategy_path @ [Paused, Retired])"
  using strategy_never_skips_gates [of "strategy_path @ [Paused, Retired]"]
  by (simp add: strategy_path_def strategy_transition_from)

end
