(* ===== verification/Narrative.thy ===== *)
theory Narrative
  imports Lifecycles
begin

text \<open>
  Narrative provenance: \<^verbatim>\<open>src/sf/narrative.rs\<close> (nodes, edges, stage proofs and their
  verification against the stores) and \<^verbatim>\<open>src/sf/narrative_runtime.rs\<close> (role extraction and the
  furthest stage reached without a gap). A proof has private fields, so outside of tests
  \<open>verify_stage_proof\<close> is the only way to obtain one.
\<close>

section \<open>Types\<close>

record Narrative =
  na_narrative_key :: string
  na_token :: "string option"
  na_name_fingerprint :: string
  na_origin_evidence :: "string option"

record NarrativeEdge =
  ne_from_key :: string
  ne_to_key :: string
  ne_role :: ProvenanceRole
  ne_truth_status :: ProvenanceTruthStatus
  ne_evidence_ref :: "string option"
  ne_confidence :: "f64 option"

datatype ProvenanceStage = DeployFirstLiquidity | MetadataFingerprint | LocalArchiveSearch
  | ExactAliasWebXTiktokSearch | OcrAsrImagePhoneticExpansion | EarliestEvidence
  | OriginAdoptionPropagationGraph

record NarrativeResolution =
  nr_narrative_key :: string
  nr_resolved_stage :: ProvenanceStage
  nr_originator :: "string option"
  nr_independent_spread :: "string list"
  nr_official_adopter :: "string option"
  nr_market_leading_contract :: "string option"

datatype StageArtifactKind = EvidenceRef | GraphAssemblyRecord

record VerifiedStageProof =
  vp_narrative_key :: string
  vp_run_id :: string
  vp_stage :: ProvenanceStage
  vp_artifact_id :: string
  vp_artifact_kind :: StageArtifactKind

section \<open>Operations\<close>

definition verify_stage_proof ::
  "string \<Rightarrow> string \<Rightarrow> ProvenanceStage \<Rightarrow> string \<Rightarrow> StageArtifactKind \<Rightarrow> string list \<Rightarrow> string list \<Rightarrow>
     VerifiedStageProof option" where
  "verify_stage_proof narrative_key run_id stage artifact_id artifact_kind evidence_refs graph_records =
     (if is_blank narrative_key \<or> is_blank run_id \<or> is_blank artifact_id then None
      else if \<not> (case stage of
                  EarliestEvidence \<Rightarrow> artifact_kind = EvidenceRef \<and> artifact_id \<in> set evidence_refs
                | OriginAdoptionPropagationGraph \<Rightarrow>
                    artifact_kind = GraphAssemblyRecord \<and> artifact_id \<in> set graph_records
                | _ \<Rightarrow> True) then None
      else Some \<lparr>vp_narrative_key = narrative_key, vp_run_id = run_id, vp_stage = stage,
                 vp_artifact_id = artifact_id, vp_artifact_kind = artifact_kind\<rparr>)"

definition has_artifact :: "VerifiedStageProof \<Rightarrow> bool" where
  "has_artifact p \<longleftrightarrow> \<not> is_blank (vp_artifact_id p)"

fun provenance_stage_index :: "ProvenanceStage \<Rightarrow> nat" where
  "provenance_stage_index DeployFirstLiquidity = 0"
| "provenance_stage_index MetadataFingerprint = 1"
| "provenance_stage_index LocalArchiveSearch = 2"
| "provenance_stage_index ExactAliasWebXTiktokSearch = 3"
| "provenance_stage_index OcrAsrImagePhoneticExpansion = 4"
| "provenance_stage_index EarliestEvidence = 5"
| "provenance_stage_index OriginAdoptionPropagationGraph = 6"

definition provenance_can_advance :: "ProvenanceStage \<Rightarrow> ProvenanceStage \<Rightarrow> bool" where
  "provenance_can_advance current nxt \<longleftrightarrow> provenance_stage_index current < provenance_stage_index nxt"

definition kind_ok :: "VerifiedStageProof \<Rightarrow> bool" where
  "kind_ok proof' =
     (case vp_stage proof' of
        EarliestEvidence \<Rightarrow> vp_artifact_kind proof' = EvidenceRef
      | OriginAdoptionPropagationGraph \<Rightarrow> vp_artifact_kind proof' = GraphAssemblyRecord
      | _ \<Rightarrow> True)"

fun contiguous_loop :: "string \<Rightarrow> nat \<Rightarrow> ProvenanceStage \<Rightarrow> VerifiedStageProof list \<Rightarrow> ProvenanceStage" where
  "contiguous_loop narrative_key expected last_stage [] = last_stage"
| "contiguous_loop narrative_key expected last_stage (p # completed) =
     (if vp_narrative_key p \<noteq> narrative_key then last_stage
      else if provenance_stage_index (vp_stage p) \<noteq> expected then last_stage
      else if \<not> has_artifact p then last_stage
      else if \<not> kind_ok p then last_stage
      else contiguous_loop narrative_key (expected + 1) (vp_stage p) completed)"

definition contiguous_stage :: "string \<Rightarrow> VerifiedStageProof list \<Rightarrow> ProvenanceStage" where
  "contiguous_stage narrative_key completed = contiguous_loop narrative_key 0 DeployFirstLiquidity completed"

record role_acc =
  ra_originator :: "string option"
  ra_official_adopter :: "string option"
  ra_market_leading :: "string option"
  ra_spread :: "string list"

definition resolve_edge :: "role_acc \<Rightarrow> NarrativeEdge \<Rightarrow> role_acc" where
  "resolve_edge acc e =
     (case ne_role e of
        Originator \<Rightarrow> if ra_originator acc = None then acc\<lparr>ra_originator := Some (ne_from_key e)\<rparr> else acc
      | OfficialAdopter \<Rightarrow>
          if ra_official_adopter acc = None then acc\<lparr>ra_official_adopter := Some (ne_from_key e)\<rparr> else acc
      | MarketLeadingContract \<Rightarrow>
          if ra_market_leading acc = None then acc\<lparr>ra_market_leading := Some (ne_from_key e)\<rparr> else acc
      | IndependentSpread \<Rightarrow> acc\<lparr>ra_spread := ra_spread acc @ [ne_from_key e]\<rparr>
      | _ \<Rightarrow> acc)"

definition resolve :: "string \<Rightarrow> NarrativeEdge list \<Rightarrow> VerifiedStageProof list \<Rightarrow> NarrativeResolution" where
  "resolve narrative_key edges completed_stages =
     (let acc = foldl resolve_edge
            \<lparr>ra_originator = None, ra_official_adopter = None, ra_market_leading = None, ra_spread = []\<rparr> edges
      in \<lparr>nr_narrative_key = narrative_key,
          nr_resolved_stage = contiguous_stage narrative_key completed_stages,
          nr_originator = ra_originator acc,
          nr_independent_spread = ra_spread acc,
          nr_official_adopter = ra_official_adopter acc,
          nr_market_leading_contract = ra_market_leading acc\<rparr>)"

section \<open>Stages\<close>

lemma provenance_stage_index_inj: "provenance_stage_index s = provenance_stage_index t \<Longrightarrow> s = t"
  by (cases s; cases t) simp_all

interpretation provenance_ladder: stage_ladder provenance_can_advance provenance_stage_index
  by unfold_locales (auto simp: provenance_can_advance_def provenance_stage_index_inj)

text \<open>A proof that counts for position \<open>i\<close> of the flow.\<close>

definition proof_counts :: "string \<Rightarrow> nat \<Rightarrow> VerifiedStageProof \<Rightarrow> bool" where
  "proof_counts nk i p \<longleftrightarrow>
     vp_narrative_key p = nk \<and> provenance_stage_index (vp_stage p) = i \<and> has_artifact p \<and> kind_ok p"

lemma contiguous_loop_Cons:
  "contiguous_loop nk i s (p # ps) = (if proof_counts nk i p then contiguous_loop nk (i + 1) (vp_stage p) ps else s)"
  by (simp add: proof_counts_def)

text \<open>The loop stops after the longest prefix in which each proof counts for its position.\<close>

lemma contiguous_loop_prefix:
  "\<exists>k \<le> length ps. (\<forall>j < k. proof_counts nk (i + j) (ps ! j)) \<and>
     (k < length ps \<longrightarrow> \<not> proof_counts nk (i + k) (ps ! k)) \<and>
     contiguous_loop nk i s ps = (if k = 0 then s else vp_stage (ps ! (k - 1)))"
proof (induction ps arbitrary: i s)
  case (Cons p ps)
  show ?case
  proof (cases "proof_counts nk i p")
    case False
    then have "(\<forall>j < 0. proof_counts nk (i + j) ((p # ps) ! j)) \<and>
        \<not> proof_counts nk (i + 0) ((p # ps) ! 0) \<and> contiguous_loop nk i s (p # ps) = s"
      by (simp add: contiguous_loop_Cons del: contiguous_loop.simps)
    then show ?thesis by force
  next
    case True
    from Cons.IH [of "i + 1" "vp_stage p"] obtain k where k: "k \<le> length ps"
      "\<forall>j < k. proof_counts nk (i + 1 + j) (ps ! j)"
      "k < length ps \<longrightarrow> \<not> proof_counts nk (i + 1 + k) (ps ! k)"
      "contiguous_loop nk (i + 1) (vp_stage p) ps = (if k = 0 then vp_stage p else vp_stage (ps ! (k - 1)))"
      by blast
    have "\<forall>j < Suc k. proof_counts nk (i + j) ((p # ps) ! j)"
      using True k(2) by (auto simp: less_Suc_eq_0_disj)
    moreover have "Suc k < length (p # ps) \<longrightarrow> \<not> proof_counts nk (i + Suc k) ((p # ps) ! Suc k)"
      using k(3) by simp
    moreover have "contiguous_loop nk i s (p # ps) = vp_stage ((p # ps) ! k)"
      using True k(4) by (cases k) (simp_all add: contiguous_loop_Cons del: contiguous_loop.simps)
    ultimately show ?thesis using k(1) by (intro exI [where x = "Suc k"]) auto
  qed
qed simp

lemma contiguous_stage_supported:
  assumes "provenance_stage_index s \<le> provenance_stage_index (contiguous_stage nk ps)" "s \<noteq> DeployFirstLiquidity"
  shows "provenance_stage_index s < length ps \<and>
    proof_counts nk (provenance_stage_index s) (ps ! provenance_stage_index s)"
proof -
  obtain k where k: "k \<le> length ps" "\<forall>j < k. proof_counts nk j (ps ! j)"
    "contiguous_stage nk ps = (if k = 0 then DeployFirstLiquidity else vp_stage (ps ! (k - 1)))"
    using contiguous_loop_prefix [of ps nk 0 DeployFirstLiquidity] by (auto simp: contiguous_stage_def)
  have "provenance_stage_index s \<noteq> 0" using assms(2) by (cases s) simp_all
  moreover have "provenance_stage_index (contiguous_stage nk ps) \<le> k - 1"
  proof (cases "k = 0")
    case False
    then have "proof_counts nk (k - 1) (ps ! (k - 1))" using k(2) by simp
    with False k(3) show ?thesis by (simp add: proof_counts_def)
  qed (simp add: k(3))
  ultimately have "provenance_stage_index s < k" using assms(1) by linarith
  with k show ?thesis by simp
qed

lemma contiguous_loop_run_id:
  "contiguous_loop nk i s (map (\<lambda>p. p\<lparr>vp_run_id := f p\<rparr>) ps) = contiguous_loop nk i s ps"
proof -
  have "has_artifact (p\<lparr>vp_run_id := r\<rparr>) = has_artifact p" "kind_ok (p\<lparr>vp_run_id := r\<rparr>) = kind_ok p" for p r
    by (simp add: has_artifact_def) (cases "vp_stage p"; simp add: kind_ok_def)
  then show ?thesis by (induction nk i s ps rule: contiguous_loop.induct) simp_all
qed

definition stored_proof :: "string list \<Rightarrow> string list \<Rightarrow> VerifiedStageProof \<Rightarrow> bool" where
  "stored_proof ev gr p \<longleftrightarrow>
     verify_stage_proof (vp_narrative_key p) (vp_run_id p) (vp_stage p) (vp_artifact_id p)
       (vp_artifact_kind p) ev gr = Some p"

lemma stored_proof_iff:
  "stored_proof ev gr p \<longleftrightarrow>
     (\<exists>nk r s a k. verify_stage_proof nk r s a k ev gr = Some p)"
proof
  assume "\<exists>nk r s a k. verify_stage_proof nk r s a k ev gr = Some p"
  then obtain nk r s a k where v: "verify_stage_proof nk r s a k ev gr = Some p" by blast
  then have "p = \<lparr>vp_narrative_key = nk, vp_run_id = r, vp_stage = s, vp_artifact_id = a, vp_artifact_kind = k\<rparr>"
    by (simp add: verify_stage_proof_def split: if_splits)
  with v show "stored_proof ev gr p" unfolding stored_proof_def by simp
qed (unfold stored_proof_def, blast)

text \<open>C7: No provenance stage is claimed without proof. When all proofs come from the verifying
  constructor, every stage up to the resolved one (the first excepted, which needs none) has its
  own proof at its own position, bound to this narrative and with a non-blank artifact; reaching
  the earliest-evidence stage means that its artifact is in the evidence store, and reaching the
  final graph that its artifact is a recorded graph assembly; and with no proofs the resolution
  stays at the first stage. The run a proof belongs to plays no part: replacing every run id
  leaves the resolution unchanged.\<close>

theorem provenance_needs_proof:
  assumes "\<forall>p \<in> set ps. \<exists>nk' r s a k. verify_stage_proof nk' r s a k ev gr = Some p"
  shows "(\<forall>s. s \<noteq> DeployFirstLiquidity \<and>
        provenance_stage_index s \<le> provenance_stage_index (nr_resolved_stage (resolve nk es ps)) \<longrightarrow>
      (\<exists>p \<in> set ps. ps ! provenance_stage_index s = p \<and> vp_stage p = s \<and> vp_narrative_key p = nk \<and>
         \<not> is_blank (vp_artifact_id p))) \<and>
    (provenance_stage_index EarliestEvidence \<le> provenance_stage_index (nr_resolved_stage (resolve nk es ps)) \<longrightarrow>
       vp_artifact_id (ps ! 5) \<in> set ev) \<and>
    (nr_resolved_stage (resolve nk es ps) = OriginAdoptionPropagationGraph \<longrightarrow> vp_artifact_id (ps ! 6) \<in> set gr) \<and>
    nr_resolved_stage (resolve nk es []) = DeployFirstLiquidity \<and>
    nr_resolved_stage (resolve nk es (map (\<lambda>p. p\<lparr>vp_run_id := f p\<rparr>) ps)) = nr_resolved_stage (resolve nk es ps)"
proof -
  let ?st = "contiguous_stage nk ps"
  have res: "nr_resolved_stage (resolve nk es qs) = contiguous_stage nk qs" for qs
    by (simp add: resolve_def Let_def)
  have at: "ps ! provenance_stage_index s \<in> set ps \<and> vp_stage (ps ! provenance_stage_index s) = s \<and>
      vp_narrative_key (ps ! provenance_stage_index s) = nk \<and> \<not> is_blank (vp_artifact_id (ps ! provenance_stage_index s))"
    if "s \<noteq> DeployFirstLiquidity" "provenance_stage_index s \<le> provenance_stage_index ?st" for s
    using contiguous_stage_supported [OF that(2,1)] provenance_stage_index_inj
    by (auto simp: proof_counts_def has_artifact_def)
  have stored: "stored_proof ev gr p" if "p \<in> set ps" for p
    using assms that by (simp add: stored_proof_iff)
  have ev: "vp_artifact_id (ps ! 5) \<in> set ev"
    if "provenance_stage_index EarliestEvidence \<le> provenance_stage_index ?st"
    using at [of EarliestEvidence] that stored [of "ps ! 5"]
    by (auto simp: stored_proof_def verify_stage_proof_def split: if_splits)
  have gr: "vp_artifact_id (ps ! 6) \<in> set gr" if "?st = OriginAdoptionPropagationGraph"
    using at [of OriginAdoptionPropagationGraph] that stored [of "ps ! 6"]
    by (auto simp: stored_proof_def verify_stage_proof_def split: if_splits)
  have "contiguous_stage nk (map (\<lambda>p. p\<lparr>vp_run_id := f p\<rparr>) ps) = ?st"
    by (simp add: contiguous_stage_def contiguous_loop_run_id)
  with at ev gr show ?thesis unfolding res by (auto simp: contiguous_stage_def)
qed

definition sample_proof :: "ProvenanceStage \<Rightarrow> VerifiedStageProof" where
  "sample_proof s = \<lparr>vp_narrative_key = ''n'', vp_run_id = ''r'', vp_stage = s,
     vp_artifact_id = ''a'', vp_artifact_kind = EvidenceRef\<rparr>"

theorem provenance_needs_proof_witness:
  "nr_resolved_stage (resolve ''n'' [] (map (\<lambda>p. p\<lparr>vp_run_id := ''other''\<rparr>)
     [sample_proof DeployFirstLiquidity, sample_proof MetadataFingerprint])) = MetadataFingerprint \<and>
   vp_stage ([sample_proof DeployFirstLiquidity, sample_proof MetadataFingerprint] ! 1) = MetadataFingerprint"
proof -
  let ?ps = "[sample_proof DeployFirstLiquidity, sample_proof MetadataFingerprint]"
  have "verify_stage_proof ''n'' ''r'' DeployFirstLiquidity ''a'' EvidenceRef [] [] = Some (sample_proof DeployFirstLiquidity)"
    "verify_stage_proof ''n'' ''r'' MetadataFingerprint ''a'' EvidenceRef [] [] = Some (sample_proof MetadataFingerprint)"
    by (simp_all add: verify_stage_proof_def sample_proof_def is_blank_iff is_whitespace_def)
  then have all: "\<forall>p \<in> set ?ps. \<exists>nk' r s a k. verify_stage_proof nk' r s a k [] [] = Some p"
    by (simp only: list.set ball_simps(7) simp_thms) blast
  have "nr_resolved_stage (resolve ''n'' [] ?ps) = MetadataFingerprint"
    by (simp add: resolve_def contiguous_stage_def sample_proof_def has_artifact_def kind_ok_def is_blank_iff
        is_whitespace_def)
  with provenance_needs_proof [OF all, of "''n''" "[]" "\<lambda>_. ''other''"] show ?thesis
    by (simp add: sample_proof_def)
qed

section \<open>Roles\<close>

text \<open>The roles of a resolution are the first edge of the role, or all of them for the spread.\<close>

definition first_role :: "ProvenanceRole \<Rightarrow> NarrativeEdge list \<Rightarrow> string option" where
  "first_role r edges = map_option ne_from_key (find (\<lambda>e. ne_role e = r) edges)"

lemma resolve_edges_roles:
  "foldl resolve_edge acc es =
     \<lparr>ra_originator = or_else (ra_originator acc) (first_role Originator es),
      ra_official_adopter = or_else (ra_official_adopter acc) (first_role OfficialAdopter es),
      ra_market_leading = or_else (ra_market_leading acc) (first_role MarketLeadingContract es),
      ra_spread = ra_spread acc @ map ne_from_key (filter (\<lambda>e. ne_role e = IndependentSpread) es),
      \<dots> = role_acc.more acc\<rparr>"
proof (induction es arbitrary: acc)
  case (Cons e es)
  then show ?case
    by (cases "ne_role e") (auto simp: resolve_edge_def first_role_def or_else_def split: option.splits)
qed (simp add: first_role_def or_else_def split: option.splits)

lemma resolve_roles:
  "nr_originator (resolve nk es ps) = first_role Originator es"
  "nr_official_adopter (resolve nk es ps) = first_role OfficialAdopter es"
  "nr_market_leading_contract (resolve nk es ps) = first_role MarketLeadingContract es"
  "nr_independent_spread (resolve nk es ps) = map ne_from_key (filter (\<lambda>e. ne_role e = IndependentSpread) es)"
  by (simp_all add: resolve_def Let_def resolve_edges_roles)

end
