(* ===== verification/Queues.thy ===== *)
theory Queues
  imports Prelude
begin

text \<open>
  Queue backpressure, \<^verbatim>\<open>src/queues.rs\<close>: six queues in fixed precedence and the routine that pauses
  them from the bottom upward. The ordered maps are association lists; \<open>insert\<close> replaces the slot
  of its key.
\<close>

definition QUEUE_LIVE_WATCH :: string where "QUEUE_LIVE_WATCH = ''live_watch''"
definition QUEUE_FUNDING_RADAR :: string where "QUEUE_FUNDING_RADAR = ''funding_radar''"
definition QUEUE_TELEGRAM_INGEST :: string where "QUEUE_TELEGRAM_INGEST = ''telegram_ingest''"
definition QUEUE_SEED_SYNC :: string where "QUEUE_SEED_SYNC = ''seed_sync''"
definition QUEUE_HISTORICAL_BACKFILL :: string where "QUEUE_HISTORICAL_BACKFILL = ''historical_backfill''"
definition QUEUE_SIGNAL_EVAL :: string where "QUEUE_SIGNAL_EVAL = ''signal_eval''"

definition ALL_QUEUES :: "string list" where
  "ALL_QUEUES = [QUEUE_LIVE_WATCH, QUEUE_FUNDING_RADAR, QUEUE_TELEGRAM_INGEST, QUEUE_SEED_SYNC,
     QUEUE_HISTORICAL_BACKFILL, QUEUE_SIGNAL_EVAL]"

record QueueState =
  paused :: "(string \<times> bool) list"
  lag_seconds :: "(string \<times> nat) list"

definition new_queue_state :: QueueState where
  "new_queue_state = \<lparr>paused = [], lag_seconds = []\<rparr>"

definition is_paused :: "QueueState \<Rightarrow> string \<Rightarrow> bool" where
  "is_paused st queue = (case map_of (paused st) queue of None \<Rightarrow> False | Some p \<Rightarrow> p)"

definition set_paused :: "string \<Rightarrow> bool \<Rightarrow> QueueState \<Rightarrow> QueueState" where
  "set_paused queue p st = st\<lparr>paused := hm_modify queue (\<lambda>_. p) (paused st)\<rparr>"

definition set_lag :: "string \<Rightarrow> nat \<Rightarrow> QueueState \<Rightarrow> QueueState" where
  "set_lag queue seconds st = st\<lparr>lag_seconds := hm_modify queue (\<lambda>_. seconds) (lag_seconds st)\<rparr>"

definition paused_count :: "QueueState \<Rightarrow> nat" where
  "paused_count st = length (filter snd (paused st))"

fun pause_loop :: "nat \<Rightarrow> string list \<Rightarrow> nat \<Rightarrow> QueueState \<Rightarrow> QueueState" where
  "pause_loop target [] count st = st"
| "pause_loop target (queue # queues) count st =
     (if target \<le> count then st
      else if queue = QUEUE_LIVE_WATCH then pause_loop target queues count st
      else if \<not> is_paused st queue then pause_loop target queues (count + 1) (set_paused queue True st)
      else pause_loop target queues count st)"

definition pause_bottom_up :: "nat \<Rightarrow> QueueState \<Rightarrow> QueueState" where
  "pause_bottom_up target st = pause_loop target (rev ALL_QUEUES) (paused_count st) st"

definition resume_all :: "QueueState \<Rightarrow> QueueState" where
  "resume_all st = foldl (\<lambda>s queue. set_paused queue False s) st ALL_QUEUES"

definition backfill_allowed :: "QueueState \<Rightarrow> nat \<Rightarrow> bool" where
  "backfill_allowed st pause_lag_seconds =
     (let lag = (case map_of (lag_seconds st) QUEUE_HISTORICAL_BACKFILL of None \<Rightarrow> 0 | Some l \<Rightarrow> l)
      in \<not> is_paused st QUEUE_HISTORICAL_BACKFILL \<and> lag < pause_lag_seconds)"

section \<open>Pausing\<close>

lemmas queue_names = QUEUE_LIVE_WATCH_def QUEUE_FUNDING_RADAR_def QUEUE_TELEGRAM_INGEST_def
  QUEUE_SEED_SYNC_def QUEUE_HISTORICAL_BACKFILL_def QUEUE_SIGNAL_EVAL_def

lemma ALL_QUEUES_distinct: "distinct ALL_QUEUES"
  by (simp add: ALL_QUEUES_def queue_names)

lemma is_paused_set [simp]: "is_paused (set_paused q p st) q' = (if q' = q then p else is_paused st q')"
  by (simp add: is_paused_def set_paused_def)

lemma paused_count_set: "\<not> is_paused st q \<Longrightarrow> paused_count (set_paused q True st) = Suc (paused_count st)"
proof -
  have "map_of m q \<noteq> Some True \<Longrightarrow>
      length (filter snd (hm_modify q (\<lambda>_. True) m)) = Suc (length (filter snd m))" for m
    by (induction m) (auto split: if_splits)
  then show "\<not> is_paused st q \<Longrightarrow> ?thesis"
    by (auto simp: is_paused_def paused_count_def set_paused_def split: option.splits)
qed

lemma set_paused_lag [simp]: "lag_seconds (set_paused q p st) = lag_seconds st"
  by (simp add: set_paused_def)

text \<open>What the loop does to the queues it is given, in their order.\<close>

definition pause_post :: "nat \<Rightarrow> string list \<Rightarrow> QueueState \<Rightarrow> QueueState \<Rightarrow> bool" where
  "pause_post target qs st st' \<longleftrightarrow>
     is_paused st' QUEUE_LIVE_WATCH = is_paused st QUEUE_LIVE_WATCH \<and>
     (\<forall>q. is_paused st q \<longrightarrow> is_paused st' q) \<and>
     (\<forall>q. is_paused st' q \<and> \<not> is_paused st q \<longrightarrow>
        q \<in> set qs \<and> (\<forall>q' \<in> set (takeWhile (\<lambda>x. x \<noteq> q) qs). q' \<noteq> QUEUE_LIVE_WATCH \<longrightarrow> is_paused st' q')) \<and>
     (paused_count st' < target \<longrightarrow> (\<forall>q \<in> set qs. q \<noteq> QUEUE_LIVE_WATCH \<longrightarrow> is_paused st' q)) \<and>
     paused_count st' \<le> max (paused_count st) target \<and>
     lag_seconds st' = lag_seconds st"

lemma pause_postI:
  assumes "is_paused st' QUEUE_LIVE_WATCH = is_paused st QUEUE_LIVE_WATCH"
    and "\<And>q. is_paused st q \<Longrightarrow> is_paused st' q"
    and "\<And>q. is_paused st' q \<Longrightarrow> \<not> is_paused st q \<Longrightarrow> q \<in> set qs"
    and "\<And>q q'. is_paused st' q \<Longrightarrow> \<not> is_paused st q \<Longrightarrow> q' \<in> set (takeWhile (\<lambda>x. x \<noteq> q) qs) \<Longrightarrow>
           q' \<noteq> QUEUE_LIVE_WATCH \<Longrightarrow> is_paused st' q'"
    and "\<And>q. paused_count st' < target \<Longrightarrow> q \<in> set qs \<Longrightarrow> q \<noteq> QUEUE_LIVE_WATCH \<Longrightarrow> is_paused st' q"
    and "paused_count st' \<le> max (paused_count st) target" and "lag_seconds st' = lag_seconds st"
  shows "pause_post target qs st st'"
  unfolding pause_post_def using assms by blast

lemma pause_postD:
  assumes "pause_post target qs st st'"
  shows "is_paused st' QUEUE_LIVE_WATCH = is_paused st QUEUE_LIVE_WATCH"
    and "is_paused st q \<Longrightarrow> is_paused st' q"
    and "is_paused st' q \<Longrightarrow> \<not> is_paused st q \<Longrightarrow> q \<in> set qs"
    and "is_paused st' q \<Longrightarrow> \<not> is_paused st q \<Longrightarrow> q' \<in> set (takeWhile (\<lambda>x. x \<noteq> q) qs) \<Longrightarrow>
           q' \<noteq> QUEUE_LIVE_WATCH \<Longrightarrow> is_paused st' q'"
    and "paused_count st' < target \<Longrightarrow> q \<in> set qs \<Longrightarrow> q \<noteq> QUEUE_LIVE_WATCH \<Longrightarrow> is_paused st' q"
    and "paused_count st' \<le> max (paused_count st) target" and "lag_seconds st' = lag_seconds st"
  using assms unfolding pause_post_def by blast+

lemma pause_post_skip:
  assumes P: "pause_post target qs st st'" and q: "q = QUEUE_LIVE_WATCH \<or> is_paused st q"
  shows "pause_post target (q # qs) st st'"
proof (rule pause_postI)
  have q': "q \<noteq> QUEUE_LIVE_WATCH \<Longrightarrow> is_paused st' q" using pause_postD(2) [OF P] q by blast
  fix x assume x: "is_paused st' x" "\<not> is_paused st x"
  show "x \<in> set (q # qs)" using pause_postD(3) [OF P x] by simp
  have "x \<noteq> q" using pause_postD(1) [OF P] q x by blast
  then show "is_paused st' y" if "y \<in> set (takeWhile (\<lambda>z. z \<noteq> x) (q # qs))" "y \<noteq> QUEUE_LIVE_WATCH" for y
    using that q' pause_postD(4) [OF P x, of y] by auto
next
  fix x assume "paused_count st' < target" "x \<in> set (q # qs)" "x \<noteq> QUEUE_LIVE_WATCH"
  then show "is_paused st' x" using pause_postD(2) [OF P, of q] pause_postD(5) [OF P, of x] q by auto
qed (rule pause_postD [OF P]; assumption?)+

lemma pause_post_pause:
  assumes P: "pause_post target qs (set_paused q True st) st'"
    and q: "q \<noteq> QUEUE_LIVE_WATCH" "\<not> is_paused st q" "paused_count st < target"
  shows "pause_post target (q # qs) st st'"
proof (rule pause_postI)
  have q': "is_paused st' q" using pause_postD(2) [OF P, of q] by simp
  show "is_paused st' x" if "is_paused st x" for x using pause_postD(2) [OF P, of x] that by simp
  show "is_paused st' QUEUE_LIVE_WATCH = is_paused st QUEUE_LIVE_WATCH" using pause_postD(1) [OF P] q(1) by simp
  show "paused_count st' \<le> max (paused_count st) target"
    using pause_postD(6) [OF P] q by (simp add: paused_count_set)
  show "lag_seconds st' = lag_seconds st" using pause_postD(7) [OF P] by simp
  show "is_paused st' x" if "paused_count st' < target" "x \<in> set (q # qs)" "x \<noteq> QUEUE_LIVE_WATCH" for x
    using pause_postD(5) [OF P, of x] that q' by auto
  fix x assume x: "is_paused st' x" "\<not> is_paused st x"
  show "x \<in> set (q # qs)" using pause_postD(3) [OF P x(1)] x(2) by (cases "x = q") simp_all
  show "is_paused st' y" if "y \<in> set (takeWhile (\<lambda>z. z \<noteq> x) (q # qs))" "y \<noteq> QUEUE_LIVE_WATCH" for y
    using that q' x(2) pause_postD(4) [OF P x(1), of y] by (cases "x = q") auto
qed

lemma pause_loop_post: "pause_post target qs st (pause_loop target qs (paused_count st) st)"
proof (induction qs arbitrary: st)
  case (Cons q qs)
  consider (full) "target \<le> paused_count st" | (live) "paused_count st < target" "q = QUEUE_LIVE_WATCH"
    | (pause) "paused_count st < target" "q \<noteq> QUEUE_LIVE_WATCH" "\<not> is_paused st q"
    | (was) "paused_count st < target" "q \<noteq> QUEUE_LIVE_WATCH" "is_paused st q" by linarith
  then show ?case
  proof cases
    case full
    then show ?thesis by (simp add: pause_post_def)
  next
    case live
    with pause_post_skip [OF Cons.IH [of st]] show ?thesis by simp
  next
    case pause
    with pause_post_pause [OF Cons.IH [of "set_paused q True st"]] show ?thesis by (simp add: paused_count_set)
  next
    case was
    with pause_post_skip [OF Cons.IH [of st]] show ?thesis by simp
  qed
qed (simp add: pause_post_def)

lemma takeWhile_rev_nth:
  assumes "distinct xs" "i < j" "j < length xs"
  shows "xs ! j \<in> set (takeWhile (\<lambda>x. x \<noteq> xs ! i) (rev xs))"
proof -
  have "rev xs = rev (drop (Suc i) xs) @ xs ! i # rev (take i xs)"
    using assms by (metis Suc_lessD id_take_nth_drop less_trans_Suc rev.simps(2) rev_append append.assoc append_Cons append_Nil)
  moreover have "\<forall>x \<in> set (drop (Suc i) xs). x \<noteq> xs ! i"
    using assms by (auto simp: in_set_conv_nth nth_eq_iff_index_eq)
  ultimately have "takeWhile (\<lambda>x. x \<noteq> xs ! i) (rev xs) = rev (drop (Suc i) xs)"
    by (simp add: takeWhile_append2 takeWhile_tail)
  moreover have "xs ! j \<in> set (drop (Suc i) xs)"
    using assms by (auto simp: in_set_conv_nth intro!: exI [where x = "j - Suc i"])
  ultimately show ?thesis by simp
qed

text \<open>Backpressure pauses queues strictly from the bottom and never the live watch. Pausing to a
  target leaves the live watch and every lag as they were and resumes nothing; whenever it pauses
  a queue, every queue of lower precedence is paused as well; it stops at the target, and falls
  short of it only when everything but the live watch is paused; and resuming clears every queue,
  while a paused backfill is never allowed to run.\<close>

theorem backpressure_is_bottom_up:
  "is_paused (pause_bottom_up n st) QUEUE_LIVE_WATCH = is_paused st QUEUE_LIVE_WATCH \<and>
   lag_seconds (pause_bottom_up n st) = lag_seconds st \<and>
   (is_paused st q \<longrightarrow> is_paused (pause_bottom_up n st) q) \<and>
   (i < j \<and> j < length ALL_QUEUES \<and> is_paused (pause_bottom_up n st) (ALL_QUEUES ! i) \<and>
      \<not> is_paused st (ALL_QUEUES ! i) \<longrightarrow> is_paused (pause_bottom_up n st) (ALL_QUEUES ! j)) \<and>
   paused_count (pause_bottom_up n st) \<le> max (paused_count st) n \<and>
   (paused_count (pause_bottom_up n st) < n \<longrightarrow>
      (\<forall>q \<in> set ALL_QUEUES. q \<noteq> QUEUE_LIVE_WATCH \<longrightarrow> is_paused (pause_bottom_up n st) q)) \<and>
   (\<forall>q \<in> set ALL_QUEUES. \<not> is_paused (resume_all st) q) \<and>
   (is_paused st QUEUE_HISTORICAL_BACKFILL \<longrightarrow> \<not> backfill_allowed st lag)"
proof -
  have post: "pause_post n (rev ALL_QUEUES) st (pause_bottom_up n st)"
    unfolding pause_bottom_up_def by (rule pause_loop_post)
  have low: "is_paused (pause_bottom_up n st) (ALL_QUEUES ! j)"
    if "i < j" "j < length ALL_QUEUES" "is_paused (pause_bottom_up n st) (ALL_QUEUES ! i)" "\<not> is_paused st (ALL_QUEUES ! i)"
  proof -
    have "ALL_QUEUES ! j \<in> set (takeWhile (\<lambda>x. x \<noteq> ALL_QUEUES ! i) (rev ALL_QUEUES))"
      by (rule takeWhile_rev_nth [OF ALL_QUEUES_distinct that(1,2)])
    moreover have "ALL_QUEUES ! j \<noteq> QUEUE_LIVE_WATCH"
      using nth_eq_iff_index_eq [OF ALL_QUEUES_distinct, of j 0] that by (simp add: ALL_QUEUES_def)
    ultimately show ?thesis using pause_postD(4) [OF post that(3,4)] by blast
  qed
  have "\<forall>q \<in> set ALL_QUEUES. \<not> is_paused (resume_all st) q"
    by (simp add: resume_all_def ALL_QUEUES_def)
  moreover have "\<not> backfill_allowed st lag" if "is_paused st QUEUE_HISTORICAL_BACKFILL"
    using that by (simp add: backfill_allowed_def Let_def)
  ultimately show ?thesis
    using low pause_postD(1,2,6,7) [OF post] pause_postD(5) [OF post, unfolded set_rev] by blast
qed

theorem backpressure_is_bottom_up_witness:
  "is_paused (pause_bottom_up 2 new_queue_state) QUEUE_SIGNAL_EVAL \<and>
   \<not> is_paused (pause_bottom_up 2 new_queue_state) QUEUE_LIVE_WATCH"
proof -
  have "is_paused (pause_bottom_up 2 new_queue_state) (ALL_QUEUES ! 4)"
    by (simp add: pause_bottom_up_def ALL_QUEUES_def new_queue_state_def is_paused_def set_paused_def paused_count_def
        queue_names)
  moreover have "\<not> is_paused new_queue_state q" for q by (simp add: is_paused_def new_queue_state_def)
  ultimately show ?thesis
    using backpressure_is_bottom_up [of 2 new_queue_state q 4 5] by (simp add: ALL_QUEUES_def)
qed

end
