(* ===== verification/Views.thy ===== *)
theory Views
  imports Core Float64
begin

text \<open>
  Small pure components over the evidence: the entity graph (\<^verbatim>\<open>src/sf/graph.rs\<close>,
  \<^verbatim>\<open>src/sf/graph_runtime.rs\<close>), caller reputation (\<^verbatim>\<open>src/sf/caller.rs\<close>,
  \<^verbatim>\<open>src/sf/caller_runtime.rs\<close>), liquidity pools (\<^verbatim>\<open>src/sf/lp.rs\<close>, \<^verbatim>\<open>src/sf/lp_runtime.rs\<close>),
  dashboard projections (\<^verbatim>\<open>src/sf/dashboard.rs\<close>, \<^verbatim>\<open>src/sf/dashboard_runtime.rs\<close>) and browser
  captures (\<^verbatim>\<open>src/sf/browser.rs\<close>, \<^verbatim>\<open>src/sf/browser_runtime.rs\<close>). The RFC 3339 reader \<open>ts\<close> and the
  floating-point reader are arguments.
\<close>

section \<open>Entity graph\<close>

datatype NodeType = NodeToken | NodeContract | NodeTokenFamily | NodeWallet | NodeWalletCluster
  | NodeCaller | NodeSourceAccount | NodePost | NodeMessage | NodeExternalEvent | NodeNarrative
  | NodePool | NodePosition | NodeStrategy | NodePolicy | NodeDecision | NodeIntent | NodeExecution

datatype EdgeType = EdgeDeployedBy | EdgeFundedBy | EdgeCalledBy | EdgeAmplifiedBy | EdgeDerivedFrom
  | EdgeOfficiallyAdoptedBy | EdgeFirstLiquidOn | EdgeHolds | EdgeSwapped | EdgeLpProvided
  | EdgeSameFamilyAs | EdgeEvidencedBy | EdgeResultedIn | EdgeSameDeployer | EdgeSameAuthority
  | EdgeSameFeePayer | EdgeSameFunder | EdgeSameSocialAccount | EdgeReusedSocialLink
  | EdgeOfficialCaAnnouncement | EdgeCrossChainDeployment | EdgeSuspectedCopycat
  | EdgeLiquidityAttentionRotatedTo

record EntityNode =
  en_entity_key :: string
  en_node_type :: NodeType

record EntityEdge =
  ee_from_entity_key :: string
  ee_to_entity_key :: string
  ee_edge_type :: EdgeType
  ee_occurred_at :: string
  ee_source_id :: "string option"
  ee_truth_status :: TruthStatus
  ee_confidence :: "f64 option"
  ee_valid_from :: string
  ee_valid_until :: "string option"
  ee_supersedes :: "string option"
  ee_evidence_refs :: "string list"

definition is_edge_valid :: "(string \<Rightarrow> int option) \<Rightarrow> EntityEdge \<Rightarrow> int \<Rightarrow> bool" where
  "is_edge_valid ts edge now_secs =
     (case ts (ee_valid_from edge) of
        None \<Rightarrow> False
      | Some from' \<Rightarrow>
          if now_secs < from' then False
          else (case ee_valid_until edge of
                  Some until \<Rightarrow> (case ts until of None \<Rightarrow> False | Some u \<Rightarrow> now_secs \<le> u)
                | None \<Rightarrow> True))"

definition is_false_confluence :: "EntityEdge \<Rightarrow> EntityEdge \<Rightarrow> bool" where
  "is_false_confluence a b =
     (if ee_from_entity_key a \<noteq> ee_from_entity_key b \<or> ee_to_entity_key a \<noteq> ee_to_entity_key b \<or>
         ee_edge_type a \<noteq> ee_edge_type b then False
      else
        (let disjoint = list_all (\<lambda>r. r \<notin> set (ee_evidence_refs b)) (ee_evidence_refs a) \<and>
               ee_evidence_refs a \<noteq> [] \<and> ee_evidence_refs b \<noteq> [];
             low_confidence =
               (case (ee_confidence a, ee_confidence b) of
                  (Some ca, Some cb) \<Rightarrow> f64_lt ca (Fin (1 / 2)) \<and> f64_lt cb (Fin (1 / 2))
                | _ \<Rightarrow> False);
             non_confirmed = ee_truth_status a \<noteq> TruthConfirmed \<and> ee_truth_status b \<noteq> TruthConfirmed
         in disjoint \<and> low_confidence \<and> non_confirmed))"

definition neighbor_keys :: "EntityNode \<Rightarrow> EntityEdge list \<Rightarrow> EdgeType \<Rightarrow> string list" where
  "neighbor_keys node edges t =
     concat (map (\<lambda>e. filter (\<lambda>k. k \<noteq> en_entity_key node) [ee_from_entity_key e, ee_to_entity_key e])
       (filter (\<lambda>e. ee_edge_type e = t \<and>
          (ee_from_entity_key e = en_entity_key node \<or> ee_to_entity_key e = en_entity_key node)) edges))"

definition neighbor_count :: "EntityNode \<Rightarrow> EntityEdge list \<Rightarrow> EdgeType \<Rightarrow> nat" where
  "neighbor_count node edges t = card (set (neighbor_keys node edges t))"

text \<open>Two entities are adjacent when an edge of the type joins them, in either direction.\<close>

definition adjacent :: "EntityEdge list \<Rightarrow> EdgeType \<Rightarrow> string \<Rightarrow> string \<Rightarrow> bool" where
  "adjacent edges t u v \<longleftrightarrow>
     (\<exists>e \<in> set edges. ee_edge_type e = t \<and> {ee_from_entity_key e, ee_to_entity_key e} = {u, v})"

lemma neighbor_keys_set:
  "set (neighbor_keys node edges t) = {k. k \<noteq> en_entity_key node \<and> adjacent edges t (en_entity_key node) k}"
  by (auto simp: neighbor_keys_def adjacent_def doubleton_eq_iff)

text \<open>The graph helpers count relations, not records, and flag only unconfirmed coincidences. The
  neighbour count is the number of other entities joined to the node by an edge of the type in
  either direction, so duplicate edges, their order and self-loops do not matter; false
  confluence is a symmetric relation between two records of one relationship, never flags a
  record against itself, and never involves a confirmed record or one whose confidence is
  missing or at least one half; and an edge is valid only inside a readable validity window.\<close>

theorem graph_counts_relations:
  "neighbor_count node edges t =
     card {k. k \<noteq> en_entity_key node \<and> adjacent edges t (en_entity_key node) k} \<and>
   (set edges = set edges' \<longrightarrow> neighbor_count node edges t = neighbor_count node edges' t) \<and>
   (is_false_confluence a b \<longleftrightarrow> is_false_confluence b a) \<and>
   \<not> is_false_confluence a a \<and>
   (is_false_confluence a b \<longrightarrow>
      ee_truth_status a \<noteq> TruthConfirmed \<and> ee_truth_status b \<noteq> TruthConfirmed \<and>
      set (ee_evidence_refs a) \<inter> set (ee_evidence_refs b) = {} \<and>
      (\<exists>c. ee_confidence a = Some c \<and> f64_lt c (Fin (1 / 2)))) \<and>
   (is_edge_valid ts a now \<longrightarrow>
      (\<exists>f. ts (ee_valid_from a) = Some f \<and> f \<le> now) \<and>
      (\<forall>u. ee_valid_until a = Some u \<longrightarrow> (\<exists>x. ts u = Some x \<and> now \<le> x)))"
proof (intro conjI impI)
  show "neighbor_count node edges t = card {k. k \<noteq> en_entity_key node \<and> adjacent edges t (en_entity_key node) k}"
    by (simp add: neighbor_count_def neighbor_keys_set)
  show "neighbor_count node edges t = neighbor_count node edges' t" if "set edges = set edges'"
    using that by (simp add: neighbor_count_def neighbor_keys_set adjacent_def)
  show "is_false_confluence a b \<longleftrightarrow> is_false_confluence b a"
    by (auto simp: is_false_confluence_def list_all_iff split: option.splits)
  show "\<not> is_false_confluence a a"
    by (auto simp: is_false_confluence_def list_all_iff neq_Nil_conv)
qed (auto simp: is_false_confluence_def is_edge_valid_def list_all_iff Let_def split: option.splits if_splits)

definition sample_edge :: "string \<Rightarrow> string list \<Rightarrow> EntityEdge" where
  "sample_edge v refs = \<lparr>ee_from_entity_key = ''a'', ee_to_entity_key = v, ee_edge_type = EdgeFundedBy,
     ee_occurred_at = [], ee_source_id = None, ee_truth_status = TruthUnknown, ee_confidence = Some (Fin 0),
     ee_valid_from = ''0'', ee_valid_until = None, ee_supersedes = None, ee_evidence_refs = refs\<rparr>"

theorem graph_counts_relations_witness:
  "is_false_confluence (sample_edge ''b'' [''x'']) (sample_edge ''b'' [''y'']) \<and>
   ee_truth_status (sample_edge ''b'' [''x'']) \<noteq> TruthConfirmed"
  using graph_counts_relations [of "\<lparr>en_entity_key = ''a'', en_node_type = NodeWallet\<rparr>" "[]" EdgeFundedBy "[]"
      "sample_edge ''b'' [''x'']" "sample_edge ''b'' [''y'']"]
  by (simp add: is_false_confluence_def sample_edge_def)

section \<open>Caller reputation\<close>

datatype CallerPlatform = PlatformTelegram | PlatformX | PlatformWeb | PlatformTiktok

record CallOutcome =
  co_mfe :: "f64 option"
  co_mae :: "f64 option"
  co_copy_entry :: "f64 option"
  co_copy_pnl :: "f64 option"
  co_outcome_window_days :: nat

record Call =
  ca_caller_id :: string
  ca_platform :: CallerPlatform
  ca_token :: string
  ca_occurred_at :: string
  ca_lead_time :: "string option"
  ca_immutable_t0_snapshot :: string
  ca_outcome :: "CallOutcome option"

record CallerReputation =
  cp_caller_id :: string
  cp_regime :: string
  cp_sample_size :: nat
  cp_sample_confidence :: "f64 option"
  cp_hit_rate :: "f64 option"
  cp_avg_mfe :: "f64 option"

record CallerPropagationEdge =
  ce_from_caller_id :: string
  ce_to_caller_id :: string
  ce_token :: string
  ce_occurred_at :: string
  ce_truth_status :: TruthStatus
  ce_confidence :: "f64 option"

definition MAX_OUTCOME_WINDOW_DAYS :: nat where
  "MAX_OUTCOME_WINDOW_DAYS = 21"

definition clamp_window_days :: "nat \<Rightarrow> nat" where
  "clamp_window_days days = min days MAX_OUTCOME_WINDOW_DAYS"

definition copy_pnl_of :: "Call \<Rightarrow> f64 option" where
  "copy_pnl_of c = Option.bind (ca_outcome c) co_copy_pnl"

definition nat_as_f64 :: "nat \<Rightarrow> f64" where
  "nat_as_f64 n = rnd (of_nat n)"

definition hit_rate :: "Call list \<Rightarrow> f64 option" where
  "hit_rate calls =
     (let resolved = filter (\<lambda>c. copy_pnl_of c \<noteq> None) calls
      in if resolved = [] then None
         else let hits = nat_as_f64 (length (filter (\<lambda>c. f64_gt (the (copy_pnl_of c)) (Fin 0)) resolved))
              in Some (f64_div hits (nat_as_f64 (length resolved))))"

definition average_mfe :: "Call list \<Rightarrow> f64 option" where
  "average_mfe calls =
     (let mfes = List.map_filter (\<lambda>c. Option.bind (ca_outcome c) co_mfe) calls
      in if mfes = [] then None
         else Some (f64_div (foldl f64_add (Fin 0) mfes) (nat_as_f64 (length mfes))))"

definition sample_confidence :: "nat \<Rightarrow> f64" where
  "sample_confidence n = f64_sub (Fin 1) (f64_div (Fin 1) (f64_add (nat_as_f64 n) (Fin 1)))"

definition build_reputation :: "string \<Rightarrow> string \<Rightarrow> Call list \<Rightarrow> CallerReputation" where
  "build_reputation caller_id regime calls =
     (let hr = hit_rate calls; amfe = average_mfe calls; n = as_u32 (length calls)
      in \<lparr>cp_caller_id = caller_id, cp_regime = regime, cp_sample_size = n,
          cp_sample_confidence = Some (sample_confidence n), cp_hit_rate = hr, cp_avg_mfe = amfe\<rparr>)"

lemma length_filter_eq_iff: "length (filter P xs) = length xs \<longleftrightarrow> (\<forall>x \<in> set xs. P x)"
proof (induction xs)
  case (Cons x xs)
  moreover have "length (filter P xs) \<noteq> Suc (length xs)" using length_filter_le [of P xs] by linarith
  ultimately show ?case by (cases "P x") simp_all
qed simp

lemma nat_as_f64_exact: "n \<le> 2 ^ 53 \<Longrightarrow> nat_as_f64 n = Fin (of_nat n)"
  using representable_int [of "int n"] by (simp add: nat_as_f64_def representable_def)

lemma representable_consts: "representable 0" "representable 1"
  using representable_int [of 0] representable_int [of 1] by simp_all

lemma representable_eps: "representable (1 / 2 ^ 32)" "representable (1 - 1 / 2 ^ 32)"
  using representable_dyadic [of 1 "- 32"] representable_dyadic [of "2 ^ 32 - 1" "- 32"]
  by (simp_all add: pow2_def field_simps)

text \<open>A quotient of counts rounds to a fraction, and reaches 0 and 1 only when exact.\<close>

lemma rnd_fraction:
  assumes "h \<le> l" "0 < l" "l \<le> 2 ^ 32"
  obtains v where "rnd (of_nat h / of_nat l) = Fin v" "0 \<le> v" "v \<le> 1"
    "v = 0 \<longleftrightarrow> h = 0" "v = 1 \<longleftrightarrow> h = l"
proof -
  let ?x = "of_nat h / of_nat l :: rat"
  have l: "(0 :: rat) < of_nat l" "(of_nat l :: rat) \<le> 2 ^ 32"
    using assms by (simp, metis of_nat_le_iff of_nat_numeral of_nat_power)
  have x: "0 \<le> ?x" "?x \<le> 1" using assms l by simp_all
  obtain v where v: "rnd ?x = Fin v" "0 \<le> v" "v \<le> 1"
    using rnd_between [OF x representable_consts] .
  have lo: "1 / 2 ^ 32 \<le> ?x" if "h \<noteq> 0"
  proof -
    have "1 / 2 ^ 32 \<le> 1 / (of_nat l :: rat)" using l by (intro divide_left_mono) simp_all
    also have "\<dots> \<le> ?x" using that l by (intro divide_right_mono) (simp_all add: Suc_leI)
    finally show ?thesis .
  qed
  have hi: "?x \<le> 1 - 1 / 2 ^ 32" if "h \<noteq> l"
  proof -
    have "(of_nat h :: rat) + 1 \<le> of_nat l" using that assms(1) by (metis Suc_leI le_neq_implies_less of_nat_Suc of_nat_le_iff add.commute)
    then have "?x \<le> (of_nat l - 1) / of_nat l" using l by (intro divide_right_mono) simp_all
    also have "\<dots> = 1 - 1 / of_nat l" using l by (simp add: diff_divide_distrib)
    also have "\<dots> \<le> 1 - 1 / 2 ^ 32" using l by (simp add: divide_left_mono)
    finally show ?thesis .
  qed
  have "v = 0 \<longleftrightarrow> h = 0"
    using rnd_ge_representable [OF lo representable_eps(1)] v(1) representable_consts(1)
    by (cases "h = 0") (auto simp: representable_def)
  moreover have "v = 1 \<longleftrightarrow> h = l"
    using rnd_le_representable [OF hi representable_eps(2)] v(1) representable_consts(2) l
    by (cases "h = l") (auto simp: representable_def)
  ultimately show ?thesis using that v by blast
qed

lemma sample_confidence_value:
  assumes "n < 2 ^ 32"
  obtains c where "sample_confidence n = Fin c" "0 \<le> c" "c < 1" "c = 0 \<longleftrightarrow> n = 0"
proof -
  have "int (Suc n) \<le> 2 ^ 53" using assms by simp
  then have "representable (of_int (int (Suc n)))" by (intro representable_int) simp
  then have suc: "rnd (of_nat n + 1) = Fin (of_nat (Suc n))" by (simp add: representable_def add.commute)
  obtain v where v: "rnd (of_nat 1 / of_nat (Suc n)) = Fin v" "0 \<le> v" "v \<le> 1" "v = 0 \<longleftrightarrow> (1 :: nat) = 0" "v = 1 \<longleftrightarrow> 1 = Suc n"
    using rnd_fraction [of 1 "Suc n"] assms by auto
  have "1 / 2 ^ 32 \<le> (of_nat 1 :: rat) / of_nat (Suc n)"
  proof -
    have "(of_nat (Suc n) :: rat) \<le> 2 ^ 32" using assms by (metis Suc_leI of_nat_le_iff of_nat_numeral of_nat_power)
    then show ?thesis by (simp add: divide_left_mono)
  qed
  from rnd_ge_representable [OF this representable_eps(1)] v(1) have lo: "1 / 2 ^ 32 \<le> v" by simp
  have conf: "sample_confidence n = rnd (1 - v)"
    using assms v(1) by (simp add: sample_confidence_def nat_as_f64_exact suc f64_sub_def)
  have b: "0 \<le> 1 - v" "1 - v \<le> 1 - 1 / 2 ^ 32" using v lo by simp_all
  obtain c where c: "rnd (1 - v) = Fin c" "0 \<le> c" "c \<le> 1 - 1 / 2 ^ 32"
    using rnd_between [OF b representable_consts(1) representable_eps(2)] .
  have "c = 0 \<longleftrightarrow> n = 0"
  proof
    assume "n = 0"
    then show "c = 0" using v(5) c(1) representable_consts(1) by (simp add: representable_def)
  next
    assume c0: "c = 0"
    show "n = 0"
    proof (rule ccontr)
      assume "n \<noteq> 0"
      then have "(of_nat 1 :: rat) / of_nat (Suc n) \<le> 1 / 2" by (simp add: field_simps)
      moreover have half: "representable (1 / 2)" using representable_dyadic [of 1 "- 1"] by (simp add: pow2_def)
      ultimately have "v \<le> 1 / 2" using rnd_le_representable [OF _ half] v(1) by fastforce
      then have "1 / 2 \<le> 1 - v" by simp
      from rnd_ge_representable [OF this half] c(1) c0 show False by simp
    qed
  qed
  with c conf that show ?thesis by force
qed

text \<open>Caller reputation never fabricates a score. A hit rate exists exactly when some call has a
  recorded copy profit, it is a number between 0 and 1, it is 1 only when every resolved call made
  a profit and 0 only when none did; the sample confidence lies between 0 and 1, is 0 exactly for
  an empty sample and never reaches 1; an average exists exactly when some excursion is recorded;
  and outcome windows never exceed 21 days.\<close>

theorem caller_reputation_is_honest:
  assumes "length calls < 2 ^ 32"
  shows "(cp_hit_rate (build_reputation i r calls) = None \<longleftrightarrow> (\<forall>c \<in> set calls. copy_pnl_of c = None)) \<and>
    (\<forall>h. cp_hit_rate (build_reputation i r calls) = Some h \<longrightarrow>
       (\<exists>x. h = Fin x \<and> 0 \<le> x \<and> x \<le> 1 \<and>
          (x = 1 \<longleftrightarrow> (\<forall>c \<in> set calls. \<forall>p. copy_pnl_of c = Some p \<longrightarrow> f64_lt (Fin 0) p)) \<and>
          (x = 0 \<longleftrightarrow> (\<forall>c \<in> set calls. \<forall>p. copy_pnl_of c = Some p \<longrightarrow> \<not> f64_lt (Fin 0) p)))) \<and>
    (\<exists>x. cp_sample_confidence (build_reputation i r calls) = Some (Fin x) \<and> 0 \<le> x \<and> x < 1 \<and> (x = 0 \<longleftrightarrow> calls = [])) \<and>
    (cp_avg_mfe (build_reputation i r calls) = None \<longleftrightarrow>
       (\<forall>c \<in> set calls. Option.bind (ca_outcome c) co_mfe = None)) \<and>
    clamp_window_days d \<le> 21"
proof -
  let ?res = "filter (\<lambda>c. copy_pnl_of c \<noteq> None) calls"
  let ?hit = "\<lambda>c. f64_gt (the (copy_pnl_of c)) (Fin 0)"
  let ?h = "length (filter ?hit ?res)" and ?l = "length ?res"
  have len: "?h \<le> ?l" "?l \<le> length calls" by (rule length_filter_le)+
  moreover have "(2 ^ 32 :: nat) \<le> 2 ^ 53" by (rule power_increasing) simp_all
  ultimately have bounds: "?l \<le> 2 ^ 32" "?l \<le> 2 ^ 53" "?h \<le> 2 ^ 53" using assms by linarith+
  have hit: "\<exists>x. hit_rate calls = Some (Fin x) \<and> 0 \<le> x \<and> x \<le> 1 \<and>
          (x = 1 \<longleftrightarrow> (\<forall>c \<in> set calls. \<forall>p. copy_pnl_of c = Some p \<longrightarrow> f64_lt (Fin 0) p)) \<and>
          (x = 0 \<longleftrightarrow> (\<forall>c \<in> set calls. \<forall>p. copy_pnl_of c = Some p \<longrightarrow> \<not> f64_lt (Fin 0) p))"
    if ne: "?res \<noteq> []"
  proof -
    have pos: "0 < ?l" using ne by simp
    obtain v where v: "rnd (of_nat ?h / of_nat ?l) = Fin v" "0 \<le> v" "v \<le> 1" "v = 0 \<longleftrightarrow> ?h = 0" "v = 1 \<longleftrightarrow> ?h = ?l"
      using rnd_fraction [OF len(1) pos bounds(1)] .
    have "hit_rate calls = Some (Fin v)"
      using ne v(1) bounds pos by (simp add: hit_rate_def Let_def nat_as_f64_exact)
    moreover have "?h = ?l \<longleftrightarrow> (\<forall>c \<in> set ?res. ?hit c)"
      by (rule length_filter_eq_iff)
    moreover have "?h = 0 \<longleftrightarrow> (\<forall>c \<in> set ?res. \<not> ?hit c)" unfolding length_0_conv filter_empty_conv by simp
    ultimately show ?thesis using v by force
  qed
  have none: "hit_rate calls = None \<longleftrightarrow> ?res = []" by (simp add: hit_rate_def Let_def)
  have n: "as_u32 (length calls) = length calls" using assms by simp
  obtain c where c: "sample_confidence (length calls) = Fin c" "0 \<le> c" "c < 1" "c = 0 \<longleftrightarrow> length calls = 0"
    using sample_confidence_value [OF assms] .
  have mfe: "average_mfe calls = None \<longleftrightarrow> (\<forall>c \<in> set calls. Option.bind (ca_outcome c) co_mfe = None)"
    by (simp add: average_mfe_def Let_def map_filter_def filter_empty_conv)
  have fields: "cp_hit_rate (build_reputation i r calls) = hit_rate calls"
    "cp_sample_confidence (build_reputation i r calls) = Some (Fin c)"
    "cp_avg_mfe (build_reputation i r calls) = average_mfe calls"
    using n c(1) by (simp_all add: build_reputation_def Let_def)
  have "clamp_window_days d \<le> 21" by (simp add: clamp_window_days_def MAX_OUTCOME_WINDOW_DAYS_def)
  moreover have "hit_rate calls = None \<longleftrightarrow> (\<forall>c \<in> set calls. copy_pnl_of c = None)"
    unfolding none filter_empty_conv by simp
  moreover have "\<exists>x. h = Fin x \<and> 0 \<le> x \<and> x \<le> 1 \<and>
          (x = 1 \<longleftrightarrow> (\<forall>c \<in> set calls. \<forall>p. copy_pnl_of c = Some p \<longrightarrow> f64_lt (Fin 0) p)) \<and>
          (x = 0 \<longleftrightarrow> (\<forall>c \<in> set calls. \<forall>p. copy_pnl_of c = Some p \<longrightarrow> \<not> f64_lt (Fin 0) p))"
    if "hit_rate calls = Some h" for h
  proof -
    have "?res \<noteq> []" using that none by (metis option.distinct(1))
    from hit [OF this] that show ?thesis by force
  qed
  moreover have "c = 0 \<longleftrightarrow> calls = []" using c(4) by simp
  ultimately show ?thesis unfolding fields using c(2,3) mfe by blast
qed

definition sample_call :: "f64 option \<Rightarrow> Call" where
  "sample_call p = \<lparr>ca_caller_id = ''c'', ca_platform = PlatformTelegram, ca_token = ''T'', ca_occurred_at = [],
     ca_lead_time = None, ca_immutable_t0_snapshot = ''h'',
     ca_outcome = Some \<lparr>co_mfe = None, co_mae = None, co_copy_entry = None, co_copy_pnl = p,
       co_outcome_window_days = 21\<rparr>\<rparr>"

theorem caller_reputation_is_honest_witness:
  "cp_hit_rate (build_reputation ''c'' ''bull'' [sample_call (Some (Fin 3)), sample_call None]) = Some (Fin 1)"
proof -
  let ?calls = "[sample_call (Some (Fin 3)), sample_call None]"
  have "cp_hit_rate (build_reputation ''c'' ''bull'' ?calls) \<noteq> None"
    by (simp add: build_reputation_def hit_rate_def copy_pnl_of_def sample_call_def Let_def)
  then obtain h where h: "cp_hit_rate (build_reputation ''c'' ''bull'' ?calls) = Some h" by blast
  with caller_reputation_is_honest [of ?calls "''c''" "''bull''" 0] show ?thesis
    by (auto simp: sample_call_def copy_pnl_of_def)
qed

section \<open>Liquidity pools\<close>

datatype LpProtocol = MeteoraDlmm | UniswapV2 | UniswapV3 | UniswapV4 | PancakeV2 | PancakeV3

record LpPoolIntelligence =
  lp_chain :: string
  lp_protocol :: LpProtocol
  lp_pool_address :: string
  lp_active_bin :: "string option"
  lp_bin_step :: "string option"
  lp_range :: "string option"
  lp_tvl :: "string option"
  lp_active_tvl :: "string option"
  lp_reserves :: "json option"
  lp_volume :: "string option"
  lp_fees :: "string option"
  lp_fee_to_tvl :: "f64 option"

record LpPnl =
  lpp_inventory_pnl :: "string option"
  lpp_fee_pnl :: "string option"
  lpp_reward_pnl :: "string option"
  lpp_impermanent_loss_estimate :: "string option"
  lpp_swap_rebalance_friction :: "string option"
  lpp_gas_rent_tips :: "string option"
  lpp_realized_pnl :: "string option"
  lpp_unrealized_pnl :: "string option"

record LpWalletIntelligence =
  lpw_wallet :: string
  lpw_position_timing :: "string option"
  lpw_hold_duration :: "string option"
  lpw_range_choice :: "string option"
  lpw_reseed_behavior :: "string option"
  lpw_outcome_concentration :: "string option"
  lpw_regime_consistency :: "string option"
  lpw_pool_specialization :: "string list option"
  lpw_pnl :: LpPnl

record LpRangeChamber =
  lrc_pool_address :: string
  lrc_current_range :: "string option"
  lrc_recommended_range :: "string option"
  lrc_range_shift_reason :: "string option"

definition fee_to_tvl ::
  "('d, 'x) decimal_api_scheme \<Rightarrow> ('d \<Rightarrow> string) \<Rightarrow> (string \<Rightarrow> f64 option) \<Rightarrow> string option \<Rightarrow> string option \<Rightarrow> f64 option" where
  "fee_to_tvl D dshow parse_f64 fees tvl =
     (case Option.bind fees (dec_parse D) of
        None \<Rightarrow> None
      | Some f \<Rightarrow>
          (case Option.bind tvl (dec_parse D) of
             None \<Rightarrow> None
           | Some t \<Rightarrow>
               if dec_eq D t (dec_zero D) then None
               else Some (case parse_f64 (dshow (dec_div D f t)) of None \<Rightarrow> Fin 0 | Some x \<Rightarrow> x)))"

definition is_supported_scope :: "string \<Rightarrow> LpProtocol \<Rightarrow> bool" where
  "is_supported_scope chain protocol =
     (let chain_l = to_lowercase chain; is_robinhood = (chain_l = ''robinhood'' \<or> chain_l = ''rh'')
      in case protocol of MeteoraDlmm \<Rightarrow> chain_l = ''solana'' | _ \<Rightarrow> is_robinhood)"

definition build_range_chamber ::
  "LpPoolIntelligence \<Rightarrow> string option \<Rightarrow> string option \<Rightarrow> LpRangeChamber" where
  "build_range_chamber pool recommended_range shift_reason =
     \<lparr>lrc_pool_address = lp_pool_address pool, lrc_current_range = lp_range pool,
      lrc_recommended_range = or_else recommended_range (lp_range pool),
      lrc_range_shift_reason = shift_reason\<rparr>"

text \<open>No protocol is in scope on Ethereum, Base or BSC, and none on two families of chains.\<close>

lemma lp_scope_excludes:
  "to_lowercase chain \<in> {''ethereum'', ''base'', ''bsc''} \<Longrightarrow> \<not> is_supported_scope chain p"
  "is_supported_scope chain MeteoraDlmm \<Longrightarrow> p \<noteq> MeteoraDlmm \<Longrightarrow> \<not> is_supported_scope chain p"
  by (cases p; auto simp: is_supported_scope_def)+

section \<open>Dashboard\<close>

datatype DashboardSection = CommandCenter | SectionSignals | SectionEntities | SectionStrategies
  | SectionLab | SectionOperations

datatype Surface = SignalSpine | LifecycleRail | EvidenceStrips | ConfidenceFreshnessTexture
  | NarrativeRiver | OriginTrace | TokenFamilyConstellation | CallerPropagationTree
  | RevivalSeismicView | SurfaceLpRangeChamber | AutomationPolicies | ExecutionTape
  | SourceHealthCost | DecisionExplanation | MissedRunnerReview | TokenRecentTimeline
  | DeployerSocialReuse

datatype RetentionTier = TierHot | TierWarm | TierCold

record DashboardView =
  dv_section :: DashboardSection
  dv_surface :: Surface
  dv_retention :: RetentionTier
  dv_opportunity_first :: bool

record HotProjection =
  hp_active_opportunities :: "string list"
  hp_active_positions :: "string list"
  hp_active_intents :: "string list"
  hp_refreshed_at :: string

definition retention_tier :: "bool \<Rightarrow> bool \<Rightarrow> RetentionTier" where
  "retention_tier is_active has_open_window =
     (if is_active then TierHot else if has_open_window then TierWarm else TierCold)"

definition dashboard_view :: "DashboardSection \<Rightarrow> Surface \<Rightarrow> RetentionTier \<Rightarrow> bool \<Rightarrow> DashboardView" where
  "dashboard_view section' surface retention opportunity_first =
     \<lparr>dv_section = section', dv_surface = surface, dv_retention = retention,
      dv_opportunity_first = opportunity_first\<rparr>"

definition build_hot_projection :: "string list \<Rightarrow> string list \<Rightarrow> string list \<Rightarrow> string \<Rightarrow> HotProjection" where
  "build_hot_projection opportunities positions intents refreshed_at =
     \<lparr>hp_active_opportunities = opportunities, hp_active_positions = positions,
      hp_active_intents = intents, hp_refreshed_at = refreshed_at\<rparr>"

definition is_operational :: "DashboardView \<Rightarrow> bool" where
  "is_operational view \<longleftrightarrow> dv_opportunity_first view \<and> dv_retention view = TierHot"

lemma operational_iff_active:
  "is_operational (dashboard_view s f (retention_tier act win) opp) \<longleftrightarrow> act \<and> opp"
  by (auto simp: is_operational_def dashboard_view_def retention_tier_def)

section \<open>Browser captures\<close>

datatype BrowserPlatform = BrowserX | BrowserTiktok | BrowserWeb

datatype BrowserTaskType = TaskSearch | TaskProfile | TaskList | TaskTokenTriggeredResolve

record BrowserTask =
  bt_platform :: BrowserPlatform
  bt_task_type :: BrowserTaskType
  bt_target :: string

datatype ChallengeHealth = ChallengeOk | ChallengeDetected | ChallengeFailed

datatype SessionHealth = SessionOk | SessionExpired | SessionInvalid

record BrowserCapture =
  bc_raw_ref :: string
  bc_parser_version :: string
  bc_challenge_health :: ChallengeHealth
  bc_session_health :: SessionHealth

datatype MediaKind = MediaAudio | MediaImage | MediaVideo

record MediaEnrichment =
  me_kind :: MediaKind
  me_raw_ref :: string
  me_transcript :: "string option"
  me_text :: "string option"

definition capture_usable :: "BrowserCapture \<Rightarrow> bool" where
  "capture_usable c \<longleftrightarrow> bc_session_health c = SessionOk \<and> bc_challenge_health c = ChallengeOk"

definition capture_failed :: "BrowserCapture \<Rightarrow> bool" where
  "capture_failed c \<longleftrightarrow> bc_session_health c = SessionInvalid \<or> bc_challenge_health c = ChallengeFailed"

definition capture_retryable :: "BrowserCapture \<Rightarrow> bool" where
  "capture_retryable c \<longleftrightarrow> bc_challenge_health c = ChallengeDetected \<and> bc_session_health c = SessionOk"

definition enrichment_warranted :: "BrowserTaskType \<Rightarrow> bool" where
  "enrichment_warranted t \<longleftrightarrow> t = TaskTokenTriggeredResolve"

text \<open>The three verdicts exclude each other; only an expired session gets none of them.\<close>

lemma capture_verdicts:
  "\<not> (capture_usable c \<and> capture_failed c)" "\<not> (capture_usable c \<and> capture_retryable c)"
  "\<not> (capture_failed c \<and> capture_retryable c)"
  "\<not> capture_usable c \<and> \<not> capture_failed c \<and> \<not> capture_retryable c \<longleftrightarrow>
     bc_session_health c = SessionExpired \<and> bc_challenge_health c \<noteq> ChallengeFailed"
  by (cases "bc_session_health c"; cases "bc_challenge_health c";
      simp add: capture_usable_def capture_failed_def capture_retryable_def)+

end
