(* ===== verification/Models.thy ===== *)
theory Models
  imports Interfaces
begin

text \<open>
  The enumerations of \<^verbatim>\<open>src/models.rs\<close> that are stored as text and read back, each an instance of
  \<open>text_codec\<close>: the printed names, and readers that trim, fold ASCII case and accept aliases.
\<close>

section \<open>Reading names\<close>

definition ascii_lower :: "char \<Rightarrow> char" where
  "ascii_lower c = (let n = of_char c :: nat in if 65 \<le> n \<and> n \<le> 90 then char_of (n + 32) else c)"

definition to_ascii_lowercase :: "string \<Rightarrow> string" where
  "to_ascii_lowercase = map ascii_lower"

definition read_name :: "(string list \<times> 'a) list \<Rightarrow> string \<Rightarrow> 'a option" where
  "read_name arms value = alias_lookup arms (to_ascii_lowercase (trim value))"

text \<open>A plain name has neither blanks nor capitals, so reading takes it as it is.\<close>

definition plain_name :: "string \<Rightarrow> bool" where
  "plain_name s \<longleftrightarrow> list_all (\<lambda>c. let n = of_char c :: nat in 33 \<le> n \<and> n \<le> 126 \<and> \<not> (65 \<le> n \<and> n \<le> 90)) s"

lemma plain_name_read: "plain_name s \<Longrightarrow> to_ascii_lowercase (trim s) = s"
proof -
  assume p: "plain_name s"
  then have ws: "\<forall>c \<in> set s. \<not> is_whitespace c"
    by (auto simp: plain_name_def list_all_iff is_whitespace_def Let_def)
  then have "trim s = s"
    by (cases "s = []") (simp add: trim_def, rule trim_id, simp_all)
  moreover have "ascii_lower c = c" if "c \<in> set s" for c
    using p that by (auto simp: plain_name_def list_all_iff ascii_lower_def Let_def)
  ultimately show ?thesis by (simp add: to_ascii_lowercase_def map_idI)
qed

lemma read_plain: "plain_name s \<Longrightarrow> read_name arms s = alias_lookup arms s"
  by (simp add: read_name_def plain_name_read)

section \<open>Enumerations\<close>

datatype AssetKind = NativeAsset | SplToken | Erc20

fun asset_kind_as_str :: "AssetKind \<Rightarrow> string" where
  "asset_kind_as_str NativeAsset = ''native''"
| "asset_kind_as_str SplToken = ''spl_token''"
| "asset_kind_as_str Erc20 = ''erc20''"

datatype TradeSide = SideBuy | SideSell

fun trade_side_as_str :: "TradeSide \<Rightarrow> string" where
  "trade_side_as_str SideBuy = ''buy''"
| "trade_side_as_str SideSell = ''sell''"

datatype ChainKind = KindSolana | KindRobinhood

fun chain_kind_as_str :: "ChainKind \<Rightarrow> string" where
  "chain_kind_as_str KindSolana = ''solana''"
| "chain_kind_as_str KindRobinhood = ''robinhood''"

definition chain_kind_parse :: "string \<Rightarrow> ChainKind option" where
  "chain_kind_parse = read_name
     [([''solana'', ''sol''], KindSolana),
      ([''robinhood'', ''rh''], KindRobinhood)]"

interpretation chain_kind: text_codec chain_kind_as_str chain_kind_parse
proof unfold_locales
  fix x show "chain_kind_parse (chain_kind_as_str x) = Some x"
    by (cases x) (simp_all add: chain_kind_parse_def read_plain plain_name_def)
qed

datatype Commitment = Processed | CommitConfirmed | Finalized

fun commitment_as_str :: "Commitment \<Rightarrow> string" where
  "commitment_as_str Processed = ''processed''"
| "commitment_as_str CommitConfirmed = ''confirmed''"
| "commitment_as_str Finalized = ''finalized''"

definition commitment_parse :: "string \<Rightarrow> Commitment option" where
  "commitment_parse = read_name
     [([''processed''], Processed),
      ([''confirmed''], CommitConfirmed),
      ([''finalized''], Finalized)]"

interpretation commitment: text_codec commitment_as_str commitment_parse
proof unfold_locales
  fix x show "commitment_parse (commitment_as_str x) = Some x"
    by (cases x) (simp_all add: commitment_parse_def read_plain plain_name_def)
qed

datatype WalletLabelKind = SmartDegen | Sniper | Bundler | RatTrader | DexBot | MevBot | FreshWallet | Dev | Insider | Arbitrage | CopyTrader | MarketMaker | Exchange | Bridge | KuiperExchange | ProjectWallet

fun label_kind_as_str :: "WalletLabelKind \<Rightarrow> string" where
  "label_kind_as_str SmartDegen = ''smart_degen''"
| "label_kind_as_str Sniper = ''sniper''"
| "label_kind_as_str Bundler = ''bundler''"
| "label_kind_as_str RatTrader = ''rat_trader''"
| "label_kind_as_str DexBot = ''dex_bot''"
| "label_kind_as_str MevBot = ''mev_bot''"
| "label_kind_as_str FreshWallet = ''fresh_wallet''"
| "label_kind_as_str Dev = ''dev''"
| "label_kind_as_str Insider = ''insider''"
| "label_kind_as_str Arbitrage = ''arbitrage''"
| "label_kind_as_str CopyTrader = ''copy_trader''"
| "label_kind_as_str MarketMaker = ''market_maker''"
| "label_kind_as_str Exchange = ''exchange''"
| "label_kind_as_str Bridge = ''bridge''"
| "label_kind_as_str KuiperExchange = ''kuiper_exchange''"
| "label_kind_as_str ProjectWallet = ''project''"

definition label_kind_parse :: "string \<Rightarrow> WalletLabelKind option" where
  "label_kind_parse = read_name
     [([''smart_degen'', ''smartdegen''], SmartDegen),
      ([''sniper''], Sniper),
      ([''bundler''], Bundler),
      ([''rat_trader'', ''rattrader''], RatTrader),
      ([''dex_bot'', ''dexbot''], DexBot),
      ([''mev_bot'', ''mevbot'', ''mev''], MevBot),
      ([''fresh_wallet'', ''freshwallet''], FreshWallet),
      ([''dev'', ''developer'', ''creator''], Dev),
      ([''insider''], Insider),
      ([''arbitrage''], Arbitrage),
      ([''copy_trader'', ''copytrader''], CopyTrader),
      ([''market_maker'', ''marketmaker''], MarketMaker),
      ([''exchange'', ''cex''], Exchange),
      ([''bridge''], Bridge),
      ([''kuiper_exchange'', ''kuiper''], KuiperExchange),
      ([''project''], ProjectWallet)]"

interpretation label_kind: text_codec label_kind_as_str label_kind_parse
proof unfold_locales
  fix x show "label_kind_parse (label_kind_as_str x) = Some x"
    by (cases x) (simp_all add: label_kind_parse_def read_plain plain_name_def)
qed

datatype WalletDisposition = DispScore | DispWatch | DispFlowOnly | DispSkip

fun disposition_as_str :: "WalletDisposition \<Rightarrow> string" where
  "disposition_as_str DispScore = ''score''"
| "disposition_as_str DispWatch = ''watch''"
| "disposition_as_str DispFlowOnly = ''flow_only''"
| "disposition_as_str DispSkip = ''skip''"

definition disposition_parse :: "string \<Rightarrow> WalletDisposition option" where
  "disposition_parse = read_name
     [([''score''], DispScore),
      ([''watch''], DispWatch),
      ([''flow_only'', ''flow-only''], DispFlowOnly),
      ([''skip'', ''block''], DispSkip)]"

interpretation disposition: text_codec disposition_as_str disposition_parse
proof unfold_locales
  fix x show "disposition_parse (disposition_as_str x) = Some x"
    by (cases x) (simp_all add: disposition_parse_def read_plain plain_name_def)
qed

datatype LifecycleState = NewCreation | BondingCurve | NearGraduation | Graduated | PostMigration | Unsupported

fun lifecycle_as_str :: "LifecycleState \<Rightarrow> string" where
  "lifecycle_as_str NewCreation = ''new_creation''"
| "lifecycle_as_str BondingCurve = ''bonding_curve''"
| "lifecycle_as_str NearGraduation = ''near_graduation''"
| "lifecycle_as_str Graduated = ''graduated''"
| "lifecycle_as_str PostMigration = ''post_migration''"
| "lifecycle_as_str Unsupported = ''unsupported''"

definition lifecycle_parse :: "string \<Rightarrow> LifecycleState option" where
  "lifecycle_parse = read_name
     [([''new_creation''], NewCreation),
      ([''bonding_curve''], BondingCurve),
      ([''near_graduation''], NearGraduation),
      ([''graduated''], Graduated),
      ([''post_migration''], PostMigration)]"

lemma lifecycle_parse_print: "lifecycle_parse (lifecycle_as_str x) = (if x = Unsupported then None else Some x)"
  by (cases x) (simp_all add: lifecycle_parse_def read_plain plain_name_def)

definition entry_supported :: "LifecycleState \<Rightarrow> bool" where
  "entry_supported l \<longleftrightarrow> l \<in> set [NewCreation, BondingCurve, NearGraduation, Graduated, PostMigration]"

datatype NarrativeCategory = NarrAi | NarrDefi | NarrDepIn | NarrMeme | NarrCelebrity | NarrPolitical | NarrGaming | NarrRwa | NarrSolanaEcosystem | NarrLaunchpad | NarrCommunityTakeover | NarrUnknown

fun narrative_slug :: "NarrativeCategory \<Rightarrow> string" where
  "narrative_slug NarrAi = ''ai''"
| "narrative_slug NarrDefi = ''defi''"
| "narrative_slug NarrDepIn = ''dep_in''"
| "narrative_slug NarrMeme = ''meme''"
| "narrative_slug NarrCelebrity = ''celebrity''"
| "narrative_slug NarrPolitical = ''political''"
| "narrative_slug NarrGaming = ''gaming''"
| "narrative_slug NarrRwa = ''rwa''"
| "narrative_slug NarrSolanaEcosystem = ''solana_ecosystem''"
| "narrative_slug NarrLaunchpad = ''launchpad''"
| "narrative_slug NarrCommunityTakeover = ''community_takeover''"
| "narrative_slug NarrUnknown = ''unknown''"

definition narrative_parse_slug :: "string \<Rightarrow> NarrativeCategory option" where
  "narrative_parse_slug = read_name
     [([''ai''], NarrAi),
      ([''defi''], NarrDefi),
      ([''dep_in'', ''depin''], NarrDepIn),
      ([''meme''], NarrMeme),
      ([''celebrity''], NarrCelebrity),
      ([''political''], NarrPolitical),
      ([''gaming''], NarrGaming),
      ([''rwa''], NarrRwa),
      ([''solana_ecosystem''], NarrSolanaEcosystem),
      ([''launchpad''], NarrLaunchpad),
      ([''community_takeover''], NarrCommunityTakeover),
      ([''unknown''], NarrUnknown)]"

interpretation narrative_slug: text_codec narrative_slug narrative_parse_slug
proof unfold_locales
  fix x show "narrative_parse_slug (narrative_slug x) = Some x"
    by (cases x) (simp_all add: narrative_parse_slug_def read_plain plain_name_def)
qed

datatype RadarStage = RadarFunded | RadarPreparation | RadarDeployed | RadarDismissed

fun radar_stage_as_str :: "RadarStage \<Rightarrow> string" where
  "radar_stage_as_str RadarFunded = ''funded''"
| "radar_stage_as_str RadarPreparation = ''preparation''"
| "radar_stage_as_str RadarDeployed = ''deployed''"
| "radar_stage_as_str RadarDismissed = ''dismissed''"

definition radar_stage_parse :: "string \<Rightarrow> RadarStage option" where
  "radar_stage_parse = read_name
     [([''funded''], RadarFunded),
      ([''preparation''], RadarPreparation),
      ([''deployed''], RadarDeployed),
      ([''dismissed''], RadarDismissed)]"

interpretation radar_stage: text_codec radar_stage_as_str radar_stage_parse
proof unfold_locales
  fix x show "radar_stage_parse (radar_stage_as_str x) = Some x"
    by (cases x) (simp_all add: radar_stage_parse_def read_plain plain_name_def)
qed

text \<open>The order of commitment levels is the order of the constructors.\<close>

fun commitment_rank :: "Commitment \<Rightarrow> nat" where
  "commitment_rank Processed = 0"
| "commitment_rank CommitConfirmed = 1"
| "commitment_rank Finalized = 2"

instantiation Commitment :: linorder
begin

definition less_eq_Commitment :: "Commitment \<Rightarrow> Commitment \<Rightarrow> bool" where
  "less_eq_Commitment a b \<longleftrightarrow> commitment_rank a \<le> commitment_rank b"

definition less_Commitment :: "Commitment \<Rightarrow> Commitment \<Rightarrow> bool" where
  "less_Commitment a b \<longleftrightarrow> commitment_rank a < commitment_rank b"

instance
proof
  fix x y :: Commitment
  show "x \<le> y \<Longrightarrow> y \<le> x \<Longrightarrow> x = y"
    by (cases x; cases y) (simp_all add: less_eq_Commitment_def)
qed (auto simp: less_eq_Commitment_def less_Commitment_def)

end

text \<open>Short rendering of an ASCII address as the bytes written to the log: at most ten characters
  are kept whole; the ellipsis is the three bytes of U+2026.\<close>

definition ellipsis :: string where
  "ellipsis = [CHR 0xE2, CHR 0x80, CHR 0xA6]"

definition short_addr :: "string \<Rightarrow> string" where
  "short_addr address =
     (if length address \<le> 10 then address
      else take 5 address @ ellipsis @ drop (length address - 4) address)"

text \<open>Stored names read back as what was written. For chains, commitment levels, wallet labels,
  dispositions, narrative categories and radar stages, reading the printed name gives the value
  again, in any mixture of case and with blanks around it, and two values never share a printed
  name; of the lifecycle states only the unsupported one does not read back, and it is also the
  only one that is not eligible for entry signals.\<close>

theorem stored_names_read_back:
  "(to_ascii_lowercase (trim s) = chain_kind_as_str k \<longrightarrow> chain_kind_parse s = Some k) \<and>
   (to_ascii_lowercase (trim s) = commitment_as_str m \<longrightarrow> commitment_parse s = Some m) \<and>
   (to_ascii_lowercase (trim s) = label_kind_as_str w \<longrightarrow> label_kind_parse s = Some w) \<and>
   (to_ascii_lowercase (trim s) = disposition_as_str d \<longrightarrow> disposition_parse s = Some d) \<and>
   (to_ascii_lowercase (trim s) = narrative_slug n \<longrightarrow> narrative_parse_slug s = Some n) \<and>
   (to_ascii_lowercase (trim s) = radar_stage_as_str r \<longrightarrow> radar_stage_parse s = Some r) \<and>
   (label_kind_as_str w = label_kind_as_str w' \<longrightarrow> w = w') \<and>
   (lifecycle_parse (lifecycle_as_str l) = Some l \<longleftrightarrow> l \<noteq> Unsupported) \<and>
   (entry_supported l \<longleftrightarrow> l \<noteq> Unsupported)"
proof (intro conjI impI)
  show "chain_kind_parse s = Some k" if "to_ascii_lowercase (trim s) = chain_kind_as_str k"
    using that chain_kind.dec_enc [of k] by (cases k) (simp_all add: chain_kind_parse_def read_name_def)
  show "commitment_parse s = Some m" if "to_ascii_lowercase (trim s) = commitment_as_str m"
    using that by (cases m) (simp_all add: commitment_parse_def read_name_def)
  show "label_kind_parse s = Some w" if "to_ascii_lowercase (trim s) = label_kind_as_str w"
    using that by (cases w) (simp_all add: label_kind_parse_def read_name_def)
  show "disposition_parse s = Some d" if "to_ascii_lowercase (trim s) = disposition_as_str d"
    using that by (cases d) (simp_all add: disposition_parse_def read_name_def)
  show "narrative_parse_slug s = Some n" if "to_ascii_lowercase (trim s) = narrative_slug n"
    using that by (cases n) (simp_all add: narrative_parse_slug_def read_name_def)
  show "radar_stage_parse s = Some r" if "to_ascii_lowercase (trim s) = radar_stage_as_str r"
    using that by (cases r) (simp_all add: radar_stage_parse_def read_name_def)
  show "w = w'" if "label_kind_as_str w = label_kind_as_str w'" using that by (simp add: label_kind.enc_inj)
  show "lifecycle_parse (lifecycle_as_str l) = Some l \<longleftrightarrow> l \<noteq> Unsupported" by (simp add: lifecycle_parse_print)
  show "entry_supported l \<longleftrightarrow> l \<noteq> Unsupported" by (cases l) (simp_all add: entry_supported_def)
qed

theorem stored_names_read_back_witness:
  "label_kind_parse '' MEV_Bot '' = Some MevBot"
proof -
  have "to_ascii_lowercase (trim '' MEV_Bot '') = label_kind_as_str MevBot"
    by code_simp
  then show ?thesis using stored_names_read_back [of "'' MEV_Bot ''" _ _ MevBot] by blast
qed

end
