(* ===== verification/Policy.thy ===== *)
theory Policy
  imports Models Float64 "HOL-Library.Multiset"
begin

text \<open>
  Wallet policy: the label table of \<^verbatim>\<open>src/db.rs\<close> (insert, blocklist import, revocation, the
  authoritative disposition) and the automatic classification of \<^verbatim>\<open>src/filter.rs\<close> over it. The tables
  are explicit state. A statement fails when the fault schedule says so (a lost connection) or when it
  violates a foreign key of the migrations; the clock and the schedule are arguments. The columns
  \<open>id\<close> and \<open>created_at\<close>, which no operation here reads, are left out.
\<close>

section \<open>Scanning for a preferred element\<close>

text \<open>A loop that replaces the current element by a strictly better one. When the preference is
  asymmetric and incomparability is transitive, the result is an element that none beats.\<close>

definition prefer_step :: "('a \<Rightarrow> 'a \<Rightarrow> bool) \<Rightarrow> 'a option \<Rightarrow> 'a \<Rightarrow> 'a option" where
  "prefer_step better best candidate =
     (case best of
        None \<Rightarrow> Some candidate
      | Some current \<Rightarrow> Some (if better candidate current then candidate else current))"

definition prefer_scan :: "('a \<Rightarrow> 'a \<Rightarrow> bool) \<Rightarrow> 'a option \<Rightarrow> 'a list \<Rightarrow> 'a option" where
  "prefer_scan better = foldl (prefer_step better)"

locale strict_preference =
  fixes better :: "'a \<Rightarrow> 'a \<Rightarrow> bool"
  assumes asym: "better a b \<Longrightarrow> \<not> better b a"
    and neg_trans: "\<not> better a b \<Longrightarrow> \<not> better b c \<Longrightarrow> \<not> better a c"
begin

lemma scan_from:
  "\<exists>r. prefer_scan better (Some b) xs = Some r \<and> r \<in> insert b (set xs) \<and>
       (\<forall>x \<in> insert b (set xs). \<not> better x r)"
proof (induction xs arbitrary: b)
  case Nil
  then show ?case using asym by (auto simp: prefer_scan_def)
next
  case (Cons x xs)
  let ?b = "if better x b then x else b"
  obtain r where r: "prefer_scan better (Some ?b) xs = Some r" "r \<in> insert ?b (set xs)"
    "\<forall>y \<in> insert ?b (set xs). \<not> better y r"
    using Cons.IH by blast
  have "\<not> better b r \<and> \<not> better x r"
    using r(3) asym [of x b] neg_trans [of b x r] neg_trans [of x b r] by (cases "better x b") auto
  then show ?case
    using r by (intro exI [of _ r]) (auto simp: prefer_scan_def prefer_step_def split: if_splits)
qed

lemma scan_None: "prefer_scan better None xs = None \<longleftrightarrow> xs = []"
proof (cases xs)
  case (Cons x ys)
  then show ?thesis
    using scan_from [of x ys] by (auto simp: prefer_scan_def prefer_step_def)
qed (simp add: prefer_scan_def)

lemma scan_best:
  assumes "prefer_scan better None xs = Some r"
  shows "r \<in> set xs \<and> (\<forall>x \<in> set xs. \<not> better x r)"
proof (cases xs)
  case Nil
  then show ?thesis using assms by (simp add: prefer_scan_def)
next
  case (Cons x ys)
  then have "prefer_scan better (Some x) ys = Some r"
    using assms by (simp add: prefer_scan_def prefer_step_def)
  then show ?thesis using scan_from [of x ys] Cons by simp
qed

end

section \<open>Tables\<close>

datatype policy_error =
    UnknownDisposition string
  | StoreFault
  | ForeignKeyViolation
  | PanicNoKind

record label_row =
  lb_workspace :: int
  lb_chain :: string
  lb_address :: string
  lb_kind :: string
  lb_disposition :: string
  lb_reason :: string
  lb_source :: string
  lb_confidence :: int
  lb_manual :: bool
  lb_expires :: "int option"
  lb_revoked :: "int option"

record wallet_row =
  wr_first_seen :: int
  wr_last_seen :: int
  wr_source :: string

record label_db =
  ld_workspaces :: "int list"
  ld_wallets :: "string \<times> string \<Rightarrow> wallet_row option"
  ld_labels :: "label_row list"

definition insert_label :: "label_row \<Rightarrow> label_db \<Rightarrow> policy_error + label_db" where
  "insert_label row db =
     (if lb_workspace row \<in> set (ld_workspaces db) \<and> ld_wallets db (lb_chain row, lb_address row) \<noteq> None
      then Inr (db\<lparr>ld_labels := ld_labels db @ [row]\<rparr>)
      else Inl ForeignKeyViolation)"

definition add_wallet_label ::
  "int \<Rightarrow> string \<Rightarrow> string \<Rightarrow> string \<Rightarrow> string \<Rightarrow> string \<Rightarrow> string \<Rightarrow> int \<Rightarrow> bool \<Rightarrow> int option \<Rightarrow>
   label_db \<Rightarrow> policy_error + label_db" where
  "add_wallet_label workspace chain address kind disposition reason source confidence manual expires db =
     insert_label
       \<lparr>lb_workspace = workspace, lb_chain = chain, lb_address = address, lb_kind = kind,
        lb_disposition = disposition, lb_reason = reason, lb_source = source,
        lb_confidence = confidence, lb_manual = manual, lb_expires = expires, lb_revoked = None\<rparr> db"

definition upsert_blocked_wallet :: "string \<Rightarrow> string \<Rightarrow> int \<Rightarrow> label_db \<Rightarrow> label_db" where
  "upsert_blocked_wallet chain address now db =
     db\<lparr>ld_wallets := (ld_wallets db)((chain, address) \<mapsto>
       (case ld_wallets db (chain, address) of
          None \<Rightarrow> \<lparr>wr_first_seen = now, wr_last_seen = now, wr_source = ''blocklist''\<rparr>
        | Some w \<Rightarrow> w\<lparr>wr_last_seen := now\<rparr>))\<rparr>"

section \<open>Blocklist import and revocation\<close>

definition blocklist_skips :: "string \<Rightarrow> bool" where
  "blocklist_skips line \<longleftrightarrow> (let address = trim line in address = [] \<or> take 1 address = ''#'')"

definition block_row :: "int \<Rightarrow> string \<Rightarrow> string \<Rightarrow> string \<Rightarrow> label_row" where
  "block_row workspace chain address reason =
     \<lparr>lb_workspace = workspace, lb_chain = chain, lb_address = address, lb_kind = ''manual_block'',
      lb_disposition = ''skip'', lb_reason = reason, lb_source = ''manual'', lb_confidence = 100,
      lb_manual = True, lb_expires = None, lb_revoked = None\<rparr>"

fun import_loop ::
  "(nat \<Rightarrow> bool) \<Rightarrow> (nat \<Rightarrow> int) \<Rightarrow> int \<Rightarrow> string \<Rightarrow> string \<Rightarrow> nat \<Rightarrow> string list \<Rightarrow> nat \<Rightarrow> label_db \<Rightarrow>
   policy_error + (nat \<times> nat \<times> label_db)" where
  "import_loop fault clock workspace chain reason i [] imported db = Inr (i, imported, db)"
| "import_loop fault clock workspace chain reason i (line # lines) imported db =
     (let address = trim line in
      if blocklist_skips line then import_loop fault clock workspace chain reason i lines imported db
      else if fault i then Inl StoreFault
      else let db1 = upsert_blocked_wallet chain address (clock i) db in
      if fault (i + 1) then Inl StoreFault
      else case insert_label (block_row workspace chain address reason) db1 of
             Inl e \<Rightarrow> Inl e
           | Inr db2 \<Rightarrow>
               import_loop fault clock workspace chain reason (i + 2) lines (as_u32 (imported + 1)) db2)"

text \<open>A transaction that is dropped before its commit leaves the tables as they were.\<close>

definition import_blocklist_tx ::
  "(nat \<Rightarrow> bool) \<Rightarrow> (nat \<Rightarrow> int) \<Rightarrow> int \<Rightarrow> string \<Rightarrow> string list \<Rightarrow> string \<Rightarrow> label_db \<Rightarrow>
   (policy_error + nat) \<times> label_db" where
  "import_blocklist_tx fault clock workspace chain addresses reason db =
     (if fault 0 then (Inl StoreFault, db)
      else case import_loop fault clock workspace chain reason 1 addresses 0 db of
             Inl e \<Rightarrow> (Inl e, db)
           | Inr (i, imported, db') \<Rightarrow>
               if fault i then (Inl StoreFault, db) else (Inr imported, db'))"

definition revoke_matches :: "int \<Rightarrow> string \<Rightarrow> string \<Rightarrow> string option \<Rightarrow> label_row \<Rightarrow> bool" where
  "revoke_matches workspace chain address kind r \<longleftrightarrow>
     lb_workspace r = workspace \<and> lb_chain r = chain \<and> lb_address r = address \<and>
     (case kind of None \<Rightarrow> True | Some k \<Rightarrow> lb_kind r = k) \<and> lb_revoked r = None"

definition revoke_wallet_label ::
  "int \<Rightarrow> string \<Rightarrow> string \<Rightarrow> string option \<Rightarrow> int \<Rightarrow> label_db \<Rightarrow> nat \<times> label_db" where
  "revoke_wallet_label workspace chain address kind now db =
     (length (filter (revoke_matches workspace chain address kind) (ld_labels db)),
      db\<lparr>ld_labels := map (\<lambda>r. if revoke_matches workspace chain address kind r
                              then r\<lparr>lb_revoked := Some now\<rparr> else r) (ld_labels db)\<rparr>)"

section \<open>The authoritative disposition\<close>

definition restrictiveness_rank :: "string \<Rightarrow> policy_error + nat" where
  "restrictiveness_rank disposition =
     (if disposition = ''skip'' then Inr 0
      else if disposition = ''flow_only'' then Inr 1
      else if disposition = ''watch'' then Inr 2
      else if disposition = ''score'' then Inr 3
      else Inl (UnknownDisposition disposition))"

definition disposition_stops_traversal :: "string \<Rightarrow> policy_error + bool" where
  "disposition_stops_traversal disposition =
     (case restrictiveness_rank disposition of
        Inl e \<Rightarrow> Inl e
      | Inr r \<Rightarrow> (case restrictiveness_rank ''flow_only'' of Inl e \<Rightarrow> Inl e | Inr f \<Rightarrow> Inr (r \<le> f)))"

definition label_active :: "int \<Rightarrow> int \<Rightarrow> string \<Rightarrow> string \<Rightarrow> label_row \<Rightarrow> bool" where
  "label_active now workspace chain address r \<longleftrightarrow>
     lb_workspace r = workspace \<and> lb_chain r = chain \<and> lb_address r = address \<and>
     lb_revoked r = None \<and> (case lb_expires r of None \<Rightarrow> True | Some t \<Rightarrow> now < t)"

definition candidate_better :: "bool \<times> nat \<times> string \<Rightarrow> bool \<times> nat \<times> string \<Rightarrow> bool" where
  "candidate_better candidate current \<longleftrightarrow>
     (fst candidate \<and> \<not> fst current) \<or>
     (fst candidate = fst current \<and> fst (snd candidate) < fst (snd current))"

fun disposition_loop ::
  "(bool \<times> nat \<times> string) option \<Rightarrow> (string \<times> bool) list \<Rightarrow> policy_error + (bool \<times> nat \<times> string) option" where
  "disposition_loop best [] = Inr best"
| "disposition_loop best ((disposition, manual) # rows) =
     (case restrictiveness_rank disposition of
        Inl e \<Rightarrow> Inl e
      | Inr restrictiveness \<Rightarrow>
          disposition_loop (prefer_step candidate_better best (manual, restrictiveness, disposition)) rows)"

definition best_disposition :: "label_row list \<Rightarrow> policy_error + string option" where
  "best_disposition rows =
     (case disposition_loop None (map (\<lambda>r. (lb_disposition r, lb_manual r)) rows) of
        Inl e \<Rightarrow> Inl e
      | Inr best \<Rightarrow> Inr (map_option (\<lambda>(_, _, d). d) best))"

definition active_disposition :: "int \<Rightarrow> int \<Rightarrow> string \<Rightarrow> string \<Rightarrow> label_db \<Rightarrow> policy_error + string option" where
  "active_disposition now workspace chain address db =
     best_disposition (filter (label_active now workspace chain address) (ld_labels db))"

definition manual_disposition :: "int \<Rightarrow> int \<Rightarrow> string \<Rightarrow> string \<Rightarrow> label_db \<Rightarrow> policy_error + string option" where
  "manual_disposition now workspace chain address db =
     best_disposition
       (filter (\<lambda>r. lb_manual r \<and> label_active now workspace chain address r) (ld_labels db))"

section \<open>Automatic classification\<close>

record BotClassification =
  bc_kind :: "WalletLabelKind option"
  bc_likelihood :: f64
  bc_swap_count :: nat
  bc_auto_skip :: bool
  bc_annotations :: "WalletLabelKind list"

definition AUTO_LABEL_MIN_SWAPS :: nat where
  "AUTO_LABEL_MIN_SWAPS = 100"

definition AUTO_SKIP_LIKELIHOOD :: f64 where
  "AUTO_SKIP_LIKELIHOOD = f64_lit (90 / 100)"

definition classify_bot :: "WalletLabelKind list \<Rightarrow> f64 \<Rightarrow> nat \<Rightarrow> BotClassification" where
  "classify_bot labels likelihood swap_count =
     (let has_mev = MevBot \<in> set labels;
          has_dex = DexBot \<in> set labels;
          annotations = filter
            (\<lambda>l. l \<in> set [Sniper, Bundler, RatTrader, Arbitrage, CopyTrader, MarketMaker]) labels;
          kind = (if has_mev then Some MevBot else if has_dex then Some DexBot else None)
      in \<lparr>bc_kind = kind, bc_likelihood = likelihood, bc_swap_count = swap_count,
          bc_auto_skip = (kind \<noteq> None \<and> f64_ge likelihood AUTO_SKIP_LIKELIHOOD \<and>
                          AUTO_LABEL_MIN_SWAPS \<le> swap_count),
          bc_annotations = annotations\<rparr>)"

text \<open>\<open>as i32\<close> on a float saturates; not a number becomes zero. The two-digit rendering of the
  likelihood in the reason text is an argument.\<close>

definition i32_sat :: "int \<Rightarrow> int" where
  "i32_sat n = max (- (2 ^ 31)) (min (2 ^ 31 - 1) n)"

fun f64_as_i32 :: "f64 \<Rightarrow> int" where
  "f64_as_i32 F_nan = 0"
| "f64_as_i32 F_ninf = - (2 ^ 31)"
| "f64_as_i32 F_pinf = 2 ^ 31 - 1"
| "f64_as_i32 (Fin x) = i32_sat (if 0 \<le> x then floor x else ceiling x)"

definition auto_reason :: "(f64 \<Rightarrow> string) \<Rightarrow> WalletLabelKind \<Rightarrow> BotClassification \<Rightarrow> string" where
  "auto_reason fmt2 kind c =
     ''automatic '' @ label_kind_as_str kind @ '' classification likelihood '' @ fmt2 (bc_likelihood c) @
     '' after '' @ show_nat (bc_swap_count c) @ '' swaps''"

definition apply_automatic_disposition ::
  "(f64 \<Rightarrow> string) \<Rightarrow> int \<Rightarrow> int \<Rightarrow> ChainKind \<Rightarrow> string \<Rightarrow> BotClassification \<Rightarrow> label_db \<Rightarrow>
   (policy_error + WalletDisposition) \<times> label_db" where
  "apply_automatic_disposition fmt2 now workspace chain address c db =
     (case manual_disposition now workspace (chain_kind_as_str chain) address db of
        Inl e \<Rightarrow> (Inl e, db)
      | Inr manual \<Rightarrow>
          (case Option.bind manual disposition_parse of
             Some d \<Rightarrow> (Inr d, db)
           | None \<Rightarrow>
               if \<not> bc_auto_skip c then (Inr DispScore, db)
               else case bc_kind c of
                      None \<Rightarrow> (Inl PanicNoKind, db)
                    | Some kind \<Rightarrow>
                        (case add_wallet_label workspace (chain_kind_as_str chain) address
                                (label_kind_as_str kind) ''skip'' (auto_reason fmt2 kind c) ''auto''
                                (f64_as_i32 (f64_mul (bc_likelihood c) (Fin 100))) False None db of
                           Inl e \<Rightarrow> (Inl e, db)
                         | Inr db' \<Rightarrow> (Inr DispSkip, db'))))"

definition effective_disposition ::
  "int \<Rightarrow> int \<Rightarrow> ChainKind \<Rightarrow> string \<Rightarrow> label_db \<Rightarrow> policy_error + WalletDisposition" where
  "effective_disposition now workspace chain address db =
     (case active_disposition now workspace (chain_kind_as_str chain) address db of
        Inl e \<Rightarrow> Inl e
      | Inr None \<Rightarrow> Inr DispWatch
      | Inr (Some value) \<Rightarrow>
          (case disposition_parse value of None \<Rightarrow> Inl (UnknownDisposition value) | Some d \<Rightarrow> Inr d))"

definition allows_deep_sync :: "WalletDisposition \<Rightarrow> bool" where
  "allows_deep_sync d \<longleftrightarrow> d \<noteq> DispSkip"

definition allows_scoring :: "WalletDisposition \<Rightarrow> bool" where
  "allows_scoring d \<longleftrightarrow> d = DispScore"

section \<open>The scan is the policy\<close>

interpretation candidate: strict_preference candidate_better
proof unfold_locales
  fix a b c :: "bool \<times> nat \<times> string"
  show "candidate_better a b \<Longrightarrow> \<not> candidate_better b a"
    by (auto simp: candidate_better_def)
  show "\<not> candidate_better a b \<Longrightarrow> \<not> candidate_better b c \<Longrightarrow> \<not> candidate_better a c"
    by (auto simp: candidate_better_def)
qed

definition known_disposition :: "string \<Rightarrow> bool" where
  "known_disposition d \<longleftrightarrow> \<not> isl (restrictiveness_rank d)"

definition rank_of :: "string \<Rightarrow> nat" where
  "rank_of d = projr (restrictiveness_rank d)"

lemma rank_cases:
  "restrictiveness_rank d = (if known_disposition d then Inr (rank_of d) else Inl (UnknownDisposition d))"
  by (simp add: known_disposition_def rank_of_def restrictiveness_rank_def)

lemma rank_inj: "known_disposition d \<Longrightarrow> known_disposition e \<Longrightarrow> rank_of d = rank_of e \<longleftrightarrow> d = e"
  by (auto simp: known_disposition_def rank_of_def restrictiveness_rank_def split: if_splits)

lemma known_parse:
  "known_disposition d \<Longrightarrow> \<exists>x. disposition_parse d = Some x \<and> disposition_as_str x = d"
proof -
  assume "known_disposition d"
  then have "d \<in> {disposition_as_str DispSkip, disposition_as_str DispFlowOnly,
                  disposition_as_str DispWatch, disposition_as_str DispScore}"
    by (auto simp: known_disposition_def restrictiveness_rank_def split: if_splits)
  then obtain x where "d = disposition_as_str x" by blast
  then show ?thesis using disposition.dec_enc [of x] by blast
qed

lemma disposition_loop_scan:
  "disposition_loop best rows =
     (case find (\<lambda>d. \<not> known_disposition d) (map fst rows) of
        Some d \<Rightarrow> Inl (UnknownDisposition d)
      | None \<Rightarrow> Inr (prefer_scan candidate_better best (map (\<lambda>(d, m). (m, rank_of d, d)) rows)))"
  by (induction best rows rule: disposition_loop.induct)
     (auto simp: prefer_scan_def rank_cases split: option.splits)

text \<open>The rows of one wallet with a common \<open>manual\<close> flag compete by rank; manual rows come first.\<close>

definition chosen :: "label_row list \<Rightarrow> string \<Rightarrow> bool" where
  "chosen rows d \<longleftrightarrow>
     list_ex (\<lambda>r. lb_disposition r = d \<and> (lb_manual r \<or> list_all (\<lambda>s. \<not> lb_manual s) rows) \<and>
                  list_all (\<lambda>s. lb_manual s = lb_manual r \<longrightarrow> rank_of d \<le> rank_of (lb_disposition s)) rows)
       rows"

lemma chosen_unique:
  assumes "list_all (\<lambda>r. known_disposition (lb_disposition r)) rows" "chosen rows d" "chosen rows e"
  shows "d = e"
proof -
  obtain r s where r: "r \<in> set rows" "lb_disposition r = d" "lb_manual r \<or> (\<forall>s \<in> set rows. \<not> lb_manual s)"
      "\<forall>s \<in> set rows. lb_manual s = lb_manual r \<longrightarrow> rank_of d \<le> rank_of (lb_disposition s)"
    and s: "s \<in> set rows" "lb_disposition s = e" "lb_manual s \<or> (\<forall>s \<in> set rows. \<not> lb_manual s)"
      "\<forall>u \<in> set rows. lb_manual u = lb_manual s \<longrightarrow> rank_of e \<le> rank_of (lb_disposition u)"
    using assms(2,3) unfolding chosen_def list_ex_iff list_all_iff by blast
  have "lb_manual r = lb_manual s" using r(1,3) s(1,3) by blast
  then have "rank_of d = rank_of e" using r s by (metis le_antisym)
  moreover have "known_disposition d \<and> known_disposition e" using assms(1) r s by (auto simp: list_all_iff)
  ultimately show ?thesis by (simp add: rank_inj)
qed

lemma best_disposition_cases:
  "best_disposition rows =
     (case find (\<lambda>d. \<not> known_disposition d) (map lb_disposition rows) of
        Some d \<Rightarrow> Inl (UnknownDisposition d)
      | None \<Rightarrow> Inr (map_option (\<lambda>(_, _, d). d)
          (prefer_scan candidate_better None
             (map (\<lambda>r. (lb_manual r, rank_of (lb_disposition r), lb_disposition r)) rows))))"
  by (simp add: best_disposition_def disposition_loop_scan comp_def split: option.splits)

lemma best_disposition_known:
  assumes "list_all (\<lambda>r. known_disposition (lb_disposition r)) rows"
  shows "(best_disposition rows = Inr None \<longleftrightarrow> rows = []) \<and>
         (best_disposition rows = Inr (Some d) \<longleftrightarrow> chosen rows d)"
proof -
  let ?cand = "\<lambda>r. (lb_manual r, rank_of (lb_disposition r), lb_disposition r)"
  let ?scan = "prefer_scan candidate_better None (map ?cand rows)"
  have eq: "best_disposition rows = Inr (map_option (\<lambda>(_, _, d). d) ?scan)"
    using assms by (auto simp: best_disposition_cases list_all_iff find_Some_iff
        split: option.splits dest!: nth_mem)
  have chosen_scan: "chosen rows e" if sc: "map_option (\<lambda>(_, _, d). d) ?scan = Some e" for e
  proof -
    obtain m k where s: "?scan = Some (m, k, e)" using sc by (cases ?scan) auto
    from candidate.scan_best [OF s] obtain r where r: "r \<in> set rows" "?cand r = (m, k, e)"
      "\<forall>u \<in> set rows. \<not> candidate_better (?cand u) (m, k, e)" by auto
    show ?thesis
      unfolding chosen_def list_ex_iff list_all_iff
      using r by (intro bexI [of _ r]) (auto simp: candidate_better_def not_less)
  qed
  have empty: "?scan = None \<longleftrightarrow> rows = []" by (simp add: candidate.scan_None)
  have "map_option (\<lambda>(_, _, d). d) ?scan = Some d" if "chosen rows d"
  proof -
    have "rows \<noteq> []" using that by (auto simp: chosen_def)
    then obtain e where e: "map_option (\<lambda>(_, _, d). d) ?scan = Some e" using empty by auto
    then show ?thesis using chosen_unique [OF assms that chosen_scan [OF e]] by simp
  qed
  then show ?thesis using eq chosen_scan empty by auto
qed

lemma best_disposition_error:
  "(\<exists>e. best_disposition rows = Inl e) \<longleftrightarrow> \<not> list_all (\<lambda>r. known_disposition (lb_disposition r)) rows"
  by (cases "find (\<lambda>d. \<not> known_disposition d) (map lb_disposition rows)")
     (simp_all add: best_disposition_cases, auto simp: list_all_iff find_None_iff find_Some_iff)

lemma best_disposition_named:
  "best_disposition rows = Inl e \<Longrightarrow>
   \<exists>r \<in> set rows. e = UnknownDisposition (lb_disposition r) \<and> \<not> known_disposition (lb_disposition r)"
  by (auto simp: best_disposition_cases find_Some_iff split: option.splits intro: bexI [OF _ nth_mem])

lemma chosen_set: "set rows = set rows' \<Longrightarrow> chosen rows d = chosen rows' d"
  by (simp add: chosen_def list_all_iff list_ex_iff)

lemma best_disposition_set:
  assumes "set rows = set rows'"
  shows "best_disposition rows = best_disposition rows' \<or>
         isl (best_disposition rows) \<and> isl (best_disposition rows')"
proof (cases "list_all (\<lambda>r. known_disposition (lb_disposition r)) rows")
  case True
  have True': "list_all (\<lambda>r. known_disposition (lb_disposition r)) rows'"
    using True assms by (simp add: list_all_iff)
  obtain o1 where o1: "best_disposition rows = Inr o1"
    using True best_disposition_error [of rows] by (cases "best_disposition rows") auto
  have "best_disposition rows' = Inr o1"
  proof (cases o1)
    case None
    then show ?thesis using o1 best_disposition_known [OF True] best_disposition_known [OF True'] assms by auto
  next
    case (Some d)
    then show ?thesis
      using o1 best_disposition_known [OF True, of d] best_disposition_known [OF True', of d]
        chosen_set [OF assms, of d] by auto
  qed
  then show ?thesis using o1 by simp
next
  case False
  then have "\<not> list_all (\<lambda>r. known_disposition (lb_disposition r)) rows'"
    using assms by (simp add: list_all_iff)
  then show ?thesis
    using False best_disposition_error [of rows] best_disposition_error [of rows'] by (metis isl_def)
qed

abbreviation active_rows :: "int \<Rightarrow> int \<Rightarrow> string \<Rightarrow> string \<Rightarrow> label_db \<Rightarrow> label_row list" where
  "active_rows now workspace chain address db \<equiv>
     filter (label_active now workspace chain address) (ld_labels db)"

lemma chosen_skip:
  assumes "r \<in> set rows" "lb_disposition r = ''skip''"
    "lb_manual r \<or> list_all (\<lambda>s. \<not> lb_manual s) rows"
  shows "chosen rows ''skip''"
  unfolding chosen_def list_ex_iff
  using assms by (intro bexI [of _ r]) (auto simp: list_all_iff rank_of_def restrictiveness_rank_def)

lemma chosen_known: "list_all (\<lambda>r. known_disposition (lb_disposition r)) rows \<Longrightarrow> chosen rows d \<Longrightarrow> known_disposition d"
  by (auto simp: chosen_def list_ex_iff list_all_iff)

section \<open>Properties\<close>

text \<open>C39: The disposition that governs a wallet. A row counts when it belongs to the workspace and
  wallet asked for and is neither revoked nor expired. If one of them is outside the vocabulary the
  answer is an error naming it; otherwise there is no disposition exactly when no row counts, and
  the disposition is d exactly when some row says d, that row is manual or no row is, and no row
  with the same manual flag is more restrictive. The answer depends on the rows of that wallet in
  that workspace alone, and neither their order nor repetitions change it.\<close>

theorem disposition_manual_first_most_restrictive:
  "(\<forall>e. active_disposition now w c a db = Inl e \<longrightarrow>
      list_ex (\<lambda>r. e = UnknownDisposition (lb_disposition r) \<and> \<not> known_disposition (lb_disposition r))
        (active_rows now w c a db)) \<and>
   (isl (active_disposition now w c a db) \<longleftrightarrow>
      list_ex (\<lambda>r. \<not> known_disposition (lb_disposition r)) (active_rows now w c a db)) \<and>
   (active_disposition now w c a db = Inr None \<longleftrightarrow> active_rows now w c a db = []) \<and>
   (\<forall>d. active_disposition now w c a db = Inr (Some d) \<longleftrightarrow>
      list_all (\<lambda>r. known_disposition (lb_disposition r)) (active_rows now w c a db) \<and>
      chosen (active_rows now w c a db) d) \<and>
   (set (filter (label_active now w c a) (ld_labels db')) = set (active_rows now w c a db) \<longrightarrow>
      active_disposition now w c a db' = active_disposition now w c a db \<or>
      isl (active_disposition now w c a db') \<and> isl (active_disposition now w c a db))"
proof -
  let ?rows = "active_rows now w c a db"
  let ?known = "list_all (\<lambda>r. known_disposition (lb_disposition r)) ?rows"
  have err: "isl (active_disposition now w c a db) \<longleftrightarrow> \<not> ?known"
    using best_disposition_error [of ?rows] by (simp add: active_disposition_def isl_def)
  have named: "list_ex (\<lambda>r. e = UnknownDisposition (lb_disposition r) \<and> \<not> known_disposition (lb_disposition r)) ?rows"
    if "active_disposition now w c a db = Inl e" for e
    using that best_disposition_named [of ?rows e] by (simp add: active_disposition_def list_ex_iff)
  have none: "active_disposition now w c a db = Inr None \<longleftrightarrow> ?rows = []"
  proof (cases ?known)
    case True
    then show ?thesis using best_disposition_known by (simp add: active_disposition_def)
  next
    case False
    then have "isl (active_disposition now w c a db)" using err by simp
    then show ?thesis using False by (auto simp: isl_def)
  qed
  have some: "active_disposition now w c a db = Inr (Some d) \<longleftrightarrow> ?known \<and> chosen ?rows d" for d
    using best_disposition_known [of ?rows d] err by (cases ?known) (auto simp: active_disposition_def isl_def)
  show ?thesis
    using err named none some best_disposition_set [of "active_rows now w c a db'" ?rows]
    by (simp add: active_disposition_def list_all_iff list_ex_iff)
qed

theorem disposition_manual_first_most_restrictive_witness:
  "active_disposition 10 1 ''solana'' ''W''
     \<lparr>ld_workspaces = [1], ld_wallets = Map.empty, ld_labels =
       [(block_row 1 ''solana'' ''W'' [])\<lparr>lb_manual := False\<rparr>,
        (block_row 1 ''solana'' ''W'' [])\<lparr>lb_disposition := ''watch''\<rparr>,
        (block_row 1 ''solana'' ''W'' [])\<lparr>lb_expires := Some 9\<rparr>,
        (block_row 2 ''solana'' ''W'' [])]\<rparr> = Inr (Some ''watch'')"
  (is "active_disposition _ _ _ _ ?db = _")
proof -
  have "list_all (\<lambda>r. known_disposition (lb_disposition r)) (active_rows 10 1 ''solana'' ''W'' ?db)"
    by (simp add: label_active_def block_row_def known_disposition_def restrictiveness_rank_def)
  moreover have "chosen (active_rows 10 1 ''solana'' ''W'' ?db) ''watch''"
    by (simp add: label_active_def block_row_def chosen_def rank_of_def restrictiveness_rank_def)
  ultimately show ?thesis
    using disposition_manual_first_most_restrictive [of 10 1 "''solana''" "''W''" ?db ?db] by blast
qed

subsection \<open>Automatic labels\<close>

lemma effective_of_chosen:
  assumes "list_all (\<lambda>r. known_disposition (lb_disposition r)) (active_rows now w (chain_kind_as_str k) a db)"
    "chosen (active_rows now w (chain_kind_as_str k) a db) (disposition_as_str d)"
  shows "effective_disposition now w k a db = Inr d"
  using best_disposition_known [OF assms(1), of "disposition_as_str d"] assms(2)
  by (simp add: effective_disposition_def active_disposition_def disposition.dec_enc)

lemma chosen_filter_manual:
  assumes "list_ex lb_manual rows"
  shows "chosen (filter lb_manual rows) d \<longleftrightarrow> chosen rows d"
  using assms by (auto simp: chosen_def list_ex_iff list_all_iff)

lemma manual_rows:
  "manual_disposition now w c a db = best_disposition (filter lb_manual (active_rows now w c a db))"
  by (simp add: manual_disposition_def conj_commute)

lemma manual_disposition_none:
  "list_all (\<lambda>r. \<not> lb_manual r) (active_rows now w c a db) \<Longrightarrow>
   manual_disposition now w c a db = Inr None"
  by (simp add: manual_rows best_disposition_def list_all_iff filter_empty_conv)

lemma manual_disposition_some:
  assumes "list_ex lb_manual (active_rows now w c a db)"
    "list_all (\<lambda>r. known_disposition (lb_disposition r)) (active_rows now w c a db)"
  obtains d where "manual_disposition now w c a db = Inr (Some (disposition_as_str d))"
    "chosen (active_rows now w c a db) (disposition_as_str d)"
proof -
  let ?rows = "active_rows now w c a db"
  have known: "list_all (\<lambda>r. known_disposition (lb_disposition r)) (filter lb_manual ?rows)"
    using assms(2) by (auto simp: list_all_iff)
  have "best_disposition (filter lb_manual ?rows) \<noteq> Inr None"
    using best_disposition_known [OF known] assms(1) by (auto simp: list_ex_iff filter_empty_conv)
  moreover have "\<not> (\<exists>e. best_disposition (filter lb_manual ?rows) = Inl e)"
    using known best_disposition_error by blast
  ultimately obtain e where e: "best_disposition (filter lb_manual ?rows) = Inr (Some e)"
    by (cases "best_disposition (filter lb_manual ?rows)") (auto split: option.splits)
  then have ch: "chosen (filter lb_manual ?rows) e" using best_disposition_known [OF known] by blast
  then obtain d where "disposition_as_str d = e" using chosen_known [OF known] known_parse by blast
  then show thesis
    using that [of d] e ch chosen_filter_manual [OF assms(1), of e] by (simp only: manual_rows)
qed

text \<open>The row an automatic skip writes.\<close>

definition auto_row :: "(f64 \<Rightarrow> string) \<Rightarrow> int \<Rightarrow> string \<Rightarrow> string \<Rightarrow> WalletLabelKind \<Rightarrow> BotClassification \<Rightarrow> label_row" where
  "auto_row fmt2 w c a kind cls =
     \<lparr>lb_workspace = w, lb_chain = c, lb_address = a, lb_kind = label_kind_as_str kind,
      lb_disposition = ''skip'', lb_reason = auto_reason fmt2 kind cls, lb_source = ''auto'',
      lb_confidence = f64_as_i32 (f64_mul (bc_likelihood cls) (Fin 100)), lb_manual = False,
      lb_expires = None, lb_revoked = None\<rparr>"

lemma apply_no_manual:
  assumes "list_all (\<lambda>r. \<not> lb_manual r) (active_rows now w (chain_kind_as_str k) a db)"
  shows "apply_automatic_disposition fmt2 now w k a cls db =
    (if \<not> bc_auto_skip cls then (Inr DispScore, db)
     else case bc_kind cls of
            None \<Rightarrow> (Inl PanicNoKind, db)
          | Some kind \<Rightarrow>
              (if w \<in> set (ld_workspaces db) \<and> ld_wallets db (chain_kind_as_str k, a) \<noteq> None
               then (Inr DispSkip, db\<lparr>ld_labels := ld_labels db @ [auto_row fmt2 w (chain_kind_as_str k) a kind cls]\<rparr>)
               else (Inl ForeignKeyViolation, db)))"
  using manual_disposition_none [OF assms]
  by (cases "bc_kind cls")
     (auto simp: apply_automatic_disposition_def add_wallet_label_def insert_label_def auto_row_def)

lemma apply_manual:
  assumes "list_ex lb_manual (active_rows now w (chain_kind_as_str k) a db)"
    "list_all (\<lambda>r. known_disposition (lb_disposition r)) (active_rows now w (chain_kind_as_str k) a db)"
  shows "apply_automatic_disposition fmt2 now w k a cls db = (effective_disposition now w k a db, db)"
proof -
  obtain d where d: "manual_disposition now w (chain_kind_as_str k) a db = Inr (Some (disposition_as_str d))"
    "chosen (active_rows now w (chain_kind_as_str k) a db) (disposition_as_str d)"
    using manual_disposition_some [OF assms] by blast
  then show ?thesis
    using effective_of_chosen [OF assms(2) d(2)]
    by (simp add: apply_automatic_disposition_def disposition.dec_enc)
qed

lemma effective_after_auto_row:
  assumes "list_all (\<lambda>r. known_disposition (lb_disposition r)) (active_rows now w (chain_kind_as_str k) a db)"
    "list_all (\<lambda>r. \<not> lb_manual r) (active_rows now w (chain_kind_as_str k) a db)"
  shows "effective_disposition now w k a
    (db\<lparr>ld_labels := ld_labels db @ [auto_row fmt2 w (chain_kind_as_str k) a kind cls]\<rparr>) = Inr DispSkip"
    (is "effective_disposition _ _ _ _ ?db = _")
proof -
  let ?row = "auto_row fmt2 w (chain_kind_as_str k) a kind cls"
  have rows: "active_rows now w (chain_kind_as_str k) a ?db =
              active_rows now w (chain_kind_as_str k) a db @ [?row]"
    by (simp add: label_active_def auto_row_def)
  have skip: "lb_disposition ?row = ''skip''" "\<not> lb_manual ?row" by (simp_all add: auto_row_def)
  show ?thesis
    using effective_of_chosen [of now w k a ?db DispSkip] chosen_skip [of ?row "active_rows now w (chain_kind_as_str k) a ?db"]
      assms skip unfolding rows by (simp add: known_disposition_def restrictiveness_rank_def)
qed

text \<open>Automatic labels never override an operator. A classification skips automatically only
  for a wallet labelled as an MEV or DEX bot with a likelihood of at least 0.90 over at least a hundred
  swaps. Applying a classification where an active manual label exists changes no row and returns the
  disposition in force. Where none exists, an automatic skip adds one revocable automatic row, after
  which the wallet is skipped, provided the wallet and the workspace are known; without an automatic
  skip nothing is written. The disposition of every other wallet, chain and workspace stays, and the
  panic of the code cannot happen on a classification it made.\<close>

theorem automatic_never_overrides_manual:
  assumes "cls = classify_bot labels likelihood swaps"
    and "apply_automatic_disposition fmt2 now w k a cls db = (res, db')"
    and "list_all (\<lambda>r. known_disposition (lb_disposition r)) (active_rows now w (chain_kind_as_str k) a db)"
  shows "(bc_auto_skip cls \<longleftrightarrow>
            (MevBot \<in> set labels \<or> DexBot \<in> set labels) \<and> f64_le AUTO_SKIP_LIKELIHOOD likelihood \<and> 100 \<le> swaps) \<and>
    (list_ex lb_manual (active_rows now w (chain_kind_as_str k) a db) \<longrightarrow>
       res = effective_disposition now w k a db \<and> db' = db) \<and>
    (list_all (\<lambda>r. \<not> lb_manual r) (active_rows now w (chain_kind_as_str k) a db) \<and> bc_auto_skip cls \<and>
     w \<in> set (ld_workspaces db) \<and> ld_wallets db (chain_kind_as_str k, a) \<noteq> None \<longrightarrow>
       res = Inr DispSkip \<and> effective_disposition now w k a db' = Inr DispSkip \<and>
       (\<exists>row. ld_labels db' = ld_labels db @ [row] \<and> \<not> lb_manual row \<and> lb_revoked row = None)) \<and>
    (\<not> bc_auto_skip cls \<longrightarrow> db' = db) \<and>
    ((w', k', a') \<noteq> (w, k, a) \<longrightarrow> effective_disposition now w' k' a' db' = effective_disposition now w' k' a' db) \<and>
    res \<noteq> Inl PanicNoKind"
proof -
  let ?rows = "active_rows now w (chain_kind_as_str k) a db"
  have cls: "bc_auto_skip cls \<longleftrightarrow>
      (MevBot \<in> set labels \<or> DexBot \<in> set labels) \<and> f64_le AUTO_SKIP_LIKELIHOOD likelihood \<and> 100 \<le> swaps"
    "bc_auto_skip cls \<Longrightarrow> \<exists>kind. bc_kind cls = Some kind"
    by (auto simp: assms(1) classify_bot_def Let_def AUTO_LABEL_MIN_SWAPS_def)
  show ?thesis
  proof (cases "list_ex lb_manual ?rows")
    case True
    have "res = effective_disposition now w k a db" "db' = db"
      using apply_manual [OF True assms(3), of fmt2 cls] assms(2) by simp_all
    moreover have "effective_disposition now w k a db \<noteq> Inl PanicNoKind"
      using best_disposition_named [of ?rows PanicNoKind]
      by (auto simp: effective_disposition_def active_disposition_def split: sum.splits option.splits)
    moreover have "\<not> list_all (\<lambda>r. \<not> lb_manual r) ?rows" using True by (auto simp: list_ex_iff list_all_iff)
    ultimately show ?thesis using cls(1) by simp
  next
    case False
    then have nm: "list_all (\<lambda>r. \<not> lb_manual r) ?rows" by (auto simp: list_ex_iff list_all_iff)
    note eq = apply_no_manual [OF nm, of fmt2 cls, unfolded assms(2)]
    have other: "effective_disposition now w' k' a' (db\<lparr>ld_labels := ld_labels db @ [auto_row fmt2 w (chain_kind_as_str k) a kind cls]\<rparr>)
        = effective_disposition now w' k' a' db" if "(w', k', a') \<noteq> (w, k, a)" for kind
      using that by (auto simp: effective_disposition_def active_disposition_def label_active_def auto_row_def
          chain_kind.enc_inj)
    show ?thesis
    proof (cases "bc_auto_skip cls")
      case True
      then obtain kind where kind: "bc_kind cls = Some kind" using cls(2) by blast
      show ?thesis
      proof (cases "w \<in> set (ld_workspaces db) \<and> ld_wallets db (chain_kind_as_str k, a) \<noteq> None")
        case known: True
        have row: "\<not> lb_manual (auto_row fmt2 w (chain_kind_as_str k) a kind cls) \<and>
                   lb_revoked (auto_row fmt2 w (chain_kind_as_str k) a kind cls) = None"
          by (simp add: auto_row_def)
        have "res = Inr DispSkip \<and>
              db' = db\<lparr>ld_labels := ld_labels db @ [auto_row fmt2 w (chain_kind_as_str k) a kind cls]\<rparr>"
          using eq True kind known by simp
        then show ?thesis
          using other [of kind] effective_after_auto_row [OF assms(3) nm, of fmt2 kind cls] row True False cls(1)
          by simp
      next
        case unknown: False
        have "res = Inl ForeignKeyViolation \<and> db' = db" using eq True kind unknown by auto
        then show ?thesis using unknown False True cls(1) by blast
      qed
    next
      case noskip: False
      then have "res = Inr DispScore \<and> db' = db" using eq by simp
      then show ?thesis using noskip False cls(1) by blast
    qed
  qed
qed

theorem automatic_never_overrides_manual_witness:
  "apply_automatic_disposition (\<lambda>_. ''0.95'') 0 1 KindSolana ''W'' (classify_bot [MevBot] (Fin (95 / 100)) 150)
     \<lparr>ld_workspaces = [1], ld_wallets = Map.empty, ld_labels =
        [(block_row 1 ''solana'' ''W'' [])\<lparr>lb_disposition := ''watch''\<rparr>]\<rparr> =
   (Inr DispWatch, \<lparr>ld_workspaces = [1], ld_wallets = Map.empty, ld_labels =
        [(block_row 1 ''solana'' ''W'' [])\<lparr>lb_disposition := ''watch''\<rparr>]\<rparr>)"
  (is "apply_automatic_disposition ?fmt 0 1 KindSolana ''W'' ?cls ?db = _")
proof -
  obtain res db' where r: "apply_automatic_disposition ?fmt 0 1 KindSolana ''W'' ?cls ?db = (res, db')" by fastforce
  have k: "list_all (\<lambda>r. known_disposition (lb_disposition r)) (active_rows 0 1 (chain_kind_as_str KindSolana) ''W'' ?db)"
    and m: "list_ex lb_manual (active_rows 0 1 (chain_kind_as_str KindSolana) ''W'' ?db)"
    by (simp_all add: label_active_def block_row_def known_disposition_def restrictiveness_rank_def)
  have "effective_disposition 0 1 KindSolana ''W'' ?db = Inr DispWatch"
    by (rule effective_of_chosen [OF k])
       (simp add: label_active_def block_row_def chosen_def rank_of_def restrictiveness_rank_def)
  then show ?thesis
    using automatic_never_overrides_manual [OF refl r k, of 0 KindSolana "[]"] m r by simp
qed

text \<open>Two observations. On a wallet with an active automatic \<open>skip\<close> and no manual label, a
  classification without an automatic skip answers \<open>Score\<close> although the wallet stays skipped. A row
  with the column default \<open>annotation\<close> turns the policy of its wallet into an error.\<close>

lemma automatic_answer_disagrees:
  assumes "list_all (\<lambda>r. \<not> lb_manual r) (active_rows now w (chain_kind_as_str k) a db)"
    "list_all (\<lambda>r. known_disposition (lb_disposition r)) (active_rows now w (chain_kind_as_str k) a db)"
    "r \<in> set (active_rows now w (chain_kind_as_str k) a db)" "lb_disposition r = ''skip''" "\<not> bc_auto_skip cls"
  shows "fst (apply_automatic_disposition fmt2 now w k a cls db) = Inr DispScore \<and>
         effective_disposition now w k a db = Inr DispSkip"
  using apply_no_manual [OF assms(1), of fmt2 cls] effective_of_chosen [OF assms(2), of DispSkip]
    chosen_skip [OF assms(3,4)] assms(1,5) by simp

lemma default_disposition_is_an_error:
  "r \<in> set (active_rows now w c a db) \<Longrightarrow> lb_disposition r = ''annotation'' \<Longrightarrow>
   isl (active_disposition now w c a db)"
proof -
  assume r: "r \<in> set (active_rows now w c a db)" "lb_disposition r = ''annotation''"
  have "\<not> known_disposition ''annotation''" by (simp add: known_disposition_def restrictiveness_rank_def)
  then have "\<not> list_all (\<lambda>r. known_disposition (lb_disposition r)) (active_rows now w c a db)"
    using r unfolding list_all_iff by metis
  then show ?thesis
    using best_disposition_error [of "active_rows now w c a db"] by (auto simp: active_disposition_def)
qed

subsection \<open>Blocklists\<close>

lemma upsert_labels [simp]:
  "ld_labels (upsert_blocked_wallet c a t db) = ld_labels db"
  "ld_workspaces (upsert_blocked_wallet c a t db) = ld_workspaces db"
  "ld_wallets (upsert_blocked_wallet c a t db) (c, a) \<noteq> None"
  by (simp_all add: upsert_blocked_wallet_def)

abbreviation blocked :: "string list \<Rightarrow> string list" where
  "blocked lines \<equiv> map trim (filter (\<lambda>l. \<not> blocklist_skips l) lines)"

lemma insert_block_row:
  "insert_label (block_row w c a reason) (upsert_blocked_wallet c a t db) =
     (if w \<in> set (ld_workspaces db)
      then Inr ((upsert_blocked_wallet c a t db)\<lparr>ld_labels := ld_labels db @ [block_row w c a reason]\<rparr>)
      else Inl ForeignKeyViolation)"
  by (simp add: insert_label_def block_row_def)

lemma import_loop_ok:
  "import_loop fault clock w c reason i lines n db = Inr (j, m, db') \<Longrightarrow> n < 2 ^ 32 \<Longrightarrow>
     m = as_u32 (n + length (blocked lines)) \<and> ld_workspaces db' = ld_workspaces db \<and>
     ld_labels db' = ld_labels db @ map (\<lambda>a. block_row w c a reason) (blocked lines)"
proof (induction fault clock w c reason i lines n db rule: import_loop.induct)
  case (2 fault clock w c reason i line lines n db)
  show ?case
  proof (cases "blocklist_skips line")
    case True
    then show ?thesis using 2 by simp
  next
    case False
    let ?a = "trim line"
    let ?db = "(upsert_blocked_wallet c ?a (clock i) db)\<lparr>ld_labels := ld_labels db @ [block_row w c ?a reason]\<rparr>"
    have ok: "\<not> fault i" "\<not> fault (i + 1)" "w \<in> set (ld_workspaces db)"
      and rest: "import_loop fault clock w c reason (i + 2) lines (as_u32 (n + 1)) ?db = Inr (j, m, db')"
      using 2(3) False by (auto simp: insert_block_row Let_def split: if_splits)
    have "m = as_u32 (as_u32 (n + 1) + length (blocked lines)) \<and> ld_workspaces db' = ld_workspaces ?db \<and>
          ld_labels db' = ld_labels ?db @ map (\<lambda>a. block_row w c a reason) (blocked lines)"
      using 2(2) [OF refl False ok(1) refl ok(2), of ?db] ok(3) rest as_u32_bound [of "n + 1"]
      by (simp add: insert_block_row)
    then show ?thesis using False by (simp add: as_u32_def mod_simps)
  qed
qed simp

lemma import_loop_total:
  "\<forall>i. \<not> fault i \<Longrightarrow> w \<in> set (ld_workspaces db) \<Longrightarrow>
   \<exists>j m db'. import_loop fault clock w c reason i lines n db = Inr (j, m, db')"
proof (induction fault clock w c reason i lines n db rule: import_loop.induct)
  case (2 fault clock w c reason i line lines n db)
  then show ?case
    by (cases "blocklist_skips line") (simp_all add: insert_block_row Let_def)
qed simp

lemma active_appended:
  "active_rows now w c a (db\<lparr>ld_labels := ld_labels db @ extra\<rparr>) =
   active_rows now w c a db @ filter (label_active now w c a) extra"
  by simp

lemma block_row_active [simp]:
  "label_active now w' c' a' (block_row w c a reason) \<longleftrightarrow> w' = w \<and> c' = c \<and> a' = a"
  by (auto simp: label_active_def block_row_def)

lemma block_row_known: "known_disposition (lb_disposition (block_row w c a reason))"
  by (simp add: block_row_def known_disposition_def restrictiveness_rank_def)

lemma blocked_wallet_skipped:
  assumes "ld_labels db' = ld_labels db @ map (\<lambda>a. block_row w c a reason) as" "a \<in> set as"
    "list_all (\<lambda>r. known_disposition (lb_disposition r)) (active_rows now w c a db)"
  shows "active_disposition now w c a db' = Inr (Some ''skip'')"
proof -
  let ?rows = "active_rows now w c a db'"
  have known: "list_all (\<lambda>r. known_disposition (lb_disposition r)) ?rows"
    using assms(3) block_row_known by (auto simp: assms(1) list_all_iff)
  have "block_row w c a reason \<in> set ?rows" using assms(2) by (auto simp: assms(1))
  then have "chosen ?rows ''skip''" by (rule chosen_skip) (simp_all add: block_row_def)
  then show ?thesis using best_disposition_known [OF known] by (simp add: active_disposition_def)
qed

lemma revoke_active:
  "active_rows t w' c' a' (snd (revoke_wallet_label w c a kind now db)) =
   filter (\<lambda>r. \<not> revoke_matches w c a kind r) (active_rows t w' c' a' db)"
proof -
  have "\<not> label_active t w' c' a' (r\<lparr>lb_revoked := Some now\<rparr>)" for r :: label_row
    by (simp add: label_active_def)
  then have "filter (label_active t w' c' a')
      (map (\<lambda>r. if revoke_matches w c a kind r then r\<lparr>lb_revoked := Some now\<rparr> else r) rows) =
    filter (\<lambda>r. \<not> revoke_matches w c a kind r) (filter (label_active t w' c' a') rows)" for rows
    by (induction rows) simp_all
  then show ?thesis by (simp add: revoke_wallet_label_def del: filter_filter)
qed

lemma revoke_twice:
  "fst (revoke_wallet_label w c a kind t (snd (revoke_wallet_label w c a kind now db))) = 0"
  by (auto simp: revoke_wallet_label_def revoke_matches_def filter_empty_conv split: if_splits)

text \<open>A blocklist import is all or nothing, and so is its effect. If any statement fails, the
  tables are as before. With a working store and an existing workspace the import succeeds. When it
  succeeds it returns the number of lines that are neither blank nor comments (modulo 2 to the 32), it
  appends exactly their rows, each listed wallet is skipped in that workspace, and no other
  workspace sees any change. Revoking a wallet's labels keeps every row, leaves that wallet without
  an active one and no other wallet changed, and a repetition reports zero rows.\<close>

theorem blocklist_is_all_or_nothing:
  assumes "import_blocklist_tx fault clock w c lines reason db = (res, db')"
  shows "(isl res \<longrightarrow> db' = db) \<and>
    ((\<forall>i. \<not> fault i) \<and> w \<in> set (ld_workspaces db) \<longrightarrow> \<not> isl res) \<and>
    (\<forall>n. res = Inr n \<longrightarrow>
       n = as_u32 (length (blocked lines)) \<and>
       ld_labels db' = ld_labels db @ map (\<lambda>a. block_row w c a reason) (blocked lines) \<and>
       (a \<in> set (blocked lines) \<and>
        list_all (\<lambda>r. known_disposition (lb_disposition r)) (active_rows now w c a db) \<longrightarrow>
          active_disposition now w c a db' = Inr (Some ''skip'')) \<and>
       ((w', c') \<noteq> (w, c) \<longrightarrow> active_disposition now w' c' a db' = active_disposition now w' c' a db)) \<and>
    length (ld_labels (snd (revoke_wallet_label w c a None t db'))) = length (ld_labels db') \<and>
    active_disposition now w c a (snd (revoke_wallet_label w c a None t db')) = Inr None \<and>
    ((w', c', a') \<noteq> (w, c, a) \<longrightarrow>
       active_disposition now w' c' a' (snd (revoke_wallet_label w c a kind t db')) =
       active_disposition now w' c' a' db') \<and>
    fst (revoke_wallet_label w c a kind t' (snd (revoke_wallet_label w c a kind t db'))) = 0"
proof (intro conjI impI allI)
  show "db' = db" if "isl res"
    using that assms by (auto simp: import_blocklist_tx_def split: if_splits sum.splits)
  show "\<not> isl res" if "(\<forall>i. \<not> fault i) \<and> w \<in> set (ld_workspaces db)"
    using that assms import_loop_total [of fault w db clock c reason 1 lines 0]
    by (auto simp: import_blocklist_tx_def)
  show "length (ld_labels (snd (revoke_wallet_label w c a None t db'))) = length (ld_labels db')"
    by (simp add: revoke_wallet_label_def)
  have "filter (\<lambda>r. \<not> revoke_matches w c a None r) (active_rows now w c a db') = []"
    by (auto simp: filter_empty_conv revoke_matches_def label_active_def)
  then show "active_disposition now w c a (snd (revoke_wallet_label w c a None t db')) = Inr None"
    by (simp add: active_disposition_def revoke_active best_disposition_def del: filter_filter)
  show "active_disposition now w' c' a' (snd (revoke_wallet_label w c a kind t db')) =
        active_disposition now w' c' a' db'" if "(w', c', a') \<noteq> (w, c, a)"
  proof -
    have "filter (\<lambda>r. \<not> revoke_matches w c a kind r) (active_rows now w' c' a' db') = active_rows now w' c' a' db'"
      unfolding filter_id_conv using that by (auto simp: revoke_matches_def label_active_def)
    then show ?thesis by (simp add: active_disposition_def revoke_active del: filter_filter)
  qed
  show "fst (revoke_wallet_label w c a kind t' (snd (revoke_wallet_label w c a kind t db'))) = 0"
    by (rule revoke_twice)
next
  fix n assume n: "res = Inr n"
  then obtain j where "import_loop fault clock w c reason 1 lines 0 db = Inr (j, n, db')"
    using assms by (auto simp: import_blocklist_tx_def split: if_splits sum.splits)
  then have loop: "n = as_u32 (length (blocked lines))"
    "ld_labels db' = ld_labels db @ map (\<lambda>a. block_row w c a reason) (blocked lines)"
    using import_loop_ok [of fault clock w c reason 1 lines 0 db j n db'] by simp_all
  then show "n = as_u32 (length (blocked lines))"
    "ld_labels db' = ld_labels db @ map (\<lambda>a. block_row w c a reason) (blocked lines)" by auto
  show "active_disposition now w c a db' = Inr (Some ''skip'')"
    if "a \<in> set (blocked lines) \<and>
        list_all (\<lambda>r. known_disposition (lb_disposition r)) (active_rows now w c a db)"
    using that loop(2) blocked_wallet_skipped by blast
  show "active_disposition now w' c' a db' = active_disposition now w' c' a db" if "(w', c') \<noteq> (w, c)"
    using that by (auto simp: active_disposition_def loop(2))
qed

theorem blocklist_is_all_or_nothing_witness:
  "fst (import_blocklist_tx (\<lambda>_. False) (\<lambda>_. 5) 1 ''solana'' [''# bad'', '' W '', [], ''V''] ''rug''
     \<lparr>ld_workspaces = [1], ld_wallets = Map.empty, ld_labels = []\<rparr>) = Inr 2 \<and>
   active_disposition 9 1 ''solana'' ''W''
     (snd (import_blocklist_tx (\<lambda>_. False) (\<lambda>_. 5) 1 ''solana'' [''# bad'', '' W '', [], ''V''] ''rug''
        \<lparr>ld_workspaces = [1], ld_wallets = Map.empty, ld_labels = []\<rparr>)) = Inr (Some ''skip'')"
proof -
  let ?db = "\<lparr>ld_workspaces = [1], ld_wallets = Map.empty, ld_labels = []\<rparr>"
  let ?lines = "[''# bad'', '' W '', [], ''V'']"
  obtain res db' where r: "import_blocklist_tx (\<lambda>_. False) (\<lambda>_. 5) 1 ''solana'' ?lines ''rug'' ?db = (res, db')"
    by fastforce
  have b: "blocked ?lines = [''W'', ''V'']"
    by (simp add: blocklist_skips_def trim_def is_whitespace_def)
  note all = blocklist_is_all_or_nothing [OF r, of "''W''" 9]
  have "\<not> isl res" using all by simp
  then obtain n where n: "res = Inr n" by (cases res) auto
  then have "n = as_u32 (length (blocked ?lines))" "active_disposition 9 1 ''solana'' ''W'' db' = Inr (Some ''skip'')"
    using all unfolding b by simp_all
  then have "n = 2 \<and> active_disposition 9 1 ''solana'' ''W'' db' = Inr (Some ''skip'')"
    unfolding b by (simp add: as_u32_def)
  then show ?thesis using r n by simp
qed

end
