(* ===== verification/Decimals.thy ===== *)
theory Decimals
  imports Prelude
begin

text \<open>
  More of the external decimal type: conversion from integers, the exact reader of decimal literals,
  truncation to \<open>u32\<close> and the absolute value, with the laws the scoring and signal code rely on.
\<close>

record 'd decimal_num = "'d decimal_api" +
  dec_of_int :: "int \<Rightarrow> 'd"
  dec_exact :: "string \<Rightarrow> 'd option"
  dec_to_u32 :: "'d \<Rightarrow> nat option"
  dec_abs :: "'d \<Rightarrow> 'd"

text \<open>The number a literal of digits with at most one point denotes.\<close>

definition is_digit :: "char \<Rightarrow> bool" where
  "is_digit c \<longleftrightarrow> (let n = of_char c :: nat in 48 \<le> n \<and> n \<le> 57)"

definition lit_value :: "string \<Rightarrow> rat option" where
  "lit_value s =
     (let whole = takeWhile is_digit s; rest = dropWhile is_digit s
      in if whole = [] then None
         else if rest = [] then Some (of_nat (read_nat whole))
         else if hd rest = CHR ''.'' \<and> tl rest \<noteq> [] \<and> list_all is_digit (tl rest)
           then Some (of_nat (read_nat whole) + of_nat (read_nat (tl rest)) / 10 ^ length (tl rest))
         else None)"

text \<open>\<open>Decimal::from_str_exact(..).unwrap()\<close> on a literal of the source; \<open>unwrap_or\<close> elsewhere.\<close>

definition dec_lit :: "('d, 'x) decimal_num_scheme \<Rightarrow> string \<Rightarrow> 'd" where
  "dec_lit D s = (case dec_exact D s of Some d \<Rightarrow> d | None \<Rightarrow> dec_zero D)"

abbreviation dec_le :: "('d, 'x) decimal_api_scheme \<Rightarrow> 'd \<Rightarrow> 'd \<Rightarrow> bool" where
  "dec_le D a b \<equiv> \<not> dec_lt D b a"

text \<open>\<open>Ord::clamp\<close>.\<close>

definition dec_clamp :: "('d, 'x) decimal_api_scheme \<Rightarrow> 'd \<Rightarrow> 'd \<Rightarrow> 'd \<Rightarrow> 'd" where
  "dec_clamp D x lo hi = (if dec_lt D x lo then lo else if dec_lt D hi x then hi else x)"

locale decimal_num_laws = decimal_laws D dv
  for D :: "('d, 'x) decimal_num_scheme" and dv :: "'d \<Rightarrow> rat" +
  assumes dv_of_int: "dv (dec_of_int D n) = of_int n"
    and dv_exact: "lit_value s = Some q \<Longrightarrow> \<exists>d. dec_exact D s = Some d \<and> dv d = q"
    and to_u32: "0 \<le> dv a \<Longrightarrow> dv a < 2 ^ 32 \<Longrightarrow> dec_to_u32 D a = Some (nat (floor (dv a)))"
    and dv_abs: "dv (dec_abs D a) = abs (dv a)"
    and dv_mul_int: "dv (dec_mul D a (dec_of_int D n)) = dv a * of_int n"
    and dv_div_unit: "0 \<le> dv a \<Longrightarrow> dv a \<le> dv b \<Longrightarrow> 0 < dv b \<Longrightarrow>
        0 \<le> dv (dec_div D a b) \<and> dv (dec_div D a b) \<le> 1"
    and dv_half: "dv (dec_div D a (dec_of_int D 2)) = dv a / 2"
begin

lemma dv_lit: "lit_value s = Some q \<Longrightarrow> dv (dec_lit D s) = q"
  using dv_exact by (fastforce simp: dec_lit_def)

lemma dv_clamp: "dv lo \<le> dv hi \<Longrightarrow> dv (dec_clamp D x lo hi) = max (dv lo) (min (dv hi) (dv x))"
  by (auto simp: dec_clamp_def lt_dv max_def min_def)

lemma clamp_bounds:
  "dv lo \<le> dv hi \<Longrightarrow> dv lo \<le> dv (dec_clamp D x lo hi) \<and> dv (dec_clamp D x lo hi) \<le> dv hi"
  by (simp add: dv_clamp)

end

text \<open>The exact rationals satisfy these laws too.\<close>

definition rat_num :: "rat decimal_num" where
  "rat_num = decimal_api.extend rat_decimal
     (decimal_num.fields of_int lit_value
        (\<lambda>a. if 0 \<le> a \<and> a < 2 ^ 32 then Some (nat (floor a)) else None) abs)"

lemma rat_num_simps [simp]:
  "dec_zero rat_num = 0" "dec_add rat_num = (+)" "dec_sub rat_num = (-)" "dec_mul rat_num = (*)"
  "dec_div rat_num = (/)" "dec_lt rat_num = (<)" "dec_eq rat_num = (=)"
  "dec_of_int rat_num = of_int" "dec_exact rat_num = lit_value" "dec_abs rat_num = abs"
  "dec_to_u32 rat_num = (\<lambda>a. if 0 \<le> a \<and> a < 2 ^ 32 then Some (nat (floor a)) else None)"
  by (simp_all add: rat_num_def rat_decimal_def decimal_api.defs decimal_num.defs)

interpretation rat_num: decimal_num_laws rat_num id
  by unfold_locales (auto simp: divide_le_eq)

end
