(* ===== verification/Transactions.thy ===== *)
theory Transactions
  imports Prelude
begin

text \<open>
  Database transactions: a program over the tables that counts its statements. A statement fails when
  the fault schedule says so; \<open>run_tx\<close> starts at statement 1 after \<open>BEGIN\<close> (number 0), and on any
  error, a failing \<open>COMMIT\<close> included, the tables are as they were before.
\<close>

datatype 'e tx_error = TxFault | TxAbort 'e

type_synonym faults = "nat \<Rightarrow> bool"
type_synonym ('s, 'e, 'a) tx = "faults \<Rightarrow> nat \<times> 's \<Rightarrow> 'e tx_error + ('a \<times> nat \<times> 's)"

definition tx_return :: "'a \<Rightarrow> ('s, 'e, 'a) tx" where
  "tx_return x = (\<lambda>fault s. Inr (x, s))"

definition tx_abort :: "'e \<Rightarrow> ('s, 'e, 'a) tx" where
  "tx_abort e = (\<lambda>fault s. Inl (TxAbort e))"

definition tx_bind :: "('s, 'e, 'a) tx \<Rightarrow> ('a \<Rightarrow> ('s, 'e, 'b) tx) \<Rightarrow> ('s, 'e, 'b) tx" where
  "tx_bind m k = (\<lambda>fault s. case m fault s of Inl e \<Rightarrow> Inl e | Inr (a, s') \<Rightarrow> k a fault s')"

definition tx_stmt :: "('s \<Rightarrow> 'a \<times> 's) \<Rightarrow> ('s, 'e, 'a) tx" where
  "tx_stmt g = (\<lambda>fault (i, s). if fault i then Inl TxFault else (case g s of (a, s') \<Rightarrow> Inr (a, i + 1, s')))"

definition run_tx :: "('s, 'e, 'a) tx \<Rightarrow> faults \<Rightarrow> 's \<Rightarrow> ('e tx_error + 'a) \<times> 's" where
  "run_tx m fault s =
     (if fault 0 then (Inl TxFault, s)
      else case m fault (1, s) of
             Inl e \<Rightarrow> (Inl e, s)
           | Inr (a, i, s') \<Rightarrow> if fault i then (Inl TxFault, s) else (Inr a, s'))"

section \<open>Laws\<close>

lemma tx_bind_return [simp]: "tx_bind (tx_return x) k = k x"
  by (simp add: tx_bind_def tx_return_def)

lemma tx_bind_abort [simp]: "tx_bind (tx_abort e) k = tx_abort e"
  by (simp add: tx_bind_def tx_abort_def)

lemma tx_bind_assoc: "tx_bind (tx_bind m k) l = tx_bind m (\<lambda>x. tx_bind (k x) l)"
  by (rule ext)+ (auto simp: tx_bind_def split: sum.splits)

lemma tx_bind_stmt:
  "tx_bind (tx_stmt g) k fault (i, s) =
     (if fault i then Inl TxFault else k (fst (g s)) fault (i + 1, snd (g s)))"
  by (auto simp: tx_bind_def tx_stmt_def split: prod.splits)

lemma tx_stmt_run:
  "tx_stmt g fault (i, s) = (if fault i then Inl TxFault else Inr (fst (g s), i + 1, snd (g s)))"
  by (auto simp: tx_stmt_def split: prod.splits)

lemma tx_return_run: "tx_return x fault s = Inr (x, s)"
  by (simp add: tx_return_def)

lemma tx_abort_run: "tx_abort e fault s = Inl (TxAbort e)"
  by (simp add: tx_abort_def)

lemmas tx_simps = tx_bind_assoc tx_bind_stmt tx_stmt_run tx_return_run tx_abort_run

text \<open>A failed transaction leaves the tables alone.\<close>

lemma run_tx_atomic: "run_tx m fault s = (Inl e, s') \<Longrightarrow> s' = s"
  by (auto simp: run_tx_def split: if_splits sum.splits)

lemma run_tx_ok: "run_tx m fault s = (Inr a, s') \<Longrightarrow> \<exists>i. m fault (1, s) = Inr (a, i, s')"
  by (auto simp: run_tx_def split: if_splits sum.splits)

lemma run_tx_no_faults:
  "m (\<lambda>_. False) (1, s) = Inr (a, i, s') \<Longrightarrow> run_tx m (\<lambda>_. False) s = (Inr a, s')"
  by (simp add: run_tx_def)

section \<open>Specifications\<close>

text \<open>
  From every state of \<open>P\<close> the program either stops at a statement that the schedule lets fail, or ends
  with a result and a state of \<open>Q\<close>; it never aborts.
\<close>

definition tx_spec :: "('s \<Rightarrow> bool) \<Rightarrow> ('s, 'e, 'a) tx \<Rightarrow> ('a \<Rightarrow> 's \<Rightarrow> bool) \<Rightarrow> bool" where
  "tx_spec P m Q \<longleftrightarrow>
     (\<forall>fault i s. P s \<longrightarrow>
        (case m fault (i, s) of Inl e \<Rightarrow> e = TxFault \<and> (\<exists>n. fault n) | Inr (a, j, s') \<Rightarrow> Q a s'))"

lemma tx_spec_return: "(\<And>s. P s \<Longrightarrow> Q x s) \<Longrightarrow> tx_spec P (tx_return x) Q"
  by (simp add: tx_spec_def tx_return_def)

lemma tx_spec_stmt: "(\<And>s. P s \<Longrightarrow> Q (fst (g s)) (snd (g s))) \<Longrightarrow> tx_spec P (tx_stmt g) Q"
  by (auto simp: tx_spec_def tx_stmt_run)

lemma tx_specD:
  assumes "tx_spec P m Q" "P s"
  shows "case m fault (i, s) of Inl e \<Rightarrow> e = TxFault \<and> (\<exists>n. fault n) | Inr (a, j, s') \<Rightarrow> Q a s'"
  using assms(1) [unfolded tx_spec_def, rule_format, of s fault i, OF assms(2)] .

lemma tx_spec_fault: "tx_spec P m Q \<Longrightarrow> P s \<Longrightarrow> m fault (i, s) = Inl e \<Longrightarrow> e = TxFault \<and> (\<exists>n. fault n)"
  by (drule (1) tx_specD [where fault = fault and i = i]) simp

lemma tx_spec_done: "tx_spec P m Q \<Longrightarrow> P s \<Longrightarrow> m fault (i, s) = Inr (a, j, s') \<Longrightarrow> Q a s'"
  by (drule (1) tx_specD [where fault = fault and i = i]) simp

lemma tx_specI:
  assumes "\<And>fault i s e. P s \<Longrightarrow> m fault (i, s) = Inl e \<Longrightarrow> e = TxFault \<and> (\<exists>n. fault n)"
    and "\<And>fault i s a j s'. P s \<Longrightarrow> m fault (i, s) = Inr (a, j, s') \<Longrightarrow> Q a s'"
  shows "tx_spec P m Q"
  unfolding tx_spec_def
proof (intro allI impI)
  fix fault i s
  assume "P s"
  then show "case m fault (i, s) of Inl e \<Rightarrow> e = TxFault \<and> (\<exists>n. fault n) | Inr (a, j, s') \<Rightarrow> Q a s'"
    using assms by (cases "m fault (i, s)") auto
qed

lemma tx_spec_bind:
  assumes "tx_spec P m R" "\<And>x. tx_spec (R x) (k x) Q"
  shows "tx_spec P (tx_bind m k) Q"
proof (rule tx_specI)
  fix fault i s e
  assume p: "P s" and e: "tx_bind m k fault (i, s) = Inl e"
  show "e = TxFault \<and> (\<exists>n. fault n)"
  proof (cases "m fault (i, s)")
    case (Inl e')
    then show ?thesis
      using e tx_spec_fault [OF assms(1) p Inl] by (simp add: tx_bind_def)
  next
    case (Inr r)
    obtain x j t where r: "r = (x, j, t)"
      by (cases r)
    have "k x fault (j, t) = Inl e"
      using e Inr r by (simp add: tx_bind_def)
    then show ?thesis
      using tx_spec_fault [OF assms(2)] tx_spec_done [OF assms(1) p] Inr r by blast
  qed
next
  fix fault i s a j s'
  assume p: "P s" and e: "tx_bind m k fault (i, s) = Inr (a, j, s')"
  obtain x j' t where m: "m fault (i, s) = Inr (x, j', t)" and k: "k x fault (j', t) = Inr (a, j, s')"
    using e by (auto simp: tx_bind_def split: sum.splits)
  show "Q a s'"
    using tx_spec_done [OF assms(2) tx_spec_done [OF assms(1) p m] k] .
qed

lemma tx_spec_weaken:
  assumes "tx_spec P m Q" "\<And>s. P' s \<Longrightarrow> P s" "\<And>a s. Q a s \<Longrightarrow> Q' a s"
  shows "tx_spec P' m Q'"
  by (rule tx_specI) (use tx_spec_fault [OF assms(1)] tx_spec_done [OF assms(1)] assms(2,3) in \<open>blast+\<close>)

lemma run_tx_spec:
  assumes "tx_spec P m Q" "P s"
  shows "(\<exists>a s'. run_tx m fault s = (Inr a, s') \<and> Q a s') \<or> (run_tx m fault s = (Inl TxFault, s) \<and> (\<exists>n. fault n))"
proof (cases "m fault (1, s)")
  case (Inl e)
  then show ?thesis
    using tx_spec_fault [OF assms Inl] by (auto simp: run_tx_def)
next
  case (Inr r)
  then show ?thesis
    using tx_spec_done [OF assms] by (cases r) (auto simp: run_tx_def)
qed

section \<open>Statements outside a transaction\<close>

text \<open>
  A program whose statements commit one by one: an error keeps what the earlier statements wrote. A
  statement may itself report an error of the database, a violated constraint, and then changes nothing.
\<close>

type_synonym ('s, 'e, 'a) db = "faults \<Rightarrow> nat \<times> 's \<Rightarrow> ('e tx_error + 'a) \<times> nat \<times> 's"

definition db_return :: "'a \<Rightarrow> ('s, 'e, 'a) db" where
  "db_return x = (\<lambda>fault s. (Inr x, s))"

definition db_fail :: "'e \<Rightarrow> ('s, 'e, 'a) db" where
  "db_fail e = (\<lambda>fault s. (Inl (TxAbort e), s))"

definition db_bind :: "('s, 'e, 'a) db \<Rightarrow> ('a \<Rightarrow> ('s, 'e, 'b) db) \<Rightarrow> ('s, 'e, 'b) db" where
  "db_bind m k = (\<lambda>fault s. case m fault s of (Inl e, s') \<Rightarrow> (Inl e, s') | (Inr a, s') \<Rightarrow> k a fault s')"

definition db_stmt :: "('s \<Rightarrow> 'a \<times> 's) \<Rightarrow> ('s, 'e, 'a) db" where
  "db_stmt g = (\<lambda>fault (i, s). if fault i then (Inl TxFault, i + 1, s) else (Inr (fst (g s)), i + 1, snd (g s)))"

definition db_try :: "('s \<Rightarrow> 'e + ('a \<times> 's)) \<Rightarrow> ('s, 'e, 'a) db" where
  "db_try g = (\<lambda>fault (i, s). if fault i then (Inl TxFault, i + 1, s)
     else case g s of Inl e \<Rightarrow> (Inl (TxAbort e), i + 1, s) | Inr (a, s') \<Rightarrow> (Inr a, i + 1, s'))"

definition run_db :: "('s, 'e, 'a) db \<Rightarrow> faults \<Rightarrow> 's \<Rightarrow> ('e tx_error + 'a) \<times> 's" where
  "run_db m fault s = (case m fault (0, s) of (r, _, s') \<Rightarrow> (r, s'))"

lemma db_bind_return [simp]: "db_bind (db_return x) k = k x"
  by (simp add: db_bind_def db_return_def)

lemma db_bind_fail [simp]: "db_bind (db_fail e) k = db_fail e"
  by (simp add: db_bind_def db_fail_def)

lemma db_bind_assoc: "db_bind (db_bind m k) l = db_bind m (\<lambda>x. db_bind (k x) l)"
  by (rule ext)+ (auto simp: db_bind_def split: sum.splits prod.splits)

lemma db_bind_stmt:
  "db_bind (db_stmt g) k fault (i, s) =
     (if fault i then (Inl TxFault, i + 1, s) else k (fst (g s)) fault (i + 1, snd (g s)))"
  by (simp add: db_bind_def db_stmt_def)

lemma db_bind_try:
  "db_bind (db_try g) k fault (i, s) =
     (if fault i then (Inl TxFault, i + 1, s)
      else case g s of Inl e \<Rightarrow> (Inl (TxAbort e), i + 1, s) | Inr (a, s') \<Rightarrow> k a fault (i + 1, s'))"
  by (auto simp: db_bind_def db_try_def split: sum.splits prod.splits)

lemma db_stmt_run:
  "db_stmt g fault (i, s) = (if fault i then (Inl TxFault, i + 1, s) else (Inr (fst (g s)), i + 1, snd (g s)))"
  by (simp add: db_stmt_def)

lemma db_return_run: "db_return x fault s = (Inr x, s)"
  by (simp add: db_return_def)

lemma db_fail_run: "db_fail e fault s = (Inl (TxAbort e), s)"
  by (simp add: db_fail_def)

lemmas db_simps = db_bind_assoc db_bind_stmt db_bind_try db_stmt_run db_return_run db_fail_run

text \<open>
  \<open>db_spec P m Q F\<close>: from a state of \<open>P\<close> the program ends with a result and a state of \<open>Q\<close>, or with an
  error and a state of \<open>F\<close>.
\<close>

definition db_spec ::
  "('s \<Rightarrow> bool) \<Rightarrow> ('s, 'e, 'a) db \<Rightarrow> ('a \<Rightarrow> 's \<Rightarrow> bool) \<Rightarrow> ('e tx_error \<Rightarrow> 's \<Rightarrow> bool) \<Rightarrow> bool" where
  "db_spec P m Q F \<longleftrightarrow>
     (\<forall>fault i s r j s'. P s \<longrightarrow> m fault (i, s) = (r, j, s') \<longrightarrow> (case r of Inl e \<Rightarrow> F e s' | Inr a \<Rightarrow> Q a s'))"

lemma db_specI:
  "(\<And>fault i s r j s'. P s \<Longrightarrow> m fault (i, s) = (r, j, s') \<Longrightarrow> case r of Inl e \<Rightarrow> F e s' | Inr a \<Rightarrow> Q a s') \<Longrightarrow>
   db_spec P m Q F"
  by (simp add: db_spec_def)

lemma db_specD:
  "db_spec P m Q F \<Longrightarrow> P s \<Longrightarrow> m fault (i, s) = (r, j, s') \<Longrightarrow> case r of Inl e \<Rightarrow> F e s' | Inr a \<Rightarrow> Q a s'"
  unfolding db_spec_def by blast

lemma db_spec_return: "(\<And>s. P s \<Longrightarrow> Q x s) \<Longrightarrow> db_spec P (db_return x) Q F"
  by (rule db_specI) (auto simp: db_return_def)

lemma db_spec_fail: "(\<And>s. P s \<Longrightarrow> F (TxAbort e) s) \<Longrightarrow> db_spec P (db_fail e) Q F"
  by (rule db_specI) (auto simp: db_fail_def)

lemma db_spec_stmt:
  "(\<And>s. P s \<Longrightarrow> Q (fst (g s)) (snd (g s))) \<Longrightarrow> (\<And>s. P s \<Longrightarrow> F TxFault s) \<Longrightarrow> db_spec P (db_stmt g) Q F"
  by (rule db_specI) (auto simp: db_stmt_def split: if_splits)

lemma db_spec_try:
  assumes "\<And>s a s'. P s \<Longrightarrow> g s = Inr (a, s') \<Longrightarrow> Q a s'" "\<And>s e. P s \<Longrightarrow> g s = Inl e \<Longrightarrow> F (TxAbort e) s" "\<And>s. P s \<Longrightarrow> F TxFault s"
  shows "db_spec P (db_try g) Q F"
  by (rule db_specI) (use assms in \<open>auto simp: db_try_def split: if_splits sum.splits\<close>)

lemma db_spec_bind:
  assumes "db_spec P m R F" "\<And>x. db_spec (R x) (k x) Q F"
  shows "db_spec P (db_bind m k) Q F"
proof (rule db_specI)
  fix fault i s r j s'
  assume p: "P s" and b: "db_bind m k fault (i, s) = (r, j, s')"
  obtain r1 j1 s1 where m: "m fault (i, s) = (r1, j1, s1)"
    using prod_cases3 by blast
  note d = db_specD [OF assms(1) p m]
  show "case r of Inl e \<Rightarrow> F e s' | Inr a \<Rightarrow> Q a s'"
  proof (cases r1)
    case (Inl e)
    then show ?thesis
      using d b m by (auto simp: db_bind_def)
  next
    case (Inr x)
    then have "R x s1" "k x fault (j1, s1) = (r, j, s')"
      using d b m by (simp_all add: db_bind_def)
    then show ?thesis
      by (rule db_specD [OF assms(2)])
  qed
qed

lemma db_spec_weaken:
  assumes "db_spec P m Q F" "\<And>s. P' s \<Longrightarrow> P s" "\<And>a s. Q a s \<Longrightarrow> Q' a s" "\<And>e s. F e s \<Longrightarrow> F' e s"
  shows "db_spec P' m Q' F'"
proof (rule db_specI)
  fix fault i s r j s'
  assume "P' s" "m fault (i, s) = (r, j, s')"
  then show "case r of Inl e \<Rightarrow> F' e s' | Inr a \<Rightarrow> Q' a s'"
    using db_specD [OF assms(1) assms(2)] assms(3,4) by (cases r) fastforce+
qed

lemma run_db_spec: "db_spec P m Q F \<Longrightarrow> P s \<Longrightarrow> run_db m fault s = (r, s') \<Longrightarrow> case r of Inl e \<Rightarrow> F e s' | Inr a \<Rightarrow> Q a s'"
  by (auto simp: run_db_def split: prod.splits intro: db_specD)

section \<open>More ways to build such programs\<close>

text \<open>\<open>.is_ok()\<close> on the outcome: an error is swallowed.\<close>

definition db_is_ok :: "('s, 'e, 'a) db \<Rightarrow> ('s, 'e, bool) db" where
  "db_is_ok m = (\<lambda>fault s. case m fault s of (r, s') \<Rightarrow> (Inr (\<not> isl r), s'))"

text \<open>\<open>.await.unwrap_or(x)\<close>.\<close>

definition db_unwrap_or :: "'a \<Rightarrow> ('s, 'e, 'a) db \<Rightarrow> ('s, 'e, 'a) db" where
  "db_unwrap_or x m = (\<lambda>fault s. case m fault s of (r, s') \<Rightarrow> (case r of Inl e \<Rightarrow> Inr x | Inr a \<Rightarrow> Inr a, s'))"

text \<open>A transaction as a step of such a program, from its \<open>BEGIN\<close> to its \<open>COMMIT\<close>.\<close>

definition db_tx :: "('s, 'e, 'a) tx \<Rightarrow> ('s, 'e, 'a) db" where
  "db_tx m = (\<lambda>fault (i, s). if fault i then (Inl TxFault, i + 1, s)
     else case m fault (i + 1, s) of
            Inl e \<Rightarrow> (Inl e, i + 1, s)
          | Inr (a, j, s') \<Rightarrow> if fault j then (Inl TxFault, j + 1, s) else (Inr a, j + 1, s'))"

text \<open>A program over a part of the state.\<close>

fun map_abort :: "('e \<Rightarrow> 'f) \<Rightarrow> 'e tx_error \<Rightarrow> 'f tx_error" where
  "map_abort f TxFault = TxFault"
| "map_abort f (TxAbort e) = TxAbort (f e)"

definition db_zoom :: "('s \<Rightarrow> 't) \<Rightarrow> ('t \<Rightarrow> 's \<Rightarrow> 's) \<Rightarrow> ('e \<Rightarrow> 'f) \<Rightarrow> ('t, 'e, 'a) db \<Rightarrow> ('s, 'f, 'a) db" where
  "db_zoom get put f m = (\<lambda>fault (i, s). case m fault (i, get s) of
     (r, j, t) \<Rightarrow> (case r of Inl e \<Rightarrow> Inl (map_abort f e) | Inr a \<Rightarrow> Inr a, j, put t s))"

text \<open>The insert of a row that does nothing when its key is taken, and whether the row is new.\<close>

definition insert_new :: "('r \<Rightarrow> 'k) \<Rightarrow> 'r \<Rightarrow> 'r list \<Rightarrow> bool \<times> 'r list" where
  "insert_new key row rows = (if key row \<in> key ` set rows then (False, rows) else (True, rows @ [row]))"

lemma db_tx_cases:
  assumes "db_tx m fault (i, s) = (r, j, s')"
  shows "(\<exists>e. r = Inl e \<and> s' = s) \<or> (\<exists>a k. r = Inr a \<and> m fault (i + 1, s) = Inr (a, k, s'))"
  using assms by (auto simp: db_tx_def split: if_splits sum.splits)

lemma insert_new_distinct: "distinct (map key rows) \<Longrightarrow> distinct (map key (snd (insert_new key row rows)))"
  by (auto simp: insert_new_def)

lemma insert_new_keys: "key ` set (snd (insert_new key row rows)) = insert (key row) (key ` set rows)"
  by (auto simp: insert_new_def)

lemma insert_new_known: "key row \<in> key ` set rows \<Longrightarrow> insert_new key row rows = (False, rows)"
  by (simp add: insert_new_def)

lemma insert_new_rows: "set (snd (insert_new key row rows)) \<subseteq> insert row (set rows)"
  by (auto simp: insert_new_def)

lemma insert_new_prefix: "\<exists>new. snd (insert_new key row rows) = rows @ new"
  by (auto simp: insert_new_def)

lemma db_spec_is_ok:
  assumes "db_spec P m (\<lambda>_. R) (\<lambda>_. R)"
  shows "db_spec P (db_is_ok m) (\<lambda>_. R) F"
proof (rule db_specI)
  fix fault i s r j s'
  assume p: "P s" and e: "db_is_ok m fault (i, s) = (r, j, s')"
  obtain r0 where m: "m fault (i, s) = (r0, j, s')" and r: "r = Inr (\<not> isl r0)"
    using e by (auto simp: db_is_ok_def split: prod.splits)
  show "case r of Inl e \<Rightarrow> F e s' | Inr a \<Rightarrow> R s'"
    using db_specD [OF assms p m] r by (cases r0) auto
qed

lemma db_spec_zoom:
  assumes "\<And>t s. P s \<Longrightarrow> R (put t s)"
  shows "db_spec P (db_zoom get put f m) (\<lambda>_. R) (\<lambda>_. R)"
  by (rule db_specI) (auto simp: db_zoom_def assms split: prod.splits sum.splits)

text \<open>\<open>db_done P m Q\<close>: without faults, the program started in a state of \<open>P\<close> ends with a result, in a state of \<open>Q\<close>.\<close>

definition db_done :: "('s \<Rightarrow> bool) \<Rightarrow> ('s, 'e, 'a) db \<Rightarrow> ('a \<Rightarrow> 's \<Rightarrow> bool) \<Rightarrow> bool" where
  "db_done P m Q \<longleftrightarrow> (\<forall>i s. P s \<longrightarrow> (\<exists>a j s'. m (\<lambda>_. False) (i, s) = (Inr a, j, s') \<and> Q a s'))"

lemma db_done_return: "(\<And>s. P s \<Longrightarrow> Q x s) \<Longrightarrow> db_done P (db_return x) Q"
  by (simp add: db_done_def db_return_def)

lemma db_done_stmt: "(\<And>s. P s \<Longrightarrow> Q (fst (g s)) (snd (g s))) \<Longrightarrow> db_done P (db_stmt g) Q"
  by (simp add: db_done_def db_stmt_def)

lemma db_done_bind:
  assumes "db_done P m R" "\<And>x. db_done (R x) (k x) Q"
  shows "db_done P (db_bind m k) Q"
  unfolding db_done_def
proof (intro allI impI)
  fix i s
  assume "P s"
  then obtain x j t where m: "m (\<lambda>_. False) (i, s) = (Inr x, j, t)" and r: "R x t"
    using assms(1) unfolding db_done_def by blast
  obtain a j' s' where "k x (\<lambda>_. False) (j, t) = (Inr a, j', s')" "Q a s'"
    using assms(2) r unfolding db_done_def by blast
  then show "\<exists>a j s'. db_bind m k (\<lambda>_. False) (i, s) = (Inr a, j, s') \<and> Q a s'"
    using m by (simp add: db_bind_def)
qed

lemma db_done_is_ok:
  assumes "db_done P m (\<lambda>_. R)"
  shows "db_done P (db_is_ok m) (\<lambda>ok s. ok \<and> R s)"
  unfolding db_done_def
proof (intro allI impI)
  fix i s
  assume "P s"
  then obtain a j s' where "m (\<lambda>_. False) (i, s) = (Inr a, j, s')" "R s'"
    using assms unfolding db_done_def by blast
  then show "\<exists>a j s'. db_is_ok m (\<lambda>_. False) (i, s) = (Inr a, j, s') \<and> a \<and> R s'"
    by (intro exI [of _ True] exI [of _ j] exI [of _ s']) (simp add: db_is_ok_def)
qed

lemma db_done_weaken: "db_done P m Q \<Longrightarrow> (\<And>s. P' s \<Longrightarrow> P s) \<Longrightarrow> (\<And>a s. Q a s \<Longrightarrow> Q' a s) \<Longrightarrow> db_done P' m Q'"
  unfolding db_done_def by blast

text \<open>Programs under which the state only moves forward in some preorder, errors included.\<close>

definition db_moves :: "('s \<Rightarrow> 's \<Rightarrow> bool) \<Rightarrow> ('s, 'e, 'a) db \<Rightarrow> bool" where
  "db_moves R m \<longleftrightarrow> (\<forall>fault i s. R s (snd (snd (m fault (i, s)))))"

lemma moves_zoom:
  assumes "db_moves R' m" "\<And>t s. R' (get s) t \<Longrightarrow> R s (put t s)"
  shows "db_moves R (db_zoom get put f m)"
  unfolding db_moves_def
proof (intro allI)
  fix fault i s
  obtain r j t where m: "m fault (i, get s) = (r, j, t)"
    using prod_cases3 by blast
  have "R' (get s) (snd (snd (m fault (i, get s))))"
    using assms(1) unfolding db_moves_def by blast
  then show "R s (snd (snd (db_zoom get put f m fault (i, s))))"
    using m assms(2) by (simp add: db_zoom_def)
qed

lemma db_done_is_ok_any: "db_done P (db_is_ok m) (\<lambda>_ _. True)"
  by (auto simp: db_done_def db_is_ok_def case_prod_beta)

lemma db_spec_is_ok_any: "db_spec P (db_is_ok m) (\<lambda>_ _. True) F"
  by (rule db_specI) (auto simp: db_is_ok_def split: prod.splits)

lemma db_spec_unwrap_or_any: "db_spec P (db_unwrap_or x m) (\<lambda>_ _. True) F"
  by (rule db_specI) (auto simp: db_unwrap_or_def split: prod.splits sum.splits)

locale state_order =
  fixes R :: "'s \<Rightarrow> 's \<Rightarrow> bool"
  assumes order_refl: "R s s"
    and order_trans: "R a b \<Longrightarrow> R b c \<Longrightarrow> R a c"
begin

lemma moves_return: "db_moves R (db_return x)"
  by (simp add: db_moves_def db_return_def order_refl)

lemma moves_fail: "db_moves R (db_fail e)"
  by (simp add: db_moves_def db_fail_def order_refl)

lemma moves_stmt: "(\<And>s. R s (snd (g s))) \<Longrightarrow> db_moves R (db_stmt g)"
  by (simp add: db_moves_def db_stmt_def order_refl)

lemma moves_try: "(\<And>s a s'. g s = Inr (a, s') \<Longrightarrow> R s s') \<Longrightarrow> db_moves R (db_try g)"
  by (auto simp: db_moves_def db_try_def order_refl split: sum.splits)

lemma moves_is_ok: "db_moves R m \<Longrightarrow> db_moves R (db_is_ok m)"
  by (simp add: db_moves_def db_is_ok_def case_prod_beta)

lemma moves_unwrap_or: "db_moves R m \<Longrightarrow> db_moves R (db_unwrap_or x m)"
  by (simp add: db_moves_def db_unwrap_or_def case_prod_beta)

lemma moves_bind:
  assumes "db_moves R m" "\<And>x. db_moves R (k x)"
  shows "db_moves R (db_bind m k)"
  unfolding db_moves_def
proof (intro allI)
  fix fault i s
  obtain r j t where m: "m fault (i, s) = (r, j, t)"
    using prod_cases3 by blast
  have 1: "R s t"
    using assms(1) m unfolding db_moves_def by (metis snd_conv)
  have 2: "R t (snd (snd (k x fault (j, t))))" for x
    using assms(2) unfolding db_moves_def by blast
  show "R s (snd (snd (db_bind m k fault (i, s))))"
    using m 1 2 order_trans by (cases r) (auto simp: db_bind_def)
qed

lemma moves_run: "db_moves R m \<Longrightarrow> run_db m fault s = (r, s') \<Longrightarrow> R s s'"
  by (auto simp: db_moves_def run_db_def split: prod.splits) (metis snd_conv)

lemma done_keeps:
  assumes "db_done P m Q" "db_moves R m" "\<And>a b. R a b \<Longrightarrow> I a \<Longrightarrow> I b"
  shows "db_done (\<lambda>s. P s \<and> I s) m (\<lambda>x s. Q x s \<and> I s)"
  unfolding db_done_def
proof (intro allI impI)
  fix i s
  assume s: "P s \<and> I s"
  then obtain x j s' where m: "m (\<lambda>_. False) (i, s) = (Inr x, j, s')" "Q x s'"
    using assms(1) unfolding db_done_def by blast
  have "R s (snd (snd (m (\<lambda>_. False) (i, s))))"
    using assms(2) unfolding db_moves_def by blast
  then have "I s'"
    using assms(3) [of s s'] s m(1) by simp
  then show "\<exists>x j s'. m (\<lambda>_. False) (i, s) = (Inr x, j, s') \<and> Q x s' \<and> I s'"
    using m by blast
qed

lemmas moves_intros = moves_return moves_fail moves_bind moves_is_ok moves_unwrap_or

end

end
