(* ===== verification/Signals.thy ===== *)
theory Signals
  imports Decimals Transactions Models Interfaces
begin

text \<open>
  Signal evaluation of \<^verbatim>\<open>src/signals.rs\<close>: the entry and exit gates, their scores, the rows they write,
  and the evaluation claims of \<^verbatim>\<open>src/workers.rs\<close> that fence the writes. The tables are explicit state
  and the fenced evaluators are transactions over them. \<open>t\<close> is the clock of the database, \<open>now\<close> the
  evaluation time the caller passes; the rendering of floats and the JSON form of decimals are arguments.
\<close>

section \<open>Inputs\<close>

definition REJECTION_CODES :: "string list" where
  "REJECTION_CODES =
     [''insufficient_clusters'', ''insufficient_buys'', ''unsupported_lifecycle'', ''token_too_old'',
      ''insufficient_liquidity'', ''critical_risk'', ''wash_risk'', ''stale_market'',
      ''ineligible_skill'', ''ineligible_copyability'', ''incomplete_history'', ''no_cluster_sells'',
      ''no_fresh_transfer'', ''no_dev_distribution'', ''insufficient_liquidity_drop'',
      ''no_tracked_selling'', ''incomplete_history_replay'', ''stale_market_replay'']"

definition SIGNAL_KIND_ENTRY :: string where
  "SIGNAL_KIND_ENTRY = ''entry''"

definition SIGNAL_KIND_EXIT :: string where
  "SIGNAL_KIND_EXIT = ''exit''"

record SignalsConfig =
  sg_entry_max_token_age_hours :: nat
  sg_entry_min_liquidity_usd :: nat
  sg_market_max_age_seconds :: nat
  sg_exit_liquidity_drop_ratio :: f64

record 'd MarketGate =
  mg_liquidity_usd :: "'d option"
  mg_observed_at :: "int option"

record TokenGate =
  tg_lifecycle :: LifecycleState
  tg_age_hours :: "int option"
  tg_risk_flags :: "string list"

record ClusterSummary =
  cl_eligible_clusters :: nat
  cl_meaningful_buys :: nat

record 'd WalletEligibility =
  we_eligible_wallets :: nat
  we_max_skill :: nat
  we_max_copyability :: nat
  we_min_history_completeness :: 'd

record 'd ExitGates =
  xg_clusters_selling :: nat
  xg_material_fresh_transfer :: bool
  xg_dev_distribution :: bool
  xg_liquidity_drop_ratio :: "'d option"
  xg_tracked_selling :: bool

definition decimal_from_ratio :: "(f64 \<Rightarrow> string) \<Rightarrow> ('d, 'x) decimal_num_scheme \<Rightarrow> f64 \<Rightarrow> 'd" where
  "decimal_from_ratio show_f64 D value = dec_lit D (show_f64 value)"

section \<open>Gates\<close>

definition token_too_old :: "SignalsConfig \<Rightarrow> TokenGate \<Rightarrow> bool" where
  "token_too_old cfg token =
     (case tg_age_hours token of
        Some age \<Rightarrow> int (sg_entry_max_token_age_hours cfg) < age
      | None \<Rightarrow> True)"

definition liquidity_ok :: "('d, 'x) decimal_num_scheme \<Rightarrow> SignalsConfig \<Rightarrow> 'd MarketGate \<Rightarrow> bool" where
  "liquidity_ok D cfg market =
     (case mg_liquidity_usd market of
        Some l \<Rightarrow> dec_le D (dec_of_int D (int (sg_entry_min_liquidity_usd cfg))) l
      | None \<Rightarrow> False)"

definition critical_flag :: "string \<Rightarrow> bool" where
  "critical_flag f \<longleftrightarrow> f = ''critical_risk'' \<or> f = ''wash_trading'' \<or> f = ''honeypot'' \<or> f = ''rugged''"

text \<open>\<open>u64 as i64\<close> wraps.\<close>

definition market_fresh :: "SignalsConfig \<Rightarrow> int \<Rightarrow> 'd MarketGate \<Rightarrow> bool" where
  "market_fresh cfg now market =
     (case mg_observed_at market of
        Some t \<Rightarrow> i64_sub now t \<le> wrap_i64 (int (sg_market_max_age_seconds cfg))
      | None \<Rightarrow> False)"

definition entry_rejection ::
  "('d, 'x) decimal_num_scheme \<Rightarrow> SignalsConfig \<Rightarrow> int \<Rightarrow> TokenGate \<Rightarrow> 'd MarketGate \<Rightarrow> ClusterSummary \<Rightarrow>
   'd WalletEligibility \<Rightarrow> string option" where
  "entry_rejection D cfg now token market clusters wallets = first_failure
     [(cl_eligible_clusters clusters < 2, ''insufficient_clusters''),
      (cl_meaningful_buys clusters < 2, ''insufficient_buys''),
      (\<not> entry_supported (tg_lifecycle token) \<or> tg_lifecycle token = Unsupported, ''unsupported_lifecycle''),
      (token_too_old cfg token, ''token_too_old''),
      (\<not> liquidity_ok D cfg market, ''insufficient_liquidity''),
      (list_ex critical_flag (tg_risk_flags token),
       if ''wash_trading'' \<in> set (tg_risk_flags token) then ''wash_risk'' else ''critical_risk''),
      (\<not> market_fresh cfg now market, ''stale_market''),
      (we_max_skill wallets < 70, ''ineligible_skill''),
      (we_max_copyability wallets < 60, ''ineligible_copyability''),
      (dec_lt D (we_min_history_completeness wallets) (dec_lit D ''0.80''), ''incomplete_history'')]"

definition compute_entry_score :: "ClusterSummary \<Rightarrow> 'd WalletEligibility \<Rightarrow> nat option \<Rightarrow> nat" where
  "compute_entry_score clusters wallets narrative_confidence =
     (let cluster_component = min (cl_eligible_clusters clusters) 5 * 8;
          wallet_component = (min (we_max_skill wallets) 100 + min (we_max_copyability wallets) 100) div 4;
          narrative_component = min (case narrative_confidence of Some c \<Rightarrow> c | None \<Rightarrow> 0) 100 div 5
      in min (cluster_component + wallet_component + narrative_component) 100)"

definition liquidity_drop_ok ::
  "(f64 \<Rightarrow> string) \<Rightarrow> ('d, 'x) decimal_num_scheme \<Rightarrow> SignalsConfig \<Rightarrow> 'd ExitGates \<Rightarrow> bool" where
  "liquidity_drop_ok show_f64 D cfg gates =
     (case xg_liquidity_drop_ratio gates of
        Some r \<Rightarrow> dec_le D (decimal_from_ratio show_f64 D (sg_exit_liquidity_drop_ratio cfg)) r
      | None \<Rightarrow> False)"

definition exit_triggered ::
  "(f64 \<Rightarrow> string) \<Rightarrow> ('d, 'x) decimal_num_scheme \<Rightarrow> SignalsConfig \<Rightarrow> 'd ExitGates \<Rightarrow> bool" where
  "exit_triggered show_f64 D cfg gates \<longleftrightarrow>
     2 \<le> xg_clusters_selling gates \<or> xg_material_fresh_transfer gates \<or> xg_dev_distribution gates \<or>
     liquidity_drop_ok show_f64 D cfg gates \<and> xg_tracked_selling gates"

definition exit_rejection_code :: "'d ExitGates \<Rightarrow> string" where
  "exit_rejection_code gates =
     (if xg_clusters_selling gates = 1 then ''no_cluster_sells''
      else if \<not> xg_material_fresh_transfer gates then ''no_fresh_transfer''
      else ''insufficient_liquidity_drop'')"

definition exit_score :: "'d ExitGates \<Rightarrow> nat" where
  "exit_score gates =
     (if 2 \<le> xg_clusters_selling gates then 80
      else if xg_dev_distribution gates then 75
      else if xg_material_fresh_transfer gates then 70
      else 65)"

section \<open>Tables\<close>

type_synonym claim_key = "int \<times> string \<times> string"

record eval_row =
  ev_workspace :: int
  ev_chain :: string
  ev_mint :: string
  ev_signal_kind :: string
  ev_evaluated_at :: int
  ev_status :: string
  ev_rejection_code :: "string option"
  ev_evidence :: json

record signal_row =
  sr_id :: int
  sr_workspace :: int
  sr_chain :: string
  sr_mint :: string
  sr_signal_kind :: string
  sr_created_at :: int
  sr_score :: nat
  sr_status :: string
  sr_evidence :: json

record signal_db =
  sd_claims :: "claim_key \<Rightarrow> (string \<times> int) option"
  sd_evals :: "eval_row list"
  sd_signals :: "signal_row list"
  sd_next_id :: int

datatype signal_error = ClaimNotHeld

type_synonym 'a stx = "(signal_db, signal_error, 'a) tx"

definition record_evaluation ::
  "int \<Rightarrow> ChainKind \<Rightarrow> string \<Rightarrow> string \<Rightarrow> int \<Rightarrow> string \<Rightarrow> string option \<Rightarrow> json \<Rightarrow> unit stx" where
  "record_evaluation w chain mint kind evaluated_at status code evidence =
     tx_stmt (\<lambda>db. ((), db\<lparr>sd_evals := sd_evals db @
       [\<lparr>ev_workspace = w, ev_chain = chain_kind_as_str chain, ev_mint = mint, ev_signal_kind = kind,
         ev_evaluated_at = evaluated_at, ev_status = status, ev_rejection_code = code,
         ev_evidence = evidence\<rparr>]\<rparr>))"

definition insert_signal ::
  "int \<Rightarrow> ChainKind \<Rightarrow> string \<Rightarrow> string \<Rightarrow> int \<Rightarrow> nat \<Rightarrow> json \<Rightarrow> int stx" where
  "insert_signal w chain mint kind now score evidence =
     tx_stmt (\<lambda>db. (sd_next_id db, db\<lparr>sd_next_id := sd_next_id db + 1, sd_signals := sd_signals db @
       [\<lparr>sr_id = sd_next_id db, sr_workspace = w, sr_chain = chain_kind_as_str chain, sr_mint = mint,
         sr_signal_kind = kind, sr_created_at = now, sr_score = score, sr_status = ''active'',
         sr_evidence = evidence\<rparr>]\<rparr>))"

text \<open>The claim row is held by this token and has not expired.\<close>

definition claim_held :: "int \<Rightarrow> claim_key \<Rightarrow> string \<Rightarrow> signal_db \<Rightarrow> bool" where
  "claim_held t k token db =
     (case sd_claims db k of Some (owner, expires) \<Rightarrow> owner = token \<and> t < expires | None \<Rightarrow> False)"

definition verify_claim :: "int \<Rightarrow> int \<Rightarrow> ChainKind \<Rightarrow> string \<Rightarrow> string \<Rightarrow> unit stx" where
  "verify_claim t w chain mint token =
     tx_bind (tx_stmt (\<lambda>db. (claim_held t (w, chain_kind_as_str chain, mint) token db, db)))
       (\<lambda>owned. if owned then tx_return () else tx_abort ClaimNotHeld)"

definition delete_claim :: "claim_key \<Rightarrow> string \<Rightarrow> signal_db \<Rightarrow> signal_db" where
  "delete_claim k token db =
     (case sd_claims db k of
        Some (owner, expires) \<Rightarrow> if owner = token then db\<lparr>sd_claims := (sd_claims db)(k := None)\<rparr> else db
      | None \<Rightarrow> db)"

definition release_eval_claim :: "int \<Rightarrow> ChainKind \<Rightarrow> string \<Rightarrow> string \<Rightarrow> unit stx" where
  "release_eval_claim w chain mint token =
     tx_stmt (\<lambda>db. ((), delete_claim (w, chain_kind_as_str chain, mint) token db))"

section \<open>Evaluation\<close>

definition json_opt :: "('a \<Rightarrow> json) \<Rightarrow> 'a option \<Rightarrow> json" where
  "json_opt f x = (case x of None \<Rightarrow> JNull | Some v \<Rightarrow> f v)"

abbreviation json_int :: "int \<Rightarrow> json" where
  "json_int n \<equiv> JNumber (Fin (of_int n))"

definition entry_evidence ::
  "('d \<Rightarrow> json) \<Rightarrow> int \<Rightarrow> TokenGate \<Rightarrow> 'd MarketGate \<Rightarrow> ClusterSummary \<Rightarrow> 'd WalletEligibility \<Rightarrow> nat option \<Rightarrow> json" where
  "entry_evidence dec_json now token market clusters wallets narrative_confidence = JObject
     [(''clusters'', json_int (int (cl_eligible_clusters clusters))),
      (''meaningful_buys'', json_int (int (cl_meaningful_buys clusters))),
      (''lifecycle'', JString (lifecycle_as_str (tg_lifecycle token))),
      (''age_hours'', json_opt json_int (tg_age_hours token)),
      (''liquidity_usd'', json_opt dec_json (mg_liquidity_usd market)),
      (''market_age_seconds'', json_opt (\<lambda>t. json_int (i64_sub now t)) (mg_observed_at market)),
      (''risk_flags'', JArray (map JString (tg_risk_flags token))),
      (''max_skill'', json_int (int (we_max_skill wallets))),
      (''max_copyability'', json_int (int (we_max_copyability wallets))),
      (''min_history_completeness'', dec_json (we_min_history_completeness wallets)),
      (''narrative_confidence'', json_opt (\<lambda>n. json_int (int n)) narrative_confidence)]"

definition evaluate_token_on ::
  "('d, 'x) decimal_num_scheme \<Rightarrow> ('d \<Rightarrow> json) \<Rightarrow> int \<Rightarrow> ChainKind \<Rightarrow> string \<Rightarrow> int \<Rightarrow> SignalsConfig \<Rightarrow>
   TokenGate \<Rightarrow> 'd MarketGate \<Rightarrow> ClusterSummary \<Rightarrow> 'd WalletEligibility \<Rightarrow> nat option \<Rightarrow> int option stx" where
  "evaluate_token_on D dec_json w chain mint now cfg token market clusters wallets narrative_confidence =
     (let evidence = entry_evidence dec_json now token market clusters wallets narrative_confidence
      in case entry_rejection D cfg now token market clusters wallets of
           Some code \<Rightarrow>
             tx_bind (record_evaluation w chain mint SIGNAL_KIND_ENTRY now ''rejected'' (Some code) evidence)
               (\<lambda>_. tx_return None)
         | None \<Rightarrow>
             tx_bind (insert_signal w chain mint SIGNAL_KIND_ENTRY now
                        (compute_entry_score clusters wallets narrative_confidence) evidence)
               (\<lambda>signal_id.
                  tx_bind (record_evaluation w chain mint SIGNAL_KIND_ENTRY now ''accepted'' None evidence)
                    (\<lambda>_. tx_return (Some signal_id))))"

definition evaluate_token_fenced ::
  "('d, 'x) decimal_num_scheme \<Rightarrow> ('d \<Rightarrow> json) \<Rightarrow> int \<Rightarrow> int \<Rightarrow> ChainKind \<Rightarrow> string \<Rightarrow> int \<Rightarrow> SignalsConfig \<Rightarrow>
   TokenGate \<Rightarrow> 'd MarketGate \<Rightarrow> ClusterSummary \<Rightarrow> 'd WalletEligibility \<Rightarrow> nat option \<Rightarrow> string \<Rightarrow> int option stx" where
  "evaluate_token_fenced D dec_json t w chain mint now cfg token market clusters wallets narrative_confidence claim_token =
     tx_bind (verify_claim t w chain mint claim_token) (\<lambda>_.
     tx_bind (evaluate_token_on D dec_json w chain mint now cfg token market clusters wallets narrative_confidence) (\<lambda>out.
     tx_bind (release_eval_claim w chain mint claim_token) (\<lambda>_. tx_return out)))"

definition exit_evidence :: "('d \<Rightarrow> json) \<Rightarrow> 'd ExitGates \<Rightarrow> json" where
  "exit_evidence dec_json gates = JObject
     [(''clusters_selling'', json_int (int (xg_clusters_selling gates))),
      (''material_fresh_transfer'', JBool (xg_material_fresh_transfer gates)),
      (''dev_distribution'', JBool (xg_dev_distribution gates)),
      (''liquidity_drop_ratio'', json_opt dec_json (xg_liquidity_drop_ratio gates)),
      (''tracked_selling'', JBool (xg_tracked_selling gates))]"

definition evaluate_exit_fenced ::
  "(f64 \<Rightarrow> string) \<Rightarrow> ('d, 'x) decimal_num_scheme \<Rightarrow> ('d \<Rightarrow> json) \<Rightarrow> int \<Rightarrow> int \<Rightarrow> ChainKind \<Rightarrow> string \<Rightarrow> int \<Rightarrow>
   SignalsConfig \<Rightarrow> 'd ExitGates \<Rightarrow> string \<Rightarrow> int option stx" where
  "evaluate_exit_fenced show_f64 D dec_json t w chain mint now cfg gates claim_token =
     tx_bind (verify_claim t w chain mint claim_token) (\<lambda>_.
     let evidence = exit_evidence dec_json gates in
     if \<not> exit_triggered show_f64 D cfg gates then
       tx_bind (record_evaluation w chain mint SIGNAL_KIND_EXIT now ''rejected'' (Some (exit_rejection_code gates)) evidence) (\<lambda>_.
       tx_bind (release_eval_claim w chain mint claim_token) (\<lambda>_. tx_return None))
     else
       tx_bind (insert_signal w chain mint SIGNAL_KIND_EXIT now (exit_score gates) evidence) (\<lambda>signal_id.
       tx_bind (record_evaluation w chain mint SIGNAL_KIND_EXIT now ''accepted'' None evidence) (\<lambda>_.
       tx_bind (release_eval_claim w chain mint claim_token) (\<lambda>_. tx_return (Some signal_id)))))"

text \<open>Acquiring a claim in the worker: an insert that takes over an expired row only. The lease is
  ten minutes.\<close>

definition acquire_claim :: "int \<Rightarrow> claim_key \<Rightarrow> string \<Rightarrow> signal_db \<Rightarrow> bool \<times> signal_db" where
  "acquire_claim t k claimant db =
     (let take = (True, db\<lparr>sd_claims := (sd_claims db)(k \<mapsto> (claimant, t + 600))\<rparr>)
      in case sd_claims db k of
           None \<Rightarrow> take
         | Some (owner, expires) \<Rightarrow> if expires \<le> t then take else (False, db))"

section \<open>Fenced evaluators\<close>

definition eval_key :: "eval_row \<Rightarrow> claim_key" where
  "eval_key e = (ev_workspace e, ev_chain e, ev_mint e)"

definition signal_key :: "signal_row \<Rightarrow> claim_key" where
  "signal_key s = (sr_workspace s, sr_chain s, sr_mint s)"

text \<open>What a successful evaluation does: it held the claim, consumed it, appended one evaluation row
  for its key, and a signal row exactly when it returns an id.\<close>

definition consumes_claim :: "int \<Rightarrow> claim_key \<Rightarrow> string \<Rightarrow> signal_db \<Rightarrow> int option \<Rightarrow> signal_db \<Rightarrow> bool" where
  "consumes_claim t k token db out db' \<longleftrightarrow>
     claim_held t k token db \<and> sd_claims db' = (sd_claims db)(k := None) \<and>
     (\<exists>e. sd_evals db' = sd_evals db @ [e] \<and> eval_key e = k \<and>
          (out = None \<longleftrightarrow> ev_status e = ''rejected'') \<and> (out \<noteq> None \<longleftrightarrow> ev_status e = ''accepted'')) \<and>
     (case out of
        None \<Rightarrow> sd_signals db' = sd_signals db \<and> sd_next_id db' = sd_next_id db
      | Some i \<Rightarrow> i = sd_next_id db \<and> sd_next_id db' = sd_next_id db + 1 \<and>
          (\<exists>s. sd_signals db' = sd_signals db @ [s] \<and> signal_key s = k \<and> sr_id s = i))"

locale fenced_evaluator =
  fixes eval :: "faults \<Rightarrow> int \<Rightarrow> int \<Rightarrow> ChainKind \<Rightarrow> string \<Rightarrow> string \<Rightarrow> signal_db \<Rightarrow>
                 (signal_error tx_error + int option) \<times> signal_db"
  assumes error_keeps: "eval fault t w chain mint token db = (Inl e, db') \<Longrightarrow> db' = db"
    and success_consumes: "eval fault t w chain mint token db = (Inr out, db') \<Longrightarrow>
      consumes_claim t (w, chain_kind_as_str chain, mint) token db out db'"
begin

lemma stale_writes_nothing:
  assumes "\<not> claim_held t (w, chain_kind_as_str chain, mint) token db"
  shows "isl (fst (eval fault t w chain mint token db)) \<and> snd (eval fault t w chain mint token db) = db"
proof -
  obtain r db' where r: "eval fault t w chain mint token db = (r, db')" by fastforce
  show ?thesis
    using r assms error_keeps [of fault t w chain mint token db _ db']
      success_consumes [of fault t w chain mint token db _ db']
    by (cases r) (auto simp: consumes_claim_def)
qed

lemma never_twice:
  assumes "eval fault t w chain mint token db = (Inr out, db')"
  shows "isl (fst (eval fault' t' w chain mint token db')) \<and> snd (eval fault' t' w chain mint token db') = db'"
  by (rule stale_writes_nothing)
     (use success_consumes [OF assms] in \<open>auto simp: consumes_claim_def claim_held_def\<close>)

end

lemma verify_run:
  "tx_bind (verify_claim t w chain mint token) k fault (i, db) =
     (if fault i then Inl TxFault
      else if claim_held t (w, chain_kind_as_str chain, mint) token db then k () fault (i + 1, db)
      else Inl (TxAbort ClaimNotHeld))"
  by (simp add: verify_claim_def tx_simps)

lemma delete_claim_fields [simp]:
  "sd_evals (delete_claim k token db) = sd_evals db"
  "sd_signals (delete_claim k token db) = sd_signals db"
  "sd_next_id (delete_claim k token db) = sd_next_id db"
  by (simp_all add: delete_claim_def split: option.splits)

lemma delete_claim_held:
  "claim_held t k token db \<Longrightarrow> sd_claims db' = sd_claims db \<Longrightarrow>
   sd_claims (delete_claim k token db') = (sd_claims db)(k := None)"
  by (auto simp: claim_held_def delete_claim_def split: option.splits)

lemmas sig_run = verify_run tx_simps record_evaluation_def insert_signal_def release_eval_claim_def

abbreviation entry_fenced where
  "entry_fenced D dec_json now cfg token market clusters wallets nc \<equiv>
     (\<lambda>fault t w chain mint claim db. run_tx
        (evaluate_token_fenced D dec_json t w chain mint now cfg token market clusters wallets nc claim) fault db)"

abbreviation exit_fenced where
  "exit_fenced show_f64 D dec_json now cfg gates \<equiv>
     (\<lambda>fault t w chain mint claim db. run_tx
        (evaluate_exit_fenced show_f64 D dec_json t w chain mint now cfg gates claim) fault db)"

interpretation entry: fenced_evaluator "entry_fenced D dec_json now cfg token market clusters wallets nc"
proof unfold_locales
  fix fault t w chain mint claim db db' and out :: "int option"
  assume "entry_fenced D dec_json now cfg token market clusters wallets nc fault t w chain mint claim db = (Inr out, db')"
  then obtain i where "evaluate_token_fenced D dec_json t w chain mint now cfg token market clusters wallets nc claim fault (1, db)
      = Inr (out, i, db')" by (auto dest: run_tx_ok)
  then show "consumes_claim t (w, chain_kind_as_str chain, mint) claim db out db'"
    by (cases "entry_rejection D cfg now token market clusters wallets")
       (auto simp: evaluate_token_fenced_def evaluate_token_on_def Let_def sig_run consumes_claim_def eval_key_def signal_key_def
          split: if_splits intro: delete_claim_held)
qed (auto dest: run_tx_atomic)

interpretation exit: fenced_evaluator "exit_fenced show_f64 D dec_json now cfg gates"
proof unfold_locales
  fix fault t w chain mint claim db db' and out :: "int option"
  assume "exit_fenced show_f64 D dec_json now cfg gates fault t w chain mint claim db = (Inr out, db')"
  then obtain i where "evaluate_exit_fenced show_f64 D dec_json t w chain mint now cfg gates claim fault (1, db)
      = Inr (out, i, db')" by (auto dest: run_tx_ok)
  then show "consumes_claim t (w, chain_kind_as_str chain, mint) claim db out db'"
    by (cases "exit_triggered show_f64 D cfg gates")
       (auto simp: evaluate_exit_fenced_def Let_def sig_run consumes_claim_def eval_key_def signal_key_def
          split: if_splits intro: delete_claim_held)
qed (auto dest: run_tx_atomic)

section \<open>Decisions\<close>

lemma entry_rejection_code: "entry_rejection D cfg now token market clusters wallets = Some code \<Longrightarrow> code \<in> set REJECTION_CODES"
  by (auto simp: entry_rejection_def REJECTION_CODES_def split: if_splits)

lemma entry_score_bounds:
  "2 \<le> cl_eligible_clusters clusters \<Longrightarrow> 70 \<le> we_max_skill wallets \<Longrightarrow> 60 \<le> we_max_copyability wallets \<Longrightarrow>
   48 \<le> compute_entry_score clusters wallets nc \<and> compute_entry_score clusters wallets nc \<le> 100"
proof -
  assume a: "2 \<le> cl_eligible_clusters clusters" "70 \<le> we_max_skill wallets" "60 \<le> we_max_copyability wallets"
  have "130 div 4 \<le> (min (we_max_skill wallets) 100 + min (we_max_copyability wallets) 100) div 4"
    using a by (intro div_le_mono) linarith
  moreover have "16 \<le> min (cl_eligible_clusters clusters) 5 * 8" using a by simp
  ultimately have "48 \<le> min (cl_eligible_clusters clusters) 5 * 8 +
      (min (we_max_skill wallets) 100 + min (we_max_copyability wallets) 100) div 4" by linarith
  then show ?thesis by (simp add: compute_entry_score_def Let_def)
qed

lemma lit_eighty: "lit_value ''0.80'' = Some (4 / 5)"
  by (simp add: lit_value_def is_digit_def read_nat_def char_digit_def Let_def)

lemma entry_accepts_iff:
  assumes "decimal_num_laws D dv"
  shows "entry_rejection D cfg now token market clusters wallets = None \<longleftrightarrow>
    2 \<le> cl_eligible_clusters clusters \<and> 2 \<le> cl_meaningful_buys clusters \<and>
    tg_lifecycle token \<noteq> Unsupported \<and>
    (\<exists>age. tg_age_hours token = Some age \<and> age \<le> int (sg_entry_max_token_age_hours cfg)) \<and>
    (\<exists>l. mg_liquidity_usd market = Some l \<and> of_nat (sg_entry_min_liquidity_usd cfg) \<le> dv l) \<and>
    \<not> list_ex critical_flag (tg_risk_flags token) \<and>
    (\<exists>u. mg_observed_at market = Some u \<and> i64_sub now u \<le> wrap_i64 (int (sg_market_max_age_seconds cfg))) \<and>
    70 \<le> we_max_skill wallets \<and> 60 \<le> we_max_copyability wallets \<and>
    4 / 5 \<le> dv (we_min_history_completeness wallets)"
proof -
  note lt = decimal_laws.lt_dv [OF decimal_num_laws.axioms(1) [OF assms]]
  note lit = decimal_num_laws.dv_lit [OF assms lit_eighty]
  have life: "entry_supported (tg_lifecycle token) \<longleftrightarrow> tg_lifecycle token \<noteq> Unsupported"
    by (cases "tg_lifecycle token") (simp_all add: entry_supported_def)
  have age: "\<not> token_too_old cfg token \<longleftrightarrow>
      (\<exists>age. tg_age_hours token = Some age \<and> age \<le> int (sg_entry_max_token_age_hours cfg))"
    by (auto simp: token_too_old_def split: option.splits)
  have liq: "liquidity_ok D cfg market \<longleftrightarrow>
      (\<exists>l. mg_liquidity_usd market = Some l \<and> of_nat (sg_entry_min_liquidity_usd cfg) \<le> dv l)"
    by (auto simp: liquidity_ok_def lt decimal_num_laws.dv_of_int [OF assms] not_less split: option.splits)
  have fresh: "market_fresh cfg now market \<longleftrightarrow>
      (\<exists>u. mg_observed_at market = Some u \<and> i64_sub now u \<le> wrap_i64 (int (sg_market_max_age_seconds cfg)))"
    by (auto simp: market_fresh_def split: option.splits)
  show ?thesis
    unfolding age [symmetric] liq [symmetric] fresh [symmetric]
    by (simp add: entry_rejection_def first_failure_None lt lit life not_less)
qed

lemma exit_code_range:
  "\<not> exit_triggered show_f64 D cfg gates \<Longrightarrow> exit_rejection_code gates \<in> {''no_cluster_sells'', ''no_fresh_transfer''}"
  by (auto simp: exit_triggered_def exit_rejection_code_def)

lemma entry_fenced_run:
  assumes "claim_held t (w, chain_kind_as_str chain, mint) claim db"
    "entry_fenced D dec_json now cfg token market clusters wallets nc (\<lambda>_. False) t w chain mint claim db = (res, db')"
  shows "res = Inr (if entry_rejection D cfg now token market clusters wallets = None then Some (sd_next_id db) else None)"
    "ev_rejection_code (last (sd_evals db')) = entry_rejection D cfg now token market clusters wallets"
    "entry_rejection D cfg now token market clusters wallets = None \<Longrightarrow>
       sr_score (last (sd_signals db')) = compute_entry_score clusters wallets nc"
  using assms
  by (auto simp: run_tx_def evaluate_token_fenced_def evaluate_token_on_def Let_def sig_run split: option.splits)

lemma exit_fenced_run:
  assumes "claim_held t (w, chain_kind_as_str chain, mint) claim db"
    "exit_fenced show_f64 D dec_json now cfg gates (\<lambda>_. False) t w chain mint claim db = (res, db')"
  shows "res = Inr (if exit_triggered show_f64 D cfg gates then Some (sd_next_id db) else None)"
    "ev_rejection_code (last (sd_evals db')) =
       (if exit_triggered show_f64 D cfg gates then None else Some (exit_rejection_code gates))"
    "exit_triggered show_f64 D cfg gates \<Longrightarrow> sr_score (last (sd_signals db')) = exit_score gates"
  using assms
  by (auto simp: run_tx_def evaluate_exit_fenced_def Let_def sig_run split: if_splits)



section \<open>Workers racing for a token\<close>

text \<open>
  Any number of workers share the tables. A step lets time pass, tries to acquire a claim, runs one
  of the fenced evaluators with some token under some fault schedule, or releases a claim after a
  failed evaluation. The list records the granted claims.
\<close>

inductive worker_step ::
  "(f64 \<Rightarrow> string) \<Rightarrow> ('d, 'x) decimal_num_scheme \<Rightarrow> ('d \<Rightarrow> json) \<Rightarrow>
   int \<times> signal_db \<times> claim_key list \<Rightarrow> int \<times> signal_db \<times> claim_key list \<Rightarrow> bool"
  for show_f64 D dec_json where
  tick: "t \<le> t' \<Longrightarrow> worker_step show_f64 D dec_json (t, db, g) (t', db, g)"
| acquire: "acquire_claim t k token db = (granted, db') \<Longrightarrow>
    worker_step show_f64 D dec_json (t, db, g) (t, db', if granted then k # g else g)"
| entry: "run_tx (evaluate_token_fenced D dec_json t w chain mint now cfg tk market clusters wallets nc token) fault db = (res, db') \<Longrightarrow>
    worker_step show_f64 D dec_json (t, db, g) (t, db', g)"
| exit: "run_tx (evaluate_exit_fenced show_f64 D dec_json t w chain mint now cfg gates token) fault db = (res, db') \<Longrightarrow>
    worker_step show_f64 D dec_json (t, db, g) (t, db', g)"
| release: "worker_step show_f64 D dec_json (t, db, g) (t, delete_claim k token db, g)"

definition evals_of :: "claim_key \<Rightarrow> signal_db \<Rightarrow> nat" where
  "evals_of k db = length (filter (\<lambda>e. eval_key e = k) (sd_evals db))"

definition signals_of :: "claim_key \<Rightarrow> signal_db \<Rightarrow> nat" where
  "signals_of k db = length (filter (\<lambda>s. signal_key s = k) (sd_signals db))"

text \<open>A claim that is still in the table has not been spent on an evaluation.\<close>

definition slot_ok :: "signal_db \<Rightarrow> claim_key list \<Rightarrow> claim_key \<Rightarrow> bool" where
  "slot_ok db g k \<longleftrightarrow>
     evals_of k db + (if sd_claims db k = None then 0 else 1) \<le> count_list g k \<and>
     signals_of k db \<le> evals_of k db"

definition ids_ok :: "signal_db \<Rightarrow> bool" where
  "ids_ok db \<longleftrightarrow> (\<forall>s \<in> set (sd_signals db). sr_id s < sd_next_id db) \<and> distinct (map sr_id (sd_signals db))"

definition claims_spent_once :: "int \<times> signal_db \<times> claim_key list \<Rightarrow> bool" where
  "claims_spent_once st \<longleftrightarrow> (case st of (t, db, g) \<Rightarrow> (\<forall>k. slot_ok db g k) \<and> ids_ok db)"

lemma claims_spent_once_iff: "claims_spent_once (t, db, g) \<longleftrightarrow> (\<forall>k. slot_ok db g k) \<and> ids_ok db"
  unfolding claims_spent_once_def prod.case ..

lemma claims_spent_onceD: "claims_spent_once (t, db, g) \<Longrightarrow> slot_ok db g k" "claims_spent_once (t, db, g) \<Longrightarrow> ids_ok db"
  unfolding claims_spent_once_iff by blast+

lemma claims_spent_onceI: "(\<And>k. slot_ok db g k) \<Longrightarrow> ids_ok db \<Longrightarrow> claims_spent_once (t, db, g)"
  unfolding claims_spent_once_iff by blast

lemma slot_ok_same:
  "slot_ok db g k \<Longrightarrow> sd_evals db' = sd_evals db \<Longrightarrow> sd_signals db' = sd_signals db \<Longrightarrow>
   sd_claims db' k = None \<or> sd_claims db' k = sd_claims db k \<Longrightarrow> slot_ok db' g k"
  by (auto simp: slot_ok_def evals_of_def signals_of_def split: if_splits)

lemma slot_ok_grant:
  "slot_ok db g j \<Longrightarrow> slot_ok (db\<lparr>sd_claims := (sd_claims db)(k \<mapsto> x)\<rparr>) (k # g) j"
  by (auto simp: slot_ok_def evals_of_def signals_of_def split: if_splits)

lemma ids_ok_append:
  "ids_ok db \<Longrightarrow> sd_signals db' = sd_signals db @ [s] \<Longrightarrow> sr_id s = sd_next_id db \<Longrightarrow>
   sd_next_id db' = sd_next_id db + 1 \<Longrightarrow> ids_ok db'"
  by (fastforce simp: ids_ok_def)

lemma ids_ok_same: "ids_ok db \<Longrightarrow> sd_signals db' = sd_signals db \<Longrightarrow> sd_next_id db' = sd_next_id db \<Longrightarrow> ids_ok db'"
  by (simp add: ids_ok_def)

lemma consumes_keeps:
  assumes "claims_spent_once (t, db, g)" "consumes_claim t k token db out db'"
  shows "claims_spent_once (t, db', g)"
proof -
  obtain e where e: "sd_evals db' = sd_evals db @ [e]" "eval_key e = k"
    and held: "claim_held t k token db" and cl: "sd_claims db' = (sd_claims db)(k := None)"
    using assms(2) by (auto simp: consumes_claim_def)
  have some: "sd_claims db k \<noteq> None" using held by (auto simp: claim_held_def split: option.splits)
  have evs: "evals_of j db' = evals_of j db + (if j = k then 1 else 0)" for j
    using e by (simp add: evals_of_def)
  have sigs: "signals_of j db' \<le> signals_of j db + (if j = k then 1 else 0)" for j
    using assms(2) by (auto simp: consumes_claim_def signals_of_def split: option.splits)
  have "slot_ok db' g j" for j
    using claims_spent_onceD(1) [OF assms(1), of j] evs [of j] sigs [of j] cl some
    by (auto simp: slot_ok_def split: if_splits)
  moreover have "ids_ok db'"
    using assms(2) claims_spent_onceD(2) [OF assms(1)] ids_ok_append [of db db'] ids_ok_same [of db db']
    by (auto simp: consumes_claim_def split: option.splits)
  ultimately show ?thesis by (rule claims_spent_onceI)
qed

context fenced_evaluator
begin

lemma eval_keeps:
  assumes "eval fault t w chain mint token db = (res, db')" "claims_spent_once (t, db, g)"
  shows "claims_spent_once (t, db', g)"
proof (cases res)
  case (Inl e)
  then show ?thesis using assms error_keeps by blast
next
  case (Inr out)
  then show ?thesis using assms success_consumes consumes_keeps by blast
qed

end

lemma worker_step_keeps:
  "worker_step show_f64 D dec_json st st' \<Longrightarrow> claims_spent_once st \<Longrightarrow> claims_spent_once st'"
proof (induction rule: worker_step.induct)
  case (acquire t k token db granted db' g)
  let ?db = "db\<lparr>sd_claims := (sd_claims db)(k \<mapsto> (token, t + 600))\<rparr>"
  have db': "db' = (if granted then ?db else db)"
    using acquire.hyps by (auto simp: acquire_claim_def Let_def split: option.splits if_splits)
  have "claims_spent_once (t, ?db, k # g)"
    using claims_spent_onceD(2) [OF acquire.prems]
    by (intro claims_spent_onceI slot_ok_grant claims_spent_onceD(1) [OF acquire.prems]) (simp add: ids_ok_def)
  then show ?case using db' acquire.prems by (cases granted) simp_all
next
  case (entry t w chain mint now cfg tk market clusters wallets nc token fault db res db' g)
  then show ?case by (rule entry.eval_keeps)
next
  case (exit t w chain mint now cfg gates token fault db res db' g)
  then show ?case by (rule exit.eval_keeps)
next
  case (release t db g k token)
  have "sd_claims (delete_claim k token db) j = None \<or> sd_claims (delete_claim k token db) j = sd_claims db j" for j
    by (auto simp: delete_claim_def split: option.splits)
  then have "slot_ok (delete_claim k token db) g j" for j
    using slot_ok_same [OF claims_spent_onceD(1) [OF release]] by simp
  moreover have "ids_ok (delete_claim k token db)"
    using ids_ok_same [OF claims_spent_onceD(2) [OF release]] by simp
  ultimately show ?case by (rule claims_spent_onceI)
qed (simp add: claims_spent_once_def)

text \<open>C9: One evaluation per granted claim. Start with empty tables and let any number of workers,
  with any tokens, clocks and failures, interleave. For every token of every workspace the evaluation
  rows never outnumber the granted claims, a claim in the table has not been spent, signals never
  outnumber evaluations, and signal ids are distinct. A claim is granted only when none is live; an
  evaluator that does not hold the live claim returns an error and writes nothing; and after a
  successful evaluation the same token cannot write again.\<close>

theorem one_evaluation_per_claim:
  assumes "(worker_step show_f64 D dec_json)\<^sup>*\<^sup>* (t0, \<lparr>sd_claims = Map.empty, sd_evals = [], sd_signals = [], sd_next_id = n\<rparr>, []) (t, db, g)"
  shows "evals_of k db + (if sd_claims db k = None then 0 else 1) \<le> count_list g k \<and>
    signals_of k db \<le> evals_of k db \<and> distinct (map sr_id (sd_signals db)) \<and>
    (fst (acquire_claim t k token db) \<longleftrightarrow> (\<nexists>owner. claim_held t k owner db)) \<and>
    (\<not> claim_held t (w, chain_kind_as_str chain, mint) token db \<longrightarrow>
       isl (fst (run_tx (evaluate_token_fenced D dec_json t w chain mint now cfg tk market clusters wallets nc token) fault db)) \<and>
       snd (run_tx (evaluate_token_fenced D dec_json t w chain mint now cfg tk market clusters wallets nc token) fault db) = db \<and>
       isl (fst (run_tx (evaluate_exit_fenced show_f64 D dec_json t w chain mint now cfg gates token) fault db)) \<and>
       snd (run_tx (evaluate_exit_fenced show_f64 D dec_json t w chain mint now cfg gates token) fault db) = db) \<and>
    (run_tx (evaluate_token_fenced D dec_json t w chain mint now cfg tk market clusters wallets nc token) fault db = (Inr out, db3) \<longrightarrow>
       isl (fst (run_tx (evaluate_token_fenced D dec_json t' w chain mint now' cfg tk market clusters wallets nc token) fault' db3)))"
proof -
  have inv: "claims_spent_once (t, db, g)"
    using assms
  proof (induction rule: rtranclp_induct)
    case base
    show ?case by (rule claims_spent_onceI) (simp_all add: slot_ok_def ids_ok_def evals_of_def signals_of_def)
  next
    case (step y z)
    then show ?case using worker_step_keeps by blast
  qed
  have acq: "fst (acquire_claim t k token db) \<longleftrightarrow> (\<nexists>owner. claim_held t k owner db)"
    by (auto simp: acquire_claim_def claim_held_def Let_def split: option.splits)
  note slots = claims_spent_onceD [OF inv]
  have never: "isl (fst (run_tx (evaluate_token_fenced D dec_json t' w chain mint now' cfg tk market clusters wallets nc token) fault' db3))"
    if "run_tx (evaluate_token_fenced D dec_json t w chain mint now cfg tk market clusters wallets nc token) fault db = (Inr out, db3)"
  proof -
    have "\<not> claim_held t' (w, chain_kind_as_str chain, mint) token db3"
      using entry.success_consumes [OF that] by (auto simp: consumes_claim_def claim_held_def)
    then show ?thesis by (blast dest: entry.stale_writes_nothing)
  qed
  have stale: "isl (fst (run_tx (evaluate_token_fenced D dec_json t w chain mint now cfg tk market clusters wallets nc token) fault db)) \<and>
       snd (run_tx (evaluate_token_fenced D dec_json t w chain mint now cfg tk market clusters wallets nc token) fault db) = db \<and>
       isl (fst (run_tx (evaluate_exit_fenced show_f64 D dec_json t w chain mint now cfg gates token) fault db)) \<and>
       snd (run_tx (evaluate_exit_fenced show_f64 D dec_json t w chain mint now cfg gates token) fault db) = db"
    if "\<not> claim_held t (w, chain_kind_as_str chain, mint) token db"
    by (simp add: entry.stale_writes_nothing [OF that] exit.stale_writes_nothing [OF that])
  show ?thesis using slots acq never stale unfolding slot_ok_def ids_ok_def by blast
qed

theorem one_evaluation_per_claim_witness:
  "\<not> fst (acquire_claim 599 (1, ''solana'', ''M'') ''b''
     (snd (acquire_claim 0 (1, ''solana'', ''M'') ''a''
        \<lparr>sd_claims = Map.empty, sd_evals = [], sd_signals = [], sd_next_id = 1\<rparr>)))"
proof -
  let ?k = "(1, ''solana'', ''M'') :: claim_key"
  let ?init = "\<lparr>sd_claims = Map.empty, sd_evals = [], sd_signals = [], sd_next_id = 1\<rparr> :: signal_db"
  let ?db = "snd (acquire_claim 0 ?k ''a'' ?init)"
  have acq: "acquire_claim 0 ?k ''a'' ?init = (True, ?db)"
    by (simp add: acquire_claim_def)
  have "worker_step (\<lambda>_. []) rat_num (\<lambda>_. JNull) (0, ?init, []) (0, ?db, [?k])"
    using worker_step.acquire [OF acq, of "\<lambda>_. []" rat_num "\<lambda>_. JNull" "[]"] by (simp only: if_True)
  moreover have "worker_step (\<lambda>_. []) rat_num (\<lambda>_. JNull) (0, ?db, [?k]) (599, ?db, [?k])"
    by (rule worker_step.tick) simp
  ultimately have "(worker_step (\<lambda>_. []) rat_num (\<lambda>_. JNull))\<^sup>*\<^sup>* (0, ?init, []) (599, ?db, [?k])"
    by (blast intro: r_into_rtranclp rtranclp_trans)
  note reach = one_evaluation_per_claim [OF this, of ?k "''b''"]
  have "claim_held 599 ?k ''a'' ?db" by (simp add: claim_held_def acquire_claim_def Let_def)
  then show ?thesis using reach by blast
qed

end
