(* ===== verification/Outbox.thy ===== *)
theory Outbox
  imports Signals
begin

text \<open>
  The alert outbox of \<^verbatim>\<open>src/signals.rs\<close> and the delivery outcomes of \<^verbatim>\<open>src/alerts.rs\<close>: claiming a
  delivery, recording it as sent or failed, and the retry schedule. The table of alerts is a map from
  the deduplication key to a row; each operation is one SQL statement (two for a claim) at a time \<open>t\<close>
  of the database, the two statements of a claim at the same instant. Claim tokens are arguments: the
  code mints a fresh one per claim.
\<close>

section \<open>Rows\<close>

definition ALERT_MAX_ATTEMPTS :: int where
  "ALERT_MAX_ATTEMPTS = 8"

definition ALERT_MAX_RETRY_AFTER_SECONDS :: nat where
  "ALERT_MAX_RETRY_AFTER_SECONDS = 600"

definition ALERT_CLAIM_LEASE_SECONDS :: int where
  "ALERT_CLAIM_LEASE_SECONDS = 120"

datatype alert_state = Pending | Sent | Dead

record alert_row =
  al_subject_kind :: string
  al_workspace :: int
  al_signal_id :: "int option"
  al_funding_case_id :: "int option"
  al_destination :: string
  al_state :: alert_state
  al_attempt_count :: int
  al_next_attempt_at :: "int option"
  al_claim_token :: "string option"
  al_claim_expires_at :: "int option"
  al_sent_at :: "int option"
  al_last_error :: "string option"

type_synonym outbox = "string \<Rightarrow> alert_row option"

definition alert_dedup_key :: "string \<Rightarrow> int \<Rightarrow> int \<Rightarrow> string \<Rightarrow> string" where
  "alert_dedup_key kind workspace_id subject_id destination =
     kind @ '':'' @ show_int workspace_id @ '':'' @ show_int subject_id @ '':'' @ destination"

datatype claim_error = UnknownSubjectKind string | CaseNotOwned int int

section \<open>Operations\<close>

definition lease_over :: "int \<Rightarrow> alert_row \<Rightarrow> bool" where
  "lease_over t r = (case al_claim_expires_at r of None \<Rightarrow> True | Some x \<Rightarrow> x \<le> t)"

definition terminalize :: "int \<Rightarrow> alert_row \<Rightarrow> alert_row" where
  "terminalize t r =
     (if al_state r = Pending \<and> ALERT_MAX_ATTEMPTS \<le> al_attempt_count r \<and> lease_over t r
      then r\<lparr>al_state := Dead, al_next_attempt_at := None, al_claim_token := None, al_claim_expires_at := None\<rparr>
      else r)"

text \<open>A comparison with a missing \<open>next_attempt_at\<close> is not true in SQL.\<close>

definition claimable :: "int \<Rightarrow> alert_row \<Rightarrow> bool" where
  "claimable t r \<longleftrightarrow>
     al_state r = Pending \<and> (case al_next_attempt_at r of None \<Rightarrow> False | Some x \<Rightarrow> x \<le> t) \<and>
     lease_over t r \<and> al_attempt_count r < ALERT_MAX_ATTEMPTS"

definition fresh_alert :: "int \<Rightarrow> string \<Rightarrow> int \<Rightarrow> int option \<Rightarrow> int option \<Rightarrow> string \<Rightarrow> string \<Rightarrow> alert_row" where
  "fresh_alert t kind workspace_id signal_id funding_case_id destination token =
     \<lparr>al_subject_kind = kind, al_workspace = workspace_id, al_signal_id = signal_id,
      al_funding_case_id = funding_case_id, al_destination = destination, al_state = Pending,
      al_attempt_count = 1, al_next_attempt_at = Some (t + ALERT_CLAIM_LEASE_SECONDS),
      al_claim_token = Some token, al_claim_expires_at = Some (t + ALERT_CLAIM_LEASE_SECONDS),
      al_sent_at = None, al_last_error = None\<rparr>"

definition reclaim :: "int \<Rightarrow> string \<Rightarrow> alert_row \<Rightarrow> alert_row" where
  "reclaim t token r =
     r\<lparr>al_claim_token := Some token, al_claim_expires_at := Some (t + ALERT_CLAIM_LEASE_SECONDS),
       al_next_attempt_at := Some (t + ALERT_CLAIM_LEASE_SECONDS), al_attempt_count := al_attempt_count r + 1\<rparr>"

definition upsert_claim ::
  "int \<Rightarrow> string \<Rightarrow> alert_row \<Rightarrow> string \<Rightarrow> outbox \<Rightarrow> int option \<times> outbox" where
  "upsert_claim t key fresh token ob =
     (case ob key of
        None \<Rightarrow> (Some (al_attempt_count fresh), ob(key \<mapsto> fresh))
      | Some r \<Rightarrow>
          if claimable t r then (Some (al_attempt_count r + 1), ob(key \<mapsto> reclaim t token r)) else (None, ob))"

text \<open>\<open>owned\<close> tells whether a funding case belongs to a workspace. The first statement commits on its
  own, so it stays also when the claim is refused afterwards.\<close>

definition claim_alert ::
  "(int \<Rightarrow> int \<Rightarrow> bool) \<Rightarrow> int \<Rightarrow> string \<Rightarrow> int \<Rightarrow> int \<Rightarrow> string \<Rightarrow> string \<Rightarrow> outbox \<Rightarrow>
   (claim_error + (string \<times> int) option) \<times> outbox" where
  "claim_alert owned t kind workspace_id subject_id destination token ob =
     (let key = alert_dedup_key kind workspace_id subject_id destination;
          ob1 = ob(key := map_option (terminalize t) (ob key));
          go = (\<lambda>signal_id case_id.
            case upsert_claim t key (fresh_alert t kind workspace_id signal_id case_id destination token) token ob1 of
              (row, ob2) \<Rightarrow> (Inr (map_option (\<lambda>attempt. (token, attempt)) row), ob2))
      in if kind = ''signal'' then go (Some subject_id) None
         else if kind = ''funding'' then
           (if owned subject_id workspace_id then go None (Some subject_id)
            else (Inl (CaseNotOwned subject_id workspace_id), ob1))
         else (Inl (UnknownSubjectKind kind), ob1))"

definition held_by :: "string \<Rightarrow> alert_row \<Rightarrow> bool" where
  "held_by token r \<longleftrightarrow> al_state r = Pending \<and> al_claim_token r = Some token"

definition fenced_update :: "string \<Rightarrow> string \<Rightarrow> (alert_row \<Rightarrow> alert_row) \<Rightarrow> outbox \<Rightarrow> bool \<times> outbox" where
  "fenced_update key token f ob =
     (case ob key of
        Some r \<Rightarrow> if held_by token r then (True, ob(key \<mapsto> f r)) else (False, ob)
      | None \<Rightarrow> (False, ob))"

definition mark_alert_sent ::
  "int \<Rightarrow> string \<Rightarrow> int \<Rightarrow> int \<Rightarrow> string \<Rightarrow> string \<Rightarrow> outbox \<Rightarrow> bool \<times> outbox" where
  "mark_alert_sent t kind workspace_id subject_id destination claim_token =
     fenced_update (alert_dedup_key kind workspace_id subject_id destination) claim_token
       (\<lambda>r. r\<lparr>al_state := Sent, al_sent_at := Some t, al_last_error := None, al_claim_token := None,
              al_claim_expires_at := None, al_next_attempt_at := None\<rparr>)"

text \<open>\<open>attempt as u32\<close> wraps; the shift of 60 by at most six places stays below \<open>2 ^ 64\<close>.\<close>

definition retry_backoff :: "int \<Rightarrow> nat option \<Rightarrow> nat" where
  "retry_backoff attempt retry_after =
     (case retry_after of
        Some s \<Rightarrow> min s ALERT_MAX_RETRY_AFTER_SECONDS
      | None \<Rightarrow> min (60 * 2 ^ min (nat (attempt mod 2 ^ 32)) 6) 3600)"

definition mark_alert_failed ::
  "int \<Rightarrow> string \<Rightarrow> int \<Rightarrow> int \<Rightarrow> string \<Rightarrow> string \<Rightarrow> int \<Rightarrow> string \<Rightarrow> bool \<Rightarrow> nat option \<Rightarrow> outbox \<Rightarrow> bool \<times> outbox" where
  "mark_alert_failed t kind workspace_id subject_id destination claim_token attempt error permanent retry_after =
     (let backoff = retry_backoff attempt retry_after;
          dead = (permanent \<or> ALERT_MAX_ATTEMPTS \<le> attempt)
      in fenced_update (alert_dedup_key kind workspace_id subject_id destination) claim_token
           (\<lambda>r. r\<lparr>al_last_error := Some error, al_state := (if dead then Dead else Pending),
                  al_next_attempt_at := (if dead then None else Some (t + int backoff)),
                  al_claim_token := None, al_claim_expires_at := None\<rparr>))"

section \<open>Delivery outcomes\<close>

datatype SendFailure = RateLimited nat | Transient | Permanent

datatype http_result =
    TransportError
  | Response nat "json option" "nat option"

text \<open>A response carries its status, its body when it parses as JSON, and its \<open>Retry-After\<close> header when
  that reads as a number.\<close>

definition body_ok :: "json \<Rightarrow> bool" where
  "body_ok body = (case as_object body of
     Some m \<Rightarrow> (case map_of m ''ok'' of Some (JBool b) \<Rightarrow> b | _ \<Rightarrow> False) | None \<Rightarrow> False)"

fun send_message :: "http_result \<Rightarrow> SendFailure + unit" where
  "send_message TransportError = Inl Transient"
| "send_message (Response status body retry_after) =
     (if 200 \<le> status \<and> status < 300 then
        (case body of
           None \<Rightarrow> Inl Transient
         | Some b \<Rightarrow> if body_ok b then Inr () else Inl Permanent)
      else if status = 429 then Inl (RateLimited (case retry_after of Some s \<Rightarrow> s | None \<Rightarrow> 30))
      else if 500 \<le> status \<and> status < 600 then Inl Transient
      else Inl Permanent)"

text \<open>One round of the dispatcher for one delivery: claim at \<open>t\<close>, send, record the outcome at \<open>t'\<close>. The
  second component of the result tells whether the delivery was recorded as sent.\<close>

fun failure_policy :: "SendFailure \<Rightarrow> bool \<times> nat option" where
  "failure_policy Permanent = (True, None)"
| "failure_policy Transient = (False, None)"
| "failure_policy (RateLimited secs) = (False, Some secs)"

definition dispatch_one ::
  "(int \<Rightarrow> int \<Rightarrow> bool) \<Rightarrow> (SendFailure \<Rightarrow> string) \<Rightarrow> int \<Rightarrow> int \<Rightarrow> string \<Rightarrow> int \<Rightarrow> int \<Rightarrow> string \<Rightarrow> string \<Rightarrow>
   http_result \<Rightarrow> outbox \<Rightarrow> (claim_error + bool) \<times> outbox" where
  "dispatch_one owned show_failure t t' kind workspace_id subject_id chat_id token http ob =
     (case claim_alert owned t kind workspace_id subject_id chat_id token ob of
        (Inl e, ob1) \<Rightarrow> (Inl e, ob1)
      | (Inr None, ob1) \<Rightarrow> (Inr False, ob1)
      | (Inr (Some (tok, attempt)), ob1) \<Rightarrow>
          (case send_message http of
             Inr _ \<Rightarrow> (case mark_alert_sent t' kind workspace_id subject_id chat_id tok ob1 of (ok, ob2) \<Rightarrow> (Inr ok, ob2))
           | Inl failure \<Rightarrow>
               (case failure_policy failure of (permanent, retry_after) \<Rightarrow>
                  (Inr False, snd (mark_alert_failed t' kind workspace_id subject_id chat_id tok attempt
                                     (show_failure failure) permanent retry_after ob1)))))"

record AlertMessage =
  am_dedup_key :: string
  am_text :: string

definition newline :: string where
  "newline = [char_of (10 :: nat)]"

definition compose_signal_alert :: "string \<Rightarrow> string \<Rightarrow> string \<Rightarrow> nat \<Rightarrow> string \<Rightarrow> AlertMessage" where
  "compose_signal_alert chain mint kind score evidence_summary =
     \<lparr>am_dedup_key = ''signal:'' @ chain @ '':'' @ mint @ '':'' @ kind,
      am_text = ''['' @ kind @ ''] '' @ chain @ '' '' @ mint @ '' score '' @ show_nat score @ newline @
        evidence_summary @ newline @ ''Research signal; not financial advice.''\<rparr>"

definition compose_funding_alert :: "string \<Rightarrow> string \<Rightarrow> nat \<Rightarrow> string \<Rightarrow> AlertMessage" where
  "compose_funding_alert recipient chain confidence summary =
     \<lparr>am_dedup_key = ''funding:'' @ chain @ '':'' @ recipient,
      am_text = ''[funding_radar] '' @ chain @ '' wallet '' @ recipient @ '' confidence '' @
        show_nat confidence @ '': possible project preparation'' @ newline @ summary\<rparr>"

section \<open>Identity of a delivery\<close>

lemma dedup_key_inj:
  assumes "kind \<in> {''signal'', ''funding''}" "kind' \<in> {''signal'', ''funding''}"
  shows "alert_dedup_key kind w s d = alert_dedup_key kind' w' s' d' \<longleftrightarrow>
         kind = kind' \<and> w = w' \<and> s = s' \<and> d = d'"
proof -
  have "CHR '':'' \<notin> set kind" "CHR '':'' \<notin> set kind'" using assms by auto
  then show ?thesis
    by (simp add: alert_dedup_key_def append_sep_inj show_int_no_colon show_int_inj)
qed

section \<open>Dispatchers racing for a delivery\<close>

text \<open>
  Dispatchers share the outbox. The two lists record, by key, the granted claims (each stands for at most
  one attempt to send) and the recorded deliveries.
\<close>

inductive outbox_step ::
  "(int \<Rightarrow> int \<Rightarrow> bool) \<Rightarrow> int \<times> outbox \<times> string list \<times> string list \<Rightarrow>
   int \<times> outbox \<times> string list \<times> string list \<Rightarrow> bool"
  for owned where
  tick: "t \<le> t' \<Longrightarrow> outbox_step owned (t, ob, g, s) (t', ob, g, s)"
| claim: "claim_alert owned t kind w subj dest token ob = (res, ob') \<Longrightarrow>
    outbox_step owned (t, ob, g, s)
      (t, ob', case res of Inr (Some _) \<Rightarrow> alert_dedup_key kind w subj dest # g | _ \<Rightarrow> g, s)"
| sent: "mark_alert_sent t kind w subj dest token ob = (ok, ob') \<Longrightarrow>
    outbox_step owned (t, ob, g, s)
      (t, ob', g, if ok then alert_dedup_key kind w subj dest # s else s)"
| failed: "mark_alert_failed t kind w subj dest token attempt error permanent retry ob = (ok, ob') \<Longrightarrow>
    outbox_step owned (t, ob, g, s) (t, ob', g, s)"

text \<open>The invariant of one row, with the number of its grants and of its recorded deliveries.\<close>

definition row_inv :: "alert_row option \<Rightarrow> nat \<Rightarrow> nat \<Rightarrow> bool" where
  "row_inv x ng ns =
     (case x of
        None \<Rightarrow> ng = 0 \<and> ns = 0
      | Some r \<Rightarrow>
          al_attempt_count r = int ng \<and> int ng \<le> ALERT_MAX_ATTEMPTS \<and>
          ns = (if al_state r = Sent then 1 else 0) \<and>
          (al_state r = Pending \<longrightarrow> al_next_attempt_at r \<noteq> None) \<and>
          (al_state r \<noteq> Pending \<longrightarrow> al_claim_token r = None \<and> al_next_attempt_at r = None) \<and>
          (al_claim_token r = None \<longleftrightarrow> al_claim_expires_at r = None))"

definition outbox_inv :: "int \<times> outbox \<times> string list \<times> string list \<Rightarrow> bool" where
  "outbox_inv st = (case st of (t, ob, g, s) \<Rightarrow> \<forall>k. row_inv (ob k) (count_list g k) (count_list s k))"

lemma row_inv_terminalize: "row_inv x ng ns \<Longrightarrow> row_inv (map_option (terminalize t) x) ng ns"
  by (auto simp: row_inv_def terminalize_def split: option.splits)

lemma row_inv_upsert:
  assumes "row_inv (ob key) ng ns" "al_attempt_count fresh = 1" "row_inv (Some fresh) 1 0"
    "upsert_claim t key fresh token ob = (res, ob')"
  shows "row_inv (ob' key) (if res = None then ng else ng + 1) ns \<and> (k \<noteq> key \<longrightarrow> ob' k = ob k)"
  using assms
  by (auto simp: upsert_claim_def row_inv_def claimable_def reclaim_def split: option.splits if_splits)

lemma row_inv_fresh: "row_inv (Some (fresh_alert t kind w si ci dest token)) 1 0"
  by (simp add: row_inv_def fresh_alert_def ALERT_MAX_ATTEMPTS_def)

lemma claim_alert_inv:
  assumes "claim_alert owned t kind w subj dest token ob = (res, ob')"
    "\<forall>k. row_inv (ob k) (count_list g k) (count_list s k)"
  shows "row_inv (ob' k) (count_list (case res of Inr (Some _) \<Rightarrow> alert_dedup_key kind w subj dest # g | _ \<Rightarrow> g) k)
           (count_list s k)"
proof -
  let ?key = "alert_dedup_key kind w subj dest"
  let ?ob1 = "ob(?key := map_option (terminalize t) (ob ?key))"
  have inv1: "row_inv (?ob1 j) (count_list g j) (count_list s j)" for j
    using assms(2) row_inv_terminalize by simp
  have go: ?thesis
    if "upsert_claim t ?key (fresh_alert t kind w si ci dest token) token ?ob1 = (row, ob')"
       "res = Inr (map_option (\<lambda>attempt. (token, attempt)) row)" for si ci row
    using row_inv_upsert [OF inv1 [of ?key] _ row_inv_fresh that(1), of k] that(2) inv1 [of k]
    by (cases "k = ?key"; cases row) (simp_all add: fresh_alert_def)
  show ?thesis
    using assms(1) inv1 go
    by (auto simp: claim_alert_def Let_def split: if_splits prod.splits)
qed

lemma fenced_update_inv:
  assumes "fenced_update key token f ob = (ok, ob')" "\<forall>k. row_inv (ob k) (count_list g k) (count_list s k)"
    "\<And>r ng ns. row_inv (Some r) ng ns \<Longrightarrow> held_by token r \<Longrightarrow> row_inv (Some (f r)) ng (ns + extra)"
  shows "row_inv (ob' k) (count_list g k) (count_list s k + (if ok \<and> k = key then extra else 0))"
proof (cases "\<exists>r. ob key = Some r \<and> held_by token r \<and> k = key")
  case True
  then obtain r where r: "ob key = Some r" "held_by token r" "k = key" by blast
  have "row_inv (Some r) (count_list g key) (count_list s key)" using assms(2) r(1) by metis
  then show ?thesis using assms(1) assms(3) r by (auto simp: fenced_update_def)
next
  case False
  then show ?thesis using assms(1,2) by (auto simp: fenced_update_def split: option.splits if_splits)
qed

lemma sent_inv:
  assumes "mark_alert_sent t kind w subj dest token ob = (ok, ob')"
    "\<forall>k. row_inv (ob k) (count_list g k) (count_list s k)"
  shows "row_inv (ob' k) (count_list g k) (count_list (if ok then alert_dedup_key kind w subj dest # s else s) k)"
proof -
  have "row_inv (ob' k) (count_list g k)
      (count_list s k + (if ok \<and> k = alert_dedup_key kind w subj dest then 1 else 0))"
    by (rule fenced_update_inv [OF assms(1) [unfolded mark_alert_sent_def] assms(2)])
       (auto simp: row_inv_def held_by_def)
  then show ?thesis by (auto split: if_splits)
qed

lemma failed_inv:
  assumes "mark_alert_failed t kind w subj dest token attempt error permanent retry ob = (ok, ob')"
    "\<forall>k. row_inv (ob k) (count_list g k) (count_list s k)"
  shows "row_inv (ob' k) (count_list g k) (count_list s k)"
proof -
  have "row_inv (ob' k) (count_list g k)
      (count_list s k + (if ok \<and> k = alert_dedup_key kind w subj dest then 0 else 0))"
    by (rule fenced_update_inv [OF assms(1) [unfolded mark_alert_failed_def Let_def] assms(2)])
       (auto simp: row_inv_def held_by_def)
  then show ?thesis by simp
qed

lemma outbox_step_inv: "outbox_step owned st st' \<Longrightarrow> outbox_inv st \<Longrightarrow> outbox_inv st'"
proof (induction rule: outbox_step.induct)
  case (claim t kind w subj dest token ob res ob' g s)
  then show ?case using claim_alert_inv by (simp add: outbox_inv_def)
next
  case (sent t kind w subj dest token ob ok ob' g s)
  then show ?case using sent_inv [OF sent.hyps, of g s] by (simp add: outbox_inv_def)
next
  case (failed t kind w subj dest token attempt error permanent retry ob ok ob' g s)
  then show ?case using failed_inv [OF failed.hyps, of g s] by (simp add: outbox_inv_def)
qed (simp add: outbox_inv_def)

lemma outbox_reachable_inv:
  "(outbox_step owned)\<^sup>*\<^sup>* (t0, Map.empty, [], []) (t, ob, g, s) \<Longrightarrow>
   row_inv (ob k) (count_list g k) (count_list s k)"
proof -
  assume reach: "(outbox_step owned)\<^sup>*\<^sup>* (t0, Map.empty, [], []) (t, ob, g, s)"
  have "outbox_inv (t, ob, g, s)"
    using reach
  proof (induction rule: rtranclp_induct)
    case base
    show ?case by (simp add: outbox_inv_def row_inv_def)
  next
    case (step y z)
    then show ?case using outbox_step_inv by blast
  qed
  then show ?thesis by (simp add: outbox_inv_def)
qed

text \<open>A granted claim: the row is new, or it was pending, due and without a live claim.\<close>

lemma claim_granted:
  assumes "claim_alert owned t kind w subj dest token ob = (Inr (Some c), ob')"
  shows "kind \<in> {''signal'', ''funding''} \<and> (kind = ''funding'' \<longrightarrow> owned subj w) \<and> fst c = token \<and>
    (case ob (alert_dedup_key kind w subj dest) of
       None \<Rightarrow> snd c = 1
     | Some r \<Rightarrow> claimable t r \<and> snd c = al_attempt_count r + 1)"
proof -
  let ?key = "alert_dedup_key kind w subj dest"
  have dead: "claimable t (terminalize t r) \<Longrightarrow> claimable t r" for r
    by (auto simp: claimable_def terminalize_def split: if_splits)
  have same: "al_attempt_count (terminalize t r) = al_attempt_count r" for r
    by (simp add: terminalize_def)
  show ?thesis
    using assms dead
    by (auto simp: same claim_alert_def Let_def upsert_claim_def fresh_alert_def split: if_splits prod.splits option.splits)
qed

lemma backoff_bound: "retry_backoff attempt retry \<le> 3600"
  by (cases retry) (simp_all add: retry_backoff_def ALERT_MAX_RETRY_AFTER_SECONDS_def)

text \<open>What a claim does to an existing row.\<close>

lemma claim_row:
  assumes "key = alert_dedup_key kind w subj dest" "ob key = Some r"
  shows "snd (claim_alert owned t kind w subj dest token ob) key =
    (if claimable t (terminalize t r) \<and> (kind = ''signal'' \<or> kind = ''funding'' \<and> owned subj w)
     then Some (reclaim t token (terminalize t r)) else Some (terminalize t r))"
  unfolding claim_alert_def assms(1) [symmetric] Let_def upsert_claim_def using assms(2) by simp

text \<open>An uninterrupted round records a delivery exactly when it was granted and the provider confirmed it.\<close>

lemma send_confirmed:
  "send_message http = Inr u \<longleftrightarrow>
     (\<exists>status b retry. http = Response status (Some b) retry \<and> 200 \<le> status \<and> status < 300 \<and> body_ok b)"
  by (cases http) (auto split: option.splits if_splits)

lemma granted_held:
  assumes "key = alert_dedup_key kind w subj dest" "claim_alert owned t kind w subj dest token ob = (Inr (Some c), ob1)"
  shows "\<exists>r. ob1 key = Some r \<and> held_by token r"
proof -
  have "al_state (terminalize t r) = Pending" if "claimable t (terminalize t r)" for r
    using that by (simp add: claimable_def)
  then show ?thesis
    using assms(2) unfolding claim_alert_def assms(1) [symmetric] Let_def upsert_claim_def
    by (auto simp: held_by_def fresh_alert_def reclaim_def split: if_splits option.splits)
qed

lemma dispatch_records_confirmed:
  assumes "dispatch_one owned show_failure t t' kind w subj dest token http ob = (Inr ok, ob')"
  shows "ok \<longleftrightarrow> (\<exists>c ob1. claim_alert owned t kind w subj dest token ob = (Inr (Some c), ob1)) \<and>
               (\<exists>status b retry. http = Response status (Some b) retry \<and> 200 \<le> status \<and> status < 300 \<and> body_ok b)"
proof -
  obtain res ob1 where cl: "claim_alert owned t kind w subj dest token ob = (res, ob1)" by fastforce
  show ?thesis
  proof (cases "\<exists>c. res = Inr (Some c)")
    case False
    then show ?thesis using assms cl by (auto simp: dispatch_one_def split: sum.splits option.splits)
  next
    case True
    then obtain attempt where res: "res = Inr (Some (token, attempt))" using claim_granted cl by fastforce
    obtain r where "ob1 (alert_dedup_key kind w subj dest) = Some r" "held_by token r"
      using granted_held [OF refl cl [unfolded res]] by blast
    then have "ok \<longleftrightarrow> send_message http = Inr ()"
      using assms cl res
      by (cases "send_message http")
         (auto simp: dispatch_one_def mark_alert_sent_def fenced_update_def split: prod.splits)
    then show ?thesis unfolding send_confirmed using cl res by blast
  qed
qed



section \<open>No delivery is stuck\<close>

lemma claim_other_rows:
  assumes "key = alert_dedup_key kind w subj dest" "k \<noteq> key"
  shows "snd (claim_alert owned t kind w subj dest token ob) k = ob k"
  unfolding claim_alert_def assms(1) [symmetric] Let_def upsert_claim_def
  using assms(2) by (cases "ob key") simp_all

lemma claim_new_row:
  assumes "key = alert_dedup_key kind w subj dest" "ob key = None"
  shows "snd (claim_alert owned t kind w subj dest token ob) key = None \<or>
    (\<exists>si ci. snd (claim_alert owned t kind w subj dest token ob) key = Some (fresh_alert t kind w si ci dest token))"
  unfolding claim_alert_def assms(1) [symmetric] Let_def upsert_claim_def using assms(2) by auto

text \<open>Pending rows are due within the hour, and their leases end within two minutes.\<close>

definition due_soon :: "int \<Rightarrow> alert_row option \<Rightarrow> bool" where
  "due_soon t x =
     (case x of
        None \<Rightarrow> True
      | Some r \<Rightarrow> (case al_next_attempt_at r of None \<Rightarrow> True | Some n \<Rightarrow> n \<le> t + 3600) \<and>
                  (case al_claim_expires_at r of None \<Rightarrow> True | Some e \<Rightarrow> e \<le> t + 120))"

lemma due_soon_later: "due_soon t x \<Longrightarrow> t \<le> t' \<Longrightarrow> due_soon t' x"
  by (auto simp: due_soon_def split: option.splits)

lemma due_soon_terminalize: "due_soon t (Some r) \<Longrightarrow> due_soon t (Some (terminalize t r))"
  by (simp add: due_soon_def terminalize_def)

lemma due_soon_step:
  "outbox_step owned (t, ob, g, s) (t', ob', g', s') \<Longrightarrow> due_soon t (ob k) \<Longrightarrow> due_soon t' (ob' k)"
proof (induction "(t, ob, g, s)" "(t', ob', g', s')" rule: outbox_step.induct)
  case (claim kind w subj dest token res)
  let ?key = "alert_dedup_key kind w subj dest"
  have t: "t' = t" and ob': "ob' = snd (claim_alert owned t kind w subj dest token ob)"
    using claim by simp_all
  have claimed: "due_soon t (Some (reclaim t token r))" "due_soon t (Some (fresh_alert t kind w si ci dest token))" for r si ci
    by (simp_all add: due_soon_def reclaim_def fresh_alert_def ALERT_CLAIM_LEASE_SECONDS_def)
  consider "k \<noteq> ?key" | "k = ?key" "ob k = None" | r where "k = ?key" "ob k = Some r" by fastforce
  then show ?case
  proof cases
    case 1
    then show ?thesis using claim_other_rows [OF refl 1] claim.prems t ob' by simp
  next
    case 2
    then show ?thesis
      using claim_new_row [of k kind w subj dest ob owned t token] claimed(2) t ob' by (auto simp: due_soon_def [of _ None])
  next
    case 3
    then show ?thesis
      using claim_row [of k kind w subj dest ob r owned t token] claimed(1) due_soon_terminalize claim.prems t ob' by simp
  qed
next
  case (sent kind w subj dest token ok)
  then show ?case
    by (auto simp: mark_alert_sent_def fenced_update_def due_soon_def split: if_splits option.splits)
next
  case (failed kind w subj dest token attempt error permanent retry ok)
  have "int (retry_backoff attempt retry) \<le> 3600" using backoff_bound [of attempt retry] by linarith
  with failed show ?case
    by (auto simp: mark_alert_failed_def Let_def fenced_update_def due_soon_def split: if_splits option.splits)
qed (simp add: due_soon_later)

lemma outbox_due_soon:
  "(outbox_step owned)\<^sup>*\<^sup>* (t0, Map.empty, [], []) (t, ob, g, s) \<Longrightarrow> due_soon t (ob k)"
  by (induction "(t, ob, g, s)" arbitrary: t ob g s rule: rtranclp_induct)
     (auto simp: due_soon_def [of _ None] dest: due_soon_step)

text \<open>A dispatcher that claims once an hour and always crashes before recording an outcome.\<close>

fun crashing_dispatcher ::
  "(int \<Rightarrow> int \<Rightarrow> bool) \<Rightarrow> string \<Rightarrow> int \<Rightarrow> int \<Rightarrow> string \<Rightarrow> string \<Rightarrow> nat \<Rightarrow> int \<Rightarrow> outbox \<Rightarrow> outbox" where
  "crashing_dispatcher owned kind w subj dest token 0 t ob = ob"
| "crashing_dispatcher owned kind w subj dest token (Suc n) t ob =
     crashing_dispatcher owned kind w subj dest token n (t + 3600)
       (snd (claim_alert owned t kind w subj dest token ob))"

definition ready :: "int \<Rightarrow> alert_row \<Rightarrow> bool" where
  "ready t r \<longleftrightarrow> al_state r = Pending \<and> lease_over t r \<and>
     (case al_next_attempt_at r of None \<Rightarrow> False | Some n \<Rightarrow> n \<le> t)"

lemma dead_stays:
  assumes "key = alert_dedup_key kind w subj dest"
  shows "ob key = Some r \<Longrightarrow> al_state r \<noteq> Pending \<Longrightarrow>
    crashing_dispatcher owned kind w subj dest token n t ob key = Some r"
proof (induction n arbitrary: t ob)
  case (Suc n)
  have "snd (claim_alert owned t kind w subj dest token ob) key = Some r"
    using claim_row [OF assms, of ob r owned t token] Suc.prems by (simp add: terminalize_def claimable_def)
  then show ?case using Suc by simp
qed simp

lemma crashing_dispatcher_ends:
  assumes key: "key = alert_dedup_key kind w subj dest" and kind: "kind = ''signal'' \<or> kind = ''funding'' \<and> owned subj w"
  shows "ob key = Some r \<Longrightarrow> ready t r \<Longrightarrow> 9 \<le> al_attempt_count r + int n \<Longrightarrow> 0 < n \<Longrightarrow>
    \<exists>r'. crashing_dispatcher owned kind w subj dest token n t ob key = Some r' \<and> al_state r' \<noteq> Pending"
proof (induction n arbitrary: t ob r)
  case (Suc n)
  let ?ob = "snd (claim_alert owned t kind w subj dest token ob)"
  show ?case
  proof (cases "ALERT_MAX_ATTEMPTS \<le> al_attempt_count r")
    case True
    then have "?ob key = Some (terminalize t r)" "al_state (terminalize t r) = Dead"
      using claim_row [OF key, of ob r owned t token] Suc.prems
      by (auto simp: ready_def terminalize_def claimable_def)
    then show ?thesis using dead_stays [OF key, of ?ob] by auto
  next
    case False
    then have row: "?ob key = Some (reclaim t token r)"
      using claim_row [OF key, of ob r owned t token] Suc.prems kind
      by (auto simp: ready_def terminalize_def claimable_def)
    have "ready (t + 3600) (reclaim t token r)"
      using Suc.prems by (simp add: ready_def reclaim_def lease_over_def ALERT_CLAIM_LEASE_SECONDS_def)
    moreover have "9 \<le> al_attempt_count (reclaim t token r) + int n"
      using Suc.prems by (simp add: reclaim_def)
    moreover have "0 < n" using False Suc.prems by (auto simp: ALERT_MAX_ATTEMPTS_def)
    ultimately show ?thesis using Suc.IH [of ?ob "reclaim t token r"] row by simp
  qed
qed simp

text \<open>C12: No alert is stuck. In every reachable outbox a pending delivery becomes due, and its lease
  ends, within the hour; from then on a claim either grants the next attempt or, at the cap, closes the row.
  So even if every dispatcher that claims it crashes before recording an outcome, nine hourly claims close
  the delivery.\<close>

theorem no_alert_is_stuck:
  assumes "(outbox_step owned)\<^sup>*\<^sup>* (t0, Map.empty, [], []) (t, ob, g, s)"
    and "key = alert_dedup_key kind w subj dest" and "kind = ''signal'' \<or> kind = ''funding'' \<and> owned subj w"
    and "ob key = Some r" "al_state r = Pending" and "t + 3600 \<le> u"
  shows "(if al_attempt_count r < 8
      then claim_alert owned u kind w subj dest token ob = (Inr (Some (token, al_attempt_count r + 1)), ob(key \<mapsto> reclaim u token r))
      else \<exists>r'. snd (claim_alert owned u kind w subj dest token ob) key = Some r' \<and> al_state r' = Dead) \<and>
    (\<exists>r'. crashing_dispatcher owned kind w subj dest token 9 u ob key = Some r' \<and> al_state r' \<noteq> Pending)"
proof -
  have inv: "row_inv (Some r) (count_list g key) (count_list s key)"
    using outbox_reachable_inv [OF assms(1), of key] assms(4) by simp
  have ready: "ready u r"
    using outbox_due_soon [OF assms(1), of key] inv assms(4,5,6)
    by (auto simp: due_soon_def row_inv_def ready_def lease_over_def split: option.splits)
  have "\<exists>r'. crashing_dispatcher owned kind w subj dest token 9 u ob key = Some r' \<and> al_state r' \<noteq> Pending"
    using crashing_dispatcher_ends [of key kind w subj dest owned ob r u 9 token] assms(2,3,4) ready inv
    by (simp add: row_inv_def)
  moreover have "claim_alert owned u kind w subj dest token ob = (Inr (Some (token, al_attempt_count r + 1)), ob(key \<mapsto> reclaim u token r))"
    if "al_attempt_count r < 8"
  proof -
    have t: "terminalize u r = r" "claimable u r"
      using that ready by (auto simp: terminalize_def claimable_def ready_def ALERT_MAX_ATTEMPTS_def)
    show ?thesis
      unfolding claim_alert_def assms(2) [symmetric] Let_def upsert_claim_def using assms(3,4) t by auto
  qed
  moreover have "\<exists>r'. snd (claim_alert owned u kind w subj dest token ob) key = Some r' \<and> al_state r' = Dead"
    if "\<not> al_attempt_count r < 8"
    using that claim_row [OF assms(2), of ob r owned u token] assms(4) ready
    by (auto simp: terminalize_def ready_def ALERT_MAX_ATTEMPTS_def claimable_def)
  ultimately show ?thesis by auto
qed

theorem no_alert_is_stuck_witness:
  "\<exists>r'. crashing_dispatcher (\<lambda>_ _. False) ''signal'' 1 2 ''c'' ''again'' 9 4000
     (snd (claim_alert (\<lambda>_ _. False) 0 ''signal'' 1 2 ''c'' ''mine'' Map.empty))
     (alert_dedup_key ''signal'' 1 2 ''c'') = Some r' \<and> al_state r' \<noteq> Pending"
proof -
  let ?ob = "snd (claim_alert (\<lambda>_ _. False) 0 ''signal'' 1 2 ''c'' ''mine'' Map.empty)"
  let ?key = "alert_dedup_key ''signal'' 1 2 ''c''"
  obtain r where r: "?ob ?key = Some r" "al_state r = Pending"
    by (simp add: claim_alert_def Let_def upsert_claim_def fresh_alert_def)
  have "claim_alert (\<lambda>_ _. False) 0 ''signal'' 1 2 ''c'' ''mine'' Map.empty = (Inr (Some (''mine'', 1)), ?ob)"
    by (simp add: claim_alert_def Let_def upsert_claim_def fresh_alert_def)
  from outbox_step.claim [OF this, of "[]" "[]"]
  have reach: "(outbox_step (\<lambda>_ _. False))\<^sup>*\<^sup>* (0, Map.empty, [], []) (0, ?ob, [?key], [])" by simp
  show ?thesis
    using no_alert_is_stuck [OF reach refl, of "''signal''" 1 2 "''c''" r 4000 "''again''"] r by simp
qed

end
