(* ===== verification/Scoring.thy ===== *)
theory Scoring
  imports Decimals Models "HOL-Library.Monad_Syntax"
begin

text \<open>
  Wallet scoring of \<^verbatim>\<open>src/scoring.rs\<close>: its FIFO matching, the skill and copyability scores, conviction
  and entry eligibility. Decimals and the rendering of the configured floor are arguments. The write-only
  table of totals of the matching loop is left out.
\<close>

section \<open>Matching\<close>

definition decimal_from_f64 :: "(f64 \<Rightarrow> string) \<Rightarrow> ('d, 'x) decimal_num_scheme \<Rightarrow> f64 \<Rightarrow> 'd" where
  "decimal_from_f64 show_f64 D value = dec_lit D (show_f64 value)"

record 'd ScoredTrade =
  st_mint :: string
  st_side :: TradeSide
  st_token_amount :: 'd
  st_usd_value :: "'d option"
  st_block_time :: "int option"

record 'd ScoredPosition =
  sp_mint :: string
  sp_realized_pnl_usd :: "'d option"
  sp_roi :: "'d option"
  sp_hold_seconds :: "int option"

record 'd ScoreLot =
  sl_amount :: 'd
  sl_usd :: 'd
  sl_time :: "int option"

partial_function (option) score_sell_loop ::
  "('d, 'x) decimal_num_scheme \<Rightarrow> 'd ScoreLot list \<Rightarrow> 'd \<Rightarrow> 'd \<Rightarrow> int option \<Rightarrow> ('d ScoreLot list \<times> 'd \<times> int option) option" where
  "score_sell_loop D lots remaining cost open_time =
     (if dec_lt D (dec_zero D) remaining then
        (case lots of
           [] \<Rightarrow> Some (lots, cost, open_time)
         | lot # rest \<Rightarrow>
             (let take = dec_min D remaining (sl_amount lot);
                  cost' = (if \<not> dec_eq D (sl_usd lot) (dec_zero D) \<and> \<not> dec_eq D (sl_amount lot) (dec_zero D)
                           then dec_add D cost (dec_mul D (sl_usd lot) (dec_div D take (sl_amount lot)))
                           else cost);
                  open_time' = (if open_time = None then sl_time lot else open_time);
                  lot' = lot\<lparr>sl_amount := dec_sub D (sl_amount lot) take\<rparr>
              in score_sell_loop D (if dec_eq D (sl_amount lot') (dec_zero D) then rest else lot' # rest)
                   (dec_sub D remaining take) cost' open_time'))
      else Some (lots, cost, open_time))"

text \<open>A missing value of a buy is the amount times zero, that is zero.\<close>

definition score_buy_lot :: "('d, 'x) decimal_num_scheme \<Rightarrow> 'd ScoredTrade \<Rightarrow> 'd ScoreLot" where
  "score_buy_lot D trade =
     \<lparr>sl_amount = st_token_amount trade,
      sl_usd = (case st_usd_value trade of Some u \<Rightarrow> u | None \<Rightarrow> dec_mul D (st_token_amount trade) (dec_zero D)),
      sl_time = st_block_time trade\<rparr>"

definition score_position :: "('d, 'x) decimal_num_scheme \<Rightarrow> 'd ScoredTrade \<Rightarrow> 'd \<Rightarrow> int option \<Rightarrow> 'd ScoredPosition" where
  "score_position D trade cost open_time =
     (let proceeds = (case st_usd_value trade of Some u \<Rightarrow> u | None \<Rightarrow> dec_zero D)
      in \<lparr>sp_mint = st_mint trade,
          sp_realized_pnl_usd = Some (dec_sub D proceeds cost),
          sp_roi = (if \<not> dec_eq D cost (dec_zero D) then Some (dec_div D (dec_sub D proceeds cost) cost) else None),
          sp_hold_seconds =
            (case (open_time, st_block_time trade) of
               (Some opened_at, Some closed_at) \<Rightarrow> Some (max (i64_sub closed_at opened_at) 0) | _ \<Rightarrow> None)\<rparr>)"

definition lots_of :: "(string \<times> 'd ScoreLot list) list \<Rightarrow> string \<Rightarrow> 'd ScoreLot list" where
  "lots_of m mint = (case map_of m mint of Some ls \<Rightarrow> ls | None \<Rightarrow> [])"

fun score_fifo_loop ::
  "('d, 'x) decimal_num_scheme \<Rightarrow> 'd ScoredTrade list \<Rightarrow> (string \<times> 'd ScoreLot list) list \<Rightarrow> 'd ScoredPosition list \<Rightarrow>
   'd ScoredPosition list option" where
  "score_fifo_loop D [] m matched = Some matched"
| "score_fifo_loop D (trade # trades) m matched =
     (case st_side trade of
        SideBuy \<Rightarrow>
          score_fifo_loop D trades
            (hm_modify (st_mint trade) (\<lambda>_. lots_of m (st_mint trade) @ [score_buy_lot D trade]) m) matched
      | SideSell \<Rightarrow>
          do { (lots, cost, open_time) \<leftarrow>
                 score_sell_loop D (lots_of m (st_mint trade)) (st_token_amount trade) (dec_zero D) None;
               score_fifo_loop D trades (hm_modify (st_mint trade) (\<lambda>_. lots) m)
                 (matched @ [score_position D trade cost open_time]) })"

definition score_fifo_match :: "('d, 'x) decimal_num_scheme \<Rightarrow> 'd ScoredTrade list \<Rightarrow> 'd ScoredPosition list option" where
  "score_fifo_match D trades = score_fifo_loop D trades [] []"

section \<open>Scores\<close>

record 'd ScoreInputs =
  si_meaningful_trades :: nat
  si_tokens_traded :: nat
  si_realized_pnl_usd :: 'd
  si_size_weighted_roi :: 'd
  si_meaningful_win_rate :: 'd
  si_early_entry_rate :: 'd
  si_history_completeness :: 'd
  si_mev_likelihood :: 'd
  si_avg_hold_seconds :: "int option"
  si_gmgn_agreement :: "'d option"
  si_liquidity_available :: "'d option"

record ScoringConfig =
  sc_min_meaningful_trades :: nat
  sc_min_tokens_traded :: nat
  sc_full_skill_score :: nat
  sc_full_copyability_score :: nat
  sc_history_completeness_floor :: f64
  sc_conviction_cap_below_completeness :: nat

definition normalize_ratio :: "('d, 'x) decimal_num_scheme \<Rightarrow> 'd \<Rightarrow> 'd" where
  "normalize_ratio D value =
     dec_div D (dec_add D (dec_clamp D value (dec_of_int D (- 1)) (dec_of_int D 5)) (dec_of_int D 1)) (dec_of_int D 6)"

abbreviation dec_unit :: "('d, 'x) decimal_num_scheme \<Rightarrow> 'd \<Rightarrow> 'd" where
  "dec_unit D x \<equiv> dec_clamp D x (dec_zero D) (dec_of_int D 1)"

definition skill_total :: "('d, 'x) decimal_num_scheme \<Rightarrow> 'd ScoreInputs \<Rightarrow> 'd" where
  "skill_total D inputs =
     (let roi_component = dec_mul D (normalize_ratio D (si_size_weighted_roi inputs)) (dec_of_int D 30);
          win_component = dec_mul D (dec_unit D (si_meaningful_win_rate inputs)) (dec_of_int D 20);
          early_component = dec_mul D (dec_unit D (si_early_entry_rate inputs)) (dec_of_int D 15);
          consistency = dec_sub D (dec_of_int D 1)
            (dec_abs D (dec_sub D (si_meaningful_win_rate inputs) (dec_lit D ''0.5'')));
          consistency_component = dec_mul D (dec_unit D consistency) (dec_of_int D 10);
          sample = dec_div D (dec_of_int D (int (min (si_meaningful_trades inputs) 50))) (dec_of_int D 50);
          sample_component = dec_mul D sample (dec_of_int D 10);
          agreement = (case si_gmgn_agreement inputs of Some g \<Rightarrow> g | None \<Rightarrow> dec_lit D ''0.5'');
          agreement_component = dec_mul D (dec_unit D agreement) (dec_of_int D 15)
      in dec_add D (dec_add D (dec_add D (dec_add D (dec_add D roi_component win_component) early_component)
           consistency_component) sample_component) agreement_component)"

definition skill_score :: "('d, 'x) decimal_num_scheme \<Rightarrow> 'd ScoreInputs \<Rightarrow> nat" where
  "skill_score D inputs =
     (case dec_to_u32 D (dec_clamp D (skill_total D inputs) (dec_zero D) (dec_of_int D 100)) of
        Some n \<Rightarrow> n | None \<Rightarrow> 0)"

record CopyabilityPenalties =
  cp_hold :: nat
  cp_liquidity :: nat
  cp_drift :: nat
  cp_sell_race :: nat
  cp_bot :: nat

definition copyability_penalties :: "('d, 'x) decimal_num_scheme \<Rightarrow> 'd ScoreInputs \<Rightarrow> CopyabilityPenalties" where
  "copyability_penalties D inputs =
     \<lparr>cp_hold = (case si_avg_hold_seconds inputs of
          Some hold \<Rightarrow> if hold \<le> 5 then 60 else if hold \<le> 60 then 30 else if hold \<le> 300 then 10 else 0
        | None \<Rightarrow> 0),
      cp_liquidity = (case si_liquidity_available inputs of
          Some l \<Rightarrow> if dec_lt D l (dec_of_int D 10000) then 25
                    else if dec_lt D l (dec_of_int D 50000) then 10 else 0
        | None \<Rightarrow> 0),
      cp_drift = (if dec_le D (dec_lit D ''0.8'') (si_mev_likelihood inputs) then 25
                  else if dec_le D (dec_lit D ''0.5'') (si_mev_likelihood inputs) then 10 else 0),
      cp_sell_race = (case si_avg_hold_seconds inputs of Some hold \<Rightarrow> if hold \<le> 5 then 15 else 0 | None \<Rightarrow> 0),
      cp_bot = (if dec_le D (dec_lit D ''0.9'') (si_mev_likelihood inputs) then 30 else 0)\<rparr>"

definition total_penalty :: "CopyabilityPenalties \<Rightarrow> nat" where
  "total_penalty p = cp_hold p + cp_liquidity p + cp_drift p + cp_sell_race p + cp_bot p"

definition copyability_score :: "('d, 'x) decimal_num_scheme \<Rightarrow> 'd ScoreInputs \<Rightarrow> nat \<times> CopyabilityPenalties" where
  "copyability_score D inputs =
     (let p = copyability_penalties D inputs
      in (nat (max 0 (min 100 (100 - int (total_penalty p)))), p))"

record 'd WalletScoreResult =
  ws_skill :: nat
  ws_copyability :: nat
  ws_conviction :: nat
  ws_provisional :: bool
  ws_history_completeness :: 'd
  ws_penalties :: CopyabilityPenalties

definition completeness_floor :: "(f64 \<Rightarrow> string) \<Rightarrow> ('d, 'x) decimal_num_scheme \<Rightarrow> ScoringConfig \<Rightarrow> 'd" where
  "completeness_floor show_f64 D cfg =
     (case dec_exact D (show_f64 (sc_history_completeness_floor cfg)) of
        Some d \<Rightarrow> d | None \<Rightarrow> dec_lit D ''0.8'')"

definition compute_wallet_score ::
  "(f64 \<Rightarrow> string) \<Rightarrow> ('d, 'x) decimal_num_scheme \<Rightarrow> 'd ScoreInputs \<Rightarrow> ScoringConfig \<Rightarrow> 'd WalletScoreResult" where
  "compute_wallet_score show_f64 D inputs cfg =
     (let skill = skill_score D inputs;
          (copyability, penalties) = copyability_score D inputs;
          provisional = (si_meaningful_trades inputs < sc_min_meaningful_trades cfg \<or>
                         si_tokens_traded inputs < sc_min_tokens_traded cfg);
          base = (case dec_to_u32 D (dec_div D (dec_add D (dec_of_int D (int skill)) (dec_of_int D (int copyability))) (dec_of_int D 2)) of
                    Some n \<Rightarrow> n | None \<Rightarrow> 0);
          conviction = (if dec_lt D (si_history_completeness inputs) (completeness_floor show_f64 D cfg)
                        then min base (sc_conviction_cap_below_completeness cfg) else min base 100)
      in \<lparr>ws_skill = skill, ws_copyability = copyability, ws_conviction = conviction,
          ws_provisional = provisional, ws_history_completeness = si_history_completeness inputs,
          ws_penalties = penalties\<rparr>)"

definition full_entry_eligible :: "'d WalletScoreResult \<Rightarrow> ScoringConfig \<Rightarrow> bool" where
  "full_entry_eligible result cfg \<longleftrightarrow>
     sc_full_skill_score cfg \<le> ws_skill result \<and> sc_full_copyability_score cfg \<le> ws_copyability result \<and>
     \<not> ws_provisional result"

section \<open>Bounds of the scores\<close>

lemma lit_values:
  "lit_value ''0.5'' = Some (1 / 2)" "lit_value ''0.8'' = Some (4 / 5)" "lit_value ''0.9'' = Some (9 / 10)"
  by (simp_all add: lit_value_def is_digit_def read_nat_def char_digit_def Let_def)

context decimal_num_laws
begin

lemma dv_unit: "dv (dec_unit D x) = max 0 (min 1 (dv x))"
  by (simp add: dv_clamp dv_zero dv_of_int)

lemma normalize_bounds: "0 \<le> dv (normalize_ratio D v) \<and> dv (normalize_ratio D v) \<le> 1"
proof -
  let ?c = "dec_clamp D v (dec_of_int D (- 1)) (dec_of_int D 5)"
  have "- 1 \<le> dv ?c" "dv ?c \<le> 5" by (simp_all add: dv_clamp dv_of_int)
  then show ?thesis
    unfolding normalize_ratio_def by (intro dv_div_unit) (simp_all add: dv_add dv_of_int)
qed

lemma skill_total_bounds: "0 \<le> dv (skill_total D inputs) \<and> dv (skill_total D inputs) \<le> 95"
proof -
  define w where "w = dv (si_meaningful_win_rate inputs)"
  have win: "0 \<le> max 0 (min 1 w) * 20 + max 0 (min 1 (1 - \<bar>w - 1 / 2\<bar>)) * 10"
    "max 0 (min 1 w) * 20 + max 0 (min 1 (1 - \<bar>w - 1 / 2\<bar>)) * 10 \<le> 25"
    by (auto simp: max_def min_def abs_if)
  have sample: "0 \<le> dv (dec_div D (dec_of_int D (int (min (si_meaningful_trades inputs) 50))) (dec_of_int D 50)) \<and>
      dv (dec_div D (dec_of_int D (int (min (si_meaningful_trades inputs) 50))) (dec_of_int D 50)) \<le> 1"
    by (intro dv_div_unit) (simp_all add: dv_of_int)
  note roi = normalize_bounds [of "si_size_weighted_roi inputs"]
  have u: "0 \<le> max 0 (min 1 x)" "max 0 (min 1 x) \<le> 1" for x :: rat by simp_all
  have key: "0 \<le> r * 30 + a * 20 + e * 15 + c * 10 + n * 10 + g * 15 \<and>
             r * 30 + a * 20 + e * 15 + c * 10 + n * 10 + g * 15 \<le> 95"
    if "0 \<le> r \<and> r \<le> 1" "0 \<le> a * 20 + c * 10" "a * 20 + c * 10 \<le> 25" "0 \<le> e" "e \<le> 1"
       "0 \<le> n \<and> n \<le> 1" "0 \<le> g" "g \<le> 1" for r a e c n g :: rat
    using that by (intro conjI) linarith+
  show ?thesis
    unfolding skill_total_def Let_def dv_add dv_mul_int dv_unit dv_sub dv_abs dv_of_int dv_lit [OF lit_values(1)]
      w_def [symmetric] of_int_numeral of_int_1
    by (rule key [OF roi win u sample u])
qed

lemma skill_value: "skill_score D inputs = nat (floor (dv (skill_total D inputs)))"
proof -
  note b = skill_total_bounds [of inputs]
  have "dv (dec_clamp D (skill_total D inputs) (dec_zero D) (dec_of_int D 100)) = dv (skill_total D inputs)"
    using b by (simp add: dv_clamp dv_zero dv_of_int)
  then show ?thesis using b to_u32 [of "dec_clamp D (skill_total D inputs) (dec_zero D) (dec_of_int D 100)"]
    by (simp add: skill_score_def)
qed

lemma skill_bound: "skill_score D inputs \<le> 95"
  unfolding skill_value using skill_total_bounds [of inputs] by (simp add: nat_le_iff floor_le_iff)

lemma copyability_bound: "fst (copyability_score D inputs) \<le> 100"
  by (simp add: copyability_score_def Let_def)

lemma base_conviction:
  assumes "a \<le> 100" "b \<le> 100"
  shows "dec_to_u32 D (dec_div D (dec_add D (dec_of_int D (int a)) (dec_of_int D (int b))) (dec_of_int D 2)) =
    Some ((a + b) div 2)"
proof -
  let ?x = "dec_div D (dec_add D (dec_of_int D (int a)) (dec_of_int D (int b))) (dec_of_int D 2)"
  have v: "dv ?x = of_nat (a + b) / 2" by (simp add: dv_half dv_add dv_of_int)
  have "dec_to_u32 D ?x = Some (nat (floor (dv ?x)))"
    by (rule to_u32) (use assms in \<open>simp_all add: v\<close>)
  moreover have "nat (floor (dv ?x)) = (a + b) div 2"
    using floor_divide_of_nat_eq [of "a + b" 2, where ?'a = rat] by (simp add: v del: of_nat_add)
  ultimately show ?thesis by simp
qed

lemma conviction_value:
  "ws_conviction (compute_wallet_score show_f64 D inputs cfg) =
     (let base = (skill_score D inputs + fst (copyability_score D inputs)) div 2
      in if dv (si_history_completeness inputs) < dv (completeness_floor show_f64 D cfg)
         then min base (sc_conviction_cap_below_completeness cfg) else base)"
proof -
  obtain c p where c: "copyability_score D inputs = (c, p)" by fastforce
  have "c \<le> 100" "skill_score D inputs \<le> 100" using copyability_bound [of inputs] skill_bound [of inputs] c by simp_all
  then show ?thesis
    using base_conviction [of "skill_score D inputs" c] by (simp add: compute_wallet_score_def c Let_def lt_dv)
qed

lemma penalties_mono:
  assumes "dv (si_mev_likelihood b) \<le> dv (si_mev_likelihood a)" "si_liquidity_available b = si_liquidity_available a"
    "si_avg_hold_seconds a = Some h" "si_avg_hold_seconds b = Some h'" "h \<le> h'"
  shows "total_penalty (copyability_penalties D b) \<le> total_penalty (copyability_penalties D a)"
proof -
  have "cp_hold (copyability_penalties D b) \<le> cp_hold (copyability_penalties D a)"
    "cp_sell_race (copyability_penalties D b) \<le> cp_sell_race (copyability_penalties D a)"
    using assms(3-5) by (simp_all add: copyability_penalties_def)
  moreover have "cp_drift (copyability_penalties D b) \<le> cp_drift (copyability_penalties D a)"
    "cp_bot (copyability_penalties D b) \<le> cp_bot (copyability_penalties D a)"
    using assms(1) by (auto simp: copyability_penalties_def lt_dv)
  moreover have "cp_liquidity (copyability_penalties D b) = cp_liquidity (copyability_penalties D a)"
    using assms(2) by (simp add: copyability_penalties_def)
  ultimately show ?thesis by (simp add: total_penalty_def)
qed

end

lemma copyability_value: "int (fst (copyability_score D inputs)) = max 0 (100 - int (total_penalty (copyability_penalties D inputs)))"
  by (simp add: copyability_score_def Let_def)

text \<open>Wallet scores. Skill is at most 95 and copyability is 100 minus the recorded penalties, at
  least zero. Conviction is half their sum, and below the completeness floor at most the configured
  cap. A wallet held for five seconds or less on average scores at most 25 in copyability, one that is
  at least 0.90 likely a bot at most 45; holding longer and a lower bot likelihood never lower
  copyability. Only wallets with enough trades and tokens, and with both scores at their thresholds,
  are fully eligible for entries.\<close>

theorem wallet_scores_bounded:
  assumes "decimal_num_laws D dv"
  shows "ws_skill (compute_wallet_score show_f64 D inputs cfg) \<le> 95 \<and>
    int (ws_copyability (compute_wallet_score show_f64 D inputs cfg)) =
      max 0 (100 - int (total_penalty (ws_penalties (compute_wallet_score show_f64 D inputs cfg)))) \<and>
    ws_conviction (compute_wallet_score show_f64 D inputs cfg) \<le>
      (ws_skill (compute_wallet_score show_f64 D inputs cfg) + ws_copyability (compute_wallet_score show_f64 D inputs cfg)) div 2 \<and>
    (dv (completeness_floor show_f64 D cfg) \<le> dv (si_history_completeness inputs) \<longrightarrow>
      ws_conviction (compute_wallet_score show_f64 D inputs cfg) =
      (ws_skill (compute_wallet_score show_f64 D inputs cfg) + ws_copyability (compute_wallet_score show_f64 D inputs cfg)) div 2) \<and>
    (dv (si_history_completeness inputs) < dv (completeness_floor show_f64 D cfg) \<longrightarrow>
      ws_conviction (compute_wallet_score show_f64 D inputs cfg) \<le> sc_conviction_cap_below_completeness cfg) \<and>
    (\<forall>h. si_avg_hold_seconds inputs = Some h \<and> h \<le> 5 \<longrightarrow> ws_copyability (compute_wallet_score show_f64 D inputs cfg) \<le> 25) \<and>
    (9 / 10 \<le> dv (si_mev_likelihood inputs) \<longrightarrow> ws_copyability (compute_wallet_score show_f64 D inputs cfg) \<le> 45) \<and>
    (\<forall>better h h'. dv (si_mev_likelihood better) \<le> dv (si_mev_likelihood inputs) \<and>
      si_liquidity_available better = si_liquidity_available inputs \<and>
      si_avg_hold_seconds inputs = Some h \<and> si_avg_hold_seconds better = Some h' \<and> h \<le> h' \<longrightarrow>
      ws_copyability (compute_wallet_score show_f64 D inputs cfg) \<le> ws_copyability (compute_wallet_score show_f64 D better cfg)) \<and>
    (full_entry_eligible (compute_wallet_score show_f64 D inputs cfg) cfg \<longleftrightarrow>
      sc_min_meaningful_trades cfg \<le> si_meaningful_trades inputs \<and> sc_min_tokens_traded cfg \<le> si_tokens_traded inputs \<and>
      sc_full_skill_score cfg \<le> skill_score D inputs \<and> sc_full_copyability_score cfg \<le> fst (copyability_score D inputs))"
proof -
  note skill = decimal_num_laws.skill_bound [OF assms] and conv = decimal_num_laws.conviction_value [OF assms]
    and mono = decimal_num_laws.penalties_mono [OF assms]
  note lt = decimal_laws.lt_dv [OF decimal_num_laws.axioms(1) [OF assms]]
  note lits = decimal_num_laws.dv_lit [OF assms lit_values(2)] decimal_num_laws.dv_lit [OF assms lit_values(3)]
  let ?r = "compute_wallet_score show_f64 D inputs cfg"
  have fields: "ws_skill (compute_wallet_score show_f64 D i cfg) = skill_score D i"
    "ws_copyability (compute_wallet_score show_f64 D i cfg) = fst (copyability_score D i)"
    "ws_penalties (compute_wallet_score show_f64 D i cfg) = copyability_penalties D i" for i
    by (simp_all add: compute_wallet_score_def copyability_score_def Let_def)
  have fast: "fst (copyability_score D inputs) \<le> 25" if "si_avg_hold_seconds inputs = Some h" "h \<le> 5" for h
  proof -
    have "cp_hold (copyability_penalties D inputs) = 60" "cp_sell_race (copyability_penalties D inputs) = 15"
      using that by (simp_all add: copyability_penalties_def)
    then show ?thesis using copyability_value [of D inputs] by (simp add: total_penalty_def)
  qed
  have bot: "fst (copyability_score D inputs) \<le> 45" if "9 / 10 \<le> dv (si_mev_likelihood inputs)"
  proof -
    have "cp_drift (copyability_penalties D inputs) = 25" "cp_bot (copyability_penalties D inputs) = 30"
      using that by (simp_all add: copyability_penalties_def lt lits)
    then show ?thesis using copyability_value [of D inputs] by (simp add: total_penalty_def)
  qed
  have better: "fst (copyability_score D inputs) \<le> fst (copyability_score D b)"
    if "dv (si_mev_likelihood b) \<le> dv (si_mev_likelihood inputs)" "si_liquidity_available b = si_liquidity_available inputs"
      "si_avg_hold_seconds inputs = Some h" "si_avg_hold_seconds b = Some h'" "h \<le> h'" for b h h'
    using mono [OF that] copyability_value [of D inputs] copyability_value [of D b] by linarith
  have elig: "full_entry_eligible ?r cfg \<longleftrightarrow>
      sc_min_meaningful_trades cfg \<le> si_meaningful_trades inputs \<and> sc_min_tokens_traded cfg \<le> si_tokens_traded inputs \<and>
      sc_full_skill_score cfg \<le> skill_score D inputs \<and> sc_full_copyability_score cfg \<le> fst (copyability_score D inputs)"
    unfolding full_entry_eligible_def fields by (auto simp: compute_wallet_score_def Let_def split: prod.splits)
  show ?thesis
    unfolding fields elig conv Let_def
    using skill [of inputs] copyability_value [of D inputs] fast bot better by auto
qed

theorem wallet_scores_bounded_witness:
  "ws_copyability (compute_wallet_score (\<lambda>_. ''0.8'') rat_num
     \<lparr>si_meaningful_trades = 40, si_tokens_traded = 10, si_realized_pnl_usd = 0, si_size_weighted_roi = 4,
      si_meaningful_win_rate = 9 / 10, si_early_entry_rate = 9 / 10, si_history_completeness = 1,
      si_mev_likelihood = 0, si_avg_hold_seconds = Some 5, si_gmgn_agreement = Some 1, si_liquidity_available = None\<rparr>
     \<lparr>sc_min_meaningful_trades = 20, sc_min_tokens_traded = 5, sc_full_skill_score = 70,
      sc_full_copyability_score = 60, sc_history_completeness_floor = Fin (4 / 5),
      sc_conviction_cap_below_completeness = 49\<rparr>) \<le> 25"
  using wallet_scores_bounded [OF rat_num.decimal_num_laws_axioms, of "\<lambda>_. ''0.8''"
     "\<lparr>si_meaningful_trades = 40, si_tokens_traded = 10, si_realized_pnl_usd = 0, si_size_weighted_roi = 4,
      si_meaningful_win_rate = 9 / 10, si_early_entry_rate = 9 / 10, si_history_completeness = 1,
      si_mev_likelihood = 0, si_avg_hold_seconds = Some 5, si_gmgn_agreement = Some 1, si_liquidity_available = None\<rparr>"
     "\<lparr>sc_min_meaningful_trades = 20, sc_min_tokens_traded = 5, sc_full_skill_score = 70,
      sc_full_copyability_score = 60, sc_history_completeness_floor = Fin (4 / 5),
      sc_conviction_cap_below_completeness = 49\<rparr>"]
  by simp

section \<open>Cost of split sales\<close>

text \<open>The loop over lots always returns: a pass uses up the amount to sell or removes the first lot.\<close>

lemma score_sell_loop_returns:
  assumes laws: "decimal_num_laws D dv"
  shows "\<exists>res. score_sell_loop D lots remaining cost open_time = Some res"
proof -
  note dl = decimal_num_laws.axioms(1) [OF laws]
  note dv_simps = decimal_laws.dv_simps [OF dl]
  show ?thesis
  proof (induction lots arbitrary: remaining cost open_time)
    case Nil
    show ?case by (subst score_sell_loop.simps) simp
  next
    case (Cons lot rest)
    have stop: "\<exists>res. score_sell_loop D ls r c u = Some res" if "dv r \<le> 0" for ls r c u
      using that by (subst score_sell_loop.simps) (simp add: dv_simps)
    have m: "dv (dec_min D remaining (sl_amount lot)) = min (dv remaining) (dv (sl_amount lot))"
      by (simp add: decimal_laws.dv_min [OF dl])
    show ?case
    proof (cases "dv (sl_amount lot) \<le> dv remaining")
      case True
      then have "dec_eq D (dec_sub D (sl_amount lot) (dec_min D remaining (sl_amount lot))) (dec_zero D)"
        by (simp add: dv_simps m)
      then show ?thesis using Cons.IH by (subst score_sell_loop.simps) (simp add: Let_def)
    next
      case False
      then have "dv (dec_sub D remaining (dec_min D remaining (sl_amount lot))) \<le> 0" by (simp add: dv_simps m)
      then show ?thesis using stop by (subst score_sell_loop.simps) (simp add: Let_def)
    qed
  qed
qed

lemma score_fifo_returns:
  "decimal_num_laws D dv \<Longrightarrow> \<exists>ps. score_fifo_loop D trades m matched = Some ps"
proof (induction trades arbitrary: m matched)
  case (Cons trade trades)
  obtain lots cost u where "score_sell_loop D (lots_of m (st_mint trade)) (st_token_amount trade) (dec_zero D) None = Some (lots, cost, u)"
    using score_sell_loop_returns [OF Cons.prems] by (metis surj_pair)
  then show ?case using Cons by (cases "st_side trade") simp_all
qed simp

text \<open>One sale of \<open>a\<close> out of one open lot.\<close>

lemma sell_one_lot:
  assumes laws: "decimal_num_laws D dv" and "0 < dv a" "dv a \<le> dv (sl_amount lot)" "dv (sl_usd lot) \<noteq> 0"
  shows "\<exists>lots cost. score_sell_loop D [lot] a (dec_zero D) None = Some (lots, cost, sl_time lot) \<and>
    dv cost = dv (dec_mul D (sl_usd lot) (dec_div D (dec_min D a (sl_amount lot)) (sl_amount lot))) \<and>
    (if dv a = dv (sl_amount lot) then lots = []
     else \<exists>rest. lots = [lot\<lparr>sl_amount := rest\<rparr>] \<and> dv rest = dv (sl_amount lot) - dv a)"
proof -
  note dl = decimal_num_laws.axioms(1) [OF laws]
  note dv_simps = decimal_laws.dv_simps [OF dl]
  have m: "dv (dec_min D a (sl_amount lot)) = dv a" using assms(3) by (simp add: decimal_laws.dv_min [OF dl])
  have zero: "\<not> dec_lt D (dec_zero D) (dec_sub D a (dec_min D a (sl_amount lot)))" by (simp add: dv_simps m)
  show ?thesis
    apply (subst score_sell_loop.simps)
    apply (subst score_sell_loop.simps)
    using assms zero by (auto simp: dv_simps m Let_def)
qed

lemma lots_of_modify [simp]: "lots_of (hm_modify k (\<lambda>_. ls) m) k' = (if k' = k then ls else lots_of m k')"
  by (simp add: lots_of_def)

lemma lots_of_Nil [simp]: "lots_of [] k = []"
  by (simp add: lots_of_def)

text \<open>Sales that split one purchase are charged more than its cost. Buy an amount for U dollars
  and sell it in two parts: the first sale is charged its share of U, but the second, which closes the
  lot, is charged all of U again, because the value of the lot is never reduced. The realized profit is
  lower than proceeds minus U by the share charged first.\<close>

theorem split_sale_overcharged:
  assumes "decimal_num_laws D dv" "0 < dv a" "dv a < dv A" "dv b = dv A - dv a" "dv U \<noteq> 0"
  shows "\<exists>p1 p2 r1 r2. score_fifo_match D
      [\<lparr>st_mint = m, st_side = SideBuy, st_token_amount = A, st_usd_value = Some U, st_block_time = t0\<rparr>,
       \<lparr>st_mint = m, st_side = SideSell, st_token_amount = a, st_usd_value = Some P1, st_block_time = t1\<rparr>,
       \<lparr>st_mint = m, st_side = SideSell, st_token_amount = b, st_usd_value = Some P2, st_block_time = t2\<rparr>] =
      Some [p1, p2] \<and> sp_realized_pnl_usd p1 = Some r1 \<and> sp_realized_pnl_usd p2 = Some r2 \<and>
      dv r1 = dv P1 - dv (dec_mul D U (dec_div D a A)) \<and> dv r2 = dv P2 - dv U \<and>
      dv r1 + dv r2 = dv P1 + dv P2 - dv U - dv (dec_mul D U (dec_div D a A))"
proof -
  note dl = decimal_num_laws.axioms(1) [OF assms(1)]
  note lt = decimal_laws.lt_dv [OF dl]
  let ?lot = "\<lparr>sl_amount = A, sl_usd = U, sl_time = t0\<rparr>"
  have min1: "dec_min D a A = a" using assms(3) by (simp add: dec_min_def lt)
  obtain cost rest where s1: "score_sell_loop D [?lot] a (dec_zero D) None = Some ([?lot\<lparr>sl_amount := rest\<rparr>], cost, t0)"
    and c1: "dv cost = dv (dec_mul D U (dec_div D a A))" and rest: "dv rest = dv b"
    using sell_one_lot [OF assms(1,2), of ?lot] assms(3-5) min1 by auto
  have min2: "dec_min D b rest = b" using rest by (simp add: dec_min_def lt)
  obtain cost2 where s2: "score_sell_loop D [?lot\<lparr>sl_amount := rest\<rparr>] b (dec_zero D) None = Some ([], cost2, t0)"
    and c2: "dv cost2 = dv (dec_mul D U (dec_div D b rest))"
    using sell_one_lot [OF assms(1), of b "?lot\<lparr>sl_amount := rest\<rparr>"] assms(3-5) rest min2 by auto
  have full: "dv (dec_mul D U (dec_div D b rest)) = dv U"
    using decimal_laws.dv_mul_one [OF dl] decimal_laws.dv_div_self [OF dl] rest assms(3,4) by simp
  show ?thesis
    using s1 s2 c1 c2 full
    by (simp add: score_fifo_match_def score_buy_lot_def score_position_def lots_of_def Let_def decimal_laws.dv_sub [OF dl])
qed

theorem split_sale_overcharged_witness:
  "\<exists>p1 p2. score_fifo_match rat_num
      [\<lparr>st_mint = ''M'', st_side = SideBuy, st_token_amount = 10, st_usd_value = Some 100, st_block_time = Some 0\<rparr>,
       \<lparr>st_mint = ''M'', st_side = SideSell, st_token_amount = 5, st_usd_value = Some 60, st_block_time = Some 1\<rparr>,
       \<lparr>st_mint = ''M'', st_side = SideSell, st_token_amount = 5, st_usd_value = Some 60, st_block_time = Some 2\<rparr>] =
      Some [p1, p2] \<and> sp_realized_pnl_usd p1 = Some 10 \<and> sp_realized_pnl_usd p2 = Some (- 40)"
  using split_sale_overcharged [OF rat_num.decimal_num_laws_axioms, of 5 10 5 100 "''M''" "Some 0" 60 "Some 1" 60 "Some 2"]
  by auto

end
