(* ===== verification/Recent.thy ===== *)
theory Recent
  imports Views Lifecycles Models "HOL-Library.Multiset"
begin

text \<open>
  Recent-token intelligence: the types of \<^verbatim>\<open>src/sf/recent.rs\<close> and the pure logic of
  \<^verbatim>\<open>src/sf/recent_runtime.rs\<close> (identities, the candidate resolver, timelines, dependency groups,
  retraction, coverage, lookup gates, social classification). The host of a URL (the url crate) and the
  RFC 3339 reader are the arguments \<open>url_host\<close> and \<open>ts\<close>; typed times are unix seconds.
\<close>

section \<open>Types\<close>

datatype RecentRelation = SameDeployer | SameAuthority | SameFeePayer | SameFunder | FundedByKnownDeployer
  | SameSocialAccount | ReusedSocialLink | OfficialCaAnnouncement | CrossChainDeployment | DerivativeOf
  | SuspectedCopycat | LiquidityAttentionRotatedTo

fun recent_relation_as_str :: "RecentRelation \<Rightarrow> string" where
  "recent_relation_as_str SameDeployer = ''same_deployer''"
| "recent_relation_as_str SameAuthority = ''same_authority''"
| "recent_relation_as_str SameFeePayer = ''same_fee_payer''"
| "recent_relation_as_str SameFunder = ''same_funder''"
| "recent_relation_as_str FundedByKnownDeployer = ''funded_by_known_deployer''"
| "recent_relation_as_str SameSocialAccount = ''same_social_account''"
| "recent_relation_as_str ReusedSocialLink = ''reused_social_link''"
| "recent_relation_as_str OfficialCaAnnouncement = ''official_ca_announcement''"
| "recent_relation_as_str CrossChainDeployment = ''cross_chain_deployment''"
| "recent_relation_as_str DerivativeOf = ''derivative_of''"
| "recent_relation_as_str SuspectedCopycat = ''suspected_copycat''"
| "recent_relation_as_str LiquidityAttentionRotatedTo = ''liquidity_attention_rotated_to''"

datatype RecentConfidence = RecentExact | RecentReconstructed | RecentEstimated | RecentInsufficient

fun recent_confidence_as_str :: "RecentConfidence \<Rightarrow> string" where
  "recent_confidence_as_str RecentExact = ''exact''"
| "recent_confidence_as_str RecentReconstructed = ''reconstructed''"
| "recent_confidence_as_str RecentEstimated = ''estimated''"
| "recent_confidence_as_str RecentInsufficient = ''insufficient''"

fun confidence_rank :: "RecentConfidence \<Rightarrow> nat" where
  "confidence_rank RecentExact = 3"
| "confidence_rank RecentReconstructed = 2"
| "confidence_rank RecentEstimated = 1"
| "confidence_rank RecentInsufficient = 0"

datatype IdentityKind = KToken | KWallet | KSocial | KWebsite | KTelegram

fun identity_kind_as_str :: "IdentityKind \<Rightarrow> string" where
  "identity_kind_as_str KToken = ''token''"
| "identity_kind_as_str KWallet = ''wallet''"
| "identity_kind_as_str KSocial = ''social''"
| "identity_kind_as_str KWebsite = ''website''"
| "identity_kind_as_str KTelegram = ''telegram''"

record IdentityKey =
  ik_kind :: IdentityKind
  ik_value :: string

record ActorExtraction =
  ae_token :: string
  ae_deployer :: "string option"
  ae_authority :: "string option"
  ae_fee_payer :: "string option"
  ae_factory :: "string option"
  ae_initial_funder :: "string option"
  ae_authority_changes :: "string list"
  ae_social_identities :: "string list"

datatype ActivationTrigger = TrigFirstLiquidity | TrigMigration | TrigCredibleCaller | TrigSmartWalletEntry
  | TrigFreshWalletBurst | TrigRevivalWake | TrigVolumeActivation | TrigSocialProfileChange | TrigOperatorRequest

datatype Coverage = CoverFull | CoverDegraded | CoverOnDemand | CoverUnavailable

datatype CapabilityStatus = CapAvailable | CapInsufficient | CapUnavailable

record Freshness =
  fr_checked_at :: int
  fr_age_seconds :: nat

record Retraction =
  rt_target_event_id :: string
  rt_retracted_at :: int
  rt_truth_status :: TruthStatus

record OfficialSocialBinding =
  ob_immutable_account_id :: string
  ob_chain_qualified_contract :: string
  ob_valid_from :: int
  ob_valid_until :: "int option"

record RecentEvent =
  re_event_id :: string
  re_event_type :: string
  re_anchor_identity :: string
  re_related_identities :: "IdentityKey list"
  re_chain_qualified_contract :: string
  re_occurred_at :: int
  re_observed_at :: int
  re_relation :: "RecentRelation option"
  re_truth_status :: TruthStatus
  re_confidence :: "f64 option"
  re_confidence_level :: RecentConfidence
  re_evidence_refs :: "string list"
  re_dependency_group :: "string option"
  re_freshness :: "Freshness option"
  re_coverage :: Coverage
  re_capability_status :: CapabilityStatus
  re_missing_inputs :: "string list"
  re_retraction :: "Retraction option"
  re_is_current_coverage :: bool

record RecentTimeline =
  tl_token :: string
  tl_events :: "RecentEvent list"

record CandidateRelation =
  cr_to_identity :: IdentityKey
  cr_relation :: RecentRelation
  cr_confidence :: RecentConfidence
  cr_evidence_refs :: "string list"

datatype SocialEvidenceKind = KindOfficialCa | KindMention | KindProfileCa | KindProfileLink

record SocialEvidenceObservation =
  so_platform :: BrowserPlatform
  so_post_or_profile_id :: string
  so_immutable_account_id :: string
  so_text_media_hash :: string
  so_published_at :: int
  so_observed_at :: int
  so_announced_contract :: "string option"
  so_relation_kind :: SocialEvidenceKind
  so_raw_ref :: string
  so_parser_version :: string
  so_coverage :: Coverage
  so_session_health :: SessionHealth

record StoredSocialIdentity =
  sid_platform :: string
  sid_immutable_user_id :: string
  sid_handles :: "string list"

record SocialIdentityRecord =
  sir_platform :: string
  sir_immutable_user_id :: string
  sir_handles :: "string list"

section \<open>Identities\<close>

definition split_once :: "char \<Rightarrow> string \<Rightarrow> (string \<times> string) option" where
  "split_once c s = (case dropWhile (\<lambda>x. x \<noteq> c) s of [] \<Rightarrow> None | _ # rest \<Rightarrow> Some (takeWhile (\<lambda>x. x \<noteq> c) s, rest))"

function trim_www :: "string \<Rightarrow> string" where
  "trim_www s = (if take 4 s = ''www.'' then trim_www (drop 4 s) else s)"
  by pat_completeness auto

termination trim_www
  by (relation "measure length") (auto simp: neq_Nil_conv intro: diff_less)

declare trim_www.simps [simp del]

definition eq_ignore_ascii_case :: "string \<Rightarrow> string \<Rightarrow> bool" where
  "eq_ignore_ascii_case a b \<longleftrightarrow> to_ascii_lowercase a = to_ascii_lowercase b"

definition chain_prefix :: "string \<Rightarrow> string option" where
  "chain_prefix key =
     (case split_once (CHR '':'') key of
        None \<Rightarrow> None
      | Some (chain, rest) \<Rightarrow> if chain = [] \<or> rest = [] then None else Some chain)"

definition canonical_chain :: "string \<Rightarrow> string option" where
  "canonical_chain key =
     (case split_once (CHR '':'') key of
        None \<Rightarrow> None
      | Some (chain, rest) \<Rightarrow>
          if chain = [] \<or> rest = [] then None
          else alias_lookup
            [([''sol'', ''solana''], ''solana''), ([''rh'', ''robinhood''], ''robinhood''),
             ([''eth'', ''ethereum''], ''ethereum''), ([''base''], ''base''), ([''bsc''], ''bsc'')]
            (to_ascii_lowercase chain))"

definition normalize_identity :: "(string \<Rightarrow> string option) \<Rightarrow> IdentityKind \<Rightarrow> string \<Rightarrow> IdentityKey option" where
  "normalize_identity url_host kind raw =
     (let value = trim raw in
      if value = [] then None
      else case kind of
        KWebsite \<Rightarrow>
          (case url_host value of
             None \<Rightarrow> None
           | Some h \<Rightarrow>
               let host = to_ascii_lowercase (trim_www h)
               in if host = [] then None else Some \<lparr>ik_kind = kind, ik_value = host\<rparr>)
      | KSocial \<Rightarrow> (case chain_prefix value of None \<Rightarrow> None | Some _ \<Rightarrow> Some \<lparr>ik_kind = kind, ik_value = value\<rparr>)
      | KTelegram \<Rightarrow> (case chain_prefix value of None \<Rightarrow> None | Some _ \<Rightarrow> Some \<lparr>ik_kind = kind, ik_value = value\<rparr>)
      | _ \<Rightarrow>
          (case canonical_chain value of
             None \<Rightarrow> None
           | Some chain \<Rightarrow>
               (case split_once (CHR '':'') value of
                  None \<Rightarrow> None
                | Some (_, rest) \<Rightarrow> Some \<lparr>ik_kind = kind, ik_value = chain @ '':'' @ rest\<rparr>)))"

definition is_immutable_social_identity :: "string \<Rightarrow> SocialIdentityRecord list \<Rightarrow> bool" where
  "is_immutable_social_identity key bindings =
     (case split_once (CHR '':'') key of
        None \<Rightarrow> False
      | Some (p, i) \<Rightarrow>
          let platform = to_ascii_lowercase (trim p); id' = trim i
          in if platform = [] \<or> id' = [] then False
             else list_ex (\<lambda>b. to_ascii_lowercase (trim (sir_platform b)) = platform \<and>
                    trim (sir_immutable_user_id b) = id' \<and>
                    \<not> list_ex (\<lambda>h. eq_ignore_ascii_case (trim h) id') (sir_handles b)) bindings)"

definition record_from_store :: "StoredSocialIdentity \<Rightarrow> SocialIdentityRecord option" where
  "record_from_store r =
     (let platform = to_ascii_lowercase (trim (sid_platform r)); id' = trim (sid_immutable_user_id r)
      in if platform = [] \<or> id' = [] then None
         else if list_ex (\<lambda>h. eq_ignore_ascii_case (trim h) id') (sid_handles r) then None
         else Some \<lparr>sir_platform = platform, sir_immutable_user_id = id', sir_handles = sid_handles r\<rparr>)"

definition records_from_store :: "StoredSocialIdentity list \<Rightarrow> SocialIdentityRecord list" where
  "records_from_store rows = List.map_filter record_from_store rows"

abbreviation normal_value :: "(string \<Rightarrow> string option) \<Rightarrow> IdentityKind \<Rightarrow> string \<Rightarrow> string option" where
  "normal_value url_host kind s \<equiv> map_option ik_value (normalize_identity url_host kind s)"

definition same_key :: "(string \<Rightarrow> string option) \<Rightarrow> IdentityKind \<Rightarrow> string \<Rightarrow> string \<Rightarrow> bool" where
  "same_key url_host kind a b =
     (case normalize_identity url_host kind a of
        None \<Rightarrow> False
      | Some x \<Rightarrow> (case normalize_identity url_host kind b of None \<Rightarrow> False | Some y \<Rightarrow> ik_value x = ik_value y))"

definition same_wallet :: "(string \<Rightarrow> string option) \<Rightarrow> string \<Rightarrow> string \<Rightarrow> bool" where
  "same_wallet url_host = same_key url_host KWallet"

definition same_token :: "(string \<Rightarrow> string option) \<Rightarrow> string \<Rightarrow> string \<Rightarrow> bool" where
  "same_token url_host = same_key url_host KToken"

definition same_actor :: "(string \<Rightarrow> string option) \<Rightarrow> string option \<Rightarrow> string \<Rightarrow> bool" where
  "same_actor url_host anchor_actor edge_actor =
     (case anchor_actor of None \<Rightarrow> False | Some a \<Rightarrow> same_key url_host KWallet a edge_actor)"

definition canonical_social_key :: "(string \<Rightarrow> string option) \<Rightarrow> string \<Rightarrow> string option" where
  "canonical_social_key url_host key =
     (case normalize_identity url_host KSocial key of
        None \<Rightarrow> None
      | Some _ \<Rightarrow>
          (case split_once (CHR '':'') key of
             None \<Rightarrow> None
           | Some (p, i) \<Rightarrow>
               let platform = to_ascii_lowercase (trim p); id' = trim i
               in if platform = [] \<or> id' = [] then None else Some (platform @ '':'' @ id')))"

definition same_social_identity :: "(string \<Rightarrow> string option) \<Rightarrow> string \<Rightarrow> string \<Rightarrow> bool" where
  "same_social_identity url_host a b =
     (case (canonical_social_key url_host a, canonical_social_key url_host b) of
        (Some x, Some y) \<Rightarrow> x = y | _ \<Rightarrow> False)"

definition edge_is_authoritative :: "(string \<Rightarrow> int option) \<Rightarrow> EntityEdge \<Rightarrow> int \<Rightarrow> bool" where
  "edge_is_authoritative ts edge now_secs =
     (if ee_truth_status edge \<noteq> TruthConfirmed then False
      else if ee_evidence_refs edge = [] then False
      else case ts (ee_valid_from edge) of
             None \<Rightarrow> False
           | Some from' \<Rightarrow>
               if now_secs < from' then False
               else (case ee_valid_until edge of
                       Some until \<Rightarrow> (case ts until of Some u \<Rightarrow> now_secs \<le> u | None \<Rightarrow> False)
                     | None \<Rightarrow> True))"

section \<open>The resolver\<close>

type_synonym emit_state = "CandidateRelation list \<times> (string \<times> IdentityKind \<times> RecentRelation) list"

definition emit ::
  "(string \<Rightarrow> string option) \<Rightarrow> IdentityKind \<Rightarrow> string \<Rightarrow> RecentRelation \<Rightarrow> RecentConfidence \<Rightarrow> string list \<Rightarrow>
   emit_state \<Rightarrow> emit_state" where
  "emit url_host kind raw_value relation confidence evidence_refs st =
     (case normalize_identity url_host kind raw_value of
        None \<Rightarrow> st
      | Some identity \<Rightarrow>
          let key = (ik_value identity, ik_kind identity, relation)
          in if key \<in> set (snd st) then st
             else (fst st @ [\<lparr>cr_to_identity = identity, cr_relation = relation, cr_confidence = confidence,
                              cr_evidence_refs = evidence_refs\<rparr>], key # snd st))"

definition cross_chain_step ::
  "(string \<Rightarrow> string option) \<Rightarrow> (string \<Rightarrow> int option) \<Rightarrow> ActorExtraction \<Rightarrow> string \<Rightarrow> int \<Rightarrow> EntityEdge \<Rightarrow>
   emit_state \<Rightarrow> emit_state" where
  "cross_chain_step url_host ts anchor anchor_chain now_secs e st =
     (if ee_edge_type e \<noteq> EdgeCrossChainDeployment then st
      else if \<not> same_token url_host (ee_from_entity_key e) (ae_token anchor) then st
      else
        (let distinct_chain = (case canonical_chain (ee_to_entity_key e) of Some t \<Rightarrow> t \<noteq> anchor_chain | None \<Rightarrow> False)
         in if \<not> distinct_chain \<or> \<not> edge_is_authoritative ts e now_secs then st
            else emit url_host KToken (ee_to_entity_key e) CrossChainDeployment RecentExact (ee_evidence_refs e) st))"

definition actor_relation :: "(string \<Rightarrow> string option) \<Rightarrow> ActorExtraction \<Rightarrow> EntityEdge \<Rightarrow> RecentRelation option" where
  "actor_relation url_host anchor e =
     (let actor = ee_from_entity_key e in
      case ee_edge_type e of
        EdgeDeployedBy \<Rightarrow> if same_actor url_host (ae_deployer anchor) actor then Some SameDeployer else None
      | EdgeFundedBy \<Rightarrow> if same_actor url_host (ae_initial_funder anchor) actor then Some SameFunder else None
      | EdgeSameAuthority \<Rightarrow> if same_actor url_host (ae_authority anchor) actor then Some SameAuthority else None
      | EdgeSameFeePayer \<Rightarrow> if same_actor url_host (ae_fee_payer anchor) actor then Some SameFeePayer else None
      | _ \<Rightarrow> None)"

definition actor_edge_step ::
  "(string \<Rightarrow> string option) \<Rightarrow> (string \<Rightarrow> int option) \<Rightarrow> ActorExtraction \<Rightarrow> int \<Rightarrow> string \<Rightarrow> EntityEdge \<Rightarrow>
   emit_state \<Rightarrow> emit_state" where
  "actor_edge_step url_host ts anchor now_secs other_canonical e st =
     (if same_actor url_host (ae_factory anchor) (ee_from_entity_key e) then st
      else case actor_relation url_host anchor e of
             None \<Rightarrow> st
           | Some relation \<Rightarrow>
               emit url_host KToken other_canonical relation
                 (if edge_is_authoritative ts e now_secs then RecentExact else RecentInsufficient)
                 (ee_evidence_refs e) st)"

definition node_step ::
  "(string \<Rightarrow> string option) \<Rightarrow> (string \<Rightarrow> int option) \<Rightarrow> ActorExtraction \<Rightarrow> EntityEdge list \<Rightarrow> int \<Rightarrow> EntityNode \<Rightarrow>
   emit_state \<Rightarrow> emit_state" where
  "node_step url_host ts anchor edges now_secs node st =
     (let other = en_entity_key node in
      if same_token url_host other (ae_token anchor) then st
      else case normal_value url_host KToken other of
             None \<Rightarrow> st
           | Some other_canonical \<Rightarrow>
               fold (actor_edge_step url_host ts anchor now_secs other_canonical)
                 (filter (\<lambda>e. same_token url_host (ee_to_entity_key e) other) edges) st)"

text \<open>The one edge that corroborates a funding at \<open>occ\<close>.\<close>

definition corroborates ::
  "(string \<Rightarrow> string option) \<Rightarrow> (string \<Rightarrow> int option) \<Rightarrow> ActorExtraction \<Rightarrow> SocialIdentityRecord list \<Rightarrow> int \<Rightarrow> EntityEdge \<Rightarrow>
   int \<Rightarrow> EntityEdge \<Rightarrow> bool" where
  "corroborates url_host ts anchor bindings now_secs e occ re \<longleftrightarrow>
     ee_edge_type re = EdgeReusedSocialLink \<and>
     same_wallet url_host (ee_from_entity_key re) (ee_to_entity_key e) \<and>
     edge_is_authoritative ts re now_secs \<and>
     list_ex (\<lambda>s. same_social_identity url_host (ee_to_entity_key re) s \<and> is_immutable_social_identity s bindings)
       (ae_social_identities anchor) \<and>
     (case ts (ee_valid_from re) of Some vf \<Rightarrow> vf \<le> occ | None \<Rightarrow> False) \<and>
     (case Option.bind (ee_valid_until re) ts of Some vu \<Rightarrow> occ \<le> vu | None \<Rightarrow> True)"

definition funded_step ::
  "(string \<Rightarrow> string option) \<Rightarrow> (string \<Rightarrow> int option) \<Rightarrow> ActorExtraction \<Rightarrow> EntityNode list \<Rightarrow> EntityEdge list \<Rightarrow>
   SocialIdentityRecord list \<Rightarrow> int \<Rightarrow> EntityEdge \<Rightarrow> emit_state \<Rightarrow> emit_state" where
  "funded_step url_host ts anchor nodes edges bindings now_secs e st =
     (if ee_edge_type e \<noteq> EdgeFundedBy then st
      else if \<not> same_actor url_host (ae_deployer anchor) (ee_from_entity_key e) then st
      else if \<not> list_ex (\<lambda>n. same_wallet url_host (en_entity_key n) (ee_to_entity_key e) \<and> en_node_type n = NodeWallet) nodes then st
      else
        (let authoritative = edge_is_authoritative ts e now_secs;
             corroborating = Option.bind (ts (ee_occurred_at e))
               (\<lambda>occ. find (corroborates url_host ts anchor bindings now_secs e occ) edges);
             confidence = (if authoritative \<and> corroborating \<noteq> None then RecentReconstructed
                           else if authoritative then RecentEstimated else RecentInsufficient)
         in emit url_host KWallet (ee_to_entity_key e) FundedByKnownDeployer confidence (ee_evidence_refs e) st))"

definition reuse_step ::
  "(string \<Rightarrow> string option) \<Rightarrow> EntityNode list \<Rightarrow> string \<Rightarrow> EntityEdge \<Rightarrow> emit_state \<Rightarrow> emit_state" where
  "reuse_step url_host nodes identity e st =
     (if ee_edge_type e \<noteq> EdgeReusedSocialLink then st
      else if same_social_identity url_host (ee_to_entity_key e) identity then
        (if \<not> list_ex (\<lambda>n. same_token url_host (en_entity_key n) (ee_from_entity_key e) \<and> en_node_type n = NodeToken) nodes then st
         else emit url_host KToken (ee_from_entity_key e) ReusedSocialLink RecentInsufficient (ee_evidence_refs e) st)
      else st)"

definition candidate_order :: "CandidateRelation \<Rightarrow> nat \<times> string \<times> string" where
  "candidate_order c =
     (3 - confidence_rank (cr_confidence c), recent_relation_as_str (cr_relation c), ik_value (cr_to_identity c))"

definition resolve_candidates ::
  "(string \<Rightarrow> string option) \<Rightarrow> (string \<Rightarrow> int option) \<Rightarrow> ActorExtraction \<Rightarrow> EntityNode list \<Rightarrow> EntityEdge list \<Rightarrow>
   SocialIdentityRecord list \<Rightarrow> int \<Rightarrow> CandidateRelation list" where
  "resolve_candidates url_host ts anchor nodes edges bindings now_secs =
     (case canonical_chain (ae_token anchor) of
        None \<Rightarrow> []
      | Some anchor_chain \<Rightarrow>
          let st1 = fold (cross_chain_step url_host ts anchor anchor_chain now_secs) edges ([], []);
              st2 = fold (node_step url_host ts anchor edges now_secs)
                      (filter (\<lambda>n. en_node_type n = NodeToken) nodes) st1;
              st3 = fold (funded_step url_host ts anchor nodes edges bindings now_secs) edges st2;
              st4 = fold (\<lambda>identity. fold (reuse_step url_host nodes identity) edges) (ae_social_identities anchor) st3
          in sort_key candidate_order (fst st4))"

section \<open>Timelines, groups, retraction, coverage\<close>

definition build_timeline :: "string \<Rightarrow> RecentEvent list \<Rightarrow> RecentTimeline" where
  "build_timeline anchor events =
     \<lparr>tl_token = anchor,
      tl_events = sort_key (\<lambda>e. (re_occurred_at e, re_observed_at e)) (filter (\<lambda>e. re_anchor_identity e = anchor) events)\<rparr>"

text \<open>The parent map keeps the last upstream of a downstream reference.\<close>

definition parent_map :: "(string \<times> string) list \<Rightarrow> string \<Rightarrow> string option" where
  "parent_map deps = map_of (rev (map (\<lambda>(u, d). (d, u)) deps))"

text \<open>The recursion has no cycle check: on a cycle it does not return. The cache only saves work.\<close>

partial_function (option) find_root :: "(string \<Rightarrow> string option) \<Rightarrow> string \<Rightarrow> string option" where
  "find_root parent r = (case parent r of Some up \<Rightarrow> find_root parent up | None \<Rightarrow> Some r)"

text \<open>\<open>None\<close> when some search does not return; otherwise the map of roots.\<close>

definition dependency_roots :: "(string \<times> string) list \<Rightarrow> (string \<Rightarrow> string option) option" where
  "dependency_roots deps =
     (if list_all (\<lambda>d. find_root (parent_map deps) d \<noteq> None) (map snd deps)
      then Some (\<lambda>r. if r \<in> set (map snd deps) then find_root (parent_map deps) r
                     else if r \<in> set (map fst deps) then Some r else None)
      else None)"

definition group_event :: "(string \<Rightarrow> string option) \<Rightarrow> RecentEvent \<Rightarrow> RecentEvent" where
  "group_event roots e =
     (if re_dependency_group e \<noteq> None then e
      else
        (let root = or_else (case List.map_filter roots (re_evidence_refs e) of [] \<Rightarrow> None | r # _ \<Rightarrow> Some r)
                            (case re_evidence_refs e of [] \<Rightarrow> None | r # _ \<Rightarrow> Some r)
         in case root of Some r \<Rightarrow> e\<lparr>re_dependency_group := Some (''group:'' @ r)\<rparr> | None \<Rightarrow> e))"

definition assign_dependency_group :: "RecentEvent list \<Rightarrow> (string \<times> string) list \<Rightarrow> RecentEvent list option" where
  "assign_dependency_group events deps = map_option (\<lambda>roots. map (group_event roots) events) (dependency_roots deps)"

fun retract_first :: "Retraction \<Rightarrow> RecentEvent list \<Rightarrow> RecentEvent list" where
  "retract_first r [] = []"
| "retract_first r (e # es) =
     (if re_event_id e = rt_target_event_id r
      then e\<lparr>re_truth_status := rt_truth_status r, re_retraction := Some r\<rparr> # es
      else e # retract_first r es)"

definition apply_retraction :: "RecentEvent list \<Rightarrow> Retraction list \<Rightarrow> RecentEvent list" where
  "apply_retraction events retractions =
     fold (\<lambda>r out. if rt_truth_status r \<in> {TruthSuperseded, TruthErroneous} then retract_first r out else out)
       retractions events"

definition coverage_status :: "RecentEvent list \<Rightarrow> Coverage" where
  "coverage_status events =
     (if events = [] then CoverUnavailable
      else if list_all (\<lambda>e. re_coverage e = CoverFull) events then CoverFull
      else if list_all (\<lambda>e. re_coverage e = CoverOnDemand) events then CoverOnDemand
      else if list_all (\<lambda>e. re_coverage e = CoverUnavailable) events then CoverUnavailable
      else CoverDegraded)"

definition should_trigger_lookup :: "TokenLifecycle \<Rightarrow> ActivationTrigger option \<Rightarrow> bool" where
  "should_trigger_lookup lifecycle trigger =
     (case trigger of
        None \<Rightarrow> False
      | Some t \<Rightarrow>
          if lifecycle \<in> {Dormant, Archived, Tombstoned} then t = TrigRevivalWake \<or> t = TrigOperatorRequest
          else True)"

definition push_term :: "string \<Rightarrow> string list \<Rightarrow> string list" where
  "push_term t terms = (let t' = trim t in if t' \<noteq> [] \<and> t' \<notin> set terms then terms @ [t'] else terms)"

definition build_lookup_query :: "ActorExtraction \<Rightarrow> string list" where
  "build_lookup_query actor =
     (let opt = (\<lambda>x. case x of Some v \<Rightarrow> [v] | None \<Rightarrow> [])
      in fold push_term
           ([ae_token actor] @ opt (ae_deployer actor) @ opt (ae_authority actor) @ opt (ae_fee_payer actor) @
            opt (ae_factory actor) @ opt (ae_initial_funder actor) @ ae_authority_changes actor @
            ae_social_identities actor) [])"

definition classify_social ::
  "SocialEvidenceObservation \<Rightarrow> string \<Rightarrow> OfficialSocialBinding option \<Rightarrow> RecentRelation" where
  "classify_social obs anchor_contract official_binding =
     (case so_relation_kind obs of
        KindProfileCa \<Rightarrow> ReusedSocialLink
      | KindProfileLink \<Rightarrow> ReusedSocialLink
      | KindMention \<Rightarrow> SameSocialAccount
      | KindOfficialCa \<Rightarrow>
          (let ca_matches = (case so_announced_contract obs of Some ca \<Rightarrow> ca = anchor_contract | None \<Rightarrow> False);
               binding_valid =
                 (case official_binding of
                    None \<Rightarrow> False
                  | Some b \<Rightarrow> ob_immutable_account_id b = so_immutable_account_id obs \<and>
                      ob_chain_qualified_contract b = anchor_contract \<and> ob_valid_from b \<le> so_published_at obs \<and>
                      (case ob_valid_until b of Some u \<Rightarrow> so_published_at obs \<le> u | None \<Rightarrow> True));
               has_evidence = (trim (so_raw_ref obs) \<noteq> [])
           in if ca_matches \<and> binding_valid \<and> has_evidence then OfficialCaAnnouncement else SameSocialAccount))"

section \<open>Canonical identities\<close>

lemma trim_last: "trim s \<noteq> [] \<Longrightarrow> \<not> is_whitespace (last (trim s))"
  unfolding trim_def by (simp add: last_rev hd_dropWhile)

lemma split_once_Some: "split_once c s = Some (p, r) \<longleftrightarrow> s = p @ c # r \<and> c \<notin> set p"
proof
  assume h: "split_once c s = Some (p, r)"
  then obtain y where y: "dropWhile (\<lambda>x. x \<noteq> c) s = y # r"
    by (cases "dropWhile (\<lambda>x. x \<noteq> c) s") (simp_all add: split_once_def)
  then have t: "p = takeWhile (\<lambda>x. x \<noteq> c) s"
    using h by (simp add: split_once_def)
  have "y = c"
    using hd_dropWhile [of "\<lambda>x. x \<noteq> c" s] y by simp
  then have "s = p @ c # r"
    unfolding t by (metis takeWhile_dropWhile_id y)
  moreover have "c \<notin> set p"
    unfolding t by (auto dest: set_takeWhileD)
  ultimately show "s = p @ c # r \<and> c \<notin> set p" ..
next
  assume h: "s = p @ c # r \<and> c \<notin> set p"
  then have "\<And>x. x \<in> set p \<Longrightarrow> x \<noteq> c"
    by blast
  then have "dropWhile (\<lambda>x. x \<noteq> c) s = c # r" "takeWhile (\<lambda>x. x \<noteq> c) s = p"
    using h by (simp_all add: dropWhile_append2 takeWhile_append2)
  then show "split_once c s = Some (p, r)"
    by (simp add: split_once_def)
qed

abbreviation chain_names :: "string set" where
  "chain_names \<equiv> {''solana'', ''robinhood'', ''ethereum'', ''base'', ''bsc''}"

lemma canonical_chain_names: "canonical_chain s = Some ch \<Longrightarrow> ch \<in> chain_names"
  by (auto simp: canonical_chain_def split: option.splits if_splits prod.splits)

lemma canonical_chain_of_name:
  assumes "ch \<in> chain_names" "r \<noteq> []"
  shows "canonical_chain (ch @ '':'' @ r) = Some ch" "split_once (CHR '':'') (ch @ '':'' @ r) = Some (ch, r)"
proof -
  have "CHR '':'' \<notin> set ch"
    using assms(1) by auto
  then show sp: "split_once (CHR '':'') (ch @ '':'' @ r) = Some (ch, r)"
    by (simp add: split_once_Some)
  show "canonical_chain (ch @ '':'' @ r) = Some ch"
    using assms unfolding canonical_chain_def sp by (elim insertE emptyE) (simp_all, code_simp+)
qed

lemma normalize_chain_identity:
  assumes "k = KToken \<or> k = KWallet" "normalize_identity u k raw = Some i"
  shows "\<exists>ch r. ch \<in> chain_names \<and> r \<noteq> [] \<and> \<not> is_whitespace (last r) \<and> i = \<lparr>ik_kind = k, ik_value = ch @ '':'' @ r\<rparr>"
proof -
  let ?v = "trim raw"
  obtain ch p r where v: "?v \<noteq> []" and c: "canonical_chain ?v = Some ch" and sp: "split_once (CHR '':'') ?v = Some (p, r)"
    and i: "i = \<lparr>ik_kind = k, ik_value = ch @ '':'' @ r\<rparr>"
    using assms by (auto simp: normalize_identity_def Let_def split: if_splits option.splits prod.splits)
  have r: "r \<noteq> []"
    using c sp by (auto simp: canonical_chain_def split: if_splits)
  have "last ?v = last r"
    using sp r by (simp add: split_once_Some)
  then show ?thesis
    using trim_last [OF v] canonical_chain_names [OF c] r i by metis
qed

lemma normalize_idempotent:
  assumes "k = KToken \<or> k = KWallet" "normalize_identity u k raw = Some i"
  shows "normalize_identity u k (ik_value i) = Some i \<and> ik_kind i = k"
proof -
  obtain ch r where ch: "ch \<in> chain_names" and r: "r \<noteq> []" "\<not> is_whitespace (last r)"
    and i: "i = \<lparr>ik_kind = k, ik_value = ch @ '':'' @ r\<rparr>"
    using normalize_chain_identity [OF assms] by blast
  have "\<not> is_whitespace (hd (ch @ '':'' @ r))"
    using ch by (auto simp: is_whitespace_def)
  then have "trim (ch @ '':'' @ r) = ch @ '':'' @ r"
    using r by (intro trim_id) auto
  then show ?thesis
    using assms(1) canonical_chain_of_name [OF ch r(1)] unfolding i normalize_identity_def
    by (auto simp: Let_def)
qed

section \<open>What a candidate stands on\<close>

text \<open>The edge names the candidate and supplies its evidence.\<close>

definition names_target ::
  "(string \<Rightarrow> string option) \<Rightarrow> IdentityKind \<Rightarrow> EntityEdge \<Rightarrow> CandidateRelation \<Rightarrow> bool" where
  "names_target u k e c \<longleftrightarrow>
     normalize_identity u k (ee_to_entity_key e) = Some (cr_to_identity c) \<and> cr_evidence_refs c = ee_evidence_refs e"

definition exact_from ::
  "(string \<Rightarrow> string option) \<Rightarrow> (string \<Rightarrow> int option) \<Rightarrow> ActorExtraction \<Rightarrow> int \<Rightarrow> CandidateRelation \<Rightarrow> EntityEdge \<Rightarrow> bool" where
  "exact_from u ts anchor now c e \<longleftrightarrow>
     edge_is_authoritative ts e now \<and> names_target u KToken e c \<and>
     (if cr_relation c = CrossChainDeployment
      then ee_edge_type e = EdgeCrossChainDeployment \<and> same_token u (ee_from_entity_key e) (ae_token anchor) \<and>
           canonical_chain (ee_to_entity_key e) \<notin> {None, canonical_chain (ae_token anchor)}
      else ((ee_edge_type e, cr_relation c, True) \<in>
              {(EdgeDeployedBy, SameDeployer, same_actor u (ae_deployer anchor) (ee_from_entity_key e)),
               (EdgeFundedBy, SameFunder, same_actor u (ae_initial_funder anchor) (ee_from_entity_key e)),
               (EdgeSameAuthority, SameAuthority, same_actor u (ae_authority anchor) (ee_from_entity_key e)),
               (EdgeSameFeePayer, SameFeePayer, same_actor u (ae_fee_payer anchor) (ee_from_entity_key e))}) \<and>
           \<not> same_actor u (ae_factory anchor) (ee_from_entity_key e) \<and>
           \<not> same_token u (ik_value (cr_to_identity c)) (ae_token anchor))"

definition funded_from ::
  "(string \<Rightarrow> string option) \<Rightarrow> (string \<Rightarrow> int option) \<Rightarrow> ActorExtraction \<Rightarrow> int \<Rightarrow> CandidateRelation \<Rightarrow> EntityEdge \<Rightarrow> bool" where
  "funded_from u ts anchor now c e \<longleftrightarrow>
     edge_is_authoritative ts e now \<and> names_target u KWallet e c \<and> cr_relation c = FundedByKnownDeployer \<and>
     ee_edge_type e = EdgeFundedBy \<and> same_actor u (ae_deployer anchor) (ee_from_entity_key e)"

definition corroborated ::
  "(string \<Rightarrow> string option) \<Rightarrow> (string \<Rightarrow> int option) \<Rightarrow> ActorExtraction \<Rightarrow> EntityEdge list \<Rightarrow> SocialIdentityRecord list \<Rightarrow> int \<Rightarrow>
   EntityEdge \<Rightarrow> bool" where
  "corroborated u ts anchor edges bindings now e \<longleftrightarrow>
     (case ts (ee_occurred_at e) of
        None \<Rightarrow> False
      | Some occ \<Rightarrow>
          list_ex (\<lambda>re. ee_edge_type re = EdgeReusedSocialLink \<and>
            same_wallet u (ee_from_entity_key re) (ee_to_entity_key e) \<and> edge_is_authoritative ts re now \<and>
            list_ex (\<lambda>s. same_social_identity u (ee_to_entity_key re) s \<and> is_immutable_social_identity s bindings)
              (ae_social_identities anchor) \<and>
            (case ts (ee_valid_from re) of Some vf \<Rightarrow> vf \<le> occ | None \<Rightarrow> False) \<and>
            (case ee_valid_until re of
               None \<Rightarrow> True | Some s \<Rightarrow> (case ts s of Some vu \<Rightarrow> occ \<le> vu | None \<Rightarrow> True))) edges)"

lemma until_window:
  "(case Option.bind x ts of None \<Rightarrow> True | Some vu \<Rightarrow> occ \<le> vu) \<longleftrightarrow>
   (case x of None \<Rightarrow> True | Some s \<Rightarrow> (case ts s of Some vu \<Rightarrow> occ \<le> vu | None \<Rightarrow> True))"
  by (cases x) simp_all

lemma corroborated_by_edge:
  "corroborated u ts anchor edges bindings now e \<longleftrightarrow>
     (case ts (ee_occurred_at e) of
        None \<Rightarrow> False | Some occ \<Rightarrow> list_ex (corroborates u ts anchor bindings now e occ) edges)"
  by (cases "ts (ee_occurred_at e)") (simp_all add: corroborated_def list_ex_iff corroborates_def until_window)

definition justified ::
  "(string \<Rightarrow> string option) \<Rightarrow> (string \<Rightarrow> int option) \<Rightarrow> ActorExtraction \<Rightarrow> EntityEdge list \<Rightarrow> SocialIdentityRecord list \<Rightarrow> int \<Rightarrow>
   CandidateRelation \<Rightarrow> bool" where
  "justified u ts anchor edges bindings now c =
     (case cr_confidence c of
        RecentExact \<Rightarrow> list_ex (exact_from u ts anchor now c) edges
      | RecentReconstructed \<Rightarrow>
          list_ex (\<lambda>e. funded_from u ts anchor now c e \<and> corroborated u ts anchor edges bindings now e) edges
      | RecentEstimated \<Rightarrow> list_ex (funded_from u ts anchor now c) edges
      | RecentInsufficient \<Rightarrow>
          cr_relation c \<noteq> CrossChainDeployment \<and> list_ex (\<lambda>e. cr_evidence_refs c = ee_evidence_refs e) edges)"

definition canonical_candidate :: "(string \<Rightarrow> string option) \<Rightarrow> CandidateRelation \<Rightarrow> bool" where
  "canonical_candidate u c \<longleftrightarrow>
     ik_kind (cr_to_identity c) \<in> {KToken, KWallet} \<and>
     normalize_identity u (ik_kind (cr_to_identity c)) (ik_value (cr_to_identity c)) = Some (cr_to_identity c)"

definition candidate_key :: "CandidateRelation \<Rightarrow> string \<times> IdentityKind \<times> RecentRelation" where
  "candidate_key c = (ik_value (cr_to_identity c), ik_kind (cr_to_identity c), cr_relation c)"

definition emit_inv :: "(CandidateRelation \<Rightarrow> bool) \<Rightarrow> emit_state \<Rightarrow> bool" where
  "emit_inv J st \<longleftrightarrow>
     distinct (map candidate_key (fst st)) \<and> set (snd st) = candidate_key ` set (fst st) \<and> (\<forall>c\<in>set (fst st). J c)"

lemma emit_keeps:
  assumes "emit_inv J st"
    and "\<And>i. normalize_identity u k raw = Some i \<Longrightarrow>
           J \<lparr>cr_to_identity = i, cr_relation = r, cr_confidence = cf, cr_evidence_refs = ev\<rparr>"
  shows "emit_inv J (emit u k raw r cf ev st)"
  using assms by (auto simp: emit_inv_def emit_def Let_def candidate_key_def split: option.split)

lemma emit_seen: "set (snd st) \<subseteq> set (snd (emit u k raw r cf ev st))"
  by (auto simp: emit_def Let_def split: option.split)

lemma emit_records:
  "normalize_identity u k raw = Some i \<Longrightarrow> (ik_value i, ik_kind i, r) \<in> set (snd (emit u k raw r cf ev st))"
  by (auto simp: emit_def Let_def)

lemma fold_seen:
  assumes "\<And>x st. S st \<subseteq> S (f x st)"
  shows "S st \<subseteq> S (fold f xs st)"
  by (induction xs arbitrary: st) (use assms in \<open>auto, blast\<close>)

lemma fold_records:
  assumes "\<And>x st. S st \<subseteq> S (f x st)" "x \<in> set xs" "\<And>st. k \<in> S (f x st)"
  shows "k \<in> S (fold f xs st)"
  using assms(2)
proof (induction xs arbitrary: st)
  case (Cons y ys)
  then show ?case
    using fold_seen [of S f "f x st" ys, OF assms(1)] assms(3) [of st] by auto
qed simp

lemma emit_normal:
  assumes "k = KToken \<or> k = KWallet" "normalize_identity u k raw = Some i" "cr_to_identity c = i"
  shows "canonical_candidate u c"
  using normalize_idempotent [OF assms(1,2)] assms(1,3) by (auto simp: canonical_candidate_def)

definition sound_candidate ::
  "(string \<Rightarrow> string option) \<Rightarrow> (string \<Rightarrow> int option) \<Rightarrow> ActorExtraction \<Rightarrow> EntityEdge list \<Rightarrow> SocialIdentityRecord list \<Rightarrow> int \<Rightarrow>
   CandidateRelation \<Rightarrow> bool" where
  "sound_candidate u ts anchor edges bindings now c \<longleftrightarrow>
     canonical_candidate u c \<and> justified u ts anchor edges bindings now c"

lemma emit_sound:
  assumes "emit_inv (sound_candidate u ts anchor edges bindings now) st" "k = KToken \<or> k = KWallet"
    and "\<And>i. normalize_identity u k raw = Some i \<Longrightarrow>
           justified u ts anchor edges bindings now
             \<lparr>cr_to_identity = i, cr_relation = r, cr_confidence = cf, cr_evidence_refs = ev\<rparr>"
  shows "emit_inv (sound_candidate u ts anchor edges bindings now) (emit u k raw r cf ev st)"
  using assms(1) by (rule emit_keeps) (simp add: sound_candidate_def emit_normal [OF assms(2)] assms(3))

lemma cross_chain_sound:
  assumes "emit_inv (sound_candidate u ts anchor edges bindings now) st" "e \<in> set edges"
    "canonical_chain (ae_token anchor) = Some ch"
  shows "emit_inv (sound_candidate u ts anchor edges bindings now) (cross_chain_step u ts anchor ch now e st)"
proof (cases "ee_edge_type e \<noteq> EdgeCrossChainDeployment \<or> \<not> same_token u (ee_from_entity_key e) (ae_token anchor) \<or>
    canonical_chain (ee_to_entity_key e) \<in> {None, Some ch} \<or> \<not> edge_is_authoritative ts e now")
  case True
  then show ?thesis
    using assms(1) by (auto simp: cross_chain_step_def)
next
  case False
  then have "cross_chain_step u ts anchor ch now e st =
      emit u KToken (ee_to_entity_key e) CrossChainDeployment RecentExact (ee_evidence_refs e) st"
    by (auto simp: cross_chain_step_def)
  moreover have "list_ex (exact_from u ts anchor now
      \<lparr>cr_to_identity = i, cr_relation = CrossChainDeployment, cr_confidence = RecentExact, cr_evidence_refs = ee_evidence_refs e\<rparr>) edges"
    if "normalize_identity u KToken (ee_to_entity_key e) = Some i" for i
    using False that assms(2,3) unfolding list_ex_iff
    by (intro bexI [of _ e]) (simp_all add: exact_from_def names_target_def)
  ultimately show ?thesis
    using assms(1) by (simp add: emit_sound justified_def)
qed

lemma actor_relation_not_cross: "actor_relation u anchor e \<noteq> Some CrossChainDeployment"
  by (simp add: actor_relation_def Let_def split: EdgeType.split)

lemma actor_relation_Some:
  "actor_relation u anchor e = Some r \<longleftrightarrow>
     (ee_edge_type e, r, True) \<in>
       {(EdgeDeployedBy, SameDeployer, same_actor u (ae_deployer anchor) (ee_from_entity_key e)),
        (EdgeFundedBy, SameFunder, same_actor u (ae_initial_funder anchor) (ee_from_entity_key e)),
        (EdgeSameAuthority, SameAuthority, same_actor u (ae_authority anchor) (ee_from_entity_key e)),
        (EdgeSameFeePayer, SameFeePayer, same_actor u (ae_fee_payer anchor) (ee_from_entity_key e))}"
  by (auto simp: actor_relation_def Let_def split: EdgeType.splits if_splits)

lemma actor_edge_sound:
  assumes "emit_inv (sound_candidate u ts anchor edges bindings now) st" "e \<in> set edges"
    "normal_value u KToken other = Some oc" "same_token u (ee_to_entity_key e) other" "\<not> same_token u other (ae_token anchor)"
  shows "emit_inv (sound_candidate u ts anchor edges bindings now) (actor_edge_step u ts anchor now oc e st)"
proof (cases "same_actor u (ae_factory anchor) (ee_from_entity_key e) \<or> actor_relation u anchor e = None")
  case True
  then show ?thesis
    using assms(1) by (auto simp: actor_edge_step_def)
next
  case False
  then obtain r where r: "actor_relation u anchor e = Some r" and f: "\<not> same_actor u (ae_factory anchor) (ee_from_entity_key e)"
    by blast
  obtain j where j: "normalize_identity u KToken other = Some j" "oc = ik_value j"
    using assms(3) by blast
  have oc: "normalize_identity u KToken oc = Some j" "ik_kind j = KToken"
    using normalize_idempotent [OF disjI1 [OF refl] j(1)] j(2) by simp_all
  obtain t where t: "normalize_identity u KToken (ee_to_entity_key e) = Some t" "ik_value t = ik_value j"
    using assms(4) j(1) by (auto simp: same_token_def same_key_def split: option.splits)
  have "t = j"
    using normalize_idempotent [OF disjI1 [OF refl] t(1)] t(2) oc(2) by simp
  moreover have "\<not> same_token u oc (ae_token anchor)"
    using assms(5) j oc by (simp add: same_token_def same_key_def)
  ultimately have "justified u ts anchor edges bindings now
      \<lparr>cr_to_identity = j, cr_relation = r,
       cr_confidence = (if edge_is_authoritative ts e now then RecentExact else RecentInsufficient),
       cr_evidence_refs = ee_evidence_refs e\<rparr>"
    using t(1) r f assms(2) j(2) actor_relation_not_cross [of u anchor e]
    by (auto simp: justified_def list_ex_iff exact_from_def names_target_def actor_relation_Some [symmetric] simp del: insert_iff
        intro!: bexI [of _ e])
  then have "emit_inv (sound_candidate u ts anchor edges bindings now)
      (emit u KToken oc r (if edge_is_authoritative ts e now then RecentExact else RecentInsufficient) (ee_evidence_refs e) st)"
    using oc(1) by (intro emit_sound [OF assms(1)]) simp_all
  then show ?thesis
    using f r by (simp add: actor_edge_step_def)
qed

lemma node_sound:
  assumes "emit_inv (sound_candidate u ts anchor edges bindings now) st"
  shows "emit_inv (sound_candidate u ts anchor edges bindings now) (node_step u ts anchor edges now n st)"
proof (cases "same_token u (en_entity_key n) (ae_token anchor) \<or> normal_value u KToken (en_entity_key n) = None")
  case True
  then show ?thesis
    using assms by (auto simp: node_step_def Let_def)
next
  case False
  then obtain oc where oc: "normal_value u KToken (en_entity_key n) = Some oc"
    by blast
  have "emit_inv (sound_candidate u ts anchor edges bindings now)
      (fold (actor_edge_step u ts anchor now oc) (filter (\<lambda>e. same_token u (ee_to_entity_key e) (en_entity_key n)) edges) st)"
    by (rule fold_invariant [where Q = "\<lambda>e. e \<in> set edges \<and> same_token u (ee_to_entity_key e) (en_entity_key n)"])
      (use False assms actor_edge_sound [OF _ _ oc] in auto)
  then show ?thesis
    using False oc by (auto simp: node_step_def Let_def)
qed

lemma funded_sound:
  assumes "emit_inv (sound_candidate u ts anchor edges bindings now) st" "e \<in> set edges"
  shows "emit_inv (sound_candidate u ts anchor edges bindings now) (funded_step u ts anchor nodes edges bindings now e st)"
proof -
  let ?cor = "Option.bind (ts (ee_occurred_at e)) (\<lambda>occ. find (corroborates u ts anchor bindings now e occ) edges)"
  let ?cf = "if edge_is_authoritative ts e now \<and> ?cor \<noteq> None then RecentReconstructed
             else if edge_is_authoritative ts e now then RecentEstimated else RecentInsufficient"
  have cor: "?cor \<noteq> None \<longleftrightarrow> corroborated u ts anchor edges bindings now e"
    by (cases "ts (ee_occurred_at e)") (simp_all add: corroborated_by_edge list_ex_iff find_None_iff Bex_def del: not_None_eq)
  have "justified u ts anchor edges bindings now
      \<lparr>cr_to_identity = i, cr_relation = FundedByKnownDeployer, cr_confidence = ?cf, cr_evidence_refs = ee_evidence_refs e\<rparr>"
    if "normalize_identity u KWallet (ee_to_entity_key e) = Some i" "ee_edge_type e = EdgeFundedBy"
      "same_actor u (ae_deployer anchor) (ee_from_entity_key e)" for i
    using that assms(2) unfolding cor
    by (auto simp: justified_def list_ex_iff funded_from_def names_target_def intro!: bexI [of _ e])
  then show ?thesis
    using assms(1) by (simp add: funded_step_def Let_def emit_sound del: if_split)
qed

lemma reuse_sound:
  assumes "emit_inv (sound_candidate u ts anchor edges bindings now) st" "e \<in> set edges"
  shows "emit_inv (sound_candidate u ts anchor edges bindings now) (reuse_step u nodes identity e st)"
  using assms by (auto simp: reuse_step_def justified_def list_ex_iff intro!: emit_sound)

definition resolver_state ::
  "(string \<Rightarrow> string option) \<Rightarrow> (string \<Rightarrow> int option) \<Rightarrow> ActorExtraction \<Rightarrow> EntityNode list \<Rightarrow> EntityEdge list \<Rightarrow>
   SocialIdentityRecord list \<Rightarrow> int \<Rightarrow> string \<Rightarrow> emit_state" where
  "resolver_state u ts anchor nodes edges bindings now ch =
     fold (\<lambda>identity. fold (reuse_step u nodes identity) edges) (ae_social_identities anchor)
       (fold (funded_step u ts anchor nodes edges bindings now) edges
         (fold (node_step u ts anchor edges now) (filter (\<lambda>n. en_node_type n = NodeToken) nodes)
           (fold (cross_chain_step u ts anchor ch now) edges ([], []))))"

lemma resolve_by_state:
  "canonical_chain (ae_token anchor) = Some ch \<Longrightarrow>
   resolve_candidates u ts anchor nodes edges bindings now =
     sort_key candidate_order (fst (resolver_state u ts anchor nodes edges bindings now ch))"
  by (simp add: resolve_candidates_def resolver_state_def)

lemma resolver_state_sound:
  assumes "canonical_chain (ae_token anchor) = Some ch"
  shows "emit_inv (sound_candidate u ts anchor edges bindings now) (resolver_state u ts anchor nodes edges bindings now ch)"
proof -
  let ?I = "emit_inv (sound_candidate u ts anchor edges bindings now)"
  have 1: "?I (fold (cross_chain_step u ts anchor ch now) edges ([], []))"
    by (rule fold_invariant [where Q = "\<lambda>e. e \<in> set edges"]) (use cross_chain_sound assms in \<open>auto simp: emit_inv_def\<close>)
  have 2: "?I (fold (node_step u ts anchor edges now) ns st)" if "?I st" for ns st
    by (rule fold_invariant [where Q = "\<lambda>_. True"]) (use node_sound that in auto)
  have 3: "?I (fold (funded_step u ts anchor nodes edges bindings now) edges st)" if "?I st" for st
    by (rule fold_invariant [where Q = "\<lambda>e. e \<in> set edges"]) (use funded_sound that in auto)
  have 4: "?I (fold (reuse_step u nodes identity) edges st)" if "?I st" for identity st
    by (rule fold_invariant [where Q = "\<lambda>e. e \<in> set edges"]) (use reuse_sound that in auto)
  have 5: "?I (fold (\<lambda>identity. fold (reuse_step u nodes identity) edges) is st)" if "?I st" for "is" st
    by (rule fold_invariant [where Q = "\<lambda>_. True"]) (use 4 that in auto)
  show ?thesis
    unfolding resolver_state_def by (intro 5 3 2 1)
qed

lemma steps_keep_seen:
  "set (snd st) \<subseteq> set (snd (cross_chain_step u ts anchor ch now e st))"
  "set (snd st) \<subseteq> set (snd (actor_edge_step u ts anchor now oc e st))"
  "set (snd st) \<subseteq> set (snd (funded_step u ts anchor nodes edges bindings now e st))"
  "set (snd st) \<subseteq> set (snd (reuse_step u nodes identity e st))"
  by (simp_all add: cross_chain_step_def actor_edge_step_def funded_step_def reuse_step_def Let_def emit_seen
      split: option.split)

lemma node_keeps_seen: "set (snd st) \<subseteq> set (snd (node_step u ts anchor edges now n st))"
  by (auto simp: node_step_def Let_def split: option.split
      intro: subsetD [OF fold_seen [where S = "\<lambda>st. set (snd st)", OF steps_keep_seen(2)]])

lemma reuse_keeps_seen:
  "set (snd st) \<subseteq> set (snd (fold (\<lambda>identity. fold (reuse_step u nodes identity) edges) is st))"
  by (rule fold_seen [where S = "\<lambda>st. set (snd st)"], rule fold_seen [where S = "\<lambda>st. set (snd st)"], rule steps_keep_seen(4))

lemma funded_keeps_seen:
  "set (snd st) \<subseteq> set (snd (fold (funded_step u ts anchor nodes edges bindings now) es st))"
  by (rule fold_seen [where S = "\<lambda>st. set (snd st)"], rule steps_keep_seen(3))

lemma nodes_keep_seen: "set (snd st) \<subseteq> set (snd (fold (node_step u ts anchor edges now) ns st))"
  by (rule fold_seen [where S = "\<lambda>st. set (snd st)"], rule node_keeps_seen)

lemma cross_chain_recorded:
  assumes "e \<in> set edges" "edge_is_authoritative ts e now" "ee_edge_type e = EdgeCrossChainDeployment"
    "same_token u (ee_from_entity_key e) (ae_token anchor)" "canonical_chain (ee_to_entity_key e) \<notin> {None, Some ch}"
    "normalize_identity u KToken (ee_to_entity_key e) = Some i"
  shows "(ik_value i, KToken, CrossChainDeployment) \<in> set (snd (resolver_state u ts anchor nodes edges bindings now ch))"
proof -
  have k: "ik_kind i = KToken"
    using normalize_idempotent [OF disjI1 [OF refl] assms(6)] by simp
  have "(ik_value i, KToken, CrossChainDeployment) \<in> set (snd (fold (cross_chain_step u ts anchor ch now) edges ([], [])))"
  proof (rule fold_records [where S = "\<lambda>st. set (snd st)", OF steps_keep_seen(1) assms(1)])
    show "(ik_value i, KToken, CrossChainDeployment) \<in> set (snd (cross_chain_step u ts anchor ch now e st))" for st
      using assms(2-5) emit_records [OF assms(6)] k by (auto simp: cross_chain_step_def)
  qed
  then show ?thesis
    unfolding resolver_state_def
    by (intro subsetD [OF reuse_keeps_seen] subsetD [OF funded_keeps_seen] subsetD [OF nodes_keep_seen])
qed

lemma node_recorded:
  assumes "n \<in> set nodes" "en_node_type n = NodeToken" "e \<in> set edges" "same_token u (ee_to_entity_key e) (en_entity_key n)"
    "\<not> same_token u (en_entity_key n) (ae_token anchor)" "\<not> same_actor u (ae_factory anchor) (ee_from_entity_key e)"
    "actor_relation u anchor e = Some r" "normalize_identity u KToken (en_entity_key n) = Some i"
  shows "(ik_value i, KToken, r) \<in> set (snd (resolver_state u ts anchor nodes edges bindings now ch))"
proof -
  have k: "ik_kind i = KToken" "normalize_identity u KToken (ik_value i) = Some i"
    using normalize_idempotent [OF disjI1 [OF refl] assms(8)] by simp_all
  have step: "(ik_value i, KToken, r) \<in> set (snd (actor_edge_step u ts anchor now (ik_value i) e st))" for st
    using assms(6,7) emit_records [OF k(2)] k(1) by (simp add: actor_edge_step_def)
  have "(ik_value i, KToken, r) \<in> set (snd (node_step u ts anchor edges now n st))" for st
  proof -
    have "(ik_value i, KToken, r) \<in> set (snd (fold (actor_edge_step u ts anchor now (ik_value i))
        (filter (\<lambda>e. same_token u (ee_to_entity_key e) (en_entity_key n)) edges) st))"
      by (rule fold_records [where S = "\<lambda>st. set (snd st)" and x = e]) (use assms(3,4) step steps_keep_seen(2) in auto)
    then show ?thesis
      using assms(5,8) by (simp add: node_step_def)
  qed
  then have "(ik_value i, KToken, r) \<in>
      set (snd (fold (node_step u ts anchor edges now) (filter (\<lambda>n. en_node_type n = NodeToken) nodes) st))" for st
    by (intro fold_records [where S = "\<lambda>st. set (snd st)", OF node_keeps_seen, of n]) (use assms(1,2) in auto)
  then show ?thesis
    unfolding resolver_state_def by (intro subsetD [OF reuse_keeps_seen] subsetD [OF funded_keeps_seen])
qed

lemma cross_chain_is_exact:
  "justified u ts anchor edges bindings now c \<Longrightarrow> cr_relation c = CrossChainDeployment \<Longrightarrow> cr_confidence c = RecentExact"
  by (cases "cr_confidence c") (auto simp: justified_def funded_from_def list_ex_iff)

lemma no_bindings_not_reconstructed:
  assumes "justified u ts anchor edges [] now c"
  shows "cr_confidence c \<noteq> RecentReconstructed"
proof
  assume "cr_confidence c = RecentReconstructed"
  then obtain e where "corroborated u ts anchor edges [] now e"
    using assms by (auto simp: justified_def list_ex_iff)
  moreover have "\<not> is_immutable_social_identity s []" for s
    by (auto simp: is_immutable_social_identity_def Let_def split: option.split)
  moreover have "\<not> list_ex (\<lambda>s. False) xs" for xs :: "string list"
    by (simp add: list_ex_iff)
  ultimately show False
    by (cases "ts (ee_occurred_at e)") (simp_all add: corroborated_def, simp add: list_ex_iff)
qed

lemma resolve_set:
  assumes "canonical_chain (ae_token anchor) = Some ch"
  shows "set (resolve_candidates u ts anchor nodes edges bindings now) =
    set (fst (resolver_state u ts anchor nodes edges bindings now ch))"
  by (simp add: resolve_by_state [OF assms])

lemma recorded_is_output:
  assumes "canonical_chain (ae_token anchor) = Some ch"
    "(v, k, r) \<in> set (snd (resolver_state u ts anchor nodes edges bindings now ch))"
  obtains c where "c \<in> set (resolve_candidates u ts anchor nodes edges bindings now)" "candidate_key c = (v, k, r)"
  using resolver_state_sound [OF assms(1), of u ts edges bindings now nodes] assms(2)
  by (auto simp: emit_inv_def resolve_set [OF assms(1)])

lemma key_identity:
  assumes "candidate_key c = (ik_value i, KToken, r)" "normalize_identity u KToken s = Some i"
  shows "cr_to_identity c = i \<and> cr_relation c = r"
  using assms(1) normalize_idempotent [OF disjI1 [OF refl] assms(2)]
  by (cases "cr_to_identity c", cases i) (simp add: candidate_key_def)

lemma resolved_sound:
  assumes "c \<in> set (resolve_candidates u ts anchor nodes edges bindings now)"
  shows "canonical_candidate u c \<and> justified u ts anchor edges bindings now c"
proof (cases "canonical_chain (ae_token anchor)")
  case None
  then show ?thesis
    using assms by (simp add: resolve_candidates_def)
next
  case (Some ch)
  then show ?thesis
    using resolver_state_sound [OF Some, of u ts edges bindings now nodes] assms
    by (simp add: resolve_set [OF Some] emit_inv_def sound_candidate_def)
qed

lemma cross_chain_complete:
  assumes ch: "canonical_chain (ae_token anchor) = Some ch"
    and h: "e \<in> set edges" "edge_is_authoritative ts e now" "ee_edge_type e = EdgeCrossChainDeployment"
      "same_token u (ee_from_entity_key e) (ae_token anchor)" "canonical_chain (ee_to_entity_key e) \<notin> {None, Some ch}"
      "normalize_identity u KToken (ee_to_entity_key e) = Some i"
  shows "\<exists>c\<in>set (resolve_candidates u ts anchor nodes edges bindings now).
    cr_to_identity c = i \<and> cr_relation c = CrossChainDeployment \<and> cr_confidence c = RecentExact"
proof -
  obtain c where c: "c \<in> set (resolve_candidates u ts anchor nodes edges bindings now)"
    "candidate_key c = (ik_value i, KToken, CrossChainDeployment)"
    by (rule recorded_is_output [OF ch cross_chain_recorded [OF h]])
  note k = key_identity [OF c(2) h(6)]
  then show ?thesis
    using c(1) cross_chain_is_exact resolved_sound [OF c(1)] by blast
qed

lemma actor_complete:
  assumes ch: "canonical_chain (ae_token anchor) = Some ch"
    and h: "n \<in> set nodes" "en_node_type n = NodeToken" "e \<in> set edges" "same_token u (ee_to_entity_key e) (en_entity_key n)"
      "\<not> same_token u (en_entity_key n) (ae_token anchor)" "\<not> same_actor u (ae_factory anchor) (ee_from_entity_key e)"
      "actor_relation u anchor e = Some r" "normalize_identity u KToken (en_entity_key n) = Some i"
  shows "\<exists>c\<in>set (resolve_candidates u ts anchor nodes edges bindings now). cr_to_identity c = i \<and> cr_relation c = r"
  by (rule recorded_is_output [OF ch node_recorded [OF h]]) (use key_identity h(8) in blast)

text \<open>C15: The candidates of an anchor token are ordered by descending confidence, then relation, then identity, and no
  canonical identity occurs twice under one relation. Each is a canonical token or wallet key. An exact candidate rests on one
  authoritative edge (confirmed, with evidence, inside its validity window) that names that very target: either a
  cross-chain edge from the anchor to a different known chain, or an edge whose actor is the anchor's deployer,
  funder, authority or fee payer, is not the anchor's factory, and whose target is not the anchor itself. A
  reconstructed candidate rests on an authoritative funding edge from the anchor's deployer together with one social
  edge that is itself authoritative, joins the same wallet to an immutable account of the anchor, and whose validity
  contains the funding; an estimated one on the authoritative funding alone. Without stored social identities nothing is
  reconstructed, and an anchor of unknown chain resolves to nothing. Conversely every authoritative
  cross-chain edge of the anchor yields an exact candidate, and every edge tying another token node to an actor of the
  anchor yields a candidate with that relation.
\<close>

theorem candidates_stand_on_evidence:
  "sorted (map candidate_order (resolve_candidates u ts anchor nodes edges bindings now)) \<and>
     distinct (map candidate_key (resolve_candidates u ts anchor nodes edges bindings now)) \<and>
     (\<forall>c\<in>set (resolve_candidates u ts anchor nodes edges bindings now).
        canonical_candidate u c \<and> justified u ts anchor edges bindings now c) \<and>
     (\<forall>c\<in>set (resolve_candidates u ts anchor nodes edges [] now). cr_confidence c \<noteq> RecentReconstructed) \<and>
     (canonical_chain (ae_token anchor) = None \<longrightarrow> resolve_candidates u ts anchor nodes edges bindings now = []) \<and>
     (\<forall>e\<in>set edges. \<forall>i ch. canonical_chain (ae_token anchor) = Some ch \<longrightarrow> edge_is_authoritative ts e now \<longrightarrow>
        ee_edge_type e = EdgeCrossChainDeployment \<longrightarrow> same_token u (ee_from_entity_key e) (ae_token anchor) \<longrightarrow>
        canonical_chain (ee_to_entity_key e) \<notin> {None, Some ch} \<longrightarrow>
        normalize_identity u KToken (ee_to_entity_key e) = Some i \<longrightarrow>
        (\<exists>c\<in>set (resolve_candidates u ts anchor nodes edges bindings now).
           cr_to_identity c = i \<and> cr_relation c = CrossChainDeployment \<and> cr_confidence c = RecentExact)) \<and>
     (\<forall>e\<in>set edges. \<forall>n\<in>set nodes. \<forall>i r ch. canonical_chain (ae_token anchor) = Some ch \<longrightarrow> en_node_type n = NodeToken \<longrightarrow>
        same_token u (ee_to_entity_key e) (en_entity_key n) \<longrightarrow> \<not> same_token u (en_entity_key n) (ae_token anchor) \<longrightarrow>
        \<not> same_actor u (ae_factory anchor) (ee_from_entity_key e) \<longrightarrow> actor_relation u anchor e = Some r \<longrightarrow>
        normalize_identity u KToken (en_entity_key n) = Some i \<longrightarrow>
        (\<exists>c\<in>set (resolve_candidates u ts anchor nodes edges bindings now). cr_to_identity c = i \<and> cr_relation c = r))"
proof (cases "canonical_chain (ae_token anchor)")
  case None
  then show ?thesis
    by (simp add: resolve_candidates_def)
next
  case (Some ch)
  have "distinct (map candidate_key (resolve_candidates u ts anchor nodes edges bindings now))"
    using resolver_state_sound [OF Some, of u ts edges bindings now nodes]
    unfolding resolve_by_state [OF Some] emit_inv_def by (metis distinct_map distinct_sort set_sort)
  moreover have "sorted (map candidate_order (resolve_candidates u ts anchor nodes edges bindings now))"
    by (simp add: resolve_by_state [OF Some])
  moreover have "\<forall>c\<in>set (resolve_candidates u ts anchor nodes edges [] now). cr_confidence c \<noteq> RecentReconstructed"
    using resolved_sound no_bindings_not_reconstructed by blast
  ultimately show ?thesis
    using resolved_sound cross_chain_complete actor_complete Some by (intro conjI) auto
qed

definition sample_edge :: "string \<Rightarrow> string \<Rightarrow> EdgeType \<Rightarrow> TruthStatus \<Rightarrow> EntityEdge" where
  "sample_edge f t ty status =
     \<lparr>ee_from_entity_key = f, ee_to_entity_key = t, ee_edge_type = ty, ee_occurred_at = ''5'', ee_source_id = None,
      ee_truth_status = status, ee_confidence = None, ee_valid_from = ''5'', ee_valid_until = None, ee_supersedes = None,
      ee_evidence_refs = [''ev'']\<rparr>"

definition sample_anchor :: ActorExtraction where
  "sample_anchor =
     \<lparr>ae_token = ''solana:AAA'', ae_deployer = Some ''sol:D'', ae_authority = None, ae_fee_payer = None,
      ae_factory = Some ''solana:F'', ae_initial_funder = None, ae_authority_changes = [], ae_social_identities = [''x:12'']\<rparr>"

definition sample_clock :: "string \<Rightarrow> int option" where
  "sample_clock s = (if s = ''5'' then Some 5 else None)"

abbreviation sample_resolve :: "EntityNode list \<Rightarrow> EntityEdge list \<Rightarrow> CandidateRelation list" where
  "sample_resolve nodes edges \<equiv> resolve_candidates (\<lambda>_. None) sample_clock sample_anchor nodes edges
     [\<lparr>sir_platform = ''x'', sir_immutable_user_id = ''12'', sir_handles = [''alice'']\<rparr>] 9"

abbreviation token_node :: "string \<Rightarrow> EntityNode" where
  "token_node k \<equiv> \<lparr>en_entity_key = k, en_node_type = NodeToken\<rparr>"

definition sample_edges :: "EntityEdge list" where
  "sample_edges =
     [sample_edge ''sol:AAA'' ''base:CCC'' EdgeCrossChainDeployment TruthConfirmed,
      sample_edge ''solana:D'' ''sol:BBB'' EdgeDeployedBy TruthConfirmed,
      sample_edge ''solana:F'' ''solana:EEE'' EdgeDeployedBy TruthConfirmed,
      sample_edge ''solana:D'' ''solana:W'' EdgeFundedBy TruthConfirmed,
      sample_edge ''sol:W'' ''X:12'' EdgeReusedSocialLink TruthConfirmed]"

definition sample_nodes :: "EntityNode list" where
  "sample_nodes =
     [token_node ''solana:BBB'', token_node ''solana:EEE'', token_node ''sol:AAA'',
      \<lparr>en_entity_key = ''solana:W'', en_node_type = NodeWallet\<rparr>]"

definition summary :: "CandidateRelation list \<Rightarrow> (string \<times> RecentRelation \<times> RecentConfidence) list" where
  "summary cs = map (\<lambda>c. (ik_value (cr_to_identity c), cr_relation c, cr_confidence c)) cs"

lemma sample_resolution:
  "summary (sample_resolve sample_nodes sample_edges) =
     [(''base:CCC'', CrossChainDeployment, RecentExact), (''solana:BBB'', SameDeployer, RecentExact),
      (''solana:W'', FundedByKnownDeployer, RecentReconstructed)]"
  by code_simp

theorem candidates_stand_on_evidence_witness:
  "summary (sample_resolve sample_nodes sample_edges) =
     [(''base:CCC'', CrossChainDeployment, RecentExact), (''solana:BBB'', SameDeployer, RecentExact),
      (''solana:W'', FundedByKnownDeployer, RecentReconstructed)] \<and>
   distinct (map candidate_key (sample_resolve sample_nodes sample_edges)) \<and>
   list_all (justified (\<lambda>_. None) sample_clock sample_anchor sample_edges
       [\<lparr>sir_platform = ''x'', sir_immutable_user_id = ''12'', sir_handles = [''alice'']\<rparr>] 9)
     (sample_resolve sample_nodes sample_edges)"
  using candidates_stand_on_evidence [of "\<lambda>_. None" sample_clock sample_anchor sample_nodes sample_edges
      "[\<lparr>sir_platform = ''x'', sir_immutable_user_id = ''12'', sir_handles = [''alice'']\<rparr>]" 9]
  by (simp add: sample_resolution list_all_iff)

text \<open>Social reuse does not exclude the anchor: a node of the anchor that carries its own account is
  reported as another project reusing it.\<close>

lemma anchor_reuses_itself:
  "summary (sample_resolve [token_node ''solana:AAA''] [sample_edge ''solana:AAA'' ''x:12'' EdgeReusedSocialLink TruthConfirmed]) =
     [(''solana:AAA'', ReusedSocialLink, RecentInsufficient)]"
  by code_simp

text \<open>The first emission of a relation wins: a disputed edge listed before an authoritative one hides it.\<close>

lemma disputed_edge_hides_authoritative:
  "summary (sample_resolve [token_node ''solana:BBB'']
     [sample_edge ''solana:D'' ''solana:BBB'' EdgeDeployedBy TruthDisputed,
      sample_edge ''solana:D'' ''solana:BBB'' EdgeDeployedBy TruthConfirmed]) =
     [(''solana:BBB'', SameDeployer, RecentInsufficient)] \<and>
   summary (sample_resolve [token_node ''solana:BBB'']
     [sample_edge ''solana:D'' ''solana:BBB'' EdgeDeployedBy TruthConfirmed,
      sample_edge ''solana:D'' ''solana:BBB'' EdgeDeployedBy TruthDisputed]) =
     [(''solana:BBB'', SameDeployer, RecentExact)]"
  by (rule conjI; code_simp)

text \<open>Account ids are compared verbatim, so the two spellings named in the comment are two accounts.\<close>

lemma account_case_matters: "\<not> same_social_identity u ''X:Acct1'' ''x:acct1'' \<and> same_social_identity u ''X:acct1'' ''x:acct1''"
  by (simp add: same_social_identity_def canonical_social_key_def normalize_identity_def chain_prefix_def split_once_def
      trim_def is_whitespace_def to_ascii_lowercase_def Let_def) (code_simp)

section \<open>Dependency groups\<close>

abbreviation upstream :: "(string \<Rightarrow> string option) \<Rightarrow> (string \<times> string) set" where
  "upstream parent \<equiv> {(d, u). parent d = Some u}"

lemma find_root_sound:
  "find_root parent r = Some y \<Longrightarrow> (r, y) \<in> (upstream parent)\<^sup>* \<and> parent y = None"
  by (erule find_root.raw_induct [rotated, where P = "\<lambda>parent r y. (r, y) \<in> (upstream parent)\<^sup>* \<and> parent y = None"])
    (auto split: option.splits intro: converse_rtrancl_into_rtrancl)

lemma find_root_complete: "(r, y) \<in> (upstream parent)\<^sup>* \<Longrightarrow> parent y = None \<Longrightarrow> find_root parent r = Some y"
  by (induction rule: converse_rtrancl_induct) (simp_all add: find_root.simps [of parent])

lemma find_root_iff: "find_root parent r = Some y \<longleftrightarrow> (r, y) \<in> (upstream parent)\<^sup>* \<and> parent y = None"
  using find_root_sound find_root_complete by blast

lemma cycle_closed:
  assumes "(a, b) \<in> (upstream parent)\<^sup>*" "(a, a) \<in> (upstream parent)\<^sup>+"
  shows "(b, b) \<in> (upstream parent)\<^sup>+"
  using assms
proof (induction rule: rtrancl_induct)
  case (step b c)
  obtain z where "(b, z) \<in> upstream parent" "(z, b) \<in> (upstream parent)\<^sup>*"
    using step.IH [OF step.prems] tranclD by metis
  then show ?case
    using step.hyps(2) by (auto intro: rtrancl_into_trancl1)
qed

lemma find_root_cycle: "(r, r) \<in> (upstream parent)\<^sup>+ \<Longrightarrow> find_root parent r = None"
proof (rule ccontr)
  assume h: "(r, r) \<in> (upstream parent)\<^sup>+" "find_root parent r \<noteq> None"
  then obtain y where y: "(r, y) \<in> (upstream parent)\<^sup>*" "parent y = None"
    using find_root_sound by blast
  then obtain z where "(y, z) \<in> upstream parent"
    using cycle_closed [OF y(1) h(1)] tranclD by metis
  then show False
    using y(2) by simp
qed

lemma find_root_total:
  assumes "wf ((upstream parent)\<inverse>)"
  shows "find_root parent r \<noteq> None"
  using assms
proof (induction r rule: wf_induct_rule)
  case (less r)
  then show ?case
    by (cases "parent r") (simp_all add: find_root.simps [of parent r])
qed

lemma parent_map_Some: "parent_map deps d = Some u \<Longrightarrow> (u, d) \<in> set deps"
  by (auto simp: parent_map_def dest!: map_of_SomeD)

lemma parent_map_dom: "parent_map deps d \<noteq> None \<longleftrightarrow> d \<in> set (map snd deps)"
  by (force simp: parent_map_def map_of_eq_None_iff)

lemma upstream_finite: "finite (upstream (parent_map deps))"
  by (rule finite_subset [of _ "prod.swap ` set deps", OF _ finite_imageI [OF finite_set]])
    (force dest: parent_map_Some simp: image_iff prod.swap_def)

lemma dependency_roots_return: "dependency_roots deps \<noteq> None \<longleftrightarrow> acyclic (upstream (parent_map deps))"
proof
  assume h: "dependency_roots deps \<noteq> None"
  show "acyclic (upstream (parent_map deps))"
  proof (rule acyclicI, intro allI notI)
    fix d
    assume c: "(d, d) \<in> (upstream (parent_map deps))\<^sup>+"
    then obtain z where "(d, z) \<in> upstream (parent_map deps)"
      using tranclD by metis
    then have "d \<in> set (map snd deps)"
      using parent_map_dom [of deps d] by simp
    then show False
      using h find_root_cycle [OF c] by (auto simp: dependency_roots_def list_all_iff split: if_splits)
  qed
next
  assume "acyclic (upstream (parent_map deps))"
  then have "wf ((upstream (parent_map deps))\<inverse>)"
    by (rule finite_acyclic_wf_converse [OF upstream_finite])
  then show "dependency_roots deps \<noteq> None"
    using find_root_total by (auto simp: dependency_roots_def list_all_iff)
qed

abbreviation dependency_refs :: "(string \<times> string) list \<Rightarrow> string set" where
  "dependency_refs deps \<equiv> set (map fst deps) \<union> set (map snd deps)"

lemma dependency_roots_Some:
  assumes "dependency_roots deps = Some roots"
  shows "roots r = (if r \<in> dependency_refs deps then find_root (parent_map deps) r else None)"
    and "find_root (parent_map deps) r \<noteq> None"
proof -
  have self: "find_root (parent_map deps) r = Some r" if "r \<notin> set (map snd deps)"
    using that parent_map_dom [of deps r] by (simp add: find_root.simps [of _ r] del: set_map)
  have "roots = (\<lambda>r. if r \<in> set (map snd deps) then find_root (parent_map deps) r
      else if r \<in> set (map fst deps) then Some r else None)"
    using assms by (simp add: dependency_roots_def split: if_splits)
  then show "roots r = (if r \<in> dependency_refs deps then find_root (parent_map deps) r else None)"
    using self by (simp del: set_map)
  show "find_root (parent_map deps) r \<noteq> None"
    using find_root_total finite_acyclic_wf_converse [OF upstream_finite] dependency_roots_return [of deps] assms by simp
qed

lemma roots_are_roots:
  assumes "dependency_roots deps = Some roots" "roots r = Some y"
  shows "(r, y) \<in> (upstream (parent_map deps))\<^sup>* \<and> parent_map deps y = None"
  using assms(2) find_root_sound unfolding dependency_roots_Some(1) [OF assms(1)] by (meson option.distinct(1))

lemma roots_share:
  assumes "dependency_roots deps = Some roots" "(a, b) \<in> (upstream (parent_map deps))\<^sup>*" "b \<in> dependency_refs deps"
  shows "roots a = roots b \<and> roots b \<noteq> None"
proof -
  have step: "find_root (parent_map deps) a = find_root (parent_map deps) b"
    using assms(2) by (induction rule: converse_rtrancl_induct) (simp_all add: find_root.simps [of "parent_map deps"])
  have "a \<in> dependency_refs deps"
    using assms(2,3)
  proof (induction rule: converse_rtrancl_induct)
    case (step x y)
    then show ?case
      using parent_map_dom [of deps x] by auto
  qed
  then show ?thesis
    using step assms(3) dependency_roots_Some [OF assms(1)] by simp
qed

lemma group_event_spec:
  assumes "dependency_roots deps = Some roots"
  shows "(group_event roots e)\<lparr>re_dependency_group := re_dependency_group e\<rparr> = e \<and>
    (re_dependency_group e \<noteq> None \<longrightarrow> group_event roots e = e) \<and>
    (re_dependency_group e = None \<longrightarrow> re_evidence_refs e \<noteq> [] \<longrightarrow>
      (\<exists>r\<in>set (re_evidence_refs e). \<exists>root. (r, root) \<in> (upstream (parent_map deps))\<^sup>* \<and> parent_map deps root = None \<and>
         re_dependency_group (group_event roots e) = Some (''group:'' @ root)))"
proof (intro conjI impI)
  show "(group_event roots e)\<lparr>re_dependency_group := re_dependency_group e\<rparr> = e"
    by (simp add: group_event_def Let_def split: option.split)
  assume g: "re_dependency_group e = None" "re_evidence_refs e \<noteq> []"
  show "\<exists>r\<in>set (re_evidence_refs e). \<exists>root. (r, root) \<in> (upstream (parent_map deps))\<^sup>* \<and> parent_map deps root = None \<and>
      re_dependency_group (group_event roots e) = Some (''group:'' @ root)"
  proof (cases "List.map_filter roots (re_evidence_refs e)")
    case Nil
    then have none: "roots (hd (re_evidence_refs e)) = None"
      using g(2) by (cases "re_evidence_refs e") (auto simp: map_filter_simps split: option.splits)
    have "parent_map deps (hd (re_evidence_refs e)) = None"
      using none parent_map_dom [of deps "hd (re_evidence_refs e)"] dependency_roots_Some [OF assms, of "hd (re_evidence_refs e)"]
      by (auto split: if_splits)
    moreover have "re_dependency_group (group_event roots e) = Some (''group:'' @ hd (re_evidence_refs e))"
      using g Nil by (cases "re_evidence_refs e") (simp_all add: group_event_def or_else_def)
    ultimately show ?thesis
      using g(2) by (intro bexI [of _ "hd (re_evidence_refs e)"] exI [of _ "hd (re_evidence_refs e)"]) auto
  next
    case (Cons y ys)
    then have "y \<in> set (List.map_filter roots (re_evidence_refs e))"
      by simp
    then obtain r where r: "r \<in> set (re_evidence_refs e)" "roots r = Some y"
      by (auto simp: map_filter_def)
    moreover have "re_dependency_group (group_event roots e) = Some (''group:'' @ y)"
      using g Cons by (simp add: group_event_def or_else_def)
    ultimately show ?thesis
      using roots_are_roots [OF assms r(2)] by blast
  qed
qed (simp add: group_event_def)


definition sample_event :: "string \<Rightarrow> string list \<Rightarrow> RecentEvent" where
  "sample_event i refs =
     \<lparr>re_event_id = i, re_event_type = ''e'', re_anchor_identity = ''solana:AAA'', re_related_identities = [],
      re_chain_qualified_contract = ''solana:AAA'', re_occurred_at = 1, re_observed_at = 2, re_relation = None,
      re_truth_status = TruthConfirmed, re_confidence = None, re_confidence_level = RecentEstimated, re_evidence_refs = refs,
      re_dependency_group = None, re_freshness = None, re_coverage = CoverFull, re_capability_status = CapAvailable,
      re_missing_inputs = [], re_retraction = None, re_is_current_coverage = True\<rparr>"

lemma sample_groups:
  "assign_dependency_group [sample_event ''1'' [''d2''], sample_event ''2'' [''x'']] [(''u'', ''d''), (''d'', ''d2'')] =
     Some [(sample_event ''1'' [''d2''])\<lparr>re_dependency_group := Some ''group:u''\<rparr>,
           (sample_event ''2'' [''x''])\<lparr>re_dependency_group := Some ''group:x''\<rparr>]"
  by (simp add: assign_dependency_group_def dependency_roots_def parent_map_def find_root.simps group_event_def
      or_else_def sample_event_def map_filter_simps)


text \<open>Two sources that quote each other: the root search, and so the grouping of any event list, never returns.\<close>

lemma mutual_quotes_never_return: "assign_dependency_group events [(''a'', ''b''), (''b'', ''a'')] = None"
proof -
  have "(''a'', ''b'') \<in> upstream (parent_map [(''a'', ''b''), (''b'', ''a'')])"
    "(''b'', ''a'') \<in> upstream (parent_map [(''a'', ''b''), (''b'', ''a'')])"
    by (simp_all add: parent_map_def)
  then have "(''a'', ''a'') \<in> (upstream (parent_map [(''a'', ''b''), (''b'', ''a'')]))\<^sup>+"
    by (rule trancl_trans [OF r_into_trancl r_into_trancl])
  then have "\<not> acyclic (upstream (parent_map [(''a'', ''b''), (''b'', ''a'')]))"
    unfolding acyclic_def by blast
  then show ?thesis
    using dependency_roots_return [of "[(''a'', ''b''), (''b'', ''a'')]"] by (simp add: assign_dependency_group_def)
qed

section \<open>Retraction\<close>

abbreviation legal_retraction :: "Retraction \<Rightarrow> bool" where
  "legal_retraction r \<equiv> rt_truth_status r \<in> {TruthSuperseded, TruthErroneous}"

definition last_retraction :: "Retraction list \<Rightarrow> string \<Rightarrow> Retraction option" where
  "last_retraction rs i = find (\<lambda>r. legal_retraction r \<and> rt_target_event_id r = i) (rev rs)"

definition retracted_by :: "Retraction option \<Rightarrow> RecentEvent \<Rightarrow> RecentEvent" where
  "retracted_by r e = (case r of None \<Rightarrow> e | Some x \<Rightarrow> e\<lparr>re_truth_status := rt_truth_status x, re_retraction := Some x\<rparr>)"

abbreviation first_of_id :: "RecentEvent list \<Rightarrow> nat \<Rightarrow> bool" where
  "first_of_id es i \<equiv> re_event_id (es ! i) \<notin> re_event_id ` set (take i es)"

lemma retract_first_ids [simp]: "map re_event_id (retract_first r es) = map re_event_id es"
  by (induction es) auto

lemma retract_first_length [simp]: "length (retract_first r es) = length es"
  by (induction es) auto

lemma retract_first_nth:
  "i < length es \<Longrightarrow>
   retract_first r es ! i =
     (if re_event_id (es ! i) = rt_target_event_id r \<and> first_of_id es i then retracted_by (Some r) (es ! i) else es ! i)"
proof (induction es arbitrary: i)
  case (Cons e es)
  then show ?case
    by (cases i) (auto simp: retracted_by_def)
qed simp

lemma retracted_twice [simp]:
  "retracted_by (Some r) (retracted_by x e) = retracted_by (Some r) e" "re_event_id (retracted_by x e) = re_event_id e"
  by (auto simp: retracted_by_def split: option.split)

lemma apply_retraction_snoc:
  "apply_retraction es (rs @ [r]) =
     (if legal_retraction r then retract_first r (apply_retraction es rs) else apply_retraction es rs)"
  by (simp add: apply_retraction_def)

lemma apply_retraction_ids: "map re_event_id (apply_retraction es rs) = map re_event_id es"
  by (induction rs rule: rev_induct) (auto simp: apply_retraction_snoc, simp add: apply_retraction_def)

lemma first_of_id_ids:
  assumes "map re_event_id xs = map re_event_id es" "i < length es"
  shows "first_of_id xs i = first_of_id es i" "re_event_id (xs ! i) = re_event_id (es ! i)"
proof -
  have "length xs = length es"
    using map_eq_imp_length_eq [OF assms(1)] .
  then show nth: "re_event_id (xs ! i) = re_event_id (es ! i)"
    using assms by (metis nth_map)
  have "re_event_id ` set (take i xs) = re_event_id ` set (take i es)"
    using assms(1) by (metis set_map take_map)
  then show "first_of_id xs i = first_of_id es i"
    by (simp add: nth)
qed

text \<open>Applying retractions archives and never deletes: the rows and their ids stay, in order. A row changes only in its truth
  status and retraction mark; it carries those of the last retraction that names its id with a legal status
  (superseded or erroneous), if it is the first row with that id; all other rows are untouched, so a dangling or illegal
  retraction changes nothing.
\<close>

theorem retraction_archives:
  "map re_event_id (apply_retraction es rs) = map re_event_id es \<and>
   (\<forall>i<length es. apply_retraction es rs ! i =
      (if first_of_id es i then retracted_by (last_retraction rs (re_event_id (es ! i))) (es ! i) else es ! i))"
proof (intro conjI allI impI)
  show ids: "map re_event_id (apply_retraction es rs) = map re_event_id es" for rs
    by (rule apply_retraction_ids)
  fix i
  assume i: "i < length es"
  show "apply_retraction es rs ! i =
      (if first_of_id es i then retracted_by (last_retraction rs (re_event_id (es ! i))) (es ! i) else es ! i)"
  proof (induction rs rule: rev_induct)
    case Nil
    then show ?case
      by (simp add: apply_retraction_def last_retraction_def retracted_by_def)
  next
    case (snoc r rs)
    have len: "i < length (apply_retraction es rs)"
      using i map_eq_imp_length_eq [OF ids [of rs]] by simp
    show ?case
      using snoc retract_first_nth [OF len, of r] first_of_id_ids [OF ids [of rs] i]
      by (auto simp: apply_retraction_snoc last_retraction_def)
  qed
qed

theorem retraction_archives_witness:
  "map re_truth_status (apply_retraction [sample_event ''1'' [], sample_event ''2'' [], sample_event ''1'' []]
     [\<lparr>rt_target_event_id = ''1'', rt_retracted_at = 3, rt_truth_status = TruthErroneous\<rparr>,
      \<lparr>rt_target_event_id = ''2'', rt_retracted_at = 3, rt_truth_status = TruthConfirmed\<rparr>]) =
     [TruthErroneous, TruthConfirmed, TruthConfirmed]"
  using retraction_archives [of "[sample_event ''1'' [], sample_event ''2'' [], sample_event ''1'' []]"
     "[\<lparr>rt_target_event_id = ''1'', rt_retracted_at = 3, rt_truth_status = TruthErroneous\<rparr>,
      \<lparr>rt_target_event_id = ''2'', rt_retracted_at = 3, rt_truth_status = TruthConfirmed\<rparr>]"]
  by (simp add: apply_retraction_def sample_event_def)

text \<open>An announcement is official exactly when its contract, its author's binding at publication and its evidence agree.\<close>

lemma official_announcement_iff:
  "classify_social obs anchor_contract binding = OfficialCaAnnouncement \<longleftrightarrow>
     so_relation_kind obs = KindOfficialCa \<and> so_announced_contract obs = Some anchor_contract \<and> trim (so_raw_ref obs) \<noteq> [] \<and>
     (\<exists>b. binding = Some b \<and> ob_immutable_account_id b = so_immutable_account_id obs \<and>
        ob_chain_qualified_contract b = anchor_contract \<and> ob_valid_from b \<le> so_published_at obs \<and>
        (\<forall>t. ob_valid_until b = Some t \<longrightarrow> so_published_at obs \<le> t))"
  by (auto simp: classify_social_def Let_def split: SocialEvidenceKind.splits option.splits)

text \<open>A timeline is the chronologically sorted selection of the anchor's events.\<close>

lemma timeline_spec:
  "mset (tl_events (build_timeline a es)) = filter_mset (\<lambda>e. re_anchor_identity e = a) (mset es) \<and>
   sorted (map (\<lambda>e. (re_occurred_at e, re_observed_at e)) (tl_events (build_timeline a es)))"
  by (simp add: build_timeline_def mset_filter)

lemma push_term_distinct: "distinct ts \<and> [] \<notin> set ts \<Longrightarrow> distinct (push_term t ts) \<and> [] \<notin> set (push_term t ts)"
  by (auto simp: push_term_def Let_def)

lemma lookup_query_spec: "distinct (build_lookup_query a) \<and> [] \<notin> set (build_lookup_query a)"
  unfolding build_lookup_query_def Let_def
  by (rule fold_invariant [where Q = "\<lambda>_. True" and P = "\<lambda>ts. distinct ts \<and> [] \<notin> set ts"])
    (simp_all add: push_term_distinct)

end
