(* ===== verification/Events.thy ===== *)
theory Events
  imports Models
begin

text \<open>
  The event and radar records of \<^verbatim>\<open>src/models.rs\<close>. The external decimal type is the type variable; JSON
  payloads are \<open>json\<close>; times are unix seconds. \<open>norm_text\<close> is the printer of a normalized decimal.
\<close>

record 'd NormalizedTransfer =
  nt_chain :: ChainKind
  nt_signature :: string
  nt_event_index :: int
  nt_from_address :: string
  nt_to_address :: string
  nt_asset_kind :: AssetKind
  nt_mint :: string
  nt_raw_amount :: string
  nt_amount :: 'd
  nt_slot :: "nat option"
  nt_block_time :: "int option"
  nt_observed_at :: int
  nt_source :: string
  nt_commitment :: Commitment

record 'd NormalizedTrade =
  tr_chain :: ChainKind
  tr_signature :: string
  tr_event_index :: int
  tr_wallet :: string
  tr_mint :: string
  tr_side :: TradeSide
  tr_raw_native_amount :: string
  tr_raw_token_amount :: string
  tr_native_amount :: 'd
  tr_token_amount :: 'd
  tr_usd_value :: "'d option"
  tr_slot :: "nat option"
  tr_block_time :: "int option"
  tr_observed_at :: int
  tr_dex_id :: "string option"
  tr_source :: string

record 'd FundingEvent =
  fv_chain :: ChainKind
  fv_signature :: string
  fv_slot :: "nat option"
  fv_observed_at :: int
  fv_commitment :: Commitment
  fv_from_address :: string
  fv_to_address :: string
  fv_asset_kind :: AssetKind
  fv_mint :: string
  fv_raw_amount :: string
  fv_native_amount :: 'd
  fv_amount_usd :: "'d option"
  fv_native_usd_price :: "'d option"
  fv_recipient_age_seconds :: "int option"
  fv_source_kind :: "WalletLabelKind option"
  fv_raw :: json

definition source_is_infrastructure :: "'d FundingEvent \<Rightarrow> bool" where
  "source_is_infrastructure e \<longleftrightarrow>
     fv_source_kind e \<in> {Some Exchange, Some Bridge, Some KuiperExchange, Some MevBot, Some DexBot}"

record 'd NormalizedEvents =
  nv_transfers :: "'d NormalizedTransfer list"
  nv_trades :: "'d NormalizedTrade list"
  nv_mints_created :: "string list"
  nv_token_accounts_created :: "(string \<times> string) list"

record 'd HistoryPage =
  hp_events :: "'d NormalizedEvents"
  hp_next_cursor :: "string option"
  hp_complete :: bool

record 'd FundingPage =
  fp_events :: "'d FundingEvent list"
  fp_next_cursor :: "string option"

record 'd FundingRadarCase =
  rc_id :: int
  rc_chain :: ChainKind
  rc_recipient :: string
  rc_first_funded_at :: int
  rc_first_funding_usd :: "'d option"
  rc_first_funding_native :: 'd
  rc_source_address :: string
  rc_source_kind :: "WalletLabelKind option"
  rc_fanout_count :: nat
  rc_deploy_window_ends_at :: int
  rc_stage :: RadarStage
  rc_confidence :: nat
  rc_evidence :: json
  rc_updated_at :: int

datatype RadarAlertKind = FundingWatch | PreparationAlert

fun radar_alert_kind_as_str :: "RadarAlertKind \<Rightarrow> string" where
  "radar_alert_kind_as_str FundingWatch = ''funding_watch''"
| "radar_alert_kind_as_str PreparationAlert = ''preparation_alert''"

record RadarAlert =
  ra_kind :: RadarAlertKind
  ra_case_id :: int
  ra_chain :: ChainKind
  ra_recipient :: string
  ra_confidence :: nat
  ra_message :: string
  ra_evidence :: json

record FundingRadarDecision =
  rd_case_id :: int
  rd_chain :: ChainKind
  rd_recipient :: string
  rd_stage :: RadarStage
  rd_previous_stage :: "RadarStage option"
  rd_confidence :: nat
  rd_alert :: "RadarAlert option"
  rd_reason :: string
  rd_evidence_count :: nat

definition funding_watch :: "('d \<Rightarrow> string) \<Rightarrow> 'd FundingRadarCase \<Rightarrow> json \<Rightarrow> RadarAlert" where
  "funding_watch norm_text c evidence =
     \<lparr>ra_kind = FundingWatch, ra_case_id = rc_id c, ra_chain = rc_chain c, ra_recipient = rc_recipient c,
      ra_confidence = rc_confidence c,
      ra_message = ''funding_watch: '' @ short_addr (rc_recipient c) @ '' received '' @
        norm_text (rc_first_funding_native c) @ '' '' @ chain_kind_as_str (rc_chain c) @ '' from '' @
        short_addr (rc_source_address c) @ ''; possible project preparation'',
      ra_evidence = evidence\<rparr>"

definition preparation :: "'d FundingRadarCase \<Rightarrow> json \<Rightarrow> RadarAlert" where
  "preparation c evidence =
     \<lparr>ra_kind = PreparationAlert, ra_case_id = rc_id c, ra_chain = rc_chain c, ra_recipient = rc_recipient c,
      ra_confidence = rc_confidence c,
      ra_message = ''preparation_alert: '' @ short_addr (rc_recipient c) @
        '' shows possible project preparation (confidence '' @ show_nat (rc_confidence c) @ '')'',
      ra_evidence = evidence\<rparr>"

end
