(* ===== verification/Clusters.thy ===== *)
theory Clusters
  imports Events Float64 Transactions Policy
begin

text \<open>
  Soft wallet clusters: \<^verbatim>\<open>src/graph.rs\<close> over the tables \<^verbatim>\<open>funding_edges\<close>, \<^verbatim>\<open>wallet_clusters\<close>,
  \<^verbatim>\<open>wallet_cluster_members\<close> and \<^verbatim>\<open>transfers\<close>. The member table has two unique indexes: the key (cluster, chain,
  address), and (chain, address) over the active rows. \<open>stored\<close> is the number a \<^verbatim>\<open>numeric(5,4)\<close> column holds for an
  \<open>f64\<close>; \<open>fresh\<close> is the id the cluster sequence hands out; \<open>now\<close> is the database clock.
\<close>

section \<open>Edge confidence\<close>

definition WEIGHT_FUNDING :: f64 where "WEIGHT_FUNDING = f64_lit (35 / 100)"
definition WEIGHT_TOKEN_ACCOUNT :: f64 where "WEIGHT_TOKEN_ACCOUNT = f64_lit (25 / 100)"
definition WEIGHT_REPEATED_FUNDING :: f64 where "WEIGHT_REPEATED_FUNDING = f64_lit (15 / 100)"
definition WEIGHT_CLOSE_TIME_ACTIVITY :: f64 where "WEIGHT_CLOSE_TIME_ACTIVITY = f64_lit (15 / 100)"
definition WEIGHT_TRADE_STYLE :: f64 where "WEIGHT_TRADE_STYLE = f64_lit (10 / 100)"
definition MEMBERSHIP_THRESHOLD :: f64 where "MEMBERSHIP_THRESHOLD = f64_lit (70 / 100)"

record EdgeComponents =
  ec_funding :: bool
  ec_token_account_creation :: bool
  ec_repeated_funding :: bool
  ec_close_time_same_token :: bool
  ec_trade_style_match :: bool

definition edge_confidence :: "EdgeComponents \<Rightarrow> f64" where
  "edge_confidence c =
     (let score = Fin 0;
          score = (if ec_funding c then f64_add score WEIGHT_FUNDING else score);
          score = (if ec_token_account_creation c then f64_add score WEIGHT_TOKEN_ACCOUNT else score);
          score = (if ec_repeated_funding c then f64_add score WEIGHT_REPEATED_FUNDING else score);
          score = (if ec_close_time_same_token c then f64_add score WEIGHT_CLOSE_TIME_ACTIVITY else score);
          score = (if ec_trade_style_match c then f64_add score WEIGHT_TRADE_STYLE else score)
      in f64_min score (Fin 1))"

definition score_edge_confidence :: "EdgeComponents \<Rightarrow> f64" where
  "score_edge_confidence c = edge_confidence c"

section \<open>Edges\<close>

record edge_row =
  fe_chain :: string
  fe_from :: string
  fe_to :: string
  fe_signature :: string
  fe_kind :: string
  fe_raw_amount :: string
  fe_block_time :: "int option"
  fe_confidence :: rat
  fe_evidence :: json
  fe_promoted :: bool

definition edge_key :: "edge_row \<Rightarrow> string \<times> string \<times> string \<times> string \<times> string" where
  "edge_key r = (fe_chain r, fe_from r, fe_to r, fe_signature r, fe_kind r)"

text \<open>\<^verbatim>\<open>ON CONFLICT DO NOTHING\<close> on the primary key.\<close>

definition insert_edge :: "edge_row \<Rightarrow> edge_row list \<Rightarrow> edge_row list" where
  "insert_edge row edges = (if edge_key row \<in> edge_key ` set edges then edges else edges @ [row])"

definition components_json :: "EdgeComponents \<Rightarrow> json" where
  "components_json c =
     JObject [(''funding'', JBool (ec_funding c)), (''token_account_creation'', JBool (ec_token_account_creation c)),
              (''repeated_funding'', JBool (ec_repeated_funding c)),
              (''close_time_same_token'', JBool (ec_close_time_same_token c)),
              (''trade_style_match'', JBool (ec_trade_style_match c))]"

definition update_funding_edges :: "(f64 \<Rightarrow> rat) \<Rightarrow> 'd NormalizedTransfer \<Rightarrow> edge_row list \<Rightarrow> edge_row list" where
  "update_funding_edges stored transfer edges =
     (let components = \<lparr>ec_funding = True, ec_token_account_creation = False, ec_repeated_funding = False,
                        ec_close_time_same_token = False, ec_trade_style_match = False\<rparr>;
          confidence = score_edge_confidence components
      in insert_edge
           \<lparr>fe_chain = chain_kind_as_str (nt_chain transfer), fe_from = nt_from_address transfer,
            fe_to = nt_to_address transfer, fe_signature = nt_signature transfer,
            fe_kind = (if asset_kind_as_str (nt_asset_kind transfer) = ''native'' then ''funding'' else ''token_funding''),
            fe_raw_amount = nt_raw_amount transfer, fe_block_time = nt_block_time transfer,
            fe_confidence = stored confidence,
            fe_evidence = JObject [(''components'', components_json components),
              (''asset_kind'', JString (asset_kind_as_str (nt_asset_kind transfer))), (''mint'', JString (nt_mint transfer))],
            fe_promoted = f64_ge confidence MEMBERSHIP_THRESHOLD\<rparr> edges)"

text \<open>\<open>nanos\<close> is the clock in nanoseconds, 0 when it does not fit.\<close>

definition record_edge_evidence ::
  "(f64 \<Rightarrow> rat) \<Rightarrow> int \<Rightarrow> ChainKind \<Rightarrow> string \<Rightarrow> string \<Rightarrow> EdgeComponents \<Rightarrow> json \<Rightarrow> edge_row list \<Rightarrow> edge_row list" where
  "record_edge_evidence stored nanos chain from_address to_address components evidence edges =
     (let confidence = score_edge_confidence components
      in insert_edge
           \<lparr>fe_chain = chain_kind_as_str chain, fe_from = from_address, fe_to = to_address,
            fe_signature = ''evidence-'' @ show_int nanos, fe_kind = ''evidence'', fe_raw_amount = ''0'',
            fe_block_time = None, fe_confidence = stored confidence, fe_evidence = evidence,
            fe_promoted = f64_ge confidence MEMBERSHIP_THRESHOLD\<rparr> edges)"

section \<open>Cluster membership\<close>

record member_row =
  cm_cluster :: int
  cm_chain :: string
  cm_address :: string
  cm_kind :: string
  cm_confidence :: rat
  cm_revoked_at :: "int option"

record cluster_db =
  cd_edges :: "edge_row list"
  cd_clusters :: "int list"
  cd_members :: "member_row list"

datatype cluster_error = OneActiveViolation

abbreviation cm_active :: "member_row \<Rightarrow> bool" where
  "cm_active r \<equiv> cm_revoked_at r = None"

definition member_key :: "member_row \<Rightarrow> int \<times> string \<times> string" where
  "member_key r = (cm_cluster r, cm_chain r, cm_address r)"

text \<open>The partial unique index of the active rows.\<close>

definition one_active :: "member_row list \<Rightarrow> bool" where
  "one_active rows \<longleftrightarrow> distinct (map (\<lambda>r. (cm_chain r, cm_address r)) (filter cm_active rows))"

definition upsert_row :: "rat \<Rightarrow> int \<Rightarrow> string \<Rightarrow> string \<Rightarrow> member_row list \<Rightarrow> member_row list" where
  "upsert_row conf cluster chain address rows =
     (if (cluster, chain, address) \<in> member_key ` set rows
      then map (\<lambda>r. if member_key r = (cluster, chain, address) then r\<lparr>cm_confidence := conf, cm_revoked_at := None\<rparr> else r) rows
      else rows @ [\<lparr>cm_cluster = cluster, cm_chain = chain, cm_address = address, cm_kind = ''soft'',
                    cm_confidence = conf, cm_revoked_at = None\<rparr>])"

definition upsert_membership ::
  "(f64 \<Rightarrow> rat) \<Rightarrow> int \<Rightarrow> string \<Rightarrow> string \<Rightarrow> (cluster_db, cluster_error, unit) tx" where
  "upsert_membership stored cluster chain address =
     tx_bind (tx_stmt (\<lambda>db.
         let rows = upsert_row (stored MEMBERSHIP_THRESHOLD) cluster chain address (cd_members db)
         in (one_active rows, db\<lparr>cd_members := rows\<rparr>)))
       (\<lambda>ok. if ok then tx_return () else tx_abort OneActiveViolation)"

fun upsert_all :: "(f64 \<Rightarrow> rat) \<Rightarrow> int \<Rightarrow> string \<Rightarrow> string list \<Rightarrow> (cluster_db, cluster_error, unit) tx" where
  "upsert_all stored cluster chain [] = tx_return ()"
| "upsert_all stored cluster chain (a # as) =
     tx_bind (upsert_membership stored cluster chain a) (\<lambda>_. upsert_all stored cluster chain as)"

definition active_addresses :: "int \<Rightarrow> string \<Rightarrow> member_row list \<Rightarrow> string list" where
  "active_addresses cluster chain rows =
     map cm_address (filter (\<lambda>r. cm_cluster r = cluster \<and> cm_chain r = chain \<and> cm_active r) rows)"

definition revoke_cluster :: "int \<Rightarrow> int \<Rightarrow> string \<Rightarrow> member_row list \<Rightarrow> member_row list" where
  "revoke_cluster now cluster chain rows =
     map (\<lambda>r. if cm_cluster r = cluster \<and> cm_chain r = chain \<and> cm_active r then r\<lparr>cm_revoked_at := Some now\<rparr> else r) rows"

fun fold_superseded ::
  "(f64 \<Rightarrow> rat) \<Rightarrow> int \<Rightarrow> int \<Rightarrow> string \<Rightarrow> int list \<Rightarrow> (cluster_db, cluster_error, unit) tx" where
  "fold_superseded stored now cluster chain [] = tx_return ()"
| "fold_superseded stored now cluster chain (s # ss) =
     tx_bind (tx_stmt (\<lambda>db. (active_addresses s chain (cd_members db), db))) (\<lambda>moved.
     tx_bind (tx_stmt (\<lambda>db. ((), db\<lparr>cd_members := revoke_cluster now s chain (cd_members db)\<rparr>))) (\<lambda>_.
     tx_bind (upsert_all stored cluster chain moved) (\<lambda>_.
     fold_superseded stored now cluster chain ss)))"

definition strong_edges :: "(f64 \<Rightarrow> rat) \<Rightarrow> string \<Rightarrow> string \<Rightarrow> edge_row list \<Rightarrow> edge_row list" where
  "strong_edges stored chain address edges =
     filter (\<lambda>e. fe_chain e = chain \<and> (fe_from e = address \<or> fe_to e = address) \<and>
       stored MEMBERSHIP_THRESHOLD \<le> fe_confidence e) edges"

definition component_members :: "string \<Rightarrow> edge_row list \<Rightarrow> string list" where
  "component_members address rows = sort (remdups (address # concat (map (\<lambda>e. [fe_from e, fe_to e]) rows)))"

definition active_clusters :: "string \<Rightarrow> string list \<Rightarrow> member_row list \<Rightarrow> int list" where
  "active_clusters chain members rows =
     sort (remdups (map cm_cluster (filter (\<lambda>r. cm_chain r = chain \<and> cm_address r \<in> set members \<and> cm_active r) rows)))"

definition rebuild_tx ::
  "(f64 \<Rightarrow> rat) \<Rightarrow> int \<Rightarrow> int \<Rightarrow> string \<Rightarrow> string list \<Rightarrow> (cluster_db, cluster_error, int) tx" where
  "rebuild_tx stored now fresh chain members =
     tx_bind (tx_stmt (\<lambda>db. (active_clusters chain members (cd_members db), db))) (\<lambda>existing.
     tx_bind (case existing of
                cid # _ \<Rightarrow> tx_return cid
              | [] \<Rightarrow> tx_stmt (\<lambda>db. (fresh, db\<lparr>cd_clusters := fresh # cd_clusters db\<rparr>))) (\<lambda>cluster_id.
     tx_bind (fold_superseded stored now cluster_id chain (filter (\<lambda>i. i \<noteq> cluster_id) existing)) (\<lambda>_.
     tx_bind (upsert_all stored cluster_id chain members) (\<lambda>_.
     tx_return cluster_id))))"

text \<open>The edges are read before the transaction; \<open>read_fault\<close> is the failure of that query.\<close>

definition rebuild_cluster_for ::
  "(f64 \<Rightarrow> rat) \<Rightarrow> int \<Rightarrow> int \<Rightarrow> bool \<Rightarrow> faults \<Rightarrow> ChainKind \<Rightarrow> string \<Rightarrow> cluster_db \<Rightarrow>
   (cluster_error tx_error + int option) \<times> cluster_db" where
  "rebuild_cluster_for stored now fresh read_fault fault chain address db =
     (if read_fault then (Inl TxFault, db)
      else
        (let rows = strong_edges stored (chain_kind_as_str chain) address (cd_edges db)
         in if rows = [] then (Inr None, db)
            else apfst (map_sum id Some)
              (run_tx (rebuild_tx stored now fresh (chain_kind_as_str chain) (component_members address rows)) fault db)))"

section \<open>Tracing and wash candidates\<close>

record TraceStep =
  ts_address :: string
  ts_direction :: string
  ts_via_signature :: string
  ts_block_time :: "int option"
  ts_endpoint :: bool

definition nulls_last :: "int option \<Rightarrow> bool \<times> int" where
  "nulls_last t = (case t of None \<Rightarrow> (True, 0) | Some x \<Rightarrow> (False, x))"

definition touching_edges :: "string \<Rightarrow> string \<Rightarrow> nat \<Rightarrow> edge_row list \<Rightarrow> edge_row list" where
  "touching_edges chain address limit edges =
     take limit (sort_key (\<lambda>e. nulls_last (fe_block_time e))
       (filter (\<lambda>e. fe_chain e = chain \<and> (fe_from e = address \<or> fe_to e = address)) edges))"

definition trace_step :: "string \<Rightarrow> bool \<Rightarrow> edge_row \<Rightarrow> TraceStep" where
  "trace_step address endpoint e =
     \<lparr>ts_address = (if fe_from e = address then fe_to e else fe_from e),
      ts_direction = (if fe_from e = address then ''outgoing'' else ''incoming''),
      ts_via_signature = fe_signature e, ts_block_time = fe_block_time e, ts_endpoint = endpoint\<rparr>"

definition trace_wallet ::
  "int \<Rightarrow> label_db \<Rightarrow> edge_row list \<Rightarrow> int \<Rightarrow> ChainKind \<Rightarrow> string \<Rightarrow> nat \<Rightarrow> policy_error + TraceStep list" where
  "trace_wallet now labels edges workspace chain address max_depth =
     (let chain = chain_kind_as_str chain in
      case active_disposition now workspace chain address labels of
        Inl e \<Rightarrow> Inl e
      | Inr d \<Rightarrow>
          (case (case d of Some disposition \<Rightarrow> disposition_stops_traversal disposition | None \<Rightarrow> Inr False) of
             Inl e \<Rightarrow> Inl e
           | Inr True \<Rightarrow> Inr (map (trace_step address True) (touching_edges chain address 50 edges))
           | Inr False \<Rightarrow> Inr (map (trace_step address False) (touching_edges chain address (max_depth * 10) edges))))"

text \<open>The self-join of the transfers; rows without a block time match nothing.\<close>

definition wash_pair :: "string \<Rightarrow> int \<Rightarrow> 'd NormalizedTransfer \<Rightarrow> 'd NormalizedTransfer \<Rightarrow> bool" where
  "wash_pair chain now a b \<longleftrightarrow>
     chain_kind_as_str (nt_chain a) = chain \<and> nt_chain b = nt_chain a \<and>
     nt_from_address b = nt_to_address a \<and> nt_to_address b = nt_from_address a \<and>
     nt_asset_kind b = nt_asset_kind a \<and> nt_raw_amount b = nt_raw_amount a \<and>
     (case (nt_block_time a, nt_block_time b) of
        (Some s, Some t) \<Rightarrow> s \<le> t \<and> t \<le> s + 86400 \<and> now - 86400 \<le> s \<and> s \<le> now
      | _ \<Rightarrow> False) \<and>
     nt_signature a \<noteq> nt_signature b"

definition detect_wash_candidates ::
  "'d NormalizedTransfer list \<Rightarrow> ChainKind \<Rightarrow> int \<Rightarrow> (string \<times> string \<times> string) list" where
  "detect_wash_candidates transfers chain now =
     map (\<lambda>(a, b). (nt_from_address a, nt_to_address a, nt_signature a @ ''+'' @ nt_signature b))
       (take 100 (filter (\<lambda>(a, b). wash_pair (chain_kind_as_str chain) now a b) (List.product transfers transfers)))"

section \<open>Where a wallet is active\<close>

definition home :: "member_row list \<Rightarrow> string \<Rightarrow> string \<Rightarrow> int set" where
  "home rows chain address = {cm_cluster r | r. r \<in> set rows \<and> cm_active r \<and> cm_chain r = chain \<and> cm_address r = address}"

definition keyed :: "member_row list \<Rightarrow> bool" where
  "keyed rows \<longleftrightarrow> distinct (map member_key rows)"

definition single_home :: "(string \<Rightarrow> string \<Rightarrow> int set) \<Rightarrow> bool" where
  "single_home h \<longleftrightarrow> (\<forall>c a x y. x \<in> h c a \<longrightarrow> y \<in> h c a \<longrightarrow> x = y)"

lemma one_active_iff:
  assumes "keyed rows"
  shows "one_active rows \<longleftrightarrow> single_home (home rows)"
proof -
  have inj: "r = r'" if "r \<in> set rows" "r' \<in> set rows" "member_key r = member_key r'" for r r'
    using assms that by (auto simp: keyed_def distinct_map inj_on_def)
  have "distinct rows"
    using assms by (simp add: keyed_def distinct_map)
  then have "one_active rows \<longleftrightarrow> inj_on (\<lambda>r. (cm_chain r, cm_address r)) {r \<in> set rows. cm_active r}"
    by (simp add: one_active_def distinct_map)
  also have "\<dots> \<longleftrightarrow> single_home (home rows)"
  proof
    assume *: "inj_on (\<lambda>r. (cm_chain r, cm_address r)) {r \<in> set rows. cm_active r}"
    show "single_home (home rows)"
      unfolding single_home_def home_def using inj_onD [OF *] by fastforce
  next
    assume *: "single_home (home rows)"
    show "inj_on (\<lambda>r. (cm_chain r, cm_address r)) {r \<in> set rows. cm_active r}"
    proof (rule inj_onI)
      fix r r'
      assume r: "r \<in> {r \<in> set rows. cm_active r}" "r' \<in> {r \<in> set rows. cm_active r}"
        "(cm_chain r, cm_address r) = (cm_chain r', cm_address r')"
      then have "cm_cluster r \<in> home rows (cm_chain r) (cm_address r)" "cm_cluster r' \<in> home rows (cm_chain r) (cm_address r)"
        unfolding home_def by auto
      then have "member_key r = member_key r'"
        using * r(3) unfolding single_home_def member_key_def by blast
      then show "r = r'"
        using inj r by blast
    qed
  qed
  finally show ?thesis .
qed

text \<open>Put the addresses \<open>A\<close> of a chain into one cluster.\<close>

definition put :: "int \<Rightarrow> string \<Rightarrow> string set \<Rightarrow> (string \<Rightarrow> string \<Rightarrow> int set) \<Rightarrow> string \<Rightarrow> string \<Rightarrow> int set" where
  "put cid chain A h = (\<lambda>c a. if c = chain \<and> a \<in> A then {cid} else h c a)"

lemma in_home: "x \<in> home rows c a \<longleftrightarrow> (\<exists>r\<in>set rows. cm_active r \<and> member_key r = (x, c, a))"
  unfolding home_def member_key_def by blast

text \<open>A statement that rewrites rows in place keeps the keys and changes only which rows are active.\<close>

lemma rewrite_rows:
  assumes "\<And>r. member_key (f r) = member_key r" "\<And>r. cm_active (f r) \<longleftrightarrow> act r"
  shows "keyed (map f rows) = keyed rows" "member_key ` set (map f rows) = member_key ` set rows"
    "x \<in> home (map f rows) c a \<longleftrightarrow> (\<exists>r\<in>set rows. act r \<and> member_key r = (x, c, a))"
proof -
  have "member_key \<circ> f = member_key"
    using assms(1) by auto
  then show "keyed (map f rows) = keyed rows" "member_key ` set (map f rows) = member_key ` set rows"
    by (simp_all add: keyed_def image_comp)
  show "x \<in> home (map f rows) c a \<longleftrightarrow> (\<exists>r\<in>set rows. act r \<and> member_key r = (x, c, a))"
    by (simp add: in_home assms)
qed

abbreviation revive :: "rat \<Rightarrow> int \<times> string \<times> string \<Rightarrow> member_row \<Rightarrow> member_row" where
  "revive conf k r \<equiv> if member_key r = k then r\<lparr>cm_confidence := conf, cm_revoked_at := None\<rparr> else r"

lemma revive_rows:
  "member_key (revive conf k r) = member_key r" "cm_active (revive conf k r) \<longleftrightarrow> member_key r = k \<or> cm_active r"
  by (simp_all add: member_key_def)

lemma upsert_facts:
  assumes "keyed rows"
  shows "keyed (upsert_row conf cid ch a rows)"
    "member_key ` set (upsert_row conf cid ch a rows) = insert (cid, ch, a) (member_key ` set rows)"
    "x \<in> home (upsert_row conf cid ch a rows) c y \<longleftrightarrow> (x, c, y) = (cid, ch, a) \<or> x \<in> home rows c y"
proof (atomize (full), cases "(cid, ch, a) \<in> member_key ` set rows")
  case True
  note r = rewrite_rows [of "revive conf (cid, ch, a)", OF revive_rows]
  have eq: "upsert_row conf cid ch a rows = map (revive conf (cid, ch, a)) rows"
    using True by (simp add: upsert_row_def)
  show "keyed (upsert_row conf cid ch a rows) \<and>
      member_key ` set (upsert_row conf cid ch a rows) = insert (cid, ch, a) (member_key ` set rows) \<and>
      (x \<in> home (upsert_row conf cid ch a rows) c y \<longleftrightarrow> (x, c, y) = (cid, ch, a) \<or> x \<in> home rows c y)"
  proof (intro conjI)
    obtain q where q: "q \<in> set rows" "member_key q = (cid, ch, a)"
      using True by force
    show "x \<in> home (upsert_row conf cid ch a rows) c y \<longleftrightarrow> (x, c, y) = (cid, ch, a) \<or> x \<in> home rows c y"
      unfolding eq r(3) unfolding in_home
    proof (cases "(x, c, y) = (cid, ch, a)")
      case True
      then show "(\<exists>r\<in>set rows. (member_key r = (cid, ch, a) \<or> cm_active r) \<and> member_key r = (x, c, y)) \<longleftrightarrow>
          (x, c, y) = (cid, ch, a) \<or> (\<exists>r\<in>set rows. cm_active r \<and> member_key r = (x, c, y))"
        using q by (simp only: simp_thms) (rule bexI [of _ q], simp_all)
    next
      case False
      then show "(\<exists>r\<in>set rows. (member_key r = (cid, ch, a) \<or> cm_active r) \<and> member_key r = (x, c, y)) \<longleftrightarrow>
          (x, c, y) = (cid, ch, a) \<or> (\<exists>r\<in>set rows. cm_active r \<and> member_key r = (x, c, y))"
        by (intro iffI; elim bexE disjE conjE; simp only: simp_thms; blast)
    qed
  qed (simp_all only: eq r assms insert_absorb [OF True])
next
  case False
  then have eq: "upsert_row conf cid ch a rows = rows @ [\<lparr>cm_cluster = cid, cm_chain = ch, cm_address = a, cm_kind = ''soft'',
      cm_confidence = conf, cm_revoked_at = None\<rparr>]"
    by (simp add: upsert_row_def)
  show "keyed (upsert_row conf cid ch a rows) \<and>
      member_key ` set (upsert_row conf cid ch a rows) = insert (cid, ch, a) (member_key ` set rows) \<and>
      (x \<in> home (upsert_row conf cid ch a rows) c y \<longleftrightarrow> (x, c, y) = (cid, ch, a) \<or> x \<in> home rows c y)"
    using False assms unfolding eq in_home keyed_def by (auto simp: member_key_def)
qed

lemma revoke_facts:
  "keyed (revoke_cluster now s ch rows) = keyed rows" "member_key ` set (revoke_cluster now s ch rows) = member_key ` set rows"
  "x \<in> home (revoke_cluster now s ch rows) c a \<longleftrightarrow> x \<in> home rows c a \<and> \<not> (x = s \<and> c = ch)"
proof -
  let ?f = "\<lambda>r. if cm_cluster r = s \<and> cm_chain r = ch \<and> cm_active r then r\<lparr>cm_revoked_at := Some now\<rparr> else r"
  have f: "member_key (?f r) = member_key r" "cm_active (?f r) \<longleftrightarrow> cm_active r \<and> \<not> (cm_cluster r = s \<and> cm_chain r = ch)" for r
    by (auto simp: member_key_def)
  note r = rewrite_rows [of ?f, OF f]
  show "keyed (revoke_cluster now s ch rows) = keyed rows" "member_key ` set (revoke_cluster now s ch rows) = member_key ` set rows"
    unfolding revoke_cluster_def by (rule r)+
  show "x \<in> home (revoke_cluster now s ch rows) c a \<longleftrightarrow> x \<in> home rows c a \<and> \<not> (x = s \<and> c = ch)"
    unfolding revoke_cluster_def r in_home by (auto simp: member_key_def)
qed

lemma active_addresses_home: "set (active_addresses s ch rows) = {a. s \<in> home rows ch a}"
  unfolding active_addresses_def home_def by auto

lemma active_clusters_home: "set (active_clusters ch ms rows) = (\<Union>a\<in>set ms. home rows ch a)"
  unfolding active_clusters_def home_def by auto

section \<open>Rebuilding merges\<close>

definition cluster_state ::
  "(int \<times> string \<times> string) set \<Rightarrow> edge_row list \<Rightarrow> int list \<Rightarrow> (string \<Rightarrow> string \<Rightarrow> int set) \<Rightarrow> cluster_db \<Rightarrow> bool" where
  "cluster_state K E C h db \<longleftrightarrow>
     keyed (cd_members db) \<and> home (cd_members db) = h \<and> K \<subseteq> member_key ` set (cd_members db) \<and>
     cd_edges db = E \<and> cd_clusters db = C"

lemma put_single: "single_home h \<Longrightarrow> single_home (put cid ch A h)"
  by (auto simp: single_home_def put_def)

lemma put_put: "put cid ch A (put cid ch B h) = put cid ch (A \<union> B) h"
  by (auto simp: put_def fun_eq_iff)

lemma upsert_home_put:
  assumes "keyed rows" "home rows ch a \<subseteq> {cid}"
  shows "home (upsert_row conf cid ch a rows) = put cid ch {a} (home rows)"
proof (intro ext set_eqI)
  fix c y x
  show "x \<in> home (upsert_row conf cid ch a rows) c y \<longleftrightarrow> x \<in> put cid ch {a} (home rows) c y"
    unfolding upsert_facts(3) [OF assms(1)] put_def using assms(2) by auto
qed

lemma upsert_spec:
  assumes "single_home h" "h ch a \<subseteq> {cid}"
  shows "tx_spec (cluster_state K E C h) (upsert_membership stored cid ch a) (\<lambda>_. cluster_state K E C (put cid ch {a} h))"
  unfolding upsert_membership_def
proof (rule tx_spec_bind [where R = "\<lambda>ok db. ok \<and> cluster_state K E C (put cid ch {a} h) db"])
  show "tx_spec (cluster_state K E C h)
      (tx_stmt (\<lambda>db. let rows = upsert_row (stored MEMBERSHIP_THRESHOLD) cid ch a (cd_members db)
        in (one_active rows, db\<lparr>cd_members := rows\<rparr>))) (\<lambda>ok db. ok \<and> cluster_state K E C (put cid ch {a} h) db)"
  proof (rule tx_spec_stmt)
    fix db
    assume st: "cluster_state K E C h db"
    let ?rows = "upsert_row (stored MEMBERSHIP_THRESHOLD) cid ch a (cd_members db)"
    have k: "keyed (cd_members db)" and h: "home (cd_members db) = h"
      using st by (simp_all add: cluster_state_def)
    have home: "home ?rows = put cid ch {a} h"
      using upsert_home_put [OF k] assms(2) h by simp
    then have "one_active ?rows"
      using one_active_iff [OF upsert_facts(1) [OF k]] put_single [OF assms(1)] by simp
    moreover have "cluster_state K E C (put cid ch {a} h) (db\<lparr>cd_members := ?rows\<rparr>)"
      using st home upsert_facts(1,2) [OF k] by (auto simp: cluster_state_def)
    ultimately show "fst (let rows = ?rows in (one_active rows, db\<lparr>cd_members := rows\<rparr>)) \<and>
        cluster_state K E C (put cid ch {a} h) (snd (let rows = ?rows in (one_active rows, db\<lparr>cd_members := rows\<rparr>)))"
      by (simp add: Let_def)
  qed
  show "tx_spec (\<lambda>db. ok \<and> cluster_state K E C (put cid ch {a} h) db)
      (if ok then tx_return () else tx_abort OneActiveViolation) (\<lambda>_. cluster_state K E C (put cid ch {a} h))" for ok
    by (cases ok) (auto simp: tx_spec_def tx_return_def)
qed

lemma upsert_all_spec:
  assumes "single_home h" "\<And>a. a \<in> set as \<Longrightarrow> h ch a \<subseteq> {cid}"
  shows "tx_spec (cluster_state K E C h) (upsert_all stored cid ch as) (\<lambda>_. cluster_state K E C (put cid ch (set as) h))"
  using assms
proof (induction "as" arbitrary: h)
  case Nil
  then show ?case
    by (simp add: tx_spec_return put_def)
next
  case (Cons a as)
  have "tx_spec (cluster_state K E C (put cid ch {a} h)) (upsert_all stored cid ch as)
      (\<lambda>_. cluster_state K E C (put cid ch (set as) (put cid ch {a} h)))"
    by (rule Cons.IH [OF put_single [OF Cons.prems(1)]]) (use Cons.prems(2) in \<open>auto simp: put_def\<close>)
  then show ?case
    using tx_spec_bind [OF upsert_spec [of h ch a cid]] Cons.prems by (simp add: put_put)
qed

lemma fold_superseded_spec:
  assumes "single_home h" "cid \<notin> set ss"
  shows "tx_spec (cluster_state K E C h) (fold_superseded stored now cid ch ss)
    (\<lambda>_. cluster_state K E C (put cid ch {a. h ch a \<inter> set ss \<noteq> {}} h))"
  using assms
proof (induction ss arbitrary: h)
  case Nil
  then show ?case
    by (simp add: tx_spec_return put_def)
next
  case (Cons s ss)
  let ?M = "{a. s \<in> h ch a}"
  let ?h1 = "\<lambda>c a. if c = ch then h c a - {s} else h c a"
  have sgl: "single_home ?h1"
    using Cons.prems(1) by (auto simp: single_home_def)
  have gone: "?h1 ch a = {}" if "a \<in> ?M" for a
    using Cons.prems(1) that unfolding single_home_def by fastforce
  have put1: "put cid ch ?M ?h1 = put cid ch ?M h"
    using Cons.prems(1) by (auto simp: put_def fun_eq_iff single_home_def)
  have put2: "put cid ch {a. put cid ch ?M h ch a \<inter> set ss \<noteq> {}} (put cid ch ?M h) =
      put cid ch {a. h ch a \<inter> set (s # ss) \<noteq> {}} h"
    using Cons.prems(2) by (auto simp: put_def fun_eq_iff)
  show ?case
    unfolding fold_superseded.simps
  proof (rule tx_spec_bind [where R = "\<lambda>moved db. set moved = ?M \<and> cluster_state K E C h db"], goal_cases)
    case 1
    show ?case
      by (rule tx_spec_stmt) (auto simp: cluster_state_def active_addresses_home)
  next
    case (2 moved)
    show ?case
    proof (rule tx_spec_bind [where R = "\<lambda>_ db. set moved = ?M \<and> cluster_state K E C ?h1 db"], goal_cases)
      case 1
      show ?case
      proof (rule tx_spec_stmt)
        fix db
        assume a: "set moved = ?M \<and> cluster_state K E C h db"
        have "home (revoke_cluster now s ch (cd_members db)) = ?h1"
          using a by (intro ext set_eqI) (auto simp: revoke_facts(3) cluster_state_def)
        then show "set moved = ?M \<and> cluster_state K E C ?h1 (snd ((), db\<lparr>cd_members := revoke_cluster now s ch (cd_members db)\<rparr>))"
          using a by (simp add: cluster_state_def revoke_facts(1,2))
      qed
    next
      case (2 u)
      show ?case
      proof (rule tx_spec_bind [where R = "\<lambda>_. cluster_state K E C (put cid ch ?M h)"], goal_cases)
        case 1
        show ?case
        proof (cases "set moved = ?M")
          case True
          then have "tx_spec (cluster_state K E C ?h1) (upsert_all stored cid ch moved)
              (\<lambda>_. cluster_state K E C (put cid ch (set moved) ?h1))"
            using gone by (intro upsert_all_spec [OF sgl]) auto
          then show ?thesis
            unfolding True put1 by simp
        qed (simp add: tx_spec_def)
      next
        case (2 u)
        show ?case
          using Cons.IH [OF put_single [OF Cons.prems(1), of cid ch ?M]] Cons.prems(2) unfolding put2 by simp
      qed
    qed
  qed
qed

text \<open>The cluster a rebuild chooses, and the addresses it gathers there.\<close>

definition canonical_cluster :: "int \<Rightarrow> int list \<Rightarrow> int" where
  "canonical_cluster fresh existing = (case existing of [] \<Rightarrow> fresh | cid # _ \<Rightarrow> cid)"

definition gathered :: "string \<Rightarrow> string list \<Rightarrow> int list \<Rightarrow> member_row list \<Rightarrow> string set" where
  "gathered ch members existing rows = set members \<union> {a. home rows ch a \<inter> set existing \<noteq> {}}"

lemma put_superseded:
  assumes "single_home h"
  shows "put cid ch A (put cid ch {a. h ch a \<inter> set (filter (\<lambda>i. i \<noteq> cid) X) \<noteq> {}} h) =
    put cid ch (A \<union> {a. h ch a \<inter> set X \<noteq> {}}) h"
proof -
  have "h ch a = {cid}" if i: "h ch a \<inter> set X \<noteq> {}" "h ch a \<inter> set (filter (\<lambda>i. i \<noteq> cid) X) = {}" for a
  proof -
    obtain x where x: "x \<in> h ch a" "x \<in> set X"
      using i(1) by blast
    then have "x = cid"
      using i(2) by auto
    then show ?thesis
      using assms x(1) unfolding single_home_def by blast
  qed
  moreover have "h ch a \<inter> set X \<noteq> {}" if "h ch a \<inter> set (filter (\<lambda>i. i \<noteq> cid) X) \<noteq> {}" for a
    using that by auto
  ultimately show ?thesis
    unfolding put_put unfolding put_def fun_eq_iff
    by (intro allI) (smt (verit, best) Un_iff mem_Collect_eq)
qed

lemma rebuild_tx_spec:
  assumes single: "single_home h" and X: "\<And>db. cluster_state K E C h db \<Longrightarrow> active_clusters ch ms (cd_members db) = X"
    and XM: "\<And>a. a \<in> set ms \<Longrightarrow> h ch a \<subseteq> set X"
    and cid_def: "cid = canonical_cluster fresh X"
  shows "tx_spec (cluster_state K E C h) (rebuild_tx stored now fresh ch ms)
    (\<lambda>r db. r = cid \<and> cluster_state K E (if X = [] then fresh # C else C)
       (put cid ch (set ms \<union> {a. h ch a \<inter> set X \<noteq> {}}) h) db)"
  unfolding rebuild_tx_def
proof (rule tx_spec_bind [where R = "\<lambda>x db. x = X \<and> cluster_state K E C h db"], goal_cases)
  case 1
  show ?case
    by (rule tx_spec_stmt) (simp add: X)
next
  case (2 x)
  let ?C = "if X = [] then fresh # C else C"
  let ?h1 = "put cid ch {a. h ch a \<inter> set (filter (\<lambda>i. i \<noteq> cid) X) \<noteq> {}} h"
  show ?case
  proof (cases "x = X")
    case True
    show ?thesis
      unfolding True
    proof (rule tx_spec_bind [where R = "\<lambda>r db. r = cid \<and> cluster_state K E ?C h db"], goal_cases)
      case 1
      show ?case
        by (cases X) (auto simp: cid_def canonical_cluster_def cluster_state_def intro!: tx_spec_return tx_spec_stmt)
    next
      case (2 r)
      show ?case
      proof (cases "r = cid")
        case True
        have sub: "?h1 ch a \<subseteq> {cid}" if "a \<in> set ms" for a
          using XM [OF that] by (auto simp: put_def)
        have eq: "put cid ch (set ms) ?h1 = put cid ch (set ms \<union> {a. h ch a \<inter> set X \<noteq> {}}) h"
          by (rule put_superseded [OF single])
        have "tx_spec (cluster_state K E ?C ?h1) (upsert_all stored cid ch ms)
            (\<lambda>_. cluster_state K E ?C (put cid ch (set ms) ?h1))"
          by (rule upsert_all_spec [OF put_single [OF single] sub])
        then have "tx_spec (cluster_state K E ?C ?h1) (tx_bind (upsert_all stored cid ch ms) (\<lambda>_. tx_return cid))
            (\<lambda>r db. r = cid \<and> cluster_state K E ?C (put cid ch (set ms \<union> {a. h ch a \<inter> set X \<noteq> {}}) h) db)"
          unfolding eq by (rule tx_spec_bind) (simp add: tx_spec_return)
        moreover have "tx_spec (\<lambda>db. cid = cid \<and> cluster_state K E ?C h db)
            (fold_superseded stored now cid ch (filter (\<lambda>i. i \<noteq> cid) X)) (\<lambda>_. cluster_state K E ?C ?h1)"
          using fold_superseded_spec [OF single, of cid "filter (\<lambda>i. i \<noteq> cid) X"] by simp
        ultimately show ?thesis
          unfolding True by (rule tx_spec_bind [rotated])
      qed (simp add: tx_spec_def)
    qed
  qed (simp add: tx_spec_def)
qed

lemma active_clusters_by_home: "active_clusters ch ms rows = sorted_list_of_set (\<Union>a\<in>set ms. home rows ch a)"
  unfolding active_clusters_def sorted_list_of_set_sort_remdups [symmetric]
  by (rule arg_cong [of _ _ sorted_list_of_set]) (auto simp: home_def)

lemma member_home_active:
  "a \<in> set ms \<Longrightarrow> home rows ch a \<subseteq> set (active_clusters ch ms rows)"
  unfolding active_clusters_home by blast

text \<open>What a successful rebuild leaves behind.\<close>

definition merged ::
  "int \<Rightarrow> string \<Rightarrow> string list \<Rightarrow> int list \<Rightarrow> cluster_db \<Rightarrow> cluster_db \<Rightarrow> bool" where
  "merged fresh ch ms X db db' \<longleftrightarrow>
     keyed (cd_members db') \<and> one_active (cd_members db') \<and>
     home (cd_members db') = put (canonical_cluster fresh X) ch (gathered ch ms X (cd_members db)) (home (cd_members db)) \<and>
     member_key ` set (cd_members db) \<subseteq> member_key ` set (cd_members db') \<and> cd_edges db' = cd_edges db \<and>
     cd_clusters db' = (if X = [] then fresh # cd_clusters db else cd_clusters db)"

lemma rebuild_run:
  assumes k: "keyed (cd_members db)" and o: "one_active (cd_members db)"
    and rows: "strong_edges stored (chain_kind_as_str chain) address (cd_edges db) \<noteq> []"
  defines "ms \<equiv> component_members address (strong_edges stored (chain_kind_as_str chain) address (cd_edges db))"
  defines "X \<equiv> active_clusters (chain_kind_as_str chain) ms (cd_members db)"
  shows "(\<exists>db'. rebuild_cluster_for stored now fresh False fault chain address db = (Inr (Some (canonical_cluster fresh X)), db') \<and>
            merged fresh (chain_kind_as_str chain) ms X db db') \<or>
         (rebuild_cluster_for stored now fresh False fault chain address db = (Inl TxFault, db) \<and> (\<exists>n. fault n))"
proof -
  let ?ch = "chain_kind_as_str chain"
  let ?h = "home (cd_members db)"
  let ?S = "cluster_state (member_key ` set (cd_members db)) (cd_edges db)"
  let ?h' = "put (canonical_cluster fresh X) ?ch (set ms \<union> {a. ?h ?ch a \<inter> set X \<noteq> {}}) ?h"
  have single: "single_home ?h"
    using one_active_iff [OF k] o by simp
  have "tx_spec (?S (cd_clusters db) ?h) (rebuild_tx stored now fresh ?ch ms)
      (\<lambda>r db'. r = canonical_cluster fresh X \<and> ?S (if X = [] then fresh # cd_clusters db else cd_clusters db) ?h' db')"
  proof (rule rebuild_tx_spec [OF single])
    show "active_clusters ?ch ms (cd_members db1) = X" if "?S (cd_clusters db) ?h db1" for db1
      using that by (simp add: X_def active_clusters_by_home cluster_state_def)
    show "?h ?ch a \<subseteq> set X" if "a \<in> set ms" for a
      unfolding X_def by (rule member_home_active [OF that])
  qed simp
  moreover have "?S (cd_clusters db) ?h db"
    using k by (simp add: cluster_state_def)
  ultimately have run: "(\<exists>r db'. run_tx (rebuild_tx stored now fresh ?ch ms) fault db = (Inr r, db') \<and> r = canonical_cluster fresh X \<and>
        ?S (if X = [] then fresh # cd_clusters db else cd_clusters db) ?h' db') \<or>
      (run_tx (rebuild_tx stored now fresh ?ch ms) fault db = (Inl TxFault, db) \<and> (\<exists>n. fault n))"
    by (rule run_tx_spec)
  have mg: "merged fresh ?ch ms X db db'" if "?S (if X = [] then fresh # cd_clusters db else cd_clusters db) ?h' db'" for db'
    using that put_single [OF single] one_active_iff [of "cd_members db'"]
    by (auto simp: merged_def cluster_state_def gathered_def)
  show ?thesis
    using run rows mg by (auto simp: rebuild_cluster_for_def Let_def ms_def)
qed

lemma merged_again:
  assumes m: "merged fresh ch ms X db db'" and ms: "ms \<noteq> []"
  shows "active_clusters ch ms (cd_members db') = [canonical_cluster fresh X]"
    and "merged fresh' ch ms (active_clusters ch ms (cd_members db')) db' db'' \<Longrightarrow>
      home (cd_members db'') = home (cd_members db')"
proof -
  have h: "home (cd_members db') ch a = {canonical_cluster fresh X}" if "a \<in> set ms" for a
    using m that by (simp add: merged_def put_def gathered_def)
  then have "(\<Union>a\<in>set ms. home (cd_members db') ch a) = {canonical_cluster fresh X}"
    using ms by auto
  then show X: "active_clusters ch ms (cd_members db') = [canonical_cluster fresh X]"
    by (simp add: active_clusters_by_home)
  have single: "single_home (home (cd_members db'))"
    using m one_active_iff [of "cd_members db'"] unfolding merged_def by blast
  have "home (cd_members db') ch a = {canonical_cluster fresh X}" if "canonical_cluster fresh X \<in> home (cd_members db') ch a" for a
    using single that unfolding single_home_def by blast
  then show "home (cd_members db'') = home (cd_members db')"
    if "merged fresh' ch ms (active_clusters ch ms (cd_members db')) db' db''"
    using that h unfolding X
    by (auto simp: merged_def put_def gathered_def canonical_cluster_def fun_eq_iff)
qed

lemma one_cluster_per_wallet:
  assumes "keyed rows" "one_active rows" "finite W"
  shows "card (\<Union>a\<in>W. home rows ch a) \<le> card W"
proof -
  have single: "single_home (home rows)"
    using one_active_iff [OF assms(1)] assms(2) by simp
  have "card (home rows ch a) \<le> 1" "finite (home rows ch a)" for a
  proof -
    have "home rows ch a = {} \<or> (\<exists>x. home rows ch a = {x})"
      using single unfolding single_home_def by blast
    then show "card (home rows ch a) \<le> 1" "finite (home rows ch a)"
      by auto
  qed
  then have "card (\<Union>a\<in>W. home rows ch a) \<le> (\<Sum>a\<in>W. 1)"
    using card_UN_le [OF assms(3), of "home rows ch"] sum_mono [of W "\<lambda>a. card (home rows ch a)" "\<lambda>_. 1"]
    by (meson le_trans)
  then show ?thesis
    by simp
qed

text \<open>C13: Rebuilding the cluster of a wallet merges and never double-counts. From tables that respect both unique
  indexes, whatever statements fail: a wallet without a strong edge changes nothing; otherwise either a statement failed
  and the tables are untouched, or the call returns the smallest cluster in which a neighbour was active (a new one when there
  is none), every neighbour and every active member of a cluster they were active in is active in exactly that cluster,
  everyone else stays where he was, no membership row and no edge is deleted, and both indexes hold; the unique index on
  active memberships is never violated. A second rebuild returns the same cluster and moves nobody. With the index, any set of
  wallets counts at most as many distinct clusters as it has members.\<close>

theorem rebuild_merges_onto_one_cluster:
  assumes "keyed (cd_members db)" "one_active (cd_members db)"
  shows "(let ch = chain_kind_as_str chain;
              rows = strong_edges stored ch address (cd_edges db);
              ms = component_members address rows;
              X = active_clusters ch ms (cd_members db);
              rebuild = rebuild_cluster_for stored now fresh False fault chain address db
          in if rows = [] then rebuild = (Inr None, db)
             else (rebuild = (Inl TxFault, db) \<and> (\<exists>n. fault n)) \<or>
               (\<exists>db'. rebuild = (Inr (Some (canonical_cluster fresh X)), db') \<and> merged fresh ch ms X db db' \<and>
                  (\<exists>db''. rebuild_cluster_for stored now' fresh' False (\<lambda>_. False) chain address db' =
                      (Inr (Some (canonical_cluster fresh X)), db'') \<and> home (cd_members db'') = home (cd_members db')))) \<and>
         (\<forall>W c. finite W \<longrightarrow> card (\<Union>a\<in>W. home (cd_members db) c a) \<le> card W)"
proof (intro conjI allI impI)
  let ?ch = "chain_kind_as_str chain"
  let ?rows = "strong_edges stored ?ch address (cd_edges db)"
  let ?ms = "component_members address ?rows"
  let ?X = "active_clusters ?ch ?ms (cd_members db)"
  have again: "\<exists>db''. rebuild_cluster_for stored now' fresh' False (\<lambda>_. False) chain address db' =
      (Inr (Some (canonical_cluster fresh ?X)), db'') \<and> home (cd_members db'') = home (cd_members db')"
    if m: "merged fresh ?ch ?ms ?X db db'" and ne: "?rows \<noteq> []" for db'
  proof -
    have e: "cd_edges db' = cd_edges db" and k: "keyed (cd_members db')" "one_active (cd_members db')"
      using m by (simp_all add: merged_def)
    have ms: "?ms \<noteq> []"
    proof -
      have "address \<in> set ?ms"
        by (simp add: component_members_def)
      then show ?thesis
        by force
    qed
    have X: "active_clusters ?ch ?ms (cd_members db') = [canonical_cluster fresh ?X]"
      by (rule merged_again(1) [OF m ms])
    show ?thesis
      using rebuild_run [OF k, of stored chain address now' fresh' "\<lambda>_. False"] ne merged_again(2) [OF m ms]
      unfolding e X by (auto simp: canonical_cluster_def)
  qed
  show "let ch = ?ch; rows = strong_edges stored ch address (cd_edges db); ms = component_members address rows;
            X = active_clusters ch ms (cd_members db); rebuild = rebuild_cluster_for stored now fresh False fault chain address db
        in if rows = [] then rebuild = (Inr None, db)
           else (rebuild = (Inl TxFault, db) \<and> (\<exists>n. fault n)) \<or>
             (\<exists>db'. rebuild = (Inr (Some (canonical_cluster fresh X)), db') \<and> merged fresh ch ms X db db' \<and>
                (\<exists>db''. rebuild_cluster_for stored now' fresh' False (\<lambda>_. False) chain address db' =
                    (Inr (Some (canonical_cluster fresh X)), db'') \<and> home (cd_members db'') = home (cd_members db')))"
  proof (cases "?rows = []")
    case True
    then show ?thesis
      by (simp add: rebuild_cluster_for_def)
  next
    case False
    then show ?thesis
      using rebuild_run [OF assms False, of now fresh fault] again unfolding Let_def by auto
  qed
qed (rule one_cluster_per_wallet [OF assms])

definition sample_member :: "int \<Rightarrow> string \<Rightarrow> member_row" where
  "sample_member cid a = \<lparr>cm_cluster = cid, cm_chain = ''solana'', cm_address = a, cm_kind = ''soft'', cm_confidence = 7/10,
     cm_revoked_at = None\<rparr>"

definition sample_clusters :: cluster_db where
  "sample_clusters =
     \<lparr>cd_edges = [\<lparr>fe_chain = ''solana'', fe_from = ''a'', fe_to = ''b'', fe_signature = ''s'', fe_kind = ''evidence'',
         fe_raw_amount = ''0'', fe_block_time = None, fe_confidence = 3/4, fe_evidence = JNull, fe_promoted = True\<rparr>],
      cd_clusters = [2, 1], cd_members = [sample_member 2 ''a'', sample_member 1 ''b'', sample_member 2 ''c'']\<rparr>"

lemma sample_rebuild:
  "map_prod id (\<lambda>db. map (\<lambda>r. (cm_cluster r, cm_address r, cm_revoked_at r)) (cd_members db))
     (rebuild_cluster_for (\<lambda>_. 7/10) 9 3 False (\<lambda>_. False) KindSolana ''a'' sample_clusters) =
   (Inr (Some 1), [(2, ''a'', Some 9), (1, ''b'', None), (2, ''c'', Some 9), (1, ''a'', None), (1, ''c'', None)])"
  by code_simp

theorem rebuild_merges_onto_one_cluster_witness:
  "fst (rebuild_cluster_for (\<lambda>_. 7/10) 9 3 False (\<lambda>_. False) KindSolana ''a'' sample_clusters) = Inr (Some 1) \<and>
   card (\<Union>a\<in>{''a'', ''b''}. home (cd_members sample_clusters) ''solana'' a) \<le> 2"
proof -
  have "keyed (cd_members sample_clusters)" "one_active (cd_members sample_clusters)"
    by code_simp+
  then have "card (\<Union>a\<in>{''a'', ''b''}. home (cd_members sample_clusters) ''solana'' a) \<le> card {''a'', ''b''}"
    using rebuild_merges_onto_one_cluster [of sample_clusters] by (metis finite.emptyI finite.insertI)
  moreover have "fst (rebuild_cluster_for (\<lambda>_. 7/10) 9 3 False (\<lambda>_. False) KindSolana ''a'' sample_clusters) = Inr (Some 1)"
    by code_simp
  ultimately show ?thesis
    by simp
qed

section \<open>Evidence\<close>

lemma weight_values:
  "WEIGHT_FUNDING = Fin (3152519739159347/9007199254740992)"
  "WEIGHT_TOKEN_ACCOUNT = Fin (1/4)"
  "WEIGHT_REPEATED_FUNDING = Fin (5404319552844595/36028797018963968)"
  "WEIGHT_CLOSE_TIME_ACTIVITY = Fin (5404319552844595/36028797018963968)"
  "WEIGHT_TRADE_STYLE = Fin (3602879701896397/36028797018963968)"
  "MEMBERSHIP_THRESHOLD = Fin (3152519739159347/4503599627370496)"
proof -
  show "WEIGHT_FUNDING = Fin (3152519739159347/9007199254740992)"
    unfolding WEIGHT_FUNDING_def f64_lit_def by (subst rnd_nearest [where j = 2 and n = 6305039478318694]) simp_all
  show "WEIGHT_TOKEN_ACCOUNT = Fin (1/4)"
    unfolding WEIGHT_TOKEN_ACCOUNT_def f64_lit_def by (subst rnd_nearest [where j = 2 and n = 4503599627370496]) simp_all
  show "WEIGHT_REPEATED_FUNDING = Fin (5404319552844595/36028797018963968)"
    unfolding WEIGHT_REPEATED_FUNDING_def f64_lit_def by (subst rnd_nearest [where j = 3 and n = 5404319552844595]) simp_all
  show "WEIGHT_CLOSE_TIME_ACTIVITY = Fin (5404319552844595/36028797018963968)"
    unfolding WEIGHT_CLOSE_TIME_ACTIVITY_def f64_lit_def by (subst rnd_nearest [where j = 3 and n = 5404319552844595]) simp_all
  show "WEIGHT_TRADE_STYLE = Fin (3602879701896397/36028797018963968)"
    unfolding WEIGHT_TRADE_STYLE_def f64_lit_def by (subst rnd_nearest [where j = 4 and n = 7205759403792794]) simp_all
  show "MEMBERSHIP_THRESHOLD = Fin (3152519739159347/4503599627370496)"
    unfolding MEMBERSHIP_THRESHOLD_def f64_lit_def by (subst rnd_nearest [where j = 1 and n = 6305039478318694]) simp_all
qed

lemma weight_sums:
  "f64_add (Fin (0)) (Fin (3602879701896397/36028797018963968)) = Fin (3602879701896397/36028797018963968)"
  "f64_add (Fin (0)) (Fin (5404319552844595/36028797018963968)) = Fin (5404319552844595/36028797018963968)"
  "f64_add (Fin (0)) (Fin (1/4)) = Fin (1/4)"
  "f64_add (Fin (0)) (Fin (3152519739159347/9007199254740992)) = Fin (3152519739159347/9007199254740992)"
  "f64_add (Fin (5404319552844595/36028797018963968)) (Fin (3602879701896397/36028797018963968)) = Fin (1/4)"
  "f64_add (Fin (5404319552844595/36028797018963968)) (Fin (5404319552844595/36028797018963968)) = Fin (5404319552844595/18014398509481984)"
  "f64_add (Fin (1/4)) (Fin (3602879701896397/36028797018963968)) = Fin (3152519739159347/9007199254740992)"
  "f64_add (Fin (1/4)) (Fin (5404319552844595/36028797018963968)) = Fin (3602879701896397/9007199254740992)"
  "f64_add (Fin (5404319552844595/18014398509481984)) (Fin (3602879701896397/36028797018963968)) = Fin (3602879701896397/9007199254740992)"
  "f64_add (Fin (3152519739159347/9007199254740992)) (Fin (3602879701896397/36028797018963968)) = Fin (2026619832316723/4503599627370496)"
  "f64_add (Fin (3152519739159347/9007199254740992)) (Fin (5404319552844595/36028797018963968)) = Fin (1/2)"
  "f64_add (Fin (3152519739159347/9007199254740992)) (Fin (1/4)) = Fin (5404319552844595/9007199254740992)"
  "f64_add (Fin (3602879701896397/9007199254740992)) (Fin (3602879701896397/36028797018963968)) = Fin (1/2)"
  "f64_add (Fin (3602879701896397/9007199254740992)) (Fin (5404319552844595/36028797018963968)) = Fin (2476979795053773/4503599627370496)"
  "f64_add (Fin (1/2)) (Fin (3602879701896397/36028797018963968)) = Fin (5404319552844595/9007199254740992)"
  "f64_add (Fin (1/2)) (Fin (5404319552844595/36028797018963968)) = Fin (5854679515581645/9007199254740992)"
  "f64_add (Fin (2476979795053773/4503599627370496)) (Fin (3602879701896397/36028797018963968)) = Fin (5854679515581645/9007199254740992)"
  "f64_add (Fin (5404319552844595/9007199254740992)) (Fin (3602879701896397/36028797018963968)) = Fin (3152519739159347/4503599627370496)"
  "f64_add (Fin (5404319552844595/9007199254740992)) (Fin (5404319552844595/36028797018963968)) = Fin (3/4)"
  "f64_add (Fin (5854679515581645/9007199254740992)) (Fin (3602879701896397/36028797018963968)) = Fin (3/4)"
  "f64_add (Fin (3/4)) (Fin (3602879701896397/36028797018963968)) = Fin (7656119366529843/9007199254740992)"
  "f64_add (Fin (3/4)) (Fin (5404319552844595/36028797018963968)) = Fin (8106479329266893/9007199254740992)"
  "f64_add (Fin (8106479329266893/9007199254740992)) (Fin (3602879701896397/36028797018963968)) = Fin (1)"
proof -
  show "f64_add (Fin (0)) (Fin (3602879701896397/36028797018963968)) = Fin (3602879701896397/36028797018963968)"
    unfolding f64_add.simps by (subst rnd_nearest [where j = 4 and n = 7205759403792794]) simp_all
  show "f64_add (Fin (0)) (Fin (5404319552844595/36028797018963968)) = Fin (5404319552844595/36028797018963968)"
    unfolding f64_add.simps by (subst rnd_nearest [where j = 3 and n = 5404319552844595]) simp_all
  show "f64_add (Fin (0)) (Fin (1/4)) = Fin (1/4)"
    unfolding f64_add.simps by (subst rnd_nearest [where j = 2 and n = 4503599627370496]) simp_all
  show "f64_add (Fin (0)) (Fin (3152519739159347/9007199254740992)) = Fin (3152519739159347/9007199254740992)"
    unfolding f64_add.simps by (subst rnd_nearest [where j = 2 and n = 6305039478318694]) simp_all
  show "f64_add (Fin (5404319552844595/36028797018963968)) (Fin (3602879701896397/36028797018963968)) = Fin (1/4)"
    unfolding f64_add.simps by (subst rnd_nearest [where j = 2 and n = 4503599627370496]) simp_all
  show "f64_add (Fin (5404319552844595/36028797018963968)) (Fin (5404319552844595/36028797018963968)) = Fin (5404319552844595/18014398509481984)"
    unfolding f64_add.simps by (subst rnd_nearest [where j = 2 and n = 5404319552844595]) simp_all
  show "f64_add (Fin (1/4)) (Fin (3602879701896397/36028797018963968)) = Fin (3152519739159347/9007199254740992)"
    unfolding f64_add.simps by (subst rnd_nearest [where j = 2 and n = 6305039478318694]) simp_all
  show "f64_add (Fin (1/4)) (Fin (5404319552844595/36028797018963968)) = Fin (3602879701896397/9007199254740992)"
    unfolding f64_add.simps by (subst rnd_nearest [where j = 2 and n = 7205759403792794]) simp_all
  show "f64_add (Fin (5404319552844595/18014398509481984)) (Fin (3602879701896397/36028797018963968)) = Fin (3602879701896397/9007199254740992)"
    unfolding f64_add.simps by (subst rnd_nearest [where j = 2 and n = 7205759403792794]) simp_all
  show "f64_add (Fin (3152519739159347/9007199254740992)) (Fin (3602879701896397/36028797018963968)) = Fin (2026619832316723/4503599627370496)"
    unfolding f64_add.simps by (subst rnd_nearest [where j = 2 and n = 8106479329266892]) simp_all
  show "f64_add (Fin (3152519739159347/9007199254740992)) (Fin (5404319552844595/36028797018963968)) = Fin (1/2)"
    unfolding f64_add.simps by (subst rnd_nearest [where j = 2 and n = 9007199254740992]) simp_all
  show "f64_add (Fin (3152519739159347/9007199254740992)) (Fin (1/4)) = Fin (5404319552844595/9007199254740992)"
    unfolding f64_add.simps by (subst rnd_nearest [where j = 1 and n = 5404319552844595]) simp_all
  show "f64_add (Fin (3602879701896397/9007199254740992)) (Fin (3602879701896397/36028797018963968)) = Fin (1/2)"
    unfolding f64_add.simps by (subst rnd_nearest [where j = 1 and n = 4503599627370496]) simp_all
  show "f64_add (Fin (3602879701896397/9007199254740992)) (Fin (5404319552844595/36028797018963968)) = Fin (2476979795053773/4503599627370496)"
    unfolding f64_add.simps by (subst rnd_nearest [where j = 1 and n = 4953959590107546]) simp_all
  show "f64_add (Fin (1/2)) (Fin (3602879701896397/36028797018963968)) = Fin (5404319552844595/9007199254740992)"
    unfolding f64_add.simps by (subst rnd_nearest [where j = 1 and n = 5404319552844595]) simp_all
  show "f64_add (Fin (1/2)) (Fin (5404319552844595/36028797018963968)) = Fin (5854679515581645/9007199254740992)"
    unfolding f64_add.simps by (subst rnd_nearest [where j = 1 and n = 5854679515581645]) simp_all
  show "f64_add (Fin (2476979795053773/4503599627370496)) (Fin (3602879701896397/36028797018963968)) = Fin (5854679515581645/9007199254740992)"
    unfolding f64_add.simps by (subst rnd_nearest [where j = 1 and n = 5854679515581645]) simp_all
  show "f64_add (Fin (5404319552844595/9007199254740992)) (Fin (3602879701896397/36028797018963968)) = Fin (3152519739159347/4503599627370496)"
    unfolding f64_add.simps by (subst rnd_nearest [where j = 1 and n = 6305039478318694]) simp_all
  show "f64_add (Fin (5404319552844595/9007199254740992)) (Fin (5404319552844595/36028797018963968)) = Fin (3/4)"
    unfolding f64_add.simps by (subst rnd_nearest [where j = 1 and n = 6755399441055744]) simp_all
  show "f64_add (Fin (5854679515581645/9007199254740992)) (Fin (3602879701896397/36028797018963968)) = Fin (3/4)"
    unfolding f64_add.simps by (subst rnd_nearest [where j = 1 and n = 6755399441055744]) simp_all
  show "f64_add (Fin (3/4)) (Fin (3602879701896397/36028797018963968)) = Fin (7656119366529843/9007199254740992)"
    unfolding f64_add.simps by (subst rnd_nearest [where j = 1 and n = 7656119366529843]) simp_all
  show "f64_add (Fin (3/4)) (Fin (5404319552844595/36028797018963968)) = Fin (8106479329266893/9007199254740992)"
    unfolding f64_add.simps by (subst rnd_nearest [where j = 1 and n = 8106479329266893]) simp_all
  show "f64_add (Fin (8106479329266893/9007199254740992)) (Fin (3602879701896397/36028797018963968)) = Fin (1)"
    unfolding f64_add.simps by (subst rnd_nearest [where j = 0 and n = 4503599627370496]) simp_all
qed

lemma confidence_table:
  "case edge_confidence c of Fin v \<Rightarrow> 0 \<le> v \<and> v \<le> 1 \<and> (v = 3152519739159347/4503599627370496 \<or> \<bar>v - 3152519739159347/4503599627370496\<bar> > 1/100) \<and>
     (3152519739159347/4503599627370496 \<le> v \<longleftrightarrow> ec_funding c \<and>
       (ec_token_account_creation c \<and> (ec_repeated_funding c \<or> ec_close_time_same_token c \<or> ec_trade_style_match c) \<or>
        ec_repeated_funding c \<and> ec_close_time_same_token c \<and> ec_trade_style_match c)) | _ \<Rightarrow> False"
  unfolding edge_confidence_def
  by (cases "ec_funding c"; cases "ec_token_account_creation c"; cases "ec_repeated_funding c";
      cases "ec_close_time_same_token c"; cases "ec_trade_style_match c")
    (simp_all add: weight_values weight_sums f64_min_def Let_def del: f64_add.simps)

lemma transfer_confidence:
  "fe_confidence e = stored WEIGHT_FUNDING" if "e \<in> set (fold (update_funding_edges stored) ts [])"
proof -
  have one: "score_edge_confidence \<lparr>ec_funding = True, ec_token_account_creation = False, ec_repeated_funding = False,
      ec_close_time_same_token = False, ec_trade_style_match = False\<rparr> = WEIGHT_FUNDING"
    by (simp add: score_edge_confidence_def edge_confidence_def weight_values weight_sums f64_min_def del: f64_add.simps)
  have "\<forall>e\<in>set (fold (update_funding_edges stored) ts []). fe_confidence e = stored WEIGHT_FUNDING"
    by (rule fold_invariant [where Q = "\<lambda>_. True"]) (auto simp: update_funding_edges_def insert_edge_def one Let_def split: if_splits)
  then show ?thesis
    using that by blast
qed


definition exact_column :: "f64 \<Rightarrow> rat" where
  "exact_column x = (case x of Fin v \<Rightarrow> of_int \<lfloor>v * 10000 + 1 / 2\<rfloor> / 10000 | _ \<Rightarrow> 0)"


section \<open>Tracing and wash detection\<close>

text \<open>A trace never leaves the direct neighbours, whatever the depth, and depth 0 shows nothing unless the wallet is an endpoint.\<close>

lemma trace_is_one_hop:
  assumes "trace_wallet now labels edges workspace chain address depth = Inr steps" "s \<in> set steps"
  shows "\<exists>e\<in>set edges. fe_chain e = chain_kind_as_str chain \<and> ts_via_signature s = fe_signature e \<and>
    (fe_from e = address \<and> ts_address s = fe_to e \<or> fe_to e = address \<and> ts_address s = fe_from e) \<and>
    (ts_endpoint s \<or> 0 < depth)"
proof -
  have "\<exists>b n. steps = map (trace_step address b) (touching_edges (chain_kind_as_str chain) address n edges) \<and> (b \<or> n = depth * 10)"
    using assms(1) by (auto simp: trace_wallet_def Let_def split: sum.splits option.splits bool.splits)
  then obtain b n e where e: "e \<in> set (touching_edges (chain_kind_as_str chain) address n edges)" "s = trace_step address b e"
    "b \<or> n = depth * 10"
    using assms(2) by auto
  then have "n \<noteq> 0"
    by (cases n) (simp_all add: touching_edges_def)
  moreover have "e \<in> set edges" "fe_chain e = chain_kind_as_str chain" "fe_from e = address \<or> fe_to e = address"
    using e(1) by (auto simp: touching_edges_def dest!: in_set_takeD)
  ultimately show ?thesis
    using e(2,3) by (intro bexI [of _ e]) (auto simp: trace_step_def)
qed

text \<open>The wash join compares amounts exactly and ignores the mint: a payment in one token and an unrelated payment back
  in another of the same raw amount are reported as a cycle.\<close>

definition sample_transfer :: "string \<Rightarrow> string \<Rightarrow> string \<Rightarrow> string \<Rightarrow> string \<Rightarrow> int \<Rightarrow> unit NormalizedTransfer" where
  "sample_transfer sig f t mint amount tm =
     \<lparr>nt_chain = KindSolana, nt_signature = sig, nt_event_index = 0, nt_from_address = f, nt_to_address = t,
      nt_asset_kind = SplToken, nt_mint = mint, nt_raw_amount = amount, nt_amount = (), nt_slot = None,
      nt_block_time = Some tm, nt_observed_at = tm, nt_source = ''helius'', nt_commitment = CommitConfirmed\<rparr>"

lemma wash_ignores_mint:
  "detect_wash_candidates [sample_transfer ''s1'' ''a'' ''b'' ''TOKEN1'' ''5'' 10, sample_transfer ''s2'' ''b'' ''a'' ''TOKEN2'' ''5'' 20]
     KindSolana 30 = [(''a'', ''b'', ''s1+s2'')] \<and>
   detect_wash_candidates [sample_transfer ''s1'' ''a'' ''b'' ''TOKEN1'' ''1000'' 10, sample_transfer ''s2'' ''b'' ''a'' ''TOKEN1'' ''1001'' 20]
     KindSolana 30 = []"
  by (rule conjI; code_simp)

end
