(* ===== verification/Radar.thy ===== *)
theory Radar
  imports Events Decimals Transactions Policy
begin

text \<open>
  The funding radar: \<^verbatim>\<open>src/funding_radar.rs\<close> over the tables \<^verbatim>\<open>funding_observations\<close>, \<^verbatim>\<open>wallets\<close>,
  \<^verbatim>\<open>funding_radar_cases\<close> (unique on workspace, chain, recipient) and \<^verbatim>\<open>funding_radar_events\<close>. Its statements
  commit one by one. Columns that hold a printed enumeration are kept as the value they print, which they
  read back as (\<open>stored_names_read_back\<close>). \<open>order\<close> is the iteration order of a hash set, \<open>dec_json\<close> the JSON form of a
  decimal, \<open>clock\<close> the time of the database.
\<close>

record FundingRadarConfig =
  fc_large_funding_min_sol :: nat
  fc_large_funding_min_usd :: nat
  fc_percentile_floor_sol :: nat
  fc_percentile :: f64
  fc_recipient_max_age_days :: nat
  fc_preparation_window_days :: nat
  fc_fanout_threshold :: nat
  fc_preparation_evidence_required :: nat
  fc_preparation_alert_confidence :: nat

definition default_radar_config :: FundingRadarConfig where
  "default_radar_config =
     \<lparr>fc_large_funding_min_sol = 100, fc_large_funding_min_usd = 10000, fc_percentile_floor_sol = 10,
      fc_percentile = f64_lit (99 / 100), fc_recipient_max_age_days = 7, fc_preparation_window_days = 7,
      fc_fanout_threshold = 3, fc_preparation_evidence_required = 2, fc_preparation_alert_confidence = 70\<rparr>"

section \<open>Tables\<close>

record 'd case_row =
  cs_workspace :: int
  cs_case :: "'d FundingRadarCase"
  cs_dismissed_reason :: "string option"

record radar_event =
  ev_case :: int
  ev_kind :: string
  ev_observed_at :: int
  ev_evidence :: json

record 'd radar_db =
  rb_observations :: "'d FundingEvent list"
  rb_wallets :: "string \<times> string \<Rightarrow> wallet_row option"
  rb_cases :: "'d case_row list"
  rb_events :: "radar_event list"

datatype radar_error = CaseExists | NoSuchWallet | NoSuchCase

type_synonym ('d, 'a) radar = "('d radar_db, radar_error, 'a) db"

definition observation_key :: "'d FundingEvent \<Rightarrow> string \<times> string \<times> string \<times> string \<times> string \<times> string" where
  "observation_key e =
     (chain_kind_as_str (fv_chain e), fv_signature e, fv_from_address e, fv_to_address e,
      asset_kind_as_str (fv_asset_kind e), fv_mint e)"

definition store_funding_observation :: "'d FundingEvent \<Rightarrow> ('d, bool) radar" where
  "store_funding_observation event = db_stmt (\<lambda>db.
     if observation_key event \<in> observation_key ` set (rb_observations db) then (False, db)
     else (True, db\<lparr>rb_observations := rb_observations db @ [event]\<rparr>))"

definition upsert_wallet :: "string \<Rightarrow> string \<Rightarrow> int \<Rightarrow> string \<Rightarrow> ('d, unit) radar" where
  "upsert_wallet chain address seen_at source = db_stmt (\<lambda>db.
     ((), db\<lparr>rb_wallets := (rb_wallets db)((chain, address) \<mapsto>
        (case rb_wallets db (chain, address) of
           None \<Rightarrow> \<lparr>wr_first_seen = seen_at, wr_last_seen = seen_at, wr_source = source\<rparr>
         | Some w \<Rightarrow> w\<lparr>wr_last_seen := max (wr_last_seen w) seen_at, wr_source := source\<rparr>))\<rparr>))"

section \<open>Thresholds\<close>

definition qualifies_as_large_funding ::
  "('d, 'x) decimal_num_scheme \<Rightarrow> 'd FundingEvent \<Rightarrow> FundingRadarConfig \<Rightarrow> 'd option \<Rightarrow> bool" where
  "qualifies_as_large_funding D event config percentile_threshold_sol =
     (let usd_ok = (case fv_amount_usd event of
                      Some usd \<Rightarrow> dec_le D (dec_of_int D (int (fc_large_funding_min_usd config))) usd
                    | None \<Rightarrow> False)
      in case fv_asset_kind event of
           NativeAsset \<Rightarrow>
             (let sol_amount = fv_native_amount event;
                  absolute_ok = (dec_le D (dec_of_int D (int (fc_large_funding_min_sol config))) sol_amount \<and> usd_ok);
                  percentile_ok = (case percentile_threshold_sol of
                      Some threshold \<Rightarrow> dec_le D threshold sol_amount \<and>
                        dec_le D (dec_of_int D (int (fc_percentile_floor_sol config))) sol_amount
                    | None \<Rightarrow> False)
              in absolute_ok \<or> percentile_ok)
         | _ \<Rightarrow> usd_ok)"

definition recipient_is_fresh :: "'d FundingEvent \<Rightarrow> FundingRadarConfig \<Rightarrow> bool" where
  "recipient_is_fresh event config =
     (case fv_recipient_age_seconds event of
        Some age \<Rightarrow> 0 \<le> age \<and> age \<le> int (fc_recipient_max_age_days config) * 86400
      | None \<Rightarrow> False)"

section \<open>Cases\<close>

definition case_of :: "int \<Rightarrow> ChainKind \<Rightarrow> string \<Rightarrow> 'd case_row \<Rightarrow> bool" where
  "case_of workspace chain recipient r \<longleftrightarrow>
     cs_workspace r = workspace \<and> rc_chain (cs_case r) = chain \<and> rc_recipient (cs_case r) = recipient"

definition fetch_case :: "int \<Rightarrow> ChainKind \<Rightarrow> string \<Rightarrow> ('d, 'd FundingRadarCase option) radar" where
  "fetch_case workspace chain recipient = db_stmt (\<lambda>db.
     (map_option cs_case (find (case_of workspace chain recipient) (rb_cases db)), db))"

definition record_case_event :: "int \<Rightarrow> string \<Rightarrow> int \<Rightarrow> json \<Rightarrow> ('d, unit) radar" where
  "record_case_event case_id event_kind observed_at evidence = db_try (\<lambda>db.
     if case_id \<in> (\<lambda>r. rc_id (cs_case r)) ` set (rb_cases db)
     then Inr ((), db\<lparr>rb_events := rb_events db @
       [\<lparr>ev_case = case_id, ev_kind = event_kind, ev_observed_at = observed_at, ev_evidence = evidence\<rparr>]\<rparr>)
     else Inl NoSuchCase)"

definition map_case ::
  "int \<Rightarrow> ('d case_row \<Rightarrow> 'd case_row) \<Rightarrow> 'd radar_db \<Rightarrow> 'd radar_db" where
  "map_case case_id f db = db\<lparr>rb_cases := map (\<lambda>r. if rc_id (cs_case r) = case_id then f r else r) (rb_cases db)\<rparr>"

definition update_case_fanout :: "int \<Rightarrow> int \<Rightarrow> nat \<Rightarrow> ('d, unit) radar" where
  "update_case_fanout clock case_id fanout = db_stmt (\<lambda>db.
     ((), map_case case_id (\<lambda>r. r\<lparr>cs_case := (cs_case r)\<lparr>rc_fanout_count := fanout, rc_updated_at := clock\<rparr>\<rparr>) db))"

definition count_fresh_children :: "ChainKind \<Rightarrow> string \<Rightarrow> FundingRadarConfig \<Rightarrow> ('d, nat) radar" where
  "count_fresh_children chain recipient config = db_stmt (\<lambda>db.
     (card (set (map fv_to_address (filter (\<lambda>o'. fv_chain o' = chain \<and> fv_from_address o' = recipient \<and>
        (case rb_wallets db (chain_kind_as_str chain, fv_to_address o') of
           None \<Rightarrow> False
         | Some w \<Rightarrow> fv_observed_at o' - wr_first_seen w \<le> int (fc_recipient_max_age_days config) * 86400))
        (rb_observations db)))), db))"

text \<open>The insert of a case: the wallet is a foreign key, and the tenant index allows one case per recipient. \<open>fresh\<close> is the id
  handed out.\<close>

definition insert_case :: "int \<Rightarrow> int \<Rightarrow> 'd FundingRadarCase \<Rightarrow> ('d, int) radar" where
  "insert_case workspace fresh c = db_try (\<lambda>db.
     if rb_wallets db (chain_kind_as_str (rc_chain c), rc_recipient c) = None then Inl NoSuchWallet
     else if list_ex (case_of workspace (rc_chain c) (rc_recipient c)) (rb_cases db) then Inl CaseExists
     else Inr (fresh, db\<lparr>rb_cases := rb_cases db @
       [\<lparr>cs_workspace = workspace, cs_case = c\<lparr>rc_id := fresh\<rparr>, cs_dismissed_reason = None\<rparr>]\<rparr>))"

definition opt_json :: "('a \<Rightarrow> json) \<Rightarrow> 'a option \<Rightarrow> json" where
  "opt_json f x = (case x of None \<Rightarrow> JNull | Some v \<Rightarrow> f v)"

definition funding_evidence :: "('d \<Rightarrow> json) \<Rightarrow> 'd FundingEvent \<Rightarrow> json" where
  "funding_evidence dec_json event =
     JObject [(''signature'', JString (fv_signature event)), (''from_address'', JString (fv_from_address event)),
       (''source_kind'', opt_json (\<lambda>k. JString (label_kind_as_str k)) (fv_source_kind event)),
       (''amount_usd'', opt_json dec_json (fv_amount_usd event)), (''infrastructure'', JBool (source_is_infrastructure event))]"

definition new_case :: "('d \<Rightarrow> json) \<Rightarrow> int \<Rightarrow> int \<Rightarrow> 'd FundingEvent \<Rightarrow> 'd FundingRadarCase" where
  "new_case dec_json clock window_ends event =
     \<lparr>rc_id = 0, rc_chain = fv_chain event, rc_recipient = fv_to_address event, rc_first_funded_at = fv_observed_at event,
      rc_first_funding_usd = fv_amount_usd event, rc_first_funding_native = fv_native_amount event,
      rc_source_address = fv_from_address event, rc_source_kind = fv_source_kind event, rc_fanout_count = 0,
      rc_deploy_window_ends_at = window_ends, rc_stage = RadarFunded,
      rc_confidence = (if source_is_infrastructure event then 40 else 55),
      rc_evidence = JObject [(''first_funding'', JObject [(''signature'', JString (fv_signature event)),
        (''amount_usd'', opt_json dec_json (fv_amount_usd event)), (''native_amount'', dec_json (fv_native_amount event)),
        (''infrastructure_source'', JBool (source_is_infrastructure event))])],
      rc_updated_at = clock\<rparr>"

definition ingest_funding_event ::
  "('d, 'x) decimal_num_scheme \<Rightarrow> ('d \<Rightarrow> json) \<Rightarrow> int \<Rightarrow> int \<Rightarrow> int \<Rightarrow> 'd FundingEvent \<Rightarrow> FundingRadarConfig \<Rightarrow> 'd option \<Rightarrow>
   ('d, 'd FundingRadarCase option) radar" where
  "ingest_funding_event D dec_json clock fresh workspace event config percentile_threshold_sol =
     db_bind (store_funding_observation event) (\<lambda>_.
     if fv_commitment event < CommitConfirmed then fetch_case workspace (fv_chain event) (fv_to_address event)
     else if \<not> recipient_is_fresh event config then fetch_case workspace (fv_chain event) (fv_to_address event)
     else if \<not> qualifies_as_large_funding D event config percentile_threshold_sol
       then fetch_case workspace (fv_chain event) (fv_to_address event)
     else
       db_bind (upsert_wallet (chain_kind_as_str (fv_chain event)) (fv_to_address event) (fv_observed_at event) ''funding_radar'') (\<lambda>_.
       db_bind (upsert_wallet (chain_kind_as_str (fv_chain event)) (fv_from_address event) (fv_observed_at event) ''funding_radar'') (\<lambda>_.
       db_bind (fetch_case workspace (fv_chain event) (fv_to_address event)) (\<lambda>existing.
       let window_ends = fv_observed_at event + int (fc_preparation_window_days config) * 86400;
           open = (case existing of Some c \<Rightarrow> if rc_stage c \<noteq> RadarDismissed then Some c else None | None \<Rightarrow> None)
       in case open of
            Some c \<Rightarrow>
              db_bind (record_case_event (rc_id c) ''additional_funding'' (fv_observed_at event) (funding_evidence dec_json event)) (\<lambda>_.
              db_bind (count_fresh_children (fv_chain event) (fv_to_address event) config) (\<lambda>fanout.
              db_bind (update_case_fanout clock (rc_id c) fanout) (\<lambda>_.
              fetch_case workspace (fv_chain event) (fv_to_address event))))
          | None \<Rightarrow>
              db_bind (insert_case workspace fresh (new_case dec_json clock window_ends event)) (\<lambda>case_id.
              db_bind (record_case_event case_id ''first_funding'' (fv_observed_at event) (funding_evidence dec_json event)) (\<lambda>_.
              fetch_case workspace (fv_chain event) (fv_to_address event)))))))"

section \<open>Evaluation\<close>

definition count_case_events :: "int \<Rightarrow> ('d, nat) radar" where
  "count_case_events case_id = db_stmt (\<lambda>db. (length (filter (\<lambda>e. ev_case e = case_id) (rb_events db)), db))"

definition update_stage :: "int \<Rightarrow> int \<Rightarrow> RadarStage \<Rightarrow> nat \<Rightarrow> string option \<Rightarrow> ('d, unit) radar" where
  "update_stage clock case_id stage confidence dismissed_reason = db_stmt (\<lambda>db.
     ((), map_case case_id (\<lambda>r. r\<lparr>cs_case := (cs_case r)\<lparr>rc_stage := stage, rc_confidence := confidence, rc_updated_at := clock\<rparr>,
        cs_dismissed_reason := or_else dismissed_reason (cs_dismissed_reason r)\<rparr>) db))"

definition dismiss_case :: "int \<Rightarrow> int \<Rightarrow> string \<Rightarrow> ('d, unit) radar" where
  "dismiss_case clock case_id reason = db_stmt (\<lambda>db.
     ((), map_case case_id (\<lambda>r. r\<lparr>cs_case := (cs_case r)\<lparr>rc_stage := RadarDismissed, rc_updated_at := clock\<rparr>,
        cs_dismissed_reason := Some reason\<rparr>) db))"

definition evidence_until :: "int \<Rightarrow> int \<Rightarrow> ('d, radar_event list) radar" where
  "evidence_until case_id now = db_stmt (\<lambda>db.
     (filter (\<lambda>e. ev_case e = case_id \<and> ev_observed_at e \<le> now) (rb_events db), db))"

definition infrastructure_flag :: "json \<Rightarrow> bool" where
  "infrastructure_flag evidence =
     (case evidence of
        JObject kvs \<Rightarrow> (case map_of kvs ''infrastructure'' of Some (JBool b) \<Rightarrow> b | _ \<Rightarrow> False)
      | _ \<Rightarrow> False)"

definition preparation_confidence :: "'d FundingRadarCase \<Rightarrow> FundingRadarConfig \<Rightarrow> string set \<Rightarrow> nat" where
  "preparation_confidence c config kinds =
     min 95 (55 + (if ''fanout'' \<in> kinds then 15 else 0) +
       (if ''token_creation'' \<in> kinds \<or> ''account_creation'' \<in> kinds then 10 else 0) +
       (if ''launchpad_interaction'' \<in> kinds \<or> ''dex_interaction'' \<in> kinds then 10 else 0) +
       (if ''telegram_mention'' \<in> kinds \<or> ''gmgn_mention'' \<in> kinds then 5 else 0) +
       (if fc_fanout_threshold config \<le> rc_fanout_count c then 5 else 0))"

definition decision :: "ChainKind \<Rightarrow> string \<Rightarrow> int \<Rightarrow> RadarStage \<Rightarrow> RadarStage option \<Rightarrow> nat \<Rightarrow> RadarAlert option \<Rightarrow> string \<Rightarrow> nat \<Rightarrow>
   FundingRadarDecision" where
  "decision chain recipient case_id stage previous confidence alert reason evidence_count =
     \<lparr>rd_case_id = case_id, rd_chain = chain, rd_recipient = recipient, rd_stage = stage, rd_previous_stage = previous,
      rd_confidence = confidence, rd_alert = alert, rd_reason = reason, rd_evidence_count = evidence_count\<rparr>"

definition promote_case ::
  "(string set \<Rightarrow> string list) \<Rightarrow> int \<Rightarrow> int \<Rightarrow> ChainKind \<Rightarrow> string \<Rightarrow> FundingRadarConfig \<Rightarrow> 'd FundingRadarCase \<Rightarrow> string set \<Rightarrow>
   ('d, FundingRadarDecision) radar" where
  "promote_case order clock workspace chain recipient config c kinds =
     (let confidence = preparation_confidence c config kinds in
      db_bind (update_stage clock (rc_id c) RadarPreparation confidence None) (\<lambda>_.
      db_bind (fetch_case workspace chain recipient) (\<lambda>fetched.
      let updated = (case fetched of Some u \<Rightarrow> u | None \<Rightarrow> c);
          alert = (if fc_preparation_alert_confidence config \<le> confidence
                   then Some (preparation updated (JObject [(''evidence_kinds'', JArray (map JString (order kinds)))]))
                   else None)
      in db_return (decision chain recipient (rc_id updated) RadarPreparation (Some (rc_stage c)) confidence alert
           ''possible project preparation'' (card kinds)))))"

definition weigh_case ::
  "(string set \<Rightarrow> string list) \<Rightarrow> int \<Rightarrow> int \<Rightarrow> ChainKind \<Rightarrow> string \<Rightarrow> int \<Rightarrow> FundingRadarConfig \<Rightarrow> 'd FundingRadarCase \<Rightarrow>
   ('d, FundingRadarDecision) radar" where
  "weigh_case order clock workspace chain recipient now config c =
     db_bind (evidence_until (rc_id c) now) (\<lambda>rows.
     let kinds = set (map ev_kind rows);
         non_infrastructure = list_ex (\<lambda>e. \<not> infrastructure_flag (ev_evidence e)) rows;
         required = fc_preparation_evidence_required config
     in if ''deployment'' \<in> kinds then
          db_bind (update_stage clock (rc_id c) RadarDeployed 85 None) (\<lambda>_.
          db_return (decision chain recipient (rc_id c) RadarDeployed (Some (rc_stage c)) 85 None
            ''confirmed deployment linked'' (card kinds)))
        else if required \<le> card kinds \<and> non_infrastructure \<and> rc_stage c = RadarFunded then
          promote_case order clock workspace chain recipient config c kinds
        else db_return (decision chain recipient (rc_id c) (rc_stage c) (Some (rc_stage c)) (rc_confidence c) None
          (''awaiting more evidence ('' @ show_nat (card kinds) @ ''/'' @ show_nat required @ '' kinds, fanout '' @
           show_nat (rc_fanout_count c) @ ''/'' @ show_nat (fc_fanout_threshold config) @ '')'') (card kinds)))"

definition evaluate_radar_case ::
  "(string set \<Rightarrow> string list) \<Rightarrow> int \<Rightarrow> int \<Rightarrow> ChainKind \<Rightarrow> string \<Rightarrow> int \<Rightarrow> FundingRadarConfig \<Rightarrow>
   ('d, FundingRadarDecision) radar" where
  "evaluate_radar_case order clock workspace chain recipient now config =
     db_bind (fetch_case workspace chain recipient) (\<lambda>fetched.
     case fetched of
       None \<Rightarrow> db_return (decision chain recipient 0 RadarFunded None 0 None ''no case'' 0)
     | Some c \<Rightarrow>
         if rc_stage c = RadarDismissed \<or> rc_stage c = RadarDeployed then
           db_bind (count_case_events (rc_id c)) (\<lambda>n.
           db_return (decision chain recipient (rc_id c) (rc_stage c) (Some (rc_stage c)) (rc_confidence c) None
             (''case already '' @ radar_stage_as_str (rc_stage c)) n))
         else if rc_deploy_window_ends_at c < now \<and> rc_stage c = RadarFunded then
           db_bind (dismiss_case clock (rc_id c) ''expired window without preparation evidence'') (\<lambda>_.
           db_bind (count_case_events (rc_id c)) (\<lambda>n.
           db_return (decision chain recipient (rc_id c) RadarDismissed (Some (rc_stage c)) (rc_confidence c) None
             ''expired window without preparation evidence'' n)))
         else weigh_case order clock workspace chain recipient now config c)"

definition record_case_evidence :: "int \<Rightarrow> string \<Rightarrow> int \<Rightarrow> json \<Rightarrow> ('d, unit) radar" where
  "record_case_evidence case_id event_kind observed_at evidence = record_case_event case_id event_kind observed_at evidence"

definition link_deployment :: "int \<Rightarrow> string \<Rightarrow> string \<Rightarrow> int \<Rightarrow> ('d, unit) radar" where
  "link_deployment case_id signature mint observed_at =
     record_case_event case_id ''deployment'' observed_at
       (JObject [(''signature'', JString signature), (''mint'', JString mint), (''confirmed'', JBool True)])"

section \<open>Invariant and progress\<close>

abbreviation case_id :: "'d case_row \<Rightarrow> int" where
  "case_id r \<equiv> rc_id (cs_case r)"

definition case_key :: "'d case_row \<Rightarrow> int \<times> ChainKind \<times> string" where
  "case_key r = (cs_workspace r, rc_chain (cs_case r), rc_recipient (cs_case r))"

definition case_events :: "'d radar_db \<Rightarrow> int \<Rightarrow> radar_event list" where
  "case_events db i = filter (\<lambda>e. ev_case e = i) (rb_events db)"

text \<open>The evidence a stage rests on.\<close>

definition stage_supported :: "nat \<Rightarrow> radar_event list \<Rightarrow> RadarStage \<Rightarrow> bool" where
  "stage_supported required evs stage =
     (case stage of
        RadarPreparation \<Rightarrow> required \<le> card (ev_kind ` set evs) \<and> (\<exists>e\<in>set evs. \<not> infrastructure_flag (ev_evidence e))
      | RadarDeployed \<Rightarrow> ''deployment'' \<in> ev_kind ` set evs
      | _ \<Rightarrow> True)"

definition radar_ok :: "nat \<Rightarrow> 'd radar_db \<Rightarrow> bool" where
  "radar_ok required db \<longleftrightarrow>
     distinct (map case_key (rb_cases db)) \<and> distinct (map case_id (rb_cases db)) \<and>
     ev_case ` set (rb_events db) \<subseteq> case_id ` set (rb_cases db) \<and>
     (\<forall>r\<in>set (rb_cases db). rc_confidence (cs_case r) \<le> 95 \<and>
        stage_supported required (case_events db (case_id r)) (rc_stage (cs_case r)))"

definition stage_le :: "RadarStage \<Rightarrow> RadarStage \<Rightarrow> bool" where
  "stage_le a b \<longleftrightarrow> a = b \<or> a = RadarFunded \<or> a = RadarPreparation \<and> b = RadarDeployed"

definition radar_advance :: "'d radar_db \<Rightarrow> 'd radar_db \<Rightarrow> bool" where
  "radar_advance db db' \<longleftrightarrow>
     (\<exists>new. rb_events db' = rb_events db @ new) \<and>
     (\<forall>r\<in>set (rb_cases db). \<exists>r'\<in>set (rb_cases db'). case_id r' = case_id r \<and> case_key r' = case_key r \<and>
        rc_first_funded_at (cs_case r') = rc_first_funded_at (cs_case r) \<and>
        stage_le (rc_stage (cs_case r)) (rc_stage (cs_case r')))"

definition radar_keeps :: "nat \<Rightarrow> 'd radar_db \<Rightarrow> 'd radar_db \<Rightarrow> bool" where
  "radar_keeps required db0 db \<longleftrightarrow> radar_ok required db \<and> radar_advance db0 db"

lemma stage_le_trans: "stage_le a b \<Longrightarrow> stage_le b c \<Longrightarrow> stage_le a c"
  by (auto simp: stage_le_def)

lemma radar_advance_refl: "radar_advance db db"
  by (auto simp: radar_advance_def stage_le_def)

lemma radar_advance_trans: "radar_advance a b \<Longrightarrow> radar_advance b c \<Longrightarrow> radar_advance a c"
proof -
  assume ab: "radar_advance a b" and bc: "radar_advance b c"
  have ev: "\<exists>new. rb_events c = rb_events a @ new"
    using ab bc by (auto simp: radar_advance_def)
  show "radar_advance a c"
    unfolding radar_advance_def
  proof (intro conjI ballI ev)
    fix r
    assume "r \<in> set (rb_cases a)"
    then obtain x where x: "x \<in> set (rb_cases b)" "case_id x = case_id r" "case_key x = case_key r"
      "rc_first_funded_at (cs_case x) = rc_first_funded_at (cs_case r)" "stage_le (rc_stage (cs_case r)) (rc_stage (cs_case x))"
      using ab unfolding radar_advance_def by blast
    obtain y where y: "y \<in> set (rb_cases c)" "case_id y = case_id x" "case_key y = case_key x"
      "rc_first_funded_at (cs_case y) = rc_first_funded_at (cs_case x)" "stage_le (rc_stage (cs_case x)) (rc_stage (cs_case y))"
      using bc x(1) unfolding radar_advance_def by blast
    show "\<exists>r'\<in>set (rb_cases c). case_id r' = case_id r \<and> case_key r' = case_key r \<and>
        rc_first_funded_at (cs_case r') = rc_first_funded_at (cs_case r) \<and> stage_le (rc_stage (cs_case r)) (rc_stage (cs_case r'))"
      using x y stage_le_trans [OF x(5) y(5)] by (intro bexI [of _ y]) simp_all
  qed
qed

lemma radar_keepsI: "radar_keeps q db0 s \<Longrightarrow> radar_ok q s' \<Longrightarrow> radar_advance s s' \<Longrightarrow> radar_keeps q db0 s'"
  unfolding radar_keeps_def using radar_advance_trans by blast

lemma stage_supported_mono:
  assumes "stage_supported q evs st" "set evs \<subseteq> set evs'"
  shows "stage_supported q evs' st"
proof (cases st)
  case RadarPreparation
  have "card (ev_kind ` set evs) \<le> card (ev_kind ` set evs')"
    using assms(2) by (intro card_mono image_mono) auto
  then show ?thesis
    using assms RadarPreparation by (auto simp: stage_supported_def)
qed (use assms in \<open>auto simp: stage_supported_def\<close>)

text \<open>Each table update keeps the invariant and advances.\<close>

lemma keeps_frame:
  "rb_cases s' = rb_cases s \<Longrightarrow> rb_events s' = rb_events s \<Longrightarrow> radar_keeps q db0 s \<Longrightarrow> radar_keeps q db0 s'"
  by (simp add: radar_keeps_def radar_ok_def radar_advance_def case_events_def)

lemma keeps_event:
  assumes "radar_keeps q db0 s" "ev_case e \<in> case_id ` set (rb_cases s)"
  shows "radar_keeps q db0 (s\<lparr>rb_events := rb_events s @ [e]\<rparr>)"
proof -
  let ?s = "s\<lparr>rb_events := rb_events s @ [e]\<rparr>"
  have sub: "set (case_events s i) \<subseteq> set (case_events ?s i)" for i
    by (auto simp: case_events_def)
  have ok: "radar_ok q s"
    using assms(1) by (simp add: radar_keeps_def)
  have "radar_ok q ?s"
    unfolding radar_ok_def
  proof (intro conjI ballI)
    fix r
    assume "r \<in> set (rb_cases ?s)"
    then have "stage_supported q (case_events s (case_id r)) (rc_stage (cs_case r))" "rc_confidence (cs_case r) \<le> 95"
      using ok by (simp_all add: radar_ok_def)
    then show "stage_supported q (case_events ?s (case_id r)) (rc_stage (cs_case r))" "rc_confidence (cs_case r) \<le> 95"
      using stage_supported_mono [OF _ sub] by blast+
  qed (use ok assms(2) in \<open>simp_all add: radar_ok_def\<close>)
  moreover have "radar_advance s ?s"
    by (auto simp: radar_advance_def stage_le_def)
  ultimately show ?thesis
    by (rule radar_keepsI [OF assms(1)])
qed

lemma keeps_map_case:
  assumes k: "radar_keeps q db0 s" and r: "r \<in> set (rb_cases s)"
    and f: "case_id (f r) = case_id r" "case_key (f r) = case_key r"
      "rc_first_funded_at (cs_case (f r)) = rc_first_funded_at (cs_case r)" "stage_le (rc_stage (cs_case r)) (rc_stage (cs_case (f r)))"
      "rc_confidence (cs_case (f r)) \<le> 95" "stage_supported q (case_events s (case_id r)) (rc_stage (cs_case (f r)))"
  shows "radar_keeps q db0 (map_case (case_id r) f s)"
proof -
  let ?g = "\<lambda>x. if case_id x = case_id r then f x else x"
  have only: "x = r" if "x \<in> set (rb_cases s)" "case_id x = case_id r" for x
    using k that r by (auto simp: radar_keeps_def radar_ok_def distinct_map inj_on_def)
  have g: "case_id (?g x) = case_id x" "case_key (?g x) = case_key x"
    "rc_first_funded_at (cs_case (?g x)) = rc_first_funded_at (cs_case x)" "stage_le (rc_stage (cs_case x)) (rc_stage (cs_case (?g x)))"
    if "x \<in> set (rb_cases s)" for x
    using only [OF that] f by (auto simp: stage_le_def)
  have maps: "map case_key (map ?g (rb_cases s)) = map case_key (rb_cases s)" "map case_id (map ?g (rb_cases s)) = map case_id (rb_cases s)"
    using g by (auto simp del: split_paired_All)
  then have ids: "case_id ` set (map ?g (rb_cases s)) = case_id ` set (rb_cases s)"
    by (metis list.set_map)
  have cases: "rb_cases (map_case (case_id r) f s) = map ?g (rb_cases s)" and events: "rb_events (map_case (case_id r) f s) = rb_events s"
    by (simp_all add: map_case_def)
  have "rc_confidence (cs_case x) \<le> 95 \<and> stage_supported q (case_events s (case_id x)) (rc_stage (cs_case x))"
    if x: "x \<in> set (map ?g (rb_cases s))" for x
  proof -
    obtain y where y: "y \<in> set (rb_cases s)" "x = ?g y"
      using x by auto
    show ?thesis
      using k y only [OF y(1)] f(1,5,6) by (auto simp: radar_keeps_def radar_ok_def)
  qed
  then have "radar_ok q (map_case (case_id r) f s)"
    using k unfolding radar_ok_def cases events case_events_def maps ids radar_keeps_def by blast
  moreover have "radar_advance s (map_case (case_id r) f s)"
    unfolding radar_advance_def
  proof (intro conjI ballI)
    fix x
    assume x: "x \<in> set (rb_cases s)"
    then show "\<exists>r'\<in>set (rb_cases (map_case (case_id r) f s)). case_id r' = case_id x \<and> case_key r' = case_key x \<and>
        rc_first_funded_at (cs_case r') = rc_first_funded_at (cs_case x) \<and> stage_le (rc_stage (cs_case x)) (rc_stage (cs_case r'))"
      using g [OF x] unfolding cases by (intro bexI [of _ "?g x"] conjI) (simp_all del: if_split)
  qed (simp add: map_case_def)
  ultimately show ?thesis
    by (rule radar_keepsI [OF k])
qed

lemma keeps_insert:
  assumes k: "radar_keeps q db0 s" and r: "case_id r \<notin> case_id ` set (rb_cases s)" "case_key r \<notin> case_key ` set (rb_cases s)"
    "rc_stage (cs_case r) = RadarFunded" "rc_confidence (cs_case r) \<le> 95"
  shows "radar_keeps q db0 (s\<lparr>rb_cases := rb_cases s @ [r]\<rparr>)"
proof -
  let ?s = "s\<lparr>rb_cases := rb_cases s @ [r]\<rparr>"
  have "radar_ok q ?s"
    using k r by (auto simp: radar_keeps_def radar_ok_def case_events_def stage_supported_def)
  moreover have "radar_advance s ?s"
    by (auto simp: radar_advance_def stage_le_def)
  ultimately show ?thesis
    by (rule radar_keepsI [OF k])
qed

section \<open>The operations keep the invariant\<close>

abbreviation keeps_spec :: "nat \<Rightarrow> 'd radar_db \<Rightarrow> ('d radar_db \<Rightarrow> bool) \<Rightarrow> ('d, 'a) radar \<Rightarrow> ('a \<Rightarrow> 'd radar_db \<Rightarrow> bool) \<Rightarrow> bool" where
  "keeps_spec q db0 P m Q \<equiv>
     db_spec (\<lambda>s. radar_keeps q db0 s \<and> P s) m (\<lambda>a s. radar_keeps q db0 s \<and> Q a s) (\<lambda>_. radar_keeps q db0)"

lemma keeps_return: "(\<And>s. radar_keeps q db0 s \<Longrightarrow> P s \<Longrightarrow> Q x s) \<Longrightarrow> keeps_spec q db0 P (db_return x) Q"
  by (rule db_spec_return) simp

lemma keeps_stmt:
  assumes "\<And>s. radar_keeps q db0 s \<Longrightarrow> P s \<Longrightarrow> radar_keeps q db0 (snd (g s)) \<and> Q (fst (g s)) (snd (g s))"
  shows "keeps_spec q db0 P (db_stmt g) Q"
  by (rule db_spec_stmt) (use assms in auto)

lemma keeps_bind:
  "keeps_spec q db0 P m R \<Longrightarrow> (\<And>x. keeps_spec q db0 (R x) (k x) Q) \<Longrightarrow> keeps_spec q db0 P (db_bind m k) Q"
  by (rule db_spec_bind)

lemma keeps_pre: "keeps_spec q db0 P m Q \<Longrightarrow> (\<And>s. P' s \<Longrightarrow> P s) \<Longrightarrow> keeps_spec q db0 P' m Q"
  by (erule db_spec_weaken) simp_all

lemma keeps_post: "keeps_spec q db0 P m Q \<Longrightarrow> (\<And>a s. Q a s \<Longrightarrow> Q' a s) \<Longrightarrow> keeps_spec q db0 P m Q'"
  by (erule db_spec_weaken) simp_all

lemma keeps_if:
  "(b \<Longrightarrow> keeps_spec q db0 P m Q) \<Longrightarrow> (\<not> b \<Longrightarrow> keeps_spec q db0 P m' Q) \<Longrightarrow> keeps_spec q db0 P (if b then m else m') Q"
  by simp

lemma keeps_read: "(\<And>s. snd (g s) = s) \<Longrightarrow> keeps_spec q db0 P (db_stmt g) (\<lambda>a s. P s \<and> a = fst (g s))"
  by (rule keeps_stmt) simp

lemma store_keeps: "keeps_spec q db0 (\<lambda>_. True) (store_funding_observation e) (\<lambda>_ _. True)"
  unfolding store_funding_observation_def by (rule keeps_stmt) (auto intro: keeps_frame)

lemma upsert_wallet_keeps: "keeps_spec q db0 (\<lambda>_. True) (upsert_wallet ch a t src) (\<lambda>_ _. True)"
  unfolding upsert_wallet_def by (rule keeps_stmt) (auto intro: keeps_frame)

definition has_case :: "int \<Rightarrow> ChainKind \<Rightarrow> string \<Rightarrow> 'd FundingRadarCase \<Rightarrow> 'd radar_db \<Rightarrow> bool" where
  "has_case w ch rcp c s \<longleftrightarrow> (\<exists>r\<in>set (rb_cases s). cs_case r = c \<and> case_of w ch rcp r)"

lemma fetch_keeps:
  "keeps_spec q db0 P (fetch_case w ch rcp) (\<lambda>f s. P s \<and> f = map_option cs_case (find (case_of w ch rcp) (rb_cases s)))"
  unfolding fetch_case_def using keeps_read [of "\<lambda>db. (map_option cs_case (find (case_of w ch rcp) (rb_cases db)), db)"] by simp

lemma fetched_has_case:
  "map_option cs_case (find (case_of w ch rcp) (rb_cases s)) = Some c \<Longrightarrow> has_case w ch rcp c s"
  by (auto simp: has_case_def find_Some_iff)

lemma record_event_keeps: "keeps_spec q db0 (\<lambda>_. True) (record_case_event i k t ev) (\<lambda>_ _. True)"
  unfolding record_case_event_def
  by (rule db_spec_try) (auto split: if_splits intro: keeps_event)

lemma update_fanout_keeps: "keeps_spec q db0 (\<lambda>_. True) (update_case_fanout clock i n) (\<lambda>_ _. True)"
  unfolding update_case_fanout_def
proof (rule keeps_stmt, goal_cases)
  case (1 s)
  let ?f = "\<lambda>r. r\<lparr>cs_case := (cs_case r)\<lparr>rc_fanout_count := n, rc_updated_at := clock\<rparr>\<rparr>"
  show ?case
  proof (cases "\<exists>r\<in>set (rb_cases s). case_id r = i")
    case True
    then obtain r where r: "r \<in> set (rb_cases s)" "i = case_id r"
      by auto
    then have "rc_confidence (cs_case r) \<le> 95 \<and> stage_supported q (case_events s (case_id r)) (rc_stage (cs_case r))"
      using 1 by (simp add: radar_keeps_def radar_ok_def)
    then have "radar_keeps q db0 (map_case (case_id r) ?f s)"
      using r by (intro keeps_map_case [OF 1(1)]) (simp_all add: case_key_def stage_le_def)
    then show ?thesis
      unfolding r(2) by simp
  next
    case False
    then have "map (\<lambda>r. if case_id r = i then ?f r else r) (rb_cases s) = rb_cases s"
      by (intro map_idI) auto
    then have "map_case i ?f s = s"
      unfolding map_case_def by simp
    then show ?thesis
      using 1 by simp
  qed
qed

lemma update_stage_keeps:
  assumes "conf \<le> 95"
  shows "keeps_spec q db0 (\<lambda>s. \<exists>r\<in>set (rb_cases s). case_id r = i \<and> stage_le (rc_stage (cs_case r)) st \<and>
      stage_supported q (case_events s i) st) (update_stage clock i st conf reason) (\<lambda>_ _. True)"
  unfolding update_stage_def
proof (rule keeps_stmt, goal_cases)
  case (1 s)
  then obtain r where r: "r \<in> set (rb_cases s)" "i = case_id r" "stage_le (rc_stage (cs_case r)) st" "stage_supported q (case_events s i) st"
    by auto
  then show ?case
    using assms unfolding r(2) by (auto simp: case_key_def intro!: keeps_map_case [OF 1(1) r(1)])
qed

lemma dismiss_keeps:
  "keeps_spec q db0 (\<lambda>s. \<exists>r\<in>set (rb_cases s). case_id r = i \<and> rc_stage (cs_case r) = RadarFunded)
     (dismiss_case clock i reason) (\<lambda>_ _. True)"
  unfolding dismiss_case_def
proof (rule keeps_stmt, goal_cases)
  case (1 s)
  then obtain r where r: "r \<in> set (rb_cases s)" "i = case_id r" "rc_stage (cs_case r) = RadarFunded"
    by auto
  moreover have "rc_confidence (cs_case r) \<le> 95"
    using 1(1) r(1) by (simp add: radar_keeps_def radar_ok_def)
  ultimately show ?case
    unfolding r(2) by (auto simp: case_key_def stage_le_def stage_supported_def intro!: keeps_map_case [OF 1(1) r(1)])
qed

lemma insert_case_keeps:
  "keeps_spec q db0 (\<lambda>s. fresh \<notin> case_id ` set (rb_cases s)) (insert_case w fresh (new_case dj clock win e)) (\<lambda>_ _. True)"
  unfolding insert_case_def
  by (rule db_spec_try)
    (auto simp: new_case_def case_key_def case_of_def list_ex_iff split: if_splits intro!: keeps_insert)

lemma count_children_keeps: "keeps_spec q db0 P (count_fresh_children ch a cfg) (\<lambda>_. P)"
  unfolding count_fresh_children_def by (rule keeps_stmt) simp

lemma count_events_keeps: "keeps_spec q db0 P (count_case_events i) (\<lambda>_. P)"
  unfolding count_case_events_def by (rule keeps_stmt) simp

text \<open>Statements that leave the cases alone keep what is known about them.\<close>

lemma store_frame: "keeps_spec q db0 (\<lambda>s. P (rb_cases s)) (store_funding_observation e) (\<lambda>_ s. P (rb_cases s))"
  unfolding store_funding_observation_def by (rule keeps_stmt) (auto intro: keeps_frame)

lemma upsert_wallet_frame: "keeps_spec q db0 (\<lambda>s. P (rb_cases s)) (upsert_wallet ch a t src) (\<lambda>_ s. P (rb_cases s))"
  unfolding upsert_wallet_def by (rule keeps_stmt) (auto intro: keeps_frame)

lemma fetch_frame: "keeps_spec q db0 P (fetch_case w ch rcp) (\<lambda>_. P)"
  by (rule keeps_post [OF fetch_keeps]) simp

lemma fetch_last: "keeps_spec q db0 P (fetch_case w ch rcp) (\<lambda>_ _. True)"
  by (rule keeps_post [OF fetch_keeps]) simp

abbreviation unused :: "int \<Rightarrow> 'd case_row list \<Rightarrow> bool" where
  "unused fresh rows \<equiv> fresh \<notin> case_id ` set rows"

lemma additional_funding_keeps:
  "keeps_spec q db0 (\<lambda>_. True)
     (db_bind (record_case_event i ''additional_funding'' t ev) (\<lambda>_.
      db_bind (count_fresh_children ch a cfg) (\<lambda>fanout.
      db_bind (update_case_fanout clock i fanout) (\<lambda>_. fetch_case w ch a)))) (\<lambda>_ _. True)"
  by (intro keeps_bind [OF record_event_keeps] keeps_bind [OF count_children_keeps] keeps_bind [OF update_fanout_keeps] fetch_last)

lemma first_funding_keeps:
  "keeps_spec q db0 (\<lambda>s. unused fresh (rb_cases s))
     (db_bind (insert_case w fresh (new_case dj clock win e)) (\<lambda>i.
      db_bind (record_case_event i ''first_funding'' t ev) (\<lambda>_. fetch_case w ch a))) (\<lambda>_ _. True)"
  by (intro keeps_bind [OF insert_case_keeps] keeps_bind [OF record_event_keeps] fetch_last)

lemma ingest_keeps:
  "keeps_spec q db0 (\<lambda>s. unused fresh (rb_cases s)) (ingest_funding_event D dj clock fresh w e cfg pt) (\<lambda>_ _. True)"
  unfolding ingest_funding_event_def
proof (rule keeps_bind [OF store_frame], goal_cases)
  case (1 x)
  have rest: "keeps_spec q db0 (\<lambda>s. unused fresh (rb_cases s))
      (let win = fv_observed_at e + int (fc_preparation_window_days cfg) * 86400;
           open = (case existing of Some c \<Rightarrow> if rc_stage c \<noteq> RadarDismissed then Some c else None | None \<Rightarrow> None)
       in case open of
            Some c \<Rightarrow> db_bind (record_case_event (rc_id c) ''additional_funding'' (fv_observed_at e) (funding_evidence dj e)) (\<lambda>_.
              db_bind (count_fresh_children (fv_chain e) (fv_to_address e) cfg) (\<lambda>fanout.
              db_bind (update_case_fanout clock (rc_id c) fanout) (\<lambda>_. fetch_case w (fv_chain e) (fv_to_address e))))
          | None \<Rightarrow> db_bind (insert_case w fresh (new_case dj clock win e)) (\<lambda>i.
              db_bind (record_case_event i ''first_funding'' (fv_observed_at e) (funding_evidence dj e)) (\<lambda>_.
              fetch_case w (fv_chain e) (fv_to_address e)))) (\<lambda>_ _. True)" for existing
  proof (cases "case existing of Some c \<Rightarrow> if rc_stage c \<noteq> RadarDismissed then Some c else None | None \<Rightarrow> None")
    case None
    then show ?thesis
      using first_funding_keeps by (simp only: Let_def option.case)
  next
    case (Some c)
    then show ?thesis
      using keeps_pre [OF additional_funding_keeps TrueI] by (simp only: Let_def option.case)
  qed
  show ?case
    by (intro keeps_if fetch_last keeps_bind [OF upsert_wallet_frame] keeps_bind [OF fetch_frame] rest)
qed

text \<open>What a decision says when it is returned: an alert comes only with the move from funded to preparation, at the
  configured confidence.\<close>

definition sound_decision :: "FundingRadarConfig \<Rightarrow> FundingRadarDecision \<Rightarrow> bool" where
  "sound_decision cfg d \<longleftrightarrow>
     rd_confidence d \<le> 95 \<and>
     (case rd_alert d of
        None \<Rightarrow> True
      | Some a \<Rightarrow> rd_stage d = RadarPreparation \<and> rd_previous_stage d = Some RadarFunded \<and>
          ra_kind a = PreparationAlert \<and> fc_preparation_alert_confidence cfg \<le> rd_confidence d \<and> 55 \<le> rd_confidence d) \<and>
     (case rd_previous_stage d of None \<Rightarrow> rd_stage d = RadarFunded | Some p \<Rightarrow> stage_le p (rd_stage d))"

lemma preparation_confidence_bounds: "55 \<le> preparation_confidence c cfg kinds" "preparation_confidence c cfg kinds \<le> 95"
  by (auto simp: preparation_confidence_def)

definition known_case :: "'d FundingRadarCase \<Rightarrow> 'd radar_db \<Rightarrow> bool" where
  "known_case c s \<longleftrightarrow> (\<exists>r\<in>set (rb_cases s). cs_case r = c)"

lemma promote_keeps:
  assumes "rc_stage c = RadarFunded"
  shows "keeps_spec q db0 (\<lambda>s. known_case c s \<and> stage_supported q (case_events s (rc_id c)) RadarPreparation)
    (promote_case order clock w ch rcp cfg c kinds) (\<lambda>d _. sound_decision cfg d)"
  unfolding promote_case_def Let_def
  by (intro keeps_bind [OF keeps_pre [OF update_stage_keeps]] keeps_bind [OF fetch_last] keeps_return)
    (use assms in \<open>auto simp: preparation_confidence_bounds known_case_def stage_le_def sound_decision_def decision_def
        preparation_def\<close>)

lemma weigh_keeps:
  assumes q: "q \<le> fc_preparation_evidence_required cfg" and st: "rc_stage c = RadarFunded \<or> rc_stage c = RadarPreparation"
    and conf: "rc_confidence c \<le> 95"
  shows "keeps_spec q db0 (known_case c) (weigh_case order clock w ch rcp now cfg c) (\<lambda>d _. sound_decision cfg d)"
  unfolding weigh_case_def
proof (rule keeps_bind [where R = "\<lambda>rows s. known_case c s \<and> set rows \<subseteq> set (case_events s (rc_id c))"], goal_cases)
  case 1
  show ?case
    unfolding evidence_until_def by (rule keeps_stmt) (auto simp: case_events_def)
next
  case (2 rows)
  let ?kinds = "set (map ev_kind rows)"
  have deploy: "keeps_spec q db0 (\<lambda>s. known_case c s \<and> set rows \<subseteq> set (case_events s (rc_id c)))
      (db_bind (update_stage clock (rc_id c) RadarDeployed 85 None) (\<lambda>_.
        db_return (decision ch rcp (rc_id c) RadarDeployed (Some (rc_stage c)) 85 None ''confirmed deployment linked'' (card ?kinds))))
      (\<lambda>d _. sound_decision cfg d)" if "''deployment'' \<in> ?kinds"
    by (intro keeps_bind [OF keeps_pre [OF update_stage_keeps]] keeps_return)
      (use that st in \<open>auto simp: known_case_def stage_le_def sound_decision_def decision_def stage_supported_def\<close>)
  have prep: "keeps_spec q db0 (\<lambda>s. known_case c s \<and> set rows \<subseteq> set (case_events s (rc_id c)))
      (promote_case order clock w ch rcp cfg c ?kinds) (\<lambda>d _. sound_decision cfg d)"
    if h: "fc_preparation_evidence_required cfg \<le> card ?kinds" "list_ex (\<lambda>e. \<not> infrastructure_flag (ev_evidence e)) rows"
      "rc_stage c = RadarFunded"
  proof (rule keeps_pre [OF promote_keeps [OF h(3)]])
    fix s
    assume a: "known_case c s \<and> set rows \<subseteq> set (case_events s (rc_id c))"
    have "stage_supported q rows RadarPreparation"
      using h q by (auto simp: stage_supported_def list_ex_iff)
    then show "known_case c s \<and> stage_supported q (case_events s (rc_id c)) RadarPreparation"
      using a stage_supported_mono by blast
  qed
  have wait: "keeps_spec q db0 (\<lambda>s. known_case c s \<and> set rows \<subseteq> set (case_events s (rc_id c)))
      (db_return (decision ch rcp (rc_id c) (rc_stage c) (Some (rc_stage c)) (rc_confidence c) None why n))
      (\<lambda>d _. sound_decision cfg d)" for why n
    by (rule keeps_return) (use conf in \<open>simp add: sound_decision_def decision_def stage_le_def\<close>)
  show ?case
    unfolding Let_def by (rule keeps_if, erule deploy, rule keeps_if, elim conjE, rule prep, assumption+, rule wait)
qed

lemma evaluate_keeps:
  assumes q: "q \<le> fc_preparation_evidence_required cfg"
  shows "keeps_spec q db0 (\<lambda>_. True) (evaluate_radar_case order clock w ch rcp now cfg) (\<lambda>d _. sound_decision cfg d)"
  unfolding evaluate_radar_case_def
proof (rule keeps_bind [where R = "\<lambda>f s. \<forall>c. f = Some c \<longrightarrow> known_case c s \<and> rc_confidence c \<le> 95"], goal_cases)
  case 1
  show ?case
    unfolding fetch_case_def
    by (rule keeps_stmt) (auto simp: known_case_def find_Some_iff radar_keeps_def radar_ok_def)
next
  case (2 f)
  show ?case
  proof (cases f)
    case None
    have "sound_decision cfg (decision ch rcp 0 RadarFunded None 0 None ''no case'' 0)"
      by (simp add: sound_decision_def decision_def)
    then show ?thesis
      unfolding None option.case by (intro keeps_return)
  next
    case (Some c)
    show ?thesis
    proof (cases "rc_confidence c \<le> 95")
      case True
      have closed: "keeps_spec q db0 (known_case c)
          (db_bind (count_case_events (rc_id c)) (\<lambda>n. db_return (decision ch rcp (rc_id c) (rc_stage c) (Some (rc_stage c))
             (rc_confidence c) None why n))) (\<lambda>d _. sound_decision cfg d)" for why
        by (intro keeps_bind [OF count_events_keeps] keeps_return)
          (use True in \<open>simp add: sound_decision_def decision_def stage_le_def\<close>)
      have expire: "keeps_spec q db0 (known_case c)
          (db_bind (dismiss_case clock (rc_id c) why) (\<lambda>_.
             db_bind (count_case_events (rc_id c)) (\<lambda>n. db_return (decision ch rcp (rc_id c) RadarDismissed (Some (rc_stage c))
               (rc_confidence c) None why n)))) (\<lambda>d _. sound_decision cfg d)" if "rc_stage c = RadarFunded" for why
        by (intro keeps_bind [OF keeps_pre [OF dismiss_keeps]] keeps_bind [OF count_events_keeps] keeps_return)
          (use that True in \<open>auto simp: sound_decision_def decision_def stage_le_def known_case_def\<close>)
      have weigh: "keeps_spec q db0 (known_case c) (weigh_case order clock w ch rcp now cfg c) (\<lambda>d _. sound_decision cfg d)"
        if "\<not> (rc_stage c = RadarDismissed \<or> rc_stage c = RadarDeployed)"
        using that by (intro weigh_keeps [OF q _ True]) (cases "rc_stage c"; simp)
      have "keeps_spec q db0 (known_case c)
          (if rc_stage c = RadarDismissed \<or> rc_stage c = RadarDeployed then
             db_bind (count_case_events (rc_id c)) (\<lambda>n.
             db_return (decision ch rcp (rc_id c) (rc_stage c) (Some (rc_stage c)) (rc_confidence c) None
               (''case already '' @ radar_stage_as_str (rc_stage c)) n))
           else if rc_deploy_window_ends_at c < now \<and> rc_stage c = RadarFunded then
             db_bind (dismiss_case clock (rc_id c) ''expired window without preparation evidence'') (\<lambda>_.
             db_bind (count_case_events (rc_id c)) (\<lambda>n.
             db_return (decision ch rcp (rc_id c) RadarDismissed (Some (rc_stage c)) (rc_confidence c) None
               ''expired window without preparation evidence'' n)))
           else weigh_case order clock w ch rcp now cfg c) (\<lambda>d _. sound_decision cfg d)"
        by (rule keeps_if, rule closed, rule keeps_if, elim conjE, erule expire, erule weigh)
      then show ?thesis
        unfolding Some option.case by (rule keeps_pre) simp
    qed (simp add: Some db_spec_def)
  qed
qed

section \<open>Runs of the radar\<close>

text \<open>Any of its entry points, with any event, evidence, time and faults; a new case gets an id that is not in use.\<close>

inductive radar_step ::
  "('d, 'x) decimal_num_scheme \<Rightarrow> ('d \<Rightarrow> json) \<Rightarrow> (string set \<Rightarrow> string list) \<Rightarrow> FundingRadarConfig \<Rightarrow> 'd radar_db \<Rightarrow> 'd radar_db \<Rightarrow> bool"
  for D dj order cfg where
  ingest: "unused fresh (rb_cases db) \<Longrightarrow>
     run_db (ingest_funding_event D dj clock fresh w e cfg pt) fault db = (r, db') \<Longrightarrow> radar_step D dj order cfg db db'"
| evaluate: "run_db (evaluate_radar_case order clock w ch rcp now cfg) fault db = (d, db') \<Longrightarrow> radar_step D dj order cfg db db'"
| evidence: "run_db (record_case_evidence i k t ev) fault db = (u, db') \<Longrightarrow> radar_step D dj order cfg db db'"
| deployment: "run_db (link_deployment i sig mint t) fault db = (u, db') \<Longrightarrow> radar_step D dj order cfg db db'"

definition empty_radar :: "'d radar_db" where
  "empty_radar = \<lparr>rb_observations = [], rb_wallets = Map.empty, rb_cases = [], rb_events = []\<rparr>"

lemma keeps_run:
  assumes "keeps_spec q db0 P m Q" "radar_keeps q db0 s" "P s" "run_db m fault s = (r, s')"
  shows "radar_keeps q db0 s'" "r = Inr a \<Longrightarrow> Q a s'"
  using run_db_spec [OF assms(1) _ assms(4)] assms(2,3) by (auto split: sum.splits)

lemma step_keeps:
  assumes "radar_step D dj order cfg db db'" "radar_ok (fc_preparation_evidence_required cfg) db"
  shows "radar_keeps (fc_preparation_evidence_required cfg) db db'"
proof -
  have k: "radar_keeps (fc_preparation_evidence_required cfg) db db"
    using assms(2) by (simp add: radar_keeps_def radar_advance_refl)
  show ?thesis
    using assms(1)
  proof cases
    case (ingest fresh clock w e pt fault r)
    then show ?thesis
      using keeps_run(1) [OF ingest_keeps k] by blast
  next
    case (evaluate clock w ch rcp now fault d)
    then show ?thesis
      using keeps_run(1) [OF evaluate_keeps [OF order_refl] k] by blast
  next
    case (evidence i k' t ev fault u)
    then show ?thesis
      using keeps_run(1) [OF record_event_keeps k] unfolding record_case_evidence_def by blast
  next
    case (deployment i sig mint t fault u)
    then show ?thesis
      using keeps_run(1) [OF record_event_keeps k] unfolding link_deployment_def by blast
  qed
qed

lemma reachable_keeps:
  assumes "(radar_step D dj order cfg)\<^sup>*\<^sup>* db0 db" "radar_ok (fc_preparation_evidence_required cfg) db0"
  shows "radar_keeps (fc_preparation_evidence_required cfg) db0 db"
  using assms
proof (induction rule: rtranclp_induct)
  case base
  then show ?case
    by (simp add: radar_keeps_def radar_advance_refl)
next
  case (step b c)
  then show ?case
    using step_keeps [OF step.hyps(2)] radar_keepsI unfolding radar_keeps_def by blast
qed

lemma ok_empty: "radar_ok q empty_radar"
  by (simp add: radar_ok_def empty_radar_def)

text \<open>C14: Radar cases advance only on evidence. In every reachable state of the radar, whatever operations ran and whichever of their
  statements failed: a recipient has at most one case per workspace and chain, every event belongs to a case, confidence
  stays at or below 95, a case in preparation has the required number of distinct kinds of evidence with at least one
  that is not infrastructure, and a deployed case has a linked deployment. From then on no case and no event disappears, the time of
  the first funding is kept, and a stage moves only from funded to preparation, deployed or dismissed, and from preparation
  to deployed. A decision carries an alert only on the move from funded to preparation at the configured confidence. An event that is
  not confirmed, not to a fresh wallet or not large changes no case and adds no evidence.\<close>

theorem radar_cases_advance_on_evidence:
  assumes "(radar_step D dj order cfg)\<^sup>*\<^sup>* empty_radar db"
  shows "radar_ok (fc_preparation_evidence_required cfg) db \<and>
    (\<forall>db'. (radar_step D dj order cfg)\<^sup>*\<^sup>* db db' \<longrightarrow> radar_advance db db') \<and>
    (\<forall>clock w ch rcp now fault d db'. run_db (evaluate_radar_case order clock w ch rcp now cfg) fault db = (Inr d, db') \<longrightarrow>
       sound_decision cfg d) \<and>
    (\<forall>clock fresh w e pt fault r db'. run_db (ingest_funding_event D dj clock fresh w e cfg pt) fault db = (r, db') \<longrightarrow>
       fv_commitment e < CommitConfirmed \<or> \<not> recipient_is_fresh e cfg \<or> \<not> qualifies_as_large_funding D e cfg pt \<longrightarrow>
       rb_cases db' = rb_cases db \<and> rb_events db' = rb_events db)"
proof (intro conjI allI impI)
  show ok: "radar_ok (fc_preparation_evidence_required cfg) db"
    using reachable_keeps [OF assms ok_empty] by (simp add: radar_keeps_def)
  show "radar_advance db db'" if "(radar_step D dj order cfg)\<^sup>*\<^sup>* db db'" for db'
    using reachable_keeps [OF that ok] by (simp add: radar_keeps_def)
  show "sound_decision cfg d"
    if "run_db (evaluate_radar_case order clock w ch rcp now cfg) fault db = (Inr d, db')" for clock w ch rcp now fault d db'
    by (rule keeps_run(2) [OF evaluate_keeps [OF order_refl] _ TrueI that refl, of db])
      (simp add: radar_keeps_def radar_advance_refl ok)
  show "rb_cases db' = rb_cases db" "rb_events db' = rb_events db"
    if "run_db (ingest_funding_event D dj clock fresh w e cfg pt) fault db = (r, db')"
      "fv_commitment e < CommitConfirmed \<or> \<not> recipient_is_fresh e cfg \<or> \<not> qualifies_as_large_funding D e cfg pt"
    for clock fresh w e pt fault r db'
    using that by (auto simp: ingest_funding_event_def run_db_def store_funding_observation_def fetch_case_def db_simps
        split: if_splits prod.splits)
qed

definition sample_funding :: "rat FundingEvent" where
  "sample_funding =
     \<lparr>fv_chain = KindSolana, fv_signature = ''sig'', fv_slot = None, fv_observed_at = 1000, fv_commitment = CommitConfirmed,
      fv_from_address = ''from'', fv_to_address = ''to'', fv_asset_kind = NativeAsset, fv_mint = [], fv_raw_amount = ''1'',
      fv_native_amount = 150, fv_amount_usd = Some 30000, fv_native_usd_price = None, fv_recipient_age_seconds = Some 60,
      fv_source_kind = None, fv_raw = JNull\<rparr>"

definition sample_ingest :: "int \<Rightarrow> rat radar_db \<Rightarrow> (radar_error tx_error + rat FundingRadarCase option) \<times> rat radar_db" where
  "sample_ingest fresh = run_db (ingest_funding_event rat_num (\<lambda>_. JNull) 0 fresh 1 sample_funding default_radar_config None) (\<lambda>_. False)"

lemma sample_ingest_run:
  "map (\<lambda>r. (case_id r, rc_stage (cs_case r), rc_confidence (cs_case r))) (rb_cases (snd (sample_ingest 7 empty_radar))) =
     [(7, RadarFunded, 55)] \<and>
   map ev_kind (rb_events (snd (sample_ingest 7 empty_radar))) = [''first_funding'']"
  by (simp add: sample_ingest_def sample_funding_def empty_radar_def ingest_funding_event_def run_db_def db_simps
      store_funding_observation_def recipient_is_fresh_def qualifies_as_large_funding_def default_radar_config_def
      upsert_wallet_def fetch_case_def insert_case_def record_case_event_def new_case_def case_of_def source_is_infrastructure_def)

theorem radar_cases_advance_on_evidence_witness:
  "radar_ok 2 (snd (sample_ingest 7 empty_radar)) \<and>
   map (\<lambda>r. rc_stage (cs_case r)) (rb_cases (snd (sample_ingest 7 empty_radar))) = [RadarFunded]"
proof -
  have "run_db (ingest_funding_event rat_num (\<lambda>_. JNull) 0 7 1 sample_funding default_radar_config None) (\<lambda>_. False) empty_radar =
      (fst (sample_ingest 7 empty_radar), snd (sample_ingest 7 empty_radar))"
    by (simp add: sample_ingest_def)
  then have "radar_step rat_num (\<lambda>_. JNull) (\<lambda>_. []) default_radar_config empty_radar (snd (sample_ingest 7 empty_radar))"
    by (rule radar_step.ingest [rotated]) (simp add: empty_radar_def)
  then have "radar_ok (fc_preparation_evidence_required default_radar_config) (snd (sample_ingest 7 empty_radar))"
    using radar_cases_advance_on_evidence [of rat_num "\<lambda>_. JNull" "\<lambda>_. []" default_radar_config "snd (sample_ingest 7 empty_radar)"]
    by blast
  then have "radar_ok 2 (snd (sample_ingest 7 empty_radar))"
    by (simp add: default_radar_config_def)
  moreover have "map (\<lambda>r. rc_stage (cs_case r)) (rb_cases (snd (sample_ingest 7 empty_radar))) = [RadarFunded]"
    using sample_ingest_run by auto
  ultimately show ?thesis ..
qed

text \<open>The same transaction delivered twice: the observation is stored once, but the second delivery is recorded as additional funding, and
  the two kinds of evidence promote the case.\<close>

lemma redelivery_promotes:
  "map_sum id (\<lambda>d. (rd_stage d, rd_evidence_count d)) (fst (run_db (evaluate_radar_case (\<lambda>_. []) 0 1 KindSolana ''to'' 2000 default_radar_config)
     (\<lambda>_. False) (snd (sample_ingest 8 (snd (sample_ingest 7 empty_radar)))))) = Inr (RadarPreparation, 2) \<and>
   length (rb_observations (snd (sample_ingest 8 (snd (sample_ingest 7 empty_radar))))) = 1"
  by (simp add: sample_ingest_def sample_funding_def empty_radar_def ingest_funding_event_def run_db_def db_simps
      store_funding_observation_def recipient_is_fresh_def qualifies_as_large_funding_def default_radar_config_def observation_key_def
      upsert_wallet_def fetch_case_def insert_case_def record_case_event_def new_case_def case_of_def source_is_infrastructure_def
      count_fresh_children_def update_case_fanout_def map_case_def evaluate_radar_case_def weigh_case_def evidence_until_def
      infrastructure_flag_def funding_evidence_def promote_case_def update_stage_def decision_def Let_def)

text \<open>A recipient whose case was dismissed is never tracked again: the insert violates the tenant index and every qualifying event
  ends in an error.\<close>

lemma dismissed_recipient_is_stuck:
  assumes "\<not> fv_commitment e < CommitConfirmed" "recipient_is_fresh e cfg" "qualifies_as_large_funding D e cfg pt"
    and r: "find (case_of w (fv_chain e) (fv_to_address e)) (rb_cases db) = Some r" "rc_stage (cs_case r) = RadarDismissed"
  shows "fst (run_db (ingest_funding_event D dj clock fresh w e cfg pt) (\<lambda>_. False) db) = Inl (TxAbort CaseExists)"
proof -
  have "\<exists>r\<in>set (rb_cases db). case_of w (fv_chain e) (fv_to_address e) r"
    using r(1) by (auto simp: find_Some_iff)
  then show ?thesis
    using assms by (auto simp: ingest_funding_event_def run_db_def db_simps store_funding_observation_def upsert_wallet_def fetch_case_def
        insert_case_def new_case_def list_ex_iff Let_def)
qed

end
