(* ===== verification/Pool.thy ===== *)
theory Pool
  imports Prelude Float64 Decimals
begin

text \<open>
  The Helius provider pool (\<open>helius.rs\<close>): token buckets, keys with cooldown and circuit breaker,
  the fair choice of a key, usage accounting and the retrying request loop.

  Instants and durations are whole nanoseconds. An operation on one key or bucket reads the clock
  once; the choice of a key reads it once per key visited. The network, the clocks and fresh ids are
  the fields of a record that the request loop takes as an argument.
\<close>

section \<open>Durations\<close>

abbreviation nanos_per_sec :: int where
  "nanos_per_sec \<equiv> 1000000000"

definition from_secs :: "nat \<Rightarrow> int" where
  "from_secs n = int n * nanos_per_sec"

text \<open>\<open>Duration::as_secs_f64\<close> adds the rounded seconds and the rounded fraction.\<close>

definition as_secs_f64 :: "int \<Rightarrow> f64" where
  "as_secs_f64 d = f64_add (rnd (of_int (d div nanos_per_sec)))
     (f64_div (Fin (of_int (d mod nanos_per_sec))) (Fin (of_int nanos_per_sec)))"

text \<open>\<open>Duration::from_secs_f64\<close> rounds to nanoseconds and panics (\<open>None\<close>) on a negative, too large or
  undefined number of seconds.\<close>

definition from_secs_f64 :: "f64 \<Rightarrow> int option" where
  "from_secs_f64 x = (case x of
      Fin s \<Rightarrow> if 0 \<le> s \<and> rhe (s * of_int nanos_per_sec) < 2 ^ 64 * nanos_per_sec
              then Some (rhe (s * of_int nanos_per_sec)) else None
    | _ \<Rightarrow> None)"

text \<open>\<open>Instant::duration_since\<close> is zero when the argument lies ahead.\<close>

definition duration_since :: "int \<Rightarrow> int \<Rightarrow> int" where
  "duration_since now earlier = max 0 (now - earlier)"

text \<open>\<open>str::parse::<u64>\<close>.\<close>

definition parse_u64 :: "string \<Rightarrow> nat option" where
  "parse_u64 s = (let ds = (if s \<noteq> [] \<and> hd s = CHR ''+'' then tl s else s)
     in if ds \<noteq> [] \<and> list_all is_digit ds \<and> read_nat ds \<le> u64_max then Some (read_nat ds) else None)"

definition trim_end_matches :: "char \<Rightarrow> string \<Rightarrow> string" where
  "trim_end_matches c s = rev (dropWhile (\<lambda>x. x = c) (rev s))"

section \<open>Token buckets\<close>

record TokenBucket =
  tb_capacity :: f64
  tb_tokens :: f64
  tb_last_refill :: int

definition tb_new :: "nat \<Rightarrow> int \<Rightarrow> TokenBucket" where
  "tb_new rate now = \<lparr>tb_capacity = Fin (of_nat rate), tb_tokens = Fin (of_nat rate), tb_last_refill = now\<rparr>"

definition tb_refill :: "int \<Rightarrow> TokenBucket \<Rightarrow> TokenBucket" where
  "tb_refill now b =
     (let elapsed = as_secs_f64 (duration_since now (tb_last_refill b))
      in if f64_gt elapsed (Fin 0)
         then b\<lparr>tb_tokens := f64_min (f64_add (tb_tokens b) (f64_mul elapsed (tb_capacity b))) (tb_capacity b),
                tb_last_refill := now\<rparr>
         else b)"

definition tb_wait :: "TokenBucket \<Rightarrow> int option" where
  "tb_wait b = from_secs_f64 (f64_div (f64_sub (Fin 1) (tb_tokens b)) (f64_max (tb_capacity b) (f64_lit (1 / 1000))))"

text \<open>\<open>None\<close> is a token taken, \<open>Some\<close> the wait. That the wait is always defined is lemma \<open>tb_wait_defined\<close>.\<close>

definition tb_try_acquire :: "int \<Rightarrow> TokenBucket \<Rightarrow> int option \<times> TokenBucket" where
  "tb_try_acquire now b =
     (let b' = tb_refill now b
      in if f64_ge (tb_tokens b') (Fin 1) then (None, b'\<lparr>tb_tokens := f64_sub (tb_tokens b') (Fin 1)\<rparr>)
         else (Some (the (tb_wait b')), b'))"

definition tb_current_tokens :: "int \<Rightarrow> TokenBucket \<Rightarrow> f64 \<times> TokenBucket" where
  "tb_current_tokens now b = (let b' = tb_refill now b in (tb_tokens b', b'))"

section \<open>Provider keys\<close>

datatype ApiClass = ApiRpc | ApiEnhanced | ApiWallet

fun api_class_as_str :: "ApiClass \<Rightarrow> string" where
  "api_class_as_str ApiRpc = ''rpc''"
| "api_class_as_str ApiEnhanced = ''enhanced''"
| "api_class_as_str ApiWallet = ''wallet''"

record ProviderKey =
  pk_id :: string
  pk_key :: string
  pk_buckets :: "(ApiClass \<times> TokenBucket) list"
  pk_cooldown_until :: "int option"
  pk_consecutive_failures :: nat
  pk_open_until :: "int option"

definition pk_new :: "string \<Rightarrow> string \<Rightarrow> nat \<Rightarrow> nat \<Rightarrow> nat \<Rightarrow> int \<Rightarrow> ProviderKey" where
  "pk_new i k rpc enhanced wallet now =
     \<lparr>pk_id = i, pk_key = k,
      pk_buckets = [(ApiRpc, tb_new rpc now), (ApiEnhanced, tb_new enhanced now), (ApiWallet, tb_new wallet now)],
      pk_cooldown_until = None, pk_consecutive_failures = 0, pk_open_until = None\<rparr>"

definition blocked_until :: "int \<Rightarrow> int option \<Rightarrow> int option" where
  "blocked_until now u = (case u of Some t \<Rightarrow> if now < t then Some (t - now) else None | None \<Rightarrow> None)"

definition pk_try_acquire :: "int \<Rightarrow> ApiClass \<Rightarrow> ProviderKey \<Rightarrow> int option \<times> ProviderKey" where
  "pk_try_acquire now class k =
     (case blocked_until now (pk_cooldown_until k) of
        Some w \<Rightarrow> (Some w, k)
      | None \<Rightarrow>
          (case blocked_until now (pk_open_until k) of
             Some w \<Rightarrow> (Some w, k)
           | None \<Rightarrow>
               (case map_of (pk_buckets k) class of
                  None \<Rightarrow> (None, k)
                | Some b \<Rightarrow>
                    (let (w, b') = tb_try_acquire now b
                     in (w, k\<lparr>pk_buckets := map (\<lambda>(c, x). if c = class then (c, b') else (c, x)) (pk_buckets k)\<rparr>)))))"

definition pk_record_success :: "ProviderKey \<Rightarrow> ProviderKey" where
  "pk_record_success k = k\<lparr>pk_consecutive_failures := 0, pk_open_until := None\<rparr>"

definition pk_record_failure :: "nat \<Rightarrow> int \<Rightarrow> ProviderKey \<Rightarrow> ProviderKey" where
  "pk_record_failure breaker_threshold now k =
     (let failures = (pk_consecutive_failures k + 1) mod 2 ^ 64
      in if breaker_threshold \<le> failures
         then k\<lparr>pk_consecutive_failures := 0, pk_open_until := Some (now + from_secs 60)\<rparr>
         else k\<lparr>pk_consecutive_failures := failures\<rparr>)"

definition pk_apply_cooldown :: "int \<Rightarrow> int \<Rightarrow> ProviderKey \<Rightarrow> ProviderKey" where
  "pk_apply_cooldown d now k = k\<lparr>pk_cooldown_until := Some (now + d)\<rparr>"

definition pk_is_available :: "int \<Rightarrow> ProviderKey \<Rightarrow> bool" where
  "pk_is_available now k \<longleftrightarrow>
     blocked_until now (pk_cooldown_until k) = None \<and> blocked_until now (pk_open_until k) = None"

section \<open>Outcomes\<close>

datatype HttpOutcome = OutSuccess | OutRateLimited "int option" | OutAuthError | OutValidationError
  | OutServerError | OutNetworkError

fun retryable :: "HttpOutcome \<Rightarrow> bool" where
  "retryable (OutRateLimited _) \<longleftrightarrow> True"
| "retryable OutServerError \<longleftrightarrow> True"
| "retryable OutNetworkError \<longleftrightarrow> True"
| "retryable _ \<longleftrightarrow> False"

text \<open>A header value that is not readable as text is \<open>None\<close>.\<close>

type_synonym headers = "(string \<times> string option) list"

definition header_u64 :: "string \<Rightarrow> headers \<Rightarrow> nat option" where
  "header_u64 name hs = Option.bind (Option.bind (map_of hs name) id) (\<lambda>v. parse_u64 (trim v))"

definition is_success :: "nat \<Rightarrow> bool" where
  "is_success status \<longleftrightarrow> 200 \<le> status \<and> status < 300"

definition is_client_error :: "nat \<Rightarrow> bool" where
  "is_client_error status \<longleftrightarrow> 400 \<le> status \<and> status < 500"

definition from_status :: "nat \<Rightarrow> headers \<Rightarrow> HttpOutcome" where
  "from_status status hs =
     (if is_success status then OutSuccess
      else if status = 429 then OutRateLimited (map_option from_secs (header_u64 ''retry-after'' hs))
      else if status = 401 \<or> status = 403 then OutAuthError
      else if is_client_error status then OutValidationError
      else OutServerError)"

section \<open>The pool\<close>

record UsageRecord =
  us_provider_id :: string
  us_api_class :: ApiClass
  us_window_start :: int
  us_request_count :: int

record HeliusConfig =
  hc_base_url :: string
  hc_rpc_rate_per_second :: nat
  hc_enhanced_rate_per_second :: nat
  hc_wallet_rate_per_second :: nat
  hc_max_retries :: nat
  hc_timeout_seconds :: nat

definition helius_default :: HeliusConfig where
  "helius_default =
     \<lparr>hc_base_url = ''https://mainnet.helius-rpc.com'', hc_rpc_rate_per_second = 10,
      hc_enhanced_rate_per_second = 2, hc_wallet_rate_per_second = 2, hc_max_retries = 3,
      hc_timeout_seconds = 30\<rparr>"

definition hc_base :: "HeliusConfig \<Rightarrow> string" where
  "hc_base cfg = trim_end_matches CHR ''/'' (trim (hc_base_url cfg))"

definition http_url :: "HeliusConfig \<Rightarrow> string \<Rightarrow> string" where
  "http_url cfg key = hc_base cfg @ ''/?api-key='' @ key"

text \<open>\<open>str::replacen(.., 1)\<close>: the first occurrence.\<close>

fun replace_first :: "string \<Rightarrow> string \<Rightarrow> string \<Rightarrow> string" where
  "replace_first pat new [] = (if pat = [] then new else [])"
| "replace_first pat new (c # s) =
     (if take (length pat) (c # s) = pat then new @ drop (length pat) (c # s)
      else c # replace_first pat new s)"

definition ws_url :: "HeliusConfig \<Rightarrow> string \<Rightarrow> string" where
  "ws_url cfg key =
     replace_first ''http://'' ''ws://'' (replace_first ''https://'' ''wss://'' (hc_base cfg)) @ ''/?api-key='' @ key"

definition evm_http_url :: "HeliusConfig \<Rightarrow> string \<Rightarrow> string \<Rightarrow> string" where
  "evm_http_url cfg chain key = hc_base cfg @ ''/v1/'' @ chain @ ''/?api-key='' @ key"

record HeliusPool =
  hp_providers :: "ProviderKey list"
  hp_next :: nat
  hp_config :: HeliusConfig
  hp_usage :: "UsageRecord list"

definition hp_new :: "string list \<Rightarrow> HeliusConfig \<Rightarrow> int \<Rightarrow> HeliusPool" where
  "hp_new keys cfg now =
     \<lparr>hp_providers = map (\<lambda>(index, key). pk_new (''helius_'' @ show_nat (index + 1)) key
          (hc_rpc_rate_per_second cfg) (hc_enhanced_rate_per_second cfg) (hc_wallet_rate_per_second cfg) now)
        (enumerate 0 keys),
      hp_next = 0, hp_config = cfg, hp_usage = []\<rparr>"

definition provider_count :: "HeliusPool \<Rightarrow> nat" where
  "provider_count p = length (hp_providers p)"

text \<open>The loop of \<open>pick_provider\<close>: \<open>Inl i\<close> took a token of key \<open>i\<close>, \<open>Inr\<close> is the best wait.\<close>

fun pick_loop :: "(nat \<Rightarrow> int) \<Rightarrow> ApiClass \<Rightarrow> nat \<Rightarrow> nat list \<Rightarrow> (nat \<times> int) option \<Rightarrow> ProviderKey list \<Rightarrow>
    (nat + (nat \<times> int) option) \<times> ProviderKey list" where
  "pick_loop clk class start [] best ps = (Inr best, ps)"
| "pick_loop clk class start (offset # offsets) best ps =
     (let i = (start + offset) mod 2 ^ 64 mod length ps
      in if \<not> pk_is_available (clk offset) (ps ! i) then pick_loop clk class start offsets best ps
         else (case pk_try_acquire (clk offset) class (ps ! i) of
             (None, k) \<Rightarrow> (Inl i, ps[i := k])
           | (Some wait, k) \<Rightarrow>
               pick_loop clk class start offsets
                 (case best of None \<Rightarrow> Some (i, wait)
                  | Some (j, w) \<Rightarrow> if wait < w then Some (i, wait) else Some (j, w))
                 (ps[i := k])))"

text \<open>When every key is cooling down: the shortest wait, asked of every key in order.\<close>

fun shortest_loop :: "(nat \<Rightarrow> int) \<Rightarrow> ApiClass \<Rightarrow> nat list \<Rightarrow> int option \<Rightarrow> ProviderKey list \<Rightarrow>
    int option \<times> ProviderKey list" where
  "shortest_loop clk class [] shortest ps = (shortest, ps)"
| "shortest_loop clk class (i # is) shortest ps =
     (case pk_try_acquire (clk i) class (ps ! i) of
        (None, k) \<Rightarrow> shortest_loop clk class is shortest (ps[i := k])
      | (Some w, k) \<Rightarrow>
          shortest_loop clk class is
            (case shortest of None \<Rightarrow> Some w | Some s \<Rightarrow> if w < s then Some w else Some s) (ps[i := k]))"

datatype helius_error = NoProviders | AllUnavailable int | DecodeError string | RpcError json
  | RateLimitedAfter nat | AuthFailed string | ValidationFailed string | ServerFailed nat
  | NetworkFailed nat | RequestFailed string

definition pick_provider :: "(nat \<Rightarrow> int) \<Rightarrow> (nat \<Rightarrow> int) \<Rightarrow> ApiClass \<Rightarrow> HeliusPool \<Rightarrow>
    (helius_error + (nat \<times> int option)) \<times> HeliusPool" where
  "pick_provider clk clk2 class p =
     (if hp_providers p = [] then (Inl NoProviders, p)
      else let count = length (hp_providers p); start = hp_next p;
               p' = p\<lparr>hp_next := (hp_next p + 1) mod 2 ^ 64\<rparr>
           in case pick_loop clk class start [0..<count] None (hp_providers p) of
                (Inl i, ps) \<Rightarrow> (Inr (i, None), p'\<lparr>hp_providers := ps\<rparr>)
              | (Inr (Some (i, wait)), ps) \<Rightarrow> (Inr (i, Some wait), p'\<lparr>hp_providers := ps\<rparr>)
              | (Inr None, ps) \<Rightarrow>
                  (case shortest_loop clk2 class [0..<count] None ps of
                     (shortest, ps') \<Rightarrow>
                       (Inl (AllUnavailable (case shortest of Some w \<Rightarrow> w | None \<Rightarrow> 500000000)),
                        p'\<lparr>hp_providers := ps'\<rparr>)))"

text \<open>The remainder \<open>%\<close> takes the sign of the dividend.\<close>

definition usage_window :: "int \<Rightarrow> int" where
  "usage_window ts = ts - sgn ts * (\<bar>ts\<bar> mod 60)"

fun bump_usage :: "string \<Rightarrow> ApiClass \<Rightarrow> int \<Rightarrow> UsageRecord list \<Rightarrow> UsageRecord list option" where
  "bump_usage pid class w [] = None"
| "bump_usage pid class w (r # rs) =
     (if us_provider_id r = pid \<and> us_api_class r = class \<and> us_window_start r = w
      then Some (r\<lparr>us_request_count := us_request_count r + 1\<rparr> # rs)
      else map_option (\<lambda>rs'. r # rs') (bump_usage pid class w rs))"

definition record_usage :: "string \<Rightarrow> ApiClass \<Rightarrow> int \<Rightarrow> HeliusPool \<Rightarrow> HeliusPool" where
  "record_usage pid class ts p =
     (let w = usage_window ts
      in case bump_usage pid class w (hp_usage p) of
           Some us \<Rightarrow> p\<lparr>hp_usage := us\<rparr>
         | None \<Rightarrow>
             (let us = hp_usage p @ [\<lparr>us_provider_id = pid, us_api_class = class, us_window_start = w,
                                      us_request_count = 1\<rparr>]
              in p\<lparr>hp_usage := if 10000 < length us then drop 5000 us else us\<rparr>))"

definition usage_snapshot :: "HeliusPool \<Rightarrow> UsageRecord list" where
  "usage_snapshot p = hp_usage p"

section \<open>Requests\<close>

datatype reply = SendError string | Response nat headers "string + json"

text \<open>What the request loop takes from outside, per round: the clock while picking and after the
  response, the wall clock, a fresh id and the reply of the provider.\<close>

record helius_world =
  hw_pick :: "nat \<Rightarrow> nat \<Rightarrow> int"
  hw_pick2 :: "nat \<Rightarrow> nat \<Rightarrow> int"
  hw_done :: "nat \<Rightarrow> int"
  hw_utc :: "nat \<Rightarrow> int"
  hw_uuid :: "nat \<Rightarrow> string"
  hw_send :: "nat \<Rightarrow> string \<Rightarrow> json \<Rightarrow> reply"

record sent =
  se_provider :: nat
  se_slept :: int
  se_url :: string
  se_body :: json

fun json_get :: "string \<Rightarrow> json \<Rightarrow> json option" where
  "json_get k (JObject m) = map_of m k"
| "json_get k _ = None"

definition rpc_body :: "string \<Rightarrow> string \<Rightarrow> json \<Rightarrow> json" where
  "rpc_body uuid mth params =
     JObject [(''jsonrpc'', JString ''2.0''), (''id'', JString (''swi-'' @ uuid)),
              (''method'', JString mth), (''params'', params)]"

definition on_key :: "nat \<Rightarrow> (ProviderKey \<Rightarrow> ProviderKey) \<Rightarrow> HeliusPool \<Rightarrow> HeliusPool" where
  "on_key i f p = p\<lparr>hp_providers := (hp_providers p)[i := f (hp_providers p ! i)]\<rparr>"

text \<open>One more attempt, unless that is too many.\<close>

definition retry_or :: "HeliusConfig \<Rightarrow> nat \<Rightarrow> (nat \<Rightarrow> helius_error) \<Rightarrow> (helius_error + json) + nat" where
  "retry_or cfg attempt err =
     (let attempt' = as_u32 (attempt + 1)
      in if hc_max_retries cfg < attempt' then Inl (Inl (err attempt')) else Inr attempt')"

text \<open>The treatment of a reply: \<open>Inl\<close> ends the loop, \<open>Inr\<close> continues with that attempt count.\<close>

definition handle_reply :: "HeliusConfig \<Rightarrow> int \<Rightarrow> nat \<Rightarrow> nat \<Rightarrow> reply \<Rightarrow> HeliusPool \<Rightarrow>
    ((helius_error + json) + nat) \<times> HeliusPool" where
  "handle_reply cfg now i attempt r p =
     (case r of
        SendError e \<Rightarrow> (retry_or cfg attempt (\<lambda>_. RequestFailed e),
                       on_key i (pk_record_failure (hc_max_retries cfg) now) p)
      | Response status hs payload \<Rightarrow>
          (case from_status status hs of
             OutSuccess \<Rightarrow>
               (let p' = on_key i pk_record_success p
                in case payload of
                     Inl e \<Rightarrow> (Inl (Inl (DecodeError e)), p')
                   | Inr v \<Rightarrow>
                       (case json_get ''error'' v of
                          Some e \<Rightarrow> (Inl (Inl (RpcError e)),
                                    on_key i (pk_record_failure (hc_max_retries cfg) now) p')
                        | None \<Rightarrow> (Inl (Inr (case json_get ''result'' v of Some x \<Rightarrow> x | None \<Rightarrow> JNull)), p')))
           | OutRateLimited retry_after \<Rightarrow>
               (retry_or cfg attempt RateLimitedAfter,
                on_key i (pk_apply_cooldown
                  (min (case retry_after of Some d \<Rightarrow> d | None \<Rightarrow> from_secs 1) (from_secs 60)) now) p)
           | OutAuthError \<Rightarrow> (Inl (Inl (AuthFailed (pk_id (hp_providers p ! i)))),
                             on_key i (pk_record_failure 3 now) p)
           | OutValidationError \<Rightarrow> (Inl (Inl (ValidationFailed (pk_id (hp_providers p ! i)))),
                                   on_key i (pk_record_failure 3 now) p)
           | OutServerError \<Rightarrow> (retry_or cfg attempt ServerFailed,
                               on_key i (pk_record_failure (hc_max_retries cfg) now) p)
           | OutNetworkError \<Rightarrow> (retry_or cfg attempt NetworkFailed,
                                on_key i (pk_record_failure (hc_max_retries cfg) now) p)))"

definition request_round :: "helius_world \<Rightarrow> ApiClass \<Rightarrow> string \<Rightarrow> json \<Rightarrow> nat \<Rightarrow> nat \<Rightarrow> HeliusPool \<Rightarrow>
    ((helius_error + json) + nat) \<times> HeliusPool \<times> sent list" where
  "request_round W class mth params n attempt p =
     (case pick_provider (hw_pick W n) (hw_pick2 W n) class p of
        (Inl e, p') \<Rightarrow> (Inl (Inl e), p', [])
      | (Inr (i, wait), p') \<Rightarrow>
          (let k = hp_providers p' ! i;
               p'' = record_usage (pk_id k) class (hw_utc W n) p';
               url = http_url (hp_config p) (pk_key k);
               body = rpc_body (hw_uuid W n) mth params;
               (out, q) = handle_reply (hp_config p) (hw_done W n) i attempt (hw_send W n url body) p''
           in (out, q, [\<lparr>se_provider = i,
                         se_slept = (case wait of None \<Rightarrow> 0 | Some w \<Rightarrow> min w (from_secs 2)),
                         se_url = url, se_body = body\<rparr>])))"

partial_function (option) request_loop :: "helius_world \<Rightarrow> ApiClass \<Rightarrow> string \<Rightarrow> json \<Rightarrow> nat \<Rightarrow> nat \<Rightarrow>
    HeliusPool \<Rightarrow> ((helius_error + json) \<times> HeliusPool \<times> sent list) option" where
  "request_loop W class mth params n attempt p =
     (case request_round W class mth params n attempt p of
        (Inl r, p', sends) \<Rightarrow> Some (r, p', sends)
      | (Inr attempt', p', sends) \<Rightarrow>
          Option.bind (request_loop W class mth params (n + 1) attempt' p')
            (\<lambda>(r, q, more). Some (r, q, sends @ more)))"

definition rpc_request :: "helius_world \<Rightarrow> ApiClass \<Rightarrow> string \<Rightarrow> json \<Rightarrow> HeliusPool \<Rightarrow>
    ((helius_error + json) \<times> HeliusPool \<times> sent list) option" where
  "rpc_request W class mth params p = request_loop W class mth params 0 0 p"

text \<open>\<open>value[key] = x\<close>: a null becomes an object; anything else that is no object panics (\<open>None\<close>).\<close>

fun index_set :: "string \<Rightarrow> json \<Rightarrow> json \<Rightarrow> json option" where
  "index_set k x (JObject m) = Some (JObject (hm_modify k (\<lambda>_. x) m))"
| "index_set k x JNull = Some (JObject [(k, x)])"
| "index_set k x _ = None"

definition address_params :: "string \<Rightarrow> string option \<Rightarrow> json option" where
  "address_params address before =
     (let first = JString address
      in case before of
           None \<Rightarrow> Some (JArray [first])
         | Some b \<Rightarrow> map_option (\<lambda>x. JArray [x]) (index_set ''before'' (JString b) first))"

text \<open>The outer \<open>None\<close> is the panic while the parameters are built.\<close>

definition get_transactions_for_address where
  "get_transactions_for_address W address before p =
     map_option (\<lambda>params. rpc_request W ApiEnhanced ''getTransactionsForAddress'' params p)
       (address_params address before)"

definition get_transfers_for_address where
  "get_transfers_for_address W address p =
     rpc_request W ApiEnhanced ''getTransfersByAddress'' (JArray [JString address]) p"

section \<open>Buckets stay within their capacity\<close>

fun fin_val :: "f64 \<Rightarrow> rat" where
  "fin_val (Fin x) = x"
| "fin_val _ = 0"

definition level_ok :: "f64 \<Rightarrow> f64 \<Rightarrow> bool" where
  "level_ok cap t \<longleftrightarrow> (\<exists>c n. cap = Fin (of_nat c) \<and> c < 2 ^ 32 \<and> t = Fin n \<and> 0 \<le> n \<and> n \<le> of_nat c)"

definition tb_ok :: "TokenBucket \<Rightarrow> bool" where
  "tb_ok b \<longleftrightarrow> level_ok (tb_capacity b) (tb_tokens b)"

lemma representable_nat: "c \<le> 2 ^ 53 \<Longrightarrow> representable (of_nat c)"
  using representable_int [of "int c"] by (simp add: nat_le_iff le_nat_iff of_nat_le_iff [symmetric])

lemma representable_0 [simp]: "representable 0"
  using representable_nat [of 0] by simp

lemma representable_1 [simp]: "representable 1"
  using representable_nat [of 1] by simp

lemma rnd_nonneg: "0 \<le> x \<Longrightarrow> f64_le (Fin 0) (rnd x)"
  by (rule rnd_ge_representable) simp_all

lemma f64_nonneg_iff: "f64_le (Fin 0) a \<longleftrightarrow> a = F_pinf \<or> (\<exists>x. a = Fin x \<and> 0 \<le> x)"
  by (cases a) (auto simp: f64_le_def)

lemma f64_add_nonneg: "f64_le (Fin 0) a \<Longrightarrow> f64_le (Fin 0) b \<Longrightarrow> f64_le (Fin 0) (f64_add a b)"
  using rnd_nonneg by (cases a; cases b) (auto simp: f64_le_cases)

lemma f64_mul_nonneg: "f64_le (Fin 0) a \<Longrightarrow> 0 \<le> c \<Longrightarrow> c \<noteq> 0 \<or> a \<noteq> F_pinf \<Longrightarrow> f64_le (Fin 0) (f64_mul a (Fin c))"
  using rnd_nonneg by (cases a) (auto simp: f64_le_cases signed_inf_def)

lemma level_ok_minI:
  assumes "level_ok cap t" "f64_le (Fin 0) e"
  shows "level_ok cap (f64_min (f64_add t e) cap)"
proof -
  obtain c n where c: "cap = Fin (of_nat c)" "c < 2 ^ 32" "t = Fin n" "0 \<le> n" "n \<le> of_nat c"
    using assms(1) by (auto simp: level_ok_def)
  have "f64_le (Fin 0) (f64_add t e)"
    using assms(2) c by (intro f64_add_nonneg) simp_all
  then have "\<exists>m. f64_min (f64_add t e) cap = Fin m \<and> 0 \<le> m \<and> m \<le> of_nat c"
    using c by (cases "f64_add t e") (auto simp: f64_min_def f64_le_def)
  then show ?thesis
    using c unfolding level_ok_def by blast
qed

lemma as_secs_nonneg: "0 \<le> d \<Longrightarrow> f64_le (Fin 0) (as_secs_f64 d)"
proof -
  assume "0 \<le> d"
  then have "f64_le (Fin 0) (rnd (of_int (d div nanos_per_sec)))"
    by (intro rnd_nonneg) (simp add: pos_imp_zdiv_nonneg_iff)
  moreover have "f64_le (Fin 0) (rnd (of_int (d mod nanos_per_sec) / of_int nanos_per_sec))"
    by (intro rnd_nonneg) simp
  ultimately show ?thesis
    unfolding as_secs_f64_def by (intro f64_add_nonneg) simp_all
qed

text \<open>A refill by a positive time.\<close>

lemma level_ok_refill:
  assumes "level_ok cap t" "level_ok rate r" "f64_gt (as_secs_f64 (duration_since now since)) (Fin 0)"
  shows "level_ok cap (f64_min (f64_add t (f64_mul (as_secs_f64 (duration_since now since)) rate)) cap)"
proof -
  let ?e = "as_secs_f64 (duration_since now since)"
  obtain c where c: "rate = Fin (of_nat c)"
    using assms(2) by (auto simp: level_ok_def)
  show ?thesis
  proof (cases "c = 0 \<and> ?e = F_pinf")
    case True
    then have "f64_mul ?e rate = F_nan"
      using c by (simp add: signed_inf_def)
    then have "f64_min (f64_add t (f64_mul ?e rate)) cap = cap"
      using assms(1) by (cases t) (auto simp: level_ok_def f64_min_def)
    then show ?thesis
      using assms(1) by (auto simp: level_ok_def)
  next
    case False
    then have "f64_le (Fin 0) (f64_mul ?e rate)"
      using assms(3) unfolding c by (intro f64_mul_nonneg) (auto simp: f64_le_def)
    then show ?thesis
      by (rule level_ok_minI [OF assms(1)])
  qed
qed

lemma level_ok_cap: "level_ok cap t \<Longrightarrow> level_ok cap cap"
  by (auto simp: level_ok_def)

lemma tb_ok_refill: "tb_ok b \<Longrightarrow> tb_ok (tb_refill now b)"
  using level_ok_refill [OF _ level_ok_cap]
  by (auto simp: tb_ok_def tb_refill_def Let_def)

text \<open>Taking \<open>m\<close> whole tokens from a level of at least \<open>m\<close> leaves the level in range, and takes at
  least \<open>m\<close> from the level rounded up.\<close>

lemma level_ok_take:
  assumes "level_ok cap (Fin t)" "of_nat m \<le> t"
  obtains r where "f64_sub (Fin t) (Fin (of_nat m)) = Fin r" "level_ok cap (Fin r)" "\<lceil>r\<rceil> \<le> \<lceil>t\<rceil> - int m"
proof -
  obtain c where c: "cap = Fin (of_nat c)" "c < 2 ^ 32" "0 \<le> t" "t \<le> of_nat c"
    using assms(1) by (auto simp: level_ok_def)
  let ?u = "\<lceil>t\<rceil> - int m"
  have u: "t - of_nat m \<le> of_int ?u" "0 \<le> ?u"
    using ceiling_mono [OF assms(2)] by simp_all
  have tc: "\<lceil>t\<rceil> \<le> int c"
    using c(4) by (simp add: ceiling_le_iff)
  have "representable (of_int ?u)"
    using u(2) tc c(2) by (intro representable_int) auto
  then obtain r where r: "rnd (t - of_nat m) = Fin r" "0 \<le> r" "r \<le> of_int ?u"
    using rnd_between [of 0 "t - of_nat m" "of_int ?u"] u assms(2) by auto
  have "\<lceil>r\<rceil> \<le> ?u"
    using r(3) by (simp add: ceiling_le_iff)
  moreover have "of_int ?u \<le> (of_nat c :: rat)"
    using tc by (metis diff_le_eq of_int_le_iff of_int_of_nat_eq of_nat_0_le_iff add_increasing2)
  ultimately show ?thesis
    using that [of r] r c by (auto simp: f64_sub_def level_ok_def)
qed

text \<open>The wait asked for is defined: the deficit is at most the cost and the rate at least \<open>1/1024\<close>.\<close>

lemma wait_defined:
  assumes "level_ok rate r" "0 \<le> t" "t \<le> of_nat m" "m < 2 ^ 32"
  obtains d where "from_secs_f64 (f64_div (f64_sub (Fin (of_nat m)) (Fin t)) (f64_max rate (f64_lit (1 / 1000)))) = Some d"
    "0 \<le> d" "d \<le> int m * 1024 * nanos_per_sec"
proof -
  have m: "representable (of_nat m)"
    using assms(4) by (intro representable_nat) simp
  obtain e where e: "rnd (of_nat m - t) = Fin e" "0 \<le> e" "e \<le> of_nat m"
    using rnd_between [of 0 "of_nat m - t" "of_nat m"] assms(2,3) m by auto
  have low: "representable (1 / 1024)"
    using representable_dyadic [of 1 "- 10"] by (simp add: pow2_def)
  obtain v where v: "f64_lit (1 / 1000) = Fin v" "1 / 1024 \<le> v"
    using rnd_between [of "1 / 1024" "1 / 1000" 1] low by (auto simp: f64_lit_def)
  obtain c where "rate = Fin (of_nat c)"
    using assms(1) by (auto simp: level_ok_def)
  then have "f64_max rate (f64_lit (1 / 1000)) = Fin (max (of_nat c) v)"
    using v by (simp add: f64_max_def max_def)
  then obtain q where q: "f64_max rate (f64_lit (1 / 1000)) = Fin q" "1 / 1024 \<le> q"
    using v(2) by (meson le_max_iff_disj)
  have "e / q \<le> e / (1 / 1024)"
    using q(2) e(2) by (intro divide_left_mono) auto
  also have "\<dots> \<le> of_nat (m * 1024)"
    using e(3) by simp
  finally have eq: "e / q \<le> of_nat (m * 1024)" .
  have "representable (of_nat (m * 1024))"
    using assms(4) by (intro representable_nat) simp
  then obtain w where w: "rnd (e / q) = Fin w" "0 \<le> w" "w \<le> of_nat (m * 1024)"
    using rnd_between [of 0 "e / q" "of_nat (m * 1024)"] eq e(2) q(2) by auto
  have "w * of_int nanos_per_sec \<le> of_nat (m * 1024) * of_int nanos_per_sec"
    using w(3) by (intro mult_right_mono) auto
  also have "\<dots> = of_int (int m * 1024 * nanos_per_sec)"
    by simp
  finally have "rhe (w * of_int nanos_per_sec) \<le> int m * 1024 * nanos_per_sec"
    by (metis rhe_mono rhe_of_int)
  moreover have "0 \<le> rhe (w * of_int nanos_per_sec)"
    using rhe_mono [of 0 "w * of_int nanos_per_sec"] w(2) by simp
  moreover have "int m * 1024 * nanos_per_sec < 2 ^ 64 * nanos_per_sec"
    using assms(4) by simp
  ultimately show ?thesis
    using that [of "rhe (w * of_int nanos_per_sec)"] e q w by (auto simp: f64_sub_def from_secs_f64_def)
qed

lemma tb_wait_defined:
  assumes "tb_ok b" "\<not> f64_ge (tb_tokens b) (Fin 1)"
  obtains d where "tb_wait b = Some d" "0 \<le> d" "d \<le> 1024 * nanos_per_sec"
proof -
  obtain n where n: "tb_tokens b = Fin n" "0 \<le> n" "n \<le> of_nat 1"
    using assms by (auto simp: tb_ok_def level_ok_def)
  have "level_ok (tb_capacity b) (tb_tokens b)"
    using assms(1) by (simp add: tb_ok_def)
  from wait_defined [OF this n(2,3)] show ?thesis
    using that n(1) by (auto simp: tb_wait_def)
qed

text \<open>Every acquisition: granted against at least one token, of which at least one is taken from the
  level rounded up; or refused with a wait of at most 1024 seconds.\<close>

lemma tb_try_acquire_cases:
  assumes "tb_ok b"
  obtains (granted) b' where "tb_try_acquire now b = (None, b')" "tb_ok b'"
      "1 \<le> fin_val (tb_tokens (tb_refill now b))"
      "\<lceil>fin_val (tb_tokens b')\<rceil> \<le> \<lceil>fin_val (tb_tokens (tb_refill now b))\<rceil> - 1"
      "tb_capacity b' = tb_capacity b" "tb_last_refill b' = tb_last_refill (tb_refill now b)"
  | (refused) d where "tb_try_acquire now b = (Some d, tb_refill now b)"
      "tb_wait (tb_refill now b) = Some d" "0 \<le> d" "d \<le> 1024 * nanos_per_sec"
      "fin_val (tb_tokens (tb_refill now b)) < 1"
proof -
  let ?r = "tb_refill now b"
  have ok: "tb_ok ?r"
    by (rule tb_ok_refill [OF assms])
  have cap: "tb_capacity ?r = tb_capacity b"
    by (simp add: tb_refill_def Let_def)
  obtain t where t: "tb_tokens ?r = Fin t"
    using ok by (auto simp: tb_ok_def level_ok_def)
  show ?thesis
  proof (cases "1 \<le> t")
    case True
    then obtain r where r: "f64_sub (Fin t) (Fin (of_nat 1)) = Fin r" "level_ok (tb_capacity ?r) (Fin r)"
        "\<lceil>r\<rceil> \<le> \<lceil>t\<rceil> - int 1"
      using level_ok_take [of "tb_capacity ?r" t 1] ok t by (auto simp: tb_ok_def)
    then show ?thesis
      using granted [of "?r\<lparr>tb_tokens := Fin r\<rparr>"] True t cap
      by (simp add: tb_try_acquire_def tb_ok_def)
  next
    case False
    then have low: "\<not> f64_ge (tb_tokens ?r) (Fin 1)"
      using t by simp
    then obtain d where d: "tb_wait ?r = Some d" "0 \<le> d" "d \<le> 1024 * nanos_per_sec"
      using tb_wait_defined [OF ok] by blast
    show ?thesis
      using refused [OF _ d] d(1) low False t by (simp add: tb_try_acquire_def Let_def)
  qed
qed

lemma tb_ok_try_acquire: "tb_ok b \<Longrightarrow> tb_ok (snd (tb_try_acquire now b))"
  by (rule tb_try_acquire_cases [of b now]) (auto simp: tb_ok_refill)

text \<open>
  The contract both rate limiters of the program keep at one instant: a grant needs a level of at least
  the cost and takes it from the level rounded up, a refusal takes nothing. So a burst is bounded by
  the level it starts from.
\<close>

locale burst_bucket =
  fixes acquire :: "'b \<Rightarrow> int option \<times> 'b" and level :: "'b \<Rightarrow> rat" and ok :: "'b \<Rightarrow> bool" and cost :: nat
  assumes ok_acquire: "ok b \<Longrightarrow> ok (snd (acquire b))"
    and level_nonneg: "ok b \<Longrightarrow> 0 \<le> level b"
    and grant: "ok b \<Longrightarrow> fst (acquire b) = None \<Longrightarrow> \<lceil>level (snd (acquire b))\<rceil> \<le> \<lceil>level b\<rceil> - int cost"
    and refuse: "ok b \<Longrightarrow> fst (acquire b) \<noteq> None \<Longrightarrow> level (snd (acquire b)) \<le> level b"
begin

text \<open>The grants among \<open>n\<close> acquisitions in a row.\<close>

primrec grants :: "nat \<Rightarrow> 'b \<Rightarrow> nat" where
  "grants 0 b = 0"
| "grants (Suc n) b = (if fst (acquire b) = None then 1 else 0) + grants n (snd (acquire b))"

lemma burst_bounded: "ok b \<Longrightarrow> int (grants n b * cost) \<le> \<lceil>level b\<rceil>"
proof (induction n arbitrary: b)
  case 0
  then show ?case
    using level_nonneg ceiling_mono [of 0 "level b"] by simp
next
  case (Suc n)
  note IH = Suc.IH [OF ok_acquire [OF Suc.prems]]
  show ?case
  proof (cases "fst (acquire b) = None")
    case True
    with IH grant [OF Suc.prems] show ?thesis by (simp add: algebra_simps)
  next
    case False
    with IH ceiling_mono [OF refuse [OF Suc.prems]] show ?thesis by auto
  qed
qed

end

lemma tb_refill_now: "now \<le> tb_last_refill b \<Longrightarrow> tb_refill now b = b"
proof -
  assume "now \<le> tb_last_refill b"
  then have "duration_since now (tb_last_refill b) = 0"
    by (simp add: duration_since_def)
  moreover have "as_secs_f64 0 = Fin 0"
    using representable_0 by (simp add: as_secs_f64_def representable_def)
  ultimately show ?thesis
    by (simp add: tb_refill_def)
qed

interpretation tb: burst_bucket "tb_try_acquire now" "\<lambda>b. fin_val (tb_tokens b)"
  "\<lambda>b. tb_ok b \<and> now \<le> tb_last_refill b" 1 for now
proof unfold_locales
  fix b :: TokenBucket
  assume h: "tb_ok b \<and> now \<le> tb_last_refill b"
  then have ok: "tb_ok b" and same: "tb_refill now b = b"
    by (simp_all add: tb_refill_now)
  show "tb_ok (snd (tb_try_acquire now b)) \<and> now \<le> tb_last_refill (snd (tb_try_acquire now b))"
    using h same by (rule_tac tb_try_acquire_cases [OF ok, of now]) auto
  show "0 \<le> fin_val (tb_tokens b)"
    using ok by (auto simp: tb_ok_def level_ok_def)
  show "\<lceil>fin_val (tb_tokens (snd (tb_try_acquire now b)))\<rceil> \<le> \<lceil>fin_val (tb_tokens b)\<rceil> - int 1"
    if "fst (tb_try_acquire now b) = None"
    using that same by (rule_tac tb_try_acquire_cases [OF ok, of now]) auto
  show "fin_val (tb_tokens (snd (tb_try_acquire now b))) \<le> fin_val (tb_tokens b)"
    if "fst (tb_try_acquire now b) \<noteq> None"
    using that same by (rule_tac tb_try_acquire_cases [OF ok, of now]) auto
qed

section \<open>The state of the pool\<close>

definition pk_ok :: "ProviderKey \<Rightarrow> bool" where
  "pk_ok k \<longleftrightarrow> map fst (pk_buckets k) = [ApiRpc, ApiEnhanced, ApiWallet] \<and> (\<forall>(c, b) \<in> set (pk_buckets k). tb_ok b)"

text \<open>What tasks may do to one key, in any order and at any instants.\<close>

inductive key_step :: "ProviderKey \<Rightarrow> ProviderKey \<Rightarrow> bool" where
  ks_acquire: "key_step k (snd (pk_try_acquire now class k))"
| ks_success: "key_step k (pk_record_success k)"
| ks_failure: "key_step k (pk_record_failure threshold now k)"
| ks_cooldown: "key_step k (pk_apply_cooldown d now k)"

inductive pool_step :: "HeliusPool \<Rightarrow> HeliusPool \<Rightarrow> bool" where
  ps_key: "i < length (hp_providers p) \<Longrightarrow> key_step (hp_providers p ! i) k \<Longrightarrow>
     pool_step p (p\<lparr>hp_providers := (hp_providers p)[i := k]\<rparr>)"
| ps_cursor: "pool_step p (p\<lparr>hp_next := (hp_next p + 1) mod 2 ^ 64\<rparr>)"
| ps_usage: "pool_step p (record_usage pid class ts p)"

abbreviation pool_steps :: "HeliusPool \<Rightarrow> HeliusPool \<Rightarrow> bool" where
  "pool_steps \<equiv> pool_step\<^sup>*\<^sup>*"

definition pool_ok :: "HeliusPool \<Rightarrow> bool" where
  "pool_ok p \<longleftrightarrow> (\<forall>k \<in> set (hp_providers p). pk_ok k) \<and> length (hp_usage p) \<le> 10000"

definition rates_ok :: "HeliusConfig \<Rightarrow> bool" where
  "rates_ok cfg \<longleftrightarrow> hc_rpc_rate_per_second cfg < 2 ^ 32 \<and> hc_enhanced_rate_per_second cfg < 2 ^ 32
     \<and> hc_wallet_rate_per_second cfg < 2 ^ 32"

lemma tb_ok_new: "rate < 2 ^ 32 \<Longrightarrow> tb_ok (tb_new rate now)"
  by (simp add: tb_ok_def tb_new_def level_ok_def)

lemma pk_ok_new: "rpc < 2 ^ 32 \<Longrightarrow> e < 2 ^ 32 \<Longrightarrow> w < 2 ^ 32 \<Longrightarrow> pk_ok (pk_new i k rpc e w now)"
  by (simp add: pk_ok_def pk_new_def tb_ok_new)

lemma pool_ok_new: "rates_ok cfg \<Longrightarrow> pool_ok (hp_new keys cfg now)"
  by (auto simp: pool_ok_def hp_new_def rates_ok_def in_set_enumerate_eq intro!: pk_ok_new)

lemma pk_ok_map_of: "pk_ok k \<Longrightarrow> \<exists>b. map_of (pk_buckets k) class = Some b \<and> tb_ok b"
proof -
  assume k: "pk_ok k"
  then have "class \<in> fst ` set (pk_buckets k)"
    unfolding pk_ok_def by (cases "class") (metis (no_types) list.set_intros list.set_map)+
  then obtain b where "map_of (pk_buckets k) class = Some b"
    by (metis map_of_eq_None_iff not_None_eq)
  with k show ?thesis
    unfolding pk_ok_def by (auto dest!: map_of_SomeD)
qed

lemma pk_ok_try_acquire: "pk_ok k \<Longrightarrow> pk_ok (snd (pk_try_acquire now class k))"
proof -
  assume k: "pk_ok k"
  obtain b where b: "map_of (pk_buckets k) class = Some b" "tb_ok b"
    using pk_ok_map_of [OF k] by blast
  have "tb_ok (snd (tb_try_acquire now b))"
    by (rule tb_ok_try_acquire [OF b(2)])
  then show ?thesis
    using k b(1) unfolding pk_ok_def pk_try_acquire_def
    by (auto simp: Let_def case_prod_beta comp_def cond_case_prod_eta if_distrib [of fst] cong: if_cong split: option.splits)
qed

lemma pk_ok_step: "key_step k k' \<Longrightarrow> pk_ok k \<Longrightarrow> pk_ok k'"
proof (induction rule: key_step.induct)
  case (ks_acquire k now c)
  then show ?case by (rule pk_ok_try_acquire)
qed (auto simp: pk_ok_def pk_record_success_def pk_record_failure_def pk_apply_cooldown_def Let_def)

lemma bump_usage_length: "bump_usage pid class w us = Some us' \<Longrightarrow> length us' = length us"
  by (induction us arbitrary: us') (auto split: if_splits)

lemma usage_bounded: "length (hp_usage p) \<le> 10000 \<Longrightarrow> length (hp_usage (record_usage pid class ts p)) \<le> 10000"
  by (auto simp: record_usage_def Let_def bump_usage_length split: option.splits)

lemma record_usage_providers [simp]: "hp_providers (record_usage pid class ts p) = hp_providers p"
  by (simp add: record_usage_def Let_def split: option.splits)

lemma pool_ok_step: "pool_step p q \<Longrightarrow> pool_ok p \<Longrightarrow> pool_ok q"
proof (induction rule: pool_step.induct)
  case (ps_key i p k)
  then have "pk_ok k"
    by (meson pk_ok_step nth_mem pool_ok_def)
  with ps_key.prems show ?case
    by (auto simp: pool_ok_def dest: set_update_subset_insert [THEN subsetD])
next
  case (ps_cursor p)
  then show ?case by (simp add: pool_ok_def)
next
  case (ps_usage pid c ts p)
  then show ?case
    unfolding pool_ok_def record_usage_providers using usage_bounded by blast
qed

lemma pool_ok_reachable: "pool_steps p q \<Longrightarrow> pool_ok p \<Longrightarrow> pool_ok q"
  by (induction rule: rtranclp_induct) (auto intro: pool_ok_step)

text \<open>How many of \<open>n\<close> acquisitions at one instant are granted.\<close>

primrec burst :: "nat \<Rightarrow> int \<Rightarrow> TokenBucket \<Rightarrow> nat" where
  "burst 0 now b = 0"
| "burst (Suc n) now b =
     (case tb_try_acquire now b of (w, b') \<Rightarrow> (if w = None then 1 else 0) + burst n now b')"

lemma burst_grants: "burst n now b = tb.grants now n b"
  by (induction n arbitrary: b) (simp_all add: case_prod_beta)

text \<open>In every state that tasks can bring a new pool into, by any interleaving of acquisitions,
  successes, failures and cooldowns on its keys at any instants, each key keeps the three buckets and
  each bucket holds a finite number of tokens between zero and its rate; an acquisition is granted only
  against a whole token, and otherwise the wait is computed without a panic and is at most 1024 seconds;
  however many acquisitions arrive at one instant, no more are granted than the rate; and the usage
  accounting never exceeds ten thousand rows.\<close>

theorem token_buckets_stay_in_range:
  assumes "rates_ok cfg" "pool_steps (hp_new keys cfg t0) p" "k \<in> set (hp_providers p)"
    "map_of (pk_buckets k) cls = Some b"
  shows "map fst (pk_buckets k) = [ApiRpc, ApiEnhanced, ApiWallet] \<and> length (hp_usage p) \<le> 10000
    \<and> (\<exists>rate level. tb_capacity b = Fin (of_nat rate) \<and> tb_tokens b = Fin level \<and> 0 \<le> level \<and> level \<le> of_nat rate
       \<and> (now \<le> tb_last_refill b \<longrightarrow> burst n now b \<le> rate))
    \<and> (case fst (tb_try_acquire now b) of
         None \<Rightarrow> f64_ge (tb_tokens (tb_refill now b)) (Fin 1)
       | Some d \<Rightarrow> tb_wait (tb_refill now b) = Some d \<and> 0 \<le> d \<and> d \<le> from_secs 1024)"
proof -
  have ok: "pool_ok p"
    using pool_ok_reachable [OF assms(2) pool_ok_new [OF assms(1)]] .
  then have k: "pk_ok k" and u: "length (hp_usage p) \<le> 10000"
    using assms(3) by (simp_all add: pool_ok_def)
  have b: "tb_ok b"
    using pk_ok_map_of [OF k, of cls] assms(4) by simp
  then obtain rate level where l: "tb_capacity b = Fin (of_nat rate)" "tb_tokens b = Fin level" "0 \<le> level"
      "level \<le> of_nat rate"
    by (auto simp: tb_ok_def level_ok_def)
  have "burst n now b \<le> rate" if "now \<le> tb_last_refill b"
  proof -
    have "int (burst n now b) \<le> \<lceil>level\<rceil>"
      using tb.burst_bounded [of b now n] b that l(2) by (simp add: burst_grants)
    also have "\<dots> \<le> int rate"
      using l(4) by (simp add: ceiling_le_iff)
    finally show ?thesis by simp
  qed
  moreover have "case fst (tb_try_acquire now b) of
         None \<Rightarrow> f64_ge (tb_tokens (tb_refill now b)) (Fin 1)
       | Some d \<Rightarrow> tb_wait (tb_refill now b) = Some d \<and> 0 \<le> d \<and> d \<le> from_secs 1024"
    using tb_ok_refill [OF b, of now]
    by (rule_tac tb_try_acquire_cases [OF b, of now]) (auto simp: from_secs_def tb_ok_def level_ok_def)
  ultimately show ?thesis
    using k u l by (auto simp: pk_ok_def)
qed

section \<open>The choice of a key\<close>

text \<open>What the key visited at an offset offers, in the state before the choice: nothing when it cools
  down or its breaker is open, else a token or a wait.\<close>

definition offer :: "(nat \<Rightarrow> int) \<Rightarrow> ApiClass \<Rightarrow> nat \<Rightarrow> ProviderKey list \<Rightarrow> nat \<Rightarrow> (nat \<times> int option) option" where
  "offer clk class start ps offset =
     (let i = (start + offset) mod length ps
      in if pk_is_available (clk offset) (ps ! i) then Some (i, fst (pk_try_acquire (clk offset) class (ps ! i)))
         else None)"

text \<open>The choice as a function of the offers: the first token, else the first of the shortest waits.\<close>

fun best_offer :: "(nat \<times> int option) option list \<Rightarrow> (nat \<times> int) option \<Rightarrow> nat + (nat \<times> int) option" where
  "best_offer [] best = Inr best"
| "best_offer (None # xs) best = best_offer xs best"
| "best_offer (Some (i, None) # xs) best = Inl i"
| "best_offer (Some (i, Some wait) # xs) best =
     best_offer xs (case best of None \<Rightarrow> Some (i, wait)
                    | Some (j, w) \<Rightarrow> if wait < w then Some (i, wait) else Some (j, w))"

lemma pick_loop_length: "length (snd (pick_loop clk cls start os best ps)) = length ps"
proof (induction os arbitrary: best ps)
  case (Cons x os)
  then show ?case by (auto simp: Let_def split: prod.splits option.splits if_splits)
qed simp

lemma pick_loop_refines:
  assumes "distinct (map (\<lambda>x. (start + x) mod length ps) os)" "\<forall>x \<in> set os. start + x < 2 ^ 64"
  shows "fst (pick_loop clk cls start os best ps) = best_offer (map (offer clk cls start ps) os) best"
  using assms
proof (induction os arbitrary: best ps)
  case (Cons x os)
  let ?i = "(start + x) mod length ps"
  have i: "(start + x) mod 2 ^ 64 mod length ps = ?i"
    using Cons.prems(2) by simp
  show ?case
  proof (cases "pk_is_available (clk x) (ps ! ?i)")
    case False
    then show ?thesis
      using Cons by (simp add: i Let_def offer_def [of clk cls start ps x])
  next
    case True
    obtain w k where wk: "pk_try_acquire (clk x) cls (ps ! ?i) = (w, k)"
      by (cases "pk_try_acquire (clk x) cls (ps ! ?i)")
    have o: "offer clk cls start ps x = Some (?i, w)"
      using True wk by (simp add: offer_def Let_def)
    have same: "map (offer clk cls start (ps[?i := k])) os = map (offer clk cls start ps) os"
    proof (rule map_cong)
      fix y
      assume "y \<in> set os"
      then have "(start + y) mod length ps \<noteq> ?i"
        using Cons.prems(1) by (metis (no_types, lifting) distinct.simps(2) image_eqI list.set_map list.simps(9))
      then show "offer clk cls start (ps[?i := k]) y = offer clk cls start ps y"
        by (simp add: offer_def Let_def)
    qed simp
    show ?thesis
      using Cons True wk o by (cases w) (simp_all add: i Let_def same)
  qed
qed simp

lemma best_offer_Inl:
  "best_offer xs best = Inl i \<Longrightarrow> \<exists>pre post. xs = pre @ Some (i, None) # post \<and> (\<forall>j. Some (j, None) \<notin> set pre)"
proof (induction xs best rule: best_offer.induct)
  case (2 xs best)
  then obtain pre post where "xs = pre @ Some (i, None) # post" "\<forall>j. Some (j, None) \<notin> set pre"
    by auto
  then show ?case by (intro exI [of _ "None # pre"] exI [of _ post]) simp
next
  case (3 j xs best)
  then have "Some (j, None) # xs = [] @ Some (i, None) # xs" by simp
  then show ?case by (metis empty_iff list.set(1))
next
  case (4 j wait xs best)
  then obtain pre post where "xs = pre @ Some (i, None) # post" "\<forall>j. Some (j, None) \<notin> set pre"
    by auto
  then show ?case by (intro exI [of _ "Some (j, Some wait) # pre"] exI [of _ post]) simp
qed simp

lemma best_offer_Inr:
  "best_offer xs best = Inr r \<Longrightarrow>
     (case r of
        None \<Rightarrow> best = None \<and> set xs \<subseteq> {None}
      | Some (i, w) \<Rightarrow> (best = Some (i, w) \<or> Some (i, Some w) \<in> set xs)
          \<and> (\<forall>j v. best = Some (j, v) \<longrightarrow> w \<le> v)
          \<and> (\<forall>j v. Some (j, v) \<in> set xs \<longrightarrow> (\<exists>u. v = Some u \<and> w \<le> u)))"
proof (induction xs best rule: best_offer.induct)
  case (4 j wait xs best)
  then show ?case by (fastforce split: option.splits if_splits)
qed (auto split: option.splits)

lemma pick_loop_taken:
  assumes "distinct (map (\<lambda>x. (start + x) mod length ps) os)" "\<forall>x \<in> set os. start + x < 2 ^ 64" "ps \<noteq> []"
    "pick_loop clk cls start os best ps = (Inl i, qs)"
  shows "\<exists>x \<in> set os. i = (start + x) mod length ps \<and> qs ! i = snd (pk_try_acquire (clk x) cls (ps ! i))"
  using assms
proof (induction os arbitrary: best ps)
  case (Cons x os)
  let ?i = "(start + x) mod length ps"
  have i: "(start + x) mod 2 ^ 64 mod length ps = ?i" "?i < length ps"
    using Cons.prems by simp_all
  show ?case
  proof (cases "pk_is_available (clk x) (ps ! ?i)")
    case False
    then show ?thesis
      using Cons by (simp add: i Let_def)
  next
    case True
    obtain w k where wk: "pk_try_acquire (clk x) cls (ps ! ?i) = (w, k)"
      by (cases "pk_try_acquire (clk x) cls (ps ! ?i)")
    show ?thesis
    proof (cases w)
      case None
      then show ?thesis
        using Cons.prems True wk i by (auto simp: Let_def)
    next
      case (Some v)
      have "\<exists>y \<in> set os. i = (start + y) mod length (ps[?i := k]) \<and>
          qs ! i = snd (pk_try_acquire (clk y) cls (ps[?i := k] ! i))"
        using Cons.prems True wk i Some
        by (intro Cons.IH [where ps = "ps[?i := k]"]) (simp_all add: Let_def)
      then obtain y where y: "y \<in> set os" "i = (start + y) mod length ps"
          "qs ! i = snd (pk_try_acquire (clk y) cls (ps[?i := k] ! i))"
        by auto
      have "i \<noteq> ?i"
        using Cons.prems(1) y(1,2)
        by (metis (no_types, lifting) distinct.simps(2) image_eqI list.set_map list.simps(9))
      with y show ?thesis by auto
    qed
  qed
qed simp

lemma round_robin_inj: "x < n \<Longrightarrow> y < n \<Longrightarrow> (start + x) mod n = (start + y) mod (n::nat) \<Longrightarrow> x = y"
proof (induction x y rule: linorder_wlog)
  case (le x y)
  then have "n dvd (start + y) - (start + x)"
    by (metis add_le_cancel_left mod_eq_dvd_iff_nat)
  then have "n dvd y - x" "y - x < n"
    using le by simp_all
  then have "y - x = 0"
    by (metis dvd_imp_le not_gr_zero not_le)
  with le show ?case by simp
qed auto

lemma round_robin_distinct: "distinct (map (\<lambda>x. (start + x) mod n) [0..<n])"
  by (auto simp: distinct_map intro!: inj_onI dest: round_robin_inj)

text \<open>Unless the round-robin cursor overflows within the round, the choice of a provider returns a key only if
  the key is neither cooling down nor broken when it is visited, and visits the keys cyclically from the
  cursor. With no wait the key is the first in that order with a token, and one token of it is taken.
  With a wait no available key has a token, and the wait is the shortest any of them asks for. The error
  that all providers are unavailable is raised only if none is available, and the error that none is
  configured only for an empty pool. The cursor advances by one.\<close>

theorem pick_serves_an_available_key:
  assumes "hp_next p + length (hp_providers p) \<le> 2 ^ 64"
    "offers = map (offer clk cls (hp_next p) (hp_providers p)) [0..<length (hp_providers p)]"
  shows "case pick_provider clk clk2 cls p of
      (Inl e, q) \<Rightarrow> (e = NoProviders \<and> hp_providers p = [] \<and> q = p)
        \<or> (\<exists>w. e = AllUnavailable w \<and> hp_providers p \<noteq> [] \<and> set offers \<subseteq> {None})
    | (Inr (i, None), q) \<Rightarrow> hp_next q = (hp_next p + 1) mod 2 ^ 64
        \<and> (\<exists>x < length offers. offers ! x = Some (i, None) \<and> (\<forall>y < x. \<forall>j. offers ! y \<noteq> Some (j, None))
             \<and> hp_providers q ! i = snd (pk_try_acquire (clk x) cls (hp_providers p ! i)))
    | (Inr (i, Some w), q) \<Rightarrow> hp_next q = (hp_next p + 1) mod 2 ^ 64
        \<and> Some (i, Some w) \<in> set offers
        \<and> (\<forall>j v. Some (j, v) \<in> set offers \<longrightarrow> (\<exists>u. v = Some u \<and> w \<le> u))"
proof (cases "hp_providers p = []")
  case True
  then show ?thesis by (simp add: pick_provider_def)
next
  case False
  let ?ps = "hp_providers p" and ?n = "length (hp_providers p)"
  obtain r ps' where l: "pick_loop clk cls (hp_next p) [0..<?n] None ?ps = (r, ps')"
    by (cases "pick_loop clk cls (hp_next p) [0..<?n] None ?ps")
  have small: "\<forall>x \<in> set [0..<?n]. hp_next p + x < 2 ^ 64"
    using assms(1) by (metis add_less_cancel_left atLeastLessThan_iff less_le_trans set_upt)
  have ref: "r = best_offer offers None"
    using pick_loop_refines [OF round_robin_distinct small, of clk cls None] l
    unfolding assms(2) by simp
  show ?thesis
  proof (cases r)
    case (Inl i)
    obtain pre post where pp: "offers = pre @ Some (i, None) # post" "\<forall>j. Some (j, None) \<notin> set pre"
      using best_offer_Inl [of offers None i] ref Inl by auto
    let ?x = "length pre"
    have x: "?x < ?n" "offers ! ?x = Some (i, None)"
      using pp(1) arg_cong [OF assms(2), of length] by simp_all
    then have idx: "(hp_next p + ?x) mod ?n = i"
      by (simp add: assms(2) offer_def Let_def split: if_splits)
    obtain y where y: "y < ?n" "i = (hp_next p + y) mod ?n" "ps' ! i = snd (pk_try_acquire (clk y) cls (?ps ! i))"
      using pick_loop_taken [OF round_robin_distinct small False, of clk cls None i ps'] l Inl by auto
    have "y = ?x"
      by (rule round_robin_inj [where start = "hp_next p", OF y(1) x(1)]) (use idx y(2) in simp)
    moreover have "\<forall>z < ?x. \<forall>j. offers ! z \<noteq> Some (j, None)"
      using pp by (metis nth_append nth_mem)
    ultimately have "?x < length offers \<and> offers ! ?x = Some (i, None) \<and> (\<forall>z < ?x. \<forall>j. offers ! z \<noteq> Some (j, None))
        \<and> ps' ! i = snd (pk_try_acquire (clk ?x) cls (?ps ! i))"
      using pp(1) x(2) y(3) by simp
    then show ?thesis
      using False by (auto simp: pick_provider_def Let_def l Inl)
  next
    case (Inr b)
    then have spec: "best_offer offers None = Inr b"
      using ref by simp
    show ?thesis
    proof (cases b)
      case None
      then have "set offers \<subseteq> {None}"
        using best_offer_Inr [OF spec] by simp
      then show ?thesis
        using False by (simp add: pick_provider_def Let_def l Inr None split: prod.splits)
    next
      case (Some iw)
      obtain i w where iw: "iw = (i, w)" by (cases iw)
      show ?thesis
        using False best_offer_Inr [OF spec] by (simp add: pick_provider_def Let_def l Inr Some iw)
    qed
  qed
qed

section \<open>The request loop\<close>

definition transient :: "reply \<Rightarrow> bool" where
  "transient r = (case r of SendError _ \<Rightarrow> True | Response status hs _ \<Rightarrow> retryable (from_status status hs))"

definition answers :: "reply \<Rightarrow> json \<Rightarrow> bool" where
  "answers r v \<longleftrightarrow> (\<exists>status hs payload. r = Response status hs (Inr payload) \<and> is_success status
     \<and> json_get ''error'' payload = None
     \<and> v = (case json_get ''result'' payload of Some x \<Rightarrow> x | None \<Rightarrow> JNull))"

lemma retry_or_Inr: "retry_or cfg a err = Inr b \<longleftrightarrow> b = as_u32 (a + 1) \<and> b \<le> hc_max_retries cfg"
  by (auto simp: retry_or_def Let_def)

lemma retry_or_Inl: "retry_or cfg a err \<noteq> Inl (Inr v)"
  by (simp add: retry_or_def Let_def)

lemma from_status_success: "from_status status hs = OutSuccess \<longleftrightarrow> is_success status"
  by (simp add: from_status_def)

lemma handle_reply_retry:
  "fst (handle_reply cfg now i a r p) = Inr b \<Longrightarrow> transient r \<and> b = as_u32 (a + 1) \<and> b \<le> hc_max_retries cfg"
  by (cases r) (auto simp: handle_reply_def transient_def Let_def retry_or_Inr
      split: HttpOutcome.splits sum.splits option.splits)

lemma handle_reply_answer: "fst (handle_reply cfg now i a r p) = Inl (Inr v) \<Longrightarrow> answers r v"
  by (cases r) (auto simp: handle_reply_def answers_def Let_def retry_or_Inl from_status_success
      split: HttpOutcome.splits sum.splits option.splits)

lemma config_kept [simp]:
  "hp_config (on_key i f p) = hp_config p" "hp_config (record_usage pid cls ts p) = hp_config p"
  "hp_config (snd (handle_reply cfg now i a r p)) = hp_config p"
  "hp_config (snd (pick_provider clk clk2 cls p)) = hp_config p"
  by (auto simp: on_key_def record_usage_def handle_reply_def pick_provider_def Let_def
      split: reply.splits HttpOutcome.splits sum.splits option.splits prod.splits)

text \<open>A round sends nothing and ends with an error, or sends one request and is what its reply makes it.\<close>

lemma request_round_cases:
  obtains (unsent) e q where "request_round W cls mth params n a p = (Inl (Inl e), q, [])" "hp_config q = hp_config p"
  | (sent) out q s i p' where "request_round W cls mth params n a p = (out, q, [s])" "hp_config q = hp_config p"
      "se_url s = http_url (hp_config p) (pk_key (hp_providers p' ! i))"
      "out = fst (handle_reply (hp_config p) (hw_done W n) i a (hw_send W n (se_url s) (se_body s)) p')"
      "se_body s = rpc_body (hw_uuid W n) mth params"
proof -
  obtain c p' where pk: "pick_provider (hw_pick W n) (hw_pick2 W n) cls p = (c, p')"
    by (cases "pick_provider (hw_pick W n) (hw_pick2 W n) cls p")
  have cfg: "hp_config p' = hp_config p"
    using config_kept(4) [of "hw_pick W n" "hw_pick2 W n" cls p] unfolding pk by simp
  show ?thesis
  proof (cases c)
    case (Inl e)
    then show ?thesis
      using unsent [of e p'] pk cfg by (simp add: request_round_def)
  next
    case (Inr iw)
    obtain i w where iw: "iw = (i, w)" by (cases iw)
    let ?k = "hp_providers p' ! i"
    let ?u = "record_usage (pk_id ?k) cls (hw_utc W n) p'"
    let ?url = "http_url (hp_config p) (pk_key ?k)" and ?body = "rpc_body (hw_uuid W n) mth params"
    obtain out q where h: "handle_reply (hp_config p) (hw_done W n) i a (hw_send W n ?url ?body) ?u = (out, q)"
      by (cases "handle_reply (hp_config p) (hw_done W n) i a (hw_send W n ?url ?body) ?u")
    let ?s = "\<lparr>se_provider = i, se_slept = (case w of None \<Rightarrow> 0 | Some w \<Rightarrow> min w (from_secs 2)),
                    se_url = ?url, se_body = ?body\<rparr>"
    have cq: "hp_config q = hp_config p"
      using config_kept(3) [of "hp_config p" "hw_done W n" i a "hw_send W n ?url ?body" ?u] unfolding h by (simp add: cfg)
    have run: "request_round W cls mth params n a p = (out, q, [?s])"
      by (simp add: request_round_def pk Inr iw Let_def h)
    show ?thesis
      by (rule sent [OF run cq, of ?u i]) (simp_all add: h)
  qed
qed

abbreviation reply_to :: "helius_world \<Rightarrow> nat \<Rightarrow> sent \<Rightarrow> reply" where
  "reply_to W n s \<equiv> hw_send W n (se_url s) (se_body s)"

lemma request_loop_runs:
  assumes "hc_max_retries (hp_config p) < 2 ^ 32 - 1" "a \<le> hc_max_retries (hp_config p)"
  shows "\<exists>r q sends. request_loop W cls mth params n a p = Some (r, q, sends)
    \<and> length sends + a \<le> hc_max_retries (hp_config p) + 1
    \<and> (\<forall>m. Suc m < length sends \<longrightarrow> transient (reply_to W (n + m) (sends ! m)))
    \<and> (\<forall>v. r = Inr v \<longrightarrow> sends \<noteq> [] \<and> answers (reply_to W (n + length sends - 1) (last sends)) v)"
  using assms
proof (induction "hc_max_retries (hp_config p) - a" arbitrary: a n p rule: less_induct)
  case less
  show ?case
  proof (cases rule: request_round_cases [of W cls mth params n a p])
    case (unsent e q)
    then have "request_loop W cls mth params n a p = Some (Inl e, q, [])"
      by (subst request_loop.simps) simp
    then show ?thesis
      using less.prems(2) by auto
  next
    case (sent out q s i p')
    show ?thesis
    proof (cases out)
      case (Inl r)
      then have run: "request_loop W cls mth params n a p = Some (r, q, [s])"
        using sent(1) by (subst request_loop.simps) simp
      have "answers (reply_to W n s) v" if "r = Inr v" for v
        using handle_reply_answer [of "hp_config p" "hw_done W n" i a "reply_to W n s" p' v] sent(4) Inl that by simp
      then show ?thesis
        using less.prems(2) by (intro exI [of _ r] exI [of _ q] exI [of _ "[s]"]) (simp add: run)
    next
      case (Inr b)
      have b: "transient (reply_to W n s)" "b = as_u32 (a + 1)" "b \<le> hc_max_retries (hp_config p)"
        using handle_reply_retry [of "hp_config p" "hw_done W n" i a "reply_to W n s" p' b] sent(4) Inr by auto
      have b1: "b = a + 1"
        using less.prems b(2) by simp
      obtain r z sends where rec: "request_loop W cls mth params (n + 1) b q = Some (r, z, sends)"
          "length sends + b \<le> hc_max_retries (hp_config p) + 1"
          "\<forall>m. Suc m < length sends \<longrightarrow> transient (reply_to W (n + 1 + m) (sends ! m))"
          "\<forall>v. r = Inr v \<longrightarrow> sends \<noteq> [] \<and> answers (reply_to W (n + 1 + length sends - 1) (last sends)) v"
        using less.hyps [of q b "n + 1"] less.prems b(3) b1 unfolding sent(2) by fastforce
      have run: "request_loop W cls mth params n a p = Some (r, z, [s] @ sends)"
        using sent(1) Inr rec(1) by (subst request_loop.simps) simp
      have "\<forall>m. Suc m < length ([s] @ sends) \<longrightarrow> transient (reply_to W (n + m) (([s] @ sends) ! m))"
        using rec(3) b(1) by (auto simp: nth_Cons split: nat.splits)
      moreover have "\<forall>v. r = Inr v \<longrightarrow> [s] @ sends \<noteq> [] \<and>
          answers (reply_to W (n + length ([s] @ sends) - 1) (last ([s] @ sends))) v"
        using rec(4) by auto
      ultimately show ?thesis
        using rec(2) b1 by (intro exI [of _ r] exI [of _ z] exI [of _ "[s] @ sends"]) (simp add: run)
    qed
  qed
qed

text \<open>C17: A request to the pool always returns (for a retry limit below the largest 32-bit number), after at
  most one send more than the retry limit. A further send happens only after a transport error, a rate
  limit or a server error; an authentication, validation, decoding or JSON-RPC error is never retried.
  The result is a value only if the last reply was a success without an error member, and then it is the
  result member of that reply, or null.\<close>

theorem requests_return_within_the_retry_limit:
  assumes "hc_max_retries (hp_config p) < 2 ^ 32 - 1"
  shows "\<exists>r q sends. rpc_request W cls mth params p = Some (r, q, sends)
    \<and> length sends \<le> hc_max_retries (hp_config p) + 1
    \<and> (\<forall>n. Suc n < length sends \<longrightarrow> transient (hw_send W n (se_url (sends ! n)) (se_body (sends ! n))))
    \<and> (\<forall>v. r = Inr v \<longrightarrow> sends \<noteq> []
        \<and> answers (hw_send W (length sends - 1) (se_url (last sends)) (se_body (last sends))) v)"
  using request_loop_runs [OF assms, of 0 W cls mth params 0] by (simp add: rpc_request_def)

definition quiet_world :: helius_world where
  "quiet_world = \<lparr>hw_pick = \<lambda>_ _. 0, hw_pick2 = \<lambda>_ _. 0, hw_done = \<lambda>_. 0, hw_utc = \<lambda>_. 0, hw_uuid = show_nat,
     hw_send = \<lambda>_ _ _. Response 503 [] (Inl ''eof'')\<rparr>"

theorem requests_return_within_the_retry_limit_witness:
  "\<exists>r q sends. rpc_request quiet_world ApiRpc ''getSlot'' (JArray []) (hp_new [''k''] helius_default 0) = Some (r, q, sends)
     \<and> length sends \<le> 4"
proof -
  have "hc_max_retries (hp_config (hp_new [''k''] helius_default 0)) = 3"
    by (simp add: hp_new_def helius_default_def)
  then show ?thesis
    using requests_return_within_the_retry_limit [of "hp_new [''k''] helius_default 0" quiet_world ApiRpc
        "''getSlot''" "JArray []"] by auto
qed

theorem pick_serves_an_available_key_witness:
  "fst (pick_provider (\<lambda>_. 0) (\<lambda>_. 0) ApiRpc (hp_new [] helius_default 0)) = Inl NoProviders
    \<and> fst (pick_provider (\<lambda>_. 5) (\<lambda>_. 5) ApiRpc
        (on_key 0 (pk_apply_cooldown 10 0) (hp_new [''k''] helius_default 0))) \<noteq> Inl NoProviders"
proof
  show "fst (pick_provider (\<lambda>_. 0) (\<lambda>_. 0) ApiRpc (hp_new [] helius_default 0)) = Inl NoProviders"
    by (simp add: pick_provider_def hp_new_def)
  have "hp_next (on_key 0 (pk_apply_cooldown 10 0) (hp_new [''k''] helius_default 0)) +
      length (hp_providers (on_key 0 (pk_apply_cooldown 10 0) (hp_new [''k''] helius_default 0))) \<le> 2 ^ 64"
    by (simp add: hp_new_def on_key_def)
  from pick_serves_an_available_key [OF this refl, of "\<lambda>_. 5" ApiRpc "\<lambda>_. 5"]
  show "fst (pick_provider (\<lambda>_. 5) (\<lambda>_. 5) ApiRpc
        (on_key 0 (pk_apply_cooldown 10 0) (hp_new [''k''] helius_default 0))) \<noteq> Inl NoProviders"
    by (auto simp: hp_new_def on_key_def split: prod.splits)
qed

theorem token_buckets_stay_in_range_witness:
  "\<exists>b. map_of (pk_buckets (hd (hp_providers (hp_new [''k''] helius_default 7)))) ApiEnhanced = Some b
     \<and> burst 1000 7 b \<le> 2"
proof -
  let ?p = "hp_new [''k''] helius_default 7"
  have k: "hp_providers ?p = [pk_new ''helius_1'' ''k'' 10 2 2 7]"
    by code_simp
  have "rates_ok helius_default" "pool_steps ?p ?p" "hd (hp_providers ?p) \<in> set (hp_providers ?p)"
    "map_of (pk_buckets (hd (hp_providers ?p))) ApiEnhanced = Some (tb_new 2 7)"
    unfolding k by (simp_all add: rates_ok_def helius_default_def pk_new_def)
  from token_buckets_stay_in_range [OF this, of 7 1000] this(4) show ?thesis
    by (auto simp: tb_new_def)
qed

section \<open>What the request path does not do\<close>

text \<open>A rate limit on the only key is not retried: the next round finds the key cooling down and gives up,
  whatever the retry limit.\<close>

lemma cooling_only_key:
  assumes "hp_providers p = [k]" "blocked_until (clk 0) (pk_cooldown_until k) \<noteq> None"
  obtains w q where "pick_provider clk clk2 cls p = (Inl (AllUnavailable w), q)"
  using assms by (cases "shortest_loop clk2 cls [0] None [k]")
    (auto simp: pick_provider_def pk_is_available_def Let_def)

lemma rate_limit_on_the_only_key_gives_up:
  assumes "hp_providers p = [k]" "pick_provider (hw_pick W n) (hw_pick2 W n) cls p = (Inr (i, w), p')"
    "request_round W cls mth params n a p = (Inr b, q, [s])"
    "reply_to W n s = Response 429 hs payload"
    "hw_pick W (n + 1) 0 < hw_done W n + min (case header_u64 ''retry-after'' hs of Some d \<Rightarrow> from_secs d | None \<Rightarrow> from_secs 1) (from_secs 60)"
  shows "\<exists>w z. request_loop W cls mth params n a p = Some (Inl (AllUnavailable w), z, [s])"
proof -
  have len: "length (hp_providers p') = 1" and i: "i = 0"
    using assms(2) by (auto simp: pick_provider_def assms(1) Let_def split: if_splits prod.splits option.splits)
  then obtain k' where k': "hp_providers p' = [k']"
    by (metis One_nat_def length_0_conv length_Suc_conv)
  have lim: "from_status 429 hs = OutRateLimited (map_option from_secs (header_u64 ''retry-after'' hs))"
    by (simp add: from_status_def is_success_def)
  obtain k2 where k2: "hp_providers q = [k2]"
      "pk_cooldown_until k2 = Some (hw_done W n + min (case header_u64 ''retry-after'' hs of Some d \<Rightarrow> from_secs d | None \<Rightarrow> from_secs 1) (from_secs 60))"
    using assms(2-4) i k' lim
    by (auto simp: request_round_def Let_def handle_reply_def on_key_def pk_apply_cooldown_def option.case_distrib
        split: option.splits prod.splits)
  have "blocked_until (hw_pick W (n + 1) 0) (pk_cooldown_until k2) \<noteq> None"
    using assms(5) k2(2) by (simp add: blocked_until_def)
  then obtain w2 z where "pick_provider (hw_pick W (n + 1)) (hw_pick2 W (n + 1)) cls q = (Inl (AllUnavailable w2), z)"
    using cooling_only_key [OF k2(1)] by blast
  then have "request_loop W cls mth params (n + 1) b q = Some (Inl (AllUnavailable w2), z, [])"
    by (subst request_loop.simps) (simp add: request_round_def)
  then show ?thesis
    by (subst request_loop.simps) (simp add: assms(3))
qed

text \<open>A request that had to wait is sent after at most two seconds, and no token is ever taken for it.\<close>

lemma on_key_buckets:
  assumes "\<And>k. pk_buckets (f k) = pk_buckets k"
  shows "map pk_buckets (hp_providers (on_key i f p)) = map pk_buckets (hp_providers p)"
  using assms by (cases "i < length (hp_providers p)")
    (simp_all add: on_key_def map_update list_update_beyond, metis list_update_id nth_map)

lemma outcome_keeps_buckets [simp]:
  "pk_buckets (pk_record_failure t now k) = pk_buckets k" "pk_buckets (pk_record_success k) = pk_buckets k"
  "pk_buckets (pk_apply_cooldown d now k) = pk_buckets k"
  by (simp_all add: pk_record_failure_def pk_record_success_def pk_apply_cooldown_def Let_def)

lemma waiting_request_takes_no_token:
  assumes "pick_provider (hw_pick W n) (hw_pick2 W n) cls p = (Inr (i, Some w), p')"
  shows "\<exists>out q s. request_round W cls mth params n a p = (out, q, [s]) \<and> se_slept s \<le> from_secs 2
    \<and> map pk_buckets (hp_providers q) = map pk_buckets (hp_providers p')"
proof -
  have keep: "map pk_buckets (hp_providers (snd (handle_reply cfg now i a r x))) = map pk_buckets (hp_providers x)" for cfg now r x
    by (auto simp: handle_reply_def Let_def on_key_buckets split: reply.splits HttpOutcome.splits sum.splits option.splits)
  show ?thesis
    using assms keep
    by (auto simp: request_round_def Let_def case_prod_beta)
qed

text \<open>A JSON-RPC error first closes the breaker and resets the count, so such errors never open it.\<close>

lemma rpc_errors_never_open_the_breaker:
  assumes "1 < hc_max_retries cfg" "is_success status" "json_get ''error'' v = Some e" "i < length (hp_providers p)"
  shows "pk_open_until (hp_providers (snd (handle_reply cfg now i a (Response status hs (Inr v)) p)) ! i) = None"
  using assms
  by (simp add: handle_reply_def from_status_def on_key_def pk_record_success_def pk_record_failure_def)

text \<open>A success whose error member is null counts as an error; a history request with a cursor panics.\<close>

lemma null_error_is_an_error:
  "fst (handle_reply cfg now i a (Response 200 hs (Inr (JObject [(''result'', v), (''error'', JNull)]))) p)
     = Inl (Inl (RpcError JNull))"
  by (simp add: handle_reply_def from_status_def is_success_def)

lemma history_cursor_panics: "get_transactions_for_address W address (Some before) p = None"
  by (simp add: get_transactions_for_address_def address_params_def)

end
