(* ===== verification/Gmgn.thy ===== *)
theory Gmgn
  imports Pool
begin

text \<open>
  The GMGN client (\<open>gmgn.rs\<close>): the weighted bucket with its pause, the query loop, the response
  envelope and the triage of a token payload. The network, the clock, fresh ids and the JSON reader are
  fields of a record; the views of a JSON number as an integer or as text are another.
\<close>

section \<open>Weights\<close>

datatype RouteWeight = WLight | WStandard | WHeavy | WVeryHeavy

fun route_cost :: "RouteWeight \<Rightarrow> nat" where
  "route_cost WLight = 1"
| "route_cost WStandard = 2"
| "route_cost WHeavy = 3"
| "route_cost WVeryHeavy = 5"

definition route_weight :: "string \<Rightarrow> RouteWeight" where
  "route_weight route =
     (case alias_lookup
        [([''trenches'', ''trending''], WHeavy),
         ([''signal'', ''smartmoney'', ''kol''], WVeryHeavy),
         ([''info'', ''security''], WLight),
         ([''pool'', ''holders'', ''traders''], WStandard),
         ([''stats'', ''profits''], WHeavy),
         ([''activity'', ''created_tokens''], WStandard)] route of
        Some w \<Rightarrow> w | None \<Rightarrow> WStandard)"

section \<open>The weighted bucket\<close>

record WeightedBucket =
  wb_capacity :: f64
  wb_refill_per_second :: f64
  wb_tokens :: f64
  wb_last_refill :: int
  wb_pause_until :: "int option"

definition wb_new :: "nat \<Rightarrow> nat \<Rightarrow> int \<Rightarrow> WeightedBucket" where
  "wb_new capacity rate now =
     \<lparr>wb_capacity = Fin (of_nat capacity), wb_refill_per_second = Fin (of_nat rate),
      wb_tokens = Fin (of_nat capacity), wb_last_refill = now, wb_pause_until = None\<rparr>"

definition wb_add :: "int \<Rightarrow> WeightedBucket \<Rightarrow> WeightedBucket" where
  "wb_add now b =
     (let elapsed = as_secs_f64 (duration_since now (wb_last_refill b))
      in if f64_gt elapsed (Fin 0)
         then b\<lparr>wb_tokens := f64_min (f64_add (wb_tokens b) (f64_mul elapsed (wb_refill_per_second b))) (wb_capacity b),
                wb_last_refill := now\<rparr>
         else b)"

definition wb_refill :: "int \<Rightarrow> WeightedBucket \<Rightarrow> WeightedBucket" where
  "wb_refill now b =
     (case wb_pause_until b of
        Some pause \<Rightarrow> if now < pause then b else wb_add now (b\<lparr>wb_pause_until := None\<rparr>)
      | None \<Rightarrow> wb_add now b)"

definition wb_wait :: "nat \<Rightarrow> WeightedBucket \<Rightarrow> int option" where
  "wb_wait cost b =
     from_secs_f64 (f64_div (f64_sub (Fin (of_nat cost)) (wb_tokens b)) (f64_max (wb_refill_per_second b) (f64_lit (1 / 1000))))"

text \<open>That the wait is always defined is part of lemma \<open>wb_try_acquire_cases\<close>.\<close>

definition wb_try_acquire :: "int \<Rightarrow> nat \<Rightarrow> WeightedBucket \<Rightarrow> int option \<times> WeightedBucket" where
  "wb_try_acquire now cost b =
     (let b' = wb_refill now b
      in if f64_ge (wb_tokens b') (Fin (of_nat cost))
         then (None, b'\<lparr>wb_tokens := f64_sub (wb_tokens b') (Fin (of_nat cost))\<rparr>)
         else let wait = the (wb_wait cost b')
              in (Some (case wb_pause_until b' of
                          Some pause \<Rightarrow> (let pause_wait = duration_since pause now
                                        in if wait < pause_wait then pause_wait else wait)
                        | None \<Rightarrow> wait), b'))"

definition pause_for :: "int \<Rightarrow> int \<Rightarrow> WeightedBucket \<Rightarrow> WeightedBucket" where
  "pause_for d now b = b\<lparr>wb_pause_until := Some (now + d)\<rparr>"

definition wb_current_tokens :: "int \<Rightarrow> WeightedBucket \<Rightarrow> f64 \<times> WeightedBucket" where
  "wb_current_tokens now b = (let b' = wb_refill now b in (wb_tokens b', b'))"

section \<open>The client\<close>

record GmgnConfig =
  gc_base_url :: string
  gc_bucket_capacity :: nat
  gc_bucket_refill_per_second :: nat
  gc_timeout_seconds :: nat
  gc_enabled_routes :: "string list"

definition gmgn_default :: GmgnConfig where
  "gmgn_default = \<lparr>gc_base_url = ''https://openapi.gmgn.ai'', gc_bucket_capacity = 20,
     gc_bucket_refill_per_second = 20, gc_timeout_seconds = 30, gc_enabled_routes = []\<rparr>"

record HeaderPair =
  hd_name :: string
  hd_value :: string

record GmgnClient =
  gm_config :: GmgnConfig
  gm_api_key :: "string option"
  gm_bucket :: WeightedBucket

record GmgnEnvelope =
  ge_code :: int
  ge_message :: string
  ge_data :: json

definition envelope_is_error :: "GmgnEnvelope \<Rightarrow> bool" where
  "envelope_is_error e \<longleftrightarrow> ge_code e \<noteq> 0"

definition gmgn_new :: "GmgnConfig \<Rightarrow> string option \<Rightarrow> int \<Rightarrow> GmgnClient" where
  "gmgn_new cfg key now =
     \<lparr>gm_config = cfg, gm_api_key = key,
      gm_bucket = wb_new (gc_bucket_capacity cfg) (gc_bucket_refill_per_second cfg) now\<rparr>"

definition is_configured :: "GmgnClient \<Rightarrow> bool" where
  "is_configured c = (case gm_api_key c of Some k \<Rightarrow> \<not> is_blank k | None \<Rightarrow> False)"

datatype gmgn_error = KeyNotConfigured | RouteNotEnabled string | KeyMissing | GmgnNetwork string
  | GmgnDecode string | GmgnClientError nat string | GmgnServerError nat | PayloadNotJson string
  | EnvelopeError int string

definition build_headers :: "int \<Rightarrow> string \<Rightarrow> GmgnClient \<Rightarrow> gmgn_error + HeaderPair list" where
  "build_headers millis uuid c =
     (case gm_api_key c of
        None \<Rightarrow> Inl KeyMissing
      | Some k \<Rightarrow>
          if is_blank k then Inl KeyMissing
          else Inr [\<lparr>hd_name = ''X-APIKEY'', hd_value = k\<rparr>, \<lparr>hd_name = ''X-TIMESTAMP'', hd_value = show_int millis\<rparr>,
                    \<lparr>hd_name = ''X-CLIENT-ID'', hd_value = uuid\<rparr>,
                    \<lparr>hd_name = ''Content-Type'', hd_value = ''application/json''\<rparr>])"

text \<open>A \<open>BTreeMap\<close> is its list of entries in key order.\<close>

definition stable_query :: "(string \<times> string) list \<Rightarrow> string" where
  "stable_query params = join ''&'' (map (\<lambda>(k, v). k @ ''='' @ v) params)"

section \<open>Queries\<close>

datatype text_reply = TextSendError string | TextReply nat headers "string + string"

record gmgn_world =
  gw_clock :: "nat \<Rightarrow> int"
  gw_done :: "nat \<Rightarrow> int"
  gw_millis :: "nat \<Rightarrow> int"
  gw_uuid :: "nat \<Rightarrow> string"
  gw_send :: "nat \<Rightarrow> string \<Rightarrow> HeaderPair list \<Rightarrow> text_reply"
  gw_from_str :: "string \<Rightarrow> string + json"
  gw_as_i64 :: "json \<Rightarrow> int option"

definition query_url :: "GmgnConfig \<Rightarrow> string \<Rightarrow> (string \<times> string) list \<Rightarrow> string" where
  "query_url cfg route params =
     (let url = trim_end_matches CHR ''/'' (gc_base_url cfg) @ ''/'' @ route @ ''/api/v1''; query = stable_query params
      in if query = [] then url else url @ ''?'' @ query)"

definition read_envelope :: "gmgn_world \<Rightarrow> string \<Rightarrow> gmgn_error + GmgnEnvelope" where
  "read_envelope W body =
     (case gw_from_str W body of
        Inl e \<Rightarrow> Inl (PayloadNotJson e)
      | Inr value \<Rightarrow>
          (let env = \<lparr>ge_code = (case Option.bind (json_get ''code'' value) (gw_as_i64 W) of Some c \<Rightarrow> c | None \<Rightarrow> 0),
                      ge_message = (case Option.bind (json_get ''message'' value) as_str of Some m \<Rightarrow> m | None \<Rightarrow> []),
                      ge_data = (case json_get ''data'' value of Some d \<Rightarrow> d | None \<Rightarrow> JNull)\<rparr>
           in if envelope_is_error env then Inl (EnvelopeError (ge_code env) (ge_message env)) else Inr env))"

text \<open>What a reply makes of the loop: \<open>Inr\<close> continues with the bucket paused for that long.\<close>

definition gmgn_reply :: "gmgn_world \<Rightarrow> text_reply \<Rightarrow> (gmgn_error + GmgnEnvelope) + int" where
  "gmgn_reply W r =
     (case r of
        TextSendError e \<Rightarrow> Inl (Inl (GmgnNetwork e))
      | TextReply status hs (Inl e) \<Rightarrow> Inl (Inl (GmgnDecode e))
      | TextReply status hs (Inr body) \<Rightarrow>
          if status = 429
          then Inr (min (case header_u64 ''x-ratelimit-reset'' hs of Some n \<Rightarrow> from_secs n | None \<Rightarrow> from_secs 1) (from_secs 120))
          else if is_client_error status then Inl (Inl (GmgnClientError status body))
          else if \<not> is_success status then Inl (Inl (GmgnServerError status))
          else Inl (read_envelope W body))"

datatype gmgn_event = Slept int | Requested nat string "HeaderPair list"

partial_function (option) query_loop :: "gmgn_world \<Rightarrow> string \<Rightarrow> (string \<times> string) list \<Rightarrow> nat \<Rightarrow> GmgnClient \<Rightarrow>
    ((gmgn_error + GmgnEnvelope) \<times> GmgnClient \<times> gmgn_event list) option" where
  "query_loop W route params n c =
     (case wb_try_acquire (gw_clock W n) (route_cost (route_weight route)) (gm_bucket c) of
        (Some wait, b) \<Rightarrow>
          Option.bind (query_loop W route params (n + 1) (c\<lparr>gm_bucket := b\<rparr>))
            (\<lambda>(r, c', ev). Some (r, c', Slept (min wait (from_secs 5)) # ev))
      | (None, b) \<Rightarrow>
          (case build_headers (gw_millis W n) (gw_uuid W n) c of
             Inl e \<Rightarrow> Some (Inl e, c\<lparr>gm_bucket := b\<rparr>, [])
           | Inr hs \<Rightarrow>
               (let url = query_url (gm_config c) route params
                in case gmgn_reply W (gw_send W n url hs) of
                     Inl r \<Rightarrow> Some (r, c\<lparr>gm_bucket := b\<rparr>, [Requested n url hs])
                   | Inr pause \<Rightarrow>
                       Option.bind (query_loop W route params (n + 1)
                           (c\<lparr>gm_bucket := pause_for pause (gw_done W n) b\<rparr>))
                         (\<lambda>(r, c', ev). Some (r, c', Requested n url hs # Slept 100000000 # ev)))))"

definition gmgn_query :: "gmgn_world \<Rightarrow> string \<Rightarrow> (string \<times> string) list \<Rightarrow> GmgnClient \<Rightarrow>
    ((gmgn_error + GmgnEnvelope) \<times> GmgnClient \<times> gmgn_event list) option" where
  "gmgn_query W route params c =
     (if \<not> is_configured c then Some (Inl KeyNotConfigured, c, [])
      else if gc_enabled_routes (gm_config c) \<noteq> [] \<and> route \<notin> set (gc_enabled_routes (gm_config c))
      then Some (Inl (RouteNotEnabled route), c, [])
      else query_loop W route params 0 c)"

section \<open>Triage\<close>

record json_numbers =
  jn_as_u64 :: "json \<Rightarrow> nat option"
  jn_to_string :: "f64 \<Rightarrow> string"

fun as_bool :: "json \<Rightarrow> bool option" where
  "as_bool (JBool b) = Some b"
| "as_bool _ = None"

definition parse_decimal :: "('d, 'x) decimal_num_scheme \<Rightarrow> json_numbers \<Rightarrow> json \<Rightarrow> 'd option" where
  "parse_decimal D N v =
     (case v of JNumber n \<Rightarrow> dec_exact D (jn_to_string N n) | JString s \<Rightarrow> dec_exact D (trim s) | _ \<Rightarrow> None)"

record 'd TokenTriage =
  tt_mint :: string
  tt_symbol :: "string option"
  tt_liquidity_usd :: "'d option"
  tt_market_cap_usd :: "'d option"
  tt_smart_degen_count :: "nat option"
  tt_top_rat_trader_percentage :: "'d option"
  tt_top_bundler_trader_percentage :: "'d option"
  tt_fresh_wallet_rate :: "'d option"
  tt_private_vault_hold_rate :: "'d option"
  tt_is_wash_trading :: "bool option"
  tt_dex_bot :: "bool option"
  tt_sniper :: "bool option"
  tt_bundler :: "bool option"
  tt_rat_trader :: "bool option"

definition from_payload :: "('d, 'x) decimal_num_scheme \<Rightarrow> json_numbers \<Rightarrow> json \<Rightarrow> 'd TokenTriage" where
  "from_payload D N payload =
     (let dec = (\<lambda>k. parse_decimal D N (case json_get k payload of Some v \<Rightarrow> v | None \<Rightarrow> JNull));
          flag = (\<lambda>k. Option.bind (json_get k payload) as_bool)
      in \<lparr>tt_mint = (case Option.bind (or_else (json_get ''address'' payload) (json_get ''mint'' payload)) as_str of
                       Some s \<Rightarrow> s | None \<Rightarrow> []),
          tt_symbol = Option.bind (json_get ''symbol'' payload) as_str,
          tt_liquidity_usd = dec ''liquidity'', tt_market_cap_usd = dec ''market_cap'',
          tt_smart_degen_count = map_option as_u32 (Option.bind (json_get ''smart_degen_count'' payload) (jn_as_u64 N)),
          tt_top_rat_trader_percentage = dec ''top_rat_trader_percentage'',
          tt_top_bundler_trader_percentage = dec ''top_bundler_trader_percentage'',
          tt_fresh_wallet_rate = dec ''fresh_wallet_rate'',
          tt_private_vault_hold_rate = dec ''private_vault_hold_rate'',
          tt_is_wash_trading = flag ''is_wash_trading'', tt_dex_bot = flag ''dex_bot'',
          tt_sniper = flag ''sniper'', tt_bundler = flag ''bundler'', tt_rat_trader = flag ''rat_trader''\<rparr>)"

definition risk_flags :: "('d, 'x) decimal_num_scheme \<Rightarrow> 'd TokenTriage \<Rightarrow> string list" where
  "risk_flags D t =
     (if tt_is_wash_trading t = Some True then [''wash_trading''] else [])
     @ (if tt_dex_bot t = Some True then [''dex_bot_activity''] else [])
     @ (case tt_top_rat_trader_percentage t of
          Some p \<Rightarrow> if dec_lt D (dec_of_int D 30) p then [''rat_trader_heavy''] else [] | None \<Rightarrow> [])
     @ (case tt_fresh_wallet_rate t of
          Some r \<Rightarrow> if dec_lt D (dec_of_int D 50) r then [''fresh_wallet_heavy''] else [] | None \<Rightarrow> [])"

definition skip_candidate :: "'d TokenTriage \<Rightarrow> bool" where
  "skip_candidate t \<longleftrightarrow> tt_dex_bot t = Some True"

section \<open>The bucket stays in range\<close>

definition wb_ok :: "WeightedBucket \<Rightarrow> bool" where
  "wb_ok b \<longleftrightarrow> level_ok (wb_capacity b) (wb_tokens b) \<and> level_ok (wb_refill_per_second b) (wb_refill_per_second b)"

lemma wb_ok_add: "wb_ok b \<Longrightarrow> wb_ok (wb_add now b)"
  using level_ok_refill [of "wb_capacity b" "wb_tokens b" "wb_refill_per_second b"]
  by (auto simp: wb_ok_def wb_add_def Let_def)

lemma wb_ok_refill: "wb_ok b \<Longrightarrow> wb_ok (wb_refill now b)"
proof -
  assume b: "wb_ok b"
  then have "wb_ok (b\<lparr>wb_pause_until := None\<rparr>)"
    by (simp add: wb_ok_def)
  with b show ?thesis
    by (auto simp: wb_refill_def wb_ok_add split: option.splits)
qed

lemma wb_ok_pause: "wb_ok (pause_for d now b) = wb_ok b"
  by (simp add: wb_ok_def pause_for_def)

lemma wb_ok_new: "capacity < 2 ^ 32 \<Longrightarrow> rate < 2 ^ 32 \<Longrightarrow> wb_ok (wb_new capacity rate now)"
  by (simp add: wb_ok_def wb_new_def level_ok_def)

lemma wb_try_acquire_cases:
  assumes "wb_ok b" "cost < 2 ^ 32"
  obtains (granted) b' where "wb_try_acquire now cost b = (None, b')" "wb_ok b'"
      "of_nat cost \<le> fin_val (wb_tokens (wb_refill now b))"
      "\<lceil>fin_val (wb_tokens b')\<rceil> \<le> \<lceil>fin_val (wb_tokens (wb_refill now b))\<rceil> - int cost"
      "wb_last_refill b' = wb_last_refill (wb_refill now b)"
  | (refused) d where "wb_try_acquire now cost b = (Some d, wb_refill now b)"
      "wb_wait cost (wb_refill now b) \<noteq> None" "0 \<le> d"
      "fin_val (wb_tokens (wb_refill now b)) < of_nat cost"
proof -
  let ?r = "wb_refill now b"
  have ok: "wb_ok ?r"
    by (rule wb_ok_refill [OF assms(1)])
  obtain t where t: "wb_tokens ?r = Fin t" "0 \<le> t"
    using ok by (auto simp: wb_ok_def level_ok_def)
  show ?thesis
  proof (cases "of_nat cost \<le> t")
    case True
    then obtain r where r: "f64_sub (Fin t) (Fin (of_nat cost)) = Fin r" "level_ok (wb_capacity ?r) (Fin r)"
        "\<lceil>r\<rceil> \<le> \<lceil>t\<rceil> - int cost"
      using level_ok_take [of "wb_capacity ?r" t cost] ok t by (auto simp: wb_ok_def)
    then show ?thesis
      using granted [of "?r\<lparr>wb_tokens := Fin r\<rparr>"] True t ok
      by (simp add: wb_try_acquire_def wb_ok_def)
  next
    case False
    then have le: "t \<le> of_nat cost" by simp
    have rate: "level_ok (wb_refill_per_second ?r) (wb_refill_per_second ?r)"
      using ok by (simp add: wb_ok_def)
    obtain d where d: "wb_wait cost ?r = Some d" "0 \<le> d"
      using wait_defined [OF rate t(2) le assms(2)] t(1) by (metis wb_wait_def)
    then have "\<exists>e. wb_try_acquire now cost b = (Some e, ?r) \<and> 0 \<le> e"
      using False t by (auto simp: wb_try_acquire_def Let_def duration_since_def split: option.splits)
    then show ?thesis
      using refused False t d by auto
  qed
qed

lemma route_cost_small [simp]: "route_cost w < 2 ^ 32"
  by (cases w) simp_all

lemma wb_ok_try_acquire: "wb_ok b \<Longrightarrow> cost < 2 ^ 32 \<Longrightarrow> wb_ok (snd (wb_try_acquire now cost b))"
  by (rule wb_try_acquire_cases [of b cost now]) (auto simp: wb_ok_refill)

lemma as_secs_zero: "as_secs_f64 0 = Fin 0"
  using representable_0 by (simp add: as_secs_f64_def representable_def)

lemma wb_refill_now:
  "now \<le> wb_last_refill b \<Longrightarrow>
     wb_tokens (wb_refill now b) = wb_tokens b \<and> wb_last_refill (wb_refill now b) = wb_last_refill b"
  by (auto simp: wb_refill_def wb_add_def duration_since_def as_secs_zero Let_def split: option.splits)

interpretation wb: burst_bucket "wb_try_acquire now (route_cost w)" "\<lambda>b. fin_val (wb_tokens b)"
  "\<lambda>b. wb_ok b \<and> now \<le> wb_last_refill b" "route_cost w" for now w
proof unfold_locales
  fix b :: WeightedBucket
  assume h: "wb_ok b \<and> now \<le> wb_last_refill b"
  then have ok: "wb_ok b" and same: "wb_tokens (wb_refill now b) = wb_tokens b"
      "wb_last_refill (wb_refill now b) = wb_last_refill b"
    by (simp_all add: wb_refill_now)
  note cases = wb_try_acquire_cases [OF ok route_cost_small, of now w]
  show "wb_ok (snd (wb_try_acquire now (route_cost w) b)) \<and> now \<le> wb_last_refill (snd (wb_try_acquire now (route_cost w) b))"
    using h same by (rule_tac cases) (auto simp: wb_ok_refill)
  show "0 \<le> fin_val (wb_tokens b)"
    using ok by (auto simp: wb_ok_def level_ok_def)
  show "\<lceil>fin_val (wb_tokens (snd (wb_try_acquire now (route_cost w) b)))\<rceil> \<le> \<lceil>fin_val (wb_tokens b)\<rceil> - int (route_cost w)"
    if "fst (wb_try_acquire now (route_cost w) b) = None"
    using that same by (rule_tac cases) auto
  show "fin_val (wb_tokens (snd (wb_try_acquire now (route_cost w) b))) \<le> fin_val (wb_tokens b)"
    if "fst (wb_try_acquire now (route_cost w) b) \<noteq> None"
    using that same by (rule_tac cases) auto
qed

section \<open>What a query returns\<close>

lemma gmgn_reply_ok:
  assumes "gmgn_reply W r = Inl (Inr env)"
  obtains status hs body where "r = TextReply status hs (Inr body)" "is_success status"
    "read_envelope W body = Inr env" "ge_code env = 0"
proof -
  have *: "ge_code env = 0" if "read_envelope W body = Inr env" for body
    using that by (auto simp: read_envelope_def Let_def envelope_is_error_def split: sum.splits if_splits)
  show ?thesis
    using assms that * by (auto simp: gmgn_reply_def split: text_reply.splits sum.splits if_splits)
qed

lemma gmgn_reply_paused:
  "gmgn_reply W r = Inr d \<Longrightarrow> \<exists>hs body. r = TextReply 429 hs (Inr body)"
  by (auto simp: gmgn_reply_def split: text_reply.splits sum.splits if_splits)

definition query_trace_ok :: "gmgn_world \<Rightarrow> GmgnClient \<Rightarrow> string \<Rightarrow> gmgn_error + GmgnEnvelope \<Rightarrow> gmgn_event list \<Rightarrow> bool" where
  "query_trace_ok W c url r ev \<longleftrightarrow>
     (\<forall>env. r = Inr env \<longrightarrow> (\<exists>n hs status rh body. ev \<noteq> [] \<and> last ev = Requested n url hs
        \<and> gw_send W n url hs = TextReply status rh (Inr body) \<and> is_success status
        \<and> read_envelope W body = Inr env \<and> ge_code env = 0))
     \<and> (\<forall>n u hs. Requested n u hs \<in> set ev \<longrightarrow> u = url \<and> build_headers (gw_millis W n) (gw_uuid W n) c = Inr hs)
     \<and> (\<forall>n u hs. Requested n u hs \<in> set (butlast ev) \<longrightarrow> (\<exists>rh body. gw_send W n u hs = TextReply 429 rh (Inr body)))"

lemma query_trace_ok_slept:
  "query_trace_ok W c url r ev \<Longrightarrow> query_trace_ok W c url r (Slept d # ev)"
  by (fastforce simp: query_trace_ok_def)

lemma query_trace_ok_retried:
  assumes "query_trace_ok W c url r ev" "build_headers (gw_millis W n) (gw_uuid W n) c = Inr hs"
    "gw_send W n url hs = TextReply 429 rh (Inr body)"
  shows "query_trace_ok W c url r (Requested n url hs # Slept d # ev)"
  using assms by (fastforce simp: query_trace_ok_def)

lemma build_headers_bucket [simp]:
  "build_headers ms u (c\<lparr>gm_bucket := b\<rparr>) = build_headers ms u c"
  by (simp add: build_headers_def)

lemma query_trace_ok_bucket [simp]:
  "query_trace_ok W (c\<lparr>gm_bucket := b\<rparr>) url r ev = query_trace_ok W c url r ev"
  by (simp add: query_trace_ok_def)

text \<open>One round of the loop, with the rest of it as an argument.\<close>

abbreviation query_body where
  "query_body loop W route params (n::nat) c \<equiv>
     (case wb_try_acquire (gw_clock W n) (route_cost (route_weight route)) (gm_bucket c) of
        (None, b) \<Rightarrow>
          (case build_headers (gw_millis W n) (gw_uuid W n) c of
             Inl e \<Rightarrow> Some (Inl e, c\<lparr>gm_bucket := b\<rparr>, [])
           | Inr hs \<Rightarrow>
               (let url = query_url (gm_config c) route params
                in case gmgn_reply W (gw_send W n url hs) of
                     Inl r \<Rightarrow> Some (r, c\<lparr>gm_bucket := b\<rparr>, [Requested n url hs])
                   | Inr pause \<Rightarrow>
                       Option.bind (loop W route params (n + 1)
                           (c\<lparr>gm_bucket := pause_for pause (gw_done W n) b\<rparr>))
                         (\<lambda>(r, c', ev). Some (r, c', Requested n url hs # Slept 100000000 # ev))))
      | (Some wait, b) \<Rightarrow>
          Option.bind (loop W route params (n + 1) (c\<lparr>gm_bucket := b\<rparr>))
            (\<lambda>(r, c', ev). Some (r, c', Slept (min wait (from_secs 5)) # ev)))"

definition loop_post where
  "loop_post W route params (n::nat) c y =
     (case y of (r, c', ev) \<Rightarrow> wb_ok (gm_bucket c) \<longrightarrow>
        wb_ok (gm_bucket c') \<and> gm_config c' = gm_config c \<and> gm_api_key c' = gm_api_key c
        \<and> query_trace_ok W c (query_url (gm_config c) route params) r ev)"

lemma loop_post_step:
  assumes IH: "\<And>W route params n c y. loop W route params n c = Some y \<Longrightarrow> loop_post W route params n c y"
    and body: "query_body loop W route params n c = Some y"
  shows "loop_post W route params n c y"
proof -
  obtain r c' ev where y: "y = (r, c', ev)" by (cases y)
  {
    assume prem: "wb_ok (gm_bucket c)"
  obtain w b where wb: "wb_try_acquire (gw_clock W n) (route_cost (route_weight route)) (gm_bucket c) = (w, b)"
    by (cases "wb_try_acquire (gw_clock W n) (route_cost (route_weight route)) (gm_bucket c)")
  have ok: "wb_ok b"
    using wb_ok_try_acquire [OF prem route_cost_small, of "gw_clock W n" "route_weight route"] wb by simp
  let ?url = "query_url (gm_config c) route params"
  have "wb_ok (gm_bucket c') \<and> gm_config c' = gm_config c \<and> gm_api_key c' = gm_api_key c
        \<and> query_trace_ok W c ?url r ev"
  proof (cases w)
    case (Some wait)
    then obtain ev' where r: "loop W route params (n + 1) (c\<lparr>gm_bucket := b\<rparr>) = Some (r, c', ev')"
        "ev = Slept (min wait (from_secs 5)) # ev'"
      using body wb y by (auto split: bind_splits)
    show ?thesis
      using IH [OF r(1)] ok r(2) by (simp add: loop_post_def query_trace_ok_slept)
  next
    case None
    show ?thesis
    proof (cases "build_headers (gw_millis W n) (gw_uuid W n) c")
      case (Inl e)
      then show ?thesis
        using body wb y None ok by (auto simp: query_trace_ok_def)
    next
      case (Inr hs)
      show ?thesis
      proof (cases "gmgn_reply W (gw_send W n ?url hs)")
        case res: (Inl x)
        then have e: "r = x" "c' = c\<lparr>gm_bucket := b\<rparr>" "ev = [Requested n ?url hs]"
          using body wb y None Inr by (auto simp: Let_def)
        have "\<exists>status rh body. gw_send W n ?url hs = TextReply status rh (Inr body) \<and> is_success status
            \<and> read_envelope W body = Inr env \<and> ge_code env = 0" if "x = Inr env" for env
          using gmgn_reply_ok [of W "gw_send W n ?url hs" env] res that by metis
        then show ?thesis
          using e ok Inr by (simp add: query_trace_ok_def)
      next
        case res: (Inr d)
        then obtain ev' where r: "loop W route params (n + 1) (c\<lparr>gm_bucket := pause_for d (gw_done W n) b\<rparr>) = Some (r, c', ev')"
            "ev = Requested n ?url hs # Slept 100000000 # ev'"
          using body wb y None Inr by (auto simp: Let_def split: bind_splits)
        obtain rh body where "gw_send W n ?url hs = TextReply 429 rh (Inr body)"
          using gmgn_reply_paused [OF res] by blast
        then show ?thesis
          using IH [OF r(1)] ok r(2) Inr by (simp add: loop_post_def wb_ok_pause query_trace_ok_retried)
      qed
    qed
  qed
  }
  then show ?thesis
    by (simp add: loop_post_def y)
qed

lemma query_loop_trace: "query_loop W route params n c = Some y \<Longrightarrow> loop_post W route params n c y"
  by (rule query_loop.raw_induct [of loop_post, OF loop_post_step])

definition route_enabled :: "GmgnClient \<Rightarrow> string \<Rightarrow> bool" where
  "route_enabled c route \<longleftrightarrow> gc_enabled_routes (gm_config c) = [] \<or> route \<in> set (gc_enabled_routes (gm_config c))"

lemma build_headers_configured: "is_configured c \<Longrightarrow> \<exists>hs. build_headers ms u c = Inr hs"
  by (auto simp: is_configured_def build_headers_def split: option.splits)

text \<open>A query without a key, or for a route that is not enabled, ends with that error before anything
  is sent or any token taken. Otherwise, with the bucket in range, every request the query sends goes to
  the URL of the route with headers that carry the key; every request but the last was answered by 429;
  an envelope is returned only if the last reply was a success whose body reads as an envelope with code
  zero; the bucket is in range afterwards. If the bucket holds the cost of the route and the reply is not
  429, the query returns after exactly one request.\<close>

theorem gmgn_query_is_gated:
  assumes "wb_ok (gm_bucket c)"
    and url: "url = query_url (gm_config c) route params"
  shows "(\<not> is_configured c \<longrightarrow> gmgn_query W route params c = Some (Inl KeyNotConfigured, c, []))
    \<and> (is_configured c \<and> \<not> route_enabled c route \<longrightarrow>
         gmgn_query W route params c = Some (Inl (RouteNotEnabled route), c, []))
    \<and> (\<forall>r c' ev. gmgn_query W route params c = Some (r, c', ev) \<longrightarrow>
         wb_ok (gm_bucket c') \<and> gm_config c' = gm_config c \<and> query_trace_ok W c url r ev
         \<and> (\<forall>env. r = Inr env \<longrightarrow> is_configured c \<and> route_enabled c route))
    \<and> (is_configured c \<and> route_enabled c route
       \<and> f64_ge (wb_tokens (wb_refill (gw_clock W 0) (gm_bucket c))) (Fin (of_nat (route_cost (route_weight route))))
       \<and> (\<forall>hs rh body. gw_send W 0 url hs \<noteq> TextReply 429 rh (Inr body)) \<longrightarrow>
         (\<exists>r c' hs. gmgn_query W route params c = Some (r, c', [Requested 0 url hs])))"
proof (intro conjI impI allI)
  fix r c' ev
  assume run: "gmgn_query W route params c = Some (r, c', ev)"
  have "wb_ok (gm_bucket c') \<and> gm_config c' = gm_config c \<and> query_trace_ok W c url r ev
      \<and> (\<forall>env. r = Inr env \<longrightarrow> is_configured c \<and> route_enabled c route)"
  proof (cases "is_configured c \<and> route_enabled c route")
    case True
    then have "query_loop W route params 0 c = Some (r, c', ev)"
      using run by (auto simp: gmgn_query_def route_enabled_def split: if_splits)
    from query_loop_trace [OF this] show ?thesis
      using assms(1) True by (simp add: loop_post_def url)
  next
    case False
    then show ?thesis
      using run assms(1) by (auto simp: gmgn_query_def route_enabled_def query_trace_ok_def split: if_splits)
  qed
  then show "wb_ok (gm_bucket c')" "gm_config c' = gm_config c" "query_trace_ok W c url r ev"
    "\<And>env. r = Inr env \<Longrightarrow> is_configured c" "\<And>env. r = Inr env \<Longrightarrow> route_enabled c route"
    by auto
next
  assume h: "is_configured c \<and> route_enabled c route
       \<and> f64_ge (wb_tokens (wb_refill (gw_clock W 0) (gm_bucket c))) (Fin (of_nat (route_cost (route_weight route))))
       \<and> (\<forall>hs rh body. gw_send W 0 url hs \<noteq> TextReply 429 rh (Inr body))"
  obtain hs where hs: "build_headers (gw_millis W 0) (gw_uuid W 0) c = Inr hs"
    using build_headers_configured h by blast
  obtain x where x: "gmgn_reply W (gw_send W 0 url hs) = Inl x"
    using gmgn_reply_paused [of W "gw_send W 0 url hs"] h by (cases "gmgn_reply W (gw_send W 0 url hs)") auto
  obtain b where "wb_try_acquire (gw_clock W 0) (route_cost (route_weight route)) (gm_bucket c) = (None, b)"
    using h by (simp add: wb_try_acquire_def Let_def)
  then have "query_loop W route params 0 c = Some (x, c\<lparr>gm_bucket := b\<rparr>, [Requested 0 url hs])"
    using hs x by (subst query_loop.simps) (simp add: url)
  then show "\<exists>r c' hs. gmgn_query W route params c = Some (r, c', [Requested 0 url hs])"
    using h by (auto simp: gmgn_query_def route_enabled_def)
qed (auto simp: gmgn_query_def route_enabled_def)

definition still_world :: gmgn_world where
  "still_world = \<lparr>gw_clock = \<lambda>_. 0, gw_done = \<lambda>_. 0, gw_millis = \<lambda>_. 1, gw_uuid = show_nat,
     gw_send = \<lambda>_ _ _. TextReply 200 [] (Inr ''{}''), gw_from_str = \<lambda>_. Inr (JObject []), gw_as_i64 = \<lambda>_. None\<rparr>"

theorem gmgn_query_is_gated_witness:
  "gmgn_query still_world ''kol'' [] (gmgn_new gmgn_default None 0) = Some (Inl KeyNotConfigured, gmgn_new gmgn_default None 0, [])
    \<and> (\<exists>r c' hs. gmgn_query still_world ''kol'' [] (gmgn_new gmgn_default (Some ''key'') 0)
         = Some (r, c', [Requested 0 ''https://openapi.gmgn.ai/kol/api/v1'' hs]))"
proof
  have ok: "wb_ok (gm_bucket (gmgn_new gmgn_default k 0))" for k
    by (simp add: gmgn_new_def gmgn_default_def wb_ok_new)
  show "gmgn_query still_world ''kol'' [] (gmgn_new gmgn_default None 0)
      = Some (Inl KeyNotConfigured, gmgn_new gmgn_default None 0, [])"
    using gmgn_query_is_gated [OF ok [of None] refl, where W = still_world and route = "''kol''" and params = "[]"]
    by (simp add: is_configured_def gmgn_new_def)
  have url: "query_url (gm_config (gmgn_new gmgn_default (Some ''key'') 0)) ''kol'' [] = ''https://openapi.gmgn.ai/kol/api/v1''"
    by code_simp
  have "is_configured (gmgn_new gmgn_default (Some ''key'') 0)" "route_enabled (gmgn_new gmgn_default (Some ''key'') 0) ''kol''"
    "route_cost (route_weight ''kol'') = 5"
    by code_simp+
  moreover have "wb_tokens (wb_refill 0 (gm_bucket (gmgn_new gmgn_default (Some ''key'') 0))) = Fin 20"
    using wb_refill_now [of 0 "gm_bucket (gmgn_new gmgn_default (Some ''key'') 0)"]
    by (simp add: gmgn_new_def gmgn_default_def wb_new_def)
  ultimately show "\<exists>r c' hs. gmgn_query still_world ''kol'' [] (gmgn_new gmgn_default (Some ''key'') 0)
         = Some (r, c', [Requested 0 ''https://openapi.gmgn.ai/kol/api/v1'' hs])"
    using gmgn_query_is_gated [OF ok [of "Some ''key''"] refl, where W = still_world and route = "''kol''" and params = "[]"]
    unfolding url by (simp add: still_world_def)
qed

section \<open>What the rate limiter does not do\<close>

text \<open>The pause after a 429 does not hold requests back while tokens are left.\<close>

lemma pause_does_not_block:
  assumes "wb_pause_until b = Some t" "now < t" "f64_ge (wb_tokens b) (Fin (of_nat cost))"
  shows "fst (wb_try_acquire now cost b) = None"
  using assms by (simp add: wb_try_acquire_def wb_refill_def Let_def)

text \<open>With a capacity below the cost of the route the query sleeps forever.\<close>

lemma wb_capacity_fixed: "wb_capacity (snd (wb_try_acquire now cost b)) = wb_capacity b"
  by (simp add: wb_try_acquire_def wb_refill_def wb_add_def Let_def split: option.splits)

lemma starved_query_never_returns:
  assumes "wb_ok (gm_bucket c)" "f64_lt (wb_capacity (gm_bucket c)) (Fin (of_nat (route_cost (route_weight route))))"
  shows "query_loop W route params n c = None"
proof -
  let ?P = "\<lambda>W route params (n::nat) c y. \<not> (wb_ok (gm_bucket c) \<and>
      f64_lt (wb_capacity (gm_bucket c)) (Fin (of_nat (route_cost (route_weight route)))))"
  have "?P W route params n c y" if "query_loop W route params n c = Some y" for y
  proof (rule query_loop.raw_induct [of ?P, OF _ that])
    fix loop W route params n c y
    assume IH: "\<And>W route params n c y. loop W route params n c = Some y \<Longrightarrow> ?P W route params n c y"
      and body: "query_body loop W route params n c = Some y"
    show "?P W route params n c y"
    proof
      assume h: "wb_ok (gm_bucket c) \<and> f64_lt (wb_capacity (gm_bucket c)) (Fin (of_nat (route_cost (route_weight route))))"
      then have ok: "wb_ok (gm_bucket c)" by simp
      let ?r = "wb_refill (gw_clock W n) (gm_bucket c)"
      have cap: "wb_capacity ?r = wb_capacity (gm_bucket c)"
        by (simp add: wb_refill_def wb_add_def Let_def split: option.splits)
      have "fin_val (wb_tokens ?r) < of_nat (route_cost (route_weight route))"
        using wb_ok_refill [OF ok, of "gw_clock W n"] h unfolding wb_ok_def level_ok_def cap by auto
      then obtain d where d: "wb_try_acquire (gw_clock W n) (route_cost (route_weight route)) (gm_bucket c) = (Some d, ?r)"
        by (rule_tac wb_try_acquire_cases [OF ok route_cost_small, of "gw_clock W n" "route_weight route"]) auto
      then obtain z where "loop W route params (n + 1) (c\<lparr>gm_bucket := ?r\<rparr>) = Some z"
        using body by (auto split: bind_splits)
      from IH [OF this] show False
        using h wb_ok_refill [OF ok] cap by simp
    qed
  qed
  with assms show ?thesis
    by (cases "query_loop W route params n c") auto
qed

text \<open>Parameters are joined unescaped, so different parameters can make one query.\<close>

lemma query_collision:
  "stable_query [(''a'', ''1&b=2'')] = stable_query [(''a'', ''1''), (''b'', ''2'')]"
  by code_simp

end
