(* ===== verification/Telegram_Parse.thy ===== *)
theory Telegram_Parse
  imports Models "HOL-Library.Sublist"
begin

text \<open>
  The parser of Telegram messages (\<open>telegram_parse.rs\<close>). Messages are untrusted text, so here a string is
  the list of its Unicode code points and positions are byte offsets of its UTF-8 form, as in the source:
  slicing at an offset that is no character boundary panics, which is the result \<open>None\<close>. The lower-case
  conversion of the Unicode tables, the base58 decoder and the SHA-256 digest are arguments.
\<close>

section \<open>Text\<close>

type_synonym utext = "nat list"

abbreviation lit :: "string \<Rightarrow> utext" where
  "lit s \<equiv> map of_char s"

definition utf8_len :: "nat \<Rightarrow> nat" where
  "utf8_len c = (if c < 128 then 1 else if c < 2048 then 2 else if c < 65536 then 3 else 4)"

definition blen :: "utext \<Rightarrow> nat" where
  "blen s = sum_list (map utf8_len s)"

text \<open>Splitting at a byte offset, if it is a character boundary within the text.\<close>

fun split_bytes :: "nat \<Rightarrow> utext \<Rightarrow> (utext \<times> utext) option" where
  "split_bytes n [] = (if n = 0 then Some ([], []) else None)"
| "split_bytes n (c # s) =
     (if n = 0 then Some ([], c # s)
      else if n < utf8_len c then None
      else map_option (\<lambda>(a, b). (c # a, b)) (split_bytes (n - utf8_len c) s))"

text \<open>\<open>str::find\<close> of a pattern and of a character class, as byte offsets.\<close>

fun find_sub :: "utext \<Rightarrow> utext \<Rightarrow> nat option" where
  "find_sub pat [] = (if pat = [] then Some 0 else None)"
| "find_sub pat (c # s) =
     (if prefix pat (c # s) then Some 0 else map_option (\<lambda>p. utf8_len c + p) (find_sub pat s))"

fun find_char :: "(nat \<Rightarrow> bool) \<Rightarrow> utext \<Rightarrow> nat option" where
  "find_char P [] = None"
| "find_char P (c # s) = (if P c then Some 0 else map_option (\<lambda>p. utf8_len c + p) (find_char P s))"

definition contains_sub :: "utext \<Rightarrow> utext \<Rightarrow> bool" where
  "contains_sub pat s \<longleftrightarrow> find_sub pat s \<noteq> None"

text \<open>The Unicode property \<open>White_Space\<close>.\<close>

definition u_whitespace :: "nat \<Rightarrow> bool" where
  "u_whitespace c \<longleftrightarrow> (9 \<le> c \<and> c \<le> 13) \<or> c = 32 \<or> c = 133 \<or> c = 160 \<or> c = 5760 \<or> (8192 \<le> c \<and> c \<le> 8202)
     \<or> c = 8232 \<or> c = 8233 \<or> c = 8239 \<or> c = 8287 \<or> c = 12288"

definition u_trim :: "utext \<Rightarrow> utext" where
  "u_trim s = rev (dropWhile u_whitespace (rev (dropWhile u_whitespace s)))"

definition is_ascii_alphanumeric :: "nat \<Rightarrow> bool" where
  "is_ascii_alphanumeric c \<longleftrightarrow> (48 \<le> c \<and> c \<le> 57) \<or> (65 \<le> c \<and> c \<le> 90) \<or> (97 \<le> c \<and> c \<le> 122)"

section \<open>Mentions and claims\<close>

datatype MentionKind = MkMint | MkWallet | MkUrl

fun mention_kind_as_str :: "MentionKind \<Rightarrow> string" where
  "mention_kind_as_str MkMint = ''mint''"
| "mention_kind_as_str MkWallet = ''wallet''"
| "mention_kind_as_str MkUrl = ''url''"

record ParsedClaim =
  cl_claim_type :: utext
  cl_keyword :: utext
  cl_context :: utext

record ParsedMention =
  mn_kind :: MentionKind
  mn_extracted_value :: utext
  mn_context :: utext

record ParsedMessage =
  pm_mentions :: "ParsedMention list"
  pm_claims :: "ParsedClaim list"
  pm_media_only :: bool

definition CLAIM_KEYWORDS :: "(utext \<times> utext) list" where
  "CLAIM_KEYWORDS = map (\<lambda>k. (lit k, lit k))
     [''buy'', ''sell'', ''entry'', ''exit'', ''target'', ''launch'', ''partnership'', ''narrative'']"

definition is_base58_char :: "nat \<Rightarrow> bool" where
  "is_base58_char c \<longleftrightarrow> is_ascii_alphanumeric c \<and> c \<notin> {48, 79, 73, 108}"

text \<open>The decoder yields the number of decoded bytes, if the text decodes.\<close>

definition is_valid_solana_address :: "(utext \<Rightarrow> nat option) \<Rightarrow> utext \<Rightarrow> bool" where
  "is_valid_solana_address b58 v \<longleftrightarrow> 32 \<le> blen v \<and> blen v \<le> 44 \<and> b58 v = Some 32"

definition context_around :: "utext \<Rightarrow> nat \<Rightarrow> nat \<Rightarrow> utext option" where
  "context_around text start len =
     (case split_bytes start text of
        None \<Rightarrow> None
      | Some (before, rest) \<Rightarrow>
          (case split_bytes len rest of
             None \<Rightarrow> None
           | Some (hit, _) \<Rightarrow>
               (let start_char = length before; len_chars = length hit;
                    from_char = start_char - 30; to_char = min (start_char + len_chars + 30) (length text)
                in Some (take (to_char - from_char) (drop from_char text)))))"

text \<open>A completed run of base58 characters is a candidate if it is an address.\<close>

definition flush_run :: "(utext \<Rightarrow> nat option) \<Rightarrow> utext \<Rightarrow> nat \<Rightarrow> utext \<Rightarrow> (utext \<times> utext) list option" where
  "flush_run b58 text start cur =
     (if cur \<noteq> [] \<and> is_valid_solana_address b58 cur
      then map_option (\<lambda>ctx. [(cur, ctx)]) (context_around text start (blen cur)) else Some [])"

fun base58_loop :: "(utext \<Rightarrow> nat option) \<Rightarrow> utext \<Rightarrow> nat \<Rightarrow> utext \<Rightarrow> nat \<Rightarrow> utext \<Rightarrow> (utext \<times> utext) list option" where
  "base58_loop b58 text index [] start cur = flush_run b58 text start cur"
| "base58_loop b58 text index (c # rest) start cur =
     (if is_base58_char c
      then base58_loop b58 text (index + utf8_len c) rest (if cur = [] then index else start) (cur @ [c])
      else (case flush_run b58 text start cur of
              None \<Rightarrow> None
            | Some hits \<Rightarrow> map_option (\<lambda>more. hits @ more) (base58_loop b58 text (index + utf8_len c) rest start [])))"

definition extract_base58_candidates :: "(utext \<Rightarrow> nat option) \<Rightarrow> utext \<Rightarrow> (utext \<times> utext) list option" where
  "extract_base58_candidates b58 text = base58_loop b58 text 0 text 0 []"

definition url_stop :: "nat \<Rightarrow> bool" where
  "url_stop c \<longleftrightarrow> u_whitespace c \<or> c = 41 \<or> c = 93 \<or> c = 62"

definition find_url :: "utext \<Rightarrow> nat option" where
  "find_url s = (case find_sub (lit ''http://'') s of Some p \<Rightarrow> Some p | None \<Rightarrow> find_sub (lit ''https://'') s)"

lemma split_bytes_Some: "split_bytes n s = Some (a, b) \<Longrightarrow> s = a @ b \<and> blen a = n"
proof (induction n s arbitrary: a b rule: split_bytes.induct)
  case (2 n c s)
  then show ?case
    by (auto simp: blen_def split: if_splits)
qed (auto simp: blen_def split: if_splits)

text \<open>The loop of \<open>extract_urls\<close> over the rest of the text, which starts at byte \<open>offset\<close>.\<close>

function url_loop :: "utext \<Rightarrow> nat \<Rightarrow> utext \<Rightarrow> (utext \<times> utext) list option" where
  "url_loop text offset remainder =
     (case find_url remainder of
        None \<Rightarrow> Some []
      | Some pos \<Rightarrow>
          (case split_bytes pos remainder of
             None \<Rightarrow> None
           | Some (_, after) \<Rightarrow>
               (let stop = (case find_char url_stop after of Some e \<Rightarrow> e | None \<Rightarrow> blen after)
                in case split_bytes stop after of
                     None \<Rightarrow> None
                   | Some (url, _) \<Rightarrow>
                       (case (if url \<noteq> [] then map_option (\<lambda>ctx. [(url, ctx)]) (context_around text (offset + pos) (blen url))
                              else Some []) of
                          None \<Rightarrow> None
                        | Some hits \<Rightarrow>
                            (let skip = pos + max stop 1
                             in case split_bytes skip remainder of
                                  None \<Rightarrow> None
                                | Some (_, rest) \<Rightarrow>
                                    map_option (\<lambda>more. hits @ more) (url_loop text (offset + skip) rest))))))"
  by auto

termination url_loop
proof (relation "measure (\<lambda>(text, offset, remainder). length remainder)", goal_cases)
  case (2 t offset remainder pos p bef after stop q url tail hits skip r read rest)
  then have "remainder = read @ rest" "blen read = skip" "0 < skip"
    by (auto dest: split_bytes_Some)
  then have "read \<noteq> []"
    by (auto simp: blen_def)
  then show ?case
    using \<open>remainder = read @ rest\<close> by simp
qed simp

definition extract_urls :: "utext \<Rightarrow> (utext \<times> utext) list option" where
  "extract_urls text = url_loop text 0 text"

definition is_word_char :: "nat \<Rightarrow> bool" where
  "is_word_char c \<longleftrightarrow> is_ascii_alphanumeric c \<or> c = 95"

text \<open>Whether the occurrence that splits the text into \<open>before\<close> and \<open>after\<close> stands alone.\<close>

definition word_bounded :: "utext \<Rightarrow> utext \<Rightarrow> bool" where
  "word_bounded before after \<longleftrightarrow>
     (before = [] \<or> \<not> is_word_char (last before)) \<and> (after = [] \<or> \<not> is_word_char (hd after))"

lemma utf8_len_pos [simp]: "0 < utf8_len c"
  by (simp add: utf8_len_def)

lemma blen_0 [simp]: "blen s = 0 \<longleftrightarrow> s = []"
  by (cases s) (auto simp: blen_def utf8_len_def)

lemma blen_append [simp]: "blen (a @ b) = blen a + blen b"
  by (simp add: blen_def)

lemma split_bytes_bound: "split_bytes n s = Some x \<Longrightarrow> n \<le> blen s"
  by (cases x) (auto dest: split_bytes_Some)

text \<open>The search for one keyword, from byte \<open>search_from\<close> of the lower-case text; the context is cut
  out of the text as written. (Keywords are not empty; the guard makes the loop end for every argument.)\<close>

function claim_loop :: "utext \<Rightarrow> utext \<Rightarrow> utext \<Rightarrow> utext \<Rightarrow> nat \<Rightarrow> ParsedClaim list option" where
  "claim_loop lower trimmed keyword claim_type search_from =
     (if keyword = [] then None
      else case split_bytes search_from lower of
        None \<Rightarrow> None
      | Some (_, rest) \<Rightarrow>
          (case find_sub keyword rest of
             None \<Rightarrow> Some []
           | Some pos \<Rightarrow>
               (let absolute = search_from + pos
                in case (split_bytes absolute lower, split_bytes (absolute + blen keyword) lower) of
                     (Some (before, _), Some (_, after)) \<Rightarrow>
                       if word_bounded before after
                       then map_option (\<lambda>ctx. [\<lparr>cl_claim_type = claim_type, cl_keyword = keyword, cl_context = ctx\<rparr>])
                              (context_around trimmed absolute (blen keyword))
                       else claim_loop lower trimmed keyword claim_type (absolute + blen keyword)
                   | _ \<Rightarrow> None)))"
  by auto

termination claim_loop
proof (relation "measure (\<lambda>(lower, trimmed, keyword, claim_type, search_from). blen lower - search_from)", goal_cases)
  case (2 low tr kw ct start p a rest pos absolute q r b c d e after)
  then have "absolute + blen kw \<le> blen low" "blen kw \<noteq> 0" "start \<le> absolute"
    by (auto dest: split_bytes_bound [OF sym])
  then show ?case by (simp del: blen_0)
qed simp

definition find_claims :: "utext \<Rightarrow> utext \<Rightarrow> (utext \<times> utext) list \<Rightarrow> ParsedClaim list option" where
  "find_claims lower trimmed keywords =
     foldr (\<lambda>(keyword, claim_type) acc. case claim_loop lower trimmed keyword claim_type 0 of
              None \<Rightarrow> None | Some cs \<Rightarrow> map_option (\<lambda>more. cs @ more) acc) keywords (Some [])"

text \<open>The mentions not seen before, in order.\<close>

fun add_mentions :: "MentionKind \<Rightarrow> (utext \<times> utext) list \<Rightarrow> (MentionKind \<times> utext) list \<Rightarrow> ParsedMention list \<Rightarrow>
    (MentionKind \<times> utext) list \<times> ParsedMention list" where
  "add_mentions kind [] seen ms = (seen, ms)"
| "add_mentions kind ((v, ctx) # hits) seen ms =
     (if (kind, v) \<in> set seen then add_mentions kind hits seen ms
      else add_mentions kind hits ((kind, v) # seen)
             (ms @ [\<lparr>mn_kind = kind, mn_extracted_value = v, mn_context = ctx\<rparr>]))"

definition media_message :: ParsedMessage where
  "media_message = \<lparr>pm_mentions = [], pm_claims = [], pm_media_only = True\<rparr>"

definition parse_message_text :: "(utext \<Rightarrow> nat option) \<Rightarrow> (utext \<Rightarrow> utext) \<Rightarrow> utext option \<Rightarrow> ParsedMessage option" where
  "parse_message_text b58 to_lower text =
     (case text of
        None \<Rightarrow> Some media_message
      | Some t \<Rightarrow>
          (let trimmed = u_trim t
           in if trimmed = [] then Some media_message
              else (case extract_urls trimmed of
                None \<Rightarrow> None
              | Some urls \<Rightarrow>
                  (let (seen, ms) = add_mentions MkUrl urls [] []
                   in case extract_base58_candidates b58 trimmed of
                        None \<Rightarrow> None
                      | Some candidates \<Rightarrow>
                          (let (_, ms') = add_mentions MkMint candidates seen ms
                           in map_option (\<lambda>claims. \<lparr>pm_mentions = ms', pm_claims = claims, pm_media_only = False\<rparr>)
                                (find_claims (to_lower trimmed) trimmed CLAIM_KEYWORDS))))))"

definition claim_narrative_hints :: "(utext \<Rightarrow> utext) \<Rightarrow> utext \<Rightarrow> utext \<Rightarrow> NarrativeCategory list" where
  "claim_narrative_hints to_lower claim_type ctx =
     (let lower = to_lower ctx; hit = (\<lambda>needle. contains_sub (lit needle) lower)
      in (if hit ''ai '' \<or> hit '' ai'' \<or> hit ''gpt'' \<or> hit ''agent'' then [NarrAi] else [])
       @ (if hit ''meme'' then [NarrMeme] else [])
       @ (if hit ''depin'' \<or> hit ''dep_in'' then [NarrDepIn] else [])
       @ (if hit ''rwa'' then [NarrRwa] else [])
       @ (if hit ''gaming'' \<or> hit ''game'' then [NarrGaming] else [])
       @ (if hit ''launchpad'' then [NarrLaunchpad] else [])
       @ (if claim_type = lit ''partnership'' then [NarrUnknown] else []))"

section \<open>The content hash\<close>

definition utf8_bytes :: "nat \<Rightarrow> nat list" where
  "utf8_bytes c =
     (if c < 128 then [c]
      else if c < 2048 then [192 + c div 64, 128 + c mod 64]
      else if c < 65536 then [224 + c div 4096, 128 + c div 64 mod 64, 128 + c mod 64]
      else [240 + c div 262144, 128 + c div 4096 mod 64, 128 + c div 64 mod 64, 128 + c mod 64])"

definition le_bytes :: "nat \<Rightarrow> int \<Rightarrow> nat list" where
  "le_bytes n x = map (\<lambda>i. nat (x div 256 ^ i mod 256)) [0..<n]"

definition hash_input :: "utext \<Rightarrow> int \<Rightarrow> int \<Rightarrow> utext option \<Rightarrow> nat list" where
  "hash_input channel_key message_id edit_version text =
     concat (map utf8_bytes channel_key) @ le_bytes 8 message_id @ le_bytes 4 edit_version
     @ concat (map utf8_bytes (case text of Some t \<Rightarrow> t | None \<Rightarrow> []))"

definition content_hash :: "(nat list \<Rightarrow> string) \<Rightarrow> utext \<Rightarrow> int \<Rightarrow> int \<Rightarrow> utext option \<Rightarrow> string" where
  "content_hash sha256_hex channel_key message_id edit_version text =
     sha256_hex (hash_input channel_key message_id edit_version text)"

section \<open>Offsets and splits\<close>

declare url_loop.simps [simp del] claim_loop.simps [simp del]

lemma split_bytes_append [simp]: "split_bytes (blen a) (a @ b) = Some (a, b)"
proof (induction a)
  case Nil
  then show ?case by (cases b) (simp_all add: blen_def)
next
  case (Cons c a)
  then show ?case by (simp add: blen_def)
qed

lemma split_bytes_iff: "split_bytes n s = Some (a, b) \<longleftrightarrow> s = a @ b \<and> n = blen a"
  using split_bytes_Some by auto

lemma find_sub_SomeD:
  "find_sub pat s = Some p \<Longrightarrow>
     \<exists>a b. s = a @ pat @ b \<and> blen a = p \<and> (\<forall>a' b'. s = a' @ pat @ b' \<longrightarrow> length a \<le> length a')"
proof (induction pat s arbitrary: p rule: find_sub.induct)
  case (2 pat c s)
  show ?case
  proof (cases "prefix pat (c # s)")
    case True
    then obtain b where "c # s = [] @ pat @ b" by (auto simp: prefix_def)
    moreover have "p = 0" using 2 True by simp
    ultimately show ?thesis by (metis blen_0 le0 list.size(3))
  next
    case False
    then obtain q where q: "find_sub pat s = Some q" "p = utf8_len c + q"
      using "2.prems" by auto
    from "2.IH" [OF False q(1)] obtain a b where ab: "s = a @ pat @ b" "blen a = q"
        "\<forall>a' b'. s = a' @ pat @ b' \<longrightarrow> length a \<le> length a'"
      by blast
    have "length (c # a) \<le> length a'" if "c # s = a' @ pat @ b'" for a' b'
      using that False ab(3) by (cases a') (auto simp: prefix_def)
    moreover have "blen (c # a) = p"
      using ab(2) q(2) by (simp add: blen_def)
    ultimately show ?thesis
      using ab(1) by (intro exI [of _ "c # a"] exI [of _ b]) simp
  qed
qed (auto simp: blen_def split: if_splits)

lemma find_sub_None: "find_sub pat s = None \<longleftrightarrow> \<not> sublist pat s"
  by (induction pat s rule: find_sub.induct) (auto simp: sublist_Cons_right)

lemma find_char_SomeD:
  "find_char P s = Some p \<Longrightarrow> \<exists>a c b. s = a @ c # b \<and> blen a = p \<and> list_all (\<lambda>x. \<not> P x) a \<and> P c"
proof (induction P s arbitrary: p rule: find_char.induct)
  case (2 P c s)
  show ?case
  proof (cases "P c")
    case True
    then have "c # s = [] @ c # s" "blen [] = p" using 2 by (simp_all add: blen_def)
    with True show ?thesis by (metis list.pred_inject(1))
  next
    case False
    then obtain q where q: "find_char P s = Some q" "p = utf8_len c + q" using "2.prems" by auto
    from "2.IH" [OF False q(1)] obtain a d b where "s = a @ d # b" "blen a = q" "list_all (\<lambda>x. \<not> P x) a" "P d"
      by blast
    then show ?thesis
      using False q(2) by (intro exI [of _ "c # a"] exI [of _ d] exI [of _ b]) (simp add: blen_def)
  qed
qed simp

lemma find_char_None: "find_char P s = None \<longleftrightarrow> list_all (\<lambda>x. \<not> P x) s"
  by (induction P s rule: find_char.induct) auto

lemma context_around_defined: "\<exists>ctx. context_around (a @ h @ b) (blen a) (blen h) = Some ctx"
  by (simp add: context_around_def Let_def)

section \<open>Extraction\<close>

text \<open>The maximal runs of base58 characters, after a run \<open>cur\<close> already read.\<close>

fun runs :: "utext \<Rightarrow> utext \<Rightarrow> utext list" where
  "runs cur [] = (if cur = [] then [] else [cur])"
| "runs cur (c # rest) =
     (if is_base58_char c then runs (cur @ [c]) rest else (if cur = [] then [] else [cur]) @ runs [] rest)"

definition maximal_run :: "utext \<Rightarrow> utext \<Rightarrow> bool" where
  "maximal_run v s \<longleftrightarrow> v \<noteq> [] \<and> list_all is_base58_char v \<and>
     (\<exists>a b. s = a @ v @ b \<and> (a = [] \<or> \<not> is_base58_char (last a)) \<and> (b = [] \<or> \<not> is_base58_char (hd b)))"

lemma flush_run_hits:
  assumes "text = pre @ cur @ rest" "cur \<noteq> [] \<longrightarrow> start = blen pre"
  obtains h where "flush_run b58 text start cur = Some h"
    "map fst h = filter (is_valid_solana_address b58) (if cur = [] then [] else [cur])"
proof (cases "cur \<noteq> [] \<and> is_valid_solana_address b58 cur")
  case True
  then obtain ctx where "context_around text start (blen cur) = Some ctx"
    using context_around_defined [of pre cur rest] assms by auto
  then show ?thesis using that True by (simp add: flush_run_def)
next
  case False
  then show ?thesis using that [of "[]"] by (auto simp: flush_run_def)
qed

lemma base58_loop_runs:
  assumes "text = pre @ cur @ rest" "index = blen (pre @ cur)" "cur \<noteq> [] \<longrightarrow> start = blen pre"
  shows "\<exists>hits. base58_loop b58 text index rest start cur = Some hits
    \<and> map fst hits = filter (is_valid_solana_address b58) (runs cur rest)"
  using assms
proof (induction rest arbitrary: pre cur index start)
  case Nil
  obtain h where "flush_run b58 text start cur = Some h"
      "map fst h = filter (is_valid_solana_address b58) (if cur = [] then [] else [cur])"
    using flush_run_hits [of "text" pre cur "[]" start b58] Nil by blast
  then show ?case by simp
next
  case (Cons c rest)
  show ?case
  proof (cases "is_base58_char c")
    case True
    have "\<exists>hits. base58_loop b58 text (index + utf8_len c) rest (if cur = [] then index else start) (cur @ [c]) = Some hits
        \<and> map fst hits = filter (is_valid_solana_address b58) (runs (cur @ [c]) rest)"
      by (rule Cons.IH [of "pre" "cur @ [c]"]) (use Cons.prems in \<open>auto simp: blen_def\<close>)
    with True show ?thesis by simp
  next
    case False
    obtain h where h: "flush_run b58 text start cur = Some h"
        "map fst h = filter (is_valid_solana_address b58) (if cur = [] then [] else [cur])"
      using flush_run_hits [of "text" pre cur "c # rest" start b58] Cons.prems by blast
    have "\<exists>hits. base58_loop b58 text (index + utf8_len c) rest start [] = Some hits
        \<and> map fst hits = filter (is_valid_solana_address b58) (runs [] rest)"
      by (rule Cons.IH [of "pre @ cur @ [c]" "[]"]) (use Cons.prems in \<open>auto simp: blen_def\<close>)
    then obtain more where "base58_loop b58 text (index + utf8_len c) rest start [] = Some more"
        "map fst more = filter (is_valid_solana_address b58) (runs [] rest)"
      by blast
    with False h show ?thesis by (auto simp: filter_append [symmetric] simp del: filter_append)
  qed
qed

lemma append_longer: "x @ y = z @ w \<Longrightarrow> length z \<le> length x \<Longrightarrow> \<exists>u. x = z @ u \<and> w = u @ y"
  by (auto simp: append_eq_append_conv2)

lemma append_overlap: "x @ c # y = z @ w \<Longrightarrow> length x < length z \<Longrightarrow> \<exists>u. z = x @ c # u \<and> y = u @ w"
  by (auto simp: append_eq_append_conv2 Cons_eq_append_conv)

lemma runs_maximal:
  assumes "list_all is_base58_char cur"
  shows "v \<in> set (runs cur rest) \<longleftrightarrow> v \<noteq> [] \<and> list_all is_base58_char v \<and>
     (\<exists>a b. cur @ rest = a @ v @ b \<and> (a = [] \<or> \<not> is_base58_char (last a)) \<and> (b = [] \<or> \<not> is_base58_char (hd b)))"
  (is "_ \<longleftrightarrow> ?M cur rest")
  using assms
proof (induction rest arbitrary: cur)
  case Nil
  have A: "v = cur \<and> cur \<noteq> []" if M: "?M cur []"
  proof -
    obtain a b where h: "cur = a @ v @ b" "a = [] \<or> \<not> is_base58_char (last a)" "b = [] \<or> \<not> is_base58_char (hd b)"
      using M by auto
    then have "a = []" "b = []"
      using Nil by (auto simp: list_all_iff)
    with h(1) M show ?thesis by simp
  qed
  have B: "?M cur []" if "v = cur" "cur \<noteq> []"
    using that Nil by (intro conjI exI [of _ "[]"]) simp_all
  have "v \<in> set (runs cur []) \<longleftrightarrow> v = cur \<and> cur \<noteq> []" by auto
  also have "\<dots> \<longleftrightarrow> ?M cur []"
    by (rule iffI) (use A B in \<open>blast+\<close>)
  finally show ?case .
next
  case (Cons c rest)
  show ?case
  proof (cases "is_base58_char c")
    case True
    then show ?thesis
      using Cons.IH [of "cur @ [c]"] Cons.prems by simp
  next
    case False
    have rec: "v \<in> set (runs [] rest) \<longleftrightarrow> ?M [] rest"
      by (rule Cons.IH) simp
    have "?M cur (c # rest) \<longleftrightarrow> (cur \<noteq> [] \<and> v = cur) \<or> ?M [] rest"
    proof
      assume "?M cur (c # rest)"
      then obtain a b where v: "v \<noteq> []" "list_all is_base58_char v" and ab: "cur @ c # rest = a @ v @ b"
          "a = [] \<or> \<not> is_base58_char (last a)" "b = [] \<or> \<not> is_base58_char (hd b)"
        by blast
      show "(cur \<noteq> [] \<and> v = cur) \<or> ?M [] rest"
      proof (cases "length a \<le> length cur")
        case le: True
        then obtain u where u: "cur = a @ u" "u @ c # rest = v @ b"
          using ab(1) by (metis append_eq_append_conv_if append_take_drop_id)
        have "a = []"
          using u(1) ab(2) Cons.prems by (auto simp: list_all_iff)
        moreover have "v = u"
        proof (cases "length v \<le> length u")
          case True
          then obtain w where w: "u = v @ w" "w @ c # rest = b"
            using u(2) by (metis append_eq_append_conv_if append_take_drop_id)
          have "w = []"
          proof (rule ccontr)
            assume "w \<noteq> []"
            then have "is_base58_char (hd w)" "hd b = hd w" "b \<noteq> []"
              using w u(1) Cons.prems by (auto simp: list_all_iff)
            with ab(3) show False by simp
          qed
          with w show ?thesis by simp
        next
          case False2: False
          then have "c \<in> set v"
            using append_overlap [OF u(2)] by fastforce
          with v(2) False show ?thesis by (auto simp: list_all_iff)
        qed
        ultimately show ?thesis using u(1) v(1) by simp
      next
        case gt: False
        then obtain u where u: "a = cur @ c # u" "rest = u @ v @ b"
          using append_overlap [OF ab(1)] by auto
        then have "u = [] \<or> \<not> is_base58_char (last u)"
          using ab(2) by (cases "u = []") auto
        then have "?M [] rest"
          using v ab(3) u(2) by (intro conjI exI [of _ u] exI [of _ b]) simp_all
        then show ?thesis ..
      qed
    next
      assume "(cur \<noteq> [] \<and> v = cur) \<or> ?M [] rest"
      then show "?M cur (c # rest)"
      proof
        assume "cur \<noteq> [] \<and> v = cur"
        then have "cur @ c # rest = [] @ v @ (c # rest)" by simp
        with \<open>cur \<noteq> [] \<and> v = cur\<close> False Cons.prems show ?thesis by (metis list.sel(1))
      next
        assume "?M [] rest"
        then obtain a b where v: "v \<noteq> []" "list_all is_base58_char v" and ab: "rest = a @ v @ b"
            "a = [] \<or> \<not> is_base58_char (last a)" "b = [] \<or> \<not> is_base58_char (hd b)"
          by auto
        have "cur @ c # rest = (cur @ c # a) @ v @ b" "\<not> is_base58_char (last (cur @ c # a))"
          using ab False by auto
        with v ab(3) show ?thesis by blast
      qed
    qed
    then show ?thesis using False rec by auto
  qed
qed

definition is_url :: "utext \<Rightarrow> bool" where
  "is_url v \<longleftrightarrow> (prefix (lit ''http://'') v \<or> prefix (lit ''https://'') v) \<and> list_all (\<lambda>c. \<not> url_stop c) v"

lemma find_char_takeWhile:
  "(case find_char P s of Some e \<Rightarrow> e | None \<Rightarrow> blen s) = blen (takeWhile (\<lambda>c. \<not> P c) s)"
  by (induction P s rule: find_char.induct) (auto simp: blen_def split: option.splits)

lemma url_head: "prefix p s \<Longrightarrow> list_all (\<lambda>c. \<not> url_stop c) p \<Longrightarrow> prefix p (takeWhile (\<lambda>c. \<not> url_stop c) s)"
  by (auto simp: prefix_def list_all_iff takeWhile_append2)

lemma scheme_chars:
  "list_all (\<lambda>c. \<not> url_stop c) (lit ''http://'')" "list_all (\<lambda>c. \<not> url_stop c) (lit ''https://'')"
  by (simp_all add: url_stop_def u_whitespace_def)

lemma takeWhile_split: "b = takeWhile P b @ drop (length (takeWhile P b)) b"
  by (metis append_take_drop_id takeWhile_eq_take)

lemma find_url_SomeD:
  assumes "find_url s = Some pos"
  obtains a b where "s = a @ b" "blen a = pos" "is_url (takeWhile (\<lambda>c. \<not> url_stop c) b)"
proof -
  obtain a p b where ab: "s = a @ p @ b" "blen a = pos" "p = lit ''http://'' \<or> p = lit ''https://''"
    using assms by (auto simp: find_url_def split: option.splits dest!: find_sub_SomeD)
  have ns: "list_all (\<lambda>c. \<not> url_stop c) p"
    using ab(3) scheme_chars by blast
  have "prefix p (takeWhile (\<lambda>c. \<not> url_stop c) (p @ b))"
    by (rule url_head [OF _ ns]) simp
  moreover have "list_all (\<lambda>c. \<not> url_stop c) (takeWhile (\<lambda>c. \<not> url_stop c) (p @ b))"
    unfolding list_all_iff by (blast dest: set_takeWhileD)
  ultimately have "is_url (takeWhile (\<lambda>c. \<not> url_stop c) (p @ b))"
    using ab(3) unfolding is_url_def by blast
  with ab that show ?thesis by blast
qed

lemma url_loop_step:
  assumes "text = pre @ a @ b" "find_url (a @ b) = Some (blen a)" "u = takeWhile (\<lambda>c. \<not> url_stop c) b" "is_url u"
  obtains ctx where "url_loop text (blen pre) (a @ b) =
     map_option (\<lambda>more. (u, ctx) # more) (url_loop text (blen (pre @ a @ u)) (drop (length u) b))"
proof -
  obtain t where b: "b = u @ t" "t = drop (length u) b"
    using assms(3) takeWhile_split by blast
  have u: "u \<noteq> []"
    using assms(4) by (auto simp: is_url_def)
  then have m: "max (blen u) (Suc 0) = blen u"
    by (metis blen_0 One_nat_def Suc_leI max.absorb1 not_gr_zero)
  obtain ctx where ctx: "context_around text (blen pre + blen a) (blen u) = Some ctx"
    using context_around_defined [of "pre @ a" u t] unfolding assms(1) b(1) by auto
  have "split_bytes (blen a + blen u) (a @ b) = Some (a @ u, t)"
    using split_bytes_append [of "a @ u" t] b(1) by simp
  moreover have "split_bytes (blen u) b = Some (u, t)"
    using b(1) by simp
  moreover have "(@) [(u, ctx)] = (#) (u, ctx)"
    by (rule ext) simp
  ultimately have "url_loop text (blen pre) (a @ b) =
      map_option (\<lambda>more. (u, ctx) # more) (url_loop text (blen (pre @ a @ u)) t)"
    by (subst url_loop.simps)
       (simp add: assms(2) find_char_takeWhile assms(3) [symmetric] m u ctx Let_def add.assoc)
  with that b(2) show ?thesis by simp
qed

lemma url_loop_spec:
  assumes "text = pre @ rest"
  shows "\<exists>hits. url_loop text (blen pre) rest = Some hits \<and> (\<forall>v \<in> fst ` set hits. is_url v \<and> sublist v text)"
  using assms
proof (induction "length rest" arbitrary: pre rest rule: less_induct)
  case less
  show ?case
  proof (cases "find_url rest")
    case None
    then show ?thesis by (subst url_loop.simps) simp
  next
    case (Some pos)
    then obtain a b where ab: "rest = a @ b" "blen a = pos" "is_url (takeWhile (\<lambda>c. \<not> url_stop c) b)"
      by (rule find_url_SomeD)
    define u where "u = takeWhile (\<lambda>c. \<not> url_stop c) b"
    have b: "b = u @ drop (length u) b"
      unfolding u_def by (rule takeWhile_split)
    have u: "is_url u" "u \<noteq> []"
      using ab(3) by (auto simp: u_def is_url_def)
    obtain ctx where step: "url_loop text (blen pre) (a @ b) =
        map_option (\<lambda>more. (u, ctx) # more) (url_loop text (blen (pre @ a @ u)) (drop (length u) b))"
      using url_loop_step [of "text" pre a b u] less.prems ab Some u_def u(1) by blast
    have tx: "text = (pre @ a @ u) @ drop (length u) b"
      using less.prems ab(1) b by simp
    have "length (drop (length u) b) < length rest"
      using ab(1) u(2) length_takeWhile_le [of "\<lambda>c. \<not> url_stop c" b] by (cases u) (simp_all add: u_def [symmetric])
    then obtain more where "url_loop text (blen (pre @ a @ u)) (drop (length u) b) = Some more"
        "\<forall>v \<in> fst ` set more. is_url v \<and> sublist v text"
      using less.hyps [OF _ tx] by blast
    moreover have "sublist u text"
      using tx by (metis append.assoc sublist_appendI)
    ultimately show ?thesis
      using step ab(1) u(1) by auto
  qed
qed

section \<open>Claims\<close>

lemma claim_loop_miss:
  assumes "keyword \<noteq> []" "\<not> sublist keyword b"
  shows "claim_loop (a @ b) trimmed keyword ct (blen a) = Some []"
  using assms by (subst claim_loop.simps) (simp add: find_sub_None [symmetric])

lemma claim_loop_hit:
  assumes "keyword \<noteq> []" "find_sub keyword b = Some (blen p)" "b = p @ keyword @ q"
  shows "claim_loop (a @ b) trimmed keyword ct (blen a) =
     (if word_bounded (a @ p) q
      then map_option (\<lambda>ctx. [\<lparr>cl_claim_type = ct, cl_keyword = keyword, cl_context = ctx\<rparr>])
             (context_around trimmed (blen (a @ p)) (blen keyword))
      else claim_loop (a @ b) trimmed keyword ct (blen (a @ p @ keyword)))"
proof -
  have "split_bytes (blen a + blen p) (a @ b) = Some (a @ p, keyword @ q)"
    using split_bytes_append [of "a @ p" "keyword @ q"] assms(3) by simp
  moreover have "split_bytes (blen a + blen p + blen keyword) (a @ b) = Some (a @ p @ keyword, q)"
    using split_bytes_append [of "a @ p @ keyword" q] assms(3) by (simp add: add.assoc)
  ultimately show ?thesis
    by (subst claim_loop.simps) (simp add: assms(1,2) add.assoc)
qed

definition claim_at :: "utext \<Rightarrow> utext \<Rightarrow> bool" where
  "claim_at keyword lower \<longleftrightarrow> (\<exists>before after. lower = before @ keyword @ after \<and> word_bounded before after)"

lemma claim_loop_spec:
  assumes "keyword \<noteq> []" "claim_loop (a @ b) trimmed keyword ct (blen a) = Some cs"
  shows "cs = [] \<or> (\<exists>ctx. cs = [\<lparr>cl_claim_type = ct, cl_keyword = keyword, cl_context = ctx\<rparr>]) \<and> claim_at keyword (a @ b)"
  using assms(2)
proof (induction "length b" arbitrary: a b rule: less_induct)
  case less
  show ?case
  proof (cases "find_sub keyword b")
    case None
    then show ?thesis
      using claim_loop_miss [OF assms(1), of b a trimmed ct] less.prems by (simp add: find_sub_None)
  next
    case (Some pos)
    then obtain p q where pq: "b = p @ keyword @ q" "blen p = pos"
      using find_sub_SomeD by blast
    note hit = claim_loop_hit [OF assms(1), of b p q a trimmed ct]
    show ?thesis
    proof (cases "word_bounded (a @ p) q")
      case True
      moreover have "a @ b = (a @ p) @ keyword @ q"
        using pq(1) by simp
      ultimately have "claim_at keyword (a @ b)"
        unfolding claim_at_def by blast
      then show ?thesis
        using hit Some pq True less.prems by auto
    next
      case False
      have "a @ b = (a @ p @ keyword) @ q" "length q < length b"
        using pq(1) assms(1) by simp_all
      then show ?thesis
        using less.hyps [of q "a @ p @ keyword"] hit Some pq False less.prems by simp
    qed
  qed
qed

lemma same_widths_split:
  assumes "map utf8_len s = map utf8_len (a @ h @ b)"
  obtains a' h' b' where "s = a' @ h' @ b'" "blen a' = blen a" "blen h' = blen h"
proof -
  have "map utf8_len s = map utf8_len a @ map utf8_len (h @ b)"
    using assms by simp
  then obtain a' r where a': "s = a' @ r" "map utf8_len a = map utf8_len a'" "map utf8_len (h @ b) = map utf8_len r"
    unfolding map_eq_append_conv by blast
  then have "map utf8_len r = map utf8_len h @ map utf8_len b"
    by simp
  then obtain h' b' where "r = h' @ b'" "map utf8_len h = map utf8_len h'"
    unfolding map_eq_append_conv by blast
  with a' show ?thesis
    using that by (simp add: blen_def)
qed

lemma claim_loop_defined:
  assumes "keyword \<noteq> []" "map utf8_len trimmed = map utf8_len (a @ b)"
  shows "\<exists>cs. claim_loop (a @ b) trimmed keyword ct (blen a) = Some cs"
  using assms(2)
proof (induction "length b" arbitrary: a b rule: less_induct)
  case less
  show ?case
  proof (cases "find_sub keyword b")
    case None
    then show ?thesis
      using claim_loop_miss [OF assms(1), of b a trimmed ct] by (simp add: find_sub_None)
  next
    case (Some pos)
    then obtain p q where pq: "b = p @ keyword @ q" "blen p = pos"
      using find_sub_SomeD by blast
    note hit = claim_loop_hit [OF assms(1), of b p q a trimmed ct]
    obtain a' h' b' where w: "trimmed = a' @ h' @ b'" "blen a' = blen (a @ p)" "blen h' = blen keyword"
      using same_widths_split [of trimmed "a @ p" keyword q] less.prems pq(1) by auto
    have "\<exists>ctx. context_around trimmed (blen (a @ p)) (blen keyword) = Some ctx"
      using context_around_defined [of a' h' b'] w by simp
    moreover have "\<exists>cs. claim_loop (a @ b) trimmed keyword ct (blen (a @ p @ keyword)) = Some cs"
      using less.hyps [of q "a @ p @ keyword"] less.prems pq(1) assms(1) by simp
    ultimately show ?thesis
      using hit Some pq by auto
  qed
qed

text \<open>A stand-alone occurrence cannot overlap an earlier one, so skipping a whole keyword misses none.\<close>

lemma claim_loop_complete:
  assumes "keyword \<noteq> []" "list_all is_word_char keyword" "word_bounded before after"
    "before = a @ x" "a @ b = before @ keyword @ after"
  shows "claim_loop (a @ b) trimmed keyword ct (blen a) \<noteq> Some []"
  using assms(4,5)
proof (induction "length b" arbitrary: a b x rule: less_induct)
  case less
  have b: "b = x @ keyword @ after"
    using less.prems by simp
  then have "find_sub keyword b \<noteq> None"
    by (auto simp: find_sub_None)
  then obtain pos where pos: "find_sub keyword b = Some pos" by auto
  then obtain p q where pq: "b = p @ keyword @ q" "blen p = pos" "length p \<le> length x"
    using find_sub_SomeD [OF pos] b by blast
  note hit = claim_loop_hit [OF assms(1), of b p q a trimmed ct]
  show ?case
  proof (cases "word_bounded (a @ p) q")
    case True
    then show ?thesis
      using hit pos pq by auto
  next
    case False
    then have "p \<noteq> x"
      using assms(3) less.prems(1) b pq(1) by auto
    then have "length p < length x"
      using pq b by (metis append_eq_append_conv le_neq_implies_less)
    moreover have "\<not> length x < length p + length keyword"
    proof
      assume short: "length x < length p + length keyword"
      obtain u where u: "x = p @ u" "keyword @ q = u @ keyword @ after"
        using append_longer [of x "keyword @ after" p "keyword @ q"] pq b by auto
      have "u \<noteq> []" "length u \<le> length keyword"
        using \<open>length p < length x\<close> short u(1) by auto
      then have "prefix u keyword"
        using u(2) by (metis prefixI prefix_length_prefix)
      then have "is_word_char (last u)"
        using assms(2) \<open>u \<noteq> []\<close> by (auto simp: prefix_def list_all_iff)
      then show False
        using assms(3) less.prems(1) u(1) \<open>u \<noteq> []\<close> by (simp add: word_bounded_def)
    qed
    ultimately obtain u where u: "x = p @ keyword @ u"
      using append_longer [of x "keyword @ after" "p @ keyword" q] pq(1) b by auto
    have "length q < length b" "a @ b = (a @ p @ keyword) @ q"
      using pq(1) assms(1) by simp_all
    moreover have "before = (a @ p @ keyword) @ u"
      using u less.prems(1) by simp
    ultimately show ?thesis
      using less.hyps [of q "a @ p @ keyword" u] hit pos pq False less.prems(2) by simp
  qed
qed

lemma find_claims_Cons:
  "find_claims lower trimmed ((k, t) # kts) =
     (case claim_loop lower trimmed k t 0 of
        None \<Rightarrow> None | Some cs \<Rightarrow> map_option (\<lambda>more. cs @ more) (find_claims lower trimmed kts))"
  unfolding find_claims_def by simp

lemma find_claims_spec:
  assumes "find_claims lower trimmed kts = Some cs" "distinct (map fst kts)"
    "\<forall>k \<in> set (map fst kts). k \<noteq> [] \<and> list_all is_word_char k"
  shows "distinct (map cl_keyword cs) \<and> (\<forall>k. k \<in> set (map cl_keyword cs) \<longleftrightarrow> k \<in> set (map fst kts) \<and> claim_at k lower)"
  using assms
proof (induction kts arbitrary: cs)
  case Nil
  then show ?case by (simp add: find_claims_def)
next
  case (Cons kt kts)
  obtain k t where kt: "kt = (k, t)" by (cases kt)
  obtain c1 c2 where c: "claim_loop lower trimmed k t 0 = Some c1" "find_claims lower trimmed kts = Some c2" "cs = c1 @ c2"
    using Cons.prems(1) unfolding kt find_claims_Cons by (auto split: option.splits)
  have k: "k \<noteq> []" "list_all is_word_char k"
    using Cons.prems(3) kt by simp_all
  have loop: "claim_loop ([] @ lower) trimmed k t (blen []) = Some c1"
    using c(1) by (simp add: blen_def)
  have IH: "distinct (map cl_keyword c2)"
      "\<forall>k. k \<in> set (map cl_keyword c2) \<longleftrightarrow> k \<in> set (map fst kts) \<and> claim_at k lower"
    using Cons.IH [OF c(2)] Cons.prems by auto
  have "c1 = []" if "\<not> claim_at k lower"
    using claim_loop_spec [OF k(1) loop] that by simp
  moreover have "c1 \<noteq> []" if here: "claim_at k lower"
  proof -
    obtain bf af where "lower = bf @ k @ af" "word_bounded bf af"
      using here unfolding claim_at_def by blast
    then show ?thesis
      using claim_loop_complete [OF k, of bf af "[]" bf lower trimmed t] c(1) by (auto simp: blen_def)
  qed
  moreover have "c1 = [] \<or> (\<exists>ctx. c1 = [\<lparr>cl_claim_type = t, cl_keyword = k, cl_context = ctx\<rparr>])"
    using claim_loop_spec [OF k(1) loop] by blast
  ultimately show ?case
    using IH c(3) Cons.prems(2) kt by auto
qed

lemma keywords_ok:
  "distinct (map fst CLAIM_KEYWORDS)" "\<forall>k \<in> set (map fst CLAIM_KEYWORDS). k \<noteq> [] \<and> list_all is_word_char k"
  by (simp_all add: CLAIM_KEYWORDS_def is_word_char_def is_ascii_alphanumeric_def)

section \<open>Messages\<close>

abbreviation mention_keys :: "ParsedMention list \<Rightarrow> (MentionKind \<times> utext) list" where
  "mention_keys ms \<equiv> map (\<lambda>x. (mn_kind x, mn_extracted_value x)) ms"

lemma add_mentions_spec:
  assumes "add_mentions kind hits seen ms = (seen', ms')" "set seen = set (mention_keys ms)" "distinct (mention_keys ms)"
  shows "set seen' = set (mention_keys ms') \<and> distinct (mention_keys ms')
    \<and> set (mention_keys ms') = set (mention_keys ms) \<union> (\<lambda>v. (kind, v)) ` fst ` set hits"
  using assms
proof (induction kind hits seen ms rule: add_mentions.induct)
  case (2 kind v ctx hits seen ms)
  show ?case
  proof (cases "(kind, v) \<in> set seen")
    case True
    with 2 show ?thesis by auto
  next
    case False
    with 2 show ?thesis by auto
  qed
qed simp


lemma find_claims_defined:
  assumes "map utf8_len trimmed = map utf8_len lower" "\<forall>k \<in> set (map fst kts). k \<noteq> []"
  shows "\<exists>cs. find_claims lower trimmed kts = Some cs"
  using assms(2)
proof (induction kts)
  case Nil
  then show ?case by (simp add: find_claims_def)
next
  case (Cons kt kts)
  obtain k t where kt: "kt = (k, t)" by (cases kt)
  obtain c where "claim_loop lower trimmed k t 0 = Some c"
    using claim_loop_defined [of k trimmed "[]" lower t] Cons.prems assms(1) kt by (auto simp: blen_def)
  then show ?case
    using Cons kt by (auto simp: find_claims_Cons)
qed

lemma parse_by_claims:
  assumes "u_trim t \<noteq> []"
  shows "parse_message_text b58 to_lower (Some t) = None \<longleftrightarrow> find_claims (to_lower (u_trim t)) (u_trim t) CLAIM_KEYWORDS = None"
proof -
  obtain urls where "extract_urls (u_trim t) = Some urls"
    using url_loop_spec [of "u_trim t" "[]" "u_trim t"] by (auto simp: extract_urls_def blen_def)
  moreover obtain cands where "extract_base58_candidates b58 (u_trim t) = Some cands"
    using base58_loop_runs [of "u_trim t" "[]" "[]" "u_trim t" 0 0 b58] by (auto simp: extract_base58_candidates_def blen_def)
  ultimately show ?thesis
    using assms by (simp add: parse_message_text_def Let_def split: prod.splits)
qed

text \<open>Lower-casing as the Unicode tables have it for the ASCII letters and for the dotted capital I, which
  becomes two characters.\<close>

definition sample_lower :: "utext \<Rightarrow> utext" where
  "sample_lower s = concat (map (\<lambda>c. if 65 \<le> c \<and> c \<le> 90 then [c + 32] else if c = 304 then [105, 775] else [c]) s)"

definition dotted_message :: utext where
  "dotted_message = [304, 304, 32, 98, 117, 121]"

text \<open>Parsing returns for every message whenever lower-casing keeps the width of every character, since
  the offsets found in the lower-case text then are character boundaries of the message. It is not total for
  Unicode text: the offset of a claim found in the lower-case text is used to slice the message as written,
  so a message of two dotted capital I (which become longer in lower case) followed by the word buy makes
  the parser panic.\<close>

theorem parsing_panics_only_on_width_changes:
  shows "((\<forall>s. map utf8_len (to_lower s) = map utf8_len s) \<longrightarrow> (\<exists>m. parse_message_text b58 to_lower text = Some m))
    \<and> parse_message_text b58 sample_lower (Some dotted_message) = None"
proof (intro conjI impI)
  assume keep: "\<forall>s. map utf8_len (to_lower s) = map utf8_len s"
  show "\<exists>m. parse_message_text b58 to_lower text = Some m"
  proof (cases "\<exists>t. text = Some t \<and> u_trim t \<noteq> []")
    case True
    then obtain t where t: "text = Some t" "u_trim t \<noteq> []" by blast
    have "\<exists>cs. find_claims (to_lower (u_trim t)) (u_trim t) CLAIM_KEYWORDS = Some cs"
      using find_claims_defined keep keywords_ok(2) by metis
    then show ?thesis
      using parse_by_claims [OF t(2), of b58 to_lower] t(1) by auto
  next
    case False
    then show ?thesis
      by (cases "text") (auto simp: parse_message_text_def)
  qed
next
  have trim: "u_trim dotted_message = dotted_message"
    by (simp add: u_trim_def dotted_message_def u_whitespace_def)
  have low: "sample_lower dotted_message = [105, 775, 105, 775, 32] @ lit ''buy''"
    by (simp add: sample_lower_def dotted_message_def)
  have "claim_loop (sample_lower dotted_message) dotted_message (lit ''buy'') (lit ''buy'') 0 = None"
    unfolding low
    by (subst claim_loop.simps)
       (simp add: blen_def utf8_len_def word_bounded_def is_word_char_def is_ascii_alphanumeric_def
         context_around_def dotted_message_def prefix_def)
  then have "find_claims (sample_lower dotted_message) dotted_message CLAIM_KEYWORDS = None"
    by (simp add: CLAIM_KEYWORDS_def find_claims_Cons)
  then show "parse_message_text b58 sample_lower (Some dotted_message) = None"
    using parse_by_claims [of dotted_message b58 sample_lower] trim by (simp add: dotted_message_def)
qed

theorem parsing_panics_only_on_width_changes_witness:
  "\<exists>m. parse_message_text (\<lambda>_. None) (map (\<lambda>c. if 65 \<le> c \<and> c \<le> 90 then c + 32 else c)) (Some (lit ''BUY now'')) = Some m"
proof -
  have "map utf8_len (map (\<lambda>c. if 65 \<le> c \<and> c \<le> 90 then c + 32 else c) s) = map utf8_len s" for s
    by (simp add: utf8_len_def)
  then show ?thesis
    using parsing_panics_only_on_width_changes [of "map (\<lambda>c. if 65 \<le> c \<and> c \<le> 90 then c + 32 else c)" "\<lambda>_. None"
        "Some (lit ''BUY now'')"] by blast
qed


text \<open>An https link before an http link is lost: the search prefers the later http link and continues after it.\<close>

lemma https_before_http_is_lost:
  "\<exists>ctx. extract_urls (lit ''https://a http://b'') = Some [(lit ''http://b'', ctx)]"
proof -
  have t: "lit ''https://a http://b'' = [] @ lit ''https://a '' @ lit ''http://b''"
    by simp
  have f: "find_url (lit ''https://a '' @ lit ''http://b'') = Some (blen (lit ''https://a ''))"
    by (simp add: find_url_def blen_def utf8_len_def)
  have u: "lit ''http://b'' = takeWhile (\<lambda>c. \<not> url_stop c) (lit ''http://b'')" "is_url (lit ''http://b'')"
    by (simp_all add: url_stop_def u_whitespace_def is_url_def)
  obtain ctx where "url_loop (lit ''https://a http://b'') (blen []) (lit ''https://a '' @ lit ''http://b'') =
      map_option (\<lambda>more. (lit ''http://b'', ctx) # more)
        (url_loop (lit ''https://a http://b'') (blen ([] @ lit ''https://a '' @ lit ''http://b'')) (drop (length (lit ''http://b'')) (lit ''http://b'')))"
    by (rule url_loop_step [OF t f u])
  moreover have "url_loop x y (drop (length (lit ''http://b'')) (lit ''http://b'')) = Some []" for x y
    by (subst url_loop.simps) (simp add: find_url_def)
  ultimately show ?thesis
    by (simp add: extract_urls_def blen_def)
qed

section \<open>The hashed bytes\<close>

text \<open>Within a channel the hashed bytes determine the message, its edit version and its text.\<close>

text \<open>The first byte tells the number of bytes.\<close>

lemma utf8_first_byte:
  "c < 128 \<longleftrightarrow> hd (utf8_bytes c) < 192" "c < 2048 \<longleftrightarrow> hd (utf8_bytes c) < 224" "c < 65536 \<longleftrightarrow> hd (utf8_bytes c) < 240"
proof -
  have "z < 2048 \<Longrightarrow> z div 64 < 32" "z < 65536 \<Longrightarrow> z div 4096 < 16" for z :: nat
    by (simp_all add: less_mult_imp_div_less)
  then show "c < 128 \<longleftrightarrow> hd (utf8_bytes c) < 192" "c < 2048 \<longleftrightarrow> hd (utf8_bytes c) < 224"
    "c < 65536 \<longleftrightarrow> hd (utf8_bytes c) < 240"
    by (auto simp: utf8_bytes_def)
qed

lemma utf8_prefix_free:
  assumes "utf8_bytes c @ x = utf8_bytes d @ y"
  shows "c = d \<and> x = y"
proof -
  have digits: "z = 64 * (z div 64) + z mod 64" "z div 64 = 64 * (z div 4096) + z div 64 mod 64"
      "z div 4096 = 64 * (z div 262144) + z div 4096 mod 64" for z :: nat
    using mult_div_mod_eq [of 64 z] mult_div_mod_eq [of 64 "z div 64"] mult_div_mod_eq [of 64 "z div 4096"]
      div_mult2_eq [of z 64 64] div_mult2_eq [of z 4096 64]
    by simp_all
  have "hd (utf8_bytes c) = hd (utf8_bytes d)"
    using arg_cong [OF assms, of hd] by (simp add: utf8_bytes_def split: if_splits)
  then have same: "c < 128 \<longleftrightarrow> d < 128" "c < 2048 \<longleftrightarrow> d < 2048" "c < 65536 \<longleftrightarrow> d < 65536"
    by (simp_all add: utf8_first_byte)
  consider "c < 128" | "\<not> c < 128" "c < 2048" | "\<not> c < 2048" "c < 65536" | "\<not> c < 65536" by blast
  then show ?thesis
  proof cases
    case 1
    with assms same show ?thesis by (simp add: utf8_bytes_def)
  next
    case 2
    with assms same have "c div 64 = d div 64" "c mod 64 = d mod 64" "x = y"
      by (simp_all add: utf8_bytes_def)
    then show ?thesis using digits(1) by metis
  next
    case 3
    with assms same have "c div 4096 = d div 4096" "c div 64 mod 64 = d div 64 mod 64" "c mod 64 = d mod 64" "x = y"
      by (simp_all add: utf8_bytes_def)
    then show ?thesis using digits(1,2) by metis
  next
    case 4
    with assms same have "c div 262144 = d div 262144" "c div 4096 mod 64 = d div 4096 mod 64"
        "c div 64 mod 64 = d div 64 mod 64" "c mod 64 = d mod 64" "x = y"
      by (simp_all add: utf8_bytes_def)
    then show ?thesis using digits by metis
  qed
qed

lemma utf8_text_inj:
  assumes "concat (map utf8_bytes s) = concat (map utf8_bytes t)"
  shows "s = t"
  using assms
proof (induction s arbitrary: t)
  case Nil
  then show ?case by (cases t) (auto simp: utf8_bytes_def split: if_splits)
next
  case (Cons c s)
  show ?case
  proof (cases t)
    case Nil
    with Cons show ?thesis by (auto simp: utf8_bytes_def split: if_splits)
  next
    case (Cons d t')
    then show ?thesis
      using Cons.IH [of t'] Cons.prems utf8_prefix_free [of c _ d] by simp
  qed
qed

lemma le_bytes_mod: "le_bytes n x = le_bytes n y \<Longrightarrow> x mod 256 ^ n = y mod 256 ^ n"
proof (induction n)
  case (Suc n)
  then have "x mod 256 ^ n = y mod 256 ^ n" "nat (x div 256 ^ n mod 256) = nat (y div 256 ^ n mod 256)"
    by (simp_all add: le_bytes_def)
  moreover from this(2) have "x div 256 ^ n mod 256 = y div 256 ^ n mod 256"
    by (simp add: nat_eq_iff2)
  moreover have "z mod 256 ^ Suc n = 256 ^ n * (z div 256 ^ n mod 256) + z mod 256 ^ n" for z :: int
    using zmod_zmult2_eq [of 256 z "256 ^ n"] unfolding power_Suc mult.commute [of 256 "256 ^ n"] by simp
  ultimately show ?case by simp
qed simp

lemma length_le_bytes [simp]: "length (le_bytes n x) = n"
  by (simp add: le_bytes_def)

lemma hash_input_separates:
  assumes "in_i64 i" "in_i64 j" "- (2 ^ 31) \<le> e" "e < 2 ^ 31" "- (2 ^ 31) \<le> f" "f < 2 ^ 31"
    "hash_input channel i e (Some s) = hash_input channel j f (Some t)"
  shows "i = j \<and> e = f \<and> s = t"
proof -
  have b: "le_bytes 8 i = le_bytes 8 j" "le_bytes 4 e = le_bytes 4 f"
      "concat (map utf8_bytes s) = concat (map utf8_bytes t)"
    using assms(7) by (simp_all add: hash_input_def)
  have "(i + 2 ^ 63) mod 2 ^ 64 = (j + 2 ^ 63) mod 2 ^ 64"
    using le_bytes_mod [OF b(1)] mod_add_cong [of i "2 ^ 64" j "2 ^ 63" "2 ^ 63"] by simp
  then have "i = j"
    using assms(1,2) by (simp add: in_i64_def)
  moreover have "(e + 2 ^ 31) mod 2 ^ 32 = (f + 2 ^ 31) mod 2 ^ 32"
    using le_bytes_mod [OF b(2)] mod_add_cong [of e "2 ^ 32" f "2 ^ 31" "2 ^ 31"] by simp
  then have "e = f"
    using assms(3-6) by simp
  ultimately show ?thesis
    using utf8_text_inj [OF b(3)] by simp
qed

text \<open>Across channels they do not: the key is not delimited. A message without text hashes like an empty one.\<close>

lemma hash_input_collision:
  "hash_input (lit ''a'') 1378 0 (Some (0 # t)) = hash_input (lit ''ab'') 5 0 (Some t)"
  by (simp add: hash_input_def le_bytes_def utf8_bytes_def upt_rec)

end
