(* ===== verification/Chains.thy ===== *)
theory Chains
  imports Events Decimals
begin

text \<open>
  The chain adapters (\<open>chains.rs\<close>): normalization of Helius transactions and of EVM blocks into transfers
  and trades, address validation, hexadecimal quantities, the chain-id check and the EVM node calls. The
  node, the views of a JSON number, the time reader, the base58 decoder and the number printer are fields
  of a record that the definitions take as an argument.
\<close>

record 'd chain_env =
  ce_as_u64 :: "json \<Rightarrow> nat option"
  ce_as_i64 :: "json \<Rightarrow> int option"
  ce_from_timestamp :: "int \<Rightarrow> int option"
  ce_b58 :: "string \<Rightarrow> nat option"
  ce_show_f64 :: "f64 \<Rightarrow> string"
  ce_to_value :: "'d NormalizedTransfer \<Rightarrow> json"

fun as_array :: "json \<Rightarrow> json list option" where
  "as_array (JArray xs) = Some xs"
| "as_array _ = None"

fun as_f64 :: "json \<Rightarrow> f64 option" where
  "as_f64 (JNumber x) = Some x"
| "as_f64 _ = None"

fun jget :: "json \<Rightarrow> string \<Rightarrow> json option" where
  "jget (JObject m) k = map_of m k"
| "jget _ k = None"

abbreviation jpath :: "json \<Rightarrow> string \<Rightarrow> (json \<Rightarrow> 'a option) \<Rightarrow> 'a option" where
  "jpath v k f \<equiv> Option.bind (jget v k) f"

abbreviation or_empty :: "string option \<Rightarrow> string" where
  "or_empty s \<equiv> (case s of Some x \<Rightarrow> x | None \<Rightarrow> [])"

definition as_i32 :: "int \<Rightarrow> int" where
  "as_i32 x = (x + 2 ^ 31) mod 2 ^ 32 - 2 ^ 31"

fun somes :: "'a option list \<Rightarrow> 'a list" where
  "somes [] = []"
| "somes (None # xs) = somes xs"
| "somes (Some x # xs) = x # somes xs"

section \<open>Numbers\<close>

fun hex_digit :: "char \<Rightarrow> nat option" where
  "hex_digit c = (let n = of_char c :: nat in
     if 48 \<le> n \<and> n \<le> 57 then Some (n - 48)
     else if 97 \<le> n \<and> n \<le> 102 then Some (n - 87)
     else if 65 \<le> n \<and> n \<le> 70 then Some (n - 55) else None)"

declare hex_digit.simps [simp del]

definition is_ascii_hexdigit :: "char \<Rightarrow> bool" where
  "is_ascii_hexdigit c \<longleftrightarrow> hex_digit c \<noteq> None"

text \<open>\<open>from_str_radix(.., 16)\<close> into an unsigned type: an optional plus sign, at least one digit, no overflow.\<close>

definition from_str_radix16 :: "nat \<Rightarrow> string \<Rightarrow> nat option" where
  "from_str_radix16 bound s =
     (let ds = (if s \<noteq> [] \<and> hd s = CHR ''+'' then tl s else s)
      in if ds = [] \<or> \<not> list_all is_ascii_hexdigit ds then None
         else let n = foldl (\<lambda>a c. 16 * a + the (hex_digit c)) 0 ds in if n < bound then Some n else None)"

definition strip_prefix :: "string \<Rightarrow> string \<Rightarrow> string option" where
  "strip_prefix p s = (if take (length p) s = p then Some (drop (length p) s) else None)"

definition parse_hex_quantity :: "string \<Rightarrow> nat option" where
  "parse_hex_quantity value =
     (case or_else (strip_prefix ''0x'' value) (strip_prefix ''0X'' value) of
        None \<Rightarrow> None
      | Some hex \<Rightarrow> if hex = [] then Some 0 else from_str_radix16 (2 ^ 64) hex)"

definition show_hex_digit :: "nat \<Rightarrow> char" where
  "show_hex_digit d = (if d < 10 then char_of (48 + d) else char_of (87 + d))"

fun show_hex_digits :: "nat \<Rightarrow> string" where
  "show_hex_digits n = (if n < 16 then [show_hex_digit n] else show_hex_digits (n div 16) @ [show_hex_digit (n mod 16)])"

declare show_hex_digits.simps [simp del]

text \<open>The format \<open>{:#x}\<close>.\<close>

definition show_hex :: "nat \<Rightarrow> string" where
  "show_hex n = ''0x'' @ show_hex_digits n"

text \<open>\<open>str::parse::<u128>\<close>.\<close>

definition parse_u128 :: "string \<Rightarrow> nat option" where
  "parse_u128 s = (let ds = (if s \<noteq> [] \<and> hd s = CHR ''+'' then tl s else s)
     in if ds \<noteq> [] \<and> list_all is_digit ds \<and> read_nat ds < 2 ^ 128 then Some (read_nat ds) else None)"

fun ten_pow :: "('d, 'x) decimal_num_scheme \<Rightarrow> nat \<Rightarrow> 'd" where
  "ten_pow D 0 = dec_of_int D 1"
| "ten_pow D (Suc n) = dec_mul D (ten_pow D n) (dec_of_int D 10)"

definition LAMPORTS_PER_SOL :: nat where
  "LAMPORTS_PER_SOL = 1000000000"

definition lamports_to_sol :: "('d, 'x) decimal_num_scheme \<Rightarrow> nat \<Rightarrow> 'd" where
  "lamports_to_sol D n = dec_div D (dec_of_int D (int n)) (dec_of_int D (int LAMPORTS_PER_SOL))"

datatype chain_error = BadLength nat | BadBase58 | BadDecodedLength nat | BadTokenAmount | MissingSignature
  | HistoryElsewhere | FundingElsewhere | EmptyRpcUrl | RpcFailed string | NonString string | MalformedValue string
  | ChainIdMalformed | ChainIdMismatch nat nat | BadEvmAddress | NonHexAddress | BadHexAmount | BadDecimalAmount
  | BlockMissingNumber | NonObjectBlock | NonArrayLogs

definition raw_token_to_amount :: "('d, 'x) decimal_num_scheme \<Rightarrow> string \<Rightarrow> nat \<Rightarrow> chain_error + 'd" where
  "raw_token_to_amount D raw decimals =
     (case dec_exact D (trim raw) of
        None \<Rightarrow> Inl BadTokenAmount
      | Some r \<Rightarrow> Inr (dec_div D r (ten_pow D decimals)))"

text \<open>An \<open>f64\<close> without a fraction is printed through a saturating cast to \<open>i64\<close>.\<close>

definition saturate_i64 :: "int \<Rightarrow> int" where
  "saturate_i64 x = max (- (2 ^ 63)) (min (2 ^ 63 - 1) x)"

definition format_amount_string :: "('d, 'e) chain_env_scheme \<Rightarrow> f64 \<Rightarrow> string" where
  "format_amount_string E v =
     (case v of
        Fin x \<Rightarrow> if of_int \<lfloor>x\<rfloor> = x then show_int (saturate_i64 \<lfloor>x\<rfloor>) else ce_show_f64 E v
      | _ \<Rightarrow> ce_show_f64 E v)"

section \<open>Solana\<close>

definition validate_solana_address :: "('d, 'e) chain_env_scheme \<Rightarrow> string \<Rightarrow> chain_error + unit" where
  "validate_solana_address E address =
     (if length address < 32 \<or> 44 < length address then Inl (BadLength (length address))
      else case ce_b58 E address of
        None \<Rightarrow> Inl BadBase58
      | Some n \<Rightarrow> if n \<noteq> 32 then Inl (BadDecodedLength n) else Inr ())"

abbreviation solana_ok :: "('d, 'e) chain_env_scheme \<Rightarrow> string \<Rightarrow> bool" where
  "solana_ok E a \<equiv> validate_solana_address E a = Inr ()"

record tx_head =
  th_signature :: string
  th_slot :: "nat option"
  th_block_time :: "int option"
  th_commitment :: Commitment
  th_observed_at :: int

definition helius_transfer :: "tx_head \<Rightarrow> int \<Rightarrow> string \<Rightarrow> string \<Rightarrow> AssetKind \<Rightarrow> string \<Rightarrow> string \<Rightarrow> 'd \<Rightarrow> 'd NormalizedTransfer" where
  "helius_transfer h index src dst kind mint raw amount =
     \<lparr>nt_chain = KindSolana, nt_signature = th_signature h, nt_event_index = index, nt_from_address = src,
      nt_to_address = dst, nt_asset_kind = kind, nt_mint = mint, nt_raw_amount = raw, nt_amount = amount,
      nt_slot = th_slot h, nt_block_time = th_block_time h, nt_observed_at = th_observed_at h,
      nt_source = ''helius'', nt_commitment = th_commitment h\<rparr>"

definition native_transfer :: "('d, 'x) decimal_num_scheme \<Rightarrow> ('d, 'e) chain_env_scheme \<Rightarrow> tx_head \<Rightarrow> nat \<times> json \<Rightarrow>
    'd NormalizedTransfer option" where
  "native_transfer D E h x =
     (case x of (index, t) \<Rightarrow>
        (case (jpath t ''fromUserAccount'' as_str, jpath t ''toUserAccount'' as_str, jpath t ''amount'' (ce_as_u64 E)) of
           (Some f, Some r, Some a) \<Rightarrow>
             if 0 < a \<and> solana_ok E f \<and> solana_ok E r
             then Some (helius_transfer h (as_i32 (int index)) f r NativeAsset [] (show_nat a) (lamports_to_sol D a))
             else None
         | _ \<Rightarrow> None))"

text \<open>\<open>Inl\<close> is the error that ends the normalization, \<open>Inr None\<close> an entry that is skipped.\<close>

definition token_transfer :: "('d, 'x) decimal_num_scheme \<Rightarrow> ('d, 'e) chain_env_scheme \<Rightarrow> tx_head \<Rightarrow> nat \<times> json \<Rightarrow>
    chain_error + 'd NormalizedTransfer option" where
  "token_transfer D E h x =
     (case x of (offset, t) \<Rightarrow>
        (let src = or_empty (jpath t ''fromUserAccount'' as_str); dst = or_empty (jpath t ''toUserAccount'' as_str);
             mint = or_empty (jpath t ''mint'' as_str);
             raw_amount = or_else (jpath t ''tokenAmount'' as_f64) (jpath t ''rawTokenAmount'' as_f64);
             decimals = as_u32 (case Option.bind (or_else (jget t ''decimals'') (jpath t ''rawTokenAmount'' (\<lambda>r. jget r ''decimals'')))
                                  (ce_as_u64 E) of Some n \<Rightarrow> n | None \<Rightarrow> 6)
         in if src = [] \<or> dst = [] \<or> mint = [] then Inr None
            else if \<not> (solana_ok E src \<and> solana_ok E dst \<and> solana_ok E mint) then Inr None
            else (case raw_amount of
                None \<Rightarrow> Inr None
              | Some v \<Rightarrow>
                  (let s = format_amount_string E v
                   in case raw_token_to_amount D s decimals of
                        Inl e \<Rightarrow> Inl e
                      | Inr amount \<Rightarrow>
                          Inr (Some (helius_transfer h (as_i32 (1000000 + as_i32 (int offset))) src dst SplToken mint s amount))))))"

fun collect_tokens :: "(nat \<times> json \<Rightarrow> chain_error + 'd NormalizedTransfer option) \<Rightarrow> (nat \<times> json) list \<Rightarrow>
    chain_error + 'd NormalizedTransfer list" where
  "collect_tokens f [] = Inr []"
| "collect_tokens f (x # xs) =
     (case f x of
        Inl e \<Rightarrow> Inl e
      | Inr r \<Rightarrow> (case collect_tokens f xs of
                   Inl e \<Rightarrow> Inl e
                 | Inr ts \<Rightarrow> Inr (case r of None \<Rightarrow> ts | Some t \<Rightarrow> t # ts)))"

definition build_trade :: "('d, 'x) decimal_num_scheme \<Rightarrow> ('d, 'e) chain_env_scheme \<Rightarrow> tx_head \<Rightarrow> string \<Rightarrow> TradeSide \<Rightarrow>
    string \<Rightarrow> json option \<Rightarrow> string option \<Rightarrow> 'd NormalizedTrade option" where
  "build_trade D E h wallet side native_raw token_leg dex =
     (if wallet = [] \<or> \<not> solana_ok E wallet then None
      else case token_leg of None \<Rightarrow> None
      | Some leg \<Rightarrow>
          (case (jpath leg ''mint'' as_str,
                 jpath leg ''rawTokenAmount'' (\<lambda>r. jpath r ''tokenAmount'' as_str)) of
             (Some mint, Some raw_token) \<Rightarrow>
               (let decimals = as_u32 (case jpath leg ''rawTokenAmount'' (\<lambda>r. jpath r ''decimals'' (ce_as_u64 E)) of
                                         Some n \<Rightarrow> n | None \<Rightarrow> 6)
                in case (raw_token_to_amount D raw_token decimals, raw_token_to_amount D native_raw 9) of
                     (Inr token_amount, Inr native_amount) \<Rightarrow>
                       Some \<lparr>tr_chain = KindSolana, tr_signature = th_signature h, tr_event_index = 0, tr_wallet = wallet,
                             tr_mint = mint, tr_side = side, tr_raw_native_amount = native_raw,
                             tr_raw_token_amount = raw_token, tr_native_amount = native_amount,
                             tr_token_amount = token_amount, tr_usd_value = None, tr_slot = th_slot h,
                             tr_block_time = th_block_time h, tr_observed_at = th_observed_at h, tr_dex_id = dex,
                             tr_source = ''helius''\<rparr>
                   | _ \<Rightarrow> None)
           | _ \<Rightarrow> None))"

definition first_leg :: "json list \<Rightarrow> json option" where
  "first_leg xs = (case xs of [] \<Rightarrow> None | x # _ \<Rightarrow> Some x)"

definition swap_trades :: "('d, 'x) decimal_num_scheme \<Rightarrow> ('d, 'e) chain_env_scheme \<Rightarrow> tx_head \<Rightarrow> json \<Rightarrow> 'd NormalizedTrade list" where
  "swap_trades D E h raw =
     (case Option.bind (jpath raw ''events'' (\<lambda>e. jget e ''swap'')) as_object of
        None \<Rightarrow> []
      | Some m \<Rightarrow>
          (let swap = JObject m; fee_payer = or_empty (jpath raw ''feePayer'' as_str); dex = jpath raw ''dexId'' as_str;
               native_in = jpath swap ''nativeInput'' (\<lambda>n. jpath n ''amount'' as_str);
               native_out = jpath swap ''nativeOutput'' (\<lambda>n. jpath n ''amount'' as_str);
               inputs = jpath swap ''tokenInputs'' as_array; outputs = jpath swap ''tokenOutputs'' as_array;
               buy = (case (native_in, outputs) of
                        (Some n, Some os) \<Rightarrow> build_trade D E h fee_payer SideBuy n (first_leg os) dex | _ \<Rightarrow> None);
               sell = (case (native_out, inputs) of
                        (Some n, Some is) \<Rightarrow> build_trade D E h fee_payer SideSell n (first_leg is) dex | _ \<Rightarrow> None)
           in (case buy of Some t \<Rightarrow> [t] | None \<Rightarrow> []) @ (case sell of Some t \<Rightarrow> [t] | None \<Rightarrow> [])))"

definition helius_head :: "('d, 'e) chain_env_scheme \<Rightarrow> json \<Rightarrow> string \<Rightarrow> int \<Rightarrow> tx_head" where
  "helius_head E raw signature observed_at =
     \<lparr>th_signature = signature, th_slot = jpath raw ''slot'' (ce_as_u64 E),
      th_block_time = Option.bind (jpath raw ''timestamp'' (ce_as_i64 E)) (ce_from_timestamp E),
      th_commitment = (case Option.bind (jpath raw ''commitment'' as_str) commitment_parse of
                         Some c \<Rightarrow> c | None \<Rightarrow> CommitConfirmed),
      th_observed_at = observed_at\<rparr>"

definition normalize_helius_transaction :: "('d, 'x) decimal_num_scheme \<Rightarrow> ('d, 'e) chain_env_scheme \<Rightarrow> json \<Rightarrow> int \<Rightarrow>
    chain_error + 'd NormalizedEvents" where
  "normalize_helius_transaction D E raw observed_at =
     (case or_else (jpath raw ''signature'' as_str) (jpath raw ''transactionHash'' as_str) of
        None \<Rightarrow> Inl MissingSignature
      | Some signature \<Rightarrow>
          (let h = helius_head E raw signature observed_at;
               natives = (case jpath raw ''nativeTransfers'' as_array of
                            Some xs \<Rightarrow> somes (map (native_transfer D E h) (enumerate 0 xs)) | None \<Rightarrow> [])
           in case (case jpath raw ''tokenTransfers'' as_array of
                      Some xs \<Rightarrow> collect_tokens (token_transfer D E h) (enumerate 0 xs) | None \<Rightarrow> Inr []) of
                Inl e \<Rightarrow> Inl e
              | Inr tokens \<Rightarrow>
                  Inr \<lparr>nv_transfers = natives @ tokens, nv_trades = swap_trades D E h raw,
                       nv_mints_created = [], nv_token_accounts_created = []\<rparr>))"

definition solana_ingest_transaction :: "('d, 'x) decimal_num_scheme \<Rightarrow> ('d, 'e) chain_env_scheme \<Rightarrow> json \<Rightarrow> int \<Rightarrow>
    chain_error + 'd NormalizedEvents" where
  "solana_ingest_transaction D E raw observed_at = normalize_helius_transaction D E raw observed_at"

definition solana_fetch_history :: "string \<Rightarrow> string option \<Rightarrow> chain_error + 'd HistoryPage" where
  "solana_fetch_history address cursor = Inl HistoryElsewhere"

definition solana_scan_funding :: "string \<Rightarrow> chain_error + 'd FundingPage" where
  "solana_scan_funding cursor = Inl FundingElsewhere"

section \<open>EVM nodes\<close>

definition ERC20_TRANSFER_TOPIC :: string where
  "ERC20_TRANSFER_TOPIC = ''0xddf252ad1be2c89b69c2b068fc378daa952ba7f163c4a11628f55a4df523b3ef''"

text \<open>A call returns the \<open>result\<close> member or an error; \<open>http_rpc_call\<close> is the production transport over a
  reply of the HTTP client.\<close>

type_synonym evm_rpc = "string \<Rightarrow> json \<Rightarrow> chain_error + json"

definition http_evm_new :: "string \<Rightarrow> nat \<Rightarrow> chain_error + string \<times> nat" where
  "http_evm_new url timeout_seconds = (if trim url = [] then Inl EmptyRpcUrl else Inr (url, max timeout_seconds 1))"

definition http_rpc_call :: "string + nat \<times> (string + json) \<Rightarrow> chain_error + json" where
  "http_rpc_call reply =
     (case reply of
        Inl e \<Rightarrow> Inl (RpcFailed e)
      | Inr (status, body) \<Rightarrow>
          if \<not> (200 \<le> status \<and> status < 300) then Inl (RpcFailed (show_nat status))
          else (case body of
              Inl e \<Rightarrow> Inl (RpcFailed e)
            | Inr v \<Rightarrow> (case jget v ''error'' of
                         Some _ \<Rightarrow> Inl (RpcFailed ''error'')
                       | None \<Rightarrow> Inr (case jget v ''result'' of Some x \<Rightarrow> x | None \<Rightarrow> JNull))))"

record RobinhoodAdapter =
  rb_chain_id :: string
  rb_native_decimals :: nat
  rb_start_block :: nat
  rb_validated :: bool

definition robinhood_new :: "string \<Rightarrow> nat \<Rightarrow> nat \<Rightarrow> RobinhoodAdapter" where
  "robinhood_new chain_id decimals start = \<lparr>rb_chain_id = chain_id, rb_native_decimals = decimals,
     rb_start_block = start, rb_validated = False\<rparr>"

definition validate_chain_id :: "evm_rpc \<Rightarrow> RobinhoodAdapter \<Rightarrow> (chain_error + unit) \<times> RobinhoodAdapter" where
  "validate_chain_id rpc a =
     (case rpc ''eth_chainId'' (JArray []) of
        Inl e \<Rightarrow> (Inl e, a)
      | Inr v \<Rightarrow>
          (case as_str v of
             None \<Rightarrow> (Inl (NonString ''eth_chainId''), a)
           | Some hex \<Rightarrow>
               (case parse_hex_quantity hex of
                  None \<Rightarrow> (Inl (MalformedValue hex), a)
                | Some returned \<Rightarrow>
                    (case parse_hex_quantity (''0x'' @ rb_chain_id a) of
                       None \<Rightarrow> (Inl ChainIdMalformed, a)
                     | Some expected \<Rightarrow>
                         if returned \<noteq> expected then (Inl (ChainIdMismatch returned expected), a)
                         else (Inr (), a\<lparr>rb_validated := True\<rparr>)))))"

definition is_validated :: "RobinhoodAdapter \<Rightarrow> bool" where
  "is_validated a = rb_validated a"

definition validate_evm_address :: "string \<Rightarrow> chain_error + unit" where
  "validate_evm_address address =
     (if take 2 address \<noteq> ''0x'' \<or> length address \<noteq> 42 then Inl BadEvmAddress
      else if \<not> list_all is_ascii_hexdigit (drop 2 address) then Inl NonHexAddress else Inr ())"

abbreviation evm_ok :: "string \<Rightarrow> bool" where
  "evm_ok a \<equiv> validate_evm_address a = Inr ()"

definition raw_to_decimal :: "('d, 'x) decimal_num_scheme \<Rightarrow> string \<Rightarrow> nat \<Rightarrow> chain_error + 'd" where
  "raw_to_decimal D raw decimals =
     (let trimmed = trim raw
      in case (case strip_prefix ''0x'' trimmed of
                 Some hex \<Rightarrow> (case from_str_radix16 (2 ^ 128) hex of Some n \<Rightarrow> Inr n | None \<Rightarrow> Inl BadHexAmount)
               | None \<Rightarrow> (case parse_u128 trimmed of Some n \<Rightarrow> Inr n | None \<Rightarrow> Inl BadDecimalAmount)) of
           Inl e \<Rightarrow> Inl e
         | Inr n \<Rightarrow> Inr (dec_div D (dec_of_int D (int n)) (ten_pow D decimals)))"

definition decode_topic_address :: "string \<Rightarrow> string option" where
  "decode_topic_address topic =
     (if length topic \<noteq> 66 then None
      else let address = drop 26 topic
           in if \<not> list_all is_ascii_hexdigit address then None else Some (''0x'' @ to_ascii_lowercase address))"

section \<open>Blocks\<close>

record block_head =
  bh_slot :: "nat option"
  bh_time :: "int option"
  bh_observed_at :: int

definition evm_transfer :: "block_head \<Rightarrow> string \<Rightarrow> int \<Rightarrow> string \<Rightarrow> string \<Rightarrow> AssetKind \<Rightarrow> string \<Rightarrow> nat \<Rightarrow> 'd \<Rightarrow>
    'd NormalizedTransfer" where
  "evm_transfer h hash index src dst kind mint v amount =
     \<lparr>nt_chain = KindRobinhood, nt_signature = hash, nt_event_index = index, nt_from_address = src,
      nt_to_address = dst, nt_asset_kind = kind, nt_mint = mint, nt_raw_amount = show_nat v, nt_amount = amount,
      nt_slot = bh_slot h, nt_block_time = bh_time h, nt_observed_at = bh_observed_at h,
      nt_source = ''robinhood_rpc'', nt_commitment = CommitConfirmed\<rparr>"

text \<open>A transfer that an entry of the block stands for, but for its amount: hash, index, sender, receiver,
  asset kind, mint and raw value.\<close>

type_synonym evm_candidate = "string \<times> int \<times> string \<times> string \<times> AssetKind \<times> string \<times> nat"

definition tx_candidate :: "json \<Rightarrow> evm_candidate option" where
  "tx_candidate tx =
     (let hash = or_empty (jpath tx ''hash'' as_str); src = or_empty (jpath tx ''from'' as_str);
          dst = or_empty (jpath tx ''to'' as_str);
          value_hex = (case jpath tx ''value'' as_str of Some v \<Rightarrow> v | None \<Rightarrow> ''0x0'');
          v = (case parse_hex_quantity value_hex of Some n \<Rightarrow> n | None \<Rightarrow> 0)
      in if hash = [] \<or> src = [] \<or> dst = [] \<or> v = 0 then None
         else if \<not> evm_ok src \<or> \<not> evm_ok dst then None
         else Some (hash, 0, to_ascii_lowercase src, to_ascii_lowercase dst, NativeAsset, [], v))"

definition log_candidate :: "string \<Rightarrow> nat \<times> json \<Rightarrow> evm_candidate option" where
  "log_candidate hash x =
     (case x of (log_index, lg) \<Rightarrow>
        (case jpath lg ''topics'' as_array of
           Some (t0 # t1 # t2 # _) \<Rightarrow>
             if to_ascii_lowercase (or_empty (as_str t0)) \<noteq> ERC20_TRANSFER_TOPIC then None
             else (case (decode_topic_address (or_empty (as_str t1)), decode_topic_address (or_empty (as_str t2))) of
                 (Some src, Some dst) \<Rightarrow>
                   (let mint = to_ascii_lowercase (or_empty (jpath lg ''address'' as_str));
                        data = (case jpath lg ''data'' as_str of Some d \<Rightarrow> d | None \<Rightarrow> ''0x0'');
                        v = (case parse_hex_quantity data of Some n \<Rightarrow> n | None \<Rightarrow> 0)
                    in if v = 0 \<or> mint = [] then None
                       else Some (hash, as_i32 (1000000 + as_i32 (int log_index)), src, dst, Erc20, mint, v))
               | _ \<Rightarrow> None)
         | _ \<Rightarrow> None))"

definition receipt_candidates :: "json \<Rightarrow> evm_candidate option list" where
  "receipt_candidates receipt =
     (let hash = or_empty (jpath receipt ''transactionHash'' as_str)
      in if hash = [] then []
         else (case jpath receipt ''logs'' as_array of
             None \<Rightarrow> []
           | Some logs \<Rightarrow> map (log_candidate hash) (enumerate 0 logs)))"

text \<open>A candidate is pushed unless its transaction hash and event index were seen.\<close>

definition push_candidate :: "('d, 'x) decimal_num_scheme \<Rightarrow> block_head \<Rightarrow> evm_candidate option \<Rightarrow>
    (string \<times> int) list \<times> 'd NormalizedTransfer list \<Rightarrow>
    chain_error + (string \<times> int) list \<times> 'd NormalizedTransfer list" where
  "push_candidate D h c st =
     (case c of
        None \<Rightarrow> Inr st
      | Some (hash, index, src, dst, kind, mint, v) \<Rightarrow>
          (case st of (seen, out) \<Rightarrow>
             if (hash, index) \<in> set seen then Inr st
             else (case raw_to_decimal D (show_nat v) 18 of
                 Inl e \<Rightarrow> Inl e
               | Inr amount \<Rightarrow> Inr ((hash, index) # seen, out @ [evm_transfer h hash index src dst kind mint v amount]))))"

fun push_all :: "('d, 'x) decimal_num_scheme \<Rightarrow> block_head \<Rightarrow> evm_candidate option list \<Rightarrow>
    (string \<times> int) list \<times> 'd NormalizedTransfer list \<Rightarrow>
    chain_error + (string \<times> int) list \<times> 'd NormalizedTransfer list" where
  "push_all D h [] st = Inr st"
| "push_all D h (c # cs) st = (case push_candidate D h c st of Inl e \<Rightarrow> Inl e | Inr st' \<Rightarrow> push_all D h cs st')"

definition block_candidates :: "json \<Rightarrow> json list \<Rightarrow> evm_candidate option list" where
  "block_candidates block receipts =
     map tx_candidate (case jpath block ''transactions'' as_array of Some txs \<Rightarrow> txs | None \<Rightarrow> [])
     @ concat (map receipt_candidates receipts)"

definition normalize_block :: "('d, 'x) decimal_num_scheme \<Rightarrow> ('d, 'e) chain_env_scheme \<Rightarrow> json \<Rightarrow> json list \<Rightarrow> int \<Rightarrow>
    chain_error + 'd NormalizedEvents" where
  "normalize_block D E block receipts observed_at =
     (case Option.bind (jpath block ''number'' as_str) parse_hex_quantity of
        None \<Rightarrow> Inl BlockMissingNumber
      | Some block_number \<Rightarrow>
          (let time = Option.bind (Option.bind (jpath block ''timestamp'' as_str) parse_hex_quantity)
                        (\<lambda>ts. ce_from_timestamp E (wrap_i64 (int ts)));
               h = \<lparr>bh_slot = Some block_number, bh_time = time, bh_observed_at = observed_at\<rparr>
           in case push_all D h (block_candidates block receipts) ([], []) of
                Inl e \<Rightarrow> Inl e
              | Inr (_, transfers) \<Rightarrow>
                  Inr \<lparr>nv_transfers = transfers, nv_trades = [], nv_mints_created = [], nv_token_accounts_created = []\<rparr>))"

fun fetch_receipts :: "evm_rpc \<Rightarrow> json list \<Rightarrow> chain_error + json list" where
  "fetch_receipts rpc [] = Inr []"
| "fetch_receipts rpc (tx # txs) =
     (case jpath tx ''hash'' as_str of
        None \<Rightarrow> fetch_receipts rpc txs
      | Some hash \<Rightarrow>
          (case rpc ''eth_getTransactionReceipt'' (JArray [JString hash]) of
             Inl e \<Rightarrow> Inl e
           | Inr receipt \<Rightarrow> (case fetch_receipts rpc txs of Inl e \<Rightarrow> Inl e | Inr rs \<Rightarrow> Inr (receipt # rs))))"

definition fetch_block_events :: "('d, 'x) decimal_num_scheme \<Rightarrow> ('d, 'e) chain_env_scheme \<Rightarrow> evm_rpc \<Rightarrow> nat \<Rightarrow> int \<Rightarrow>
    chain_error + 'd NormalizedEvents" where
  "fetch_block_events D E rpc block_number observed_at =
     (case rpc ''eth_getBlockByNumber'' (JArray [JString (show_hex block_number), JBool True]) of
        Inl e \<Rightarrow> Inl e
      | Inr block \<Rightarrow>
          if as_object block = None then Inl NonObjectBlock
          else (case fetch_receipts rpc (case jpath block ''transactions'' as_array of Some txs \<Rightarrow> txs | None \<Rightarrow> []) of
              Inl e \<Rightarrow> Inl e
            | Inr receipts \<Rightarrow> normalize_block D E block receipts observed_at))"

definition current_block :: "evm_rpc \<Rightarrow> chain_error + nat" where
  "current_block rpc =
     (case rpc ''eth_blockNumber'' (JArray []) of
        Inl e \<Rightarrow> Inl e
      | Inr v \<Rightarrow>
          (case as_str v of
             None \<Rightarrow> Inl (NonString ''eth_blockNumber'')
           | Some hex \<Rightarrow> (case parse_hex_quantity hex of None \<Rightarrow> Inl (MalformedValue hex) | Some n \<Rightarrow> Inr n)))"

definition fetch_logs :: "evm_rpc \<Rightarrow> nat \<Rightarrow> nat \<Rightarrow> string option \<Rightarrow> chain_error + json list" where
  "fetch_logs rpc from_block to_block address =
     (let range = [(''fromBlock'', JString (show_hex from_block)), (''toBlock'', JString (show_hex to_block))];
          fields = range @ (case address of Some a \<Rightarrow> [(''address'', JString a)] | None \<Rightarrow> [])
      in case rpc ''eth_getLogs'' (JArray [JObject fields]) of
           Inl e \<Rightarrow> Inl e
         | Inr v \<Rightarrow> (case as_array v of Some xs \<Rightarrow> Inr xs | None \<Rightarrow> Inl NonArrayLogs))"

definition transfer_to_funding_event :: "('d, 'x) decimal_num_scheme \<Rightarrow> ('d, 'e) chain_env_scheme \<Rightarrow> 'd NormalizedTransfer \<Rightarrow>
    'd option \<Rightarrow> int option \<Rightarrow> WalletLabelKind option \<Rightarrow> 'd FundingEvent" where
  "transfer_to_funding_event D E t price age kind =
     \<lparr>fv_chain = nt_chain t, fv_signature = nt_signature t, fv_slot = nt_slot t, fv_observed_at = nt_observed_at t,
      fv_commitment = nt_commitment t, fv_from_address = nt_from_address t, fv_to_address = nt_to_address t,
      fv_asset_kind = nt_asset_kind t, fv_mint = nt_mint t, fv_raw_amount = nt_raw_amount t,
      fv_native_amount = (case nt_asset_kind t of NativeAsset \<Rightarrow> nt_amount t | _ \<Rightarrow> dec_zero D),
      fv_amount_usd = (case (nt_asset_kind t, price) of (NativeAsset, Some p) \<Rightarrow> Some (dec_mul D (nt_amount t) p) | _ \<Rightarrow> None),
      fv_native_usd_price = price, fv_recipient_age_seconds = age, fv_source_kind = kind, fv_raw = ce_to_value E t\<rparr>"

section \<open>Hexadecimal quantities read back\<close>

lemma hex_digit_show: "d < 16 \<Longrightarrow> hex_digit (show_hex_digit d) = Some d"
  by (simp add: hex_digit.simps show_hex_digit_def Let_def)

lemma show_hex_digits_ok: "list_all is_ascii_hexdigit (show_hex_digits n) \<and> show_hex_digits n \<noteq> []"
proof (induction n rule: show_hex_digits.induct)
  case (1 n)
  have "is_ascii_hexdigit (show_hex_digit d)" if "d < 16" for d
    using hex_digit_show [OF that] by (simp add: is_ascii_hexdigit_def)
  with 1 show ?case
    by (subst (1 2) show_hex_digits.simps) simp
qed

lemma show_hex_digits_value: "foldl (\<lambda>a c. 16 * a + the (hex_digit c)) 0 (show_hex_digits n) = n"
proof (induction n rule: show_hex_digits.induct)
  case (1 n)
  show ?case
  proof (cases "n < 16")
    case True
    then show ?thesis by (subst show_hex_digits.simps) (simp add: hex_digit_show)
  next
    case False
    then have "foldl (\<lambda>a c. 16 * a + the (hex_digit c)) 0 (show_hex_digits n) = 16 * (n div 16) + n mod 16"
      using "1.IH" by (subst show_hex_digits.simps) (simp add: hex_digit_show)
    then show ?thesis by simp
  qed
qed

lemma plus_no_hexdigit: "\<not> is_ascii_hexdigit CHR ''+''"
  by (simp add: is_ascii_hexdigit_def hex_digit.simps)

lemma read_hex_digits: "from_str_radix16 bound (show_hex_digits n) = (if n < bound then Some n else None)"
proof -
  have "hd (show_hex_digits n) \<noteq> CHR ''+''"
    using show_hex_digits_ok [of n] plus_no_hexdigit by (cases "show_hex_digits n") auto
  then show ?thesis
    using show_hex_digits_ok [of n] show_hex_digits_value [of n] by (simp add: from_str_radix16_def Let_def)
qed

lemma parse_show_hex: "parse_hex_quantity (show_hex n) = (if n < 2 ^ 64 then Some n else None)"
  using show_hex_digits_ok [of n]
  by (simp add: parse_hex_quantity_def show_hex_def strip_prefix_def read_hex_digits)

lemma parse_hex_bound: "parse_hex_quantity s = Some n \<Longrightarrow> n < 2 ^ 64"
  by (auto simp: parse_hex_quantity_def from_str_radix16_def Let_def split: option.splits if_splits)

section \<open>What a block becomes\<close>

lemma show_nat_digit: "list_all is_digit (show_nat n)"
  using show_nat_digits by (fastforce simp: list_all_iff is_digit_def of_char_digit_char)

lemma show_nat_nonempty: "show_nat n \<noteq> []"
  by (subst show_nat.simps) simp

lemma digit_no_whitespace: "is_digit c \<Longrightarrow> \<not> is_whitespace c"
  by (auto simp: is_digit_def is_whitespace_def Let_def)

lemma trim_show_nat: "trim (show_nat n) = show_nat n"
  using show_nat_digit [of n] show_nat_nonempty [of n]
  by (intro trim_id) (auto simp: list_all_iff intro!: digit_no_whitespace)

lemma digit_not_plus: "is_digit c \<Longrightarrow> c \<noteq> CHR ''+'' \<and> c \<noteq> CHR ''x''"
  by (auto simp: is_digit_def)

lemma show_nat_not_hex: "strip_prefix ''0x'' (show_nat n) = None"
proof -
  have "take 2 (show_nat n) \<noteq> ''0x''"
  proof
    assume "take 2 (show_nat n) = ''0x''"
    then have "CHR ''x'' \<in> set (show_nat n)"
      by (metis in_set_takeD list.set_intros)
    then show False
      using show_nat_digit [of n] digit_not_plus by (auto simp: list_all_iff)
  qed
  then show ?thesis by (simp add: strip_prefix_def numeral_2_eq_2)
qed

lemma raw_to_decimal_nat:
  assumes "v < 2 ^ 128"
  shows "raw_to_decimal D (show_nat v) decimals = Inr (dec_div D (dec_of_int D (int v)) (ten_pow D decimals))"
proof -
  have "hd (show_nat v) \<noteq> CHR ''+''"
    using show_nat_digit [of v] show_nat_nonempty [of v] digit_not_plus by (cases "show_nat v") auto
  then have "parse_u128 (show_nat v) = Some v"
    using assms show_nat_digit [of v] show_nat_nonempty [of v] by (simp add: parse_u128_def Let_def)
  then show ?thesis
    by (simp add: raw_to_decimal_def trim_show_nat show_nat_not_hex)
qed

lemma set_somes [simp]: "x \<in> set (somes xs) \<longleftrightarrow> Some x \<in> set xs"
  by (induction xs rule: somes.induct) auto

definition candidate_key :: "evm_candidate \<Rightarrow> string \<times> int" where
  "candidate_key c = (case c of (hash, index, _) \<Rightarrow> (hash, index))"

definition candidate_value :: "evm_candidate \<Rightarrow> nat" where
  "candidate_value c = (case c of (_, _, _, _, _, _, v) \<Rightarrow> v)"

definition transfer_of :: "('d, 'x) decimal_num_scheme \<Rightarrow> block_head \<Rightarrow> evm_candidate \<Rightarrow> 'd NormalizedTransfer" where
  "transfer_of D h c = (case c of (hash, index, src, dst, kind, mint, v) \<Rightarrow>
     evm_transfer h hash index src dst kind mint v (dec_div D (dec_of_int D (int v)) (ten_pow D 18)))"

text \<open>The first candidate of every key, in order.\<close>

fun first_of_key :: "evm_candidate list \<Rightarrow> evm_candidate list" where
  "first_of_key [] = []"
| "first_of_key (c # cs) = c # filter (\<lambda>d. candidate_key d \<noteq> candidate_key c) (first_of_key cs)"

lemma image_other_keys: "f ` {x \<in> S. f x \<noteq> k} = f ` S - {k}" for f :: "'a \<Rightarrow> 'b"
  by auto

lemma first_of_key_keys: "set (map candidate_key (first_of_key cs)) = set (map candidate_key cs)"
proof (induction cs)
  case (Cons c cs)
  with image_other_keys [of candidate_key] show ?case by simp
qed simp

lemma first_of_key_distinct: "distinct (map candidate_key (first_of_key cs))"
  by (induction cs) (auto simp: distinct_map_filter)

lemma first_of_key_subset: "set (first_of_key cs) \<subseteq> set cs"
  by (induction cs) auto

lemma first_of_key_unique:
  "c \<in> set cs \<Longrightarrow> \<forall>d \<in> set cs. candidate_key d = candidate_key c \<longrightarrow> d = c \<Longrightarrow> c \<in> set (first_of_key cs)"
  by (induction cs) auto

lemma push_all_first:
  assumes "\<forall>c \<in> set (somes cs). candidate_value c < 2 ^ 128"
  shows "\<exists>seen'. push_all D h cs (seen, out) =
     Inr (seen', out @ map (transfer_of D h) (filter (\<lambda>c. candidate_key c \<notin> set seen) (first_of_key (somes cs))))"
  using assms
proof (induction cs arbitrary: seen out)
  case (Cons c cs)
  show ?case
  proof (cases c)
    case None
    with Cons show ?thesis by (simp add: push_candidate_def)
  next
    case (Some x)
    obtain hash index src dst kind mint v where x: "x = (hash, index, src, dst, kind, mint, v)" by (cases x)
    let ?key = "(hash, index)"
    have key: "candidate_key x = ?key" by (simp add: candidate_key_def x)
    have rest: "\<forall>c \<in> set (somes cs). candidate_value c < 2 ^ 128"
      using Cons.prems Some by simp
    show ?thesis
    proof (cases "?key \<in> set seen")
      case True
      have "filter (\<lambda>c. candidate_key c \<notin> set seen) (filter (\<lambda>d. candidate_key d \<noteq> ?key) xs)
          = filter (\<lambda>c. candidate_key c \<notin> set seen) xs" for xs
        using True by (auto intro!: filter_cong)
      then show ?thesis
        using Cons.IH [OF rest] True Some x key by (simp add: push_candidate_def)
    next
      case False
      have "v < 2 ^ 128"
        using Cons.prems Some x by (simp add: candidate_value_def)
      then have step: "push_candidate D h c (seen, out) = Inr (?key # seen, out @ [transfer_of D h x])"
        using False Some x by (simp add: push_candidate_def raw_to_decimal_nat transfer_of_def)
      have "filter (\<lambda>c. candidate_key c \<notin> set seen) (filter (\<lambda>d. candidate_key d \<noteq> ?key) xs)
          = filter (\<lambda>c. candidate_key c \<notin> set (?key # seen)) xs" for xs
        by (auto intro!: filter_cong)
      then show ?thesis
        using Cons.IH [OF rest, of "?key # seen" "out @ [transfer_of D h x]"] step False Some key
        by simp
    qed
  qed
qed simp

definition lower_address :: "string \<Rightarrow> bool" where
  "lower_address a \<longleftrightarrow> take 2 a = ''0x'' \<and> length a = 42 \<and> list_all (\<lambda>c. is_ascii_hexdigit c \<and> ascii_lower c = c) (drop 2 a)"

lemma lower_hexdigit: "is_ascii_hexdigit c \<Longrightarrow> is_ascii_hexdigit (ascii_lower c) \<and> ascii_lower (ascii_lower c) = ascii_lower c"
  by (auto simp: is_ascii_hexdigit_def hex_digit.simps ascii_lower_def Let_def split: if_splits)

lemma lower_hex_digits:
  "list_all is_ascii_hexdigit s \<Longrightarrow> list_all (\<lambda>c. is_ascii_hexdigit c \<and> ascii_lower c = c) (to_ascii_lowercase s)"
  using lower_hexdigit by (simp add: list_all_iff to_ascii_lowercase_def)

lemma evm_ok_lower: "evm_ok a \<Longrightarrow> lower_address (to_ascii_lowercase a)"
proof -
  assume "evm_ok a"
  then have a: "take 2 a = ''0x''" "length a = 42" "list_all is_ascii_hexdigit (drop 2 a)"
    by (auto simp: validate_evm_address_def split: if_splits)
  have "take 2 (to_ascii_lowercase a) = to_ascii_lowercase (take 2 a)" "drop 2 (to_ascii_lowercase a) = to_ascii_lowercase (drop 2 a)"
    by (simp_all add: to_ascii_lowercase_def take_map drop_map)
  moreover have "to_ascii_lowercase ''0x'' = ''0x''"
    by (simp add: to_ascii_lowercase_def ascii_lower_def)
  ultimately show ?thesis
    using a lower_hex_digits [OF a(3)] by (simp add: lower_address_def to_ascii_lowercase_def)
qed

lemma topic_lower: "decode_topic_address t = Some a \<Longrightarrow> lower_address a"
  using lower_hex_digits [of "drop 26 t"]
  by (auto simp: decode_topic_address_def lower_address_def to_ascii_lowercase_def Let_def split: if_splits)

definition candidate_ok :: "evm_candidate \<Rightarrow> bool" where
  "candidate_ok c = (case c of (hash, index, src, dst, kind, mint, v) \<Rightarrow>
     hash \<noteq> [] \<and> lower_address src \<and> lower_address dst \<and> 0 < v \<and> v < 2 ^ 64
     \<and> (kind = NativeAsset \<and> index = 0 \<and> mint = [] \<or> kind = Erc20 \<and> mint \<noteq> []))"

lemma parsed_value_bound: "(case parse_hex_quantity s of Some n \<Rightarrow> n | None \<Rightarrow> 0) < 2 ^ 64"
  using parse_hex_bound by (auto split: option.splits)

lemma tx_candidate_ok: "tx_candidate tx = Some c \<Longrightarrow> candidate_ok c"
  using parsed_value_bound evm_ok_lower
  by (auto simp: tx_candidate_def candidate_ok_def Let_def split: if_splits)

lemma log_candidate_ok: "log_candidate hash x = Some c \<Longrightarrow> hash \<noteq> [] \<Longrightarrow> candidate_ok c"
proof -
  assume c: "log_candidate hash x = Some c" "hash \<noteq> []"
  obtain i lg where x: "x = (i, lg)" by (cases x)
  from c(1) obtain t0 t1 t2 ts where topics: "jpath lg ''topics'' as_array = Some (t0 # t1 # t2 # ts)"
    by (auto simp: log_candidate_def x split: option.splits list.splits)
  from c(1) obtain src dst where d: "decode_topic_address (or_empty (as_str t1)) = Some src"
      "decode_topic_address (or_empty (as_str t2)) = Some dst"
    by (auto simp: log_candidate_def x topics split: option.splits if_splits)
  show ?thesis
    using c topic_lower [OF d(1)] topic_lower [OF d(2)] parsed_value_bound
    by (auto simp: log_candidate_def x topics d candidate_ok_def Let_def split: if_splits)
qed

lemma block_candidates_ok: "Some c \<in> set (block_candidates block receipts) \<Longrightarrow> candidate_ok c"
  by (auto simp: block_candidates_def receipt_candidates_def Let_def image_iff eq_commute [of "Some c"]
      intro: tx_candidate_ok log_candidate_ok split: if_splits option.splits)


definition rat_env :: "rat chain_env" where
  "rat_env = \<lparr>ce_as_u64 = \<lambda>v. (case v of JNumber (Fin x) \<Rightarrow> Some (nat \<lfloor>x\<rfloor>) | _ \<Rightarrow> None),
     ce_as_i64 = \<lambda>v. (case v of JNumber (Fin x) \<Rightarrow> Some \<lfloor>x\<rfloor> | _ \<Rightarrow> None), ce_from_timestamp = Some,
     ce_b58 = \<lambda>_. Some 32, ce_show_f64 = \<lambda>_. [], ce_to_value = \<lambda>_. JNull\<rparr>"

definition sample_address :: "char \<Rightarrow> string" where
  "sample_address c = ''0x'' @ replicate 40 c"

definition sample_block :: json where
  "sample_block = JObject [(''number'', JString ''0x10''), (''transactions'', JArray
     [JObject [(''hash'', JString ''0xaa''), (''from'', JString (sample_address CHR ''a'')),
               (''to'', JString (sample_address CHR ''b'')), (''value'', JString ''0x2'')]])]"


section \<open>What a Helius transaction becomes\<close>

lemma as_i32_small: "- (2 ^ 31) \<le> x \<Longrightarrow> x < 2 ^ 31 \<Longrightarrow> as_i32 x = x"
  by (simp add: as_i32_def)

lemma native_transfer_fields:
  "native_transfer D E h (i, t) = Some x \<Longrightarrow>
     nt_event_index x = as_i32 (int i) \<and> nt_signature x = th_signature h \<and> nt_asset_kind x = NativeAsset
     \<and> solana_ok E (nt_from_address x) \<and> solana_ok E (nt_to_address x)
     \<and> (\<exists>a > 0. nt_raw_amount x = show_nat a \<and> nt_amount x = lamports_to_sol D a)"
  by (auto simp: native_transfer_def helius_transfer_def split: option.splits if_splits)

lemma token_transfer_fields:
  "token_transfer D E h (i, t) = Inr (Some x) \<Longrightarrow>
     nt_event_index x = as_i32 (1000000 + as_i32 (int i)) \<and> nt_signature x = th_signature h \<and> nt_asset_kind x = SplToken
     \<and> solana_ok E (nt_from_address x) \<and> solana_ok E (nt_to_address x) \<and> solana_ok E (nt_mint x)"
  by (auto simp: token_transfer_def helius_transfer_def Let_def split: option.splits if_splits sum.splits)

lemma collect_tokens_set:
  "collect_tokens f xs = Inr ts \<Longrightarrow> ts = somes (map (\<lambda>x. case f x of Inr r \<Rightarrow> r | Inl _ \<Rightarrow> None) xs)"
proof (induction xs arbitrary: ts)
  case (Cons x xs)
  then show ?case by (auto split: sum.splits option.splits)
qed simp

lemma somes_indexed:
  assumes "\<And>i t x. g (i, t) = Some x \<Longrightarrow> idx x = ix i" "inj_on ix {m..<m + length xs}"
  shows "distinct (map idx (somes (map g (enumerate m xs)))) \<and>
    set (map idx (somes (map g (enumerate m xs)))) \<subseteq> ix ` {m..<m + length xs}"
  using assms(2)
proof (induction xs arbitrary: m)
  case (Cons y ys)
  have inj: "inj_on ix {Suc m..<Suc m + length ys}"
    using Cons.prems by (auto intro: inj_on_subset)
  note IH = Cons.IH [OF inj]
  have sub: "ix ` {Suc m..<Suc m + length ys} \<subseteq> ix ` {m..<m + length (y # ys)}"
    by auto
  have "ix m \<notin> ix ` {Suc m..<Suc m + length ys}"
  proof
    assume "ix m \<in> ix ` {Suc m..<Suc m + length ys}"
    then obtain x where "ix m = ix x" "x \<in> {Suc m..<Suc m + length ys}" by blast
    with inj_onD [OF Cons.prems, of m x] show False by simp
  qed
  then show ?case
    using IH sub assms(1) by (cases "g (m, y)") auto
qed simp

lemma helius_parts:
  assumes "normalize_helius_transaction D E raw t = Inr ev"
    "or_else (jpath raw ''signature'' as_str) (jpath raw ''transactionHash'' as_str) = Some sig"
  obtains tokens where
    "collect_tokens (token_transfer D E (helius_head E raw sig t))
       (enumerate 0 (case jpath raw ''tokenTransfers'' as_array of Some xs \<Rightarrow> xs | None \<Rightarrow> [])) = Inr tokens"
    "nv_transfers ev = somes (map (native_transfer D E (helius_head E raw sig t))
       (enumerate 0 (case jpath raw ''nativeTransfers'' as_array of Some xs \<Rightarrow> xs | None \<Rightarrow> []))) @ tokens"
    "nv_trades ev = swap_trades D E (helius_head E raw sig t) raw"
  using assms(1) unfolding normalize_helius_transaction_def assms(2)
  by (cases "jpath raw ''nativeTransfers'' as_array"; cases "jpath raw ''tokenTransfers'' as_array")
     (auto simp: Let_def split: sum.splits)

lemma build_trade_fields:
  "build_trade D E h wallet side n leg dex = Some y \<Longrightarrow>
     tr_signature y = th_signature h \<and> tr_event_index y = 0 \<and> tr_wallet y = wallet \<and> tr_side y = side
     \<and> wallet \<noteq> [] \<and> solana_ok E wallet"
  by (auto simp: build_trade_def Let_def split: option.splits if_splits sum.splits)

lemma swap_trades_fields:
  "(\<forall>y \<in> set (swap_trades D E h raw). tr_signature y = th_signature h \<and> tr_event_index y = 0
      \<and> solana_ok E (tr_wallet y) \<and> jpath raw ''feePayer'' as_str = Some (tr_wallet y))
   \<and> map tr_side (swap_trades D E h raw) \<in> {[], [SideBuy], [SideSell], [SideBuy, SideSell]}"
proof (cases "Option.bind (jpath raw ''events'' (\<lambda>e. jget e ''swap'')) as_object")
  case None
  then show ?thesis unfolding swap_trades_def by simp
next
  case (Some m)
  have fee: "build_trade D E h [] side n leg dex = None" for side n leg dex
    by (simp add: build_trade_def)
  show ?thesis
    unfolding swap_trades_def Some
    by (auto simp: Let_def fee split: option.splits dest!: build_trade_fields)
qed


definition sample_helius :: json where
  "sample_helius = JObject [(''signature'', JString ''sig''), (''nativeTransfers'', JArray
     [JObject [(''fromUserAccount'', JString (replicate 32 CHR ''A'')), (''toUserAccount'', JString (replicate 32 CHR ''B'')),
               (''amount'', JNumber (Fin 5))]])]"


text \<open>A buy and a sell of one transaction have the same signature, event index and wallet, which is the
  primary key of the table of trades: only the first is kept.\<close>

lemma trades_share_their_key:
  assumes "normalize_helius_transaction D E raw t = Inr ev" "x \<in> set (nv_trades ev)" "y \<in> set (nv_trades ev)"
  shows "(tr_signature x, tr_event_index x, tr_wallet x) = (tr_signature y, tr_event_index y, tr_wallet y)"
proof -
  obtain sig where sig: "or_else (jpath raw ''signature'' as_str) (jpath raw ''transactionHash'' as_str) = Some sig"
    using assms(1) by (auto simp: normalize_helius_transaction_def split: option.splits)
  have "nv_trades ev = swap_trades D E (helius_head E raw sig t) raw"
    by (rule helius_parts [OF assms(1) sig])
  then show ?thesis
    using swap_trades_fields [of D E "helius_head E raw sig t" raw] assms(2,3) by fastforce
qed

text \<open>The adapter counts as validated only after the node has returned the configured chain id.\<close>

lemma chain_id_gate:
  assumes "\<not> is_validated a" "validate_chain_id rpc a = (r, b)"
  shows "is_validated b \<longleftrightarrow> r = Inr ()"
    and "r = Inr () \<longleftrightarrow> (\<exists>hex n. rpc ''eth_chainId'' (JArray []) = Inr (JString hex)
      \<and> parse_hex_quantity hex = Some n \<and> parse_hex_quantity (''0x'' @ rb_chain_id a) = Some n)"
proof -
  have str: "as_str v = Some s \<longleftrightarrow> v = JString s" for v s
    by (cases v) auto
  show "is_validated b \<longleftrightarrow> r = Inr ()"
    using assms by (auto simp: validate_chain_id_def is_validated_def split: sum.splits option.splits if_splits)
  show "r = Inr () \<longleftrightarrow> (\<exists>hex n. rpc ''eth_chainId'' (JArray []) = Inr (JString hex)
      \<and> parse_hex_quantity hex = Some n \<and> parse_hex_quantity (''0x'' @ rb_chain_id a) = Some n)"
    using assms by (auto simp: validate_chain_id_def str split: sum.splits option.splits if_splits)
qed

text \<open>A funding event carries a value in USD only for native assets with a known price.\<close>

lemma funding_usd_iff:
  "fv_amount_usd (transfer_to_funding_event D E t price age kind) = Some u \<longleftrightarrow>
     (\<exists>p. nt_asset_kind t = NativeAsset \<and> price = Some p \<and> u = dec_mul D (nt_amount t) p)"
  by (auto simp: transfer_to_funding_event_def split: AssetKind.splits option.splits)

end
