(* ===== verification/Wallet_Sync.thy ===== *)
theory Wallet_Sync
  imports Clusters Radar Chains Pool Queues
begin

text \<open>
  First-generation ingestion (\<open>ingest.rs\<close>): raw payloads stored before normalization, webhooks, the sync of a
  wallet's history under its policy, funding transfers, and the block poll of \<open>workers.rs\<close>, over the tables of
  \<open>db.rs\<close>. The statements commit one by one; a statement that the database refuses, for a fault or because a
  number does not fit its column, is one that the fault schedule lets fail. Counters are unbounded.
\<close>

section \<open>Tables\<close>

record raw_row =
  rw_chain :: string
  rw_source :: string
  rw_signature :: string
  rw_payload :: json
  rw_observed_at :: int

record 'd transfer_row =
  tf_chain :: string
  tf_signature :: string
  tf_event_index :: int
  tf_from :: string
  tf_to :: string
  tf_asset_kind :: string
  tf_mint :: string
  tf_raw_amount :: string
  tf_amount :: 'd
  tf_slot :: "int option"
  tf_block_time :: "int option"
  tf_observed_at :: int
  tf_source :: string

record 'd trade_row =
  td_chain :: string
  td_signature :: string
  td_event_index :: int
  td_wallet :: string
  td_mint :: string
  td_side :: string
  td_raw_native_amount :: string
  td_raw_token_amount :: string
  td_native_amount :: 'd
  td_token_amount :: 'd
  td_usd_value :: "'d option"
  td_slot :: "int option"
  td_block_time :: "int option"
  td_observed_at :: int
  td_dex_id :: "string option"
  td_source :: string

record cursor_row =
  cr_cursor :: "string option"
  cr_updated_at :: int
  cr_last_error :: "string option"

record token_observation =
  ob_chain :: string
  ob_mint :: string
  ob_observed_at :: int
  ob_endpoint :: string
  ob_payload :: json

record wallet_observation =
  ow_chain :: string
  ow_address :: string
  ow_observed_at :: int
  ow_endpoint :: string
  ow_period :: string
  ow_payload :: json

text \<open>The tables, with the table of wallets inside \<open>sy_radar\<close>, and beside them the provider pool and the requests
  it has sent.\<close>

record 'd sync_db =
  sy_raw :: "raw_row list"
  sy_transfers :: "'d transfer_row list"
  sy_trades :: "'d trade_row list"
  sy_edges :: "edge_row list"
  sy_radar :: "'d radar_db"
  sy_workspaces :: "int list"
  sy_labels :: "label_row list"
  sy_cursors :: "string \<times> string \<Rightarrow> cursor_row option"
  sy_queue_state :: "string \<Rightarrow> bool option"
  sy_token_obs :: "token_observation list"
  sy_wallet_obs :: "wallet_observation list"
  sy_pool :: HeliusPool
  sy_sent :: "sent list"

datatype sync_error = SyncRadar radar_error | SyncPolicy policy_error | SyncHelius helius_error
  | SyncPanic | SyncStalled

type_synonym ('d, 'a) sync = "('d sync_db, sync_error, 'a) db"

definition raw_key :: "raw_row \<Rightarrow> string \<times> string \<times> string" where
  "raw_key r = (rw_chain r, rw_source r, rw_signature r)"

definition transfer_key :: "'d transfer_row \<Rightarrow> string \<times> string \<times> int \<times> string \<times> string" where
  "transfer_key t = (tf_chain t, tf_signature t, tf_event_index t, tf_from t, tf_to t)"

definition trade_key :: "'d trade_row \<Rightarrow> string \<times> string \<times> int \<times> string" where
  "trade_key t = (td_chain t, td_signature t, td_event_index t, td_wallet t)"

section \<open>Statements of the database layer\<close>

definition on_radar :: "('d, 'a) radar \<Rightarrow> ('d, 'a) sync" where
  "on_radar = db_zoom sy_radar (\<lambda>t db. db\<lparr>sy_radar := t\<rparr>) SyncRadar"

definition store_raw_event :: "string \<Rightarrow> string \<Rightarrow> string \<Rightarrow> json \<Rightarrow> int \<Rightarrow> ('d, bool) sync" where
  "store_raw_event chain source signature payload observed_at = db_stmt (\<lambda>db.
     case insert_new raw_key \<lparr>rw_chain = chain, rw_source = source, rw_signature = signature, rw_payload = payload,
            rw_observed_at = observed_at\<rparr> (sy_raw db) of
       (new, rows) \<Rightarrow> (new, db\<lparr>sy_raw := rows\<rparr>))"

definition wallet_age_seconds :: "string \<Rightarrow> string \<Rightarrow> int \<Rightarrow> ('d, int option) sync" where
  "wallet_age_seconds chain address now = db_stmt (\<lambda>db.
     (map_option (\<lambda>w. max (now - wr_first_seen w) 0) (rb_wallets (sy_radar db) (chain, address)), db))"

definition slot_as_i64 :: "nat option \<Rightarrow> int option" where
  "slot_as_i64 = map_option (\<lambda>v. wrap_i64 (int v))"

definition transfer_columns :: "'d NormalizedTransfer \<Rightarrow> 'd transfer_row" where
  "transfer_columns t =
     \<lparr>tf_chain = chain_kind_as_str (nt_chain t), tf_signature = nt_signature t, tf_event_index = nt_event_index t,
      tf_from = nt_from_address t, tf_to = nt_to_address t, tf_asset_kind = asset_kind_as_str (nt_asset_kind t),
      tf_mint = nt_mint t, tf_raw_amount = nt_raw_amount t, tf_amount = nt_amount t, tf_slot = slot_as_i64 (nt_slot t),
      tf_block_time = nt_block_time t, tf_observed_at = nt_observed_at t, tf_source = nt_source t\<rparr>"

definition store_transfer :: "'d NormalizedTransfer \<Rightarrow> ('d, unit) sync" where
  "store_transfer t = db_stmt (\<lambda>db.
     ((), db\<lparr>sy_transfers := snd (insert_new transfer_key (transfer_columns t) (sy_transfers db))\<rparr>))"

definition trade_columns :: "'d NormalizedTrade \<Rightarrow> 'd trade_row" where
  "trade_columns t =
     \<lparr>td_chain = chain_kind_as_str (tr_chain t), td_signature = tr_signature t, td_event_index = tr_event_index t,
      td_wallet = tr_wallet t, td_mint = tr_mint t, td_side = trade_side_as_str (tr_side t),
      td_raw_native_amount = tr_raw_native_amount t, td_raw_token_amount = tr_raw_token_amount t,
      td_native_amount = tr_native_amount t, td_token_amount = tr_token_amount t, td_usd_value = tr_usd_value t,
      td_slot = slot_as_i64 (tr_slot t), td_block_time = tr_block_time t, td_observed_at = tr_observed_at t,
      td_dex_id = tr_dex_id t, td_source = tr_source t\<rparr>"

definition store_trade :: "'d NormalizedTrade \<Rightarrow> ('d, unit) sync" where
  "store_trade t = db_stmt (\<lambda>db.
     ((), db\<lparr>sy_trades := snd (insert_new trade_key (trade_columns t) (sy_trades db))\<rparr>))"

definition get_sync_cursor :: "string \<Rightarrow> string \<Rightarrow> ('d, string option) sync" where
  "get_sync_cursor chain stream_kind = db_stmt (\<lambda>db. (Option.bind (sy_cursors db (chain, stream_kind)) cr_cursor, db))"

definition set_sync_cursor :: "int \<Rightarrow> string \<Rightarrow> string \<Rightarrow> string \<Rightarrow> string option \<Rightarrow> ('d, unit) sync" where
  "set_sync_cursor clock chain stream_kind cursor last_error = db_stmt (\<lambda>db.
     ((), db\<lparr>sy_cursors := (sy_cursors db)((chain, stream_kind) \<mapsto>
        \<lparr>cr_cursor = Some cursor, cr_updated_at = clock, cr_last_error = last_error\<rparr>)\<rparr>))"

section \<open>One transaction, one webhook\<close>

record IngestCounts =
  raw_new :: nat
  transfers_new :: nat
  trades_new :: nat
  malformed :: nat

definition no_counts :: IngestCounts where
  "no_counts = \<lparr>raw_new = 0, transfers_new = 0, trades_new = 0, malformed = 0\<rparr>"

definition add_counts :: "IngestCounts \<Rightarrow> IngestCounts \<Rightarrow> IngestCounts" where
  "add_counts a b = \<lparr>raw_new = raw_new a + raw_new b, transfers_new = transfers_new a + transfers_new b,
     trades_new = trades_new a + trades_new b, malformed = malformed a + malformed b\<rparr>"

definition upsert_wallets_for_transfer :: "'d NormalizedTransfer \<Rightarrow> string \<Rightarrow> ('d, unit) sync" where
  "upsert_wallets_for_transfer transfer source =
     (let seen = (case nt_block_time transfer of Some t \<Rightarrow> t | None \<Rightarrow> nt_observed_at transfer);
          chain = chain_kind_as_str (nt_chain transfer)
      in db_bind (on_radar (upsert_wallet chain (nt_from_address transfer) seen source)) (\<lambda>_.
         on_radar (upsert_wallet chain (nt_to_address transfer) seen source)))"

fun sync_transfers :: "(f64 \<Rightarrow> rat) \<Rightarrow> string \<Rightarrow> 'd NormalizedTransfer list \<Rightarrow> nat \<Rightarrow> ('d, nat) sync" where
  "sync_transfers stored source [] n = db_return n"
| "sync_transfers stored source (t # ts) n =
     db_bind (upsert_wallets_for_transfer t source) (\<lambda>_.
     db_bind (db_is_ok (store_transfer t)) (\<lambda>ok.
     db_bind (db_stmt (\<lambda>db. ((), db\<lparr>sy_edges := update_funding_edges stored t (sy_edges db)\<rparr>))) (\<lambda>_.
     sync_transfers stored source ts (if ok then n + 1 else n))))"

fun sync_trades :: "string \<Rightarrow> int \<Rightarrow> string \<Rightarrow> 'd NormalizedTrade list \<Rightarrow> nat \<Rightarrow> ('d, nat) sync" where
  "sync_trades chain observed_at source [] n = db_return n"
| "sync_trades chain observed_at source (t # ts) n =
     db_bind (on_radar (upsert_wallet chain (tr_wallet t) observed_at source)) (\<lambda>_.
     db_bind (db_is_ok (store_trade t)) (\<lambda>ok.
     sync_trades chain observed_at source ts (if ok then n + 1 else n)))"

definition raw_signature :: "json \<Rightarrow> string option" where
  "raw_signature raw =
     or_else (or_else (jpath raw ''signature'' as_str) (jpath raw ''transactionHash'' as_str)) (jpath raw ''hash'' as_str)"

definition ingest_transaction :: "(f64 \<Rightarrow> rat) \<Rightarrow> ChainKind \<Rightarrow> string \<Rightarrow> json \<Rightarrow> int \<Rightarrow>
    (json \<Rightarrow> int \<Rightarrow> chain_error + 'd NormalizedEvents) \<Rightarrow> ('d, IngestCounts) sync" where
  "ingest_transaction stored chain source raw observed_at adapter =
     db_bind (case raw_signature raw of
                None \<Rightarrow> db_return False
              | Some signature \<Rightarrow> store_raw_event (chain_kind_as_str chain) source signature raw observed_at) (\<lambda>inserted.
     let counts = no_counts\<lparr>raw_new := (if inserted then 1 else 0)\<rparr>
     in case adapter raw observed_at of
          Inl e \<Rightarrow> db_return (counts\<lparr>malformed := 1\<rparr>)
        | Inr events \<Rightarrow>
            db_bind (sync_transfers stored source (nv_transfers events) 0) (\<lambda>tn.
            db_bind (sync_trades (chain_kind_as_str chain) observed_at source (nv_trades events) 0) (\<lambda>dn.
            db_return (counts\<lparr>transfers_new := tn, trades_new := dn\<rparr>))))"

fun webhook_loop :: "(f64 \<Rightarrow> rat) \<Rightarrow> json list \<Rightarrow> string \<Rightarrow> int \<Rightarrow>
    (json \<Rightarrow> int \<Rightarrow> chain_error + 'd NormalizedEvents) \<Rightarrow> IngestCounts \<Rightarrow> ('d, IngestCounts) sync" where
  "webhook_loop stored [] source observed_at adapter counts = db_return counts"
| "webhook_loop stored (transaction # rest) source observed_at adapter counts =
     db_bind (ingest_transaction stored KindSolana source transaction observed_at adapter) (\<lambda>single.
     webhook_loop stored rest source observed_at adapter (add_counts counts single))"

definition ingest_webhook :: "(f64 \<Rightarrow> rat) \<Rightarrow> json list \<Rightarrow> string \<Rightarrow> int \<Rightarrow>
    (json \<Rightarrow> int \<Rightarrow> chain_error + 'd NormalizedEvents) \<Rightarrow> ('d, IngestCounts) sync" where
  "ingest_webhook stored payload source observed_at adapter =
     webhook_loop stored payload source observed_at adapter no_counts"

section \<open>The history of a wallet\<close>

record WalletSyncOutcome =
  pages_fetched :: nat
  sync_transfers_new :: nat
  sync_trades_new :: nat
  completed :: bool
  skipped_by_policy :: bool

definition label_view :: "'d sync_db \<Rightarrow> label_db" where
  "label_view db = \<lparr>ld_workspaces = sy_workspaces db, ld_wallets = rb_wallets (sy_radar db), ld_labels = sy_labels db\<rparr>"

definition check_policy :: "int \<Rightarrow> int \<Rightarrow> ChainKind \<Rightarrow> string \<Rightarrow> ('d, WalletDisposition) sync" where
  "check_policy now workspace chain address = db_try (\<lambda>db.
     case effective_disposition now workspace chain address (label_view db) of
       Inl e \<Rightarrow> Inl (SyncPolicy e)
     | Inr d \<Rightarrow> Inr (d, db))"

text \<open>A page of the history: not a statement of the database, so it takes no number of the schedule.\<close>

definition fetch_page :: "helius_world \<Rightarrow> string \<Rightarrow> string option \<Rightarrow> ('d, json) sync" where
  "fetch_page W address before = (\<lambda>fault (i, db).
     case get_transactions_for_address W address before (sy_pool db) of
       None \<Rightarrow> (Inl (TxAbort SyncPanic), i, db)
     | Some None \<Rightarrow> (Inl (TxAbort SyncStalled), i, db)
     | Some (Some (r, p, sends)) \<Rightarrow>
         (case r of Inl e \<Rightarrow> Inl (TxAbort (SyncHelius e)) | Inr v \<Rightarrow> Inr v,
          i, db\<lparr>sy_pool := p, sy_sent := sy_sent db @ sends\<rparr>))"

definition page_cursor :: "json list \<Rightarrow> string option" where
  "page_cursor transactions =
     (case somes (map (\<lambda>t. jpath t ''signature'' as_str) transactions) of [] \<Rightarrow> None | s # _ \<Rightarrow> Some s)"

text \<open>The pages still allowed and the number of the page; \<open>W\<close> and \<open>clock\<close> are the provider and the time at each page.\<close>

fun page_loop :: "(nat \<Rightarrow> helius_world) \<Rightarrow> (nat \<Rightarrow> int) \<Rightarrow> (f64 \<Rightarrow> rat) \<Rightarrow>
    (json \<Rightarrow> int \<Rightarrow> chain_error + 'd NormalizedEvents) \<Rightarrow> string \<Rightarrow> nat \<Rightarrow> nat \<Rightarrow> string option \<Rightarrow> WalletSyncOutcome \<Rightarrow>
    ('d, WalletSyncOutcome) sync" where
  "page_loop W clock stored adapter address 0 k before outcome = db_return outcome"
| "page_loop W clock stored adapter address (Suc n) k before outcome =
     db_bind (fetch_page (W k) address before) (\<lambda>page.
     let transactions = (case as_array page of Some xs \<Rightarrow> xs | None \<Rightarrow> [])
     in if transactions = [] then db_return (outcome\<lparr>completed := True\<rparr>)
        else db_bind (ingest_webhook stored transactions ''helius_history'' (clock k) adapter) (\<lambda>counts.
          let outcome' = outcome\<lparr>pages_fetched := pages_fetched outcome + 1,
                sync_transfers_new := sync_transfers_new outcome + transfers_new counts,
                sync_trades_new := sync_trades_new outcome + trades_new counts\<rparr>;
              before' = page_cursor transactions
          in if before' = None then db_return (outcome'\<lparr>completed := True\<rparr>)
             else if raw_new counts = 0 \<and> transfers_new counts = 0 \<and> trades_new counts = 0
               then db_return (outcome'\<lparr>completed := True\<rparr>)
             else page_loop W clock stored adapter address n (k + 1) before' outcome'))"

definition no_outcome :: WalletSyncOutcome where
  "no_outcome = \<lparr>pages_fetched = 0, sync_transfers_new = 0, sync_trades_new = 0, completed = False,
     skipped_by_policy = False\<rparr>"

definition sync_wallet :: "(nat \<Rightarrow> helius_world) \<Rightarrow> (nat \<Rightarrow> int) \<Rightarrow> (f64 \<Rightarrow> rat) \<Rightarrow> int \<Rightarrow> int \<Rightarrow> ChainKind \<Rightarrow> string \<Rightarrow>
    (json \<Rightarrow> int \<Rightarrow> chain_error + 'd NormalizedEvents) \<Rightarrow> nat \<Rightarrow> ('d, WalletSyncOutcome) sync" where
  "sync_wallet W clock stored now workspace chain address adapter max_pages =
     db_bind (check_policy now workspace chain address) (\<lambda>d.
     if \<not> allows_deep_sync d then db_return (no_outcome\<lparr>skipped_by_policy := True, completed := True\<rparr>)
     else page_loop W clock stored adapter address max_pages 0 None no_outcome)"

section \<open>Observations and funding transfers\<close>

definition store_gmgn_token_observation :: "ChainKind \<Rightarrow> string \<Rightarrow> string \<Rightarrow> json \<Rightarrow> int \<Rightarrow> ('d, unit) sync" where
  "store_gmgn_token_observation chain mint endpoint payload observed_at = db_stmt (\<lambda>db.
     ((), db\<lparr>sy_token_obs := snd (insert_new (\<lambda>r. (ob_chain r, ob_mint r, ob_observed_at r, ob_endpoint r))
        \<lparr>ob_chain = chain_kind_as_str chain, ob_mint = mint, ob_observed_at = observed_at, ob_endpoint = endpoint,
         ob_payload = payload\<rparr> (sy_token_obs db))\<rparr>))"

definition store_gmgn_wallet_observation ::
  "ChainKind \<Rightarrow> string \<Rightarrow> string \<Rightarrow> string \<Rightarrow> json \<Rightarrow> int \<Rightarrow> ('d, unit) sync" where
  "store_gmgn_wallet_observation chain address endpoint period payload observed_at = db_stmt (\<lambda>db.
     ((), db\<lparr>sy_wallet_obs := snd (insert_new (\<lambda>r. (ow_chain r, ow_address r, ow_observed_at r, ow_endpoint r, ow_period r))
        \<lparr>ow_chain = chain_kind_as_str chain, ow_address = address, ow_observed_at = observed_at, ow_endpoint = endpoint,
         ow_period = period, ow_payload = payload\<rparr> (sy_wallet_obs db))\<rparr>))"

definition ingest_funding_transfer :: "('d, 'x) decimal_num_scheme \<Rightarrow> ('d, 'e) chain_env_scheme \<Rightarrow> ('d \<Rightarrow> json) \<Rightarrow> int \<Rightarrow> int \<Rightarrow>
    int \<Rightarrow> 'd NormalizedTransfer \<Rightarrow> 'd option \<Rightarrow> FundingRadarConfig \<Rightarrow> 'd option \<Rightarrow> ('d, 'd FundingRadarCase option) sync" where
  "ingest_funding_transfer D E dec_json clock fresh workspace transfer native_usd_price config percentile_threshold =
     db_bind (wallet_age_seconds (chain_kind_as_str (nt_chain transfer)) (nt_to_address transfer) (nt_observed_at transfer))
       (\<lambda>recipient_age.
     let event = transfer_to_funding_event D E transfer native_usd_price recipient_age None;
         event' = event\<lparr>fv_commitment := max (nt_commitment transfer) Processed\<rparr>
     in on_radar (ingest_funding_event D dec_json clock fresh workspace event' config percentile_threshold))"

section \<open>The block poll\<close>

definition queue_allowed_checked :: "QueueState \<Rightarrow> string \<Rightarrow> ('d, bool) sync" where
  "queue_allowed_checked st queue =
     (if is_paused st queue then db_return False
      else db_stmt (\<lambda>db. (\<not> (case sy_queue_state db queue of Some p \<Rightarrow> p | None \<Rightarrow> False), db)))"

definition queue_allowed :: "QueueState \<Rightarrow> string \<Rightarrow> ('d, bool) sync" where
  "queue_allowed st queue = db_unwrap_or False (queue_allowed_checked st queue)"

text \<open>What a round of the poll takes from outside: the node, the clocks, the ids handed out and the text of an error.\<close>

record poll_world =
  pw_rpc :: evm_rpc
  pw_observed_at :: "nat \<Rightarrow> int"
  pw_clock :: "nat \<Rightarrow> int"
  pw_ids :: "nat \<Rightarrow> nat \<Rightarrow> int"
  pw_error :: "chain_error \<Rightarrow> string"

fun poll_transfers where
  "poll_transfers D E dec_json W workspace config block k [] = db_return ()"
| "poll_transfers D E dec_json W workspace config block k (t # ts) =
     db_bind (db_is_ok (ingest_funding_transfer D E dec_json (pw_clock W block) (pw_ids W block k) workspace t None config None)) (\<lambda>_.
     poll_transfers D E dec_json W workspace config block (k + 1) ts)"

text \<open>The blocks asked for are returned, with whether the node answered; the code keeps no such list.\<close>

fun poll_blocks where
  "poll_blocks D E dec_json W workspace config [] = db_return []"
| "poll_blocks D E dec_json W workspace config (block # blocks) =
     (case fetch_block_events D E (pw_rpc W) block (pw_observed_at W block) of
        Inr events \<Rightarrow>
          db_bind (poll_transfers D E dec_json W workspace config block 0 (nv_transfers events)) (\<lambda>_.
          db_bind (db_is_ok (set_sync_cursor (pw_clock W block) ''robinhood'' ''funding'' (show_nat block) None)) (\<lambda>_.
          db_bind (poll_blocks D E dec_json W workspace config blocks) (\<lambda>more.
          db_return ((block, True) # more))))
      | Inl err \<Rightarrow>
          db_bind (db_is_ok (set_sync_cursor (pw_clock W block) ''robinhood'' ''funding'' (show_nat block)
            (Some (pw_error W err)))) (\<lambda>_.
          db_return [(block, False)]))"

text \<open>Sums of \<open>u64\<close> wrap in a release build.\<close>

definition u64_add :: "nat \<Rightarrow> nat \<Rightarrow> nat" where
  "u64_add a b = (a + b) mod 2 ^ 64"

definition block_range :: "nat \<Rightarrow> nat \<Rightarrow> nat list" where
  "block_range cursor current = [u64_add cursor 1 ..< Suc (min current (u64_add cursor 100))]"

definition read_cursor :: "string option \<Rightarrow> nat" where
  "read_cursor c = (case Option.bind c parse_u64 of Some n \<Rightarrow> n | None \<Rightarrow> 0)"

definition robinhood_round where
  "robinhood_round D E dec_json W st workspace config =
     db_bind (queue_allowed st QUEUE_FUNDING_RADAR) (\<lambda>allowed.
     if \<not> allowed then db_return []
     else case current_block (pw_rpc W) of
            Inl e \<Rightarrow> db_return []
          | Inr current \<Rightarrow>
              db_bind (db_unwrap_or None (get_sync_cursor ''robinhood'' ''funding'')) (\<lambda>c.
              poll_blocks D E dec_json W workspace config (block_range (read_cursor c) current)))"

section \<open>Rows are only added\<close>

definition known_wallet :: "string \<Rightarrow> string \<Rightarrow> 'd sync_db \<Rightarrow> bool" where
  "known_wallet chain address db \<longleftrightarrow> rb_wallets (sy_radar db) (chain, address) \<noteq> None"

definition extends :: "'a list \<Rightarrow> 'a list \<Rightarrow> bool" where
  "extends xs ys \<longleftrightarrow> (\<exists>new. ys = xs @ new)"

definition wallets_kept :: "(string \<times> string \<Rightarrow> wallet_row option) \<Rightarrow> (string \<times> string \<Rightarrow> wallet_row option) \<Rightarrow> bool" where
  "wallets_kept w w' \<longleftrightarrow>
     (\<forall>k r. w k = Some r \<longrightarrow> (\<exists>r'. w' k = Some r' \<and> wr_first_seen r' = wr_first_seen r \<and> wr_last_seen r \<le> wr_last_seen r'))"

definition sync_grows :: "'d sync_db \<Rightarrow> 'd sync_db \<Rightarrow> bool" where
  "sync_grows a b \<longleftrightarrow>
     extends (sy_raw a) (sy_raw b) \<and> extends (sy_transfers a) (sy_transfers b) \<and> extends (sy_trades a) (sy_trades b) \<and>
     extends (sy_edges a) (sy_edges b) \<and> wallets_kept (rb_wallets (sy_radar a)) (rb_wallets (sy_radar b)) \<and>
     sy_labels b = sy_labels a \<and> sy_cursors b = sy_cursors a"

lemma extends_refl [simp]: "extends xs xs"
  by (simp add: extends_def)

lemma extends_trans: "extends xs ys \<Longrightarrow> extends ys zs \<Longrightarrow> extends xs zs"
  by (auto simp: extends_def)

lemma extends_keys: "extends xs ys \<Longrightarrow> k \<in> key ` set xs \<Longrightarrow> k \<in> key ` set ys"
  by (auto simp: extends_def)

lemma extends_insert_new [simp]: "extends xs (snd (insert_new key row xs))"
  by (simp add: extends_def insert_new_prefix)

lemma wallets_kept_refl [simp]: "wallets_kept w w"
  by (simp add: wallets_kept_def)

lemma wallets_kept_trans:
  assumes "wallets_kept u v" "wallets_kept v w"
  shows "wallets_kept u w"
  unfolding wallets_kept_def
proof (intro allI impI)
  fix k r
  assume "u k = Some r"
  then obtain s where s: "v k = Some s" "wr_first_seen s = wr_first_seen r" "wr_last_seen r \<le> wr_last_seen s"
    using assms(1) unfolding wallets_kept_def by blast
  then obtain t where "w k = Some t" "wr_first_seen t = wr_first_seen s" "wr_last_seen s \<le> wr_last_seen t"
    using assms(2) unfolding wallets_kept_def by blast
  then show "\<exists>r'. w k = Some r' \<and> wr_first_seen r' = wr_first_seen r \<and> wr_last_seen r \<le> wr_last_seen r'"
    using s by auto
qed

interpretation grow: state_order sync_grows
proof unfold_locales
  fix a b c :: "'d sync_db"
  show "sync_grows a a"
    by (simp add: sync_grows_def)
  show "sync_grows a c" if "sync_grows a b" "sync_grows b c"
    using that by (auto simp: sync_grows_def intro: extends_trans wallets_kept_trans)
qed

lemma insert_edge_new: "insert_edge row edges = snd (insert_new edge_key row edges)"
  by (simp add: insert_edge_def insert_new_def)

lemma update_funding_edges_insert:
  "\<exists>row. update_funding_edges stored t edges = snd (insert_new edge_key row edges) \<and>
     edge_key row = (chain_kind_as_str (nt_chain t), nt_from_address t, nt_to_address t, nt_signature t,
       if asset_kind_as_str (nt_asset_kind t) = ''native'' then ''funding'' else ''token_funding'')"
  unfolding update_funding_edges_def Let_def insert_edge_new
  by (rule exI, rule conjI, rule refl) (simp add: edge_key_def)

lemma extends_edges [simp]: "extends edges (update_funding_edges stored t edges)"
  using update_funding_edges_insert [of stored t edges] by auto

text \<open>The upsert of a wallet is one statement.\<close>

lemma on_radar_upsert:
  "on_radar (upsert_wallet chain address seen source) = db_stmt (\<lambda>db. ((), db\<lparr>sy_radar := (sy_radar db)\<lparr>rb_wallets :=
     (rb_wallets (sy_radar db))((chain, address) \<mapsto>
        (case rb_wallets (sy_radar db) (chain, address) of
           None \<Rightarrow> \<lparr>wr_first_seen = seen, wr_last_seen = seen, wr_source = source\<rparr>
         | Some w \<Rightarrow> w\<lparr>wr_last_seen := max (wr_last_seen w) seen, wr_source := source\<rparr>))\<rparr>\<rparr>))"
  by (rule ext)+ (auto simp: on_radar_def db_zoom_def upsert_wallet_def db_stmt_def)

lemma moves_upsert: "db_moves sync_grows (on_radar (upsert_wallet chain address seen source))"
  unfolding on_radar_upsert
  by (rule grow.moves_stmt) (auto simp: sync_grows_def wallets_kept_def split: option.splits)

lemma moves_transfers: "db_moves sync_grows (sync_transfers stored source ts n)"
proof (induction ts arbitrary: n)
  case Nil
  show ?case by (simp add: grow.moves_return)
next
  case (Cons t ts)
  show ?case
    unfolding sync_transfers.simps upsert_wallets_for_transfer_def Let_def store_transfer_def
    by (intro grow.moves_intros moves_upsert grow.moves_stmt Cons.IH) (simp_all add: sync_grows_def)
qed

lemma moves_trades: "db_moves sync_grows (sync_trades chain t0 source ts n)"
proof (induction ts arbitrary: n)
  case Nil
  show ?case by (simp add: grow.moves_return)
next
  case (Cons t ts)
  show ?case
    unfolding sync_trades.simps store_trade_def
    by (intro grow.moves_intros moves_upsert grow.moves_stmt Cons.IH) (simp add: sync_grows_def)
qed

lemma moves_raw: "db_moves sync_grows (store_raw_event chain source sig payload t)"
  unfolding store_raw_event_def
  by (rule grow.moves_stmt) (auto simp: sync_grows_def case_prod_beta)

lemma moves_transaction: "db_moves sync_grows (ingest_transaction stored chain source raw t adapter)"
  unfolding ingest_transaction_def Let_def
  by (intro grow.moves_bind; (split option.split sum.split)?)
    (auto intro!: grow.moves_intros moves_raw moves_transfers moves_trades split: sum.split)

lemma moves_webhook: "db_moves sync_grows (webhook_loop stored payload source t adapter counts)"
  by (induction payload arbitrary: counts) (auto intro!: grow.moves_intros moves_transaction)

section \<open>What ingestion relies on an adapter for\<close>

definition transfer_ident :: "'d NormalizedTransfer \<Rightarrow> ChainKind \<times> string \<times> int \<times> string \<times> string \<times> AssetKind" where
  "transfer_ident t = (nt_chain t, nt_signature t, nt_event_index t, nt_from_address t, nt_to_address t, nt_asset_kind t)"

definition trade_ident :: "'d NormalizedTrade \<Rightarrow> ChainKind \<times> string \<times> int \<times> string" where
  "trade_ident t = (tr_chain t, tr_signature t, tr_event_index t, tr_wallet t)"

definition raw_present :: "string \<Rightarrow> string \<Rightarrow> 'd sync_db \<Rightarrow> bool" where
  "raw_present chain sig db \<longleftrightarrow> (chain, sig) \<in> (\<lambda>r. (rw_chain r, rw_signature r)) ` set (sy_raw db)"

definition backed_transfer :: "'d sync_db \<Rightarrow> 'd transfer_row \<Rightarrow> bool" where
  "backed_transfer db t \<longleftrightarrow> raw_present (tf_chain t) (tf_signature t) db \<and>
     known_wallet (tf_chain t) (tf_from t) db \<and> known_wallet (tf_chain t) (tf_to t) db"

definition backed_trade :: "'d sync_db \<Rightarrow> 'd trade_row \<Rightarrow> bool" where
  "backed_trade db t \<longleftrightarrow> raw_present (td_chain t) (td_signature t) db \<and> known_wallet (td_chain t) (td_wallet t) db"

definition sync_ok :: "'d sync_db \<Rightarrow> bool" where
  "sync_ok db \<longleftrightarrow>
     distinct (map raw_key (sy_raw db)) \<and> distinct (map transfer_key (sy_transfers db)) \<and>
     distinct (map trade_key (sy_trades db)) \<and> distinct (map edge_key (sy_edges db)) \<and>
     list_all (backed_transfer db) (sy_transfers db) \<and> list_all (backed_trade db) (sy_trades db)"

definition funding_edge_key :: "'d NormalizedTransfer \<Rightarrow> string \<times> string \<times> string \<times> string \<times> string" where
  "funding_edge_key t = (chain_kind_as_str (nt_chain t), nt_from_address t, nt_to_address t, nt_signature t,
     if asset_kind_as_str (nt_asset_kind t) = ''native'' then ''funding'' else ''token_funding'')"

definition transfer_stored :: "'d NormalizedTransfer \<Rightarrow> 'd sync_db \<Rightarrow> bool" where
  "transfer_stored t db \<longleftrightarrow> transfer_key (transfer_columns t) \<in> transfer_key ` set (sy_transfers db) \<and>
     funding_edge_key t \<in> edge_key ` set (sy_edges db)"

definition trade_stored :: "'d NormalizedTrade \<Rightarrow> 'd sync_db \<Rightarrow> bool" where
  "trade_stored t db \<longleftrightarrow> trade_key (trade_columns t) \<in> trade_key ` set (sy_trades db)"

lemma edges_after: "\<exists>row. update_funding_edges stored t edges = snd (insert_new edge_key row edges) \<and> edge_key row = funding_edge_key t"
  using update_funding_edges_insert [of stored t edges] by (simp add: funding_edge_key_def)

lemma present_mono: "sync_grows a b \<Longrightarrow> raw_present c s a \<Longrightarrow> raw_present c s b"
  by (auto simp: sync_grows_def raw_present_def extends_def)

lemma known_mono: "sync_grows a b \<Longrightarrow> known_wallet c x a \<Longrightarrow> known_wallet c x b"
  by (auto simp: sync_grows_def known_wallet_def wallets_kept_def) (metis option.distinct(1))

lemma backed_mono:
  "sync_grows a b \<Longrightarrow> backed_transfer a t \<Longrightarrow> backed_transfer b t"
  "sync_grows a b \<Longrightarrow> backed_trade a d \<Longrightarrow> backed_trade b d"
  by (auto simp: backed_transfer_def backed_trade_def intro: present_mono known_mono)

lemma stored_mono:
  "sync_grows a b \<Longrightarrow> transfer_stored t a \<Longrightarrow> transfer_stored t b"
  "sync_grows a b \<Longrightarrow> trade_stored d a \<Longrightarrow> trade_stored d b"
  unfolding transfer_stored_def trade_stored_def sync_grows_def by (blast intro: extends_keys)+

lemma list_all_insert_new: "list_all P rows \<Longrightarrow> P row \<Longrightarrow> list_all P (snd (insert_new key row rows))"
  using insert_new_rows [of key row rows] by (auto simp: list_all_iff)

text \<open>The invariant across a step that changes one table.\<close>

lemma sync_ok_step:
  assumes "sync_ok a" "sync_grows a b"
    and "sy_raw b = sy_raw a \<or> (\<exists>row. sy_raw b = snd (insert_new raw_key row (sy_raw a)))"
    and "sy_edges b = sy_edges a \<or> (\<exists>row. sy_edges b = snd (insert_new edge_key row (sy_edges a)))"
    and "sy_transfers b = sy_transfers a \<or>
      (\<exists>row. sy_transfers b = snd (insert_new transfer_key row (sy_transfers a)) \<and> backed_transfer a row)"
    and "sy_trades b = sy_trades a \<or>
      (\<exists>row. sy_trades b = snd (insert_new trade_key row (sy_trades a)) \<and> backed_trade a row)"
  shows "sync_ok b"
proof -
  have "list_all (backed_transfer b) (sy_transfers a)" "list_all (backed_trade b) (sy_trades a)"
    using assms(1) backed_mono [OF assms(2)] by (auto simp: sync_ok_def list_all_iff)
  then have "list_all (backed_transfer b) (sy_transfers b)" "list_all (backed_trade b) (sy_trades b)"
    using assms(5,6) by (auto intro!: list_all_insert_new backed_mono [OF assms(2)])
  moreover have "distinct (map raw_key (sy_raw b))" "distinct (map edge_key (sy_edges b))"
    "distinct (map transfer_key (sy_transfers b))" "distinct (map trade_key (sy_trades b))"
    using assms(1,3-6) by (auto simp: sync_ok_def intro: insert_new_distinct)
  ultimately show ?thesis
    by (simp add: sync_ok_def)
qed

abbreviation ok_with :: "('d sync_db \<Rightarrow> bool) \<Rightarrow> 'd sync_db \<Rightarrow> bool" where
  "ok_with P db \<equiv> sync_ok db \<and> P db"

lemma upsert_ok:
  assumes "\<And>a b. sync_grows a b \<Longrightarrow> P a \<Longrightarrow> P b"
  shows "db_spec (ok_with P) (on_radar (upsert_wallet c x seen source)) (\<lambda>_ db. ok_with P db \<and> known_wallet c x db) (\<lambda>_. sync_ok)"
  unfolding on_radar_upsert
proof (rule db_spec_stmt, goal_cases)
  case (1 s)
  let ?b = "snd ((), s\<lparr>sy_radar := (sy_radar s)\<lparr>rb_wallets :=
     (rb_wallets (sy_radar s))((c, x) \<mapsto>
        (case rb_wallets (sy_radar s) (c, x) of
           None \<Rightarrow> \<lparr>wr_first_seen = seen, wr_last_seen = seen, wr_source = source\<rparr>
         | Some w \<Rightarrow> w\<lparr>wr_last_seen := max (wr_last_seen w) seen, wr_source := source\<rparr>))\<rparr>\<rparr>)"
  have g: "sync_grows s ?b"
    by (auto simp: sync_grows_def wallets_kept_def split: option.splits)
  have "sync_ok ?b"
    using 1 by (intro sync_ok_step [OF _ g]) auto
  moreover have "known_wallet c x ?b"
    by (simp add: known_wallet_def)
  ultimately show ?case
    using assms [OF g] 1 by simp
qed simp

section \<open>Raw first\<close>

lemma transfers_ok:
  assumes "\<And>t. t \<in> set ts \<Longrightarrow> nt_signature t = sig \<and> chain_kind_as_str (nt_chain t) = c"
  shows "db_spec (ok_with (raw_present c sig)) (sync_transfers stored source ts n) (\<lambda>_. ok_with (raw_present c sig)) (\<lambda>_. sync_ok)"
  using assms
proof (induction ts arbitrary: n)
  case Nil
  show ?case by (simp add: db_spec_return)
next
  case (Cons t ts)
  have t: "nt_signature t = sig" "chain_kind_as_str (nt_chain t) = c"
    using Cons.prems by auto
  let ?P = "raw_present c sig"
  let ?Q = "\<lambda>db. (?P db \<and> known_wallet c (nt_from_address t) db) \<and> known_wallet c (nt_to_address t) db"
  have wallets: "db_spec (ok_with ?P) (upsert_wallets_for_transfer t source) (\<lambda>_. ok_with ?Q) (\<lambda>_. sync_ok)"
    unfolding upsert_wallets_for_transfer_def Let_def t
    by (rule db_spec_bind [OF db_spec_weaken [OF upsert_ok [where P = ?P]] db_spec_weaken [OF upsert_ok
        [where P = "\<lambda>db. ?P db \<and> known_wallet c (nt_from_address t) db"]]])
      (auto intro: present_mono known_mono)
  have store: "db_spec (ok_with ?Q) (store_transfer t) (\<lambda>_. ok_with ?P) (\<lambda>_. ok_with ?P)"
    unfolding store_transfer_def
  proof (rule db_spec_stmt, goal_cases)
    case (1 s)
    let ?b = "s\<lparr>sy_transfers := snd (insert_new transfer_key (transfer_columns t) (sy_transfers s))\<rparr>"
    have g: "sync_grows s ?b"
      by (simp add: sync_grows_def)
    have "backed_transfer s (transfer_columns t)"
      using 1 t by (simp add: backed_transfer_def transfer_columns_def)
    then have "sync_ok ?b"
      using 1 by (intro sync_ok_step [OF _ g]) auto
    then show ?case
      using 1 present_mono [OF g] by simp
  qed simp
  have edge: "db_spec (ok_with ?P) (db_stmt (\<lambda>db. ((), db\<lparr>sy_edges := update_funding_edges stored t (sy_edges db)\<rparr>)))
      (\<lambda>_. ok_with ?P) (\<lambda>_. sync_ok)"
  proof (rule db_spec_stmt, goal_cases)
    case (1 s)
    let ?b = "s\<lparr>sy_edges := update_funding_edges stored t (sy_edges s)\<rparr>"
    have g: "sync_grows s ?b"
      by (simp add: sync_grows_def)
    have "sync_ok ?b"
      using 1 edges_after [of stored t "sy_edges s"] by (intro sync_ok_step [OF _ g]) auto
    then show ?case
      using 1 present_mono [OF g] by simp
  qed simp
  show ?case
    unfolding sync_transfers.simps
    by (rule db_spec_bind [OF wallets] db_spec_bind [OF db_spec_is_ok [OF store]] db_spec_bind [OF edge])+
      (use Cons in auto)
qed

lemma trades_ok:
  assumes "\<And>t. t \<in> set ts \<Longrightarrow> tr_signature t = sig \<and> chain_kind_as_str (tr_chain t) = c"
  shows "db_spec (ok_with (raw_present c sig)) (sync_trades c t0 source ts n) (\<lambda>_. ok_with (raw_present c sig)) (\<lambda>_. sync_ok)"
  using assms
proof (induction ts arbitrary: n)
  case Nil
  show ?case by (simp add: db_spec_return)
next
  case (Cons t ts)
  have t: "tr_signature t = sig" "chain_kind_as_str (tr_chain t) = c"
    using Cons.prems by auto
  let ?P = "raw_present c sig"
  have store: "db_spec (\<lambda>db. ok_with ?P db \<and> known_wallet c (tr_wallet t) db) (store_trade t) (\<lambda>_. ok_with ?P) (\<lambda>_. ok_with ?P)"
    unfolding store_trade_def
  proof (rule db_spec_stmt, goal_cases)
    case (1 s)
    let ?b = "s\<lparr>sy_trades := snd (insert_new trade_key (trade_columns t) (sy_trades s))\<rparr>"
    have g: "sync_grows s ?b"
      by (simp add: sync_grows_def)
    have "backed_trade s (trade_columns t)"
      using 1 t by (simp add: backed_trade_def trade_columns_def)
    then have "sync_ok ?b"
      using 1 by (intro sync_ok_step [OF _ g]) auto
    then show ?case
      using 1 present_mono [OF g] by simp
  qed simp
  show ?case
    unfolding sync_trades.simps
  proof (rule db_spec_bind [OF upsert_ok [where P = ?P]], erule (1) present_mono, goal_cases)
    case 1
    show ?case
      by (rule db_spec_bind [OF db_spec_is_ok [OF store]]) (use Cons in auto)
  qed
qed

lemma raw_present_key: "(c, source, sig) \<in> raw_key ` set (sy_raw db) \<Longrightarrow> raw_present c sig db"
  by (auto simp: raw_present_def raw_key_def image_iff)

lemma raw_ok:
  "db_spec sync_ok (store_raw_event c source sig payload t) (\<lambda>_. ok_with (raw_present c sig)) (\<lambda>_. sync_ok)"
  unfolding store_raw_event_def
proof (rule db_spec_stmt, goal_cases)
  case (1 s)
  let ?row = "\<lparr>rw_chain = c, rw_source = source, rw_signature = sig, rw_payload = payload, rw_observed_at = t\<rparr>"
  let ?b = "s\<lparr>sy_raw := snd (insert_new raw_key ?row (sy_raw s))\<rparr>"
  have "sync_ok ?b"
    using 1 by (intro sync_ok_step [OF 1]) (auto simp: sync_grows_def)
  moreover have "raw_present c sig ?b"
    by (rule raw_present_key [of _ source]) (simp add: insert_new_keys, simp add: raw_key_def)
  ultimately show ?case
    by (simp add: case_prod_beta)
qed simp

locale chain_adapter =
  fixes adapter :: "json \<Rightarrow> int \<Rightarrow> chain_error + 'd NormalizedEvents" and chain :: ChainKind
  assumes signed: "adapter raw t = Inr ev \<Longrightarrow> \<exists>sig. raw_signature raw = Some sig \<and>
      (\<forall>x\<in>set (nv_transfers ev). nt_signature x = sig \<and> nt_chain x = chain) \<and>
      (\<forall>x\<in>set (nv_trades ev). tr_signature x = sig \<and> tr_chain x = chain)"
    and redelivered: "adapter raw t = Inr ev \<Longrightarrow> \<exists>ev'. adapter raw t' = Inr ev' \<and>
      map transfer_ident (nv_transfers ev') = map transfer_ident (nv_transfers ev) \<and>
      map trade_ident (nv_trades ev') = map trade_ident (nv_trades ev)"
begin

lemma transaction_ok:
  "db_spec sync_ok (ingest_transaction stored chain source raw t adapter) (\<lambda>_. sync_ok) (\<lambda>_. sync_ok)"
proof (cases "adapter raw t")
  case (Inl e)
  show ?thesis
    unfolding ingest_transaction_def Let_def Inl sum.case
    by (cases "raw_signature raw")
      (auto intro!: db_spec_bind [where R = "\<lambda>_. sync_ok"] db_spec_return db_spec_weaken [OF raw_ok])
next
  case (Inr ev)
  obtain sig where sig: "raw_signature raw = Some sig"
    "\<And>x. x \<in> set (nv_transfers ev) \<Longrightarrow> nt_signature x = sig \<and> nt_chain x = chain"
    "\<And>x. x \<in> set (nv_trades ev) \<Longrightarrow> tr_signature x = sig \<and> tr_chain x = chain"
    using signed [OF Inr] by blast
  show ?thesis
    unfolding ingest_transaction_def Let_def Inr sig(1) sum.case option.case
    by (intro db_spec_bind [OF raw_ok] db_spec_bind [OF transfers_ok] db_spec_bind [OF trades_ok] db_spec_return)
      (auto simp: sig(2,3))
qed

end

section \<open>Delivery and redelivery\<close>

text \<open>The rows of a payload are in the tables.\<close>

definition delivered :: "(json \<Rightarrow> int \<Rightarrow> chain_error + 'd NormalizedEvents) \<Rightarrow> string \<Rightarrow> string \<Rightarrow> json \<Rightarrow> 'd sync_db \<Rightarrow> bool" where
  "delivered adapter c source raw db \<longleftrightarrow>
     (\<forall>sig. raw_signature raw = Some sig \<longrightarrow> (c, source, sig) \<in> raw_key ` set (sy_raw db)) \<and>
     (\<forall>t ev. adapter raw t = Inr ev \<longrightarrow>
        list_all (\<lambda>x. transfer_stored x db) (nv_transfers ev) \<and> list_all (\<lambda>x. trade_stored x db) (nv_trades ev))"

definition tables :: "'d sync_db \<Rightarrow> raw_row list \<times> 'd transfer_row list \<times> 'd trade_row list \<times> edge_row list" where
  "tables db = (sy_raw db, sy_transfers db, sy_trades db, sy_edges db)"

definition transfer_count :: "chain_error + 'd NormalizedEvents \<Rightarrow> nat" where
  "transfer_count r = (case r of Inl _ \<Rightarrow> 0 | Inr ev \<Rightarrow> length (nv_transfers ev))"

definition trade_count :: "chain_error + 'd NormalizedEvents \<Rightarrow> nat" where
  "trade_count r = (case r of Inl _ \<Rightarrow> 0 | Inr ev \<Rightarrow> length (nv_trades ev))"

lemma stored_ident:
  "transfer_ident x = transfer_ident y \<Longrightarrow> transfer_stored x db = transfer_stored y db"
  "trade_ident a = trade_ident b \<Longrightarrow> trade_stored a db = trade_stored b db"
  by (simp_all add: transfer_stored_def trade_stored_def transfer_ident_def trade_ident_def transfer_key_def trade_key_def
      transfer_columns_def trade_columns_def funding_edge_key_def)

lemma list_all_ident:
  assumes "map f xs = map f ys" "\<And>x y. f x = f y \<Longrightarrow> P x = P y"
  shows "list_all P xs = list_all P ys"
  using assms(1)
proof (induction xs arbitrary: ys)
  case (Cons x xs)
  then obtain y zs where ys: "ys = y # zs" "f x = f y" "map f xs = map f zs"
    by (cases ys) auto
  show ?case
    unfolding ys(1) list.pred_inject(2) assms(2) [OF ys(2)] Cons.IH [OF ys(3)] by (rule refl)
qed simp

lemma transfers_done:
  "db_done (\<lambda>_. True) (sync_transfers stored source ts n) (\<lambda>m db. m = n + length ts \<and> list_all (\<lambda>x. transfer_stored x db) ts)"
proof (induction ts arbitrary: n)
  case Nil
  show ?case by (simp add: db_done_return)
next
  case (Cons t ts)
  let ?K = "\<lambda>db. transfer_key (transfer_columns t) \<in> transfer_key ` set (sy_transfers db)"
  have wallets: "db_done (\<lambda>_. True) (upsert_wallets_for_transfer t source) (\<lambda>_ _. True)"
    unfolding upsert_wallets_for_transfer_def Let_def on_radar_upsert
    by (intro db_done_bind [where R = "\<lambda>_ _. True"] db_done_stmt) simp_all
  have store: "db_done (\<lambda>_. True) (store_transfer t) (\<lambda>_. ?K)"
    unfolding store_transfer_def by (rule db_done_stmt) (simp add: insert_new_keys)
  have edge: "db_done (\<lambda>db. ok \<and> ?K db) (db_stmt (\<lambda>db. ((), db\<lparr>sy_edges := update_funding_edges stored t (sy_edges db)\<rparr>)))
      (\<lambda>_ db. ok \<and> transfer_stored t db)" for ok
  proof (rule db_done_stmt, goal_cases)
    case (1 s)
    then show ?case
      using edges_after [of stored t "sy_edges s"] by (auto simp: transfer_stored_def insert_new_keys)
  qed
  have rest: "db_done (\<lambda>db. ok \<and> transfer_stored t db) (sync_transfers stored source ts (if ok then n + 1 else n))
      (\<lambda>m db. m = n + length (t # ts) \<and> list_all (\<lambda>x. transfer_stored x db) (t # ts))" for ok
  proof (cases ok)
    case True
    show ?thesis
      by (rule db_done_weaken [OF grow.done_keeps [OF Cons.IH moves_transfers stored_mono(1) [of _ _ t]]])
        (auto simp: True)
  qed (simp add: db_done_def)
  show ?case
    unfolding sync_transfers.simps
    by (rule db_done_bind [OF wallets] db_done_bind [OF db_done_is_ok [OF store]] db_done_bind [OF edge] rest)+
qed

lemma trades_done:
  "db_done (\<lambda>_. True) (sync_trades c t0 source ts n) (\<lambda>m db. m = n + length ts \<and> list_all (\<lambda>x. trade_stored x db) ts)"
proof (induction ts arbitrary: n)
  case Nil
  show ?case by (simp add: db_done_return)
next
  case (Cons t ts)
  have wallet: "db_done (\<lambda>_. True) (on_radar (upsert_wallet c (tr_wallet t) t0 source)) (\<lambda>_ _. True)"
    unfolding on_radar_upsert by (rule db_done_stmt) simp
  have store: "db_done (\<lambda>_. True) (store_trade t) (\<lambda>_. trade_stored t)"
    unfolding store_trade_def by (rule db_done_stmt) (simp add: insert_new_keys trade_stored_def)
  have rest: "db_done (\<lambda>db. ok \<and> trade_stored t db) (sync_trades c t0 source ts (if ok then n + 1 else n))
      (\<lambda>m db. m = n + length (t # ts) \<and> list_all (\<lambda>x. trade_stored x db) (t # ts))" for ok
  proof (cases ok)
    case True
    show ?thesis
      by (rule db_done_weaken [OF grow.done_keeps [OF Cons.IH moves_trades stored_mono(2) [of _ _ t]]])
        (auto simp: True)
  qed (simp add: db_done_def)
  show ?case
    unfolding sync_trades.simps
    by (rule db_done_bind [OF wallet] db_done_bind [OF db_done_is_ok [OF store]] rest)+
qed

lemma tables_upsert: "db_spec (\<lambda>db. tables db = T) (on_radar (upsert_wallet c x seen source)) (\<lambda>_ db. tables db = T) (\<lambda>_ db. tables db = T)"
  unfolding on_radar_upsert by (rule db_spec_stmt) (simp_all add: tables_def)

lemma transfers_again:
  assumes "\<And>db. tables db = T \<Longrightarrow> list_all (\<lambda>x. transfer_stored x db) ts"
  shows "db_spec (\<lambda>db. tables db = T) (sync_transfers stored source ts n) (\<lambda>_ db. tables db = T) (\<lambda>_ db. tables db = T)"
  using assms
proof (induction ts arbitrary: n)
  case Nil
  show ?case by (simp add: db_spec_return)
next
  case (Cons t ts)
  have store: "db_spec (\<lambda>db. tables db = T) (store_transfer t) (\<lambda>_ db. tables db = T) (\<lambda>_ db. tables db = T)"
    unfolding store_transfer_def
    by (rule db_spec_stmt) (use Cons.prems in \<open>auto simp: tables_def transfer_stored_def insert_new_known\<close>)
  have edge: "db_spec (\<lambda>db. tables db = T) (db_stmt (\<lambda>db. ((), db\<lparr>sy_edges := update_funding_edges stored t (sy_edges db)\<rparr>)))
      (\<lambda>_ db. tables db = T) (\<lambda>_ db. tables db = T)"
  proof (rule db_spec_stmt, goal_cases)
    case (1 s)
    then have "funding_edge_key t \<in> edge_key ` set (sy_edges s)"
      using Cons.prems by (simp add: transfer_stored_def)
    then have "update_funding_edges stored t (sy_edges s) = sy_edges s"
      using edges_after [of stored t "sy_edges s"] by (auto simp: insert_new_known)
    then show ?case
      using 1 by (simp add: tables_def)
  qed
  show ?case
    unfolding sync_transfers.simps upsert_wallets_for_transfer_def Let_def db_bind_assoc
    by (rule db_spec_bind [OF tables_upsert] db_spec_bind [OF db_spec_is_ok [OF store]] db_spec_bind [OF edge] Cons.IH)+
      (use Cons.prems in simp)
qed

lemma trades_again:
  assumes "\<And>db. tables db = T \<Longrightarrow> list_all (\<lambda>x. trade_stored x db) ts"
  shows "db_spec (\<lambda>db. tables db = T) (sync_trades c t0 source ts n) (\<lambda>_ db. tables db = T) (\<lambda>_ db. tables db = T)"
  using assms
proof (induction ts arbitrary: n)
  case Nil
  show ?case by (simp add: db_spec_return)
next
  case (Cons t ts)
  have store: "db_spec (\<lambda>db. tables db = T) (store_trade t) (\<lambda>_ db. tables db = T) (\<lambda>_ db. tables db = T)"
    unfolding store_trade_def
    by (rule db_spec_stmt) (use Cons.prems in \<open>auto simp: tables_def trade_stored_def insert_new_known\<close>)
  show ?case
    unfolding sync_trades.simps
    by (rule db_spec_bind [OF tables_upsert] db_spec_bind [OF db_spec_is_ok [OF store]] Cons.IH)+
      (use Cons.prems in simp)
qed

lemma delivered_tables: "tables a = tables b \<Longrightarrow> delivered adapter c source raw a = delivered adapter c source raw b"
  by (simp add: delivered_def tables_def transfer_stored_def trade_stored_def)

lemma transaction_again:
  assumes "delivered adapter (chain_kind_as_str chain) source raw db0"
  shows "db_spec (\<lambda>db. tables db = tables db0) (ingest_transaction stored chain source raw t adapter)
    (\<lambda>_ db. tables db = tables db0) (\<lambda>_ db. tables db = tables db0)"
proof -
  have d: "delivered adapter (chain_kind_as_str chain) source raw db" if "tables db = tables db0" for db
    using assms delivered_tables [OF that] by simp
  have raw: "db_spec (\<lambda>db. tables db = tables db0) (store_raw_event (chain_kind_as_str chain) source sig raw t)
      (\<lambda>_ db. tables db = tables db0) (\<lambda>_ db. tables db = tables db0)" if "raw_signature raw = Some sig" for sig
    unfolding store_raw_event_def
    by (rule db_spec_stmt) (use d that in \<open>auto simp: delivered_def tables_def insert_new_known raw_key_def split: prod.splits\<close>)
  show ?thesis
    unfolding ingest_transaction_def Let_def
  proof (rule db_spec_bind [where R = "\<lambda>_ db. tables db = tables db0"], goal_cases)
    case 1
    show ?case by (cases "raw_signature raw") (simp_all add: db_spec_return raw)
  next
    case (2 b)
    show ?case
    proof (cases "adapter raw t")
      case (Inr ev)
      have "list_all (\<lambda>x. transfer_stored x db) (nv_transfers ev)" "list_all (\<lambda>x. trade_stored x db) (nv_trades ev)"
        if "tables db = tables db0" for db
        using d [OF that] Inr by (auto simp: delivered_def)
      then show ?thesis
        unfolding Inr sum.case
        by (intro db_spec_bind [OF transfers_again] db_spec_bind [OF trades_again] db_spec_return)
    qed (simp add: db_spec_return)
  qed
qed

lemma webhook_again:
  assumes "list_all (\<lambda>raw. delivered adapter ''solana'' source raw db0) payload"
  shows "db_spec (\<lambda>db. tables db = tables db0) (webhook_loop stored payload source t adapter counts)
    (\<lambda>_ db. tables db = tables db0) (\<lambda>_ db. tables db = tables db0)"
  using assms
proof (induction payload arbitrary: counts)
  case Nil
  show ?case by (simp add: db_spec_return)
next
  case (Cons raw payload)
  have "delivered adapter (chain_kind_as_str KindSolana) source raw db0"
    using Cons.prems by simp
  then show ?case
    using Cons by (auto intro!: db_spec_bind [OF transaction_again])
qed

lemma delivered_mono: "sync_grows a b \<Longrightarrow> delivered adapter c source raw a \<Longrightarrow> delivered adapter c source raw b"
  unfolding delivered_def list_all_iff
  by (meson extends_keys stored_mono sync_grows_def)

lemma raw_done:
  "db_done (\<lambda>_. True) (store_raw_event c source sig payload t) (\<lambda>_ db. (c, source, sig) \<in> raw_key ` set (sy_raw db))"
  unfolding store_raw_event_def
  by (rule db_done_stmt) (simp add: case_prod_beta insert_new_keys, simp add: raw_key_def)

context chain_adapter
begin

lemma stored_whenever:
  assumes "adapter raw t = Inr ev" "list_all (\<lambda>x. transfer_stored x db) (nv_transfers ev)"
    and "list_all (\<lambda>x. trade_stored x db) (nv_trades ev)" "raw_signature raw = Some sig" "(c, source, sig) \<in> raw_key ` set (sy_raw db)"
  shows "delivered adapter c source raw db"
  unfolding delivered_def
proof (intro conjI allI impI)
  fix t' ev'
  assume e: "adapter raw t' = Inr ev'"
  obtain ev2 where "adapter raw t = Inr ev2" "map transfer_ident (nv_transfers ev2) = map transfer_ident (nv_transfers ev')"
    "map trade_ident (nv_trades ev2) = map trade_ident (nv_trades ev')"
    using redelivered [OF e] by blast
  then have m: "map transfer_ident (nv_transfers ev') = map transfer_ident (nv_transfers ev)"
    "map trade_ident (nv_trades ev') = map trade_ident (nv_trades ev)"
    using assms(1) by simp_all
  show "list_all (\<lambda>x. transfer_stored x db) (nv_transfers ev')" "list_all (\<lambda>x. trade_stored x db) (nv_trades ev')"
    using assms(2,3) list_all_ident [OF m(1), where P = "\<lambda>x. transfer_stored x db", OF stored_ident(1)]
      list_all_ident [OF m(2), where P = "\<lambda>x. trade_stored x db", OF stored_ident(2)] by simp_all
qed (use assms(4,5) in auto)

lemma never_normalized:
  assumes "adapter raw t = Inl e" "adapter raw t' = Inr ev"
  shows False
  using redelivered [OF assms(2), of t] assms(1) by simp

lemma transaction_done:
  "db_done (\<lambda>_. True) (ingest_transaction stored chain source raw t adapter)
     (\<lambda>counts db. delivered adapter (chain_kind_as_str chain) source raw db \<and>
        transfers_new counts = transfer_count (adapter raw t) \<and> trades_new counts = trade_count (adapter raw t) \<and>
        malformed counts = (if isl (adapter raw t) then 1 else 0))"
proof (cases "adapter raw t")
  case (Inl e)
  have d: "delivered adapter c source raw db \<longleftrightarrow> (\<forall>sig. raw_signature raw = Some sig \<longrightarrow> (c, source, sig) \<in> raw_key ` set (sy_raw db))"
    for c db
    using never_normalized [OF Inl] by (auto simp: delivered_def)
  show ?thesis
    unfolding ingest_transaction_def Let_def Inl sum.case d
    by (cases "raw_signature raw")
      (auto intro!: db_done_return db_done_bind [OF raw_done] simp: transfer_count_def trade_count_def no_counts_def)
next
  case (Inr ev)
  obtain sig where sig: "raw_signature raw = Some sig"
    using signed [OF Inr] by blast
  let ?raw = "\<lambda>db. (chain_kind_as_str chain, source, sig) \<in> raw_key ` set (sy_raw db)"
  have raw_mono: "?raw b" if "sync_grows a b" "?raw a" for a b :: "'d sync_db"
    using that by (auto simp: sync_grows_def dest: extends_keys)
  let ?ts = "\<lambda>db. list_all (\<lambda>x. transfer_stored x db) (nv_transfers ev)"
  have ts_mono: "?raw b \<and> ?ts b" if "sync_grows a b" "?raw a \<and> ?ts a" for a b :: "'d sync_db"
    using raw_mono [OF that(1)] that(2) by (auto simp: list_all_iff intro: stored_mono(1) [OF that(1)])
  have ts: "db_done ?raw (sync_transfers stored source (nv_transfers ev) 0) (\<lambda>n db. n = length (nv_transfers ev) \<and> ?raw db \<and> ?ts db)"
    by (rule db_done_weaken [OF grow.done_keeps [OF transfers_done moves_transfers, where I = ?raw, OF raw_mono]]) auto
  have ds: "db_done (\<lambda>db. n = length (nv_transfers ev) \<and> ?raw db \<and> ?ts db)
      (sync_trades (chain_kind_as_str chain) t source (nv_trades ev) 0)
      (\<lambda>m db. n = length (nv_transfers ev) \<and> m = length (nv_trades ev) \<and> delivered adapter (chain_kind_as_str chain) source raw db)" for n
    by (rule db_done_weaken [OF grow.done_keeps [OF trades_done moves_trades,
          where I = "\<lambda>db. n = length (nv_transfers ev) \<and> ?raw db \<and> ?ts db"]])
      (use ts_mono in \<open>auto intro: stored_whenever [OF Inr _ _ sig]\<close>)
  show ?thesis
    unfolding ingest_transaction_def Let_def Inr sig sum.case option.case
    by (intro db_done_bind [OF raw_done] db_done_bind [OF ts] db_done_bind [OF ds] db_done_return)
      (simp add: transfer_count_def trade_count_def no_counts_def)
qed

end

text \<open>The Solana adapter keeps the contract.\<close>

lemma somes_iff: "x \<in> set (somes xs) \<longleftrightarrow> Some x \<in> set xs"
  by (induction xs rule: somes.induct) auto

lemma ident_helius [simp]: "transfer_ident (helius_transfer h i f r k m raw a) = (KindSolana, th_signature h, i, f, r, k)"
  by (simp add: transfer_ident_def helius_transfer_def)

lemma native_ident:
  "th_signature h = th_signature h' \<Longrightarrow> map_option transfer_ident (native_transfer D E h x) = map_option transfer_ident (native_transfer D E h' x)"
  by (auto simp: native_transfer_def split: prod.splits option.splits)

lemma token_ident:
  "th_signature h = th_signature h' \<Longrightarrow>
   map_sum id (map_option transfer_ident) (token_transfer D E h x) = map_sum id (map_option transfer_ident) (token_transfer D E h' x)"
  by (auto simp: token_transfer_def Let_def split: prod.splits option.splits sum.splits)

lemma build_ident:
  assumes "th_signature h = th_signature h'"
  shows "map_option trade_ident (build_trade D E h w side n leg dex) = map_option trade_ident (build_trade D E h' w side n leg dex)"
  unfolding build_trade_def Let_def using assms by (simp add: trade_ident_def split: option.split sum.split)

lemma somes_map: "(\<And>x. map_option g (f x) = map_option g (f' x)) \<Longrightarrow> map g (somes (map f xs)) = map g (somes (map f' xs))"
proof (induction xs)
  case (Cons x xs)
  then show ?case
    using Cons.prems [of x] by (cases "f x"; cases "f' x") auto
qed simp

lemma collect_map:
  assumes "\<And>x. map_sum id (map_option g) (f x) = map_sum id (map_option g) (f' x)"
  shows "map_sum id (map g) (collect_tokens f xs) = map_sum id (map g) (collect_tokens f' xs)"
proof (induction xs)
  case (Cons x xs)
  show ?case
    using Cons.IH assms [of x]
    by (cases "f x"; cases "f' x"; cases "collect_tokens f xs"; cases "collect_tokens f' xs";
        cases "projr (f x)"; cases "projr (f' x)") auto
qed simp

lemma swap_ident:
  assumes "th_signature h = th_signature h'"
  shows "map trade_ident (swap_trades D E h raw) = map trade_ident (swap_trades D E h' raw)"
proof -
  have leg: "map trade_ident (case (case (u, v) of (Some n, Some os) \<Rightarrow> build_trade D E h fee side n (first_leg os) dex | _ \<Rightarrow> None)
        of Some t \<Rightarrow> [t] | None \<Rightarrow> []) =
      map trade_ident (case (case (u, v) of (Some n, Some os) \<Rightarrow> build_trade D E h' fee side n (first_leg os) dex | _ \<Rightarrow> None)
        of Some t \<Rightarrow> [t] | None \<Rightarrow> [])" for u v fee side dex
  proof (cases u; cases v)
    fix n os
    assume "u = Some n" "v = Some os"
    then show ?thesis
      using build_ident [OF assms, of D E fee side n "first_leg os" dex]
      by (cases "build_trade D E h fee side n (first_leg os) dex"; cases "build_trade D E h' fee side n (first_leg os) dex") auto
  qed simp_all
  show ?thesis
    unfolding swap_trades_def Let_def
    by (cases "Option.bind (jpath raw ''events'' (\<lambda>e. jget e ''swap'')) as_object")
      (simp_all only: option.case list.map map_append leg)
qed

lemma solana_redelivered:
  assumes "solana_ingest_transaction D E raw t = Inr ev"
  shows "\<exists>ev'. solana_ingest_transaction D E raw t' = Inr ev' \<and>
      map transfer_ident (nv_transfers ev') = map transfer_ident (nv_transfers ev) \<and>
      map trade_ident (nv_trades ev') = map trade_ident (nv_trades ev)"
proof -
  obtain sig where sig: "or_else (jpath raw ''signature'' as_str) (jpath raw ''transactionHash'' as_str) = Some sig"
    using assms by (auto simp: solana_ingest_transaction_def normalize_helius_transaction_def split: option.splits)
  let ?h = "helius_head E raw sig t" and ?h' = "helius_head E raw sig t'"
  have h: "th_signature ?h' = th_signature ?h"
    by (simp add: helius_head_def)
  define ns where "ns = (case jpath raw ''nativeTransfers'' as_array of Some xs \<Rightarrow> xs | None \<Rightarrow> [])"
  define ks where "ks = (case jpath raw ''tokenTransfers'' as_array of Some xs \<Rightarrow> xs | None \<Rightarrow> [])"
  obtain tokens where tk: "collect_tokens (token_transfer D E ?h) (enumerate 0 ks) = Inr tokens"
    "nv_transfers ev = somes (map (native_transfer D E ?h) (enumerate 0 ns)) @ tokens" "nv_trades ev = swap_trades D E ?h raw"
    using helius_parts [OF assms [unfolded solana_ingest_transaction_def] sig] unfolding ns_def ks_def by blast
  have "map_sum id (map transfer_ident) (collect_tokens (token_transfer D E ?h') (enumerate 0 ks)) = Inr (map transfer_ident tokens)"
    using collect_map [of transfer_ident "token_transfer D E ?h'" "token_transfer D E ?h" "enumerate 0 ks", OF token_ident [OF h]] tk(1)
    by simp
  then obtain tokens' where tk': "collect_tokens (token_transfer D E ?h') (enumerate 0 ks) = Inr tokens'"
    "map transfer_ident tokens' = map transfer_ident tokens"
    by (cases "collect_tokens (token_transfer D E ?h') (enumerate 0 ks)") auto
  have none: "collect_tokens (token_transfer D E ?h') (enumerate 0 (case jpath raw ''tokenTransfers'' as_array of Some xs \<Rightarrow> xs | None \<Rightarrow> [])) =
      (case jpath raw ''tokenTransfers'' as_array of Some xs \<Rightarrow> collect_tokens (token_transfer D E ?h') (enumerate 0 xs) | None \<Rightarrow> Inr [])"
    by (simp split: option.split)
  have natives: "(case jpath raw ''nativeTransfers'' as_array of
      Some xs \<Rightarrow> somes (map (native_transfer D E ?h') (enumerate 0 xs)) | None \<Rightarrow> []) =
      somes (map (native_transfer D E ?h') (enumerate 0 ns))"
    unfolding ns_def by (simp split: option.split)
  have "solana_ingest_transaction D E raw t' = Inr \<lparr>nv_transfers = somes (map (native_transfer D E ?h') (enumerate 0 ns)) @ tokens',
      nv_trades = swap_trades D E ?h' raw, nv_mints_created = [], nv_token_accounts_created = []\<rparr>"
    unfolding solana_ingest_transaction_def normalize_helius_transaction_def sig option.case Let_def none [symmetric] natives
      tk'(1) [unfolded ks_def] sum.case by (rule refl)
  then show ?thesis
    using tk(2,3) tk'(2) swap_ident [OF h, of D E raw]
      somes_map [of transfer_ident "native_transfer D E ?h'" "native_transfer D E ?h" "enumerate 0 ns", OF native_ident [OF h]]
    by simp
qed

lemma trade_chain: "y \<in> set (swap_trades D E h raw) \<Longrightarrow> tr_chain y = KindSolana"
proof -
  have "fst (trade_ident t) = KindSolana" if "build_trade D E h w side n leg dex = Some t" for w side n leg dex t
    using that by (auto simp: build_trade_def trade_ident_def Let_def split: option.splits sum.splits if_splits)
  then have b: "tr_chain t = KindSolana" if "build_trade D E h w side n leg dex = Some t" for w side n leg dex t
    using that by (auto simp: trade_ident_def)
  have "\<forall>y\<in>set (swap_trades D E h raw). tr_chain y = KindSolana"
  proof (cases "Option.bind (jpath raw ''events'' (\<lambda>e. jget e ''swap'')) as_object")
    case None
    then show ?thesis unfolding swap_trades_def by simp
  next
    case (Some m)
    show ?thesis
      unfolding swap_trades_def Some by (auto simp: Let_def split: option.splits dest: b b [OF sym])
  qed
  then show "y \<in> set (swap_trades D E h raw) \<Longrightarrow> ?thesis" by blast
qed

lemma solana_signed:
  assumes "solana_ingest_transaction D E raw t = Inr ev"
  shows "\<exists>sig. raw_signature raw = Some sig \<and>
      (\<forall>x\<in>set (nv_transfers ev). nt_signature x = sig \<and> nt_chain x = KindSolana) \<and>
      (\<forall>x\<in>set (nv_trades ev). tr_signature x = sig \<and> tr_chain x = KindSolana)"
proof -
  obtain sig where sig: "or_else (jpath raw ''signature'' as_str) (jpath raw ''transactionHash'' as_str) = Some sig"
    using assms by (auto simp: solana_ingest_transaction_def normalize_helius_transaction_def split: option.splits)
  let ?h = "helius_head E raw sig t"
  have h: "th_signature ?h = sig"
    by (simp add: helius_head_def)
  obtain tokens ns ks where tk: "collect_tokens (token_transfer D E ?h) ks = Inr tokens"
    and ev: "nv_transfers ev = somes (map (native_transfer D E ?h) ns) @ tokens" "nv_trades ev = swap_trades D E ?h raw"
    using helius_parts [OF assms [unfolded solana_ingest_transaction_def] sig] by blast
  have "nt_signature x = sig \<and> nt_chain x = KindSolana" if m: "x \<in> set tokens" for x
  proof -
    obtain i v where "token_transfer D E ?h (i, v) = Inr (Some x)"
      using m collect_tokens_set [OF tk] by (auto simp: somes_iff split: sum.splits)
    then show ?thesis
      using h by (auto simp: token_transfer_def helius_transfer_def Let_def split: option.splits if_splits sum.splits)
  qed
  note tokens = this
  have n: "nt_signature x = sig \<and> nt_chain x = KindSolana" if "native_transfer D E ?h y = Some x" for x y
    using that h by (cases y) (auto simp: native_transfer_def helius_transfer_def split: option.splits if_splits)
  have natives: "nt_signature x = sig \<and> nt_chain x = KindSolana" if "x \<in> set (somes (map (native_transfer D E ?h) ns))" for x
  proof -
    have "Some x \<in> native_transfer D E ?h ` set ns"
      using that unfolding somes_iff set_map .
    then show ?thesis
      using n by (metis imageE)
  qed
  have raw: "raw_signature raw = Some sig"
    using sig by (simp add: raw_signature_def)
  have trades: "tr_signature y = sig \<and> tr_chain y = KindSolana" if "y \<in> set (nv_trades ev)" for y
    using that swap_trades_fields [of D E ?h raw] trade_chain [of y D E ?h raw] unfolding ev(2) h by blast
  have transfers: "nt_signature x = sig \<and> nt_chain x = KindSolana" if "x \<in> set (nv_transfers ev)" for x
    using that natives tokens unfolding ev(1) set_append by blast
  show ?thesis
    using raw trades transfers by blast
qed

interpretation solana: chain_adapter "solana_ingest_transaction D E" KindSolana for D E
  by unfold_locales (fact solana_signed solana_redelivered)+

section \<open>Webhooks\<close>

lemma webhook_ok:
  "db_spec sync_ok (webhook_loop stored payload source t (solana_ingest_transaction D E) counts) (\<lambda>_. sync_ok) (\<lambda>_. sync_ok)"
  by (induction payload arbitrary: counts) (auto intro!: db_spec_return db_spec_bind [OF solana.transaction_ok])

text \<open>C21: Raw payloads come first and rows are unique. From tables in order, a webhook of any transactions, whichever of its
  statements fail, leaves tables in order: no two raw events, transfers, trades or edges share their key, and every transfer
  and every trade has a raw event with its chain and signature and known wallets at its ends. No row of the four tables is
  changed or removed, a wallet keeps the time it was first seen and its last-seen time never goes back, and labels and
  cursors are untouched.\<close>

theorem ingestion_is_raw_first:
  assumes "sync_ok db" "run_db (ingest_webhook stored payload source t (solana_ingest_transaction D E)) fault db = (r, db')"
  shows "sync_ok db' \<and> sync_grows db db'"
proof
  show "sync_ok db'"
    using run_db_spec [OF webhook_ok assms(1) assms(2) [unfolded ingest_webhook_def]] by (simp split: sum.splits)
  show "sync_grows db db'"
    by (rule grow.moves_run [OF moves_webhook assms(2) [unfolded ingest_webhook_def]])
qed

definition empty_sync :: "'d sync_db" where
  "empty_sync = \<lparr>sy_raw = [], sy_transfers = [], sy_trades = [], sy_edges = [], sy_radar = empty_radar, sy_workspaces = [1],
     sy_labels = [], sy_cursors = Map.empty, sy_queue_state = Map.empty, sy_token_obs = [], sy_wallet_obs = [],
     sy_pool = hp_new [] helius_default 0, sy_sent = []\<rparr>"

definition sample_env :: "rat chain_env" where
  "sample_env = \<lparr>ce_as_u64 = (\<lambda>v. case v of JNumber (Fin x) \<Rightarrow> Some (nat \<lfloor>x\<rfloor>) | _ \<Rightarrow> None),
     ce_as_i64 = (\<lambda>_. None), ce_from_timestamp = Some, ce_b58 = (\<lambda>_. Some 32), ce_show_f64 = (\<lambda>_. []), ce_to_value = (\<lambda>_. JNull)\<rparr>"

definition sample_tx :: json where
  "sample_tx = JObject [(''signature'', JString ''s''), (''nativeTransfers'', JArray [JObject [
     (''fromUserAccount'', JString (replicate 32 CHR ''a'')), (''toUserAccount'', JString (replicate 32 CHR ''b'')),
     (''amount'', JNumber (Fin 5))]])]"

definition sample_webhook :: "rat sync_db \<Rightarrow> (sync_error tx_error + IngestCounts) \<times> rat sync_db" where
  "sample_webhook = run_db (ingest_webhook (\<lambda>_. 0) [sample_tx] ''helius_webhook'' 7 (solana_ingest_transaction rat_num sample_env)) (\<lambda>_. False)"

lemma empty_sync_ok: "sync_ok empty_sync"
  by (simp add: sync_ok_def empty_sync_def)

lemma show_five: "show_nat 5 = ''5''"
  by code_simp

lemma sample_adapter:
  "solana_ingest_transaction rat_num sample_env sample_tx 7 = Inr \<lparr>nv_transfers = [\<lparr>nt_chain = KindSolana, nt_signature = ''s'',
     nt_event_index = 0, nt_from_address = replicate 32 CHR ''a'', nt_to_address = replicate 32 CHR ''b'', nt_asset_kind = NativeAsset,
     nt_mint = [], nt_raw_amount = ''5'', nt_amount = lamports_to_sol rat_num 5, nt_slot = None, nt_block_time = None,
     nt_observed_at = 7, nt_source = ''helius'', nt_commitment = CommitConfirmed\<rparr>], nv_trades = [], nv_mints_created = [],
     nv_token_accounts_created = []\<rparr>"
  by (simp add: solana_ingest_transaction_def normalize_helius_transaction_def sample_tx_def helius_head_def sample_env_def
      native_transfer_def validate_solana_address_def helius_transfer_def as_i32_def swap_trades_def Let_def show_five
      enumerate_eq_zip)

lemma sample_raw: "raw_signature sample_tx = Some ''s''"
  by (simp add: raw_signature_def sample_tx_def)

lemma sample_webhook_run:
  "fst (sample_webhook empty_sync) = Inr \<lparr>raw_new = 1, transfers_new = 1, trades_new = 0, malformed = 0\<rparr> \<and>
   length (sy_transfers (snd (sample_webhook empty_sync))) = 1"
  by (simp add: sample_webhook_def ingest_webhook_def ingest_transaction_def sample_adapter run_db_def db_simps no_counts_def
      add_counts_def store_raw_event_def sample_raw insert_new_def empty_sync_def upsert_wallets_for_transfer_def Let_def
      on_radar_upsert store_transfer_def db_is_ok_def db_bind_def db_stmt_def)

theorem ingestion_is_raw_first_witness:
  "sync_ok (snd (sample_webhook empty_sync)) \<and> sync_grows empty_sync (snd (sample_webhook empty_sync)) \<and>
   length (sy_transfers (snd (sample_webhook empty_sync))) = 1"
  using ingestion_is_raw_first [OF empty_sync_ok, of _ "[sample_tx]" "''helius_webhook''" 7 rat_num sample_env "\<lambda>_. False"
      "fst (sample_webhook empty_sync)" "snd (sample_webhook empty_sync)"] sample_webhook_run
  unfolding sample_webhook_def by (metis prod.collapse)

definition webhook_counted :: "(json \<Rightarrow> chain_error + 'd NormalizedEvents) \<Rightarrow> json list \<Rightarrow> IngestCounts \<Rightarrow> bool" where
  "webhook_counted f payload c \<longleftrightarrow>
     transfers_new c = sum_list (map (\<lambda>raw. transfer_count (f raw)) payload) \<and>
     trades_new c = sum_list (map (\<lambda>raw. trade_count (f raw)) payload) \<and>
     malformed c = length (filter (\<lambda>raw. isl (f raw)) payload)"

lemma webhook_done:
  "db_done (\<lambda>_. True) (webhook_loop stored payload source t (solana_ingest_transaction D E) counts)
     (\<lambda>c db. list_all (\<lambda>raw. delivered (solana_ingest_transaction D E) ''solana'' source raw db) payload \<and>
        transfers_new c = transfers_new counts + sum_list (map (\<lambda>raw. transfer_count (solana_ingest_transaction D E raw t)) payload) \<and>
        trades_new c = trades_new counts + sum_list (map (\<lambda>raw. trade_count (solana_ingest_transaction D E raw t)) payload) \<and>
        malformed c = malformed counts + length (filter (\<lambda>raw. isl (solana_ingest_transaction D E raw t)) payload))"
proof (induction payload arbitrary: counts)
  case Nil
  show ?case by (simp add: db_done_return)
next
  case (Cons raw payload)
  let ?A = "solana_ingest_transaction D E"
  let ?I = "\<lambda>single db. delivered ?A ''solana'' source raw db \<and> transfers_new single = transfer_count (?A raw t) \<and>
    trades_new single = trade_count (?A raw t) \<and> malformed single = (if isl (?A raw t) then 1 else 0)"
  have first: "db_done (\<lambda>_. True) (ingest_transaction stored KindSolana source raw t ?A) ?I"
    using solana.transaction_done [of stored source raw t D E] by simp
  have rest: "db_done (\<lambda>db. True \<and> ?I single db) (webhook_loop stored payload source t ?A (add_counts counts single))
     (\<lambda>c db. (list_all (\<lambda>raw. delivered ?A ''solana'' source raw db) payload \<and>
        transfers_new c = transfers_new (add_counts counts single) + sum_list (map (\<lambda>raw. transfer_count (?A raw t)) payload) \<and>
        trades_new c = trades_new (add_counts counts single) + sum_list (map (\<lambda>raw. trade_count (?A raw t)) payload) \<and>
        malformed c = malformed (add_counts counts single) + length (filter (\<lambda>raw. isl (?A raw t)) payload)) \<and> ?I single db)" for single
    by (rule grow.done_keeps [OF Cons.IH moves_webhook]) (auto intro: delivered_mono)
  show ?case
    unfolding webhook_loop.simps
    by (rule db_done_bind [OF first], rule db_done_weaken [OF rest]) (auto simp: add_counts_def)
qed


section \<open>The history of a wallet under its policy\<close>

lemma page_loop_panics:
  "n \<noteq> 0 \<Longrightarrow> page_loop W clock stored adapter address n k (Some b) out fault (i, db) = (Inl (TxAbort SyncPanic), i, db)"
  by (cases n) (simp_all add: db_bind_def fetch_page_def history_cursor_panics)

text \<open>How a sync that the policy allows can end, seen from its first page.\<close>

definition sync_ends :: "nat \<Rightarrow> sync_error tx_error + WalletSyncOutcome \<Rightarrow> bool" where
  "sync_ends max_pages r \<longleftrightarrow>
     (case r of
        Inl e \<Rightarrow> e = TxAbort SyncPanic \<longrightarrow> 2 \<le> max_pages
      | Inr out \<Rightarrow> pages_fetched out \<le> min 1 max_pages \<and> \<not> skipped_by_policy out \<and>
          (\<not> completed out \<longrightarrow> max_pages \<le> 1))"

abbreviation only_faults :: "('s, 'e, 'a) db \<Rightarrow> bool" where
  "only_faults m \<equiv> db_spec (\<lambda>_. True) m (\<lambda>_ _. True) (\<lambda>e _. e = TxFault)"

lemma only_faults_bind: "only_faults m \<Longrightarrow> (\<And>x. only_faults (k x)) \<Longrightarrow> only_faults (db_bind m k)"
  by (rule db_spec_bind)

lemma only_faults_stmt: "only_faults (db_stmt g)"
  by (simp add: db_spec_stmt)

lemma only_faults_return: "only_faults (db_return x)"
  by (simp add: db_spec_return)

lemma only_faults_is_ok: "only_faults (db_is_ok m)"
  by (rule db_specI) (auto simp: db_is_ok_def split: prod.splits)

lemmas only_faults_rules = only_faults_bind only_faults_stmt only_faults_return only_faults_is_ok

lemma only_faults_transfers: "only_faults (sync_transfers stored source ts n)"
  by (induction ts arbitrary: n)
    (simp_all add: only_faults_return upsert_wallets_for_transfer_def on_radar_upsert Let_def only_faults_rules)

lemma only_faults_trades: "only_faults (sync_trades c t0 source ts n)"
  by (induction ts arbitrary: n) (simp_all add: only_faults_return on_radar_upsert only_faults_rules)

lemma only_faults_transaction: "only_faults (ingest_transaction stored chain source raw t adapter)"
  unfolding ingest_transaction_def Let_def
  by (intro only_faults_bind; (split option.split)?; (split sum.split)?)
    (auto intro!: only_faults_rules only_faults_transfers only_faults_trades simp: store_raw_event_def)

lemma webhook_no_panic:
  assumes "webhook_loop stored payload source t adapter counts fault (i, s) = (Inl e, j, s')"
  shows "e = TxFault"
proof -
  have "only_faults (webhook_loop stored payload source t adapter counts)"
    by (induction payload arbitrary: counts) (simp_all add: only_faults_return only_faults_bind only_faults_transaction)
  from db_specD [OF this TrueI assms] show ?thesis by simp
qed

lemma page_loop_ends:
  assumes "page_loop W clock stored adapter address n 0 None no_outcome fault (i, db) = (r, j, db')"
  shows "sync_ends n r"
proof (cases n)
  case 0
  then show ?thesis using assms by (auto simp: sync_ends_def no_outcome_def db_return_def)
next
  case (Suc m)
  obtain r1 i1 s1 where f: "fetch_page (W 0) address None fault (i, db) = (r1, i1, s1)"
    using prod_cases3 by blast
  show ?thesis
  proof (cases r1)
    case (Inl e)
    then have "e \<noteq> TxAbort SyncPanic" "r = Inl e"
      using f assms Suc by (auto simp: fetch_page_def get_transactions_for_address_def address_params_def Let_def db_bind_def
          split: option.splits prod.splits sum.splits)
    then show ?thesis by (simp add: sync_ends_def)
  next
    case (Inr page)
    let ?xs = "case as_array page of Some xs \<Rightarrow> xs | None \<Rightarrow> []"
    obtain r2 i2 s2 where w: "ingest_webhook stored ?xs ''helius_history'' (clock 0) adapter fault (i1, s1) = (r2, i2, s2)"
      using prod_cases3 by blast
    note run = assms [unfolded Suc page_loop.simps db_bind_def f Inr prod.case sum.case Let_def]
    show ?thesis
    proof (cases "?xs = []")
      case True
      then show ?thesis using run Suc by (auto simp: sync_ends_def no_outcome_def db_return_def)
    next
      case False
      show ?thesis
      proof (cases r2)
        case (Inl e)
        then have "e = TxFault" "r = Inl e"
          using w run False webhook_no_panic by (auto simp: ingest_webhook_def)
        then show ?thesis by (simp add: sync_ends_def)
      next
        case (Inr counts)
        then show ?thesis
          using run False w Suc
          by (cases "page_cursor ?xs"; cases m)
            (auto simp: sync_ends_def no_outcome_def db_return_def page_loop_panics simp del: page_loop.simps(2) split: if_splits)
      qed
    qed
  qed
qed

lemma moves_pages: "db_moves sync_grows (page_loop W clock stored adapter address n k before out)"
proof (induction n arbitrary: k before out)
  case 0
  show ?case by (simp add: grow.moves_return)
next
  case (Suc n)
  have "db_moves sync_grows (fetch_page (W k) address before)"
    by (auto simp: db_moves_def fetch_page_def sync_grows_def split: option.splits prod.splits)
  then show ?case
    by (auto simp: Let_def ingest_webhook_def intro!: grow.moves_intros moves_webhook Suc.IH split: if_splits)
qed


definition skip_sample :: "rat sync_db" where
  "skip_sample = empty_sync\<lparr>sy_labels := [block_row 1 ''solana'' ''W'' ''rug'']\<rparr>"

definition silent_world :: helius_world where
  "silent_world = \<lparr>hw_pick = (\<lambda>_ _. 0), hw_pick2 = (\<lambda>_ _. 0), hw_done = (\<lambda>_. 0), hw_utc = (\<lambda>_. 0), hw_uuid = (\<lambda>_. []),
     hw_send = (\<lambda>_ _ _. SendError [])\<rparr>"

lemma skip_name: "disposition_parse ''skip'' = Some DispSkip"
  by code_simp

lemma skip_sample_policy: "effective_disposition 0 1 KindSolana ''W'' (label_view skip_sample) = Inr DispSkip"
  by (simp add: effective_disposition_def active_disposition_def best_disposition_def label_view_def skip_sample_def
      empty_sync_def block_row_def label_active_def restrictiveness_rank_def skip_name prefer_step_def)


section \<open>The block poll\<close>

definition blind :: "'d sync_db \<Rightarrow> 'd sync_db \<Rightarrow> bool" where
  "blind a b \<longleftrightarrow> tables b = tables a \<and> rb_cases (sy_radar b) = rb_cases (sy_radar a) \<and> rb_events (sy_radar b) = rb_events (sy_radar a)"

definition radar_only :: "'d sync_db \<Rightarrow> 'd sync_db \<Rightarrow> bool" where
  "radar_only a b \<longleftrightarrow> blind a b \<and> sy_cursors b = sy_cursors a"

definition cases_kept :: "'d radar_db \<Rightarrow> 'd radar_db \<Rightarrow> bool" where
  "cases_kept a b \<longleftrightarrow> rb_cases b = rb_cases a \<and> rb_events b = rb_events a"

interpretation blind: state_order blind
  by unfold_locales (auto simp: blind_def)

interpretation radar_only: state_order radar_only
  by unfold_locales (auto simp: radar_only_def blind_def)

interpretation cases_kept: state_order cases_kept
  by unfold_locales (auto simp: cases_kept_def)

lemma unqualified_keeps_cases:
  assumes "\<not> qualifies_as_large_funding D e cfg pt"
  shows "db_moves cases_kept (ingest_funding_event D dj clock fresh w e cfg pt)"
  unfolding ingest_funding_event_def store_funding_observation_def fetch_case_def using assms
  by (auto intro!: cases_kept.moves_bind cases_kept.moves_stmt simp: cases_kept_def)

lemma no_price_never_large: "\<not> qualifies_as_large_funding D (transfer_to_funding_event D E t None age kind\<lparr>fv_commitment := c\<rparr>) cfg None"
  by (simp add: qualifies_as_large_funding_def transfer_to_funding_event_def Let_def split: AssetKind.splits)

lemma poll_transfer_moves: "db_moves radar_only (ingest_funding_transfer D E dj clock fresh w t None cfg None)"
  unfolding ingest_funding_transfer_def wallet_age_seconds_def on_radar_def Let_def
  by (intro radar_only.moves_bind radar_only.moves_stmt moves_zoom [OF unqualified_keeps_cases [OF no_price_never_large]])
    (auto simp: radar_only_def blind_def cases_kept_def tables_def)

lemma poll_transfers_moves: "db_moves radar_only (poll_transfers D E dj W w cfg b k ts)"
  by (induction ts arbitrary: k) (auto intro!: radar_only.moves_intros poll_transfer_moves)

lemma poll_transfers_total: "db_spec P (poll_transfers D E dj W w cfg b k ts) (\<lambda>_ _. True) (\<lambda>_ _. False)"
proof (induction ts arbitrary: k P)
  case (Cons t ts)
  show ?case
    unfolding poll_transfers.simps by (rule db_spec_bind [OF db_spec_is_ok_any Cons.IH])
qed (simp add: db_spec_return)

lemma poll_transfers_done: "db_done (\<lambda>_. True) (poll_transfers D E dj W w cfg b k ts) (\<lambda>_ _. True)"
proof (induction ts arbitrary: k)
  case (Cons t ts)
  show ?case
    unfolding poll_transfers.simps by (rule db_done_bind [OF db_done_is_ok_any Cons.IH])
qed (simp add: db_done_return)

definition cursor_text :: "'d sync_db \<Rightarrow> string option" where
  "cursor_text db = Option.bind (sy_cursors db (''robinhood'', ''funding'')) cr_cursor"

lemma set_cursor_done:
  "db_done P (db_is_ok (set_sync_cursor clock ''robinhood'' ''funding'' c err)) (\<lambda>_ db. cursor_text db = Some c)"
proof -
  have "db_done P (set_sync_cursor clock ''robinhood'' ''funding'' c err) (\<lambda>_ db. cursor_text db = Some c)"
    unfolding set_sync_cursor_def by (rule db_done_stmt) (simp add: cursor_text_def)
  then show ?thesis
    by (rule db_done_weaken [OF db_done_is_ok]) simp_all
qed

lemma poll_blocks_done:
  "db_done (\<lambda>db. cursor_text db = c) (poll_blocks D E dj W w cfg bs)
     (\<lambda>log db. cursor_text db = (if log = [] then c else Some (show_nat (fst (last log)))))"
proof (induction bs arbitrary: c)
  case Nil
  show ?case by (simp add: db_done_return)
next
  case (Cons b bs)
  have any: "db_done (\<lambda>db. cursor_text db = c) (poll_transfers D E dj W w cfg b 0 ts) (\<lambda>_ _. True)" for ts
    by (rule db_done_weaken [OF poll_transfers_done]) auto
  have rest: "db_done (\<lambda>db. cursor_text db = Some (show_nat b))
      (db_bind (poll_blocks D E dj W w cfg bs) (\<lambda>more. db_return ((b, True) # more)))
      (\<lambda>log db. cursor_text db = (if log = [] then c else Some (show_nat (fst (last log)))))"
    by (rule db_done_bind [OF Cons.IH], rule db_done_return) (simp only: list.simps if_False last.simps fst_conv split: if_split, simp)
  show ?case
  proof (cases "fetch_block_events D E (pw_rpc W) b (pw_observed_at W b)")
    case (Inl e)
    show ?thesis
      unfolding poll_blocks.simps Inl sum.case
      by (rule db_done_bind [OF set_cursor_done], rule db_done_return) simp
  next
    case (Inr ev)
    show ?thesis
      unfolding poll_blocks.simps Inr sum.case
      by (rule db_done_bind [OF any], rule db_done_bind [OF set_cursor_done], rule rest)
  qed
qed

lemma poll_blocks_log:
  "db_spec (\<lambda>_. True) (poll_blocks D E dj W w cfg bs)
     (\<lambda>log _. map fst log = take (length log) bs \<and> list_all snd (butlast log)) (\<lambda>_ _. False)"
proof (induction bs)
  case Nil
  show ?case by (simp add: db_spec_return)
next
  case (Cons b bs)
  have rest: "db_spec (\<lambda>_. True) (db_bind (poll_blocks D E dj W w cfg bs) (\<lambda>more. db_return ((b, True) # more)))
      (\<lambda>log _. map fst log = take (length log) (b # bs) \<and> list_all snd (butlast log)) (\<lambda>_ _. False)"
    by (rule db_spec_bind [OF Cons.IH], rule db_spec_return) simp
  show ?case
    by (cases "fetch_block_events D E (pw_rpc W) b (pw_observed_at W b)")
      (auto intro!: db_spec_bind [OF db_spec_is_ok_any] db_spec_bind [OF poll_transfers_total] db_spec_return rest)
qed

lemma poll_blocks_moves: "db_moves blind (poll_blocks D E dj W w cfg bs)"
proof (induction bs)
  case Nil
  show ?case by (simp add: blind.moves_return)
next
  case (Cons b bs)
  have "db_moves blind (poll_transfers D E dj W w cfg b 0 ts)" for ts
    using poll_transfers_moves [of D E dj W w cfg b 0 ts] by (simp add: db_moves_def radar_only_def)
  moreover have "db_moves blind (set_sync_cursor clock c k x err)" for clock c k x err
    unfolding set_sync_cursor_def by (rule blind.moves_stmt) (simp add: blind_def tables_def)
  ultimately show ?case
    using Cons.IH by (auto intro!: blind.moves_intros split: sum.split)
qed

lemma block_range_plain:
  assumes "cursor + 100 < 2 ^ 64"
  shows "block_range cursor current = [cursor + 1 ..< Suc (min current (cursor + 100))]"
  using assms by (simp add: block_range_def u64_add_def)

lemma read_cursor_show: "n < 2 ^ 64 \<Longrightarrow> read_cursor (Some (show_nat n)) = n"
proof -
  assume "n < 2 ^ 64"
  moreover have "hd (show_nat n) \<noteq> CHR ''+''"
    using show_nat_digit [of n] show_nat_nonempty [of n] digit_not_plus by (cases "show_nat n") auto
  ultimately show "read_cursor (Some (show_nat n)) = n"
    using show_nat_digit [of n] show_nat_nonempty [of n] by (simp add: read_cursor_def parse_u64_def u64_max_def Let_def)
qed

text \<open>The part of a round after the gate and the node's block number.\<close>

definition poll_from where
  "poll_from D E dj W w cfg current =
     db_bind (db_unwrap_or None (get_sync_cursor ''robinhood'' ''funding'')) (\<lambda>c.
     poll_blocks D E dj W w cfg (block_range (read_cursor c) current))"

lemma poll_from_run:
  "poll_from D E dj W w cfg current fault (i, db) =
     poll_blocks D E dj W w cfg (block_range (if fault i then 0 else read_cursor (cursor_text db)) current) fault (i + 1, db)"
  by (simp add: poll_from_def db_bind_def db_unwrap_or_def get_sync_cursor_def db_stmt_def cursor_text_def read_cursor_def)

lemma queue_allowed_run:
  "\<exists>b j. queue_allowed st q fault (i, db) = (Inr b, j, db)"
  by (auto simp: queue_allowed_def queue_allowed_checked_def db_unwrap_or_def db_return_def db_stmt_def)

definition round_ok :: "faults \<Rightarrow> 'd sync_db \<Rightarrow> (nat \<times> bool) list \<Rightarrow> 'd sync_db \<Rightarrow> bool" where
  "round_ok fault db asked db' \<longleftrightarrow>
     length asked \<le> 100 \<and> list_all snd (butlast asked) \<and>
     (\<exists>c current. (c = read_cursor (cursor_text db) \<or> c = 0 \<and> (\<exists>n. fault n)) \<and>
        map fst asked = take (length asked) [c + 1 ..< Suc (min current (c + 100))]) \<and>
     blind db db' \<and>
     ((\<forall>n. \<not> fault n) \<longrightarrow>
        read_cursor (cursor_text db') = (if asked = [] then read_cursor (cursor_text db) else fst (last asked)))"

lemma poll_blocks_round:
  assumes run: "poll_blocks D E dj W w cfg (block_range c current) fault (i, db) = (r, j, db')"
    and c: "c = read_cursor (cursor_text db) \<or> c = 0 \<and> (\<exists>n. fault n)" "c + 100 < 2 ^ 64"
  shows "\<exists>asked. r = Inr asked \<and> round_ok fault db asked db'"
proof -
  obtain asked where asked: "r = Inr asked" "map fst asked = take (length asked) (block_range c current)" "list_all snd (butlast asked)"
    using db_specD [OF poll_blocks_log TrueI run] by (auto split: sum.splits)
  note range = block_range_plain [OF c(2), of current]
  have len: "length asked \<le> length (block_range c current)"
    using asked(2) by (metis length_map length_take min.cobounded1)
  have small: "fst (last asked) < 2 ^ 64" if "asked \<noteq> []"
  proof -
    have "fst (last asked) \<in> set (take (length asked) (block_range c current))"
      using that unfolding asked(2) [symmetric] by simp
    then have "fst (last asked) \<in> set (block_range c current)"
      by (rule in_set_takeD)
    then show ?thesis
      using c(2) by (auto simp: range)
  qed
  have cursor: "read_cursor (cursor_text db') = (if asked = [] then read_cursor (cursor_text db) else fst (last asked))"
    if "\<forall>n. \<not> fault n"
  proof -
    have "fault = (\<lambda>_. False)"
      using that by blast
    then have "cursor_text db' = (if asked = [] then cursor_text db else Some (show_nat (fst (last asked))))"
      using poll_blocks_done [of "cursor_text db" D E dj W w cfg "block_range c current", unfolded db_done_def, rule_format, of db i] run asked(1)
      by auto
    then show ?thesis
      using small read_cursor_show by auto
  qed
  have "blind db db'"
    using poll_blocks_moves [of D E dj W w cfg "block_range c current"] run unfolding db_moves_def by (metis snd_conv)
  moreover have "length asked \<le> 100"
    using len by (simp add: range split: if_splits)
  ultimately show ?thesis
    using asked cursor c(1) unfolding round_ok_def range by blast
qed

text \<open>C24: The block poll goes forward in order and never opens a case. A round never fails. It asks for at most a hundred
  consecutive blocks after a cursor, stopping after the first block that cannot be fetched; the cursor is the stored one, or 0 when it
  could not be read, which starts the chain over. When no statement fails the stored cursor ends at the last block asked for, the one that could
  not be fetched included, so no later round asks for it again. Because the poll hands the radar neither a price nor a threshold, no
  transfer of any block qualifies: the radar's cases and evidence, and the tables of transfers, trades, edges and raw
  events, are as before.\<close>

theorem block_poll_is_ordered_and_blind:
  assumes "read_cursor (cursor_text db) + 100 < 2 ^ 64"
    and "run_db (robinhood_round D E dj W st w cfg) fault db = (r, db')"
  shows "\<exists>asked. r = Inr asked \<and> round_ok fault db asked db'"
proof -
  obtain b j where q: "queue_allowed st QUEUE_FUNDING_RADAR fault (0, db) = (Inr b, j, db)"
    using queue_allowed_run by blast
  have idle: "round_ok fault db [] db"
    by (auto simp: round_ok_def blind.order_refl)
  obtain j' where run: "robinhood_round D E dj W st w cfg fault (0, db) = (r, j', db')"
    using assms(2) by (auto simp: run_db_def split: prod.splits)
  show ?thesis
  proof (cases b)
    case False
    then show ?thesis
      using run q idle by (auto simp: robinhood_round_def db_bind_def db_return_def)
  next
    case True
    show ?thesis
    proof (cases "current_block (pw_rpc W)")
      case (Inl e)
      then show ?thesis
        using run q idle True by (auto simp: robinhood_round_def db_bind_def db_return_def)
    next
      case (Inr current)
      have "poll_from D E dj W w cfg current fault (j, db) = (r, j', db')"
        using run q True Inr by (simp add: robinhood_round_def poll_from_def db_bind_def)
      then show ?thesis
        unfolding poll_from_run by (rule poll_blocks_round) (use assms(1) in auto)
    qed
  qed
qed

definition sample_poll :: poll_world where
  "sample_poll = \<lparr>pw_rpc = (\<lambda>m p. if m = ''eth_blockNumber'' then Inr (JString (show_hex 1)) else Inl NonObjectBlock),
     pw_observed_at = (\<lambda>_. 0), pw_clock = (\<lambda>_. 0), pw_ids = (\<lambda>_ _. 0), pw_error = (\<lambda>_. ''no block'')\<rparr>"

definition sample_round :: "(sync_error tx_error + (nat \<times> bool) list) \<times> rat sync_db" where
  "sample_round = run_db (robinhood_round rat_num sample_env (\<lambda>_. JNull) sample_poll new_queue_state 1 default_radar_config) (\<lambda>_. False) empty_sync"

lemma sample_round_blocks: "block_range 0 (Suc 0) = [Suc 0]"
  by (simp add: block_range_def u64_add_def)

lemma sample_round_run: "fst sample_round = Inr [(1, False)]"
  unfolding sample_round_def run_db_def robinhood_round_def
  by (simp add: db_bind_def queue_allowed_def queue_allowed_checked_def db_unwrap_or_def db_stmt_def new_queue_state_def is_paused_def
      empty_sync_def current_block_def sample_poll_def parse_show_hex get_sync_cursor_def read_cursor_def sample_round_blocks
      fetch_block_events_def db_is_ok_def set_sync_cursor_def db_return_def)

theorem block_poll_is_ordered_and_blind_witness:
  "fst sample_round = Inr [(1, False)] \<and> round_ok (\<lambda>_. False) empty_sync [(1, False)] (snd sample_round)"
proof -
  have c: "read_cursor (cursor_text empty_sync) + 100 < 2 ^ 64"
    by (simp add: cursor_text_def empty_sync_def read_cursor_def)
  show ?thesis
    using block_poll_is_ordered_and_blind [OF c, of rat_num sample_env "\<lambda>_. JNull" sample_poll new_queue_state 1 default_radar_config
        "\<lambda>_. False" "fst sample_round" "snd sample_round"] sample_round_run
    by (auto simp: sample_round_def)
qed

text \<open>The counts do not tell a new row from a known one: the second delivery of the sample counts its transfer as new again.\<close>

lemma redelivery_counts_as_new:
  "webhook_counted f payload c \<Longrightarrow> webhook_counted f payload c' \<Longrightarrow> transfers_new c' = transfers_new c"
  by (simp add: webhook_counted_def)

end
