(* ===== verification/Sessions.thy ===== *)
theory Sessions
  imports Transactions Models
begin

text \<open>
  Administration sessions (\<open>auth.rs\<close>) and the pages and guards of \<open>admin.rs\<close> and \<open>api.rs\<close> that rest on
  them. A request sees one time. The digest of a token, the password check, the decoder and the environment
  variables are fields of a record that the definitions take as an argument; a fresh token is an argument of the login.
\<close>

record auth_env =
  ae_token_hash :: "string \<Rightarrow> string"
  ae_bcrypt_verify :: "string \<Rightarrow> string \<Rightarrow> bool option"
  ae_b64_utf8 :: "string \<Rightarrow> string option"
  ae_var :: "string \<Rightarrow> string option"

definition SESSION_COOKIE :: string where "SESSION_COOKIE = ''swi_session''"
definition SESSION_TTL_HOURS :: int where "SESSION_TTL_HOURS = 24"
definition MAX_FAILURES :: nat where "MAX_FAILURES = 5"
definition WINDOW_MINUTES :: int where "WINDOW_MINUTES = 15"

section \<open>Tables\<close>

record session_row =
  ss_token_hash :: string
  ss_created_at :: int
  ss_expires_at :: int
  ss_last_seen_at :: "int option"
  ss_ip :: "string option"
  ss_user_agent :: "string option"
  ss_workspace :: "int option"

record attempt_row =
  lt_key :: string
  lt_attempted_at :: int
  lt_success :: bool
  lt_ip :: "string option"
  lt_user_agent :: "string option"

record workspace_row =
  wk_id :: int
  wk_slug :: string
  wk_status :: string

record auth_db =
  au_sessions :: "session_row list"
  au_attempts :: "attempt_row list"
  au_workspaces :: "workspace_row list"

datatype auth_error = DuplicateSession | Status nat | Panicked

section \<open>Passwords and the workspace of a session\<close>

definition verify_password :: "auth_env \<Rightarrow> string \<Rightarrow> string \<Rightarrow> bool" where
  "verify_password E password hash = (case ae_bcrypt_verify E password hash of Some b \<Rightarrow> b | None \<Rightarrow> False)"

definition password_hash :: "auth_env \<Rightarrow> string option" where
  "password_hash E =
     (case (case ae_var E ''ADMIN_PASSWORD_HASH_B64'' of
              None \<Rightarrow> None
            | Some b64 \<Rightarrow> if trim b64 = [] then None else ae_b64_utf8 E (trim b64)) of
        Some hash \<Rightarrow> Some hash
      | None \<Rightarrow> (case ae_var E ''ADMIN_PASSWORD_HASH'' of
                   None \<Rightarrow> None
                 | Some v \<Rightarrow> if trim v = [] then None else Some v))"

definition auth_configured :: "auth_env \<Rightarrow> bool" where
  "auth_configured E \<longleftrightarrow> password_hash E \<noteq> None"

definition select_workspace :: "int option \<Rightarrow> int list \<Rightarrow> int option" where
  "select_workspace default_id active_ids =
     (case default_id of
        Some i \<Rightarrow> Some i
      | None \<Rightarrow> (case active_ids of [only] \<Rightarrow> Some only | _ \<Rightarrow> None))"

definition default_workspace :: "workspace_row list \<Rightarrow> int option" where
  "default_workspace rows = map_option wk_id (find (\<lambda>w. wk_status w = ''active'' \<and> wk_slug w = ''default'') rows)"

definition two_active :: "workspace_row list \<Rightarrow> int list" where
  "two_active rows = take 2 (sort (map wk_id (filter (\<lambda>w. wk_status w = ''active'') rows)))"

definition workspace_for_new_session :: "(auth_db, auth_error, int option) tx" where
  "workspace_for_new_session =
     tx_bind (tx_stmt (\<lambda>db. (default_workspace (au_workspaces db), db))) (\<lambda>default_id.
     tx_bind (tx_stmt (\<lambda>db. (two_active (au_workspaces db), db))) (\<lambda>active_ids.
     tx_return (select_workspace default_id active_ids)))"

section \<open>Attempts\<close>

definition rate_limit_key :: "string option \<Rightarrow> string" where
  "rate_limit_key ip =
     (case ip of
        Some a \<Rightarrow> if trim a \<noteq> [] then ''ip:'' @ trim a else ''global''
      | None \<Rightarrow> ''global'')"

definition threshold_reached :: "nat \<Rightarrow> bool" where
  "threshold_reached failures \<longleftrightarrow> MAX_FAILURES \<le> failures"

definition recent_failure :: "int \<Rightarrow> string \<Rightarrow> attempt_row \<Rightarrow> bool" where
  "recent_failure now key a \<longleftrightarrow> lt_key a = key \<and> \<not> lt_success a \<and> now - WINDOW_MINUTES * 60 < lt_attempted_at a"

definition is_rate_limited :: "int \<Rightarrow> string \<Rightarrow> (auth_db, auth_error, bool) db" where
  "is_rate_limited now key = db_stmt (\<lambda>db.
     (threshold_reached (as_u32 (length (filter (recent_failure now key) (au_attempts db)))), db))"

definition record_attempt_in :: "int \<Rightarrow> string \<Rightarrow> bool \<Rightarrow> string option \<Rightarrow> string option \<Rightarrow> (auth_db, auth_error, unit) tx" where
  "record_attempt_in now key success ip user_agent = tx_stmt (\<lambda>db.
     ((), db\<lparr>au_attempts := au_attempts db @
       [\<lparr>lt_key = key, lt_attempted_at = now, lt_success = success, lt_ip = ip, lt_user_agent = user_agent\<rparr>]\<rparr>))"

definition record_attempt :: "int \<Rightarrow> string \<Rightarrow> bool \<Rightarrow> string option \<Rightarrow> string option \<Rightarrow> (auth_db, auth_error, unit) db" where
  "record_attempt now key success ip user_agent = db_tx (record_attempt_in now key success ip user_agent)"

definition clear_attempts_in :: "string \<Rightarrow> (auth_db, auth_error, unit) tx" where
  "clear_attempts_in key = tx_stmt (\<lambda>db.
     ((), db\<lparr>au_attempts := filter (\<lambda>a. \<not> (lt_key a = key \<and> \<not> lt_success a)) (au_attempts db)\<rparr>))"

definition clear_attempts :: "string \<Rightarrow> (auth_db, auth_error, unit) db" where
  "clear_attempts key = db_tx (clear_attempts_in key)"

definition prune_attempts :: "int \<Rightarrow> (auth_db, auth_error, nat) db" where
  "prune_attempts now = db_stmt (\<lambda>db.
     (length (filter (\<lambda>a. lt_attempted_at a < now - 24 * 3600) (au_attempts db)),
      db\<lparr>au_attempts := filter (\<lambda>a. \<not> lt_attempted_at a < now - 24 * 3600) (au_attempts db)\<rparr>))"

section \<open>Sessions\<close>

text \<open>The hash is the primary key.\<close>

definition insert_session :: "session_row \<Rightarrow> (auth_db, auth_error, unit) tx" where
  "insert_session row =
     tx_bind (tx_stmt (\<lambda>db. if ss_token_hash row \<in> ss_token_hash ` set (au_sessions db) then (False, db)
                            else (True, db\<lparr>au_sessions := au_sessions db @ [row]\<rparr>))) (\<lambda>ok.
     if ok then tx_return () else tx_abort DuplicateSession)"

definition create_session_in :: "auth_env \<Rightarrow> int \<Rightarrow> string \<Rightarrow> string option \<Rightarrow> string option \<Rightarrow> (auth_db, auth_error, string) tx" where
  "create_session_in E now token ip user_agent =
     tx_bind workspace_for_new_session (\<lambda>workspace_id.
     tx_bind (insert_session \<lparr>ss_token_hash = ae_token_hash E token, ss_created_at = now,
         ss_expires_at = now + SESSION_TTL_HOURS * 3600, ss_last_seen_at = None, ss_ip = ip, ss_user_agent = user_agent,
         ss_workspace = workspace_id\<rparr>) (\<lambda>_.
     tx_return token))"

definition create_session :: "auth_env \<Rightarrow> int \<Rightarrow> string \<Rightarrow> string option \<Rightarrow> string option \<Rightarrow> (auth_db, auth_error, string) db" where
  "create_session E now token ip user_agent = db_tx (create_session_in E now token ip user_agent)"

definition establish_session :: "auth_env \<Rightarrow> int \<Rightarrow> string \<Rightarrow> string \<Rightarrow> string option \<Rightarrow> string option \<Rightarrow> (auth_db, auth_error, string) db" where
  "establish_session E now token key ip user_agent = db_tx
     (tx_bind (record_attempt_in now key True ip user_agent) (\<lambda>_.
      tx_bind (clear_attempts_in key) (\<lambda>_.
      create_session_in E now token ip user_agent)))"

definition live_session :: "auth_env \<Rightarrow> int \<Rightarrow> string \<Rightarrow> session_row \<Rightarrow> bool" where
  "live_session E now token r \<longleftrightarrow> ss_token_hash r = ae_token_hash E token \<and> now < ss_expires_at r"

definition validate_session :: "auth_env \<Rightarrow> int \<Rightarrow> string \<Rightarrow> (auth_db, auth_error, bool) db" where
  "validate_session E now token =
     (if token = [] then db_return False
      else db_stmt (\<lambda>db. (list_ex (live_session E now token) (au_sessions db),
        db\<lparr>au_sessions := map (\<lambda>r. if live_session E now token r then r\<lparr>ss_last_seen_at := Some now\<rparr> else r) (au_sessions db)\<rparr>)))"

definition workspace_for_session :: "auth_env \<Rightarrow> int \<Rightarrow> string \<Rightarrow> (auth_db, auth_error, int option) db" where
  "workspace_for_session E now token =
     (if token = [] then db_return None
      else db_stmt (\<lambda>db.
        (Option.bind (find (\<lambda>r. live_session E now token r \<and> ss_workspace r \<noteq> None) (au_sessions db)) ss_workspace, db)))"

definition destroy_session :: "auth_env \<Rightarrow> string \<Rightarrow> (auth_db, auth_error, unit) db" where
  "destroy_session E token = db_stmt (\<lambda>db.
     ((), db\<lparr>au_sessions := filter (\<lambda>r. ss_token_hash r \<noteq> ae_token_hash E token) (au_sessions db)\<rparr>))"

definition prune_sessions :: "int \<Rightarrow> (auth_db, auth_error, nat) db" where
  "prune_sessions now = db_stmt (\<lambda>db.
     (length (filter (\<lambda>r. ss_expires_at r \<le> now) (au_sessions db)),
      db\<lparr>au_sessions := filter (\<lambda>r. \<not> ss_expires_at r \<le> now) (au_sessions db)\<rparr>))"

definition session_cookie_value :: "string \<Rightarrow> string" where
  "session_cookie_value token =
     SESSION_COOKIE @ ''='' @ token @ ''; Path=/; HttpOnly; SameSite=Lax; Max-Age='' @ show_int (SESSION_TTL_HOURS * 3600)"

definition clear_cookie_value :: string where
  "clear_cookie_value = SESSION_COOKIE @ ''=; Path=/; HttpOnly; SameSite=Lax; Max-Age=0''"

section \<open>Requests\<close>

record request_headers =
  rh_cookie :: "string option"
  rh_forwarded_for :: "string option"
  rh_user_agent :: "string option"

text \<open>\<open>str::split\<close> on a character.\<close>

fun split_char :: "char \<Rightarrow> string \<Rightarrow> string list" where
  "split_char c [] = [[]]"
| "split_char c (x # xs) =
     (if x = c then [] # split_char c xs
      else case split_char c xs of [] \<Rightarrow> [[x]] | p # ps \<Rightarrow> (x # p) # ps)"

definition cookie_token :: "string \<Rightarrow> string option" where
  "cookie_token part =
     (let p = trim part; k = takeWhile (\<lambda>x. x \<noteq> CHR ''='') p; r = dropWhile (\<lambda>x. x \<noteq> CHR ''='') p
      in if r \<noteq> [] \<and> k = SESSION_COOKIE then Some (tl r) else None)"

fun find_map :: "('a \<Rightarrow> 'b option) \<Rightarrow> 'a list \<Rightarrow> 'b option" where
  "find_map f [] = None"
| "find_map f (x # xs) = (case f x of Some y \<Rightarrow> Some y | None \<Rightarrow> find_map f xs)"

definition session_token :: "request_headers \<Rightarrow> string option" where
  "session_token h = Option.bind (rh_cookie h) (\<lambda>cookie. find_map cookie_token (split_char (CHR '';'') cookie))"

datatype response = RStatus nat | RText nat string | LoginPage nat "string option" | DashboardPage
  | RRedirect string "string option" | RJson json

text \<open>Errors of a statement are answered with 500.\<close>

definition db_500 :: "('s, auth_error, 'a) db \<Rightarrow> ('s, auth_error, 'a) db" where
  "db_500 m = (\<lambda>fault s. case m fault s of
     (Inl _, s') \<Rightarrow> (Inl (TxAbort (Status 500)), s') | (Inr a, s') \<Rightarrow> (Inr a, s'))"

definition require_auth :: "auth_env \<Rightarrow> int \<Rightarrow> request_headers \<Rightarrow> (auth_db, auth_error, unit) db" where
  "require_auth E now h =
     (if \<not> auth_configured E then db_return ()
      else case session_token h of
        None \<Rightarrow> db_fail (Status 401)
      | Some token \<Rightarrow> db_bind (db_500 (validate_session E now token)) (\<lambda>ok.
          if ok then db_return () else db_fail (Status 401)))"

definition require_write_auth :: "auth_env \<Rightarrow> int \<Rightarrow> request_headers \<Rightarrow> (auth_db, auth_error, unit) db" where
  "require_write_auth E now h =
     (if \<not> auth_configured E then db_fail (Status 403) else require_auth E now h)"

definition require_workspace :: "auth_env \<Rightarrow> int \<Rightarrow> request_headers \<Rightarrow> (auth_db, auth_error, int) db" where
  "require_workspace E now h =
     (case session_token h of
        None \<Rightarrow> db_fail (Status 401)
      | Some token \<Rightarrow> db_bind (db_500 (workspace_for_session E now token)) (\<lambda>w.
          case w of Some i \<Rightarrow> db_return i | None \<Rightarrow> db_fail (Status 401)))"

definition serve_dashboard :: "auth_env \<Rightarrow> int \<Rightarrow> request_headers \<Rightarrow> (auth_db, auth_error, response) db" where
  "serve_dashboard E now h =
     (if auth_configured E
      then db_bind (case session_token h of
                      Some token \<Rightarrow> db_500 (validate_session E now token)
                    | None \<Rightarrow> db_return False) (\<lambda>ok.
           if \<not> ok then db_return (RRedirect ''/login'' None) else db_return DashboardPage)
      else db_return DashboardPage)"

definition login_ip :: "request_headers \<Rightarrow> string" where
  "login_ip h =
     (case rh_forwarded_for h of
        None \<Rightarrow> ''unknown''
      | Some v \<Rightarrow> (case split_char (CHR '','') v of [] \<Rightarrow> ''unknown'' | s # _ \<Rightarrow> trim s))"

definition login_submit :: "auth_env \<Rightarrow> int \<Rightarrow> string \<Rightarrow> request_headers \<Rightarrow> string \<Rightarrow> (auth_db, auth_error, response) db" where
  "login_submit E now fresh h password =
     (if \<not> auth_configured E then db_return (RText 403 ''admin auth not configured'')
      else
        (let ip = login_ip h; ua = rh_user_agent h; key = rate_limit_key (Some ip);
             hash = (case password_hash E of Some x \<Rightarrow> x | None \<Rightarrow> [])
         in db_bind (db_500 (is_rate_limited now key)) (\<lambda>limited.
            if limited then db_return (LoginPage 429 (Some ''terlalu banyak percobaan, coba lagi nanti''))
            else if \<not> verify_password E (trim password) hash then
              db_bind (db_500 (record_attempt now key False (Some ip) ua)) (\<lambda>_.
              db_return (LoginPage 200 (Some ''password salah'')))
            else
              db_bind (db_500 (establish_session E now fresh key (Some ip) ua)) (\<lambda>token.
              db_return (RRedirect ''/'' (Some (session_cookie_value token)))))))"

definition logout :: "auth_env \<Rightarrow> request_headers \<Rightarrow> (auth_db, auth_error, response) db" where
  "logout E h =
     db_bind (case session_token h of
                Some token \<Rightarrow> db_500 (destroy_session E token)
              | None \<Rightarrow> db_return ()) (\<lambda>_.
     db_return (RRedirect ''/login'' (Some clear_cookie_value)))"

text \<open>The fields \<open>configured\<close> and \<open>authenticated\<close>.\<close>

definition auth_status :: "auth_env \<Rightarrow> int \<Rightarrow> request_headers \<Rightarrow> (auth_db, auth_error, bool \<times> bool) db" where
  "auth_status E now h =
     (if auth_configured E
      then db_bind (case session_token h of
                      Some token \<Rightarrow> db_500 (validate_session E now token)
                    | None \<Rightarrow> db_return False) (\<lambda>ok. db_return (True, ok))
      else db_return (False, True))"

section \<open>The login\<close>

lemma db_500_tx:
  assumes "db_500 (db_tx m) fault (i, s) = (r, j, s')"
  shows "(r = Inl (TxAbort (Status 500)) \<and> s' = s) \<or> (\<exists>a k. r = Inr a \<and> m fault (i + 1, s) = Inr (a, k, s'))"
proof -
  obtain r0 j0 s0 where m: "db_tx m fault (i, s) = (r0, j0, s0)"
    using prod_cases3 by blast
  show ?thesis
    using db_tx_cases [OF m] assms m by (auto simp: db_500_def)
qed

definition session_row_of :: "auth_env \<Rightarrow> int \<Rightarrow> string \<Rightarrow> string option \<Rightarrow> string option \<Rightarrow> auth_db \<Rightarrow> session_row" where
  "session_row_of E now token ip ua db =
     \<lparr>ss_token_hash = ae_token_hash E token, ss_created_at = now, ss_expires_at = now + SESSION_TTL_HOURS * 3600,
      ss_last_seen_at = None, ss_ip = ip, ss_user_agent = ua,
      ss_workspace = select_workspace (default_workspace (au_workspaces db)) (two_active (au_workspaces db))\<rparr>"

lemma create_session_run:
  "create_session_in E now token ip ua fault (i, db) = Inr (a, j, db') \<Longrightarrow>
   a = token \<and> ae_token_hash E token \<notin> ss_token_hash ` set (au_sessions db) \<and>
   db' = db\<lparr>au_sessions := au_sessions db @ [session_row_of E now token ip ua db]\<rparr>"
  by (auto simp: create_session_in_def workspace_for_new_session_def insert_session_def session_row_of_def tx_simps
      split: if_splits)

definition failures :: "int \<Rightarrow> string \<Rightarrow> auth_db \<Rightarrow> nat" where
  "failures now key db = length (filter (recent_failure now key) (au_attempts db))"

definition attempt :: "int \<Rightarrow> string \<Rightarrow> bool \<Rightarrow> request_headers \<Rightarrow> attempt_row" where
  "attempt now key success h =
     \<lparr>lt_key = key, lt_attempted_at = now, lt_success = success, lt_ip = Some (login_ip h), lt_user_agent = rh_user_agent h\<rparr>"

definition login_key :: "request_headers \<Rightarrow> string" where
  "login_key h = rate_limit_key (Some (login_ip h))"

definition password_ok :: "auth_env \<Rightarrow> string \<Rightarrow> bool" where
  "password_ok E password \<longleftrightarrow> (\<exists>hash. password_hash E = Some hash \<and> ae_bcrypt_verify E (trim password) hash = Some True)"

definition logged_in :: "auth_env \<Rightarrow> int \<Rightarrow> string \<Rightarrow> request_headers \<Rightarrow> auth_db \<Rightarrow> auth_db" where
  "logged_in E now fresh h db =
     db\<lparr>au_sessions := au_sessions db @ [session_row_of E now fresh (Some (login_ip h)) (rh_user_agent h) db],
        au_attempts := filter (\<lambda>a. \<not> (lt_key a = login_key h \<and> \<not> lt_success a)) (au_attempts db @ [attempt now (login_key h) True h])\<rparr>"

lemma login_runs:
  assumes conf: "auth_configured E" and run: "login_submit E now fresh h pw fault (i, db) = (r, j, db')"
  shows "r = Inl (TxAbort (Status 500)) \<and> db' = db \<or>
    r = Inr (LoginPage 429 (Some ''terlalu banyak percobaan, coba lagi nanti'')) \<and> db' = db \<and>
      threshold_reached (as_u32 (failures now (login_key h) db)) \<or>
    r = Inr (LoginPage 200 (Some ''password salah'')) \<and> db' = db\<lparr>au_attempts := au_attempts db @ [attempt now (login_key h) False h]\<rparr> \<and>
      \<not> threshold_reached (as_u32 (failures now (login_key h) db)) \<and> \<not> password_ok E pw \<or>
    r = Inr (RRedirect ''/'' (Some (session_cookie_value fresh))) \<and> db' = logged_in E now fresh h db \<and>
      \<not> threshold_reached (as_u32 (failures now (login_key h) db)) \<and> password_ok E pw \<and>
      ae_token_hash E fresh \<notin> ss_token_hash ` set (au_sessions db)"
proof (cases "fault i")
  case True
  then show ?thesis
    using run conf by (auto simp: login_submit_def Let_def db_bind_def db_500_def is_rate_limited_def db_stmt_def)
next
  case ok: False
  let ?key = "rate_limit_key (Some (login_ip h))"
  let ?limited = "threshold_reached (as_u32 (failures now (login_key h) db))"
  obtain hash where hash: "password_hash E = Some hash"
    using conf by (auto simp: auth_configured_def)
  have pw: "verify_password E (trim pw) hash = password_ok E pw"
    by (auto simp: verify_password_def password_ok_def hash split: option.splits)
  show ?thesis
  proof (cases ?limited)
    case True
    then show ?thesis
      using run conf ok
      by (auto simp: login_submit_def Let_def db_bind_def db_500_def is_rate_limited_def db_stmt_def db_return_def failures_def login_key_def)
  next
    case free: False
    show ?thesis
    proof (cases "password_ok E pw")
      case False
      obtain r1 j1 s1 where m: "db_500 (db_tx (record_attempt_in now ?key False (Some (login_ip h)) (rh_user_agent h))) fault (Suc i, db) = (r1, j1, s1)"
        using prod_cases3 by blast
      have "login_submit E now fresh h pw fault (i, db) = (case r1 of Inl e \<Rightarrow> (Inl e, j1, s1)
          | Inr _ \<Rightarrow> (Inr (LoginPage 200 (Some ''password salah'')), j1, s1))"
        using m conf ok free False pw hash
        by (auto simp: login_submit_def Let_def db_bind_def is_rate_limited_def db_stmt_def db_return_def failures_def login_key_def
            record_attempt_def db_500_def split: sum.splits)
      then show ?thesis
        using db_500_tx [OF m] run free False
        by (auto simp: record_attempt_in_def tx_simps attempt_def login_key_def split: if_splits)
    next
      case True
      let ?tx = "tx_bind (record_attempt_in now ?key True (Some (login_ip h)) (rh_user_agent h)) (\<lambda>_.
        tx_bind (clear_attempts_in ?key) (\<lambda>_. create_session_in E now fresh (Some (login_ip h)) (rh_user_agent h)))"
      obtain r1 j1 s1 where m: "db_500 (db_tx ?tx) fault (Suc i, db) = (r1, j1, s1)"
        using prod_cases3 by blast
      have run': "login_submit E now fresh h pw fault (i, db) = (case r1 of Inl e \<Rightarrow> (Inl e, j1, s1)
          | Inr tok \<Rightarrow> (Inr (RRedirect ''/'' (Some (session_cookie_value tok))), j1, s1))"
        using m conf ok free True pw hash
        by (auto simp: login_submit_def Let_def db_bind_def is_rate_limited_def db_stmt_def db_return_def failures_def login_key_def
            establish_session_def db_500_def split: sum.splits)
      show ?thesis
        using db_500_tx [OF m]
      proof (elim disjE exE conjE)
        fix a k
        assume r1: "r1 = Inr a" and t: "?tx fault (Suc i + 1, db) = Inr (a, k, s1)"
        have "a = fresh \<and> s1 = logged_in E now fresh h db \<and> ae_token_hash E fresh \<notin> ss_token_hash ` set (au_sessions db)"
          using t
          by (auto simp: record_attempt_in_def clear_attempts_in_def tx_simps logged_in_def attempt_def login_key_def session_row_of_def
              split: if_splits dest!: create_session_run)
        then show ?thesis
          using run run' r1 free True by auto
      qed (use run run' in auto)
    qed
  qed
qed

text \<open>C25: A login needs the password and is all or nothing. Without a configured password hash it is refused with 403 and nothing
  changes. Otherwise it ends in one of four ways: an error of the database is answered 500, and neither the sessions nor the attempts have
  changed; five or more failures of the same key in the last quarter of an hour are answered 429, whatever the password; a wrong password
  leaves exactly one more failed attempt; the right password, and only it, gives a redirect with the cookie of the fresh token,
  one more session with that token's digest, bound to the one active workspace or the default one and expiring after 24 hours, the
  success on record and the failures of the key cleared.\<close>

theorem login_needs_the_password:
  assumes "run_db (login_submit E now fresh h pw) fault db = (r, db')"
  shows "(\<not> auth_configured E \<longrightarrow> r = Inr (RText 403 ''admin auth not configured'') \<and> db' = db) \<and>
    (auth_configured E \<longrightarrow>
      r = Inl (TxAbort (Status 500)) \<and> db' = db \<or>
      r = Inr (LoginPage 429 (Some ''terlalu banyak percobaan, coba lagi nanti'')) \<and> db' = db \<and>
        threshold_reached (as_u32 (failures now (login_key h) db)) \<or>
      r = Inr (LoginPage 200 (Some ''password salah'')) \<and> db' = db\<lparr>au_attempts := au_attempts db @ [attempt now (login_key h) False h]\<rparr> \<and>
        \<not> threshold_reached (as_u32 (failures now (login_key h) db)) \<and> \<not> password_ok E pw \<or>
      r = Inr (RRedirect ''/'' (Some (session_cookie_value fresh))) \<and> db' = logged_in E now fresh h db \<and>
        \<not> threshold_reached (as_u32 (failures now (login_key h) db)) \<and> password_ok E pw \<and>
        ae_token_hash E fresh \<notin> ss_token_hash ` set (au_sessions db))"
proof (cases "auth_configured E")
  case True
  obtain j where "login_submit E now fresh h pw fault (0, db) = (r, j, db')"
    using assms by (auto simp: run_db_def split: prod.splits)
  from login_runs [OF True this] True show ?thesis by blast
next
  case False
  then show ?thesis
    using assms by (simp add: run_db_def login_submit_def db_return_def)
qed

definition sample_auth :: auth_env where
  "sample_auth = \<lparr>ae_token_hash = id, ae_bcrypt_verify = (\<lambda>p h. Some (p = h)), ae_b64_utf8 = Some,
     ae_var = (\<lambda>v. if v = ''ADMIN_PASSWORD_HASH'' then Some ''pw'' else None)\<rparr>"

definition no_headers :: request_headers where
  "no_headers = \<lparr>rh_cookie = None, rh_forwarded_for = None, rh_user_agent = None\<rparr>"

definition empty_auth :: auth_db where
  "empty_auth = \<lparr>au_sessions = [], au_attempts = [], au_workspaces = [\<lparr>wk_id = 7, wk_slug = ''main'', wk_status = ''active''\<rparr>]\<rparr>"

lemma sample_trims: "trim ''pw'' = ''pw''" "trim ''no'' = ''no''" "rate_limit_key (Some ''unknown'') = ''ip:unknown''"
  by code_simp+

lemma sample_password: "password_hash sample_auth = Some ''pw''"
  by (simp add: password_hash_def sample_auth_def sample_trims)

theorem login_needs_the_password_witness:
  "fst (run_db (login_submit sample_auth 100 ''tok'' no_headers ''pw'') (\<lambda>_. False) empty_auth) =
     Inr (RRedirect ''/'' (Some (session_cookie_value ''tok''))) \<and>
   map ss_workspace (au_sessions (snd (run_db (login_submit sample_auth 100 ''tok'' no_headers ''pw'') (\<lambda>_. False) empty_auth))) = [Some 7]"
proof -
  have run: "fst (run_db (login_submit sample_auth 100 ''tok'' no_headers ''pw'') (\<lambda>_. False) empty_auth) =
      Inr (RRedirect ''/'' (Some (session_cookie_value ''tok'')))"
    by (simp add: run_db_def login_submit_def auth_configured_def sample_password Let_def db_bind_def db_500_def is_rate_limited_def
        db_stmt_def empty_auth_def threshold_reached_def MAX_FAILURES_def as_u32_def verify_password_def establish_session_def db_tx_def tx_simps
        record_attempt_in_def clear_attempts_in_def create_session_in_def workspace_for_new_session_def insert_session_def sample_trims
        db_return_def) (simp add: sample_auth_def)
  have "password_ok sample_auth ''pw''"
    by (simp add: password_ok_def sample_password sample_trims) (simp add: sample_auth_def)
  then have "snd (run_db (login_submit sample_auth 100 ''tok'' no_headers ''pw'') (\<lambda>_. False) empty_auth) =
      logged_in sample_auth 100 ''tok'' no_headers empty_auth"
    using login_needs_the_password [of sample_auth 100 "''tok''" no_headers "''pw''" "\<lambda>_. False" empty_auth, OF surjective_pairing] run
    by (auto simp: auth_configured_def sample_password)
  then show ?thesis
    using run by (simp add: logged_in_def session_row_of_def empty_auth_def default_workspace_def two_active_def select_workspace_def)
qed

section \<open>Guessing\<close>

text \<open>Requests, each with its time, headers, password, fresh token and faults; the answers.\<close>

type_synonym login_request = "int \<times> request_headers \<times> string \<times> string \<times> faults"

fun logins :: "auth_env \<Rightarrow> login_request list \<Rightarrow> auth_db \<Rightarrow> (auth_error tx_error + response) list" where
  "logins E [] db = []"
| "logins E ((now, h, pw, fresh, fault) # rs) db =
     (case run_db (login_submit E now fresh h pw) fault db of (r, db') \<Rightarrow> r # logins E rs db')"

definition told_wrong :: "auth_error tx_error + response \<Rightarrow> bool" where
  "told_wrong r \<longleftrightarrow> r = Inr (LoginPage 200 (Some ''password salah''))"

lemma failures_add:
  "failures t key (db\<lparr>au_attempts := au_attempts db @ [attempt now key False h]\<rparr>) =
     failures t key db + (if t - WINDOW_MINUTES * 60 < now then 1 else 0)"
  by (simp add: failures_def recent_failure_def attempt_def)

lemma failures_window:
  "list_all (\<lambda>a. lt_key a = key \<longrightarrow> start \<le> lt_attempted_at a) (au_attempts db) \<Longrightarrow> start \<le> t \<Longrightarrow> t < start + 900 \<Longrightarrow>
   failures t key db = failures start key db"
  unfolding failures_def
  by (rule arg_cong [where f = length], rule filter_cong) (auto simp: recent_failure_def WINDOW_MINUTES_def list_all_iff)

lemma guesses_bounded:
  assumes "auth_configured E"
    and "list_all (\<lambda>(now, h, pw, fresh, fault). start \<le> now \<and> now < start + 900 \<and> login_key h = key \<and> \<not> password_ok E pw) rs"
    and "list_all (\<lambda>a. lt_key a = key \<longrightarrow> start \<le> lt_attempted_at a) (au_attempts db)" "failures start key db \<le> 5"
  shows "length (filter told_wrong (logins E rs db)) + failures start key db \<le> 5"
  using assms(2-4)
proof (induction rs arbitrary: db)
  case Nil
  then show ?case by simp
next
  case (Cons x rs)
  obtain now h pw fresh fault where x: "x = (now, h, pw, fresh, fault)"
    by (cases x) auto
  have now: "start \<le> now" "now < start + 900" "login_key h = key" "\<not> password_ok E pw"
    using Cons.prems(1) x by auto
  obtain r j db' where run: "login_submit E now fresh h pw fault (0, db) = (r, j, db')"
    using prod_cases3 by blast
  have eq: "logins E (x # rs) db = r # logins E rs db'"
    using run x by (simp add: run_db_def)
  have rest: "list_all (\<lambda>(now, h, pw, fresh, fault). start \<le> now \<and> now < start + 900 \<and> login_key h = key \<and> \<not> password_ok E pw) rs"
    using Cons.prems(1) by simp
  have f: "failures now key db = failures start key db"
    by (rule failures_window [OF Cons.prems(2) now(1,2)])
  have "db' = db \<and> \<not> told_wrong r \<or>
      db' = db\<lparr>au_attempts := au_attempts db @ [attempt now key False h]\<rparr> \<and> told_wrong r \<and>
      \<not> threshold_reached (as_u32 (failures now key db))"
    using login_runs [OF assms(1) run] unfolding now(3) by (elim disjE conjE) (simp_all add: told_wrong_def now(4))
  then consider "db' = db" "\<not> told_wrong r"
    | "db' = db\<lparr>au_attempts := au_attempts db @ [attempt now key False h]\<rparr>" "told_wrong r"
      "\<not> threshold_reached (as_u32 (failures now key db))"
    by blast
  then show ?case
  proof cases
    case 1
    then show ?thesis
      using Cons.IH [OF rest Cons.prems(2,3)] eq by simp
  next
    case 2
    have small: "failures start key db < 5"
      using 2(3) Cons.prems(3) unfolding f by (simp add: threshold_reached_def MAX_FAILURES_def as_u32_def)
    have grow: "failures start key db' = failures start key db + 1"
      using now unfolding 2(1) failures_add by (simp add: WINDOW_MINUTES_def)
    have "list_all (\<lambda>a. lt_key a = key \<longrightarrow> start \<le> lt_attempted_at a) (au_attempts db')"
      using Cons.prems(2) now unfolding 2(1) by (simp add: attempt_def)
    then have "length (filter told_wrong (logins E rs db')) + failures start key db' \<le> 5"
      by (rule Cons.IH [OF rest]) (use small grow in simp)
    then show ?thesis
      using eq 2(2) grow by simp
  qed
qed


lemma sample_wrong: "\<not> password_ok sample_auth ''no''"
  unfolding password_ok_def sample_password sample_trims by (simp add: sample_auth_def)


text \<open>The key is the first entry of the header \<open>x-forwarded-for\<close>, which the client writes: requests that name different addresses never share one.\<close>

lemma split_char_absent: "c \<notin> set s \<Longrightarrow> split_char c s = [s]"
  by (induction s) auto

lemma trim_trim: "trim (trim s) = trim s"
proof (cases "trim s = []")
  case True
  show ?thesis
    unfolding True by (simp add: trim_def)
next
  case False
  let ?u = "dropWhile is_whitespace s"
  have u: "?u = trim s @ rev (takeWhile is_whitespace (rev ?u))"
    unfolding trim_def rev_append [symmetric] takeWhile_dropWhile_id by simp
  then have "?u \<noteq> []" "hd ?u = hd (trim s)"
    using False by (metis append_is_Nil_conv, metis hd_append2)
  then have "\<not> is_whitespace (hd (trim s))"
    using hd_dropWhile [of is_whitespace s] by simp
  moreover have "\<not> is_whitespace (last (trim s))"
    using False unfolding trim_def by (simp add: last_rev hd_dropWhile)
  ultimately show ?thesis
    by (rule trim_id)
qed

lemma forwarded_header_is_the_key:
  assumes "trim a \<noteq> []" "trim b \<noteq> []" "CHR '','' \<notin> set a" "CHR '','' \<notin> set b" "trim a \<noteq> trim b"
  shows "login_key (h\<lparr>rh_forwarded_for := Some a\<rparr>) \<noteq> login_key (h\<lparr>rh_forwarded_for := Some b\<rparr>)"
  using assms by (simp add: login_key_def login_ip_def rate_limit_key_def split_char_absent trim_trim)

section \<open>The life of a session\<close>

text \<open>What a session store is, abstractly: the time each token stops being valid.\<close>

type_synonym expiry_map = "string \<Rightarrow> int option"

datatype session_op = Issue string int | Check string int | Leave string | Sweep int

fun spec_step :: "session_op \<Rightarrow> expiry_map \<Rightarrow> expiry_map" where
  "spec_step (Issue token now) m = (if m token = None then m(token \<mapsto> now + 24 * 3600) else m)"
| "spec_step (Check token now) m = m"
| "spec_step (Leave token) m = m(token := None)"
| "spec_step (Sweep now) m = (\<lambda>token. case m token of Some e \<Rightarrow> if e \<le> now then None else Some e | None \<Rightarrow> None)"

fun session_step :: "auth_env \<Rightarrow> faults \<Rightarrow> session_op \<Rightarrow> auth_db \<Rightarrow> auth_db" where
  "session_step E fault (Issue token now) db = snd (run_db (create_session E now token None None) fault db)"
| "session_step E fault (Check token now) db = snd (run_db (validate_session E now token) fault db)"
| "session_step E fault (Leave token) db = snd (run_db (destroy_session E token) fault db)"
| "session_step E fault (Sweep now) db = snd (run_db (prune_sessions now) fault db)"

definition expiries :: "auth_env \<Rightarrow> auth_db \<Rightarrow> expiry_map" where
  "expiries E db = (\<lambda>token. map_option ss_expires_at (find (\<lambda>r. ss_token_hash r = ae_token_hash E token) (au_sessions db)))"

definition keyed_sessions :: "auth_db \<Rightarrow> bool" where
  "keyed_sessions db \<longleftrightarrow> distinct (map ss_token_hash (au_sessions db))"

lemma expiries_map_of:
  "expiries E db token = map_of (map (\<lambda>r. (ss_token_hash r, ss_expires_at r)) (au_sessions db)) (ae_token_hash E token)"
proof -
  have "map_option ss_expires_at (find (\<lambda>r. ss_token_hash r = k) rows) = map_of (map (\<lambda>r. (ss_token_hash r, ss_expires_at r)) rows) k"
    for rows k by (induction rows) auto
  then show ?thesis by (simp add: expiries_def)
qed

lemma touch_keeps:
  "map (\<lambda>r. (ss_token_hash r, ss_expires_at r)) (map (\<lambda>r. if P r then r\<lparr>ss_last_seen_at := x\<rparr> else r) rows) =
   map (\<lambda>r. (ss_token_hash r, ss_expires_at r)) rows"
  by simp

lemma map_of_filter_key:
  "map_of (map (\<lambda>r. (ss_token_hash r, ss_expires_at r)) (filter (\<lambda>r. ss_token_hash r \<noteq> k) rows)) =
   (map_of (map (\<lambda>r. (ss_token_hash r, ss_expires_at r)) rows))(k := None)"
  by (induction rows) auto

lemma map_of_filter_expiry:
  "distinct (map ss_token_hash rows) \<Longrightarrow>
   map_of (map (\<lambda>r. (ss_token_hash r, ss_expires_at r)) (filter (\<lambda>r. \<not> ss_expires_at r \<le> now) rows)) k =
   (case map_of (map (\<lambda>r. (ss_token_hash r, ss_expires_at r)) rows) k of Some e \<Rightarrow> if e \<le> now then None else Some e | None \<Rightarrow> None)"
proof (induction rows)
  case (Cons r rows)
  have "map_of (map (\<lambda>r. (ss_token_hash r, ss_expires_at r)) (filter P rows)) (ss_token_hash r) = None" for P
    using Cons.prems by (auto simp: map_of_eq_None_iff)
  then show ?case
    using Cons by auto
qed simp

lemma create_session_steps:
  assumes "run_db (create_session E now token ip ua) fault db = (r, db')"
  shows "db' = db \<and> (isl r \<longrightarrow> (\<exists>n. fault n) \<or> ae_token_hash E token \<in> ss_token_hash ` set (au_sessions db)) \<and> isl r \<or>
    ae_token_hash E token \<notin> ss_token_hash ` set (au_sessions db) \<and>
    db' = db\<lparr>au_sessions := au_sessions db @ [session_row_of E now token ip ua db]\<rparr>"
  using assms
  by (auto simp: run_db_def create_session_def db_tx_def create_session_in_def workspace_for_new_session_def insert_session_def
      session_row_of_def tx_simps split: if_splits)

lemma session_step_refines:
  assumes inj: "inj (ae_token_hash E)" and keyed: "keyed_sessions db"
  shows "keyed_sessions (session_step E fault op db) \<and>
    (expiries E (session_step E fault op db) = spec_step op (expiries E db) \<or>
     expiries E (session_step E fault op db) = expiries E db \<and> (\<exists>n. fault n))"
proof (cases op)
  case (Issue token now)
  obtain r db' where run: "run_db (create_session E now token None None) fault db = (r, db')"
    by (cases "run_db (create_session E now token None None) fault db")
  have known: "expiries E db token \<noteq> None \<longleftrightarrow> ae_token_hash E token \<in> ss_token_hash ` set (au_sessions db)"
    unfolding expiries_map_of by (auto simp: map_of_eq_None_iff image_image)
  have new: "expiries E (db\<lparr>au_sessions := au_sessions db @ [session_row_of E now token None None db]\<rparr>) =
      (expiries E db)(token \<mapsto> now + 24 * 3600)" if "expiries E db token = None"
    using that inj
    by (auto simp: fun_eq_iff expiries_map_of map_add_def session_row_of_def SESSION_TTL_HOURS_def inj_eq split: option.splits)
  show ?thesis
    using create_session_steps [OF run] run known new keyed Issue
    by (auto simp: keyed_sessions_def session_row_of_def)
next
  case (Check token now)
  then show ?thesis
    using keyed
    by (auto simp: run_db_def validate_session_def db_stmt_def db_return_def keyed_sessions_def expiries_map_of fun_eq_iff comp_def if_distrib
        cong: if_cong)
next
  case (Leave token)
  then show ?thesis
    using keyed inj
    by (auto simp: run_db_def destroy_session_def db_stmt_def keyed_sessions_def expiries_map_of fun_eq_iff map_of_filter_key inj_eq
        distinct_map_filter)
next
  case (Sweep now)
  then show ?thesis
    using keyed
    by (auto simp: run_db_def prune_sessions_def db_stmt_def keyed_sessions_def expiries_map_of fun_eq_iff map_of_filter_expiry
        distinct_map_filter)
qed

lemma validate_answer:
  assumes "keyed_sessions db" "token \<noteq> []"
  shows "fst (run_db (validate_session E now token) (\<lambda>_. False) db) =
    Inr (case expiries E db token of Some e \<Rightarrow> now < e | None \<Rightarrow> False)"
proof -
  have "list_ex (live_session E now token) rows \<longleftrightarrow>
      (case map_of (map (\<lambda>r. (ss_token_hash r, ss_expires_at r)) rows) (ae_token_hash E token) of Some e \<Rightarrow> now < e | None \<Rightarrow> False)"
    if "distinct (map ss_token_hash rows)" for rows
    using that
  proof (induction rows)
    case (Cons r rows)
    have "\<not> list_ex (live_session E now token) rows" if "ss_token_hash r = ae_token_hash E token"
      using Cons.prems that by (auto simp: list_ex_iff live_session_def image_iff)
    moreover have "live_session E now token r \<longleftrightarrow> ss_token_hash r = ae_token_hash E token \<and> now < ss_expires_at r"
      by (simp add: live_session_def)
    ultimately show ?case
      using Cons by auto
  qed simp
  then show ?thesis
    using assms by (simp add: run_db_def validate_session_def db_stmt_def expiries_map_of keyed_sessions_def)
qed

text \<open>C27: The session tables implement a map from tokens to expiry times. For a digest without collisions and tables with unique digests, every
  operation keeps the digests unique and does to the expiry times what the abstract store does: issuing a new token sets its
  expiry 24 hours ahead, checking a token changes nothing, so use never prolongs a session, logging out removes exactly that token, and
  pruning removes exactly what has expired. An operation one of whose statements fails may do nothing instead, and does nothing else. A
  token is reported valid exactly when its expiry is ahead.\<close>

theorem sessions_refine_the_expiry_map:
  assumes "inj (ae_token_hash E)" "keyed_sessions db"
  shows "keyed_sessions (session_step E fault op db) \<and>
    (expiries E (session_step E fault op db) = spec_step op (expiries E db) \<or>
     expiries E (session_step E fault op db) = expiries E db \<and> (\<exists>n. fault n)) \<and>
    expiries E (fold (session_step E (\<lambda>_. False)) ops db) = fold spec_step ops (expiries E db) \<and>
    (\<forall>token now. token \<noteq> [] \<longrightarrow> fst (run_db (validate_session E now token) (\<lambda>_. False) db) =
       Inr (case expiries E db token of Some e \<Rightarrow> now < e | None \<Rightarrow> False))"
proof -
  have "keyed_sessions (fold (session_step E (\<lambda>_. False)) ops d) \<and>
      expiries E (fold (session_step E (\<lambda>_. False)) ops d) = fold spec_step ops (expiries E d)" if "keyed_sessions d" for d
    using that
  proof (induction ops arbitrary: d)
    case (Cons x ops)
    show ?case
      using Cons.IH [of "session_step E (\<lambda>_. False) x d"] session_step_refines [OF assms(1) Cons.prems, of "\<lambda>_. False" x] by simp
  qed simp
  then show ?thesis
    using session_step_refines [OF assms] validate_answer [OF assms(2)] assms(2) by simp
qed

theorem sessions_refine_the_expiry_map_witness:
  "expiries sample_auth (fold (session_step sample_auth (\<lambda>_. False)) [Issue ''t'' 0, Check ''t'' 5, Issue ''u'' 7, Leave ''t''] empty_auth) ''u'' =
     Some (7 + 24 * 3600)"
  using sessions_refine_the_expiry_map [of sample_auth empty_auth "\<lambda>_. False" "Sweep 0" "[Issue ''t'' 0, Check ''t'' 5, Issue ''u'' 7, Leave ''t'']"]
  by (simp add: keyed_sessions_def) (simp add: expiries_def empty_auth_def sample_auth_def)

end
