(* ===== verification/Admin.thy ===== *)
theory Admin
  imports Sessions Policy Radar Queues
begin

text \<open>
  The administration interface (\<open>admin.rs\<close>): its operations that change tables (channels, wallet labels, block list, queues,
  secrets, runtime settings) behind the guards of \<open>Sessions\<close>, and the settings views. A request sees one time; a handler ends
  with its JSON answer or a status. The cipher, the digest of the store key and the reading of a JSON number are fields of a record.
\<close>

record admin_env =
  an_auth :: auth_env
  an_digest :: "string \<Rightarrow> string"
  an_encrypt :: "string \<Rightarrow> string \<Rightarrow> (string \<times> string) option"
  an_decrypt :: "string \<Rightarrow> string \<Rightarrow> string \<Rightarrow> string option"
  an_as_u64 :: "json \<Rightarrow> nat option"

section \<open>Tables\<close>

record channel_row =
  cn_key :: string
  cn_title :: "string option"
  cn_username :: "string option"
  cn_allowlisted :: bool
  cn_status :: string
  cn_last_observed_at :: "int option"

record queue_row =
  qr_paused :: bool
  qr_lag_seconds :: int
  qr_updated_at :: int
  qr_updated_by :: string

record secret_row =
  sr_nonce :: string
  sr_ciphertext :: string
  sr_updated_at :: int

text \<open>The ids of the labels stand beside the label table, in its order.\<close>

record admin_db =
  ad_auth :: auth_db
  ad_channels :: "channel_row list"
  ad_labels :: label_db
  ad_label_ids :: "int list"
  ad_next_label :: int
  ad_queues :: "string \<Rightarrow> queue_row option"
  ad_secrets :: "string \<Rightarrow> secret_row option"
  ad_settings :: "string \<Rightarrow> (json \<times> int) option"

type_synonym 'a admin = "(admin_db, auth_error, 'a) db"

definition on_auth :: "(auth_db, auth_error, 'a) db \<Rightarrow> 'a admin" where
  "on_auth = db_zoom ad_auth (\<lambda>a db. db\<lparr>ad_auth := a\<rparr>) id"

definition ok_json :: json where
  "ok_json = JObject [(''ok'', JBool True)]"

definition count_json :: "nat \<Rightarrow> json" where
  "count_json n = JNumber (Fin (of_nat n))"

section \<open>Channels\<close>

definition upsert_channel :: "string \<Rightarrow> (channel_row \<Rightarrow> channel_row) \<Rightarrow> channel_row \<Rightarrow> admin_db \<Rightarrow> admin_db" where
  "upsert_channel key update new db =
     (if key \<in> cn_key ` set (ad_channels db)
      then db\<lparr>ad_channels := map (\<lambda>r. if cn_key r = key then update r else r) (ad_channels db)\<rparr>
      else db\<lparr>ad_channels := ad_channels db @ [new]\<rparr>)"

definition add_channel :: "admin_env \<Rightarrow> int \<Rightarrow> request_headers \<Rightarrow> string \<Rightarrow> string option \<Rightarrow> string option \<Rightarrow> json admin" where
  "add_channel E now h key title username =
     db_bind (on_auth (require_write_auth (an_auth E) now h)) (\<lambda>_.
     db_bind (db_500 (db_stmt (\<lambda>db. ((), upsert_channel key
        (\<lambda>r. r\<lparr>cn_allowlisted := True, cn_status := ''active'', cn_title := or_else title (cn_title r),
               cn_username := or_else username (cn_username r)\<rparr>)
        \<lparr>cn_key = key, cn_title = title, cn_username = username, cn_allowlisted = True, cn_status = ''active'',
         cn_last_observed_at = None\<rparr> db)))) (\<lambda>_.
     db_return ok_json))"

datatype BulkChannelEntry = BulkKey string | BulkFull string "string option"

fun bulk_entry :: "BulkChannelEntry \<Rightarrow> string \<times> string option" where
  "bulk_entry (BulkKey k) = (k, None)"
| "bulk_entry (BulkFull k title) = (k, title)"

fun bulk_loop :: "BulkChannelEntry list \<Rightarrow> nat \<Rightarrow> nat admin" where
  "bulk_loop [] imported = db_return imported"
| "bulk_loop (entry # entries) imported =
     (case bulk_entry entry of (key, title) \<Rightarrow>
        if trim key = [] then bulk_loop entries imported
        else db_bind (db_500 (db_stmt (\<lambda>db. ((), upsert_channel key
               (\<lambda>r. r\<lparr>cn_allowlisted := True, cn_status := ''active'', cn_title := or_else title (cn_title r)\<rparr>)
               \<lparr>cn_key = key, cn_title = title, cn_username = None, cn_allowlisted = True, cn_status = ''active'',
                cn_last_observed_at = None\<rparr> db)))) (\<lambda>_.
             bulk_loop entries (imported + 1)))"

definition bulk_add_channels :: "admin_env \<Rightarrow> int \<Rightarrow> request_headers \<Rightarrow> BulkChannelEntry list \<Rightarrow> json admin" where
  "bulk_add_channels E now h channels =
     db_bind (on_auth (require_write_auth (an_auth E) now h)) (\<lambda>_.
     db_bind (bulk_loop channels 0) (\<lambda>imported.
     db_return (JObject [(''ok'', JBool True), (''imported'', count_json imported)])))"

definition map_channel :: "string \<Rightarrow> (channel_row \<Rightarrow> channel_row) \<Rightarrow> unit admin" where
  "map_channel key f = db_stmt (\<lambda>db. ((), db\<lparr>ad_channels := map (\<lambda>r. if cn_key r = key then f r else r) (ad_channels db)\<rparr>))"

definition update_channel :: "admin_env \<Rightarrow> int \<Rightarrow> request_headers \<Rightarrow> string \<Rightarrow> bool option \<Rightarrow> string option \<Rightarrow> json admin" where
  "update_channel E now h key allowlisted status =
     db_bind (on_auth (require_write_auth (an_auth E) now h)) (\<lambda>_.
     db_bind (db_500 (map_channel key (\<lambda>r. r\<lparr>cn_allowlisted := (case allowlisted of Some b \<Rightarrow> b | None \<Rightarrow> cn_allowlisted r),
        cn_status := (case status of Some s \<Rightarrow> s | None \<Rightarrow> cn_status r)\<rparr>))) (\<lambda>_.
     db_return ok_json))"

definition remove_channel :: "admin_env \<Rightarrow> int \<Rightarrow> request_headers \<Rightarrow> string \<Rightarrow> json admin" where
  "remove_channel E now h key =
     db_bind (on_auth (require_write_auth (an_auth E) now h)) (\<lambda>_.
     db_bind (db_500 (map_channel key (\<lambda>r. r\<lparr>cn_allowlisted := False, cn_status := ''disabled''\<rparr>))) (\<lambda>_.
     db_return ok_json))"

section \<open>Labels and the block list\<close>

definition with_labels :: "label_db \<Rightarrow> admin_db \<Rightarrow> admin_db" where
  "with_labels l db =
     (let n = length (ld_labels l) - length (ld_labels (ad_labels db))
      in db\<lparr>ad_labels := l, ad_label_ids := ad_label_ids db @ map (\<lambda>k. ad_next_label db + int k) [0..<n],
            ad_next_label := ad_next_label db + int n\<rparr>)"

definition require_chain :: "string \<Rightarrow> ChainKind admin" where
  "require_chain chain = (case chain_kind_parse chain of None \<Rightarrow> db_fail (Status 400) | Some c \<Rightarrow> db_return c)"

text \<open>\<open>db::upsert_wallet\<close> on the wallets beside the labels.\<close>

definition admin_upsert_wallet :: "string \<Rightarrow> string \<Rightarrow> int \<Rightarrow> unit admin" where
  "admin_upsert_wallet chain address now = db_stmt (\<lambda>db.
     ((), db\<lparr>ad_labels := (ad_labels db)\<lparr>ld_wallets := (ld_wallets (ad_labels db))((chain, address) \<mapsto>
        (case ld_wallets (ad_labels db) (chain, address) of
           None \<Rightarrow> \<lparr>wr_first_seen = now, wr_last_seen = now, wr_source = ''admin''\<rparr>
         | Some w \<Rightarrow> w\<lparr>wr_last_seen := max (wr_last_seen w) now, wr_source := ''admin''\<rparr>))\<rparr>\<rparr>))"

definition insert_admin_label :: "int \<Rightarrow> string \<Rightarrow> string \<Rightarrow> string \<Rightarrow> string \<Rightarrow> string \<Rightarrow> unit admin" where
  "insert_admin_label workspace chain address kind disposition reason = db_try (\<lambda>db.
     case add_wallet_label workspace chain address kind disposition reason ''manual'' 100 True None (ad_labels db) of
       Inl e \<Rightarrow> Inl (Status 500)
     | Inr l \<Rightarrow> Inr ((), with_labels l db))"

definition add_label :: "admin_env \<Rightarrow> int \<Rightarrow> request_headers \<Rightarrow> string \<Rightarrow> string \<Rightarrow> string \<Rightarrow> string \<Rightarrow> string option \<Rightarrow> json admin" where
  "add_label E now h chain address kind disposition reason =
     db_bind (on_auth (require_write_auth (an_auth E) now h)) (\<lambda>_.
     db_bind (on_auth (require_workspace (an_auth E) now h)) (\<lambda>workspace_id.
     db_bind (require_chain chain) (\<lambda>c.
     db_bind (case disposition_parse disposition of None \<Rightarrow> db_fail (Status 400) | Some d \<Rightarrow> db_return d) (\<lambda>d.
     db_bind (db_500 (admin_upsert_wallet (chain_kind_as_str c) address now)) (\<lambda>_.
     db_bind (db_500 (insert_admin_label workspace_id (chain_kind_as_str c) address kind (disposition_as_str d)
        (case reason of Some x \<Rightarrow> x | None \<Rightarrow> ''admin label''))) (\<lambda>_.
     db_return ok_json))))))"

definition addressed :: "int \<Rightarrow> int \<Rightarrow> string \<Rightarrow> string \<Rightarrow> int \<times> label_row \<Rightarrow> bool" where
  "addressed i workspace chain address x \<longleftrightarrow>
     fst x = i \<and> lb_workspace (snd x) = workspace \<and> lb_chain (snd x) = chain \<and> lb_address (snd x) = address"

definition label_rows :: "admin_db \<Rightarrow> (int \<times> label_row) list" where
  "label_rows db = zip (ad_label_ids db) (ld_labels (ad_labels db))"

definition revoked_rows :: "int \<Rightarrow> int \<Rightarrow> int \<Rightarrow> string \<Rightarrow> string \<Rightarrow> admin_db \<Rightarrow> nat \<times> admin_db" where
  "revoked_rows now i workspace chain address db =
     (let hit = (\<lambda>x. addressed i workspace chain address x \<and> lb_revoked (snd x) = None)
      in (length (filter hit (label_rows db)),
          db\<lparr>ad_labels := (ad_labels db)\<lparr>ld_labels :=
             map (\<lambda>x. if hit x then (snd x)\<lparr>lb_revoked := Some now\<rparr> else snd x) (label_rows db)\<rparr>\<rparr>))"

definition revoke_label :: "admin_env \<Rightarrow> int \<Rightarrow> request_headers \<Rightarrow> string \<Rightarrow> string \<Rightarrow> int \<Rightarrow> json admin" where
  "revoke_label E now h chain address i =
     db_bind (on_auth (require_write_auth (an_auth E) now h)) (\<lambda>_.
     db_bind (on_auth (require_workspace (an_auth E) now h)) (\<lambda>workspace_id.
     db_bind (require_chain chain) (\<lambda>c.
     db_bind (db_500 (db_stmt (revoked_rows now i workspace_id (chain_kind_as_str c) address))) (\<lambda>n.
     if n = 0 then
       db_bind (db_500 (db_stmt (\<lambda>db. (list_ex (\<lambda>x. addressed i workspace_id (chain_kind_as_str c) address x \<and> lb_revoked (snd x) \<noteq> None)
          (label_rows db), db)))) (\<lambda>already.
       if already then db_return (JObject [(''ok'', JBool True), (''revoked'', count_json 0), (''already_revoked'', JBool True)])
       else db_fail (Status 404))
     else db_return (JObject [(''ok'', JBool True), (''revoked'', count_json n), (''already_revoked'', JBool False)])))))"

text \<open>The row ids, kinds, dispositions, manual flags, confidences and whether they are active, newest first.\<close>

definition label_listing :: "int \<Rightarrow> int \<Rightarrow> string \<Rightarrow> string \<Rightarrow> admin_db \<Rightarrow> (int \<times> string \<times> string \<times> bool \<times> int \<times> bool) list" where
  "label_listing now workspace chain address db =
     rev (map (\<lambda>(i, r). (i, lb_kind r, lb_disposition r, lb_manual r, lb_confidence r,
          lb_revoked r = None \<and> (case lb_expires r of None \<Rightarrow> True | Some t \<Rightarrow> now < t)))
        (filter (\<lambda>x. lb_workspace (snd x) = workspace \<and> lb_chain (snd x) = chain \<and> lb_address (snd x) = address) (label_rows db)))"

definition list_labels ::
  "admin_env \<Rightarrow> int \<Rightarrow> request_headers \<Rightarrow> string \<Rightarrow> string \<Rightarrow> (int \<times> string \<times> string \<times> bool \<times> int \<times> bool) list admin" where
  "list_labels E now h chain address =
     db_bind (on_auth (require_auth (an_auth E) now h)) (\<lambda>_.
     db_bind (on_auth (require_workspace (an_auth E) now h)) (\<lambda>workspace_id.
     db_bind (require_chain chain) (\<lambda>c.
     db_500 (db_stmt (\<lambda>db. (label_listing now workspace_id (chain_kind_as_str c) address db, db))))))"

text \<open>The transaction of the import takes its statement numbers from the schedule of the request.\<close>

definition import_step :: "int \<Rightarrow> int \<Rightarrow> string \<Rightarrow> string list \<Rightarrow> nat admin" where
  "import_step now workspace chain addresses = (\<lambda>fault (i, db).
     case import_blocklist_tx (\<lambda>n. fault (i + n)) (\<lambda>_. now) workspace chain addresses ''admin blocklist import'' (ad_labels db) of
       (Inl e, _) \<Rightarrow> (Inl (TxAbort (Status 500)), i + 1, db)
     | (Inr n, l) \<Rightarrow> (Inr n, i + 1, with_labels l db))"

definition import_blocklist :: "admin_env \<Rightarrow> int \<Rightarrow> request_headers \<Rightarrow> string \<Rightarrow> string list \<Rightarrow> json admin" where
  "import_blocklist E now h chain addresses =
     db_bind (on_auth (require_write_auth (an_auth E) now h)) (\<lambda>_.
     db_bind (on_auth (require_workspace (an_auth E) now h)) (\<lambda>workspace_id.
     db_bind (require_chain chain) (\<lambda>c.
     db_bind (import_step now workspace_id (chain_kind_as_str c) addresses) (\<lambda>n.
     db_return (JObject [(''ok'', JBool True), (''imported'', count_json n)])))))"

section \<open>Queues\<close>

definition set_queue_pause :: "admin_env \<Rightarrow> int \<Rightarrow> request_headers \<Rightarrow> string \<Rightarrow> bool \<Rightarrow> json admin" where
  "set_queue_pause E now h name stop =
     db_bind (on_auth (require_write_auth (an_auth E) now h)) (\<lambda>_.
     if name \<notin> set ALL_QUEUES then db_fail (Status 404)
     else db_bind (db_500 (db_stmt (\<lambda>db. ((), db\<lparr>ad_queues := (ad_queues db)(name \<mapsto>
            \<lparr>qr_paused = stop, qr_lag_seconds = (case ad_queues db name of Some q \<Rightarrow> qr_lag_seconds q | None \<Rightarrow> 0),
             qr_updated_at = now, qr_updated_by = ''admin''\<rparr>)\<rparr>)))) (\<lambda>_.
          db_return (JObject [(''queue'', JString name), (''paused'', JBool stop)])))"

section \<open>Secrets\<close>

definition SECRET_KEYS :: "string list" where
  "SECRET_KEYS = [''DATABASE_URL'', ''TG_API_ID'', ''TG_API_HASH'', ''TG_SESSION_PATH'', ''TELEGRAM_BOT_TOKEN'', ''TELEGRAM_CHAT_ID'']"

definition secret_store_key :: "admin_env \<Rightarrow> string option" where
  "secret_store_key E =
     (case ae_var (an_auth E) ''SECRET_STORE_KEY'' of
        None \<Rightarrow> None
      | Some raw \<Rightarrow> if trim raw = [] then None else Some (an_digest E (trim raw)))"

text \<open>Both reads fold an error of the database into no row.\<close>

definition db_secret :: "admin_env \<Rightarrow> string \<Rightarrow> string option admin" where
  "db_secret E name =
     (case secret_store_key E of
        None \<Rightarrow> db_return None
      | Some key \<Rightarrow>
          db_bind (db_unwrap_or None (db_stmt (\<lambda>db. (ad_secrets db name, db)))) (\<lambda>row.
          db_return (Option.bind row (\<lambda>r. an_decrypt E key (sr_nonce r) (sr_ciphertext r)))))"

definition resolve_secret :: "admin_env \<Rightarrow> string option \<Rightarrow> string \<Rightarrow> string option admin" where
  "resolve_secret E env_value name =
     db_bind (case secret_store_key E of
                None \<Rightarrow> db_return None
              | Some key \<Rightarrow>
                  db_bind (db_unwrap_or None (db_stmt (\<lambda>db. (ad_secrets db name, db)))) (\<lambda>row.
                  db_return (Option.bind row (\<lambda>r. an_decrypt E key (sr_nonce r) (sr_ciphertext r))))) (\<lambda>v.
     db_return (case v of Some value \<Rightarrow> Some value | None \<Rightarrow> env_value))"

definition settings_secret_set :: "admin_env \<Rightarrow> int \<Rightarrow> request_headers \<Rightarrow> string \<Rightarrow> string \<Rightarrow> json admin" where
  "settings_secret_set E now h name val =
     db_bind (on_auth (require_write_auth (an_auth E) now h)) (\<lambda>_.
     if name \<notin> set SECRET_KEYS \<or> trim val = [] then db_fail (Status 400)
     else case secret_store_key E of
         None \<Rightarrow> db_fail (Status 503)
       | Some key \<Rightarrow>
           (case an_encrypt E key (trim val) of
              None \<Rightarrow> db_fail (Status 500)
            | Some (nonce, ciphertext) \<Rightarrow>
                db_bind (db_500 (db_stmt (\<lambda>db. ((), db\<lparr>ad_secrets := (ad_secrets db)(name \<mapsto>
                   \<lparr>sr_nonce = nonce, sr_ciphertext = ciphertext, sr_updated_at = now\<rparr>)\<rparr>)))) (\<lambda>_.
                db_return (JObject [(''ok'', JBool True), (''set'', JBool True)]))))"

definition settings_secret_delete :: "admin_env \<Rightarrow> int \<Rightarrow> request_headers \<Rightarrow> string \<Rightarrow> json admin" where
  "settings_secret_delete E now h name =
     db_bind (on_auth (require_write_auth (an_auth E) now h)) (\<lambda>_.
     if name \<notin> set SECRET_KEYS then db_fail (Status 400)
     else db_bind (db_500 (db_stmt (\<lambda>db. ((), db\<lparr>ad_secrets := (ad_secrets db)(name := None)\<rparr>)))) (\<lambda>_.
          db_return ok_json))"

text \<open>Strings have UTF-8 lengths here: a character from 128 on takes two bytes. The first two or the last two bytes need not be whole characters,
  and then the slice panics (\<open>None\<close>). The dots are the three bytes of the ellipsis.\<close>

definition byte_width :: "char \<Rightarrow> nat" where
  "byte_width c = (if (of_char c :: nat) < 128 then 1 else 2)"

definition byte_len :: "string \<Rightarrow> nat" where
  "byte_len s = sum_list (map byte_width s)"

fun first_bytes :: "nat \<Rightarrow> string \<Rightarrow> string option" where
  "first_bytes n [] = (if n = 0 then Some [] else None)"
| "first_bytes n (c # s) =
     (if n = 0 then Some [] else if byte_width c \<le> n then map_option (Cons c) (first_bytes (n - byte_width c) s) else None)"

definition mask_dots :: string where
  "mask_dots = [CHR 0xE2, CHR 0x80, CHR 0xA6]"

definition mask :: "string \<Rightarrow> string option option" where
  "mask secret =
     (let s = trim secret
      in if byte_len s < 4 then Some None
         else case (first_bytes 2 s, first_bytes 2 (rev s)) of
                (Some a, Some b) \<Rightarrow> Some (Some (a @ mask_dots @ rev b))
              | _ \<Rightarrow> None)"

definition env_row :: "string \<Rightarrow> string option \<Rightarrow> bool \<Rightarrow> string option \<Rightarrow> (string \<times> json) list option" where
  "env_row name val secret source =
     (case val of
        Some v \<Rightarrow>
          if trim v \<noteq> [] then
            map_option (\<lambda>preview. [(''name'', JString name), (''set'', JBool True), (''secret'', JBool secret),
                (''preview'', opt_json JString preview), (''source'', opt_json JString source)])
              (if secret then mask v else Some (Some v))
          else Some [(''name'', JString name), (''set'', JBool False), (''secret'', JBool secret), (''preview'', JNull), (''source'', JNull)]
      | None \<Rightarrow> Some [(''name'', JString name), (''set'', JBool False), (''secret'', JBool secret), (''preview'', JNull), (''source'', JNull)])"

definition env_row_step :: "string \<Rightarrow> string option \<Rightarrow> json admin" where
  "env_row_step name val =
     (case env_row name val True (if val \<noteq> None then Some ''env'' else None) of
        None \<Rightarrow> db_fail Panicked | Some r \<Rightarrow> db_return (JObject r))"

definition secret_env_row :: "admin_env \<Rightarrow> string \<Rightarrow> string option \<Rightarrow> json admin" where
  "secret_env_row E name env_value =
     db_bind (db_secret E name) (\<lambda>v.
     case (case v of
             Some x \<Rightarrow> env_row name (Some x) True (Some ''db'')
           | None \<Rightarrow> env_row name env_value True (if env_value \<noteq> None then Some ''env'' else None)) of
       None \<Rightarrow> db_fail Panicked
     | Some r \<Rightarrow> db_return (JObject (r @ [(''editable'', JBool True)])))"

record EnvConfig =
  en_database_url :: "string option"
  en_migration_database_url :: "string option"
  en_helius_keys :: "string list"
  en_gmgn_api_key :: "string option"
  en_tg_api_id :: "int option"
  en_tg_api_hash :: "string option"
  en_tg_session_path :: "string option"
  en_telegram_bot_token :: "string option"
  en_telegram_chat_id :: "string option"

fun rows_of :: "json admin list \<Rightarrow> json list admin" where
  "rows_of [] = db_return []"
| "rows_of (m # ms) = db_bind m (\<lambda>r. db_bind (rows_of ms) (\<lambda>rs. db_return (r # rs)))"

definition settings_env :: "admin_env \<Rightarrow> EnvConfig \<Rightarrow> int \<Rightarrow> request_headers \<Rightarrow> json list admin" where
  "settings_env E env now h =
     db_bind (on_auth (require_auth (an_auth E) now h)) (\<lambda>_.
     rows_of
       ([secret_env_row E ''DATABASE_URL'' (en_database_url env)] @
        map (\<lambda>(i, key). env_row_step (''HELIUS_KEY_'' @ show_nat (i + 1)) (Some key)) (enumerate 0 (en_helius_keys env)) @
        [env_row_step ''GMGN_API_KEY'' (en_gmgn_api_key env),
         secret_env_row E ''TG_API_ID'' (map_option show_int (en_tg_api_id env)),
         secret_env_row E ''TG_API_HASH'' (en_tg_api_hash env),
         secret_env_row E ''TG_SESSION_PATH'' (en_tg_session_path env),
         secret_env_row E ''TELEGRAM_BOT_TOKEN'' (en_telegram_bot_token env),
         secret_env_row E ''TELEGRAM_CHAT_ID'' (en_telegram_chat_id env),
         env_row_step ''ADMIN_PASSWORD_HASH_B64'' (ae_var (an_auth E) ''ADMIN_PASSWORD_HASH_B64''),
         env_row_step ''ROBINHOOD_RPC_URL''
           (case ae_var (an_auth E) ''ROBINHOOD_RPC_URL'' of Some v \<Rightarrow> if trim v = [] then None else Some v | None \<Rightarrow> None)]))"

section \<open>Runtime settings\<close>

definition EDITABLE_KEYS :: "string list" where
  "EDITABLE_KEYS = [''large_funding_min_sol'', ''large_funding_min_usd'', ''recipient_max_age_days'', ''preparation_alert_confidence'',
     ''entry_min_liquidity_usd'', ''full_skill_score'', ''full_copyability_score'', ''telegram_concurrency'', ''runtime_profile'']"

datatype RuntimeProfile = ProfileLow | ProfileScale

record runtime_config =
  rg_funding_radar :: FundingRadarConfig
  rg_entry_min_liquidity_usd :: nat
  rg_full_skill_score :: nat
  rg_full_copyability_score :: nat
  rg_telegram_concurrency :: nat
  rg_runtime_profile :: RuntimeProfile

definition runtime_defaults :: "runtime_config \<Rightarrow> string \<Rightarrow> json option" where
  "runtime_defaults config = map_of
     [(''large_funding_min_sol'', count_json (fc_large_funding_min_sol (rg_funding_radar config))),
      (''large_funding_min_usd'', count_json (fc_large_funding_min_usd (rg_funding_radar config))),
      (''recipient_max_age_days'', count_json (fc_recipient_max_age_days (rg_funding_radar config))),
      (''preparation_alert_confidence'', count_json (fc_preparation_alert_confidence (rg_funding_radar config))),
      (''entry_min_liquidity_usd'', count_json (rg_entry_min_liquidity_usd config)),
      (''full_skill_score'', count_json (rg_full_skill_score config)),
      (''full_copyability_score'', count_json (rg_full_copyability_score config)),
      (''telegram_concurrency'', count_json (rg_telegram_concurrency config)),
      (''runtime_profile'', JString (case rg_runtime_profile config of ProfileLow \<Rightarrow> ''low'' | ProfileScale \<Rightarrow> ''scale''))]"

definition settings_runtime_get :: "admin_env \<Rightarrow> runtime_config \<Rightarrow> int \<Rightarrow> request_headers \<Rightarrow> (string \<Rightarrow> json option) admin" where
  "settings_runtime_get E config now h =
     db_bind (on_auth (require_auth (an_auth E) now h)) (\<lambda>_.
     db_500 (db_stmt (\<lambda>db. (\<lambda>key. case ad_settings db key of
        Some (v, _) \<Rightarrow> if key \<in> set EDITABLE_KEYS then Some v else runtime_defaults config key
      | None \<Rightarrow> runtime_defaults config key, db))))"

definition valid_runtime_value :: "admin_env \<Rightarrow> string \<Rightarrow> json \<Rightarrow> bool" where
  "valid_runtime_value E key val =
     (if key = ''runtime_profile'' then as_str val = Some ''low'' \<or> as_str val = Some ''scale''
      else an_as_u64 E val \<noteq> None)"

fun save_loop :: "int \<Rightarrow> (string \<times> json) list \<Rightarrow> nat \<Rightarrow> nat admin" where
  "save_loop now [] applied = db_return applied"
| "save_loop now ((k, v) # pairs) applied =
     db_bind (db_500 (db_stmt (\<lambda>db. ((), db\<lparr>ad_settings := (ad_settings db)(k \<mapsto> (v, now))\<rparr>)))) (\<lambda>_.
     save_loop now pairs (applied + 1))"

definition save_pairs :: "string option \<Rightarrow> json option \<Rightarrow> (string \<times> json) list option \<Rightarrow> (string \<times> json) list" where
  "save_pairs key val settings =
     (case (key, val) of (Some k, Some v) \<Rightarrow> [(k, v)] | _ \<Rightarrow> []) @ (case settings of Some m \<Rightarrow> m | None \<Rightarrow> [])"

definition valid_pairs :: "admin_env \<Rightarrow> (string \<times> json) list \<Rightarrow> bool" where
  "valid_pairs E pairs \<longleftrightarrow> list_all (\<lambda>(k, v). k \<in> set EDITABLE_KEYS \<and> valid_runtime_value E k v) pairs"

definition settings_runtime_save :: "admin_env \<Rightarrow> int \<Rightarrow> request_headers \<Rightarrow> string option \<Rightarrow> json option \<Rightarrow> (string \<times> json) list option \<Rightarrow> json admin" where
  "settings_runtime_save E now h key val settings =
     db_bind (on_auth (require_write_auth (an_auth E) now h)) (\<lambda>_.
     let pairs = save_pairs key val settings
     in if pairs = [] then db_fail (Status 400)
        else if \<not> valid_pairs E pairs then db_fail (Status 400)
        else db_bind (save_loop now pairs 0) (\<lambda>applied.
          db_return (JObject [(''ok'', JBool True), (''applied'', count_json applied)])))"

section \<open>The requests that change something\<close>

datatype mutation =
    AddChannel string "string option" "string option"
  | BulkAddChannels "BulkChannelEntry list"
  | UpdateChannel string "bool option" "string option"
  | RemoveChannel string
  | AddLabel string string string string "string option"
  | RevokeLabel string string int
  | ImportBlocklist string "string list"
  | SetQueuePause string bool
  | SecretSet string string
  | SecretDelete string
  | RuntimeSave "string option" "json option" "(string \<times> json) list option"

fun handle_mutation :: "admin_env \<Rightarrow> int \<Rightarrow> request_headers \<Rightarrow> mutation \<Rightarrow> json admin" where
  "handle_mutation E now h (AddChannel key title username) = add_channel E now h key title username"
| "handle_mutation E now h (BulkAddChannels entries) = bulk_add_channels E now h entries"
| "handle_mutation E now h (UpdateChannel key allowlisted status) = update_channel E now h key allowlisted status"
| "handle_mutation E now h (RemoveChannel key) = remove_channel E now h key"
| "handle_mutation E now h (AddLabel chain address kind disposition reason) = add_label E now h chain address kind disposition reason"
| "handle_mutation E now h (RevokeLabel chain address i) = revoke_label E now h chain address i"
| "handle_mutation E now h (ImportBlocklist chain addresses) = import_blocklist E now h chain addresses"
| "handle_mutation E now h (SetQueuePause name stop) = set_queue_pause E now h name stop"
| "handle_mutation E now h (SecretSet name val) = settings_secret_set E now h name val"
| "handle_mutation E now h (SecretDelete name) = settings_secret_delete E now h name"
| "handle_mutation E now h (RuntimeSave key val settings) = settings_runtime_save E now h key val settings"


section \<open>Guards\<close>

definition auth_same :: "auth_db \<Rightarrow> auth_db \<Rightarrow> bool" where
  "auth_same a b \<longleftrightarrow> au_attempts b = au_attempts a \<and> au_workspaces b = au_workspaces a \<and>
     map (\<lambda>r. r\<lparr>ss_last_seen_at := None\<rparr>) (au_sessions b) = map (\<lambda>r. r\<lparr>ss_last_seen_at := None\<rparr>) (au_sessions a)"

definition live_request :: "auth_env \<Rightarrow> int \<Rightarrow> request_headers \<Rightarrow> auth_db \<Rightarrow> bool" where
  "live_request E now h a =
     (case session_token h of None \<Rightarrow> False | Some token \<Rightarrow> token \<noteq> [] \<and> list_ex (live_session E now token) (au_sessions a))"

definition may_write :: "admin_env \<Rightarrow> int \<Rightarrow> request_headers \<Rightarrow> admin_db \<Rightarrow> bool" where
  "may_write E now h db \<longleftrightarrow> auth_configured (an_auth E) \<and> live_request (an_auth E) now h (ad_auth db)"

definition session_workspace :: "admin_env \<Rightarrow> int \<Rightarrow> request_headers \<Rightarrow> admin_db \<Rightarrow> int option" where
  "session_workspace E now h db =
     (case session_token h of
        None \<Rightarrow> None
      | Some token \<Rightarrow> if token = [] then None
          else Option.bind (find (\<lambda>r. live_session (an_auth E) now token r \<and> ss_workspace r \<noteq> None) (au_sessions (ad_auth db))) ss_workspace)"

definition touched :: "admin_db \<Rightarrow> admin_db \<Rightarrow> bool" where
  "touched s t \<longleftrightarrow> auth_same (ad_auth s) (ad_auth t) \<and> t = s\<lparr>ad_auth := ad_auth t\<rparr>"

lemma auth_same_refl [simp]: "auth_same a a"
  by (simp add: auth_same_def)

lemma auth_same_trans: "auth_same a b \<Longrightarrow> auth_same b c \<Longrightarrow> auth_same a c"
  by (simp add: auth_same_def)

lemma touched_refl [simp]: "touched s s"
  by (simp add: touched_def)

lemma touched_fields:
  "touched s t \<Longrightarrow> ad_channels t = ad_channels s \<and> ad_labels t = ad_labels s \<and> ad_label_ids t = ad_label_ids s \<and>
     ad_next_label t = ad_next_label s \<and> ad_queues t = ad_queues s \<and> ad_secrets t = ad_secrets s \<and> ad_settings t = ad_settings s"
  by (cases s; cases t) (simp add: touched_def)

lemma find_erased:
  "Option.bind (find (\<lambda>r. live_session E now token r \<and> ss_workspace r \<noteq> None) rows) ss_workspace =
   Option.bind (find (\<lambda>r. live_session E now token r \<and> ss_workspace r \<noteq> None) (map (\<lambda>r. r\<lparr>ss_last_seen_at := None\<rparr>) rows)) ss_workspace"
  by (induction rows) (auto simp: live_session_def)

lemma session_workspace_same:
  assumes "auth_same (ad_auth s) (ad_auth t)"
  shows "session_workspace E now h t = session_workspace E now h s"
proof -
  have "map (\<lambda>r. r\<lparr>ss_last_seen_at := None\<rparr>) (au_sessions (ad_auth t)) = map (\<lambda>r. r\<lparr>ss_last_seen_at := None\<rparr>) (au_sessions (ad_auth s))"
    using assms by (simp add: auth_same_def)
  then show ?thesis
    unfolding session_workspace_def
    by (subst (1 2) find_erased) (simp split: option.split)
qed

text \<open>A guard either refuses with a status and leaves everything as it is, or lets the request pass, and then at most the last use of a session moves.\<close>

locale request_guard =
  fixes guard :: "'a admin" and may :: "admin_db \<Rightarrow> 'a \<Rightarrow> bool"
  assumes guard_run: "guard fault (i, db) = (r, j, db') \<Longrightarrow>
    (\<exists>code \<in> {401, 403, 500}. r = Inl (TxAbort (Status code)) \<and> db' = db) \<or> (\<exists>x. r = Inr x \<and> may db x \<and> touched db db')"
begin

lemma refuses:
  assumes "\<And>x. \<not> may db x" "run_db (db_bind guard k) fault db = (r, db')"
  shows "\<exists>code \<in> {401, 403, 500}. r = Inl (TxAbort (Status code)) \<and> db' = db"
proof -
  obtain r0 j t where g: "guard fault (0, db) = (r0, j, t)"
    using prod_cases3 by blast
  then show ?thesis
    using guard_run [OF g] assms by (auto simp: run_db_def db_bind_def)
qed

lemma guard_spec:
  assumes "\<And>s x t. P s \<Longrightarrow> may s x \<Longrightarrow> touched s t \<Longrightarrow> Q x t"
    and "\<And>s code. P s \<Longrightarrow> code \<in> {401, 403, 500} \<Longrightarrow> F (TxAbort (Status code)) s"
  shows "db_spec P guard Q F"
proof (rule db_specI)
  fix fault i s r j s'
  assume "P s" and run: "guard fault (i, s) = (r, j, s')"
  then show "case r of Inl e \<Rightarrow> F e s' | Inr a \<Rightarrow> Q a s'"
    using guard_run [OF run] assms by (elim disjE bexE exE conjE) simp_all
qed

end

lemma erased_touch:
  "map (\<lambda>r. r\<lparr>ss_last_seen_at := None\<rparr>) (map (\<lambda>r. if P r then r\<lparr>ss_last_seen_at := Some now\<rparr> else r) rows) = map (\<lambda>r. r\<lparr>ss_last_seen_at := None\<rparr>) rows"
  by (induction rows) simp_all

lemma validate_keeps: "auth_same db (snd (snd (validate_session E now token fault (i, db))))"
proof (cases "token = [] \<or> fault i")
  case True
  then show ?thesis
    by (cases "token = []") (simp_all add: validate_session_def db_stmt_def db_return_def)
next
  case False
  then show ?thesis
    using erased_touch [of "live_session E now token" now "au_sessions db"] by (simp add: validate_session_def db_stmt_def auth_same_def)
qed

lemma untouched_sessions:
  "\<not> list_ex P rows \<Longrightarrow> map (\<lambda>r. if P r then f r else r) rows = rows"
  by (induction rows) auto

lemma validate_answers:
  assumes run: "validate_session E now token fault (i, db) = (r, j, db')"
  shows "r = Inl TxFault \<and> db' = db \<or> r = Inr True \<and> token \<noteq> [] \<and> list_ex (live_session E now token) (au_sessions db) \<or> r = Inr False \<and> db' = db"
proof (cases "token = [] \<or> fault i")
  case True
  then show ?thesis
    using run by (cases "token = []") (simp_all add: validate_session_def db_stmt_def db_return_def)
next
  case False
  then have "r = Inr (list_ex (live_session E now token) (au_sessions db))"
    "db' = db\<lparr>au_sessions := map (\<lambda>r. if live_session E now token r then r\<lparr>ss_last_seen_at := Some now\<rparr> else r) (au_sessions db)\<rparr>"
    using run by (simp_all add: validate_session_def db_stmt_def)
  then show ?thesis
    using False untouched_sessions [of "live_session E now token" "au_sessions db" "\<lambda>r. r\<lparr>ss_last_seen_at := Some now\<rparr>"]
    by (cases "list_ex (live_session E now token) (au_sessions db)") simp_all
qed

lemma map_abort_id: "map_abort id e = e"
  by (cases e) simp_all

lemma on_auth_run:
  "on_auth m fault (i, db) = (r, j, db') \<Longrightarrow> \<exists>a. m fault (i, ad_auth db) = (r, j, a) \<and> db' = db\<lparr>ad_auth := a\<rparr>"
  by (auto simp: on_auth_def db_zoom_def map_abort_id split: prod.splits sum.splits)

lemma require_auth_run:
  assumes "require_auth E now h fault (i, a) = (r, j, b)"
  shows "(\<exists>code \<in> {401, 500}. r = Inl (TxAbort (Status code)) \<and> b = a) \<or>
    (r = Inr () \<and> (auth_configured E \<longrightarrow> live_request E now h a) \<and> auth_same a b)"
proof (cases "auth_configured E \<and> session_token h \<noteq> None")
  case True
  then obtain token where t: "session_token h = Some token" "auth_configured E"
    by blast
  obtain r0 j0 c where v: "validate_session E now token fault (i, a) = (r0, j0, c)"
    using prod_cases3 by blast
  have "auth_same a c"
    using validate_keeps [of a E now token fault i] v by simp
  then show ?thesis
    using validate_answers [OF v] v assms t
    by (auto simp: require_auth_def db_bind_def db_500_def db_return_def db_fail_def live_request_def)
next
  case False
  then show ?thesis
    using assms by (auto simp: require_auth_def db_return_def db_fail_def live_request_def split: if_splits option.splits)
qed

lemma require_workspace_run:
  assumes "require_workspace (an_auth E) now h fault (i, ad_auth db) = (r, j, b)"
  shows "b = ad_auth db \<and> ((\<exists>code \<in> {401, 500}. r = Inl (TxAbort (Status code))) \<or> (\<exists>w. r = Inr w \<and> session_workspace E now h db = Some w))"
  using assms
  by (auto simp: require_workspace_def workspace_for_session_def db_bind_def db_500_def db_stmt_def db_return_def db_fail_def
      session_workspace_def split: if_splits option.splits)

interpretation reading: request_guard "on_auth (require_auth (an_auth E) now h)"
    "\<lambda>db _. auth_configured (an_auth E) \<longrightarrow> live_request (an_auth E) now h (ad_auth db)" for E now h
proof
  fix fault i db r j db'
  assume "on_auth (require_auth (an_auth E) now h) fault (i, db) = (r, j, db')"
  then obtain a where a: "require_auth (an_auth E) now h fault (i, ad_auth db) = (r, j, a)" and db': "db' = db\<lparr>ad_auth := a\<rparr>"
    using on_auth_run by blast
  show "(\<exists>code \<in> {401, 403, 500}. r = Inl (TxAbort (Status code)) \<and> db' = db) \<or>
      (\<exists>x. r = Inr x \<and> (auth_configured (an_auth E) \<longrightarrow> live_request (an_auth E) now h (ad_auth db)) \<and> touched db db')"
    using require_auth_run [OF a] db' by (auto simp: touched_def)
qed

interpretation writing: request_guard "on_auth (require_write_auth (an_auth E) now h)" "\<lambda>db _. may_write E now h db" for E now h
proof
  fix fault i db r j db'
  assume "on_auth (require_write_auth (an_auth E) now h) fault (i, db) = (r, j, db')"
  then obtain a where a: "require_write_auth (an_auth E) now h fault (i, ad_auth db) = (r, j, a)" and db': "db' = db\<lparr>ad_auth := a\<rparr>"
    using on_auth_run by blast
  show "(\<exists>code \<in> {401, 403, 500}. r = Inl (TxAbort (Status code)) \<and> db' = db) \<or> (\<exists>x. r = Inr x \<and> may_write E now h db \<and> touched db db')"
  proof (cases "auth_configured (an_auth E)")
    case True
    then have "require_auth (an_auth E) now h fault (i, ad_auth db) = (r, j, a)"
      using a by (simp add: require_write_auth_def)
    from require_auth_run [OF this] True show ?thesis
      using db' by (auto simp: touched_def may_write_def)
  qed (use a db' in \<open>auto simp: require_write_auth_def db_fail_def\<close>)
qed

interpretation owning: request_guard "on_auth (require_workspace (an_auth E) now h)" "\<lambda>db w. session_workspace E now h db = Some w" for E now h
proof
  fix fault i db r j db'
  assume "on_auth (require_workspace (an_auth E) now h) fault (i, db) = (r, j, db')"
  then obtain a where a: "require_workspace (an_auth E) now h fault (i, ad_auth db) = (r, j, a)" and db': "db' = db\<lparr>ad_auth := a\<rparr>"
    using on_auth_run by blast
  show "(\<exists>code \<in> {401, 403, 500}. r = Inl (TxAbort (Status code)) \<and> db' = db) \<or>
      (\<exists>x. r = Inr x \<and> session_workspace E now h db = Some x \<and> touched db db')"
    using require_workspace_run [OF a] db' by auto
qed

section \<open>What a request keeps\<close>

definition answered :: "auth_error tx_error \<Rightarrow> bool" where
  "answered e \<longleftrightarrow> (case e of TxAbort (Status code) \<Rightarrow> code \<in> {400, 401, 403, 404, 500, 503} | _ \<Rightarrow> False)"

text \<open>From a state of \<open>I\<close> the program ends in a state of \<open>I\<close>, with a result or with a status.\<close>

definition tame :: "(admin_db \<Rightarrow> bool) \<Rightarrow> 'a admin \<Rightarrow> bool" where
  "tame I m \<longleftrightarrow> db_spec I m (\<lambda>_. I) (\<lambda>e s. answered e \<and> I s)"

lemma tame_return: "tame I (db_return x)"
  by (auto simp: tame_def intro: db_spec_return)

lemma tame_fail: "code \<in> {400, 401, 403, 404, 500, 503} \<Longrightarrow> tame I (db_fail (Status code))"
  unfolding tame_def by (rule db_spec_fail) (simp add: answered_def)

lemma tame_bind: "tame I m \<Longrightarrow> (\<And>x. tame I (k x)) \<Longrightarrow> tame I (db_bind m k)"
  unfolding tame_def by (rule db_spec_bind)

lemma tame_500: "(\<And>s. I s \<Longrightarrow> I (snd (g s))) \<Longrightarrow> tame I (db_500 (db_stmt g))"
  unfolding tame_def by (rule db_specI) (auto simp: db_500_def db_stmt_def answered_def split: if_splits)

lemma tame_500_try: "(\<And>s a s'. I s \<Longrightarrow> g s = Inr (a, s') \<Longrightarrow> I s') \<Longrightarrow> tame I (db_500 (db_try g))"
  unfolding tame_def by (rule db_specI) (auto simp: db_500_def db_try_def answered_def split: if_splits sum.splits)

lemma tame_write:
  fixes E :: admin_env
  assumes "\<And>s t. I s \<Longrightarrow> touched s t \<Longrightarrow> I t" "tame I k"
  shows "tame I (db_bind (on_auth (require_write_auth (an_auth E) now h)) (\<lambda>_. k))"
proof -
  have 1: "db_spec I (on_auth (require_write_auth (an_auth E) now h)) (\<lambda>_. I) (\<lambda>e s. answered e \<and> I s)"
    by (rule writing.guard_spec) (use assms(1) in \<open>auto simp: answered_def\<close>)
  show ?thesis
    unfolding tame_def by (rule db_spec_bind [OF 1 assms(2) [unfolded tame_def]])
qed

lemma tame_owned:
  fixes E :: admin_env
  assumes "\<And>s t. I s \<Longrightarrow> touched s t \<Longrightarrow> I t" "\<And>s w. I s \<Longrightarrow> session_workspace E now h s = Some w \<Longrightarrow> tame I (k w)"
  shows "tame I (db_bind (on_auth (require_workspace (an_auth E) now h)) k)"
proof -
  have 1: "db_spec I (on_auth (require_workspace (an_auth E) now h)) (\<lambda>w s. I s \<and> tame I (k w)) (\<lambda>e s. answered e \<and> I s)"
    by (rule owning.guard_spec) (use assms in \<open>auto simp: answered_def\<close>)
  have 2: "db_spec (\<lambda>s. I s \<and> tame I (k w)) (k w) (\<lambda>_. I) (\<lambda>e s. answered e \<and> I s)" for w
    by (cases "tame I (k w)") (auto simp: tame_def db_spec_def)
  show ?thesis
    unfolding tame_def by (rule db_spec_bind [OF 1 2])
qed

lemmas tame_intros = tame_return tame_bind tame_500 tame_fail


lemma bulk_loop_tame:
  assumes "\<And>s cs. I s \<Longrightarrow> I (s\<lparr>ad_channels := cs\<rparr>)"
  shows "tame I (bulk_loop entries n)"
proof (induction entries arbitrary: n)
  case (Cons x xs)
  show ?case
    using assms by (auto split: prod.split intro!: tame_intros Cons.IH simp: upsert_channel_def)
qed (simp add: tame_return)

lemma save_loop_tame:
  assumes "\<And>s k v. I s \<Longrightarrow> (k, v) \<in> set pairs \<Longrightarrow> I (s\<lparr>ad_settings := (ad_settings s)(k \<mapsto> (v, now))\<rparr>)"
  shows "tame I (save_loop now pairs n)"
  using assms by (induction pairs arbitrary: n) (auto intro!: tame_intros)

lemma import_step_tame:
  assumes "\<And>s n l fault. I s \<Longrightarrow> import_blocklist_tx fault (\<lambda>_. now) w c addresses ''admin blocklist import'' (ad_labels s) = (Inr n, l) \<Longrightarrow> I (with_labels l s)"
  shows "tame I (import_step now w c addresses)"
  unfolding tame_def
  by (rule db_specI) (use assms in \<open>auto simp: import_step_def answered_def split: prod.splits sum.splits\<close>)

text \<open>An invariant of the tables that no single statement of a request breaks: the writes to labels are those for the workspace of the session.\<close>

locale request_invariant =
  fixes E :: admin_env and now :: int and h :: request_headers and I :: "admin_db \<Rightarrow> bool" and sw :: "int option"
  assumes touch: "I s \<Longrightarrow> touched s t \<Longrightarrow> I t"
    and session: "I s \<Longrightarrow> session_workspace E now h s = sw"
    and channels: "I s \<Longrightarrow> I (s\<lparr>ad_channels := cs\<rparr>)"
    and queues: "I s \<Longrightarrow> I (s\<lparr>ad_queues := qs\<rparr>)"
    and secrets: "I s \<Longrightarrow> I (s\<lparr>ad_secrets := ss\<rparr>)"
    and settings: "I s \<Longrightarrow> k \<in> set EDITABLE_KEYS \<Longrightarrow> valid_runtime_value E k v \<Longrightarrow>
      I (s\<lparr>ad_settings := (ad_settings s)(k \<mapsto> (v, now))\<rparr>)"
    and wallets: "I s \<Longrightarrow> I (s\<lparr>ad_labels := (ad_labels s)\<lparr>ld_wallets := ws\<rparr>\<rparr>)"
    and labels: "I s \<Longrightarrow> sw = Some w \<Longrightarrow> ld_labels l = ld_labels (ad_labels s) @ extra \<Longrightarrow> \<forall>r \<in> set extra. lb_workspace r = w \<Longrightarrow>
      I (with_labels l s)"
    and revokes: "I s \<Longrightarrow> sw = Some w \<Longrightarrow> I (snd (revoked_rows now i w c a s))"
begin

lemma write_keeps: "tame I k \<Longrightarrow> tame I (db_bind (on_auth (require_write_auth (an_auth E) now h)) (\<lambda>_. k))"
  by (rule tame_write) (use touch in auto)

lemma owned_keeps: "(\<And>w. sw = Some w \<Longrightarrow> tame I (k w)) \<Longrightarrow> tame I (db_bind (on_auth (require_workspace (an_auth E) now h)) k)"
  by (rule tame_owned) (use touch session in auto)

lemma chain_keeps: "(\<And>c. tame I (k c)) \<Longrightarrow> tame I (db_bind (require_chain chain) k)"
  by (rule tame_bind) (auto simp: require_chain_def intro: tame_intros split: option.split)

lemma add_label_keeps: "tame I (add_label E now h chain address kind disposition reason)"
  unfolding add_label_def
  by (intro write_keeps owned_keeps chain_keeps tame_bind)
    (auto simp: admin_upsert_wallet_def insert_admin_label_def add_wallet_label_def insert_label_def
      intro!: tame_intros tame_500_try wallets labels split: option.split if_splits sum.splits)

lemma revoke_label_keeps: "tame I (revoke_label E now h chain address i)"
  unfolding revoke_label_def
  by (intro write_keeps owned_keeps chain_keeps tame_bind) (auto intro!: tame_intros revokes)

lemma import_blocklist_keeps: "tame I (import_blocklist E now h chain addresses)"
  unfolding import_blocklist_def
proof (intro write_keeps owned_keeps chain_keeps tame_bind tame_return)
  fix w c
  assume w: "sw = Some w"
  show "tame I (import_step now w (chain_kind_as_str c) addresses)"
  proof (rule import_step_tame)
    fix s n l fault
    assume s: "I s" and run: "import_blocklist_tx fault (\<lambda>_. now) w (chain_kind_as_str c) addresses ''admin blocklist import'' (ad_labels s) = (Inr n, l)"
    then obtain j m where "import_loop fault (\<lambda>_. now) w (chain_kind_as_str c) ''admin blocklist import'' 1 addresses 0 (ad_labels s) = Inr (j, m, l)"
      by (auto simp: import_blocklist_tx_def split: if_splits sum.splits)
    from import_loop_ok [OF this] show "I (with_labels l s)"
      using labels [OF s w] by (auto simp: block_row_def)
  qed
qed

lemma runtime_save_keeps: "tame I (settings_runtime_save E now h key val pairs)"
proof -
  have "tame I (save_loop now ps n)" if "valid_pairs E ps" for ps n
    by (rule save_loop_tame) (use that settings in \<open>auto simp: list_all_iff valid_pairs_def\<close>)
  then show ?thesis
    by (simp add: settings_runtime_save_def Let_def tame_intros write_keeps)
qed

lemma mutation_keeps: "tame I (handle_mutation E now h m)"
proof (cases m)
  case (BulkAddChannels entries)
  then show ?thesis
    using channels by (auto simp: bulk_add_channels_def intro!: write_keeps tame_intros bulk_loop_tame)
next
  case (SecretSet name val)
  then show ?thesis
    using secrets by (auto simp: settings_secret_set_def intro!: write_keeps tame_intros split: option.split)
qed (use runtime_save_keeps add_label_keeps revoke_label_keeps import_blocklist_keeps channels queues secrets in
  \<open>auto simp: add_channel_def update_channel_def remove_channel_def map_channel_def upsert_channel_def set_queue_pause_def
    settings_secret_delete_def intro!: write_keeps tame_intros\<close>)

lemma mutation_run:
  assumes "I db" "run_db (handle_mutation E now h m) fault db = (r, db')"
  shows "I db' \<and> (\<forall>e. r = Inl e \<longrightarrow> answered e)"
  using run_db_spec [OF mutation_keeps [unfolded tame_def] assms] by (auto split: sum.splits)

end


section \<open>Every change needs a session\<close>

lemma mutation_is_guarded:
  "\<exists>k. handle_mutation E now h m = db_bind (on_auth (require_write_auth (an_auth E) now h)) (\<lambda>_. k)"
  by (cases m) (auto simp: add_channel_def bulk_add_channels_def update_channel_def remove_channel_def add_label_def revoke_label_def
      import_blocklist_def set_queue_pause_def settings_secret_set_def settings_secret_delete_def settings_runtime_save_def)

lemma unconfigured_guard: "\<not> auth_configured (an_auth E) \<Longrightarrow> on_auth (require_write_auth (an_auth E) now h) = db_fail (Status 403)"
  by (intro ext) (auto simp: on_auth_def db_zoom_def require_write_auth_def db_fail_def)

interpretation quiet: request_invariant E now h "\<lambda>s. auth_same (ad_auth db) (ad_auth s)" "session_workspace E now h db" for E now h db
  by unfold_locales (auto simp: touched_def with_labels_def Let_def revoked_rows_def session_workspace_same intro: auth_same_trans)

text \<open>C28: No request changes anything without a session. Whatever the request and whichever statements fail: an error is answered with one of
  the statuses 400, 401, 403, 404, 500 and 503, the attempts, workspaces and sessions stay as they are but for the last use of a session, and
  if no password is configured (403) or the cookie holds no token of a live session, the request is refused with 401, 403 or 500
  and no table has changed.\<close>

theorem mutations_need_a_session:
  assumes "run_db (handle_mutation E now h m) fault db = (r, db')"
  shows "(\<forall>e. r = Inl e \<longrightarrow> answered e) \<and> auth_same (ad_auth db) (ad_auth db') \<and>
    (\<not> may_write E now h db \<longrightarrow> db' = db \<and> (\<exists>code \<in> {401, 403, 500}. r = Inl (TxAbort (Status code)))) \<and>
    (\<not> auth_configured (an_auth E) \<longrightarrow> r = Inl (TxAbort (Status 403)))"
proof -
  obtain k where k: "handle_mutation E now h m = db_bind (on_auth (require_write_auth (an_auth E) now h)) (\<lambda>_. k)"
    using mutation_is_guarded by blast
  have "\<not> may_write E now h db \<Longrightarrow> \<exists>code \<in> {401, 403, 500}. r = Inl (TxAbort (Status code)) \<and> db' = db"
    using writing.refuses assms k by metis
  moreover have "\<not> auth_configured (an_auth E) \<Longrightarrow> r = Inl (TxAbort (Status 403))"
    using assms k by (simp add: unconfigured_guard run_db_def db_fail_run)
  ultimately show ?thesis
    using quiet.mutation_run [OF auth_same_refl assms] by auto
qed

definition sample_admin :: admin_env where
  "sample_admin = \<lparr>an_auth = sample_auth\<lparr>ae_var := (\<lambda>v. if v = ''SECRET_STORE_KEY'' then Some ''k'' else ae_var sample_auth v)\<rparr>,
     an_digest = id, an_encrypt = (\<lambda>key p. Some (''n'', rev p)), an_decrypt = (\<lambda>key n c. Some (rev c)),
     an_as_u64 = (\<lambda>v. case v of JBool b \<Rightarrow> Some 1 | _ \<Rightarrow> None)\<rparr>"

definition sample_session :: "string \<Rightarrow> int \<Rightarrow> session_row" where
  "sample_session token w = \<lparr>ss_token_hash = token, ss_created_at = 0, ss_expires_at = 1000, ss_last_seen_at = None, ss_ip = None,
     ss_user_agent = None, ss_workspace = Some w\<rparr>"

definition sample_label :: "int \<Rightarrow> label_row" where
  "sample_label w = \<lparr>lb_workspace = w, lb_chain = ''solana'', lb_address = ''A'', lb_kind = ''x'', lb_disposition = ''skip'', lb_reason = [],
     lb_source = ''manual'', lb_confidence = 100, lb_manual = True, lb_expires = None, lb_revoked = None\<rparr>"

definition sample_admin_db :: admin_db where
  "sample_admin_db = \<lparr>ad_auth = \<lparr>au_sessions = [sample_session ''t'' 7, sample_session ''u'' 8], au_attempts = [], au_workspaces = []\<rparr>,
     ad_channels = [], ad_labels = \<lparr>ld_workspaces = [7, 8], ld_wallets = Map.empty, ld_labels = [sample_label 7, sample_label 8]\<rparr>,
     ad_label_ids = [1, 2], ad_next_label = 3, ad_queues = Map.empty, ad_secrets = Map.empty, ad_settings = Map.empty\<rparr>"

theorem mutations_need_a_session_witness:
  "snd (run_db (handle_mutation sample_admin 5 no_headers (AddChannel ''c'' None None)) (\<lambda>_. False) sample_admin_db) = sample_admin_db"
  using mutations_need_a_session [of sample_admin 5 no_headers "AddChannel ''c'' None None" "\<lambda>_. False" sample_admin_db, OF surjective_pairing]
  by (simp add: may_write_def live_request_def session_token_def no_headers_def)

section \<open>Tenants\<close>

definition rows_of_workspace :: "int \<Rightarrow> admin_db \<Rightarrow> (int \<times> label_row) list" where
  "rows_of_workspace v db = filter (\<lambda>x. lb_workspace (snd x) = v) (label_rows db)"

definition numbered :: "admin_db \<Rightarrow> bool" where
  "numbered db \<longleftrightarrow> length (ad_label_ids db) = length (ld_labels (ad_labels db))"

lemma appended_labels:
  assumes "numbered s" "ld_labels l = ld_labels (ad_labels s) @ extra" "\<forall>r \<in> set extra. lb_workspace r = w"
  shows "numbered (with_labels l s) \<and> (w \<noteq> v \<longrightarrow> rows_of_workspace v (with_labels l s) = rows_of_workspace v s)"
proof -
  have "label_rows (with_labels l s) = label_rows s @ zip (map (\<lambda>k. ad_next_label s + int k) [0..<length extra]) extra"
    using assms(1,2) by (simp add: label_rows_def with_labels_def Let_def numbered_def)
  moreover have "filter (\<lambda>x. lb_workspace (snd x) = v) (zip ns extra) = []" if "w \<noteq> v" for ns :: "int list"
    using that assms(3) by (auto simp: filter_empty_conv dest: set_zip_rightD)
  ultimately show ?thesis
    using assms(1,2) by (simp add: numbered_def rows_of_workspace_def with_labels_def Let_def)
qed

lemma zip_map_snd: "length ns = length xs \<Longrightarrow> zip ns (map f (zip ns xs)) = map (\<lambda>x. (fst x, f x)) (zip ns xs)"
  by (induction ns xs rule: list_induct2) simp_all

lemma revoked_labels:
  assumes "numbered s"
  shows "numbered (snd (revoked_rows now i w c a s)) \<and>
    (w \<noteq> v \<longrightarrow> rows_of_workspace v (snd (revoked_rows now i w c a s)) = rows_of_workspace v s)"
proof -
  let ?hit = "\<lambda>x. addressed i w c a x \<and> lb_revoked (snd x) = None"
  let ?f = "\<lambda>x. if ?hit x then (snd x)\<lparr>lb_revoked := Some now\<rparr> else snd x"
  have rows: "label_rows (snd (revoked_rows now i w c a s)) = map (\<lambda>x. (fst x, ?f x)) (label_rows s)"
    using assms by (simp add: label_rows_def revoked_rows_def Let_def numbered_def zip_map_snd)
  have "filter (\<lambda>x. lb_workspace (snd x) = v) (map (\<lambda>x. (fst x, ?f x)) xs) = filter (\<lambda>x. lb_workspace (snd x) = v) xs" if "w \<noteq> v" for xs
    using that by (induction xs) (auto simp: addressed_def)
  then show ?thesis
    using assms unfolding rows_of_workspace_def rows by (simp add: numbered_def revoked_rows_def Let_def label_rows_def)
qed

interpretation tenant: request_invariant E now h
    "\<lambda>s. auth_same (ad_auth db) (ad_auth s) \<and> numbered s \<and>
       (session_workspace E now h db \<noteq> Some v \<longrightarrow> rows_of_workspace v s = rows_of_workspace v db)"
    "session_workspace E now h db" for E now h db v
proof unfold_locales
  fix s t
  assume "auth_same (ad_auth db) (ad_auth s) \<and> numbered s \<and>
       (session_workspace E now h db \<noteq> Some v \<longrightarrow> rows_of_workspace v s = rows_of_workspace v db)" "touched s t"
  then show "auth_same (ad_auth db) (ad_auth t) \<and> numbered t \<and>
       (session_workspace E now h db \<noteq> Some v \<longrightarrow> rows_of_workspace v t = rows_of_workspace v db)"
    using touched_fields [of s t] auth_same_trans by (auto simp: touched_def numbered_def rows_of_workspace_def label_rows_def)
next
  fix s :: admin_db and w and l :: label_db and extra
  assume s: "auth_same (ad_auth db) (ad_auth s) \<and> numbered s \<and>
       (session_workspace E now h db \<noteq> Some v \<longrightarrow> rows_of_workspace v s = rows_of_workspace v db)"
    and "session_workspace E now h db = Some w" "ld_labels l = ld_labels (ad_labels s) @ extra" "\<forall>r \<in> set extra. lb_workspace r = w"
  then show "auth_same (ad_auth db) (ad_auth (with_labels l s)) \<and> numbered (with_labels l s) \<and>
       (session_workspace E now h db \<noteq> Some v \<longrightarrow> rows_of_workspace v (with_labels l s) = rows_of_workspace v db)"
    using appended_labels [of s l extra w v] by (auto simp: with_labels_def Let_def)
next
  fix s w i c a
  assume "auth_same (ad_auth db) (ad_auth s) \<and> numbered s \<and>
       (session_workspace E now h db \<noteq> Some v \<longrightarrow> rows_of_workspace v s = rows_of_workspace v db)" "session_workspace E now h db = Some w"
  then show "auth_same (ad_auth db) (ad_auth (snd (revoked_rows now i w c a s))) \<and> numbered (snd (revoked_rows now i w c a s)) \<and>
       (session_workspace E now h db \<noteq> Some v \<longrightarrow> rows_of_workspace v (snd (revoked_rows now i w c a s)) = rows_of_workspace v db)"
    using revoked_labels [of s now i w c a v] by (auto simp: revoked_rows_def Let_def)
qed (auto simp: session_workspace_same numbered_def rows_of_workspace_def label_rows_def)


lemma touched_trans: "touched a b \<Longrightarrow> touched b c \<Longrightarrow> touched a c"
  using touched_fields [of a b] touched_fields [of b c] auth_same_trans [of "ad_auth a" "ad_auth b" "ad_auth c"]
  by (auto simp: touched_def intro!: admin_db.equality)

lemma label_listing_rows:
  "x \<in> set (label_listing now w c address db) \<Longrightarrow> \<exists>r. (fst x, r) \<in> set (label_rows db) \<and> lb_workspace r = w"
  by (auto simp: label_listing_def)

lemma list_labels_run:
  assumes "run_db (list_labels E now h chain address) fault db = (Inr out, db')"
  shows "\<exists>w. session_workspace E now h db = Some w \<and> (\<forall>x \<in> set out. \<exists>r. (fst x, r) \<in> set (label_rows db) \<and> lb_workspace r = w)"
proof -
  let ?Q = "\<lambda>out (s :: admin_db). \<exists>w. session_workspace E now h db = Some w \<and> (\<forall>x \<in> set out. \<exists>r. (fst x, r) \<in> set (label_rows db) \<and> lb_workspace r = w)"
  have "db_spec (touched db) (list_labels E now h chain address) ?Q (\<lambda>_ _. True)"
    unfolding list_labels_def
  proof (rule db_spec_bind)
    show "db_spec (touched db) (on_auth (require_auth (an_auth E) now h)) (\<lambda>_. touched db) (\<lambda>_ _. True)"
      by (rule reading.guard_spec) (use touched_trans in blast)+
    show "db_spec (touched db) (db_bind (on_auth (require_workspace (an_auth E) now h)) (\<lambda>w. db_bind (require_chain chain) (\<lambda>c.
        db_500 (db_stmt (\<lambda>db. (label_listing now w (chain_kind_as_str c) address db, db)))))) ?Q (\<lambda>_ _. True)"
    proof (rule db_spec_bind)
      show "db_spec (touched db) (on_auth (require_workspace (an_auth E) now h)) (\<lambda>w s. touched db s \<and> session_workspace E now h db = Some w) (\<lambda>_ _. True)"
      proof (rule owning.guard_spec)
        fix s x t
        assume "touched db s" "session_workspace E now h s = Some x" "touched s t"
        then show "touched db t \<and> session_workspace E now h db = Some x"
          using touched_trans [of db s t] session_workspace_same [of db s] by (simp add: touched_def)
      qed simp
      show "db_spec (\<lambda>s. touched db s \<and> session_workspace E now h db = Some w) (db_bind (require_chain chain) (\<lambda>c.
          db_500 (db_stmt (\<lambda>db. (label_listing now w (chain_kind_as_str c) address db, db))))) ?Q (\<lambda>_ _. True)" for w
      proof (rule db_specI)
        fix fault i s r j s'
        assume s: "touched db s \<and> session_workspace E now h db = Some w"
          and run: "db_bind (require_chain chain) (\<lambda>c. db_500 (db_stmt (\<lambda>db. (label_listing now w (chain_kind_as_str c) address db, db)))) fault (i, s) = (r, j, s')"
        have "label_rows s = label_rows db"
          using touched_fields [of db s] s by (simp add: label_rows_def)
        then have "\<forall>x \<in> set (label_listing now w c address s). \<exists>r. (fst x, r) \<in> set (label_rows db) \<and> lb_workspace r = w" for c
          using label_listing_rows by metis
        then show "case r of Inl e \<Rightarrow> True | Inr out \<Rightarrow> ?Q out s'"
          using s run by (auto simp: require_chain_def db_bind_def db_fail_def db_return_def db_500_def db_stmt_def split: option.splits if_splits)
      qed
    qed
  qed
  from run_db_spec [OF this touched_refl assms] show ?thesis
    by simp
qed

text \<open>C29: The labels of a workspace are the business of its sessions alone. No request of a session of another workspace, or of none, adds,
  changes or removes a row of the labels of a workspace, whatever label id, chain and address it names and whichever statements fail,
  and the list of labels that a session is shown holds rows of its own workspace only.\<close>

theorem tenants_are_isolated:
  assumes "numbered db"
  shows "numbered (snd (run_db (handle_mutation E now h m) fault db)) \<and>
    (session_workspace E now h db \<noteq> Some v \<longrightarrow>
       rows_of_workspace v (snd (run_db (handle_mutation E now h m) fault db)) = rows_of_workspace v db) \<and>
    (\<forall>out db'. run_db (list_labels E now h chain address) fault db = (Inr out, db') \<longrightarrow>
       (\<exists>w. session_workspace E now h db = Some w \<and> (\<forall>x \<in> set out. \<exists>r. (fst x, r) \<in> set (label_rows db) \<and> lb_workspace r = w)))"
  using tenant.mutation_run [of db db E now h v m fault, OF _ surjective_pairing] list_labels_run assms by simp

definition sample_cookie :: "string \<Rightarrow> request_headers" where
  "sample_cookie token = no_headers\<lparr>rh_cookie := Some (''swi_session='' @ token)\<rparr>"

lemma sample_token: "session_token (sample_cookie ''t'') = Some ''t''" "session_token (sample_cookie ''u'') = Some ''u''"
  by code_simp+

theorem tenants_are_isolated_witness:
  "rows_of_workspace 8 (snd (run_db (handle_mutation sample_admin 5 (sample_cookie ''t'') (RevokeLabel ''solana'' ''A'' 2)) (\<lambda>_. False) sample_admin_db)) =
     [(2, sample_label 8)]"
proof -
  have "numbered sample_admin_db" "session_workspace sample_admin 5 (sample_cookie ''t'') sample_admin_db \<noteq> Some 8"
    "rows_of_workspace 8 sample_admin_db = [(2, sample_label 8)]"
    by (simp_all add: numbered_def sample_admin_db_def session_workspace_def sample_token live_session_def sample_session_def sample_admin_def
        sample_auth_def rows_of_workspace_def label_rows_def sample_label_def)
  then show ?thesis
    using tenants_are_isolated [of sample_admin_db sample_admin 5 "sample_cookie ''t''" "RevokeLabel ''solana'' ''A'' 2" "\<lambda>_. False" 8] by simp
qed

section \<open>Secrets and settings\<close>

lemma secret_set_run:
  assumes "run_db (settings_secret_set E now h name val) fault db = (Inr a, db')"
  shows "\<exists>key n c. secret_store_key E = Some key \<and> name \<in> set SECRET_KEYS \<and> an_encrypt E key (trim val) = Some (n, c) \<and>
    ad_secrets db' = (ad_secrets db)(name \<mapsto> \<lparr>sr_nonce = n, sr_ciphertext = c, sr_updated_at = now\<rparr>) \<and> may_write E now h db"
proof -
  obtain r0 j s where g: "on_auth (require_write_auth (an_auth E) now h) fault (0, db) = (r0, j, s)"
    using prod_cases3 by blast
  then show ?thesis
    using writing.guard_run [OF g] touched_fields [of db s] assms
    by (auto simp: run_db_def settings_secret_set_def db_bind_def db_500_def db_stmt_def db_fail_def db_return_def
        split: if_splits option.splits prod.splits)
qed

lemma secret_delete_run:
  assumes "run_db (settings_secret_delete E now h name) fault db = (Inr a, db')"
  shows "ad_secrets db' = (ad_secrets db)(name := None)"
proof -
  obtain r0 j s where g: "on_auth (require_write_auth (an_auth E) now h) fault (0, db) = (r0, j, s)"
    using prod_cases3 by blast
  then show ?thesis
    using writing.guard_run [OF g] touched_fields [of db s] assms
    by (auto simp: run_db_def settings_secret_delete_def db_bind_def db_500_def db_stmt_def db_fail_def db_return_def
        split: if_splits option.splits prod.splits)
qed

lemma resolve_run:
  "run_db (resolve_secret E env_value name) fault db =
     (Inr (case (case secret_store_key E of None \<Rightarrow> None
                 | Some key \<Rightarrow> if fault 0 then None else Option.bind (ad_secrets db name) (\<lambda>r. an_decrypt E key (sr_nonce r) (sr_ciphertext r))) of
             Some v \<Rightarrow> Some v | None \<Rightarrow> env_value), db)"
  by (simp add: run_db_def resolve_secret_def db_bind_def db_unwrap_or_def db_stmt_def db_return_def split: option.split)

text \<open>C30: Secrets read back. If decryption undoes encryption, then after a successful write of a secret its readers get the trimmed
  value and after a successful removal the value of the environment; the other secrets read as before, the stored
  row holds only the nonce and the ciphertext, and only names of the allowlist are ever written. A read that fails gives the
  value of the environment even when a stored one exists.\<close>

theorem secrets_read_back:
  assumes "\<forall>key p n c. an_encrypt E key p = Some (n, c) \<longrightarrow> an_decrypt E key n c = Some p"
    and "run_db (settings_secret_set E now h name val) fault db = (Inr a, db')"
    and "run_db (settings_secret_delete E now h2 name) fault2 db' = (Inr b, db'')"
  shows "run_db (resolve_secret E env_value name) (\<lambda>_. False) db' = (Inr (Some (trim val)), db') \<and>
    run_db (resolve_secret E env_value name) (\<lambda>_. False) db'' = (Inr env_value, db'') \<and>
    run_db (resolve_secret E env_value name) (\<lambda>_. True) db' = (Inr env_value, db') \<and>
    (\<forall>other. other \<noteq> name \<longrightarrow> fst (run_db (resolve_secret E env_value other) (\<lambda>_. False) db') =
        fst (run_db (resolve_secret E env_value other) (\<lambda>_. False) db)) \<and>
    name \<in> set SECRET_KEYS \<and>
    (\<exists>key n c. secret_store_key E = Some key \<and> an_encrypt E key (trim val) = Some (n, c) \<and>
        ad_secrets db' name = Some \<lparr>sr_nonce = n, sr_ciphertext = c, sr_updated_at = now\<rparr>)"
proof -
  obtain key n c where k: "secret_store_key E = Some key" "name \<in> set SECRET_KEYS" "an_encrypt E key (trim val) = Some (n, c)"
    "ad_secrets db' = (ad_secrets db)(name \<mapsto> \<lparr>sr_nonce = n, sr_ciphertext = c, sr_updated_at = now\<rparr>)"
    using secret_set_run [OF assms(2)] by blast
  moreover have "an_decrypt E key n c = Some (trim val)"
    using assms(1) k(3) by blast
  ultimately show ?thesis
    using secret_delete_run [OF assms(3)] by (simp add: resolve_run)
qed

lemma sample_store_key: "secret_store_key sample_admin = Some ''k''"
  by code_simp

definition saved_rows :: "int \<Rightarrow> (string \<times> json) list \<Rightarrow> string \<Rightarrow> (json \<times> int) option" where
  "saved_rows now pairs = map_of (rev (map (\<lambda>(k, v). (k, (v, now))) pairs))"

lemma save_loop_run:
  "save_loop now pairs n fault (i, db) = (r, j, db') \<Longrightarrow>
   \<exists>k \<le> length pairs. db' = db\<lparr>ad_settings := ad_settings db ++ saved_rows now (take k pairs)\<rparr> \<and>
     (r = Inr (n + length pairs) \<and> k = length pairs \<or> r = Inl (TxAbort (Status 500)) \<and> k < length pairs)"
proof (induction pairs arbitrary: n i db)
  case Nil
  then show ?case
    by (auto simp: db_return_def saved_rows_def)
next
  case (Cons p ps)
  obtain key v where p: "p = (key, v)"
    by (cases p)
  show ?case
  proof (cases "fault i")
    case True
    then show ?thesis
      using Cons.prems p by (auto simp: db_bind_def db_500_def db_stmt_def saved_rows_def)
  next
    case False
    then have "save_loop now ps (n + 1) fault (i + 1, db\<lparr>ad_settings := (ad_settings db)(key \<mapsto> (v, now))\<rparr>) = (r, j, db')"
      using Cons.prems p by (simp add: db_bind_def db_500_def db_stmt_def)
    from Cons.IH [OF this] have "\<exists>k \<le> length ps. db' = db\<lparr>ad_settings := (ad_settings db)(key \<mapsto> (v, now)) ++ saved_rows now (take k ps)\<rparr> \<and>
        (r = Inr (n + 1 + length ps) \<and> k = length ps \<or> r = Inl (TxAbort (Status 500)) \<and> k < length ps)"
      by (simp add: fun_upd_def)
    then obtain k where k: "k \<le> length ps"
      "db' = db\<lparr>ad_settings := (ad_settings db)(key \<mapsto> (v, now)) ++ saved_rows now (take k ps)\<rparr>"
      "r = Inr (n + 1 + length ps) \<and> k = length ps \<or> r = Inl (TxAbort (Status 500)) \<and> k < length ps"
      by blast
    have "(ad_settings db)(key \<mapsto> (v, now)) ++ saved_rows now (take k ps) = ad_settings db ++ saved_rows now (take (Suc k) (p # ps))"
      using p by (auto simp: saved_rows_def map_add_def split: option.splits)
    then show ?thesis
      using k by (intro exI [of _ "Suc k"]) auto
  qed
qed

text \<open>What the settings view shows for a table of saved settings.\<close>

definition effective :: "runtime_config \<Rightarrow> (string \<Rightarrow> (json \<times> int) option) \<Rightarrow> string \<Rightarrow> json option" where
  "effective config m = (\<lambda>key. case m key of
      Some (v, _) \<Rightarrow> if key \<in> set EDITABLE_KEYS then Some v else runtime_defaults config key | None \<Rightarrow> runtime_defaults config key)"

lemma saved_rows_lookup: "saved_rows now ps key = map_option (\<lambda>v. (v, now)) (map_of (rev ps) key)"
proof -
  have "map_of (map (\<lambda>(k, v). (k, (v, now))) xs) key = map_option (\<lambda>v. (v, now)) (map_of xs key)" for xs :: "(string \<times> json) list"
    by (induction xs) auto
  then show ?thesis
    by (simp add: saved_rows_def rev_map)
qed

lemma effective_saved:
  assumes "list_all (\<lambda>(k, v). k \<in> set EDITABLE_KEYS) ps"
  shows "effective config (m ++ saved_rows now ps) = effective config m ++ map_of (rev ps)"
proof
  fix key
  show "effective config (m ++ saved_rows now ps) key = (effective config m ++ map_of (rev ps)) key"
  proof (cases "map_of (rev ps) key")
    case None
    then show ?thesis
      by (simp add: effective_def map_add_def saved_rows_lookup)
  next
    case (Some v)
    then have "key \<in> set EDITABLE_KEYS"
      using assms map_of_SomeD [of "rev ps"] by (fastforce simp: list_all_iff)
    then show ?thesis
      using Some by (simp add: effective_def map_add_def saved_rows_lookup)
  qed
qed

lemma settings_get_run:
  assumes "run_db (settings_runtime_get E config now h) fault db = (Inr f, db')"
  shows "f = effective config (ad_settings db)"
proof -
  obtain r0 j s where g: "on_auth (require_auth (an_auth E) now h) fault (0, db) = (r0, j, s)"
    using prod_cases3 by blast
  then show ?thesis
    using reading.guard_run [OF g] touched_fields [of db s] assms
    by (auto simp: effective_def run_db_def settings_runtime_get_def db_bind_def db_500_def db_stmt_def split: if_splits)
qed

lemma settings_save_run:
  assumes "run_db (settings_runtime_save E now h key val settings) fault db = (r, db')"
  shows "\<exists>k \<le> length (save_pairs key val settings).
    ad_settings db' = ad_settings db ++ saved_rows now (take k (save_pairs key val settings)) \<and>
    (0 < k \<longrightarrow> valid_pairs E (save_pairs key val settings)) \<and>
    (\<not> isl r \<longrightarrow> k = length (save_pairs key val settings) \<and> 0 < k)"
proof -
  let ?ps = "save_pairs key val settings"
  obtain r0 j s where g: "on_auth (require_write_auth (an_auth E) now h) fault (0, db) = (r0, j, s)"
    using prod_cases3 by blast
  obtain r1 j1 s1 where l: "save_loop now ?ps 0 fault (j, s) = (r1, j1, s1)"
    using prod_cases3 by blast
  obtain k where k: "k \<le> length ?ps" "s1 = s\<lparr>ad_settings := ad_settings s ++ saved_rows now (take k ?ps)\<rparr>"
    "r1 = Inr (length ?ps) \<and> k = length ?ps \<or> r1 = Inl (TxAbort (Status 500)) \<and> k < length ?ps"
    using save_loop_run [OF l] by auto
  have s: "ad_settings s = ad_settings db"
    using writing.guard_run [OF g] touched_fields [of db s] by auto
  show ?thesis
  proof (cases "isl r0 \<or> ?ps = [] \<or> \<not> valid_pairs E ?ps")
    case True
    then have "ad_settings db' = ad_settings db" "isl r"
      using assms g s by (auto simp: run_db_def settings_runtime_save_def Let_def db_bind_def db_fail_def split: sum.splits if_splits)
    then show ?thesis
      by (intro exI [of _ 0]) (simp add: saved_rows_def)
  next
    case False
    then have "(r, db') = (case r1 of Inl e \<Rightarrow> Inl e | Inr n \<Rightarrow> Inr (JObject [(''ok'', JBool True), (''applied'', count_json n)]), s1)"
      using assms g l by (auto simp: run_db_def settings_runtime_save_def Let_def db_bind_def db_return_def split: sum.splits)
    then show ?thesis
      using k s False by (intro exI [of _ k]) auto
  qed
qed

text \<open>Saving stops at the first statement that fails: the pairs before it stay saved.\<close>

lemma partial_save:
  "run_db (save_loop 5 [(''full_skill_score'', v), (''full_copyability_score'', w)] 0) (\<lambda>i. i = 1) db =
     (Inl (TxAbort (Status 500)), db\<lparr>ad_settings := (ad_settings db)(''full_skill_score'' \<mapsto> (v, 5))\<rparr>)"
  by (simp add: run_db_def db_bind_def db_500_def db_stmt_def)

text \<open>A secret of four bytes is shown whole, and the slices of a secret whose second or last but second byte lies inside a character panic.\<close>

lemma mask_reveals_four: "mask ''abcd'' = Some (Some (''ab'' @ mask_dots @ ''cd''))"
  by code_simp

lemma mask_panics: "mask [CHR ''a'', CHR 0xE9, CHR ''b'', CHR ''c''] = None"
  by code_simp

text \<open>C31: Runtime settings are saved as given, and not all or nothing. Unless every key is editable and every value is valid for its key,
  nothing is saved. Otherwise some first part of the pairs is saved, in their order and a later pair winning, all of them when the answer
  is a success, and a statement that fails keeps what was saved before it. A reader then sees for every key the value
  saved last, otherwise what it saw before.\<close>

theorem settings_save_a_prefix:
  assumes "run_db (settings_runtime_save E now h key val settings) fault db = (r, db')"
  shows "\<exists>k \<le> length (save_pairs key val settings).
    ad_settings db' = ad_settings db ++ saved_rows now (take k (save_pairs key val settings)) \<and>
    (0 < k \<longrightarrow> valid_pairs E (save_pairs key val settings)) \<and>
    (\<not> isl r \<longrightarrow> k = length (save_pairs key val settings) \<and> 0 < k) \<and>
    (\<forall>config h2 now2 fault2 fault3 f g db2 db3.
       run_db (settings_runtime_get E config now2 h2) fault2 db = (Inr g, db2) \<longrightarrow>
       run_db (settings_runtime_get E config now2 h2) fault3 db' = (Inr f, db3) \<longrightarrow>
       f = g ++ map_of (rev (take k (save_pairs key val settings))))"
proof -
  obtain k where k: "k \<le> length (save_pairs key val settings)"
    "ad_settings db' = ad_settings db ++ saved_rows now (take k (save_pairs key val settings))"
    "0 < k \<longrightarrow> valid_pairs E (save_pairs key val settings)"
    "\<not> isl r \<longrightarrow> k = length (save_pairs key val settings) \<and> 0 < k"
    using settings_save_run [OF assms] by blast
  have "list_all (\<lambda>(k, v). k \<in> set EDITABLE_KEYS) (take k (save_pairs key val settings))"
    using k(3) by (cases "k = 0") (auto simp: valid_pairs_def list_all_iff dest!: in_set_takeD)
  then have "f = g ++ map_of (rev (take k (save_pairs key val settings)))"
    if "run_db (settings_runtime_get E config now2 h2) fault2 db = (Inr g, db2)"
      "run_db (settings_runtime_get E config now2 h2) fault3 db' = (Inr f, db3)" for config h2 now2 fault2 fault3 f g db2 db3
    using settings_get_run [OF that(1)] settings_get_run [OF that(2)] by (simp add: k(2) effective_saved)
  then show ?thesis
    using k by blast
qed

definition sample_sessions :: "int option \<Rightarrow> auth_db" where
  "sample_sessions x = \<lparr>au_sessions = [(sample_session ''t'' 7)\<lparr>ss_last_seen_at := x\<rparr>, sample_session ''u'' 8], au_attempts = [], au_workspaces = []\<rparr>"

lemma sample_touch:
  "ad_auth db = sample_sessions x \<Longrightarrow>
   on_auth (require_write_auth (an_auth sample_admin) 5 (sample_cookie ''t'')) (\<lambda>_. False) (i, db) =
     (Inr (), i + 1, db\<lparr>ad_auth := sample_sessions (Some 5)\<rparr>)"
  by (simp add: on_auth_def db_zoom_def require_write_auth_def require_auth_def auth_configured_def password_hash_def sample_admin_def sample_auth_def
      sample_trims sample_token db_bind_def db_500_def validate_session_def db_stmt_def sample_sessions_def live_session_def sample_session_def db_return_def)

lemma sample_auth_db: "ad_auth sample_admin_db = sample_sessions None"
  by (simp add: sample_admin_db_def sample_sessions_def sample_session_def)

theorem settings_save_a_prefix_witness:
  "\<exists>k \<le> 1. ad_settings (snd (run_db (settings_runtime_save sample_admin 5 (sample_cookie ''t'') None None (Some [(''full_skill_score'', JBool True)])) (\<lambda>_. False)
       sample_admin_db)) = saved_rows 5 (take k [(''full_skill_score'', JBool True)])"
  using settings_save_a_prefix [of sample_admin 5 "sample_cookie ''t''" None None "Some [(''full_skill_score'', JBool True)]" "\<lambda>_. False" sample_admin_db,
      OF surjective_pairing]
  by (auto simp: save_pairs_def sample_admin_db_def)

lemma sample_set:
  "run_db (settings_secret_set sample_admin 5 (sample_cookie ''t'') ''TG_API_ID'' ''pw'') (\<lambda>_. False) sample_admin_db =
     (Inr (JObject [(''ok'', JBool True), (''set'', JBool True)]), sample_admin_db\<lparr>ad_auth := sample_sessions (Some 5),
        ad_secrets := [''TG_API_ID'' \<mapsto> \<lparr>sr_nonce = ''n'', sr_ciphertext = ''wp'', sr_updated_at = 5\<rparr>]\<rparr>)"
  unfolding settings_secret_set_def run_db_def
  by (subst db_bind_def)
    (simp add: sample_touch [OF sample_auth_db] SECRET_KEYS_def sample_trims sample_store_key db_bind_def db_500_def db_stmt_def db_return_def,
     simp add: sample_admin_def sample_admin_db_def db_bind_def db_500_def db_stmt_def db_return_def)

lemma sample_delete:
  "ad_auth db = sample_sessions x \<Longrightarrow>
   run_db (settings_secret_delete sample_admin 5 (sample_cookie ''t'') ''TG_API_ID'') (\<lambda>_. False) db =
     (Inr ok_json, db\<lparr>ad_auth := sample_sessions (Some 5), ad_secrets := (ad_secrets db)(''TG_API_ID'' := None)\<rparr>)"
  unfolding settings_secret_delete_def run_db_def
  by (subst db_bind_def) (simp add: sample_touch SECRET_KEYS_def db_bind_def db_500_def db_stmt_def db_return_def)

theorem secrets_read_back_witness:
  "run_db (resolve_secret sample_admin None ''TG_API_ID'') (\<lambda>_. False)
     (snd (run_db (settings_secret_set sample_admin 5 (sample_cookie ''t'') ''TG_API_ID'' ''pw'') (\<lambda>_. False) sample_admin_db)) =
   (Inr (Some ''pw''), snd (run_db (settings_secret_set sample_admin 5 (sample_cookie ''t'') ''TG_API_ID'' ''pw'') (\<lambda>_. False) sample_admin_db))"
proof -
  have "\<forall>key p n c. an_encrypt sample_admin key p = Some (n, c) \<longrightarrow> an_decrypt sample_admin key n c = Some p"
    by (simp add: sample_admin_def)
  from secrets_read_back [OF this sample_set sample_delete] show ?thesis
    by (simp add: sample_set sample_trims)
qed

end
