(* ===== verification/Replay.thy ===== *)
theory Replay
  imports Transactions Models Decimals "HOL-Library.Sublist" "HOL-Library.Multiset"
begin

text \<open>
  Temporal replay (\<open>replay.rs\<close>) and the first-generation narratives (\<open>narrative.rs\<close>): readers of the observation tables
  as of an evaluation time. Rows that a query orders by equal times come in table order; the order of a hash map, and of
  \<open>SELECT DISTINCT\<close>, is an argument. The digest, the printers of times and of JSON and the decimals are arguments too.
\<close>

section \<open>Tables\<close>

record 'd market_row =
  mk_chain :: string
  mk_mint :: string
  mk_observed_at :: int
  mk_price_usd :: "'d option"
  mk_liquidity_usd :: "'d option"

record 'd score_row =
  wc_chain :: string
  wc_address :: string
  wc_as_of :: int
  wc_skill_score :: int
  wc_copyability_score :: int
  wc_history_completeness :: 'd
  wc_conviction :: int

record gmgn_row =
  go_chain :: string
  go_mint :: string
  go_observed_at :: int
  go_endpoint :: string
  go_payload :: json

record message_row =
  mg_channel :: string
  mg_id :: int
  mg_edit :: int
  mg_observed_at :: int

record mention_row =
  mn_channel :: string
  mn_message :: int
  mn_edit :: int
  mn_mint :: "string option"
  mn_kind :: string

record narrative_row =
  nr_id :: int
  nr_slug :: string
  nr_name :: string
  nr_category :: string

record narrative_evidence_row =
  ne_chain :: string
  ne_mint :: string
  ne_narrative_id :: int
  ne_source_kind :: string
  ne_source_ref :: string
  ne_canonical_url :: "string option"
  ne_claim_type :: string
  ne_claim_text :: string
  ne_polarity :: string
  ne_published_at :: "int option"
  ne_observed_at :: int
  ne_confidence :: int
  ne_content_hash :: "string option"
  ne_raw :: json

record 'd replay_db =
  rp_markets :: "'d market_row list"
  rp_scores :: "'d score_row list"
  rp_gmgn :: "gmgn_row list"
  rp_messages :: "message_row list"
  rp_mentions :: "mention_row list"
  rp_narratives :: "narrative_row list"
  rp_next_narrative :: int
  rp_evidence :: "narrative_evidence_row list"

datatype replay_error = RowNotFound

type_synonym ('d, 'a) replay = "('d replay_db, replay_error, 'a) db"

text \<open>\<open>ORDER BY observed_at DESC LIMIT 1\<close>.\<close>

fun latest :: "('r \<Rightarrow> int) \<Rightarrow> 'r list \<Rightarrow> 'r option" where
  "latest f [] = None"
| "latest f (r # rs) = (case latest f rs of None \<Rightarrow> Some r | Some x \<Rightarrow> Some (if f r < f x then x else r))"

section \<open>Observations as of a time\<close>

datatype GuardResult = Usable | Excluded | Unavailable

definition guard :: "int option \<Rightarrow> int \<Rightarrow> GuardResult" where
  "guard observed_at evaluation_time =
     (case observed_at of
        Some t \<Rightarrow> if t \<le> evaluation_time then Usable else Excluded
      | None \<Rightarrow> Unavailable)"

record 'd ReplayMarket =
  rm_liquidity_usd :: "'d option"
  rm_price_usd :: "'d option"
  rm_observed_at :: "int option"
  rm_status :: string

definition market_at :: "ChainKind \<Rightarrow> string \<Rightarrow> int \<Rightarrow> ('d, 'd ReplayMarket) replay" where
  "market_at chain mint evaluation_time =
     db_bind (db_stmt (\<lambda>db. (latest mk_observed_at (filter (\<lambda>r. mk_chain r = chain_kind_as_str chain \<and> mk_mint r = mint \<and>
        mk_observed_at r \<le> evaluation_time) (rp_markets db)), db))) (\<lambda>row.
     db_return (case row of
        Some r \<Rightarrow> \<lparr>rm_liquidity_usd = mk_liquidity_usd r, rm_price_usd = mk_price_usd r, rm_observed_at = Some (mk_observed_at r),
                   rm_status = ''usable''\<rparr>
      | None \<Rightarrow> \<lparr>rm_liquidity_usd = None, rm_price_usd = None, rm_observed_at = None, rm_status = ''stale_market_replay''\<rparr>))"

record 'd ReplayScore =
  rs_skill_score :: nat
  rs_copyability_score :: nat
  rs_conviction :: nat
  rs_history_completeness :: 'd
  rs_observed_at :: "int option"
  rs_status :: string

definition wallet_score_at ::
  "('d, 'x) decimal_num_scheme \<Rightarrow> ChainKind \<Rightarrow> string \<Rightarrow> int \<Rightarrow> ('d, 'd ReplayScore) replay" where
  "wallet_score_at D chain address evaluation_time =
     db_bind (db_stmt (\<lambda>db. (latest wc_as_of (filter (\<lambda>r. wc_chain r = chain_kind_as_str chain \<and> wc_address r = address \<and>
        wc_as_of r \<le> evaluation_time) (rp_scores db)), db))) (\<lambda>row.
     db_return (case row of
        Some r \<Rightarrow> \<lparr>rs_skill_score = nat (wc_skill_score r), rs_copyability_score = nat (wc_copyability_score r),
                   rs_conviction = nat (wc_conviction r), rs_history_completeness = wc_history_completeness r,
                   rs_observed_at = Some (wc_as_of r), rs_status = ''usable''\<rparr>
      | None \<Rightarrow> \<lparr>rs_skill_score = 0, rs_copyability_score = 0, rs_conviction = 0, rs_history_completeness = dec_zero D,
                rs_observed_at = None, rs_status = ''incomplete_history_replay''\<rparr>))"

record ReplayGmgn =
  rg_payload :: json
  rg_observed_at :: "int option"
  rg_usable :: bool

definition gmgn_token_at :: "ChainKind \<Rightarrow> string \<Rightarrow> string \<Rightarrow> int \<Rightarrow> ('d, ReplayGmgn option) replay" where
  "gmgn_token_at chain mint endpoint evaluation_time =
     db_bind (db_stmt (\<lambda>db. (latest go_observed_at (filter (\<lambda>r. go_chain r = chain_kind_as_str chain \<and> go_mint r = mint \<and>
        go_endpoint r = endpoint \<and> go_observed_at r \<le> evaluation_time) (rp_gmgn db)), db))) (\<lambda>row.
     db_return (map_option (\<lambda>r. \<lparr>rg_payload = go_payload r, rg_observed_at = Some (go_observed_at r), rg_usable = True\<rparr>) row))"

record ReplayMention =
  rt_mint :: "string option"
  rt_mention_kind :: string
  rt_observed_at :: "int option"
  rt_usable :: bool

text \<open>The join is on the key of the messages.\<close>

definition same_message :: "mention_row \<Rightarrow> message_row \<Rightarrow> bool" where
  "same_message tm m \<longleftrightarrow> mg_channel m = mn_channel tm \<and> mg_id m = mn_message tm \<and> mg_edit m = mn_edit tm"

definition telegram_mentions_at :: "string \<Rightarrow> int \<Rightarrow> ('d, ReplayMention list) replay" where
  "telegram_mentions_at mint evaluation_time =
     db_bind (db_stmt (\<lambda>db. (concat (map (\<lambda>tm. map (\<lambda>m. (mn_mint tm, mn_kind tm, mg_observed_at m))
         (filter (\<lambda>m. same_message tm m \<and> mg_observed_at m \<le> evaluation_time) (rp_messages db)))
       (filter (\<lambda>tm. mn_mint tm = Some mint) (rp_mentions db))), db))) (\<lambda>rows.
     db_return (map (\<lambda>(mint, kind, t). \<lparr>rt_mint = mint, rt_mention_kind = kind, rt_observed_at = Some t, rt_usable = True\<rparr>) rows))"

record 'd PaperMetrics =
  pt_latency_fill_seconds :: "int option"
  pt_slippage :: "'d option"
  pt_max_favorable_excursion :: "'d option"
  pt_max_adverse_excursion :: "'d option"
  pt_liquidity_1m_usd :: "'d option"
  pt_liquidity_5m_usd :: "'d option"
  pt_liquidity_15m_usd :: "'d option"
  pt_sell_before_copy :: bool

definition no_metrics :: "'d PaperMetrics" where
  "no_metrics = \<lparr>pt_latency_fill_seconds = None, pt_slippage = None, pt_max_favorable_excursion = None, pt_max_adverse_excursion = None,
     pt_liquidity_1m_usd = None, pt_liquidity_5m_usd = None, pt_liquidity_15m_usd = None, pt_sell_before_copy = False\<rparr>"

fun metrics_loop :: "int \<Rightarrow> ('d option \<times> int) list \<Rightarrow> 'd PaperMetrics \<Rightarrow> 'd PaperMetrics" where
  "metrics_loop signal_at [] p = p"
| "metrics_loop signal_at ((liquidity, observed_at) # rows) p =
     (let elapsed = observed_at - signal_at;
          p1 = (if elapsed \<le> 60 \<and> pt_liquidity_1m_usd p = None then p\<lparr>pt_liquidity_1m_usd := liquidity\<rparr> else p);
          p2 = (if elapsed \<le> 300 \<and> pt_liquidity_5m_usd p1 = None then p1\<lparr>pt_liquidity_5m_usd := liquidity\<rparr> else p1);
          p3 = (if elapsed \<le> 900 \<and> pt_liquidity_15m_usd p2 = None then p2\<lparr>pt_liquidity_15m_usd := liquidity\<rparr> else p2)
      in metrics_loop signal_at rows p3)"

definition paper_rows :: "ChainKind \<Rightarrow> string \<Rightarrow> int \<Rightarrow> 'd replay_db \<Rightarrow> ('d option \<times> int) list" where
  "paper_rows chain mint signal_at db =
     map (\<lambda>r. (mk_liquidity_usd r, mk_observed_at r)) (take 50 (sort_key mk_observed_at
       (filter (\<lambda>r. mk_chain r = chain_kind_as_str chain \<and> mk_mint r = mint \<and> signal_at < mk_observed_at r) (rp_markets db))))"

definition paper_metrics :: "ChainKind \<Rightarrow> string \<Rightarrow> int \<Rightarrow> ('d, 'd PaperMetrics) replay" where
  "paper_metrics chain mint signal_at =
     db_bind (db_stmt (\<lambda>db. (paper_rows chain mint signal_at db, db))) (\<lambda>rows.
     db_return (metrics_loop signal_at rows no_metrics))"

section \<open>Narratives\<close>

definition NARRATIVE_SLUGS :: "(string \<times> string) list" where
  "NARRATIVE_SLUGS =
     [(''ai'', ''AI / Agents''), (''defi'', ''DeFi''), (''dep_in'', ''DePIN''), (''meme'', ''Meme''), (''celebrity'', ''Celebrity''),
      (''political'', ''Political''), (''gaming'', ''Gaming''), (''rwa'', ''RWA''), (''solana_ecosystem'', ''Solana Ecosystem''),
      (''launchpad'', ''Launchpad''), (''community_takeover'', ''Community Takeover''), (''unknown'', ''Unknown'')]"

definition seed_one :: "string \<Rightarrow> string \<Rightarrow> 'd replay_db \<Rightarrow> 'd replay_db" where
  "seed_one slug name db =
     (if slug \<in> nr_slug ` set (rp_narratives db) then db
      else db\<lparr>rp_narratives := rp_narratives db @ [\<lparr>nr_id = rp_next_narrative db, nr_slug = slug, nr_name = name, nr_category = slug\<rparr>],
              rp_next_narrative := rp_next_narrative db + 1\<rparr>)"

fun seed_loop :: "(string \<times> string) list \<Rightarrow> ('d, unit) replay" where
  "seed_loop [] = db_return ()"
| "seed_loop ((slug, name) # rest) = db_bind (db_stmt (\<lambda>db. ((), seed_one slug name db))) (\<lambda>_. seed_loop rest)"

definition seed_narratives :: "('d, unit) replay" where
  "seed_narratives = seed_loop NARRATIVE_SLUGS"

record NarrativeEvidenceInput =
  ni_chain :: ChainKind
  ni_mint :: string
  ni_slug :: string
  ni_source_kind :: string
  ni_source_ref :: string
  ni_canonical_url :: "string option"
  ni_claim_type :: string
  ni_claim_text :: string
  ni_polarity :: string
  ni_published_at :: "int option"
  ni_confidence :: int
  ni_raw :: json

definition content_hash_of :: "(string \<Rightarrow> string) \<Rightarrow> string \<Rightarrow> string \<Rightarrow> string \<Rightarrow> string \<Rightarrow> string" where
  "content_hash_of digest source_kind source_ref claim_type claim_text =
     digest (source_kind @ ''|'' @ source_ref @ ''|'' @ claim_type @ ''|'' @ claim_text)"

text \<open>\<open>fetch_one\<close>: no row is an error.\<close>

definition fetch_one :: "('d replay_db \<Rightarrow> 'a option) \<Rightarrow> ('d, 'a) replay" where
  "fetch_one q = db_bind (db_stmt (\<lambda>db. (q db, db))) (\<lambda>r. case r of None \<Rightarrow> db_fail RowNotFound | Some x \<Rightarrow> db_return x)"

definition add_narrative_evidence :: "(string \<Rightarrow> string) \<Rightarrow> int \<Rightarrow> NarrativeEvidenceInput \<Rightarrow> ('d, unit) replay" where
  "add_narrative_evidence digest now e =
     db_bind (fetch_one (\<lambda>db. map_option nr_id (find (\<lambda>r. nr_slug r = ni_slug e) (rp_narratives db)))) (\<lambda>narrative_id.
     let hash = content_hash_of digest (ni_source_kind e) (ni_source_ref e) (ni_claim_type e) (ni_claim_text e)
     in db_stmt (\<lambda>db. ((), db\<lparr>rp_evidence := rp_evidence db @
       [\<lparr>ne_chain = chain_kind_as_str (ni_chain e), ne_mint = ni_mint e, ne_narrative_id = narrative_id, ne_source_kind = ni_source_kind e,
         ne_source_ref = ni_source_ref e, ne_canonical_url = ni_canonical_url e, ne_claim_type = ni_claim_type e, ne_claim_text = ni_claim_text e,
         ne_polarity = ni_polarity e, ne_published_at = ni_published_at e, ne_observed_at = now, ne_confidence = ni_confidence e,
         ne_content_hash = Some hash, ne_raw = ni_raw e\<rparr>]\<rparr>)))"

record 'd TokenNarrative =
  tn_slug :: string
  tn_score :: 'd
  tn_confidence :: nat
  tn_status :: string
  tn_evidence_count :: nat
  tn_on_chain_confirmed :: bool

definition evidence_upto :: "ChainKind \<Rightarrow> string \<Rightarrow> int \<Rightarrow> 'd replay_db \<Rightarrow> narrative_evidence_row list" where
  "evidence_upto chain mint evaluation_time db =
     filter (\<lambda>r. ne_chain r = chain_kind_as_str chain \<and> ne_mint r = mint \<and> ne_observed_at r \<le> evaluation_time) (rp_evidence db)"

definition polarity_weight :: "('d, 'x) decimal_num_scheme \<Rightarrow> string \<Rightarrow> 'd" where
  "polarity_weight D polarity =
     (if polarity = ''supporting'' then dec_of_int D 1
      else if polarity = ''contradicting'' then dec_of_int D (- 1)
      else dec_zero D)"

text \<open>The entry of a narrative: score, the unused second field, on-chain flag and number of rows.\<close>

definition weigh_row :: "('d, 'x) decimal_num_scheme \<Rightarrow> narrative_evidence_row \<Rightarrow> 'd \<times> nat \<times> bool \<times> nat \<Rightarrow> 'd \<times> nat \<times> bool \<times> nat" where
  "weigh_row D r entry =
     (case entry of (score, unused, on_chain, items) \<Rightarrow>
        (dec_add D score (dec_mul D (polarity_weight D (ne_polarity r)) (dec_of_int D (max 0 (ne_confidence r)))), unused,
         (if ne_source_kind r = ''on_chain'' then True else on_chain), items + 1))"

fun group_rows :: "('d, 'x) decimal_num_scheme \<Rightarrow> narrative_evidence_row list \<Rightarrow> (int \<Rightarrow> ('d \<times> nat \<times> bool \<times> nat) option) \<Rightarrow>
  (int \<Rightarrow> ('d \<times> nat \<times> bool \<times> nat) option)" where
  "group_rows D [] m = m"
| "group_rows D (r # rs) m =
     group_rows D rs (m(ne_narrative_id r \<mapsto> weigh_row D r
       (case m (ne_narrative_id r) of Some entry \<Rightarrow> entry | None \<Rightarrow> (dec_zero D, 0, False, 0))))"

definition narrative_confidence :: "('d, 'x) decimal_num_scheme \<Rightarrow> 'd \<Rightarrow> bool \<Rightarrow> nat \<Rightarrow> nat" where
  "narrative_confidence D score on_chain items =
     (let base = (if items = 0 then 0
                  else case dec_to_u32 D (dec_clamp D (dec_div D score (dec_of_int D (int items))) (dec_zero D) (dec_of_int D 100)) of
                         Some n \<Rightarrow> n | None \<Rightarrow> 0)
      in if on_chain then min base 100 else min base 49)"

fun results_loop :: "('d, 'x) decimal_num_scheme \<Rightarrow> (int \<times> 'd \<times> nat \<times> bool \<times> nat) list \<Rightarrow> 'd TokenNarrative list \<Rightarrow>
  ('d, 'd TokenNarrative list) replay" where
  "results_loop D [] results = db_return results"
| "results_loop D ((narrative_id, score, _, on_chain, items) # rest) results =
     db_bind (fetch_one (\<lambda>db. map_option nr_slug (find (\<lambda>r. nr_id r = narrative_id) (rp_narratives db)))) (\<lambda>slug.
     results_loop D rest (results @
       [\<lparr>tn_slug = slug, tn_score = score, tn_confidence = narrative_confidence D score on_chain items,
         tn_status = (if on_chain then ''confirmed'' else ''candidate''), tn_evidence_count = items, tn_on_chain_confirmed = on_chain\<rparr>]))"

text \<open>\<open>order\<close> lists the keys of the hash map.\<close>

definition classify_token_narratives ::
  "('d, 'x) decimal_num_scheme \<Rightarrow> (int list \<Rightarrow> int list) \<Rightarrow> ChainKind \<Rightarrow> string \<Rightarrow> int \<Rightarrow> ('d, 'd TokenNarrative list) replay" where
  "classify_token_narratives D order chain mint evaluation_time =
     db_bind (db_stmt (\<lambda>db. (evidence_upto chain mint evaluation_time db, db))) (\<lambda>rows.
     let by_narrative = group_rows D rows Map.empty
     in db_bind (results_loop D (map (\<lambda>k. (k, the (by_narrative k))) (order (remdups (map ne_narrative_id rows)))) []) (\<lambda>results.
        db_return (sort_key (\<lambda>n. - int (tn_confidence n)) results)))"

record NarrativeReport =
  np_chain :: ChainKind
  np_mint :: string
  np_narrative :: string
  np_why_now :: string
  np_counter_evidence :: "string list"
  np_confidence :: nat
  np_sources :: "string list"

definition explain_narrative ::
  "('d, 'x) decimal_num_scheme \<Rightarrow> (int list \<Rightarrow> int list) \<Rightarrow> (string list \<Rightarrow> string list) \<Rightarrow> (int \<Rightarrow> string) \<Rightarrow>
   ChainKind \<Rightarrow> string \<Rightarrow> int \<Rightarrow> ('d, NarrativeReport option) replay" where
  "explain_narrative D order distinct_order show_time chain mint evaluation_time =
     db_bind (classify_token_narratives D order chain mint evaluation_time) (\<lambda>narratives.
     case narratives of
       [] \<Rightarrow> db_return None
     | best # _ \<Rightarrow>
         if tn_confidence best = 0 then db_return None
         else
           db_bind (db_stmt (\<lambda>db. (take 5 (rev (sort_key ne_observed_at (rev
              (filter (\<lambda>r. ne_polarity r = ''contradicting'') (evidence_upto chain mint evaluation_time db))))), db))) (\<lambda>counter_rows.
           db_bind (db_stmt (\<lambda>db. (distinct_order (remdups (map ne_source_kind (evidence_upto chain mint evaluation_time db))), db))) (\<lambda>sources.
           db_return (Some
             \<lparr>np_chain = chain, np_mint = mint, np_narrative = tn_slug best,
              np_why_now =
                (if tn_on_chain_confirmed best
                 then ''on-chain evidence confirms the '' @ tn_slug best @ '' narrative with '' @ show_nat (tn_evidence_count best) @ '' evidence items''
                 else ''enrichment-only '' @ tn_slug best @ '' narrative with '' @ show_nat (tn_evidence_count best) @
                      '' evidence items; awaiting on-chain confirmation''),
              np_counter_evidence = map (\<lambda>r. ne_claim_text r @ '' (observed '' @ show_time (ne_observed_at r) @ '')'') counter_rows,
              np_confidence = tn_confidence best, np_sources = sources\<rparr>))))"

definition has_text :: "string \<Rightarrow> string \<Rightarrow> bool" where
  "has_text pat s \<longleftrightarrow> sublist pat s"

definition narrative_hints_from_gmgn :: "(json \<Rightarrow> string) \<Rightarrow> json \<Rightarrow> NarrativeCategory list" where
  "narrative_hints_from_gmgn json_text payload =
     (let s = to_lowercase (json_text payload)
      in (if has_text ''\"ai\"'' s \<or> has_text ''ai_'' s \<or> has_text ''gpt'' s then [NarrAi] else []) @
         (if has_text ''meme'' s then [NarrMeme] else []) @
         (if has_text ''depin'' s \<or> has_text ''dep_in'' s then [NarrDepIn] else []) @
         (if has_text ''rwa'' s then [NarrRwa] else []) @
         (if has_text ''gaming'' s then [NarrGaming] else []) @
         (if has_text ''launchpad'' s then [NarrLaunchpad] else []))"

section \<open>What a replay can see\<close>

text \<open>\<open>reads V m\<close>: the program changes nothing, and what it answers depends on the view \<open>V\<close> of the state only.\<close>

definition reads :: "('s \<Rightarrow> 'v) \<Rightarrow> ('s, 'e, 'a) db \<Rightarrow> bool" where
  "reads V m \<longleftrightarrow> (\<forall>fault i s t. V s = V t \<longrightarrow> (\<exists>r j. m fault (i, s) = (r, j, s) \<and> m fault (i, t) = (r, j, t)))"

lemma readsI: "(\<And>fault i s t. V s = V t \<Longrightarrow> \<exists>r j. m fault (i, s) = (r, j, s) \<and> m fault (i, t) = (r, j, t)) \<Longrightarrow> reads V m"
  by (simp add: reads_def)

lemma reads_return: "reads V (db_return x)"
  by (rule readsI) (simp add: db_return_def)

lemma reads_fail: "reads V (db_fail e)"
  by (rule readsI) (simp add: db_fail_def)

lemma reads_query:
  assumes "\<And>s t. V s = V t \<Longrightarrow> q s = q t"
  shows "reads V (db_stmt (\<lambda>s. (q s, s)))"
proof (rule readsI)
  fix fault i s t
  assume "V s = V t"
  then have "q s = q t"
    by (rule assms)
  then show "\<exists>r j. db_stmt (\<lambda>s. (q s, s)) fault (i, s) = (r, j, s) \<and> db_stmt (\<lambda>s. (q s, s)) fault (i, t) = (r, j, t)"
    by (simp add: db_stmt_def)
qed

lemma reads_bind:
  assumes "reads V m" "\<And>x. reads V (k x)"
  shows "reads V (db_bind m k)"
proof (rule readsI)
  fix fault i s t
  assume v: "V s = V t"
  then obtain r j where m: "m fault (i, s) = (r, j, s)" "m fault (i, t) = (r, j, t)"
    using assms(1) unfolding reads_def by blast
  show "\<exists>r j. db_bind m k fault (i, s) = (r, j, s) \<and> db_bind m k fault (i, t) = (r, j, t)"
  proof (cases r)
    case (Inl e)
    then show ?thesis
      using m by (simp add: db_bind_def)
  next
    case (Inr x)
    then show ?thesis
      using m v assms(2) [of x] unfolding reads_def by (simp add: db_bind_def)
  qed
qed

lemma reads_ask: "(\<And>s t. V s = V t \<Longrightarrow> q s = q t) \<Longrightarrow> reads V (db_bind (db_stmt (\<lambda>s. (q s, s))) (\<lambda>x. db_return (f x)))"
  by (rule reads_bind [OF reads_query reads_return])

lemmas reads_intros = reads_return reads_fail reads_query reads_bind

text \<open>The contract of a reader, with a cut of the state that its view is taken of.\<close>

locale cut_reader =
  fixes cut :: "'s \<Rightarrow> 's" and m :: "('s, 'e, 'a) db"
  assumes reads_cut: "reads cut m" and cut_cut: "cut (cut s) = cut s"
begin

lemma run_agree:
  assumes "cut s = cut t"
  shows "fst (run_db m fault s) = fst (run_db m fault t)"
proof -
  obtain r j where "m fault (0, s) = (r, j, s)" "m fault (0, t) = (r, j, t)"
    using reads_cut assms unfolding reads_def by blast
  then show ?thesis
    by (simp add: run_db_def)
qed

lemma run_cut: "fst (run_db m fault s) = fst (run_db m fault (cut s))"
  by (rule run_agree) (simp add: cut_cut)

lemma run_keeps: "snd (run_db m fault s) = s"
proof -
  obtain r j where "m fault (0, s) = (r, j, s)"
    using reads_cut unfolding reads_def by blast
  then show ?thesis
    by (simp add: run_db_def)
qed

end

text \<open>The tables as they were at a time, and the market after a time.\<close>

definition upto_time :: "int \<Rightarrow> 'd replay_db \<Rightarrow> 'd replay_db" where
  "upto_time t db = db\<lparr>rp_markets := filter (\<lambda>r. mk_observed_at r \<le> t) (rp_markets db),
     rp_scores := filter (\<lambda>r. wc_as_of r \<le> t) (rp_scores db),
     rp_gmgn := filter (\<lambda>r. go_observed_at r \<le> t) (rp_gmgn db),
     rp_messages := filter (\<lambda>r. mg_observed_at r \<le> t) (rp_messages db),
     rp_evidence := filter (\<lambda>r. ne_observed_at r \<le> t) (rp_evidence db)\<rparr>"

definition after_time :: "int \<Rightarrow> 'd replay_db \<Rightarrow> 'd replay_db" where
  "after_time t db = db\<lparr>rp_markets := filter (\<lambda>r. t < mk_observed_at r) (rp_markets db)\<rparr>"

lemma upto_time_fields:
  assumes "upto_time t a = upto_time t b"
  shows "filter (\<lambda>r. mk_observed_at r \<le> t) (rp_markets a) = filter (\<lambda>r. mk_observed_at r \<le> t) (rp_markets b)"
    "filter (\<lambda>r. wc_as_of r \<le> t) (rp_scores a) = filter (\<lambda>r. wc_as_of r \<le> t) (rp_scores b)"
    "filter (\<lambda>r. go_observed_at r \<le> t) (rp_gmgn a) = filter (\<lambda>r. go_observed_at r \<le> t) (rp_gmgn b)"
    "filter (\<lambda>r. mg_observed_at r \<le> t) (rp_messages a) = filter (\<lambda>r. mg_observed_at r \<le> t) (rp_messages b)"
    "filter (\<lambda>r. ne_observed_at r \<le> t) (rp_evidence a) = filter (\<lambda>r. ne_observed_at r \<le> t) (rp_evidence b)"
    "rp_mentions a = rp_mentions b" "rp_narratives a = rp_narratives b"
  using assms by (auto simp: upto_time_def dest: arg_cong [where f = rp_markets] arg_cong [where f = rp_scores] arg_cong [where f = rp_gmgn]
      arg_cong [where f = rp_messages] arg_cong [where f = rp_evidence] arg_cong [where f = rp_mentions] arg_cong [where f = rp_narratives])

lemma upto_time_cut: "upto_time t (upto_time t db) = upto_time t db"
  by (simp add: upto_time_def)

lemma filter_split3: "filter (\<lambda>r. P r \<and> Q r \<and> R r) xs = filter (\<lambda>r. P r \<and> Q r) (filter R xs)"
  by (induction xs) auto

lemma filter_split4: "filter (\<lambda>r. P r \<and> Q r \<and> S r \<and> R r) xs = filter (\<lambda>r. P r \<and> Q r \<and> S r) (filter R xs)"
  by (induction xs) auto

lemma filter_split2: "filter (\<lambda>r. P r \<and> R r) xs = filter P (filter R xs)"
  by (induction xs) auto

lemma evidence_agree:
  assumes "upto_time t a = upto_time t b"
  shows "evidence_upto chain mint t a = evidence_upto chain mint t b"
  unfolding evidence_upto_def filter_split3 upto_time_fields(5) [OF assms] ..

text \<open>What each query sees of the tables.\<close>

lemma past_queries:
  assumes "upto_time t a = upto_time t b"
  shows "filter (\<lambda>r. mk_chain r = c \<and> mk_mint r = mint \<and> mk_observed_at r \<le> t) (rp_markets a) =
      filter (\<lambda>r. mk_chain r = c \<and> mk_mint r = mint \<and> mk_observed_at r \<le> t) (rp_markets b)"
    "filter (\<lambda>r. wc_chain r = c \<and> wc_address r = mint \<and> wc_as_of r \<le> t) (rp_scores a) =
      filter (\<lambda>r. wc_chain r = c \<and> wc_address r = mint \<and> wc_as_of r \<le> t) (rp_scores b)"
    "filter (\<lambda>r. go_chain r = c \<and> go_mint r = mint \<and> go_endpoint r = endpoint \<and> go_observed_at r \<le> t) (rp_gmgn a) =
      filter (\<lambda>r. go_chain r = c \<and> go_mint r = mint \<and> go_endpoint r = endpoint \<and> go_observed_at r \<le> t) (rp_gmgn b)"
    "filter (\<lambda>m. same_message tm m \<and> mg_observed_at m \<le> t) (rp_messages a) = filter (\<lambda>m. same_message tm m \<and> mg_observed_at m \<le> t) (rp_messages b)"
proof -
  note f = upto_time_fields [OF assms]
  show "filter (\<lambda>r. mk_chain r = c \<and> mk_mint r = mint \<and> mk_observed_at r \<le> t) (rp_markets a) =
      filter (\<lambda>r. mk_chain r = c \<and> mk_mint r = mint \<and> mk_observed_at r \<le> t) (rp_markets b)"
    by (simp only: filter_split3 f(1))
  show "filter (\<lambda>r. wc_chain r = c \<and> wc_address r = mint \<and> wc_as_of r \<le> t) (rp_scores a) =
      filter (\<lambda>r. wc_chain r = c \<and> wc_address r = mint \<and> wc_as_of r \<le> t) (rp_scores b)"
    by (simp only: filter_split3 f(2))
  show "filter (\<lambda>r. go_chain r = c \<and> go_mint r = mint \<and> go_endpoint r = endpoint \<and> go_observed_at r \<le> t) (rp_gmgn a) =
      filter (\<lambda>r. go_chain r = c \<and> go_mint r = mint \<and> go_endpoint r = endpoint \<and> go_observed_at r \<le> t) (rp_gmgn b)"
    by (simp only: filter_split4 f(3))
  show "filter (\<lambda>m. same_message tm m \<and> mg_observed_at m \<le> t) (rp_messages a) = filter (\<lambda>m. same_message tm m \<and> mg_observed_at m \<le> t) (rp_messages b)"
    by (simp only: filter_split2 [of "same_message tm"] f(4))
qed

definition mention_rows :: "string \<Rightarrow> int \<Rightarrow> 'd replay_db \<Rightarrow> (string option \<times> string \<times> int) list" where
  "mention_rows mint t db = concat (map (\<lambda>tm. map (\<lambda>m. (mn_mint tm, mn_kind tm, mg_observed_at m))
         (filter (\<lambda>m. same_message tm m \<and> mg_observed_at m \<le> t) (rp_messages db)))
       (filter (\<lambda>tm. mn_mint tm = Some mint) (rp_mentions db)))"

lemma mentions_agree: "upto_time t a = upto_time t b \<Longrightarrow> mention_rows mint t a = mention_rows mint t b"
  unfolding mention_rows_def by (simp add: past_queries(4) [of t a b] upto_time_fields(6) [of t a b])

lemma paper_agree:
  assumes "after_time t a = after_time t b"
  shows "paper_rows chain mint t a = paper_rows chain mint t b"
proof -
  have "filter (\<lambda>r. t < mk_observed_at r) (rp_markets a) = filter (\<lambda>r. t < mk_observed_at r) (rp_markets b)"
    using assms by (auto simp: after_time_def dest: arg_cong [where f = rp_markets])
  then show ?thesis
    unfolding paper_rows_def filter_split3 by simp
qed

lemma counter_agree:
  "upto_time t a = upto_time t b \<Longrightarrow>
   take 5 (rev (sort_key ne_observed_at (rev (filter (\<lambda>r. ne_polarity r = ''contradicting'') (evidence_upto chain mint t a))))) =
   take 5 (rev (sort_key ne_observed_at (rev (filter (\<lambda>r. ne_polarity r = ''contradicting'') (evidence_upto chain mint t b)))))"
  "upto_time t a = upto_time t b \<Longrightarrow>
   distinct_order (remdups (map ne_source_kind (evidence_upto chain mint t a))) = distinct_order (remdups (map ne_source_kind (evidence_upto chain mint t b)))"
  by (simp_all add: evidence_agree [of t a b])

interpretation market: cut_reader "upto_time t" "market_at chain mint t" for t chain mint
proof
  show "reads (upto_time t) (market_at chain mint t)"
    unfolding market_at_def by (rule reads_ask, rule arg_cong [where f = "latest mk_observed_at"], erule past_queries(1))
qed (rule upto_time_cut)

interpretation score: cut_reader "upto_time t" "wallet_score_at D chain address t" for D t chain address
proof
  show "reads (upto_time t) (wallet_score_at D chain address t)"
    unfolding wallet_score_at_def by (rule reads_ask, rule arg_cong [where f = "latest wc_as_of"], erule past_queries(2))
qed (rule upto_time_cut)

interpretation gmgn: cut_reader "upto_time t" "gmgn_token_at chain mint endpoint t" for t chain mint endpoint
proof
  show "reads (upto_time t) (gmgn_token_at chain mint endpoint t)"
    unfolding gmgn_token_at_def by (rule reads_ask, rule arg_cong [where f = "latest go_observed_at"], erule past_queries(3))
qed (rule upto_time_cut)

interpretation mentions: cut_reader "upto_time t" "telegram_mentions_at mint t" for t mint
proof
  show "reads (upto_time t) (telegram_mentions_at mint t)"
    unfolding telegram_mentions_at_def mention_rows_def [symmetric] by (rule reads_ask, erule mentions_agree)
qed (rule upto_time_cut)

lemma reads_fetch_one:
  assumes "\<And>s t. V s = V t \<Longrightarrow> q s = q t"
  shows "reads V (fetch_one q)"
  unfolding fetch_one_def
proof (rule reads_bind [OF reads_query [OF assms]])
  show "reads V (case r of None \<Rightarrow> db_fail RowNotFound | Some x \<Rightarrow> db_return x)" for r
    by (cases r) (simp_all add: reads_fail reads_return)
qed

lemma reads_results: "reads (upto_time t) (results_loop D entries results)"
proof (induction entries arbitrary: results)
  case (Cons x xs)
  obtain i s u oc n where x: "x = (i, s, u, oc, n)"
    by (cases x)
  show ?case
    unfolding x results_loop.simps
    by (intro reads_bind reads_fetch_one Cons.IH) (drule upto_time_fields(7), simp)
qed (simp add: reads_return)

interpretation classified: cut_reader "upto_time t" "classify_token_narratives D order chain mint t" for D order t chain mint
proof
  show "reads (upto_time t) (classify_token_narratives D order chain mint t)"
    unfolding classify_token_narratives_def Let_def by (intro reads_intros reads_results evidence_agree)
qed (rule upto_time_cut)

interpretation explained: cut_reader "upto_time t" "explain_narrative D order distinct_order show_time chain mint t" for D order distinct_order show_time t chain mint
proof
  show "reads (upto_time t) (explain_narrative D order distinct_order show_time chain mint t)"
    unfolding explain_narrative_def
    by (intro reads_bind classified.reads_cut) (auto split: list.split intro!: reads_intros counter_agree)
qed (rule upto_time_cut)

interpretation paper: cut_reader "after_time t" "paper_metrics chain mint t" for t chain mint
proof
  fix s
  show "after_time t (after_time t s) = after_time t s"
    by (simp add: after_time_def)
  show "reads (after_time t) (paper_metrics chain mint t)"
    unfolding paper_metrics_def by (rule reads_ask, erule paper_agree)
qed


section \<open>Narratives need the chain\<close>

lemma no_rows: "k \<notin> f ` set rows \<Longrightarrow> filter (\<lambda>r. f r = k) rows = []"
  by (auto simp: filter_empty_conv)

lemma group_rows_get:
  "group_rows D rows m k =
     (if k \<in> ne_narrative_id ` set rows
      then Some (fold (weigh_row D) (filter (\<lambda>r. ne_narrative_id r = k) rows) (case m k of Some entry \<Rightarrow> entry | None \<Rightarrow> (dec_zero D, 0, False, 0)))
      else m k)"
  by (induction rows arbitrary: m) (auto simp: no_rows split: option.split)

lemma weigh_rows:
  assumes "decimal_num_laws D dv"
  shows "dv (fst (fold (weigh_row D) rows (score, u, oc, n))) = dv score + (\<Sum>r \<leftarrow> rows. dv (polarity_weight D (ne_polarity r)) * of_int (max 0 (ne_confidence r))) \<and>
    fst (snd (snd (fold (weigh_row D) rows (score, u, oc, n)))) = (oc \<or> (\<exists>r \<in> set rows. ne_source_kind r = ''on_chain'')) \<and>
    snd (snd (snd (fold (weigh_row D) rows (score, u, oc, n)))) = n + length rows"
proof (induction rows arbitrary: score u oc n)
  case (Cons r rs)
  note laws = decimal_laws.dv_add [OF decimal_num_laws.axioms(1) [OF assms]] decimal_num_laws.dv_mul_int [OF assms]
  show ?case
    using Cons.IH by (simp add: weigh_row_def laws)
qed simp

definition slug_of :: "'d replay_db \<Rightarrow> int \<Rightarrow> string option" where
  "slug_of db k = map_option nr_slug (find (\<lambda>r. nr_id r = k) (rp_narratives db))"

text \<open>Slug, sum of the signed confidences, number of rows and confirmation of one narrative of the evidence.\<close>

definition narrative_facts :: "'d replay_db \<Rightarrow> narrative_evidence_row list \<Rightarrow> int \<Rightarrow> string option \<times> rat \<times> nat \<times> bool" where
  "narrative_facts db rows k =
     (let mine = filter (\<lambda>r. ne_narrative_id r = k) rows
      in (slug_of db k,
          \<Sum>r \<leftarrow> mine. (if ne_polarity r = ''supporting'' then 1 else if ne_polarity r = ''contradicting'' then -1 else 0) *
             of_int (max 0 (ne_confidence r)),
          length mine, list_ex (\<lambda>r. ne_source_kind r = ''on_chain'') mine))"

definition facts_of :: "('d \<Rightarrow> rat) \<Rightarrow> 'd TokenNarrative \<Rightarrow> string option \<times> rat \<times> nat \<times> bool" where
  "facts_of dv n = (Some (tn_slug n), dv (tn_score n), tn_evidence_count n, tn_on_chain_confirmed n)"

definition bounded_narrative :: "'d TokenNarrative \<Rightarrow> bool" where
  "bounded_narrative n \<longleftrightarrow> tn_confidence n \<le> (if tn_on_chain_confirmed n then 100 else 49) \<and>
     tn_status n = (if tn_on_chain_confirmed n then ''confirmed'' else ''candidate'')"

lemma confidence_bound: "narrative_confidence D score oc n \<le> (if oc then 100 else 49)"
  by (simp add: narrative_confidence_def Let_def)

lemma fetch_one_run:
  "fetch_one q fault (i, db) = (Inr x, j, db') \<Longrightarrow> q db = Some x \<and> db' = db"
  by (auto simp: fetch_one_def db_bind_def db_stmt_def db_fail_def db_return_def split: if_splits option.splits)

lemma results_loop_run:
  "results_loop D entries results fault (i, db) = (Inr ns, j, db') \<Longrightarrow> list_all bounded_narrative results \<Longrightarrow>
   list_all bounded_narrative ns \<and>
   map (facts_of dv) ns = map (facts_of dv) results @ map (\<lambda>(k, score, u, oc, n). (slug_of db k, dv score, n, oc)) entries"
proof (induction entries arbitrary: results i)
  case Nil
  then show ?case
    by (simp add: db_return_def)
next
  case (Cons x xs)
  obtain k s u oc n where x: "x = (k, s, u, oc, n)"
    by (cases x)
  let ?q = "\<lambda>db. map_option nr_slug (find (\<lambda>r. nr_id r = k) (rp_narratives db))"
  let ?n = "\<lambda>slug. \<lparr>tn_slug = slug, tn_score = s, tn_confidence = narrative_confidence D s oc n,
         tn_status = (if oc then ''confirmed'' else ''candidate''), tn_evidence_count = n, tn_on_chain_confirmed = oc\<rparr>"
  obtain r0 j0 t where f: "fetch_one ?q fault (i, db) = (r0, j0, t)"
    using prod_cases3 by blast
  then obtain slug where r0: "r0 = Inr slug"
    using Cons.prems(1) x by (cases r0) (simp_all add: db_bind_def)
  have slug: "slug_of db k = Some slug" "t = db"
    using fetch_one_run [OF f [unfolded r0]] by (simp_all add: slug_of_def)
  have "results_loop D xs (results @ [?n slug]) fault (j0, db) = (Inr ns, j, db')"
    using Cons.prems(1) x f r0 slug(2) by (simp add: db_bind_def)
  moreover have "bounded_narrative (?n slug)"
    using confidence_bound [of D s oc n] by (simp add: bounded_narrative_def)
  then have "list_all bounded_narrative (results @ [?n slug])"
    using Cons.prems(2) by simp
  ultimately show ?case
    using Cons.IH [of "results @ [?n slug]" j0] slug(1) x by (simp add: facts_of_def)
qed

lemma polarity_value:
  "decimal_num_laws D dv \<Longrightarrow> dv (polarity_weight D polarity) = (if polarity = ''supporting'' then 1 else if polarity = ''contradicting'' then -1 else 0)"
  by (simp add: polarity_weight_def decimal_num_laws.dv_of_int decimal_laws.dv_zero [OF decimal_num_laws.axioms(1)])

lemma entry_facts:
  assumes "decimal_num_laws D dv" "k \<in> ne_narrative_id ` set rows"
  shows "(case the (group_rows D rows Map.empty k) of (score, u, oc, n) \<Rightarrow> (slug_of db k, dv score, n, oc)) = narrative_facts db rows k"
proof -
  let ?mine = "filter (\<lambda>r. ne_narrative_id r = k) rows"
  obtain score u oc n where e: "fold (weigh_row D) ?mine (dec_zero D, 0, False, 0) = (score, u, oc, n)"
    by (metis prod_cases4)
  have z: "dv (dec_zero D) = 0"
    using decimal_laws.dv_zero [OF decimal_num_laws.axioms(1) [OF assms(1)]] .
  have "dv score = (\<Sum>r \<leftarrow> ?mine. dv (polarity_weight D (ne_polarity r)) * of_int (max 0 (ne_confidence r)))"
    "oc = list_ex (\<lambda>r. ne_source_kind r = ''on_chain'') ?mine" "n = length ?mine"
    using weigh_rows [OF assms(1), of ?mine "dec_zero D" 0 False 0] e z by (auto simp: list_ex_iff)
  then show ?thesis
    using assms(2) e by (simp add: group_rows_get narrative_facts_def Let_def polarity_value [OF assms(1)])
qed

lemma classify_run:
  assumes "decimal_num_laws D dv" "\<And>xs. mset (order xs) = mset xs"
    and run: "classify_token_narratives D order chain mint t fault (i, db) = (Inr ns, j, db')"
  shows "list_all bounded_narrative ns \<and> sorted (map (\<lambda>n. - int (tn_confidence n)) ns) \<and>
    image_mset (facts_of dv) (mset ns) =
      image_mset (narrative_facts db (evidence_upto chain mint t db)) (mset (remdups (map ne_narrative_id (evidence_upto chain mint t db))))"
proof -
  let ?rows = "evidence_upto chain mint t db"
  let ?keys = "order (remdups (map ne_narrative_id ?rows))"
  let ?entries = "map (\<lambda>k. (k, the (group_rows D ?rows Map.empty k))) ?keys"
  obtain r1 j1 t1 where l: "results_loop D ?entries [] fault (i + 1, db) = (r1, j1, t1)"
    using prod_cases3 by blast
  then obtain ms where r1: "r1 = Inr ms" and ns: "ns = sort_key (\<lambda>n. - int (tn_confidence n)) ms"
    using run by (cases r1) (auto simp: classify_token_narratives_def db_bind_def db_stmt_def db_return_def Let_def split: if_splits)
  have keys: "set ?keys = ne_narrative_id ` set ?rows"
    using assms(2) [of "remdups (map ne_narrative_id ?rows)"] by (metis set_map set_mset_mset set_remdups)
  have facts: "list_all bounded_narrative ms \<and> map (facts_of dv) ms = map (\<lambda>(k, score, u, oc, n). (slug_of db k, dv score, n, oc)) ?entries"
    using results_loop_run [OF l [unfolded r1]] by simp
  also have "map (\<lambda>(k, score, u, oc, n). (slug_of db k, dv score, n, oc)) ?entries = map (narrative_facts db ?rows) ?keys"
    using entry_facts [OF assms(1)] keys by (auto simp: case_prod_beta)
  finally have "list_all bounded_narrative ms" "map (facts_of dv) ms = map (narrative_facts db ?rows) ?keys"
    by simp_all
  then have "image_mset (facts_of dv) (mset ms) = image_mset (narrative_facts db ?rows) (mset (remdups (map ne_narrative_id ?rows)))"
    using assms(2) by (metis mset_map)
  then show ?thesis
    using ns \<open>list_all bounded_narrative ms\<close> by (simp add: list_all_iff)
qed

text \<open>C33: Narratives need the chain. A classification as of a time lists every narrative with evidence by then exactly once,
  with its number of rows, the sum of the signed confidences of its rows and confirmed exactly if one of them is from the chain; the
  confidence is at most 100, and at most 49 without evidence from the chain, and the list goes down in confidence. A report is
  only given for a confidence above 0, keeps the same caps and repeats the first of the list.\<close>

theorem narratives_need_the_chain:
  assumes "decimal_num_laws D dv" "\<forall>xs. mset (order xs) = mset xs"
    and "run_db (classify_token_narratives D order chain mint t) fault db = (Inr ns, db')"
  shows "list_all bounded_narrative ns \<and> sorted (map (\<lambda>n. - int (tn_confidence n)) ns) \<and>
    image_mset (facts_of dv) (mset ns) =
      image_mset (narrative_facts db (evidence_upto chain mint t db)) (mset (remdups (map ne_narrative_id (evidence_upto chain mint t db)))) \<and>
    (\<forall>r db''. run_db (explain_narrative D order distinct_order show_time chain mint t) fault db = (Inr (Some r), db'') \<longrightarrow>
       ns \<noteq> [] \<and> 0 < np_confidence r \<and> np_narrative r = tn_slug (hd ns) \<and> np_confidence r = tn_confidence (hd ns) \<and>
       np_confidence r \<le> (if list_ex (\<lambda>e. ne_source_kind e = ''on_chain'') (evidence_upto chain mint t db) then 100 else 49))"
proof -
  obtain j where run: "classify_token_narratives D order chain mint t fault (0, db) = (Inr ns, j, db')"
    using assms(3) by (auto simp: run_db_def split: prod.splits)
  note c = classify_run [OF assms(1) assms(2) [rule_format] run]
  have "ns \<noteq> [] \<and> 0 < np_confidence r \<and> np_narrative r = tn_slug (hd ns) \<and> np_confidence r = tn_confidence (hd ns) \<and>
       np_confidence r \<le> (if list_ex (\<lambda>e. ne_source_kind e = ''on_chain'') (evidence_upto chain mint t db) then 100 else 49)"
    if "run_db (explain_narrative D order distinct_order show_time chain mint t) fault db = (Inr (Some r), db'')" for r db''
  proof -
    have r: "ns \<noteq> []" "0 < np_confidence r" "np_narrative r = tn_slug (hd ns)" "np_confidence r = tn_confidence (hd ns)"
      using that run
      by (auto simp: run_db_def explain_narrative_def db_bind_def db_stmt_def db_return_def split: list.splits prod.splits if_splits)
    have "hd ns \<in> set ns"
      using r(1) by simp
    then have b: "bounded_narrative (hd ns)"
      using c by (simp add: list_all_iff)
    have "facts_of dv (hd ns) \<in># image_mset (facts_of dv) (mset ns)"
      using r(1) by simp
    then obtain k where "facts_of dv (hd ns) = narrative_facts db (evidence_upto chain mint t db) k"
      using c by auto
    then have "tn_on_chain_confirmed (hd ns) \<Longrightarrow> list_ex (\<lambda>e. ne_source_kind e = ''on_chain'') (evidence_upto chain mint t db)"
      by (auto simp: facts_of_def narrative_facts_def Let_def list_ex_iff)
    then show ?thesis
      using r b by (auto simp: bounded_narrative_def split: if_splits)
  qed
  then show ?thesis
    using c by blast
qed

section \<open>Paper metrics\<close>

fun first_some :: "'a option list \<Rightarrow> 'a option" where
  "first_some [] = None"
| "first_some (None # xs) = first_some xs"
| "first_some (Some x # xs) = Some x"

definition liquidity_within :: "int \<Rightarrow> int \<Rightarrow> ('d option \<times> int) list \<Rightarrow> 'd option" where
  "liquidity_within seconds signal_at rows = first_some (map fst (filter (\<lambda>x. snd x - signal_at \<le> seconds) rows))"

definition or_first :: "'a option \<Rightarrow> 'a option \<Rightarrow> 'a option" where
  "or_first a b = (case a of Some x \<Rightarrow> Some x | None \<Rightarrow> b)"

lemma metrics_loop_run:
  "metrics_loop signal_at rows p = p\<lparr>pt_liquidity_1m_usd := or_first (pt_liquidity_1m_usd p) (liquidity_within 60 signal_at rows),
     pt_liquidity_5m_usd := or_first (pt_liquidity_5m_usd p) (liquidity_within 300 signal_at rows),
     pt_liquidity_15m_usd := or_first (pt_liquidity_15m_usd p) (liquidity_within 900 signal_at rows)\<rparr>"
proof (induction rows arbitrary: p)
  case Nil
  then show ?case
    by (simp add: liquidity_within_def or_first_def split: option.split)
next
  case (Cons x rows)
  obtain l t where x: "x = (l, t)"
    by (cases x)
  have within: "liquidity_within n signal_at (x # rows) = (if t - signal_at \<le> n then or_first l (liquidity_within n signal_at rows) else liquidity_within n signal_at rows)" for n
    using x by (cases l) (simp_all add: liquidity_within_def or_first_def)
  show ?case
    unfolding within unfolding x metrics_loop.simps Let_def Cons.IH
    by (cases "t - signal_at \<le> 60"; cases "t - signal_at \<le> 300"; cases "t - signal_at \<le> 900"; cases "pt_liquidity_1m_usd p";
        cases "pt_liquidity_5m_usd p"; cases "pt_liquidity_15m_usd p") (simp_all add: or_first_def)
qed

lemma filter_sorted_prefix:
  "sorted (map snd rows) \<Longrightarrow> a \<le> b \<Longrightarrow>
   \<exists>rest. filter (\<lambda>x. snd x - c \<le> b) rows = filter (\<lambda>x. snd x - c \<le> a) rows @ rest" for a b c :: int
proof (induction rows)
  case (Cons x rows)
  show ?case
  proof (cases "snd x - c \<le> a")
    case True
    then show ?thesis
      using Cons by auto
  next
    case False
    then have "filter (\<lambda>x. snd x - c \<le> a) (x # rows) = []"
      using Cons.prems(1) by (auto simp: filter_empty_conv)
    then show ?thesis
      by simp
  qed
qed simp

lemma first_some_append: "first_some (xs @ ys) = or_first (first_some xs) (first_some ys)"
  by (induction xs rule: first_some.induct) (simp_all add: or_first_def)

lemma liquidity_within_mono:
  assumes "sorted (map snd rows)" "a \<le> b" "liquidity_within a t rows = Some x"
  shows "liquidity_within b t rows = Some x"
proof -
  obtain rest where "filter (\<lambda>x. snd x - t \<le> b) rows = filter (\<lambda>x. snd x - t \<le> a) rows @ rest"
    using filter_sorted_prefix [OF assms(1,2)] by blast
  then show ?thesis
    using assms(3) by (simp add: liquidity_within_def first_some_append or_first_def)
qed

lemma paper_rows_sorted: "sorted (map snd (paper_rows chain mint t db))"
proof -
  have "map snd (paper_rows chain mint t db) = take 50 (map mk_observed_at (sort_key mk_observed_at
      (filter (\<lambda>r. mk_chain r = chain_kind_as_str chain \<and> mk_mint r = mint \<and> t < mk_observed_at r) (rp_markets db))))"
    by (simp add: paper_rows_def take_map)
  then show ?thesis
    using sorted_wrt_take [OF sorted_sort_key] by simp
qed

text \<open>C34: The paper metrics hold liquidity as first seen. Over at most the first fifty snapshots after the signal the three fields hold
  the first known liquidity seen within one, five and fifteen minutes; so a liquidity known within the first minute fills all three
  fields, and the later ones never show how the liquidity moved. Latency, slippage, both excursions and the sell flag stay at their defaults.\<close>

theorem paper_liquidity_is_first_seen:
  "run_db (paper_metrics chain mint t) (\<lambda>_. False) db = (Inr (no_metrics
     \<lparr>pt_liquidity_1m_usd := liquidity_within 60 t (paper_rows chain mint t db),
      pt_liquidity_5m_usd := liquidity_within 300 t (paper_rows chain mint t db),
      pt_liquidity_15m_usd := liquidity_within 900 t (paper_rows chain mint t db)\<rparr>), db) \<and>
   (liquidity_within 60 t (paper_rows chain mint t db) = Some x \<longrightarrow>
      liquidity_within 300 t (paper_rows chain mint t db) = Some x \<and> liquidity_within 900 t (paper_rows chain mint t db) = Some x) \<and>
   length (paper_rows chain mint t db) \<le> 50"
proof -
  have "liquidity_within n t (paper_rows chain mint t db) = Some x" if "60 \<le> n" "liquidity_within 60 t (paper_rows chain mint t db) = Some x" for n
    by (rule liquidity_within_mono [OF paper_rows_sorted that])
  then show ?thesis
    by (simp add: run_db_def paper_metrics_def db_bind_def db_stmt_def db_return_def metrics_loop_run or_first_def no_metrics_def)
      (simp add: paper_rows_def)
qed

definition empty_replay :: "rat replay_db" where
  "empty_replay = \<lparr>rp_markets = [], rp_scores = [], rp_gmgn = [], rp_messages = [], rp_mentions = [], rp_narratives = [],
     rp_next_narrative = 1, rp_evidence = []\<rparr>"

definition sample_snapshot :: "int \<Rightarrow> rat \<Rightarrow> rat market_row" where
  "sample_snapshot t l = \<lparr>mk_chain = ''solana'', mk_mint = ''M'', mk_observed_at = t, mk_price_usd = None, mk_liquidity_usd = Some l\<rparr>"

theorem paper_liquidity_is_first_seen_witness:
  "liquidity_within 300 0 (paper_rows KindSolana ''M'' 0 (empty_replay\<lparr>rp_markets := [sample_snapshot 200 7, sample_snapshot 30 9]\<rparr>)) = Some 9"
  using paper_liquidity_is_first_seen [of KindSolana "''M''" 0 "empty_replay\<lparr>rp_markets := [sample_snapshot 200 7, sample_snapshot 30 9]\<rparr>" 9]
  by (simp add: paper_rows_def liquidity_within_def sample_snapshot_def)

section \<open>Seeds and evidence\<close>

lemma seed_loop_run:
  "run_db (seed_loop rows) (\<lambda>_. False) db = (Inr (), fold (\<lambda>(slug, name). seed_one slug name) rows db)"
proof -
  have "seed_loop rows (\<lambda>_. False) (i, db) = (Inr (), i + length rows, fold (\<lambda>(slug, name). seed_one slug name) rows db)" for i
    by (induction rows arbitrary: i db) (auto simp: db_bind_def db_stmt_def db_return_def)
  then show ?thesis
    by (simp add: run_db_def)
qed

lemma seed_one_slugs: "nr_slug ` set (rp_narratives (seed_one slug name db)) = insert slug (nr_slug ` set (rp_narratives db))"
  by (auto simp: seed_one_def)

lemma seed_slugs:
  "nr_slug ` set (rp_narratives (fold (\<lambda>(slug, name). seed_one slug name) rows db)) = fst ` set rows \<union> nr_slug ` set (rp_narratives db)"
proof (induction rows arbitrary: db)
  case (Cons x rows)
  show ?case
    using Cons.IH [of "seed_one (fst x) (snd x) db"] by (cases x) (auto simp: seed_one_slugs)
qed simp

text \<open>Seeding twice is seeding once, and then every slug of the taxonomy has a row.\<close>

lemma seed_known: "fst ` set rows \<subseteq> nr_slug ` set (rp_narratives db) \<Longrightarrow> fold (\<lambda>(slug, name). seed_one slug name) rows db = db"
  by (induction rows) (auto simp: seed_one_def)

lemma seeding_is_idempotent:
  "run_db seed_narratives (\<lambda>_. False) (snd (run_db seed_narratives (\<lambda>_. False) db)) = (Inr (), snd (run_db seed_narratives (\<lambda>_. False) db)) \<and>
   fst ` set NARRATIVE_SLUGS \<subseteq> nr_slug ` set (rp_narratives (snd (run_db seed_narratives (\<lambda>_. False) db)))"
  by (simp add: seed_narratives_def seed_loop_run seed_slugs seed_known)

text \<open>The same evidence is stored again, under the same hash, and different evidence can share a hash.\<close>

lemma evidence_is_stored_again:
  assumes "find (\<lambda>r. nr_slug r = ni_slug e) (rp_narratives db) = Some n"
  shows "map ne_content_hash (rp_evidence (snd (run_db (db_bind (add_narrative_evidence digest now e) (\<lambda>_. add_narrative_evidence digest now e)) (\<lambda>_. False) db))) =
    map ne_content_hash (rp_evidence db) @ replicate 2 (Some (content_hash_of digest (ni_source_kind e) (ni_source_ref e) (ni_claim_type e) (ni_claim_text e)))"
  using assms
  by (simp add: run_db_def add_narrative_evidence_def fetch_one_def db_bind_def db_stmt_def db_return_def Let_def numeral_2_eq_2)

lemma content_hash_collision: "content_hash_of digest ''a'' ''b|c'' x y = content_hash_of digest ''a|b'' ''c'' x y"
  by (simp add: content_hash_of_def)

definition sample_evidence :: "string \<Rightarrow> int \<Rightarrow> narrative_evidence_row" where
  "sample_evidence source t = \<lparr>ne_chain = ''solana'', ne_mint = ''M'', ne_narrative_id = 1, ne_source_kind = source, ne_source_ref = [],
     ne_canonical_url = None, ne_claim_type = [], ne_claim_text = [], ne_polarity = ''supporting'', ne_published_at = None, ne_observed_at = t,
     ne_confidence = 80, ne_content_hash = None, ne_raw = JNull\<rparr>"

definition sample_narratives :: "rat replay_db" where
  "sample_narratives = empty_replay\<lparr>rp_narratives := [\<lparr>nr_id = 1, nr_slug = ''ai'', nr_name = [], nr_category = []\<rparr>],
     rp_evidence := [sample_evidence ''gmgn'' 5, sample_evidence ''on_chain'' 99]\<rparr>"

lemma sample_rows: "evidence_upto KindSolana ''M'' 10 sample_narratives = [sample_evidence ''gmgn'' 5]"
  by (simp add: evidence_upto_def sample_narratives_def sample_evidence_def)

lemma sample_classified:
  "run_db (classify_token_narratives rat_num id KindSolana ''M'' 10) (\<lambda>_. False) sample_narratives =
   (Inr [\<lparr>tn_slug = ''ai'', tn_score = 80, tn_confidence = 49, tn_status = ''candidate'', tn_evidence_count = 1, tn_on_chain_confirmed = False\<rparr>],
    sample_narratives)"
  by (simp add: run_db_def classify_token_narratives_def db_bind_def db_stmt_def db_return_def sample_rows Let_def sample_evidence_def weigh_row_def
      fetch_one_def narrative_confidence_def polarity_weight_def dec_clamp_def) (simp add: sample_narratives_def db_return_def)

theorem narratives_need_the_chain_witness:
  "narrative_facts sample_narratives [sample_evidence ''gmgn'' 5] 1 = (Some ''ai'', 80, 1, False)"
  using narratives_need_the_chain [OF rat_num.decimal_num_laws_axioms, of id KindSolana "''M''" 10 "\<lambda>_. False" sample_narratives, OF _ sample_classified]
  by (simp add: sample_rows facts_of_def) (simp add: sample_evidence_def)

end
