(* ===== verification/Telegram_Ingest.thy ===== *)
theory Telegram_Ingest
  imports Transactions Telegram_Parse
begin

text \<open>
  Telegram ingestion (\<open>telegram_ingest.rs\<close>) and the polling of channels (\<open>telegram_client.rs\<close>). The trait of message stores is a record of
  programs over the state of a store, with the database and the in-memory store as its two instances; in the latter a statement fails when the
  lock is poisoned. What the messenger answers (the resolution of a name, the items of a history), the decoder, the digest and
  the lower-case conversion are arguments. Counters are unbounded.
\<close>

section \<open>Messages and errors\<close>

datatype ChannelStatus = ChActive | ChFloodWait | ChDisabled | ChNotFound | ChAuthFailed

fun channel_status_as_str :: "ChannelStatus \<Rightarrow> string" where
  "channel_status_as_str ChActive = ''active''"
| "channel_status_as_str ChFloodWait = ''flood_wait''"
| "channel_status_as_str ChDisabled = ''disabled''"
| "channel_status_as_str ChNotFound = ''not_found''"
| "channel_status_as_str ChAuthFailed = ''auth_failed''"

record RawChannelMessage =
  xm_channel_key :: utext
  xm_message_id :: int
  xm_edit_version :: int
  xm_posted_at :: "int option"
  xm_observed_at :: int
  xm_author_ref :: "utext option"
  xm_author_name :: "utext option"
  xm_text :: "utext option"
  xm_deleted :: bool
  xm_has_media :: bool
  xm_raw :: json

definition message_hash :: "(nat list \<Rightarrow> string) \<Rightarrow> RawChannelMessage \<Rightarrow> string" where
  "message_hash sha256_hex m = content_hash sha256_hex (xm_channel_key m) (xm_message_id m) (xm_edit_version m) (xm_text m)"

datatype TelegramError = FloodWait nat | AuthFailed | ChannelNotFound | ChannelBanned | NetworkError utext

definition is_ascii_digit :: "nat \<Rightarrow> bool" where
  "is_ascii_digit c \<longleftrightarrow> 48 \<le> c \<and> c \<le> 57"

text \<open>The maximal runs of digits, in order.\<close>

fun digit_runs :: "utext \<Rightarrow> utext \<Rightarrow> utext list" where
  "digit_runs run [] = (if run = [] then [] else [run])"
| "digit_runs run (c # s) =
     (if is_ascii_digit c then digit_runs (run @ [c]) s
      else (if run = [] then [] else [run]) @ digit_runs [] s)"

definition parse_u64 :: "utext \<Rightarrow> nat option" where
  "parse_u64 s = (let n = foldl (\<lambda>n c. 10 * n + (c - 48)) 0 s in if n < 2 ^ 64 then Some n else None)"

definition classify_error :: "(utext \<Rightarrow> utext) \<Rightarrow> utext \<Rightarrow> TelegramError" where
  "classify_error to_lower raw =
     (let lower = to_lower raw; hit = (\<lambda>needle. contains_sub (lit needle) lower)
      in if hit ''flood'' then
           FloodWait (let found = List.map_filter parse_u64 (digit_runs [] lower) in if found = [] then 5 else last found)
         else if hit ''auth'' \<or> hit ''unauthorized'' \<or> hit ''session'' then AuthFailed
         else if hit ''not found'' \<or> hit ''does not exist'' then ChannelNotFound
         else if hit ''banned'' \<or> hit ''restricted'' \<or> hit ''kicked'' then ChannelBanned
         else NetworkError raw)"

section \<open>Stores\<close>

record MentionRow =
  mw_channel_key :: utext
  mw_message_id :: int
  mw_edit_version :: int
  mw_chain :: string
  mw_mint :: "utext option"
  mw_wallet :: "utext option"
  mw_mention_kind :: string
  mw_extracted_value :: utext
  mw_context :: utext

datatype tg_failure = MessagePanic

record 's message_store =
  ms_insert_message :: "RawChannelMessage \<Rightarrow> ('s, tg_failure, bool) db"
  ms_insert_mention :: "MentionRow \<Rightarrow> ('s, tg_failure, bool) db"
  ms_update_channel :: "utext \<Rightarrow> string \<Rightarrow> utext option \<Rightarrow> int option \<Rightarrow> ('s, tg_failure, unit) db"
  ms_channel_allowlisted :: "utext \<Rightarrow> ('s, tg_failure, bool) db"

definition message_key :: "RawChannelMessage \<Rightarrow> utext \<times> int \<times> int" where
  "message_key m = (xm_channel_key m, xm_message_id m, xm_edit_version m)"

definition mention_key :: "MentionRow \<Rightarrow> utext \<times> int \<times> int \<times> string \<times> utext" where
  "mention_key r = (mw_channel_key r, mw_message_id r, mw_edit_version r, mw_mention_kind r, mw_extracted_value r)"

subsection \<open>The database\<close>

record tg_channel_row =
  tc_key :: utext
  tc_allowlisted :: bool
  tc_last_cursor :: "utext option"
  tc_last_observed_at :: "int option"
  tc_status :: string

record tg_message_row =
  tm_channel_key :: utext
  tm_message_id :: int
  tm_edit_version :: int
  tm_posted_at :: "int option"
  tm_observed_at :: int
  tm_author_ref :: "utext option"
  tm_author_name :: "utext option"
  tm_text_content :: "utext option"
  tm_raw :: json
  tm_content_hash :: string
  tm_deleted_at :: "int option"

record pg_messages =
  pg_channels :: "tg_channel_row list"
  pg_rows :: "tg_message_row list"
  pg_mentions :: "MentionRow list"

definition tg_row_key :: "tg_message_row \<Rightarrow> utext \<times> int \<times> int" where
  "tg_row_key r = (tm_channel_key r, tm_message_id r, tm_edit_version r)"

definition new_channel :: "utext \<Rightarrow> string \<Rightarrow> utext option \<Rightarrow> int option \<Rightarrow> tg_channel_row" where
  "new_channel key status cursor seen =
     \<lparr>tc_key = key, tc_allowlisted = True, tc_last_cursor = cursor, tc_last_observed_at = seen, tc_status = status\<rparr>"

definition message_row_of :: "(nat list \<Rightarrow> string) \<Rightarrow> RawChannelMessage \<Rightarrow> tg_message_row" where
  "message_row_of sha256_hex m =
     \<lparr>tm_channel_key = xm_channel_key m, tm_message_id = xm_message_id m, tm_edit_version = xm_edit_version m, tm_posted_at = xm_posted_at m,
      tm_observed_at = xm_observed_at m, tm_author_ref = xm_author_ref m, tm_author_name = xm_author_name m, tm_text_content = xm_text m,
      tm_raw = xm_raw m, tm_content_hash = message_hash sha256_hex m,
      tm_deleted_at = (if xm_deleted m then Some (xm_observed_at m) else None)\<rparr>"

definition pg_insert_message :: "(nat list \<Rightarrow> string) \<Rightarrow> RawChannelMessage \<Rightarrow> (pg_messages, tg_failure, bool) db" where
  "pg_insert_message sha256_hex m =
     db_bind (db_stmt (\<lambda>db. ((), db\<lparr>pg_channels := snd (insert_new tc_key (new_channel (xm_channel_key m) ''active'' None None) (pg_channels db))\<rparr>))) (\<lambda>_.
     db_stmt (\<lambda>db. case insert_new tg_row_key (message_row_of sha256_hex m) (pg_rows db) of (new, rows) \<Rightarrow> (new, db\<lparr>pg_rows := rows\<rparr>)))"

definition pg_insert_mention :: "MentionRow \<Rightarrow> (pg_messages, tg_failure, bool) db" where
  "pg_insert_mention r = db_stmt (\<lambda>db. case insert_new mention_key r (pg_mentions db) of (new, rows) \<Rightarrow> (new, db\<lparr>pg_mentions := rows\<rparr>))"

definition pg_update_channel :: "utext \<Rightarrow> string \<Rightarrow> utext option \<Rightarrow> int option \<Rightarrow> (pg_messages, tg_failure, unit) db" where
  "pg_update_channel key status cursor seen = db_stmt (\<lambda>db. ((), db\<lparr>pg_channels :=
     (if key \<in> tc_key ` set (pg_channels db)
      then map (\<lambda>r. if tc_key r = key
             then r\<lparr>tc_status := status, tc_last_cursor := or_else cursor (tc_last_cursor r),
                    tc_last_observed_at := or_else seen (tc_last_observed_at r)\<rparr> else r) (pg_channels db)
      else pg_channels db @ [new_channel key status cursor seen])\<rparr>))"

definition pg_channel_allowlisted :: "utext \<Rightarrow> (pg_messages, tg_failure, bool) db" where
  "pg_channel_allowlisted key = db_stmt (\<lambda>db.
     (case find (\<lambda>r. tc_key r = key) (pg_channels db) of Some r \<Rightarrow> tc_allowlisted r | None \<Rightarrow> False, db))"

definition pg_store :: "(nat list \<Rightarrow> string) \<Rightarrow> pg_messages message_store" where
  "pg_store sha256_hex = \<lparr>ms_insert_message = pg_insert_message sha256_hex, ms_insert_mention = pg_insert_mention,
     ms_update_channel = pg_update_channel, ms_channel_allowlisted = pg_channel_allowlisted\<rparr>"

subsection \<open>Memory\<close>

record memory_state =
  my_allowlist :: "utext list"
  my_messages :: "RawChannelMessage list"
  my_mentions :: "MentionRow list"
  my_statuses :: "utext \<Rightarrow> string option"
  my_cursors :: "utext \<Rightarrow> utext option"

definition memory_new :: "utext list \<Rightarrow> memory_state" where
  "memory_new allowlist = \<lparr>my_allowlist = allowlist, my_messages = [], my_mentions = [], my_statuses = Map.empty, my_cursors = Map.empty\<rparr>"

definition mem_insert_message :: "RawChannelMessage \<Rightarrow> (memory_state, tg_failure, bool) db" where
  "mem_insert_message m = db_stmt (\<lambda>st.
     if list_ex (\<lambda>x. xm_channel_key x = xm_channel_key m \<and> xm_message_id x = xm_message_id m \<and> xm_edit_version x = xm_edit_version m) (my_messages st)
     then (False, st) else (True, st\<lparr>my_messages := my_messages st @ [m]\<rparr>))"

definition mem_insert_mention :: "MentionRow \<Rightarrow> (memory_state, tg_failure, bool) db" where
  "mem_insert_mention r = db_stmt (\<lambda>st.
     if list_ex (\<lambda>x. mw_channel_key x = mw_channel_key r \<and> mw_message_id x = mw_message_id r \<and> mw_edit_version x = mw_edit_version r \<and>
          mw_mention_kind x = mw_mention_kind r \<and> mw_extracted_value x = mw_extracted_value r) (my_mentions st)
     then (False, st) else (True, st\<lparr>my_mentions := my_mentions st @ [r]\<rparr>))"

definition mem_update_channel :: "utext \<Rightarrow> string \<Rightarrow> utext option \<Rightarrow> int option \<Rightarrow> (memory_state, tg_failure, unit) db" where
  "mem_update_channel key status cursor seen = db_stmt (\<lambda>st.
     let st1 = st\<lparr>my_statuses := (my_statuses st)(key \<mapsto> status)\<rparr>
     in ((), case cursor of Some c \<Rightarrow> st1\<lparr>my_cursors := (my_cursors st1)(key \<mapsto> c)\<rparr> | None \<Rightarrow> st1))"

definition mem_channel_allowlisted :: "utext \<Rightarrow> (memory_state, tg_failure, bool) db" where
  "mem_channel_allowlisted key = db_stmt (\<lambda>st. (key \<in> set (my_allowlist st), st))"

definition memory_store :: "memory_state message_store" where
  "memory_store = \<lparr>ms_insert_message = mem_insert_message, ms_insert_mention = mem_insert_mention,
     ms_update_channel = mem_update_channel, ms_channel_allowlisted = mem_channel_allowlisted\<rparr>"

section \<open>Ingestion\<close>

definition mention_row_of :: "RawChannelMessage \<Rightarrow> ParsedMention \<Rightarrow> MentionRow" where
  "mention_row_of m p =
     (let (mint, wallet) = (case mn_kind p of
            MkMint \<Rightarrow> (Some (mn_extracted_value p), None) | MkWallet \<Rightarrow> (None, Some (mn_extracted_value p)) | MkUrl \<Rightarrow> (None, None))
      in \<lparr>mw_channel_key = xm_channel_key m, mw_message_id = xm_message_id m, mw_edit_version = xm_edit_version m,
          mw_chain = chain_kind_as_str KindSolana, mw_mint = mint, mw_wallet = wallet, mw_mention_kind = mention_kind_as_str (mn_kind p),
          mw_extracted_value = mn_extracted_value p, mw_context = mn_context p\<rparr>)"

fun mentions_loop :: "'s message_store \<Rightarrow> RawChannelMessage \<Rightarrow> ParsedMention list \<Rightarrow> ('s, tg_failure, unit) db" where
  "mentions_loop S m [] = db_return ()"
| "mentions_loop S m (p # ps) = db_bind (ms_insert_mention S (mention_row_of m p)) (\<lambda>_. mentions_loop S m ps)"

definition ingest_message ::
  "(utext \<Rightarrow> nat option) \<Rightarrow> (utext \<Rightarrow> utext) \<Rightarrow> 's message_store \<Rightarrow> RawChannelMessage \<Rightarrow> ('s, tg_failure, bool) db" where
  "ingest_message b58 to_lower S m =
     db_bind (ms_channel_allowlisted S (xm_channel_key m)) (\<lambda>allowed.
     if \<not> allowed then db_return False
     else db_bind (ms_insert_message S m) (\<lambda>inserted.
       if \<not> inserted then db_return False
       else case parse_message_text b58 to_lower (xm_text m) of
           None \<Rightarrow> db_fail MessagePanic
         | Some parsed \<Rightarrow> db_bind (mentions_loop S m (pm_mentions parsed)) (\<lambda>_. db_return True)))"

definition handle_channel_error :: "'s message_store \<Rightarrow> utext \<Rightarrow> TelegramError \<Rightarrow> ('s, tg_failure, unit) db" where
  "handle_channel_error S key err =
     (case err of
        FloodWait seconds \<Rightarrow> ms_update_channel S key (channel_status_as_str ChFloodWait) None None
      | AuthFailed \<Rightarrow> ms_update_channel S key (channel_status_as_str ChAuthFailed) None None
      | ChannelNotFound \<Rightarrow> ms_update_channel S key (channel_status_as_str ChDisabled) None None
      | ChannelBanned \<Rightarrow> ms_update_channel S key (channel_status_as_str ChDisabled) None None
      | NetworkError msg \<Rightarrow> db_return ())"

definition concurrency_limit :: "nat \<Rightarrow> nat" where
  "concurrency_limit limit = max limit 1"

section \<open>Polling\<close>

record tg_message =
  tx_id :: int
  tx_date :: int
  tx_edited :: bool
  tx_sender :: "int option"
  tx_post_author :: "utext option"
  tx_text :: utext
  tx_media :: bool

definition raw_of :: "utext \<Rightarrow> int \<Rightarrow> tg_message \<Rightarrow> RawChannelMessage" where
  "raw_of key now x =
     \<lparr>xm_channel_key = key, xm_message_id = tx_id x, xm_edit_version = (if tx_edited x then 1 else 0), xm_posted_at = Some (tx_date x),
      xm_observed_at = now, xm_author_ref = map_option (\<lambda>i. lit (show_int i)) (tx_sender x), xm_author_name = tx_post_author x,
      xm_text = (if tx_text x = [] then None else Some (tx_text x)), xm_deleted = False, xm_has_media = tx_media x,
      xm_raw = JObject [(''id'', JNumber (Fin (of_int (tx_id x)))), (''channel'', JString (map char_of key))]\<rparr>"

text \<open>\<open>let _ = ...\<close>: an error is dropped, a panic is not.\<close>

definition db_ignore :: "('s, tg_failure, 'a) db \<Rightarrow> ('s, tg_failure, unit) db" where
  "db_ignore m = (\<lambda>fault s. case m fault s of
     (r, s') \<Rightarrow> (if r = Inl (TxAbort MessagePanic) then Inl (TxAbort MessagePanic) else Inr (), s'))"

text \<open>What the messenger answers: whether a name resolves, the items of a history, and how a failure of the store prints.\<close>

record tg_env =
  te_b58 :: "utext \<Rightarrow> nat option"
  te_to_lower :: "utext \<Rightarrow> utext"
  te_resolve :: "utext \<Rightarrow> utext + bool"
  te_history :: "utext \<Rightarrow> (utext + tg_message) list"
  te_store_error :: utext

fun history_loop ::
  "tg_env \<Rightarrow> 's message_store \<Rightarrow> utext \<Rightarrow> int \<Rightarrow> nat \<Rightarrow> (utext + tg_message) list \<Rightarrow> nat \<Rightarrow> int \<Rightarrow> ('s, tg_failure, nat \<times> int) db" where
  "history_loop E S key now limit [] fetched max_id = db_return (fetched, max_id)"
| "history_loop E S key now limit (x # rest) fetched max_id =
     (if fetched < as_u32 limit then
        (case x of
           Inl err \<Rightarrow> db_bind (handle_channel_error S key (classify_error (te_to_lower E) err)) (\<lambda>_. db_return (fetched, max_id))
         | Inr m \<Rightarrow>
             db_bind (db_ignore (ingest_message (te_b58 E) (te_to_lower E) S (raw_of key now m))) (\<lambda>_.
             history_loop E S key now limit rest (fetched + 1) (if max_id < tx_id m then tx_id m else max_id)))
      else db_return (fetched, max_id))"

definition poll_channel :: "tg_env \<Rightarrow> 's message_store \<Rightarrow> utext \<Rightarrow> int \<Rightarrow> nat \<Rightarrow> ('s, tg_failure, nat) db" where
  "poll_channel E S key now limit =
     (case te_resolve E key of
        Inr False \<Rightarrow> db_bind (handle_channel_error S key ChannelNotFound) (\<lambda>_. db_return 0)
      | Inl err \<Rightarrow> db_bind (handle_channel_error S key (classify_error (te_to_lower E) err)) (\<lambda>_. db_return 0)
      | Inr True \<Rightarrow>
          db_bind (history_loop E S key now limit (te_history E key) 0 0) (\<lambda>(fetched, max_id).
          db_bind (ms_update_channel S key (channel_status_as_str ChActive) (Some (lit (show_int max_id))) (Some now)) (\<lambda>_.
          db_return fetched)))"

text \<open>\<open>match poll_channel(..)\<close>: a store failure is classified by its text.\<close>

definition poll_or_report :: "tg_env \<Rightarrow> 's message_store \<Rightarrow> utext \<Rightarrow> int \<Rightarrow> nat \<Rightarrow> ('s, tg_failure, nat) db" where
  "poll_or_report E S key now limit = (\<lambda>fault s.
     case poll_channel E S key now limit fault s of
       (Inl TxFault, s') \<Rightarrow>
         db_bind (handle_channel_error S key (classify_error (te_to_lower E) (te_store_error E))) (\<lambda>_. db_return 0) fault s'
     | (r, s') \<Rightarrow> (r, s'))"

fun poll_all_channels :: "tg_env \<Rightarrow> 's message_store \<Rightarrow> utext list \<Rightarrow> int \<Rightarrow> nat \<Rightarrow> nat \<Rightarrow> ('s, tg_failure, nat) db" where
  "poll_all_channels E S [] now limit so_far = db_return so_far"
| "poll_all_channels E S (key # keys) now limit so_far =
     db_bind (poll_or_report E S key now limit) (\<lambda>n. poll_all_channels E S keys now limit (so_far + n))"

definition active_channels :: "pg_messages \<Rightarrow> utext list" where
  "active_channels db = map tc_key (filter (\<lambda>r. tc_allowlisted r \<and> tc_status r = ''active'') (pg_channels db))"

text \<open>One tick of the loop of the worker.\<close>

definition poll_tick :: "tg_env \<Rightarrow> (nat list \<Rightarrow> string) \<Rightarrow> int \<Rightarrow> nat \<Rightarrow> (pg_messages, tg_failure, unit) db" where
  "poll_tick E sha256_hex now limit =
     db_bind (db_unwrap_or [] (db_stmt (\<lambda>db. (active_channels db, db)))) (\<lambda>keys.
     if keys = [] then db_return ()
     else db_ignore (poll_all_channels E (pg_store sha256_hex) keys now limit 0))"

section \<open>The contract of stores\<close>

text \<open>What a store holds: the messages, without the media flag that the database does not keep, and the mentions.\<close>

type_synonym store_view = "RawChannelMessage list \<times> MentionRow list"

definition stored :: "RawChannelMessage \<Rightarrow> RawChannelMessage" where
  "stored m = m\<lparr>xm_has_media := False\<rparr>"

definition spec_message :: "RawChannelMessage \<Rightarrow> store_view \<Rightarrow> bool \<times> store_view" where
  "spec_message m v = (if message_key m \<in> message_key ` set (fst v) then (False, v) else (True, (fst v @ [stored m], snd v)))"

definition spec_mention :: "MentionRow \<Rightarrow> store_view \<Rightarrow> bool \<times> store_view" where
  "spec_mention r v = (if mention_key r \<in> mention_key ` set (snd v) then (False, v) else (True, (fst v, snd v @ [r])))"

definition spec_mentions :: "RawChannelMessage \<Rightarrow> ParsedMention list \<Rightarrow> store_view \<Rightarrow> store_view" where
  "spec_mentions m ps v = fold (\<lambda>p v. snd (spec_mention (mention_row_of m p) v)) ps v"

definition spec_ingest :: "(utext \<Rightarrow> nat option) \<Rightarrow> (utext \<Rightarrow> utext) \<Rightarrow> bool \<Rightarrow> RawChannelMessage \<Rightarrow> store_view \<Rightarrow> (tg_failure tx_error + bool) \<times> store_view" where
  "spec_ingest b58 to_lower allowed m v =
     (if \<not> allowed then (Inr False, v)
      else case spec_message m v of
          (False, v1) \<Rightarrow> (Inr False, v1)
        | (True, v1) \<Rightarrow> (case parse_message_text b58 to_lower (xm_text m) of
              None \<Rightarrow> (Inl (TxAbort MessagePanic), v1)
            | Some parsed \<Rightarrow> (Inr True, spec_mentions m (pm_mentions parsed) v1)))"

text \<open>A statement of a store does what the contract says or fails without a trace, and it fails only when the schedule has a fault.\<close>

definition effect_or_fault :: "(nat \<Rightarrow> bool) \<Rightarrow> tg_failure tx_error + 'a \<Rightarrow> store_view \<Rightarrow> store_view \<Rightarrow> 'a \<times> store_view \<Rightarrow> bool" where
  "effect_or_fault fault r v v' good \<longleftrightarrow> (r = Inl TxFault \<and> v' = v \<and> (\<exists>n. fault n)) \<or> (r = Inr (fst good) \<and> v' = snd good)"

locale store_contract =
  fixes S :: "'s message_store" and view :: "'s \<Rightarrow> store_view" and allowed :: "'s \<Rightarrow> utext \<Rightarrow> bool"
  assumes allowlisted: "ms_channel_allowlisted S key fault (i, s) = (r, j, s') \<Longrightarrow>
      s' = s \<and> effect_or_fault fault r (view s) (view s) (allowed s key, view s)"
    and insert_message: "ms_insert_message S m fault (i, s) = (r, j, s') \<Longrightarrow> allowed s (xm_channel_key m) \<Longrightarrow>
      allowed s' = allowed s \<and> effect_or_fault fault r (view s) (view s') (spec_message m (view s))"
    and insert_mention: "ms_insert_mention S x fault (i, s) = (r, j, s') \<Longrightarrow>
      allowed s' = allowed s \<and> effect_or_fault fault r (view s) (view s') (spec_mention x (view s))"
    and update_channel: "ms_update_channel S key status cursor seen fault (i, s) = (u, j, s') \<Longrightarrow>
      (allowed s key \<longrightarrow> allowed s' = allowed s) \<and> effect_or_fault fault u (view s) (view s') ((), view s)"
begin

lemma mentions_run:
  "mentions_loop S m ps fault (i, s) = (r, j, s') \<Longrightarrow>
   allowed s' = allowed s \<and> (\<exists>k \<le> length ps. view s' = spec_mentions m (take k ps) (view s) \<and>
     (r = Inr () \<and> k = length ps \<or> r = Inl TxFault \<and> (\<exists>n. fault n)))"
proof (induction ps arbitrary: i s)
  case Nil
  then show ?case
    by (simp add: db_return_def spec_mentions_def)
next
  case (Cons p ps)
  obtain r0 j0 t where m: "ms_insert_mention S (mention_row_of m p) fault (i, s) = (r0, j0, t)"
    using prod_cases3 by blast
  note e = insert_mention [OF m]
  show ?case
  proof (cases r0)
    case (Inl e0)
    then show ?thesis
      using e m Cons.prems by (intro conjI exI [of _ 0]) (auto simp: db_bind_def effect_or_fault_def spec_mentions_def)
  next
    case (Inr b)
    then have rest: "mentions_loop S m ps fault (j0, t) = (r, j, s')" and t: "view t = snd (spec_mention (mention_row_of m p) (view s))"
      "allowed t = allowed s"
      using e m Cons.prems by (auto simp: db_bind_def effect_or_fault_def)
    from Cons.IH [OF rest] obtain k where k: "allowed s' = allowed t" "k \<le> length ps" "view s' = spec_mentions m (take k ps) (view t)"
      "r = Inr () \<and> k = length ps \<or> r = Inl TxFault \<and> (\<exists>n. fault n)"
      by blast
    then show ?thesis
      using t by (intro conjI exI [of _ "Suc k"]) (auto simp: spec_mentions_def)
  qed
qed

text \<open>An ingestion leaves the store as it was, or holds the message and a first part of its mentions.\<close>

lemma ingest_run:
  assumes run: "ingest_message b58 to_lower S m fault (i, s) = (r, j, s')"
  shows "allowed s' = allowed s \<and>
    (view s' = view s \<and> (r = Inl TxFault \<and> (\<exists>n. fault n) \<or> r = Inr False \<and> (\<not> allowed s (xm_channel_key m) \<or> message_key m \<in> message_key ` set (fst (view s)))) \<or>
     allowed s (xm_channel_key m) \<and> message_key m \<notin> message_key ` set (fst (view s)) \<and>
     (let v = (fst (view s) @ [stored m], snd (view s))
      in case parse_message_text b58 to_lower (xm_text m) of
           None \<Rightarrow> r = Inl (TxAbort MessagePanic) \<and> view s' = v
         | Some parsed \<Rightarrow> \<exists>k \<le> length (pm_mentions parsed). view s' = spec_mentions m (take k (pm_mentions parsed)) v \<and>
             (r = Inr True \<and> k = length (pm_mentions parsed) \<or> r = Inl TxFault \<and> (\<exists>n. fault n))))"
proof -
  obtain r0 j0 s0 where a: "ms_channel_allowlisted S (xm_channel_key m) fault (i, s) = (r0, j0, s0)"
    using prod_cases3 by blast
  have s0: "s0 = s" and ra: "(r0 = Inl TxFault \<and> (\<exists>n. fault n)) \<or> r0 = Inr (allowed s (xm_channel_key m))"
    using allowlisted [OF a] by (auto simp: effect_or_fault_def)
  show ?thesis
  proof (cases "r0 = Inr True")
    case False
    then consider "r0 = Inl TxFault" "\<exists>n. fault n" | "r0 = Inr False" "\<not> allowed s (xm_channel_key m)"
      using ra by (cases "allowed s (xm_channel_key m)") auto
    then show ?thesis
      using run a s0 by cases (simp_all add: ingest_message_def db_bind_def db_return_def)
  next
    case True
    then have ok: "allowed s (xm_channel_key m)"
      using ra by simp
    obtain r1 j1 s1 where b: "ms_insert_message S m fault (j0, s) = (r1, j1, s1)"
      using prod_cases3 by blast
    note e = insert_message [OF b ok]
    show ?thesis
    proof (cases "r1 = Inr True")
      case False
      then consider "r1 = Inl TxFault" "\<exists>n. fault n" "view s1 = view s"
        | "r1 = Inr False" "message_key m \<in> message_key ` set (fst (view s))" "view s1 = view s"
        using e by (auto simp: effect_or_fault_def spec_message_def split: if_splits)
      then show ?thesis
        using run a s0 True b e by cases (simp_all add: ingest_message_def db_bind_def db_return_def)
    next
      case ins: True
      then have new: "message_key m \<notin> message_key ` set (fst (view s))" "view s1 = (fst (view s) @ [stored m], snd (view s))" "allowed s1 = allowed s"
        using e by (auto simp: effect_or_fault_def spec_message_def split: if_splits)
      show ?thesis
      proof (cases "parse_message_text b58 to_lower (xm_text m)")
        case None
        then show ?thesis
          using run a s0 True b ins ok new by (simp add: ingest_message_def db_bind_def db_fail_def)
      next
        case (Some parsed)
        obtain r2 j2 s2 where c: "mentions_loop S m (pm_mentions parsed) fault (j1, s1) = (r2, j2, s2)"
          using prod_cases3 by blast
        then have "r = map_sum id (\<lambda>_. True) r2" "s' = s2"
          using run a s0 True b ins Some by (auto simp: ingest_message_def db_bind_def db_return_def split: sum.splits)
        then show ?thesis
          using mentions_run [OF c] Some ok new by auto
      qed
    qed
  qed
qed

lemma ingest_refines:
  assumes "ingest_message b58 to_lower S m (\<lambda>_. False) (i, s) = (r, j, s')"
  shows "allowed s' = allowed s \<and> (r, view s') = spec_ingest b58 to_lower (allowed s (xm_channel_key m)) m (view s)"
  using ingest_run [OF assms] by (auto simp: spec_ingest_def spec_message_def Let_def split: option.splits)

end

subsection \<open>Both stores keep it\<close>

definition message_of_row :: "tg_message_row \<Rightarrow> RawChannelMessage" where
  "message_of_row r =
     \<lparr>xm_channel_key = tm_channel_key r, xm_message_id = tm_message_id r, xm_edit_version = tm_edit_version r, xm_posted_at = tm_posted_at r,
      xm_observed_at = tm_observed_at r, xm_author_ref = tm_author_ref r, xm_author_name = tm_author_name r, xm_text = tm_text_content r,
      xm_deleted = (tm_deleted_at r \<noteq> None), xm_has_media = False, xm_raw = tm_raw r\<rparr>"

definition pg_view :: "pg_messages \<Rightarrow> store_view" where
  "pg_view db = (map message_of_row (pg_rows db), pg_mentions db)"

definition pg_allowed :: "pg_messages \<Rightarrow> utext \<Rightarrow> bool" where
  "pg_allowed db key = (case find (\<lambda>r. tc_key r = key) (pg_channels db) of Some r \<Rightarrow> tc_allowlisted r | None \<Rightarrow> False)"

definition mem_view :: "memory_state \<Rightarrow> store_view" where
  "mem_view st = (map stored (my_messages st), my_mentions st)"

definition mem_allowed :: "memory_state \<Rightarrow> utext \<Rightarrow> bool" where
  "mem_allowed st key \<longleftrightarrow> key \<in> set (my_allowlist st)"

lemma row_message [simp]: "message_of_row (message_row_of h m) = stored m"
  by (simp add: message_of_row_def message_row_of_def stored_def)

lemma row_keys: "message_key ` message_of_row ` A = tg_row_key ` A"
  by (simp add: image_image message_key_def message_of_row_def tg_row_key_def)

lemma row_key [simp]: "tg_row_key (message_row_of h m) = message_key m"
  by (simp add: message_key_def message_row_of_def tg_row_key_def)

lemma stored_keys: "message_key ` stored ` A = message_key ` A"
  by (simp add: image_image message_key_def stored_def)

lemma find_known: "find (\<lambda>r. f r = k) rows = None \<longleftrightarrow> k \<notin> f ` set rows"
  by (auto simp: find_None_iff)

lemma pg_allowed_known: "pg_allowed db key \<Longrightarrow> key \<in> tc_key ` set (pg_channels db)"
  using find_known [of tc_key key "pg_channels db"] by (auto simp: pg_allowed_def split: option.splits)

lemma known_channel:
  "key \<in> tc_key ` set rows \<Longrightarrow> insert_new tc_key (new_channel key status cursor seen) rows = (False, rows)"
  by (simp add: insert_new_def new_channel_def)

lemma find_map_same:
  "(\<And>r. f (g r) = f r) \<Longrightarrow> find (\<lambda>r. f r = k) (map g rows) = map_option g (find (\<lambda>r. f r = k) rows)"
  by (induction rows) auto

lemma pg_update_allowed:
  assumes "pg_update_channel key status cursor seen fault (i, db) = (r, j, db')" "key \<in> tc_key ` set (pg_channels db)"
  shows "pg_allowed db' = pg_allowed db"
proof (cases "fault i")
  case True
  then show ?thesis
    using assms(1) by (simp add: pg_update_channel_def db_stmt_def)
next
  case False
  let ?g = "\<lambda>r. if tc_key r = key then r\<lparr>tc_status := status, tc_last_cursor := or_else cursor (tc_last_cursor r),
      tc_last_observed_at := or_else seen (tc_last_observed_at r)\<rparr> else r"
  have "pg_channels db' = map ?g (pg_channels db)"
    using assms False by (auto simp: pg_update_channel_def db_stmt_def)
  moreover have "find (\<lambda>r. tc_key r = k) (map ?g (pg_channels db)) = map_option ?g (find (\<lambda>r. tc_key r = k) (pg_channels db))" for k
    by (rule find_map_same) simp
  ultimately show ?thesis
    by (auto simp: pg_allowed_def fun_eq_iff split: option.split)
qed

interpretation pg: store_contract "pg_store h" pg_view pg_allowed for h
proof
  fix key fault i s r j s'
  assume "ms_channel_allowlisted (pg_store h) key fault (i, s) = (r, j, s')"
  then show "s' = s \<and> effect_or_fault fault r (pg_view s) (pg_view s) (pg_allowed s key, pg_view s)"
    by (auto simp: pg_store_def pg_channel_allowlisted_def db_stmt_def effect_or_fault_def pg_allowed_def split: if_splits)
next
  fix m fault i s r j s'
  assume run: "ms_insert_message (pg_store h) m fault (i, s) = (r, j, s')" and "pg_allowed s (xm_channel_key m)"
  then have "insert_new tc_key (new_channel (xm_channel_key m) ''active'' None None) (pg_channels s) = (False, pg_channels s)"
    by (intro known_channel pg_allowed_known)
  then show "pg_allowed s' = pg_allowed s \<and> effect_or_fault fault r (pg_view s) (pg_view s') (spec_message m (pg_view s))"
    using run
    by (auto simp: pg_store_def pg_insert_message_def db_bind_def db_stmt_def effect_or_fault_def pg_allowed_def spec_message_def pg_view_def row_keys
        insert_new_def split: if_splits)
next
  fix x fault i s r j s'
  assume "ms_insert_mention (pg_store h) x fault (i, s) = (r, j, s')"
  then show "pg_allowed s' = pg_allowed s \<and> effect_or_fault fault r (pg_view s) (pg_view s') (spec_mention x (pg_view s))"
    by (auto simp: pg_store_def pg_insert_mention_def db_stmt_def effect_or_fault_def pg_allowed_def spec_mention_def pg_view_def insert_new_def split: if_splits)
next
  fix key status cursor seen fault i s u j s'
  assume run: "ms_update_channel (pg_store h) key status cursor seen fault (i, s) = (u, j, s')"
  then have up: "pg_update_channel key status cursor seen fault (i, s) = (u, j, s')"
    by (simp add: pg_store_def)
  then have "effect_or_fault fault u (pg_view s) (pg_view s') ((), pg_view s)"
    by (auto simp: pg_update_channel_def db_stmt_def effect_or_fault_def pg_view_def split: if_splits)
  then show "(pg_allowed s key \<longrightarrow> pg_allowed s' = pg_allowed s) \<and> effect_or_fault fault u (pg_view s) (pg_view s') ((), pg_view s)"
    using pg_update_allowed [OF up] pg_allowed_known by blast
qed

interpretation memory: store_contract memory_store mem_view mem_allowed
proof
  fix key fault i s r j s'
  assume "ms_channel_allowlisted memory_store key fault (i, s) = (r, j, s')"
  then show "s' = s \<and> effect_or_fault fault r (mem_view s) (mem_view s) (mem_allowed s key, mem_view s)"
    by (auto simp: memory_store_def mem_channel_allowlisted_def db_stmt_def effect_or_fault_def mem_allowed_def split: if_splits)
next
  fix m :: RawChannelMessage and fault i and s :: memory_state and r j s'
  assume run: "ms_insert_message memory_store m fault (i, s) = (r, j, s')"
  have "list_ex (\<lambda>x. xm_channel_key x = xm_channel_key m \<and> xm_message_id x = xm_message_id m \<and> xm_edit_version x = xm_edit_version m) (my_messages s)
      \<longleftrightarrow> message_key m \<in> message_key ` set (my_messages s)"
    by (auto simp: list_ex_iff image_iff message_key_def) metis
  then show "mem_allowed s' = mem_allowed s \<and> effect_or_fault fault r (mem_view s) (mem_view s') (spec_message m (mem_view s))"
    using run by (auto simp: memory_store_def mem_insert_message_def db_stmt_def effect_or_fault_def mem_allowed_def fun_eq_iff spec_message_def mem_view_def
        stored_keys split: if_splits)
next
  fix x :: MentionRow and fault i and s :: memory_state and r j s'
  assume run: "ms_insert_mention memory_store x fault (i, s) = (r, j, s')"
  have "list_ex (\<lambda>y. mw_channel_key y = mw_channel_key x \<and> mw_message_id y = mw_message_id x \<and> mw_edit_version y = mw_edit_version x \<and>
          mw_mention_kind y = mw_mention_kind x \<and> mw_extracted_value y = mw_extracted_value x) (my_mentions s)
      \<longleftrightarrow> mention_key x \<in> mention_key ` set (my_mentions s)"
    by (auto simp: list_ex_iff image_iff mention_key_def) metis
  then show "mem_allowed s' = mem_allowed s \<and> effect_or_fault fault r (mem_view s) (mem_view s') (spec_mention x (mem_view s))"
    using run by (auto simp: memory_store_def mem_insert_mention_def db_stmt_def effect_or_fault_def mem_allowed_def fun_eq_iff spec_mention_def mem_view_def
        split: if_splits)
next
  fix key status cursor seen fault i s u j s'
  assume "ms_update_channel memory_store key status cursor seen fault (i, s) = (u, j, s')"
  then show "(mem_allowed s key \<longrightarrow> mem_allowed s' = mem_allowed s) \<and> effect_or_fault fault u (mem_view s) (mem_view s') ((), mem_view s)"
    by (auto simp: memory_store_def mem_update_channel_def db_stmt_def effect_or_fault_def mem_allowed_def fun_eq_iff mem_view_def Let_def
        split: if_splits option.splits)
qed

section \<open>The reference store\<close>

fun ingest_all :: "(utext \<Rightarrow> nat option) \<Rightarrow> (utext \<Rightarrow> utext) \<Rightarrow> 's message_store \<Rightarrow> RawChannelMessage list \<Rightarrow> 's \<Rightarrow> (tg_failure tx_error + bool) list \<times> 's" where
  "ingest_all b58 to_lower S [] s = ([], s)"
| "ingest_all b58 to_lower S (m # ms) s =
     (case run_db (ingest_message b58 to_lower S m) (\<lambda>_. False) s of
        (r, s1) \<Rightarrow> (case ingest_all b58 to_lower S ms s1 of (rs, s2) \<Rightarrow> (r # rs, s2)))"

fun spec_all :: "(utext \<Rightarrow> nat option) \<Rightarrow> (utext \<Rightarrow> utext) \<Rightarrow> (utext \<Rightarrow> bool) \<Rightarrow> RawChannelMessage list \<Rightarrow> store_view \<Rightarrow> (tg_failure tx_error + bool) list \<times> store_view" where
  "spec_all b58 to_lower allowed [] v = ([], v)"
| "spec_all b58 to_lower allowed (m # ms) v =
     (case spec_ingest b58 to_lower (allowed (xm_channel_key m)) m v of
        (r, v1) \<Rightarrow> (case spec_all b58 to_lower allowed ms v1 of (rs, v2) \<Rightarrow> (r # rs, v2)))"

context store_contract begin

lemma ingest_all_refines:
  "ingest_all b58 to_lower S ms s = (rs, s') \<Longrightarrow> (rs, view s') = spec_all b58 to_lower (allowed s) ms (view s)"
proof (induction ms arbitrary: s rs s')
  case (Cons m ms)
  obtain r j s1 where m: "ingest_message b58 to_lower S m (\<lambda>_. False) (0, s) = (r, j, s1)"
    using prod_cases3 by blast
  obtain rs2 s2 where rest: "ingest_all b58 to_lower S ms s1 = (rs2, s2)"
    by fastforce
  have "rs = r # rs2" "s' = s2"
    using Cons.prems m rest by (simp_all add: run_db_def)
  moreover have "spec_ingest b58 to_lower (allowed s (xm_channel_key m)) m (view s) = (r, view s1)" "allowed s1 = allowed s"
    using ingest_refines [OF m] by simp_all
  moreover have "spec_all b58 to_lower (allowed s1) ms (view s1) = (rs2, view s2)"
    using Cons.IH [OF rest] by simp
  ultimately show ?case
    by simp
qed simp

end

text \<open>C35: The in-memory store is a reference for the database. From states that hold the same messages and mentions and allow the same channels,
  every sequence of ingestions without faults gives the same answers and ends in states that hold the same, and both are what
  the specification by lists gives: a message of a channel that is not allowed or a known version leaves no trace, and a new one
  adds itself and its mentions, each key once.\<close>

theorem stores_agree:
  assumes "pg_view db = mem_view st" "pg_allowed db = mem_allowed st"
  shows "(fst (ingest_all b58 to_lower (pg_store h) ms db), pg_view (snd (ingest_all b58 to_lower (pg_store h) ms db))) =
      spec_all b58 to_lower (mem_allowed st) ms (mem_view st) \<and>
    fst (ingest_all b58 to_lower (pg_store h) ms db) = fst (ingest_all b58 to_lower memory_store ms st) \<and>
    pg_view (snd (ingest_all b58 to_lower (pg_store h) ms db)) = mem_view (snd (ingest_all b58 to_lower memory_store ms st))"
  using pg.ingest_all_refines [OF surjective_pairing, of b58 to_lower h ms db] memory.ingest_all_refines [OF surjective_pairing, of b58 to_lower ms st] assms
  by (metis fst_conv snd_conv)

definition sample_raw :: RawChannelMessage where
  "sample_raw = \<lparr>xm_channel_key = [97], xm_message_id = 1, xm_edit_version = 0, xm_posted_at = None, xm_observed_at = 5, xm_author_ref = None,
     xm_author_name = None, xm_text = None, xm_deleted = False, xm_has_media = True, xm_raw = JNull\<rparr>"

definition sample_pg :: pg_messages where
  "sample_pg = \<lparr>pg_channels = [new_channel [97] ''active'' None None], pg_rows = [], pg_mentions = []\<rparr>"

theorem stores_agree_witness:
  "fst (ingest_all (\<lambda>_. None) id (pg_store (\<lambda>_. [])) [sample_raw, sample_raw] sample_pg) = [Inr True, Inr False]"
proof -
  have same: "pg_view sample_pg = mem_view (memory_new [[97]])" "pg_allowed sample_pg = mem_allowed (memory_new [[97]])"
    by (auto simp: pg_view_def mem_view_def sample_pg_def memory_new_def pg_allowed_def mem_allowed_def new_channel_def fun_eq_iff)
  have "fst (spec_all (\<lambda>_. None) id (mem_allowed (memory_new [[97]])) [sample_raw, sample_raw] (mem_view (memory_new [[97]]))) = [Inr True, Inr False]"
    by (simp add: spec_ingest_def mem_allowed_def memory_new_def mem_view_def sample_raw_def spec_message_def parse_message_text_def media_message_def
        spec_mentions_def message_key_def stored_def)
  then show ?thesis
    using stores_agree [OF same, of "\<lambda>_. None" id "\<lambda>_. []" "[sample_raw, sample_raw]"] by (metis fst_conv)
qed

section \<open>Once and never completed\<close>

definition consistent_view :: "store_view \<Rightarrow> bool" where
  "consistent_view v \<longleftrightarrow> distinct (map message_key (fst v)) \<and> distinct (map mention_key (snd v)) \<and>
     (\<forall>r \<in> set (snd v). (mw_channel_key r, mw_message_id r, mw_edit_version r) \<in> message_key ` set (fst v))"

lemma mention_row_message: "(mw_channel_key (mention_row_of m p), mw_message_id (mention_row_of m p), mw_edit_version (mention_row_of m p)) = message_key m"
  by (cases "mn_kind p") (simp_all add: mention_row_of_def message_key_def)

lemma spec_mentions_keeps:
  "fst (spec_mentions m ps v) = fst v \<and>
   mention_key ` set (snd (spec_mentions m ps v)) = (mention_key \<circ> mention_row_of m) ` set ps \<union> mention_key ` set (snd v) \<and>
   (message_key m \<in> message_key ` set (fst v) \<longrightarrow> consistent_view v \<longrightarrow> consistent_view (spec_mentions m ps v))"
proof (induction ps arbitrary: v)
  case (Cons p ps)
  let ?w = "snd (spec_mention (mention_row_of m p) v)"
  have w: "fst ?w = fst v" "mention_key ` set (snd ?w) = insert (mention_key (mention_row_of m p)) (mention_key ` set (snd v))"
    by (auto simp: spec_mention_def)
  have "consistent_view ?w" if "message_key m \<in> message_key ` set (fst v)" "consistent_view v"
    using that mention_row_message [of m p] by (auto simp: spec_mention_def consistent_view_def)
  then show ?case
    using Cons.IH [of ?w] w by (auto simp: spec_mentions_def)
qed (simp add: spec_mentions_def)

lemma new_message_consistent:
  "consistent_view v \<Longrightarrow> message_key m \<notin> message_key ` set (fst v) \<Longrightarrow> consistent_view (fst v @ [stored m], snd v)"
  using stored_keys [of "{m}"] by (auto simp: consistent_view_def)

context store_contract begin

lemma ingest_consistent:
  assumes "ingest_message b58 to_lower S m fault (i, s) = (r, j, s')" "consistent_view (view s)"
  shows "consistent_view (view s') \<and> allowed s' = allowed s \<and>
    (\<not> allowed s (xm_channel_key m) \<or> message_key m \<in> message_key ` set (fst (view s)) \<longrightarrow> view s' = view s \<and> r \<noteq> Inr True) \<and>
    (r = Inr True \<longrightarrow> (\<exists>parsed. parse_message_text b58 to_lower (xm_text m) = Some parsed \<and>
       (mention_key \<circ> mention_row_of m) ` set (pm_mentions parsed) \<subseteq> mention_key ` set (snd (view s'))))"
proof -
  let ?v = "(fst (view s) @ [stored m], snd (view s))"
  have k: "message_key m \<in> message_key ` set (fst ?v)"
    using stored_keys [of "{m}"] by auto
  note i = ingest_run [OF assms(1)]
  have ok: "allowed s' = allowed s"
    using i by blast
  consider "view s' = view s" "r = Inl TxFault \<or> r = Inr False"
    | "message_key m \<notin> message_key ` set (fst (view s))" "allowed s (xm_channel_key m)" "parse_message_text b58 to_lower (xm_text m) = None"
      "r = Inl (TxAbort MessagePanic)" "view s' = ?v"
    | parsed n where "message_key m \<notin> message_key ` set (fst (view s))" "allowed s (xm_channel_key m)"
      "parse_message_text b58 to_lower (xm_text m) = Some parsed" "view s' = spec_mentions m (take n (pm_mentions parsed)) ?v"
      "r = Inr True \<and> n = length (pm_mentions parsed) \<or> r = Inl TxFault"
    using i by (auto simp: Let_def split: option.splits)
  then show ?thesis
  proof cases
    case 1
    then show ?thesis using assms(2) ok by auto
  next
    case 2
    then show ?thesis using new_message_consistent [OF assms(2) 2(1)] ok by simp
  next
    case 3
    have "consistent_view ?v"
      by (rule new_message_consistent [OF assms(2) 3(1)])
    then show ?thesis
      using 3 ok k spec_mentions_keeps [of m "take n (pm_mentions parsed)" ?v] by auto
  qed
qed

end

text \<open>C36: Ingestion is gated, once and never completed. Whichever statements fail, the tables keep their keys unique and every mention has its
  message. A message of a channel that is not allowed, or whose version is known, leaves no trace; a success means that every
  mention of the text is stored. But a message whose ingestion failed after its row was written is known from then on: however often it is
  delivered again, its missing mentions are never added and no delivery succeeds.\<close>

theorem ingestion_is_never_completed:
  assumes "consistent_view (pg_view db)"
    and "run_db (ingest_message b58 to_lower (pg_store h) m) fault db = (r, db')"
  shows "consistent_view (pg_view db') \<and>
    (\<not> pg_allowed db (xm_channel_key m) \<or> message_key m \<in> message_key ` set (fst (pg_view db)) \<longrightarrow> pg_view db' = pg_view db \<and> r \<noteq> Inr True) \<and>
    (r = Inr True \<longrightarrow> (\<exists>parsed. parse_message_text b58 to_lower (xm_text m) = Some parsed \<and>
       (mention_key \<circ> mention_row_of m) ` set (pm_mentions parsed) \<subseteq> mention_key ` set (snd (pg_view db')))) \<and>
    (message_key m \<in> message_key ` set (fst (pg_view db')) \<longrightarrow>
       (\<forall>again. pg_view (snd (run_db (ingest_message b58 to_lower (pg_store h) m) again db')) = pg_view db' \<and>
          fst (run_db (ingest_message b58 to_lower (pg_store h) m) again db') \<noteq> Inr True))"
proof -
  have run: "consistent_view (pg_view b) \<and>
      (\<not> pg_allowed a (xm_channel_key m) \<or> message_key m \<in> message_key ` set (fst (pg_view a)) \<longrightarrow> pg_view b = pg_view a \<and> q \<noteq> Inr True) \<and>
      (q = Inr True \<longrightarrow> (\<exists>parsed. parse_message_text b58 to_lower (xm_text m) = Some parsed \<and>
         (mention_key \<circ> mention_row_of m) ` set (pm_mentions parsed) \<subseteq> mention_key ` set (snd (pg_view b))))"
    if ran: "run_db (ingest_message b58 to_lower (pg_store h) m) f a = (q, b)" and cons: "consistent_view (pg_view a)" for f a q b
  proof -
    obtain j where "ingest_message b58 to_lower (pg_store h) m f (0, a) = (q, j, b)"
      using ran by (auto simp: run_db_def split: prod.splits)
    from pg.ingest_consistent [OF this cons] show ?thesis
      by blast
  qed
  note first = run [OF assms(2,1)]
  have "pg_view (snd (run_db (ingest_message b58 to_lower (pg_store h) m) again db')) = pg_view db' \<and>
      fst (run_db (ingest_message b58 to_lower (pg_store h) m) again db') \<noteq> Inr True"
    if "message_key m \<in> message_key ` set (fst (pg_view db'))" for again
    using run [OF surjective_pairing, where f = again and a = db'] first that by blast
  then show ?thesis
    using first by blast
qed

theorem ingestion_is_never_completed_witness:
  "fst (run_db (ingest_message (\<lambda>_. None) id (pg_store (\<lambda>_. [])) sample_raw) (\<lambda>_. False)
     (snd (run_db (ingest_message (\<lambda>_. None) id (pg_store (\<lambda>_. [])) sample_raw) (\<lambda>_. False) sample_pg))) \<noteq> Inr True"
proof -
  have c: "consistent_view (pg_view sample_pg)"
    by (simp add: consistent_view_def pg_view_def sample_pg_def)
  have "message_key sample_raw \<in> message_key ` set (fst (pg_view (snd (run_db (ingest_message (\<lambda>_. None) id (pg_store (\<lambda>_. [])) sample_raw) (\<lambda>_. False) sample_pg))))"
    by (simp add: run_db_def ingest_message_def db_bind_def pg_store_def pg_channel_allowlisted_def db_stmt_def sample_pg_def new_channel_def
        sample_raw_def pg_insert_message_def insert_new_def parse_message_text_def media_message_def db_return_def pg_view_def)
      (simp add: message_key_def stored_def)
  then show ?thesis
    using ingestion_is_never_completed [OF c surjective_pairing, of "\<lambda>_. None" id "\<lambda>_. []" sample_raw "\<lambda>_. False"] by blast
qed

section \<open>Pauses\<close>

definition channel_state :: "pg_messages \<Rightarrow> utext \<Rightarrow> (string \<times> utext option) option" where
  "channel_state db key = map_option (\<lambda>r. (tc_status r, tc_last_cursor r)) (find (\<lambda>r. tc_key r = key) (pg_channels db))"

text \<open>The messages a poll fetches: up to the limit and the first error.\<close>

fun fetched_messages :: "nat \<Rightarrow> (utext + tg_message) list \<Rightarrow> tg_message list" where
  "fetched_messages n [] = []"
| "fetched_messages n (x # xs) = (case x of Inl _ \<Rightarrow> [] | Inr m \<Rightarrow> if 0 < n then m # fetched_messages (n - 1) xs else [])"

lemma history_loop_run:
  "history_loop E S key now limit items n mx fault (i, s) = (Inr (k, c), j, s') \<Longrightarrow>
   k = n + length (fetched_messages (as_u32 limit - n) items) \<and> c = fold max (map tx_id (fetched_messages (as_u32 limit - n) items)) mx"
proof (induction items arbitrary: n mx i s)
  case (Cons x xs)
  show ?case
  proof (cases "n < as_u32 limit")
    case False
    then show ?thesis
      using Cons.prems by (auto simp: db_return_def split: sum.split)
  next
    case True
    show ?thesis
    proof (cases x)
      case (Inl e)
      then show ?thesis
        using Cons.prems True by (auto simp: db_bind_def db_return_def split: prod.splits sum.splits)
    next
      case (Inr m)
      obtain r0 j0 t where m: "db_ignore (ingest_message (te_b58 E) (te_to_lower E) S (raw_of key now m)) fault (i, s) = (r0, j0, t)"
        using prod_cases3 by blast
      moreover have "(if mx < tx_id m then tx_id m else mx) = max mx (tx_id m)"
        by auto
      ultimately have "history_loop E S key now limit xs (n + 1) (max mx (tx_id m)) fault (j0, t) = (Inr (k, c), j, s')"
        using Cons.prems True Inr by (cases r0) (simp_all add: db_bind_def)
      from Cons.IH [OF this] show ?thesis
        using True Inr by (simp add: max.commute)
    qed
  qed
qed (simp add: db_return_def)

lemma find_append_absent: "k \<notin> f ` set xs \<Longrightarrow> find (\<lambda>r. f r = k) (xs @ ys) = find (\<lambda>r. f r = k) ys"
  by (induction xs) auto

lemma update_state:
  "pg_update_channel key status cursor seen fault (i, db) = (Inr u, j, db') \<Longrightarrow>
   \<exists>old. channel_state db' key = Some (status, or_else cursor old)"
proof -
  assume run: "pg_update_channel key status cursor seen fault (i, db) = (Inr u, j, db')"
  let ?g = "\<lambda>r. if tc_key r = key then r\<lparr>tc_status := status, tc_last_cursor := or_else cursor (tc_last_cursor r),
      tc_last_observed_at := or_else seen (tc_last_observed_at r)\<rparr> else r"
  show "\<exists>old. channel_state db' key = Some (status, or_else cursor old)"
  proof (cases "key \<in> tc_key ` set (pg_channels db)")
    case True
    then obtain r where r: "find (\<lambda>r. tc_key r = key) (pg_channels db) = Some r" "tc_key r = key"
      using find_known [of tc_key key "pg_channels db"] by (auto simp: find_Some_iff)
    have "pg_channels db' = map ?g (pg_channels db)"
      using run True by (auto simp: pg_update_channel_def db_stmt_def split: if_splits)
    then have "find (\<lambda>r. tc_key r = key) (pg_channels db') = Some (?g r)"
      using find_map_same [of tc_key ?g key "pg_channels db"] r(1) by simp
    then show ?thesis
      using r(2) by (auto simp: channel_state_def)
  next
    case False
    then have "pg_channels db' = pg_channels db @ [new_channel key status cursor seen]"
      using run by (auto simp: pg_update_channel_def db_stmt_def split: if_splits)
    then have "find (\<lambda>r. tc_key r = key) (pg_channels db') = Some (new_channel key status cursor seen)"
      using find_append_absent [OF False] by (simp add: new_channel_def)
    then have "channel_state db' key = Some (status, or_else cursor None)"
      by (cases cursor) (simp_all add: channel_state_def new_channel_def)
    then show ?thesis
      by blast
  qed
qed

text \<open>C37: A pause does not last, or lasts forever. When a name resolves, a poll that ends without an error of the store leaves the channel active,
  with the largest id fetched as its cursor, even 0, whatever error - a flood wait, a ban, lost authorization - ended its history;
  the pause it wrote is overwritten. When the flood wait meets the resolution of the name, the channel is left in the pause.\<close>

theorem history_errors_do_not_pause:
  assumes "run_db (poll_channel E (pg_store h) key now limit) fault db = (Inr n, db')"
  shows "(te_resolve E key = Inr True \<longrightarrow>
      channel_state db' key = Some (''active'',
        Some (lit (show_int (fold max (map tx_id (fetched_messages (as_u32 limit) (te_history E key))) 0)))) \<and>
      n = length (fetched_messages (as_u32 limit) (te_history E key))) \<and>
    (\<forall>err seconds. te_resolve E key = Inl err \<longrightarrow> classify_error (te_to_lower E) err = FloodWait seconds \<longrightarrow>
      n = 0 \<and> map_option fst (channel_state db' key) = Some ''flood_wait'')"
proof (intro conjI [of "_ \<longrightarrow> _"] impI allI)
  assume res: "te_resolve E key = Inr True"
  obtain r0 j0 t where l: "history_loop E (pg_store h) key now limit (te_history E key) 0 0 fault (0, db) = (r0, j0, t)"
    using prod_cases3 by blast
  then obtain k c where r0: "r0 = Inr (k, c)"
    using assms res by (cases r0) (auto simp: run_db_def poll_channel_def db_bind_def)
  obtain r1 j1 t1 where u: "pg_update_channel key ''active'' (Some (lit (show_int c))) (Some now) fault (j0, t) = (r1, j1, t1)"
    using prod_cases3 by blast
  then have "r1 = Inr ()" "t1 = db'" "n = k"
    using assms res l r0 by (cases r1; auto simp: run_db_def poll_channel_def db_bind_def db_return_def pg_store_def)+
  then show "channel_state db' key = Some (''active'', Some (lit (show_int (fold max (map tx_id (fetched_messages (as_u32 limit) (te_history E key))) 0)))) \<and>
      n = length (fetched_messages (as_u32 limit) (te_history E key))"
    using history_loop_run [OF l [unfolded r0]] update_state u by fastforce
next
  fix err seconds
  assume res: "te_resolve E key = Inl err" "classify_error (te_to_lower E) err = FloodWait seconds"
  obtain r1 j1 t1 where u: "pg_update_channel key ''flood_wait'' None None fault (0, db) = (r1, j1, t1)"
    using prod_cases3 by blast
  then have "r1 = Inr ()" "t1 = db'" "n = 0"
    using assms res by (cases r1; auto simp: run_db_def poll_channel_def handle_channel_error_def db_bind_def db_return_def pg_store_def)+
  then show "n = 0 \<and> map_option fst (channel_state db' key) = Some ''flood_wait''"
    using update_state [of key "''flood_wait''" None None fault 0 db "()" j1 db'] u by auto
qed

definition own_rows :: "utext \<Rightarrow> pg_messages \<Rightarrow> tg_channel_row list" where
  "own_rows key db = filter (\<lambda>r. tc_key r = key) (pg_channels db)"

interpretation apart: state_order "\<lambda>s t. own_rows key t = own_rows key s" for key
  by unfold_locales simp_all

lemma filter_map_other: "(\<And>r. f (g r) = f r) \<Longrightarrow> (\<And>r. f r = k \<Longrightarrow> g r = r) \<Longrightarrow> filter (\<lambda>r. f r = k) (map g rows) = filter (\<lambda>r. f r = k) rows"
  by (induction rows) auto

lemma update_apart:
  assumes "other \<noteq> key"
  shows "db_moves (\<lambda>s t. own_rows key t = own_rows key s) (pg_update_channel other status cursor seen)"
  unfolding pg_update_channel_def
proof (rule apart.moves_stmt)
  fix s :: pg_messages
  let ?g = "\<lambda>r. if tc_key r = other then r\<lparr>tc_status := status, tc_last_cursor := or_else cursor (tc_last_cursor r),
      tc_last_observed_at := or_else seen (tc_last_observed_at r)\<rparr> else r"
  have "filter (\<lambda>r. tc_key r = key) (map ?g (pg_channels s)) = filter (\<lambda>r. tc_key r = key) (pg_channels s)"
    by (rule filter_map_other) (use assms in auto)
  then show "own_rows key (snd ((), s\<lparr>pg_channels := if other \<in> tc_key ` set (pg_channels s) then map ?g (pg_channels s)
      else pg_channels s @ [new_channel other status cursor seen]\<rparr>)) = own_rows key s"
    using assms by (simp add: own_rows_def new_channel_def)
qed

lemma error_apart: "other \<noteq> key \<Longrightarrow> db_moves (\<lambda>s t. own_rows key t = own_rows key s) (handle_channel_error (pg_store h) other err)"
  by (cases err) (auto simp: handle_channel_error_def pg_store_def intro: update_apart apart.moves_return)

lemma mention_apart: "db_moves (\<lambda>s t. own_rows key t = own_rows key s) (ms_insert_mention (pg_store h) x)"
  unfolding pg_store_def pg_insert_mention_def message_store.simps
  by (rule apart.moves_stmt) (simp add: own_rows_def split: prod.split)

lemma allowed_apart: "db_moves (\<lambda>s t. own_rows key t = own_rows key s) (ms_channel_allowlisted (pg_store h) other)"
  unfolding pg_store_def pg_channel_allowlisted_def message_store.simps by (rule apart.moves_stmt) simp

lemma message_apart:
  "xm_channel_key m \<noteq> key \<Longrightarrow> db_moves (\<lambda>s t. own_rows key t = own_rows key s) (ms_insert_message (pg_store h) m)"
  unfolding pg_store_def pg_insert_message_def message_store.simps
  by (intro apart.moves_bind apart.moves_stmt) (auto simp: own_rows_def insert_new_def new_channel_def split: prod.split)

lemma status_apart:
  "other \<noteq> key \<Longrightarrow> db_moves (\<lambda>s t. own_rows key t = own_rows key s) (ms_update_channel (pg_store h) other status cursor seen)"
  unfolding pg_store_def message_store.simps by (rule update_apart)

lemmas store_apart = mention_apart allowed_apart message_apart status_apart

lemma mentions_apart: "db_moves (\<lambda>s t. own_rows key t = own_rows key s) (mentions_loop (pg_store h) m ps)"
  by (induction ps) (auto intro!: apart.moves_return apart.moves_bind store_apart)

lemma ingest_apart:
  "xm_channel_key m \<noteq> key \<Longrightarrow> db_moves (\<lambda>s t. own_rows key t = own_rows key s) (ingest_message b58 to_lower (pg_store h) m)"
  unfolding ingest_message_def
  by (intro apart.moves_bind) (auto intro!: apart.moves_intros mentions_apart store_apart split: option.split)

lemma ignore_moves: "db_moves R m \<Longrightarrow> db_moves R (db_ignore m)"
  by (simp add: db_moves_def db_ignore_def case_prod_beta)

lemma history_apart: "other \<noteq> key \<Longrightarrow> db_moves (\<lambda>s t. own_rows key t = own_rows key s) (history_loop E (pg_store h) other now limit items n mx)"
proof (induction items arbitrary: n mx)
  case (Cons x xs)
  then show ?case
    by (cases x) (auto simp: raw_of_def intro!: apart.moves_return apart.moves_bind error_apart ignore_moves ingest_apart)
qed (simp add: apart.moves_return)

lemma poll_apart: "other \<noteq> key \<Longrightarrow> db_moves (\<lambda>s t. own_rows key t = own_rows key s) (poll_channel E (pg_store h) other now limit)"
  unfolding poll_channel_def
  by (auto intro!: apart.moves_return apart.moves_bind error_apart history_apart store_apart split: sum.split bool.split prod.split)

lemma report_apart:
  assumes "other \<noteq> key"
  shows "db_moves (\<lambda>s t. own_rows key t = own_rows key s) (poll_or_report E (pg_store h) other now limit)"
  unfolding db_moves_def
proof (intro allI)
  fix fault i s
  obtain r j t where p: "poll_channel E (pg_store h) other now limit fault (i, s) = (r, j, t)"
    using prod_cases3 by blast
  have t: "own_rows key t = own_rows key s"
    using poll_apart [OF assms] p unfolding db_moves_def by (metis snd_conv)
  have e: "db_moves (\<lambda>s t. own_rows key t = own_rows key s)
      (db_bind (handle_channel_error (pg_store h) other (classify_error (te_to_lower E) (te_store_error E))) (\<lambda>_. db_return 0))"
    by (intro apart.moves_bind apart.moves_return error_apart assms)
  show "own_rows key (snd (snd (poll_or_report E (pg_store h) other now limit fault (i, s)))) = own_rows key s"
  proof (cases "r = Inl TxFault")
    case True
    then show ?thesis
      using p t e [unfolded db_moves_def, rule_format, of fault j t] by (simp add: poll_or_report_def)
  next
    case False
    then have "poll_or_report E (pg_store h) other now limit fault (i, s) = (r, j, t)"
      using p by (auto simp: poll_or_report_def split: sum.splits tx_error.splits)
    then show ?thesis
      using t by simp
  qed
qed

lemma poll_all_apart: "key \<notin> set keys \<Longrightarrow> db_moves (\<lambda>s t. own_rows key t = own_rows key s) (poll_all_channels E (pg_store h) keys now limit n)"
  by (induction keys arbitrary: n) (auto intro!: apart.moves_return apart.moves_bind report_apart)

lemma tick_apart:
  assumes "list_all (\<lambda>r. tc_status r \<noteq> ''active'') (own_rows key db)"
  shows "own_rows key (snd (run_db (poll_tick E h now limit) fault db)) = own_rows key db"
proof -
  have out: "key \<notin> set (active_channels db)"
    using assms by (auto simp: own_rows_def active_channels_def list_all_iff)
  have "own_rows key (snd (snd (db_ignore (poll_all_channels E (pg_store h) (active_channels db) now limit 0) fault (i, db)))) = own_rows key db" for i
    using ignore_moves [OF poll_all_apart [OF out]] unfolding db_moves_def by blast
  then show ?thesis
    by (auto simp: run_db_def poll_tick_def db_bind_def db_unwrap_or_def db_stmt_def db_return_def case_prod_beta)
qed

text \<open>C38: Nothing resumes a paused channel. A channel without an active row - in a flood wait, disabled, without authorization - keeps its rows
  through any number of ticks of the worker, whatever the messenger answers and whichever statements fail, so a flood wait of seconds
  pauses the channel until someone sets it active by hand.\<close>

theorem paused_channels_stay_paused:
  assumes "list_all (\<lambda>r. tc_status r \<noteq> ''active'') (own_rows key db)"
  shows "own_rows key (fold (\<lambda>(E, now, limit, fault) db. snd (run_db (poll_tick E h now limit) fault db)) ticks db) = own_rows key db"
  using assms
proof (induction ticks arbitrary: db)
  case (Cons x ticks)
  obtain E now limit fault where x: "x = (E, now, limit, fault)"
    by (cases x)
  show ?case
    using Cons.IH [of "snd (run_db (poll_tick E h now limit) fault db)"] tick_apart [OF Cons.prems] Cons.prems x by simp
qed simp

definition flood_text :: utext where
  "flood_text = lit ''flood_wait_30''"

definition sample_tg :: tg_env where
  "sample_tg = \<lparr>te_b58 = (\<lambda>_. None), te_to_lower = id, te_resolve = (\<lambda>_. Inr True), te_history = (\<lambda>_. [Inl flood_text]), te_store_error = []\<rparr>"

theorem paused_channels_stay_paused_witness:
  "own_rows [97] (snd (run_db (poll_tick sample_tg (\<lambda>_. []) 7 10) (\<lambda>_. False)
     (sample_pg\<lparr>pg_channels := [new_channel [97] ''flood_wait'' None None]\<rparr>))) = [new_channel [97] ''flood_wait'' None None]"
  using paused_channels_stay_paused [of "[97]" "sample_pg\<lparr>pg_channels := [new_channel [97] ''flood_wait'' None None]\<rparr>" "\<lambda>_. []"
      "[(sample_tg, 7, 10, \<lambda>_. False)]"]
  by (simp add: own_rows_def new_channel_def)

lemma sample_flood: "classify_error id flood_text = FloodWait 30"
  by (simp add: flood_text_def classify_error_def contains_sub_def is_ascii_digit_def parse_u64_def map_filter_simps Let_def)

lemma sample_poll:
  "run_db (poll_channel sample_tg (pg_store (\<lambda>_. [])) [97] 7 10) (\<lambda>_. False) sample_pg =
   (Inr 0, sample_pg\<lparr>pg_channels := [\<lparr>tc_key = [97], tc_allowlisted = True, tc_last_cursor = Some (lit (show_int 0)), tc_last_observed_at = Some 7,
      tc_status = ''active''\<rparr>]\<rparr>)"
  by (simp add: run_db_def poll_channel_def sample_tg_def as_u32_def db_bind_def sample_flood handle_channel_error_def pg_store_def pg_update_channel_def
      db_stmt_def sample_pg_def new_channel_def db_return_def)

theorem history_errors_do_not_pause_witness:
  "channel_state (snd (run_db (poll_channel sample_tg (pg_store (\<lambda>_. [])) [97] 7 10) (\<lambda>_. False) sample_pg)) [97] =
     Some (''active'', Some (lit (show_int 0)))"
  using history_errors_do_not_pause [OF sample_poll] by (simp add: sample_poll) (simp add: sample_tg_def)

text \<open>In the database an error of an unknown channel adds it to the allowlist, in memory it does not; and a disabled channel stays on the allowlist.\<close>

lemma errors_allowlist_unknown_channels:
  assumes "key \<notin> tc_key ` set (pg_channels db)"
  shows "pg_allowed (snd (run_db (handle_channel_error (pg_store h) key ChannelBanned) (\<lambda>_. False) db)) key"
    "mem_allowed (snd (run_db (handle_channel_error memory_store key ChannelBanned) (\<lambda>_. False) st)) = mem_allowed st"
  using assms find_append_absent [OF assms]
  by (auto simp: run_db_def handle_channel_error_def pg_store_def pg_update_channel_def db_stmt_def pg_allowed_def new_channel_def
      memory_store_def mem_update_channel_def mem_allowed_def fun_eq_iff)

text \<open>The wait is the last number of the text, so a code printed after it is taken for the wait.\<close>

lemma wait_is_the_last_number: "classify_error id (lit ''flood wait 30 seconds (rpc error 420)'') = FloodWait 420"
  by (simp add: classify_error_def contains_sub_def is_ascii_digit_def parse_u64_def map_filter_simps Let_def)

end
