(* ===== verification/Spec2Isabelle.thy ===== *)
theory Spec2Isabelle
  imports Execution Autonomy Decision Signal_Gate Portfolio Source Ingest Wallet Narrative Queues Views Models Policy Outbox Scoring Recent Clusters Radar Gmgn Telegram_Parse Chains Wallet_Sync Sessions Admin Replay Telegram_Ingest
begin

text \<open>
  \<^bold>\<open>A verification library for solana-whale-intelligence.\<close>

  The program watches blockchains for the trades of informed wallets, turns them into evidence,
  decides whether an opportunity may be acted on, and keeps autonomous trading inside fixed
  limits. Its own logic sits in the Rust crate under \<^verbatim>\<open>src/\<close>: the domain modules of \<^verbatim>\<open>src/sf/\<close>
  (a file of frozen types per domain and a \<open>_runtime\<close> file of pure operations over them), and
  around them the workers, the database layer, the providers and the HTTP interface. This library
  models the pure decision logic and proves what makes it safe.

  \<^bold>\<open>Flow.\<close> Providers are chosen and their health is tracked (\<open>Source\<close>); raw payloads pass the
  ingestion pipeline under idempotency keys (\<open>Core\<close>, \<open>Ingest\<close>); swaps become cost basis and wallet
  profiles (\<open>Cost_Basis\<close>, \<open>Wallet\<close>); tokens, revivals, strategies and narratives move through their
  stages (\<open>Lifecycles\<close>, \<open>Narrative\<close>); the evidence is viewed through graph, caller, pool, dashboard
  and browser helpers (\<open>Views\<close>); a candidate passes the entry gate (\<open>Signal_Gate\<close>) and the decision
  evaluator (\<open>Decision\<close>); exposures are aggregated (\<open>Union_Find\<close>, \<open>Portfolio\<close>); an approved decision
  becomes an intent that runs through the execution state machine under kill switches and the
  signer checklist (\<open>Execution\<close>), autonomously only within the rollout limits (\<open>Autonomy\<close>); and the
  worker queues are paused under pressure (\<open>Queues\<close>).

  \<^bold>\<open>Theories and sources.\<close>
  \<^item> \<open>Prelude\<close>: Rust's integers with wrap-around, strings, \<open>f64\<close> values and comparisons, early-return
    chains (\<open>first_failure\<close>), JSON, hash maps with unspecified iteration order, and the external
    decimal type as a record of operations with the laws \<open>decimal_laws\<close>.
  \<^item> \<open>Float64\<close>: rounding of \<open>f64\<close> arithmetic (53 bits, ties to even, subnormals, overflow), proved
    monotone and exact on representable values.
  \<^item> \<open>Interfaces\<close>: the shared contracts as locales: transition machines (\<open>closed_machine\<close>,
    \<open>ranked_machine\<close>), stage ladders (\<open>stage_ladder\<close>, \<open>strict_ladder\<close>), printed enumerations
    (\<open>text_codec\<close>) and stores of committed keys (\<open>key_store\<close>). Each is interpreted on the model's own
    definitions in the theory of the component that provides them.
  \<^item> \<open>Core\<close>: \<^verbatim>\<open>sf/core.rs\<close>, \<^verbatim>\<open>sf/identity.rs\<close>, \<^verbatim>\<open>sf/auth.rs\<close>, \<^verbatim>\<open>sf/jobs.rs\<close>.
  \<^item> \<open>Source\<close>: \<^verbatim>\<open>sf/source.rs\<close>, \<^verbatim>\<open>sf/source_health_runtime.rs\<close>.
  \<^item> \<open>Ingest\<close>: \<^verbatim>\<open>sf/ingest.rs\<close>, \<^verbatim>\<open>sf/ingest_runtime.rs\<close>.
  \<^item> \<open>Cost_Basis\<close>, \<open>Wallet\<close>: \<^verbatim>\<open>sf/cost_basis.rs\<close>, \<^verbatim>\<open>sf/wallet.rs\<close>, \<^verbatim>\<open>sf/wallet_runtime.rs\<close>.
  \<^item> \<open>Lifecycles\<close>, \<open>Narrative\<close>: \<^verbatim>\<open>sf/token.rs\<close>, \<^verbatim>\<open>sf/revival.rs\<close>, \<^verbatim>\<open>sf/strategy.rs\<close>, \<^verbatim>\<open>sf/narrative.rs\<close>
    and their runtime files.
  \<^item> \<open>Views\<close>: \<^verbatim>\<open>sf/graph.rs\<close>, \<^verbatim>\<open>sf/caller.rs\<close>, \<^verbatim>\<open>sf/lp.rs\<close>, \<^verbatim>\<open>sf/dashboard.rs\<close>, \<^verbatim>\<open>sf/browser.rs\<close> and
    their runtime files.
  \<^item> \<open>Signal_Gate\<close>: \<^verbatim>\<open>sf/signal_gate.rs\<close>. \<open>Decision\<close>: \<^verbatim>\<open>sf/decision.rs\<close>, \<^verbatim>\<open>sf/decision_runtime.rs\<close> and
    the component classes of \<^verbatim>\<open>sf/portfolio.rs\<close>.
  \<^item> \<open>Union_Find\<close>, \<open>Portfolio\<close>: \<^verbatim>\<open>sf/portfolio.rs\<close>, \<^verbatim>\<open>sf/portfolio_runtime.rs\<close>.
  \<^item> \<open>Execution\<close>: \<^verbatim>\<open>sf/execution.rs\<close>, \<^verbatim>\<open>sf/intent.rs\<close>, \<^verbatim>\<open>sf/execution_runtime.rs\<close>. \<open>Autonomy\<close>:
    \<^verbatim>\<open>sf/autonomy.rs\<close>, \<^verbatim>\<open>sf/autonomy_runtime.rs\<close>.
  \<^item> \<open>Queues\<close>: \<^verbatim>\<open>queues.rs\<close>.
  \<^item> \<open>Models\<close>: the stored enumerations of \<^verbatim>\<open>models.rs\<close>. \<open>Policy\<close>: the label table of \<^verbatim>\<open>db.rs\<close> and \<^verbatim>\<open>filter.rs\<close>.
  \<^item> \<open>Decimals\<close>: more of the external decimal type and its laws. \<open>Transactions\<close>: database transactions
    with a fault schedule. \<open>Signals\<close>: \<^verbatim>\<open>signals.rs\<close> (gates, scores, fenced evaluation) and the claims of
    \<^verbatim>\<open>workers.rs\<close>. \<open>Outbox\<close>: the alert outbox of \<^verbatim>\<open>signals.rs\<close>, \<^verbatim>\<open>alerts.rs\<close>.
  \<^item> \<open>Scoring\<close>: \<^verbatim>\<open>scoring.rs\<close>. \<open>Recent\<close>: \<^verbatim>\<open>sf/recent.rs\<close>, \<^verbatim>\<open>sf/recent_runtime.rs\<close>.
  \<^item> \<open>Events\<close>: the event and radar records of \<^verbatim>\<open>models.rs\<close>. \<open>Clusters\<close>: \<^verbatim>\<open>graph.rs\<close>. \<open>Radar\<close>: \<^verbatim>\<open>funding_radar.rs\<close>.
  \<^item> \<open>Pool\<close>: \<^verbatim>\<open>helius.rs\<close>, with the contract of rate limiters as the locale \<open>burst_bucket\<close>. \<open>Gmgn\<close>: \<^verbatim>\<open>gmgn.rs\<close>.
  \<^item> \<open>Telegram_Parse\<close>: \<^verbatim>\<open>telegram_parse.rs\<close>, on code points with UTF-8 widths. \<open>Chains\<close>: \<^verbatim>\<open>chains.rs\<close>, the Solana
    and EVM adapters with the transport and the decimal type as arguments.
  \<^item> \<open>Wallet_Sync\<close>: \<^verbatim>\<open>ingest.rs\<close>, its tables in \<^verbatim>\<open>db.rs\<close> and the block poll of \<^verbatim>\<open>workers.rs\<close>, composing \<open>Chains\<close>, \<open>Pool\<close>,
    \<open>Policy\<close>, \<open>Clusters\<close> and \<open>Radar\<close>; the contract of an adapter is the locale \<open>chain_adapter\<close>.
  \<^item> \<open>Sessions\<close>: \<^verbatim>\<open>auth.rs\<close> and the login, logout and guards of \<^verbatim>\<open>admin.rs\<close>. \<open>Admin\<close>: the requests of \<^verbatim>\<open>admin.rs\<close> that change
    tables, with the contract of guards as the locale \<open>request_guard\<close> and of invariants over requests as \<open>request_invariant\<close>. \<open>Replay\<close>: \<^verbatim>\<open>replay.rs\<close>, \<^verbatim>\<open>narrative.rs\<close>, with readers that
    see only a cut of the tables as the locale \<open>cut_reader\<close>. \<open>Telegram_Ingest\<close>: \<^verbatim>\<open>telegram_ingest.rs\<close> and the polling of
    \<^verbatim>\<open>telegram_client.rs\<close>; the contract of message stores is the locale \<open>store_contract\<close>, kept by both stores.

  \<^bold>\<open>Correspondence.\<close> A struct is a record whose fields carry a two- or three-letter prefix, an enum a
  datatype, a \<open>pub fn\<close> a definition of the same name (prefixed by its module where two modules share
  a name, as in \<open>token_can_advance\<close> and \<open>provenance_can_advance\<close>). Mutating methods return the updated
  record. Loops are structural recursion over the list they iterate; the loops whose end is
  not structural (root search and path compression of union-find, the lot loop of the FIFO engine, the dependency roots, the request loops
  of the provider clients) are \<open>option\<close>-valued partial functions and it is proved when they return. Timestamps are unix seconds with
  wrapping 64-bit subtraction as in a release build; counters cast to 32 bits are reduced modulo
  \<open>2 ^ 32\<close>.

  \<^bold>\<open>Parameters.\<close> Code outside the crate is an argument of the definitions that use it: the decimal
  type of rust_decimal (hypothesis \<open>decimal_laws\<close>, satisfied by the exact rationals), the RFC 3339
  reader of chrono, the readers and printers of numbers, and the iteration order of hash maps
  (hypothesis: it permutes the entries).

  \<^bold>\<open>What is shown.\<close> Safety of the execution path (an intent is confirmed only through every step and
  never submitted twice, reserved capital is released exactly at the end, kill switches only
  restrict, the signer checklist and the autonomy limits cannot be weakened by configuration);
  fail-closed gates (decision evaluation, entry gate, revival, strategy stages, provenance proofs,
  provider eligibility); accounting (FIFO books balance, wallets are isolated, portfolio sums and
  correlation groups are right whatever the hash order); idempotency and honest reporting of the
  pipeline; bounds of scores; backpressure from the bottom.

  \<^bold>\<open>Not modelled.\<close> Database access and migrations, HTTP handlers, the
  transport of the provider clients, Telegram sessions, process start-up and logging: effects on external systems. Panics
  of the decimal type on overflow end the run and are outside the model.
\<close>

end
